(* ===== verification/Bybit_Prelude.thy ===== *)
theory Bybit_Prelude
  imports Complex_Main "HOL-Library.AList" "HOL-Library.Product_Lexorder"
begin

text \<open>
  The base theory of the development: the numeric idealisation, the JSON values the plugin
  receives, a result type for code that raises, and the generic lemmas on lists and
  dictionaries the component theories share.

  Numbers. Python integers are unbounded and become \<^typ>\<open>int\<close>. Python floats and
  \<open>decimal.Decimal\<close> values become exact rationals (\<^typ>\<open>rat\<close>): rounding of binary floats
  is not modelled, the tolerances the code carries for it are kept as they are. The values
  \<open>inf\<close> and \<open>nan\<close>, which Python's \<open>float\<close> constructor accepts, are kept apart by the
  parsing functions of \<open>Py_Values\<close>.

  Dictionaries whose iteration order the code relies on are association lists in insertion
  order (\<^const>\<open>AList.update\<close> replaces in place or appends, as a Python dict does).
\<close>

section \<open>Collections of facts\<close>

named_theorems ledger_simps "field-wise effect of the leg ledger's small operations"
named_theorems py_simps "evaluation of the Python value helpers"

section \<open>JSON values\<close>

text \<open>
  The values \<open>json.loads\<close> yields. A number literal with a fraction is \<open>PFloat\<close>.
\<close>

datatype py =
    PNone
  | PBool bool
  | PInt int
  | PFloat rat
  | PStr string
  | PList "py list"
  | PDict "(string \<times> py) list"

section \<open>Python list idioms\<close>

text \<open>\<open>del xs[:-n]\<close> keeps the last \<open>n\<close> elements.\<close>

definition keep_last :: "nat \<Rightarrow> 'a list \<Rightarrow> 'a list" where
  "keep_last n xs = drop (length xs - n) xs"

lemma length_keep_last [simp]: "length (keep_last n xs) = min n (length xs)"
  by (simp add: keep_last_def)

lemma set_keep_last: "set (keep_last n xs) \<subseteq> set xs"
  by (simp add: keep_last_def set_drop_subset)

lemma in_keep_last: "x \<in> set (keep_last n xs) \<Longrightarrow> x \<in> set xs"
  using set_keep_last by fast

lemma keep_last_all: "length xs \<le> n \<Longrightarrow> keep_last n xs = xs"
  by (simp add: keep_last_def)

lemma sorted_wrt_keep_last: "sorted_wrt P xs \<Longrightarrow> sorted_wrt P (keep_last n xs)"
  by (simp add: keep_last_def sorted_wrt_drop)

lemma last_keep_last: "xs \<noteq> [] \<Longrightarrow> 0 < n \<Longrightarrow> last (keep_last n xs) = last xs"
  by (simp add: keep_last_def)

text \<open>\<open>min(xs, key=f)\<close>: the first element with the least key.\<close>

fun min_by :: "('a \<Rightarrow> 'b::linorder) \<Rightarrow> 'a \<Rightarrow> 'a list \<Rightarrow> 'a" where
  "min_by f best [] = best"
| "min_by f best (x # xs) = min_by f (if f x < f best then x else best) xs"

lemma min_by_in: "min_by f x xs \<in> set (x # xs)"
  by (induction xs arbitrary: x) auto

lemma min_by_le: "f (min_by f x xs) \<le> f x \<and> (\<forall>y \<in> set xs. f (min_by f x xs) \<le> f y)"
proof (induction xs arbitrary: x)
  case Nil
  then show ?case by simp
next
  case (Cons a xs)
  show ?case
    using Cons [of a] Cons [of x] by (cases "f a < f x") (auto intro: order_trans less_imp_le)
qed

text \<open>The position of the first element with a property.\<close>

fun find_index :: "('a \<Rightarrow> bool) \<Rightarrow> 'a list \<Rightarrow> nat option" where
  "find_index P [] = None"
| "find_index P (x # xs) = (if P x then Some 0 else map_option Suc (find_index P xs))"

lemma find_index_Some: "find_index P xs = Some i \<Longrightarrow> i < length xs \<and> P (xs ! i)"
  by (induction xs arbitrary: i) (auto split: if_splits)

lemma find_index_None: "find_index P xs = None \<longleftrightarrow> (\<forall>x \<in> set xs. \<not> P x)"
  by (induction xs) auto

lemma length_filter_less_filter:
  assumes imp: "\<And>x. x \<in> set xs \<Longrightarrow> Q x \<Longrightarrow> P x" and y: "y \<in> set xs" "P y" "\<not> Q y"
  shows "length (filter Q xs) < length (filter P xs)"
proof -
  have "filter Q xs = filter Q (filter P xs)"
    using imp by (auto simp: intro: filter_cong)
  moreover have "y \<in> set (filter P xs)" using y by simp
  ultimately show ?thesis using y(3) by (metis length_filter_less)
qed

section \<open>Results of code that raises\<close>

text \<open>\<open>Inl\<close> the exception, \<open>Inr\<close> the value returned.\<close>

definition res_bind :: "'e + 'a \<Rightarrow> ('a \<Rightarrow> 'e + 'b) \<Rightarrow> 'e + 'b" where
  "res_bind m f = (case m of Inl e \<Rightarrow> Inl e | Inr x \<Rightarrow> f x)"

lemma res_bind_simps [simp]:
  "res_bind (Inl e) f = Inl e"
  "res_bind (Inr x) f = f x"
  by (simp_all add: res_bind_def)

lemma res_bind_Inr_iff: "res_bind m f = Inr y \<longleftrightarrow> (\<exists>x. m = Inr x \<and> f x = Inr y)"
  by (cases m) auto

lemma res_bind_Inl_iff:
  "res_bind m f = Inl e \<longleftrightarrow> m = Inl e \<or> (\<exists>x. m = Inr x \<and> f x = Inl e)"
  by (cases m) auto

lemma res_bind_cong [fundef_cong]:
  "m = m' \<Longrightarrow> (\<And>x. m' = Inr x \<Longrightarrow> f x = g x) \<Longrightarrow> res_bind m f = res_bind m' g"
  by (cases m') auto

fun res_map :: "('a \<Rightarrow> 'e + 'b) \<Rightarrow> 'a list \<Rightarrow> 'e + 'b list" where
  "res_map f [] = Inr []"
| "res_map f (x # xs) = res_bind (f x) (\<lambda>y. res_bind (res_map f xs) (\<lambda>ys. Inr (y # ys)))"

lemma res_map_length: "res_map f xs = Inr ys \<Longrightarrow> length ys = length xs"
  by (induction xs arbitrary: ys) (auto simp: res_bind_Inr_iff)

section \<open>Machines driven by operations\<close>

text \<open>
  The contract several components share: a state, operations on it, an invariant every
  operation keeps. What follows for runs and reachable states is proved once.
\<close>

fun run_ops :: "('op \<Rightarrow> 's \<Rightarrow> 's) \<Rightarrow> 'op list \<Rightarrow> 's \<Rightarrow> 's" where
  "run_ops step [] s = s"
| "run_ops step (x # xs) s = run_ops step xs (step x s)"

inductive reachable :: "('op \<Rightarrow> 's \<Rightarrow> 's) \<Rightarrow> 's \<Rightarrow> 's \<Rightarrow> bool" for step init where
  start: "reachable step init init"
| step: "reachable step init s \<Longrightarrow> reachable step init (step x s)"

lemma reachable_run: "reachable step init s \<Longrightarrow> reachable step init (run_ops step xs s)"
  by (induction xs arbitrary: s) (auto intro: reachable.step)

lemma run_ops_append: "run_ops step (xs @ ys) s = run_ops step ys (run_ops step xs s)"
  by (induction xs arbitrary: s) auto

locale op_machine =
  fixes step :: "'op \<Rightarrow> 's \<Rightarrow> 's" and init :: 's and inv :: "'s \<Rightarrow> bool"
  assumes init_inv: "inv init"
    and step_inv: "inv s \<Longrightarrow> inv (step x s)"
begin

lemma run_inv: "inv s \<Longrightarrow> inv (run_ops step xs s)"
  by (induction xs arbitrary: s) (auto intro: step_inv)

lemma reachable_inv: "reachable step init s \<Longrightarrow> inv s"
  by (induction rule: reachable.induct) (auto intro: init_inv step_inv)

end

end
