(* ===== verification/Ledger.thy ===== *)
theory Ledger
  imports Bybit_Prelude
begin

text \<open>
  Model of \<^verbatim>\<open>src/src/pynecore_bybit/ledger.py\<close>: the per-leg position ledger behind the
  external-close verdict. The dataclasses \<open>LegEvent\<close>, \<open>LegOutcome\<close>, \<open>LegGap\<close> and
  \<open>LegLedger\<close> are records with the source's fields (prefixed \<open>le_\<close>, \<open>lo_\<close>, \<open>lg_\<close>, \<open>ll_\<close>);
  every method of \<open>LegLedger\<close> is a function that returns the updated ledger. Quantities are
  exact rationals. The dictionaries \<open>events\<close> are association lists in insertion order, the
  dictionaries \<open>room\<close> and \<open>to_net\<close>, keyed by the leg side \<open>1.0\<close> / \<open>-1.0\<close>, are partial maps.

  The code mutates \<open>LegGap\<close> objects it reaches through the list \<open>gaps\<close>; the model addresses
  them by their position in that list, which no operation reorders. An assertion
  (\<open>assert self.cursor_seq is not None\<close>) is an \<^typ>\<open>'a option\<close> result where a caller could
  run into it (\<open>late_own\<close>); the internal steps take the cursor as an argument, as their one
  caller has just tested it.
\<close>

section \<open>Constants and data\<close>

definition ORIGIN_USER :: string where "ORIGIN_USER = ''user''"
definition ORIGIN_VENUE :: string where "ORIGIN_VENUE = ''venue''"
definition ORIGIN_AMBIGUOUS :: string where "ORIGIN_AMBIGUOUS = ''ambiguous''"
definition ORIGIN_UNPROVEN :: string where "ORIGIN_UNPROVEN = ''unproven''"

definition MAX_VIEWS :: nat where "MAX_VIEWS = 64"
definition MAX_EVENTS :: nat where "MAX_EVENTS = 512"
definition MAX_CREDITS :: nat where "MAX_CREDITS = 8"
definition MAX_GAPS :: nat where "MAX_GAPS = 16"

record leg_event =
  le_exec_id :: string
  le_seq :: int
  le_delta :: rat
  le_own :: bool
  le_share :: rat
  le_credit :: rat
  le_origin :: string
  le_entry :: "py option"

text \<open>\<open>LegEvent.own_share\<close>\<close>

definition own_share :: "leg_event \<Rightarrow> rat" where
  "own_share e =
     (if le_credit e = 0 then le_share e
      else le_share e + (if le_delta e > 0 then le_credit e else - le_credit e))"

record leg_outcome =
  lo_event :: "leg_event option"
  lo_consumed :: rat
  lo_proven :: bool
  lo_share_before :: rat
  lo_leg_after :: rat
  lo_seq :: int
  lo_unexplained :: rat
  lo_doubtful :: rat
  lo_clipped :: rat
  lo_settled :: bool

record leg_gap =
  lg_start_seq :: "int option"
  lg_end_seq :: int
  lg_start_leg :: rat
  lg_end_leg :: rat
  lg_start_share :: rat
  lg_start_journal :: rat
  lg_start_doubt :: rat
  lg_events :: "(string \<times> leg_event) list"
  lg_late :: "string set"
  lg_doubt :: rat
  lg_settled :: bool

definition sum_delta :: "leg_event list \<Rightarrow> rat" where
  "sum_delta es = sum_list (map le_delta es)"

text \<open>\<open>LegGap.holds\<close> and \<open>LegGap.complete\<close>\<close>

definition gap_holds :: "leg_gap \<Rightarrow> int \<Rightarrow> bool" where
  "gap_holds g seq =
     (case lg_start_seq g of
        None \<Rightarrow> seq \<le> lg_end_seq g
      | Some s \<Rightarrow> s < seq \<and> seq \<le> lg_end_seq g)"

definition gap_complete :: "leg_gap \<Rightarrow> int set \<Rightarrow> rat \<Rightarrow> bool" where
  "gap_complete g known_seqs tolerance =
     (if lg_start_seq g = None \<or> lg_end_seq g \<notin> known_seqs then False
      else \<bar>(lg_start_leg g + sum_delta (map snd (lg_events g))) - lg_end_leg g\<bar> \<le> tolerance)"

definition direction :: "rat \<Rightarrow> rat" where
  "direction share = (if share > 0 then 1 else if share < 0 then -1 else 0)"

record leg_ledger =
  ll_views :: "(int \<times> rat) list"
  ll_events :: "(string \<times> leg_event) list"
  ll_cursor_seq :: "int option"
  ll_anchor_seq :: "int option"
  ll_cursor_leg :: rat
  ll_share :: rat
  ll_journal :: rat
  ll_gap_since :: "rat option"
  ll_credits :: "(int \<times> rat \<times> rat) list"
  ll_latest_view_seq :: int
  ll_newest_view :: "(int \<times> rat \<times> int) option"
  ll_doubt :: rat
  ll_doubt_seq :: int
  ll_blind_seq :: "int option"
  ll_room :: "rat \<Rightarrow> rat option"
  ll_gaps :: "leg_gap list"
  ll_to_net :: "rat \<Rightarrow> rat option"

text \<open>\<open>LegLedger()\<close>: the defaults of the dataclass.\<close>

definition new_ledger :: leg_ledger where
  "new_ledger =
     \<lparr>ll_views = [], ll_events = [], ll_cursor_seq = None, ll_anchor_seq = None,
      ll_cursor_leg = 0, ll_share = 0, ll_journal = 0, ll_gap_since = None,
      ll_credits = [], ll_latest_view_seq = 0, ll_newest_view = None, ll_doubt = 0,
      ll_doubt_seq = 0, ll_blind_seq = None, ll_room = Map.empty, ll_gaps = [],
      ll_to_net = Map.empty\<rparr>"

definition started :: "leg_ledger \<Rightarrow> bool" where
  "started L = (ll_cursor_seq L \<noteq> None)"

definition latest_size :: "leg_ledger \<Rightarrow> rat option" where
  "latest_size L = (if ll_views L = [] then None else Some (snd (last (ll_views L))))"

definition is_open :: "leg_ledger \<Rightarrow> bool" where
  "is_open L =
     (case ll_cursor_seq L of
        None \<Rightarrow> False
      | Some c \<Rightarrow> list_ex (\<lambda>v. fst v > c) (ll_views L))"

section \<open>Small steps on the share\<close>

definition bounded :: "rat \<Rightarrow> rat \<Rightarrow> rat \<Rightarrow> rat" where
  "bounded share journal tolerance =
     (if direction share = 0 \<or> \<bar>share\<bar> \<le> tolerance \<or> direction share \<noteq> direction journal then 0
      else if \<bar>share\<bar> \<le> \<bar>journal\<bar> + tolerance then share
      else journal)"

definition capped :: "rat \<Rightarrow> rat \<Rightarrow> rat \<Rightarrow> rat" where
  "capped share leg tolerance =
     (let d = direction share in
      if d = 0 then 0
      else let room = max (leg * d) 0 in
        if \<bar>share\<bar> \<le> room + tolerance
        then (if \<bar>share\<bar> > tolerance then share else 0)
        else room * d)"

definition dget :: "(rat \<Rightarrow> rat option) \<Rightarrow> rat \<Rightarrow> rat \<Rightarrow> rat" where
  "dget m k d0 = (case m k of None \<Rightarrow> d0 | Some v \<Rightarrow> v)"

definition foreign_room :: "rat \<Rightarrow> rat \<Rightarrow> rat \<Rightarrow> rat" where
  "foreign_room leg share side = max (leg * side) 0 - max (share * side) 0"

definition note_side :: "rat \<Rightarrow> rat \<Rightarrow> rat \<Rightarrow> (rat \<Rightarrow> rat option) \<Rightarrow> (rat \<Rightarrow> rat option)" where
  "note_side leg share side room =
     (let foreign = foreign_room leg share side
      in room(side \<mapsto> min (dget room side foreign) foreign))"

definition note_room :: "rat \<Rightarrow> rat \<Rightarrow> leg_ledger \<Rightarrow> leg_ledger" where
  "note_room leg share L =
     L\<lparr>ll_room := note_side leg share (-1) (note_side leg share 1 (ll_room L))\<rparr>"

definition cap_doubt :: "rat \<Rightarrow> leg_ledger \<Rightarrow> leg_ledger" where
  "cap_doubt tolerance L =
     (let d = min (ll_doubt L) \<bar>ll_share L\<bar> in
      if d \<le> tolerance then L\<lparr>ll_doubt := 0, ll_gaps := []\<rparr>
      else L\<lparr>ll_doubt := d,
             ll_gaps := map (\<lambda>g. g\<lparr>lg_doubt := min (lg_doubt g) \<bar>ll_share L\<bar>\<rparr>) (ll_gaps L)\<rparr>)"

definition add_doubt :: "int \<Rightarrow> rat \<Rightarrow> rat \<Rightarrow> leg_ledger \<Rightarrow> leg_ledger" where
  "add_doubt seq quantity tolerance L =
     (if quantity \<le> tolerance then L
      else cap_doubt tolerance
             (L\<lparr>ll_doubt := ll_doubt L + quantity, ll_doubt_seq := max (ll_doubt_seq L) seq\<rparr>))"

definition add_credit :: "int \<Rightarrow> rat \<Rightarrow> rat \<Rightarrow> leg_ledger \<Rightarrow> leg_ledger" where
  "add_credit seq quantity d L =
     (if quantity \<le> 0 \<or> d = 0 then L
      else L\<lparr>ll_credits := keep_last MAX_CREDITS (ll_credits L @ [(seq, quantity, d)])\<rparr>)"

definition take_journal :: "rat \<Rightarrow> rat \<Rightarrow> leg_ledger \<Rightarrow> leg_ledger" where
  "take_journal quantity d L =
     (if quantity \<le> 0 \<or> d = 0 then L
      else L\<lparr>ll_journal := ll_journal L - quantity * d,
             ll_to_net := (ll_to_net L)(d \<mapsto> dget (ll_to_net L) d 0 + quantity)\<rparr>)"

text \<open>\<open>_add_gap\<close>: beyond \<^const>\<open>MAX_GAPS\<close> the two oldest merge into one that never completes.\<close>

definition merge_gap :: "leg_gap \<Rightarrow> leg_gap \<Rightarrow> leg_gap" where
  "merge_gap oldest nxt =
     \<lparr>lg_start_seq = None, lg_end_seq = lg_end_seq nxt, lg_start_leg = lg_end_leg nxt,
      lg_end_leg = lg_end_leg nxt, lg_start_share = lg_start_share nxt,
      lg_start_journal = lg_start_journal nxt, lg_start_doubt = lg_start_doubt nxt,
      lg_events = [], lg_late = {}, lg_doubt = lg_doubt oldest + lg_doubt nxt,
      lg_settled = False\<rparr>"

fun merge_gaps :: "leg_gap list \<Rightarrow> leg_gap list" where
  "merge_gaps (g1 # g2 # gs) =
     (if length (g1 # g2 # gs) > MAX_GAPS then merge_gaps (merge_gap g1 g2 # gs)
      else g1 # g2 # gs)"
| "merge_gaps gs = gs"

definition add_gap :: "leg_gap \<Rightarrow> leg_ledger \<Rightarrow> leg_ledger" where
  "add_gap g L = L\<lparr>ll_gaps := merge_gaps (ll_gaps L @ [g])\<rparr>"

definition gap_of :: "leg_ledger \<Rightarrow> int \<Rightarrow> nat option" where
  "gap_of L seq = find_index (\<lambda>g. gap_holds g seq) (ll_gaps L)"

definition update_gap :: "nat \<Rightarrow> (leg_gap \<Rightarrow> leg_gap) \<Rightarrow> leg_ledger \<Rightarrow> leg_ledger" where
  "update_gap i f L = L\<lparr>ll_gaps := (ll_gaps L)[i := f (ll_gaps L ! i)]\<rparr>"

text \<open>\<open>_own_beyond\<close> and \<open>_expected_leg\<close>\<close>

definition own_beyond :: "leg_ledger \<Rightarrow> int \<Rightarrow> rat" where
  "own_beyond L seq =
     sum_list (map le_share
       (filter (\<lambda>e. le_own e \<and> le_seq e > seq) (map snd (ll_events L))))"

definition expected_leg :: "leg_ledger \<Rightarrow> int \<Rightarrow> int \<Rightarrow> rat" where
  "expected_leg L cursor seq =
     ll_cursor_leg L +
     sum_delta (filter (\<lambda>e. cursor < le_seq e \<and> le_seq e \<le> seq) (map snd (ll_events L)))"

section \<open>Recording views and executions\<close>

definition is_echo :: "leg_ledger \<Rightarrow> int \<Rightarrow> rat \<Rightarrow> int option \<Rightarrow> bool" where
  "is_echo L seq sz updated_ms =
     (case (ll_newest_view L, updated_ms) of
        (Some (nseq, nsize, nms), Some ms) \<Rightarrow> seq > nseq \<and> sz = nsize \<and> ms = nms
      | _ \<Rightarrow> False)"

definition is_newest :: "leg_ledger \<Rightarrow> int \<Rightarrow> bool" where
  "is_newest L seq =
     (case ll_newest_view L of None \<Rightarrow> True | Some (nseq, _, _) \<Rightarrow> seq \<ge> nseq)"

definition not_beyond_cursor :: "leg_ledger \<Rightarrow> int \<Rightarrow> bool" where
  "not_beyond_cursor L seq =
     (case ll_cursor_seq L of None \<Rightarrow> False | Some c \<Rightarrow> seq \<le> c)"

definition insert_view :: "int \<Rightarrow> rat \<Rightarrow> (int \<times> rat) list \<Rightarrow> (int \<times> rat) list" where
  "insert_view seq sz vs =
     keep_last MAX_VIEWS (sort_key fst (filter (\<lambda>v. fst v \<noteq> seq) vs @ [(seq, sz)]))"

definition add_view :: "int \<Rightarrow> rat \<Rightarrow> int option \<Rightarrow> leg_ledger \<Rightarrow> leg_ledger" where
  "add_view seq sz updated_ms L0 =
     (let L1 = L0\<lparr>ll_latest_view_seq := max (ll_latest_view_seq L0) seq\<rparr> in
      if is_echo L1 seq sz updated_ms then L1
      else
        let L2 = (if is_newest L1 seq
                  then L1\<lparr>ll_newest_view := map_option (\<lambda>ms. (seq, sz, ms)) updated_ms\<rparr>
                  else L1)
        in if not_beyond_cursor L2 seq then L2
           else L2\<lparr>ll_views := insert_view seq sz (ll_views L2)\<rparr>)"

definition evict_oldest :: "(string \<times> leg_event) list \<Rightarrow> (string \<times> leg_event) list" where
  "evict_oldest es =
     (if length es > MAX_EVENTS
      then AList.delete (le_exec_id (min_by le_seq (snd (hd es)) (map snd (tl es)))) es
      else es)"

definition add_event :: "leg_event \<Rightarrow> leg_ledger \<Rightarrow> leg_ledger \<times> bool" where
  "add_event e L =
     (if not_beyond_cursor L (le_seq e) then (L, False)
      else (L\<lparr>ll_events := evict_oldest (AList.update (le_exec_id e) e (ll_events L))\<rparr>, True))"

section \<open>Starting and synchronising\<close>

definition clamp_outcome :: "rat \<Rightarrow> rat \<Rightarrow> rat \<Rightarrow> int \<Rightarrow> rat \<Rightarrow> rat \<Rightarrow> leg_outcome" where
  "clamp_outcome consumed share_before leg_after seq unexplained doubtful =
     \<lparr>lo_event = None, lo_consumed = consumed, lo_proven = False,
      lo_share_before = share_before, lo_leg_after = leg_after, lo_seq = seq,
      lo_unexplained = unexplained, lo_doubtful = doubtful, lo_clipped = 0,
      lo_settled = False\<rparr>"

definition start :: "rat \<Rightarrow> rat \<Rightarrow> leg_ledger \<Rightarrow> leg_ledger \<times> leg_outcome option" where
  "start journal_share tolerance L =
     (if ll_views L = [] then (L, None)
      else
        let (seq, sz) = last (ll_views L);
            share = journal_share - own_beyond L seq;
            L1 = note_room sz (capped share sz tolerance)
                   (L\<lparr>ll_cursor_seq := Some seq, ll_anchor_seq := Some seq,
                      ll_cursor_leg := sz, ll_views := [(seq, sz)],
                      ll_events := filter (\<lambda>(k, e). le_seq e > seq) (ll_events L),
                      ll_share := capped share sz tolerance, ll_journal := share,
                      ll_doubt := 0, ll_gaps := [], ll_blind_seq := Some seq,
                      ll_room := Map.empty\<rparr>);
            clamped = \<bar>share\<bar> - \<bar>ll_share L1\<bar>
        in if direction share = 0 \<or> clamped \<le> tolerance then (L1, None)
           else
             let L2 = add_credit seq clamped (direction share)
                        (add_doubt seq \<bar>ll_share L1\<bar> tolerance
                          (take_journal clamped (direction share) L1));
                 L3 = (if ll_doubt L2 \<noteq> 0
                       then add_gap
                              \<lparr>lg_start_seq = None, lg_end_seq = seq, lg_start_leg = sz,
                               lg_end_leg = sz, lg_start_share = ll_share L2,
                               lg_start_journal = ll_journal L2, lg_start_doubt = 0,
                               lg_events = [], lg_late = {}, lg_doubt = ll_doubt L2,
                               lg_settled = False\<rparr> L2
                       else L2)
             in (L3, Some (clamp_outcome clamped \<bar>share\<bar> (max (sz * direction share) 0) seq 0
                             (ll_doubt L3))))"

definition sync_journal :: "rat \<Rightarrow> rat \<Rightarrow> leg_ledger \<Rightarrow> leg_ledger" where
  "sync_journal journal_share tolerance L =
     (case ll_cursor_seq L of
        None \<Rightarrow> L
      | Some c \<Rightarrow>
          let j = journal_share - own_beyond L c
          in cap_doubt tolerance
               (L\<lparr>ll_journal := j, ll_share := bounded (ll_share L) j tolerance\<rparr>))"

section \<open>Late executions\<close>

text \<open>
  \<open>late_own\<close>: \<open>None\<close> is the failed assertion (no cursor yet). The code's local variables keep
  their names; \<open>late_moves\<close> computes how far the share shrinks on its old side and grows on
  its new one.
\<close>

definition late_moves :: "rat \<Rightarrow> rat \<Rightarrow> rat \<times> rat" where
  "late_moves held wanted =
     (if direction wanted = direction held
      then (max 0 (\<bar>held\<bar> - \<bar>wanted\<bar>), max 0 (\<bar>wanted\<bar> - \<bar>held\<bar>))
      else (\<bar>held\<bar>, \<bar>wanted\<bar>))"

definition join_gap :: "leg_event \<Rightarrow> leg_gap \<Rightarrow> leg_gap" where
  "join_gap e g = g\<lparr>lg_events := AList.update (le_exec_id e) e (lg_events g),
                    lg_late := insert (le_exec_id e) (lg_late g)\<rparr>"

definition late_kept :: "rat \<Rightarrow> rat \<Rightarrow> rat \<Rightarrow> rat" where
  "late_kept grown room tolerance =
     (let kept = min grown (max room 0) in
      if grown - kept \<le> tolerance then grown
      else if kept \<le> tolerance then 0
      else kept)"

definition late_join :: "leg_event \<Rightarrow> nat option \<Rightarrow> leg_ledger \<Rightarrow> leg_ledger" where
  "late_join e gap L = (case gap of None \<Rightarrow> L | Some i \<Rightarrow> update_gap i (join_gap e) L)"

text \<open>The room a late own execution's shrinking part gives back.\<close>

definition late_shrink :: "int \<Rightarrow> leg_event \<Rightarrow> rat \<Rightarrow> rat \<Rightarrow> leg_ledger \<Rightarrow> leg_ledger" where
  "late_shrink blind e old_side shrunk L =
     (if shrunk > 0 \<and> le_seq e \<le> blind
      then L\<lparr>ll_room := (ll_room L)(old_side \<mapsto> dget (ll_room L) old_side 0 + shrunk)\<rparr>
      else L)"

text \<open>The part of the doubt a late own reduce resolves.\<close>

definition late_resolve :: "leg_event \<Rightarrow> rat \<Rightarrow> nat option \<Rightarrow> leg_ledger \<Rightarrow> leg_ledger" where
  "late_resolve e old_side gap L =
     (if old_side \<noteq> 0 \<and> le_seq e \<le> ll_doubt_seq L
      then
        let resolved = max 0 (- le_share e * old_side);
            L1 = L\<lparr>ll_doubt := max 0 (ll_doubt L - resolved)\<rparr>
        in (case gap of
              None \<Rightarrow> L1
            | Some i \<Rightarrow> update_gap i (\<lambda>g. g\<lparr>lg_doubt := max 0 (lg_doubt g - resolved)\<rparr>) L1)
      else L)"

text \<open>The part of what a late own execution built that the leg still holds, and the rest.\<close>

definition late_grow ::
    "int \<Rightarrow> rat \<Rightarrow> rat \<Rightarrow> rat \<Rightarrow> rat \<Rightarrow> leg_ledger \<Rightarrow> leg_ledger" where
  "late_grow cursor new_side grown kept share L =
     (if grown > 0
      then
        let L1 = L\<lparr>ll_room := (ll_room L)(new_side \<mapsto> dget (ll_room L) new_side 0 - kept),
                   ll_share := share + kept * new_side\<rparr>;
            gone = grown - kept
        in if gone > 0
           then add_credit cursor gone new_side (take_journal gone new_side L1)
           else L1
      else L\<lparr>ll_share := share\<rparr>)"

definition late_doubt ::
    "int \<Rightarrow> int \<Rightarrow> leg_event \<Rightarrow> nat option \<Rightarrow> rat \<Rightarrow> rat \<Rightarrow> leg_ledger \<Rightarrow> leg_ledger" where
  "late_doubt cursor blind e gap kept tolerance L =
     (if kept > tolerance \<and> le_seq e \<noteq> blind
      then
        add_doubt blind kept tolerance
          (case gap of
             Some i \<Rightarrow>
               (if lg_start_seq (ll_gaps L ! i) \<noteq> None \<and> lg_end_seq (ll_gaps L ! i) = blind
                then update_gap i (\<lambda>g. g\<lparr>lg_doubt := lg_doubt g + kept\<rparr>) L
                else add_gap
                       \<lparr>lg_start_seq = None, lg_end_seq = cursor,
                        lg_start_leg = ll_cursor_leg L, lg_end_leg = ll_cursor_leg L,
                        lg_start_share = ll_share L, lg_start_journal = ll_journal L,
                        lg_start_doubt = ll_doubt L, lg_events = [], lg_late = {},
                        lg_doubt = kept, lg_settled = False\<rparr> L)
           | None \<Rightarrow>
               add_gap
                 \<lparr>lg_start_seq = None, lg_end_seq = cursor,
                  lg_start_leg = ll_cursor_leg L, lg_end_leg = ll_cursor_leg L,
                  lg_start_share = ll_share L, lg_start_journal = ll_journal L,
                  lg_start_doubt = ll_doubt L, lg_events = [], lg_late = {},
                  lg_doubt = kept, lg_settled = False\<rparr> L)
      else L)"

definition late_own ::
    "leg_event \<Rightarrow> rat \<Rightarrow> leg_ledger \<Rightarrow> (leg_ledger \<times> leg_outcome option) option" where
  "late_own e tolerance L =
     (case (ll_cursor_seq L, ll_blind_seq L) of
        (Some cursor, Some blind) \<Rightarrow>
          let held = ll_share L;
              old_side = direction held;
              L1 = L\<lparr>ll_journal := ll_journal L + le_share e\<rparr>;
              wanted = bounded (held + le_share e) (ll_journal L1) tolerance;
              new_side = direction wanted;
              (shrunk, grown) = late_moves held wanted;
              share = held - shrunk * old_side;
              L2 = late_shrink blind e old_side shrunk L1;
              gap = gap_of L2 (le_seq e);
              L3 = late_join e gap L2;
              L4 = late_resolve e old_side gap L3;
              kept = (if grown > 0
                      then late_kept grown (dget (ll_room L4) new_side 0) tolerance else 0);
              gone = (if grown > 0 then grown - kept else 0);
              L5 = late_grow cursor new_side grown kept share L4;
              L6 = cap_doubt tolerance (late_doubt cursor blind e gap kept tolerance L5)
          in Some (L6,
               if gone \<le> 0 then None
               else Some \<lparr>lo_event = Some e, lo_consumed = gone, lo_proven = False,
                          lo_share_before = \<bar>wanted\<bar>,
                          lo_leg_after = max (ll_cursor_leg L6 * new_side) 0,
                          lo_seq = le_seq e, lo_unexplained = 0, lo_doubtful = 0,
                          lo_clipped = 0, lo_settled = False\<rparr>)
      | _ \<Rightarrow> None)"

definition late_foreign :: "leg_event \<Rightarrow> leg_ledger \<Rightarrow> leg_ledger \<times> bool" where
  "late_foreign e L =
     (case gap_of L (le_seq e) of
        None \<Rightarrow> (L, False)
      | Some i \<Rightarrow>
          if lg_start_seq (ll_gaps L ! i) = None then (L, False)
          else (update_gap i (join_gap e) L, True))"

definition take_to_net :: "leg_ledger \<Rightarrow> leg_ledger \<times> (rat \<Rightarrow> rat option)" where
  "take_to_net L = (L\<lparr>ll_to_net := Map.empty\<rparr>, ll_to_net L)"

section \<open>Credits\<close>

definition credit_open :: "int \<Rightarrow> rat \<Rightarrow> rat \<Rightarrow> int \<times> rat \<times> rat \<Rightarrow> bool" where
  "credit_open seq d tolerance c =
     (case c of (cseq, quantity, side) \<Rightarrow> seq \<le> cseq \<and> quantity > tolerance \<and> side = d)"

definition open_credit :: "int \<Rightarrow> rat \<Rightarrow> rat \<Rightarrow> leg_ledger \<Rightarrow> rat" where
  "open_credit seq d tolerance L =
     sum_list (map (\<lambda>c. fst (snd c)) (filter (credit_open seq d tolerance) (ll_credits L)))"

text \<open>The loop of \<open>take_credit\<close>: the credits after it and the quantity taken.\<close>

fun take_loop ::
    "int \<Rightarrow> rat \<Rightarrow> rat \<Rightarrow> rat \<Rightarrow> rat \<Rightarrow> (int \<times> rat \<times> rat) list \<Rightarrow>
     (int \<times> rat \<times> rat) list \<times> rat" where
  "take_loop seq quantity d tolerance taken [] = ([], taken)"
| "take_loop seq quantity d tolerance taken ((cseq, cq, cd) # cs) =
     (if quantity - taken \<le> tolerance then ((cseq, cq, cd) # cs, taken)
      else if seq > cseq \<or> cq \<le> tolerance \<or> cd \<noteq> d
      then (let (cs', t) = take_loop seq quantity d tolerance taken cs
            in ((cseq, cq, cd) # cs', t))
      else
        let part = min cq (quantity - taken);
            (cs', t) = take_loop seq quantity d tolerance (taken + part) cs
        in ((cseq, cq - part, cd) # cs', t))"

definition take_credit ::
    "int \<Rightarrow> rat \<Rightarrow> rat \<Rightarrow> rat \<Rightarrow> leg_ledger \<Rightarrow> leg_ledger \<times> rat" where
  "take_credit seq quantity d tolerance L =
     (let (cs, taken) = take_loop seq quantity d tolerance 0 (ll_credits L)
      in (L\<lparr>ll_credits := filter (\<lambda>c. fst (snd c) > tolerance) cs\<rparr>, taken))"

section \<open>Walking an interval\<close>

definition walk_rank :: "rat \<Rightarrow> leg_event \<Rightarrow> int \<times> nat" where
  "walk_rank d e =
     (le_seq e, if le_own e then 0 else if le_delta e * d \<ge> 0 then 1 else 2)"

definition due_events :: "int \<Rightarrow> int \<Rightarrow> leg_ledger \<Rightarrow> leg_event list" where
  "due_events cursor view_seq L =
     sort_key (walk_rank (direction (ll_share L)))
       (filter (\<lambda>e. cursor < le_seq e \<and> le_seq e \<le> view_seq) (map snd (ll_events L)))"

text \<open>The loop body of \<open>_walk\<close> for an own execution, at the leg \<open>leg\<close> before it.\<close>

definition walk_own ::
    "bool \<Rightarrow> rat \<Rightarrow> leg_event \<Rightarrow> leg_ledger \<Rightarrow> rat \<Rightarrow> leg_ledger \<times> rat \<times> leg_outcome list" where
  "walk_own proven tolerance e L leg0 =
     (let leg = leg0 + le_delta e;
          share_before = \<bar>ll_share L\<bar>;
          j = ll_journal L + le_share e;
          wanted = bounded (ll_share L + le_share e) j tolerance;
          share = (if proven
                   then bounded (capped (ll_share L + le_share e) leg tolerance) j tolerance
                   else wanted);
          clipped = \<bar>wanted\<bar> - \<bar>share\<bar>;
          L1 = cap_doubt tolerance (L\<lparr>ll_journal := j, ll_share := share\<rparr>)
      in (if proven then note_room leg share L1 else L1, leg,
          if clipped > tolerance
          then [\<lparr>lo_event = Some e, lo_consumed = 0, lo_proven = proven,
                 lo_share_before = share_before, lo_leg_after = leg * direction wanted,
                 lo_seq = le_seq e, lo_unexplained = 0, lo_doubtful = 0,
                 lo_clipped = clipped, lo_settled = False\<rparr>]
          else []))"

text \<open>What a foreign execution consumes of the share, and how much of that is in doubt.\<close>

definition foreign_consumed :: "rat \<Rightarrow> rat \<Rightarrow> rat" where
  "foreign_consumed share leg_after = min share (max 0 (share - leg_after))"

definition provably_taken :: "rat \<Rightarrow> rat \<Rightarrow> rat \<Rightarrow> rat \<Rightarrow> rat" where
  "provably_taken consumed share doubt leg_after =
     min consumed (max 0 (share - doubt - leg_after))"

definition foreign_take ::
    "bool \<Rightarrow> rat \<Rightarrow> rat \<Rightarrow> rat \<Rightarrow> rat \<Rightarrow> rat \<Rightarrow> rat \<Rightarrow> rat \<times> rat" where
  "foreign_take proven tolerance d delta share doubt leg_after =
     (if proven \<and> d \<noteq> 0 \<and> delta * d < 0
      then
        let consumed = foreign_consumed share leg_after in
        if consumed \<le> tolerance then (0, 0)
        else
          let taken = provably_taken consumed share doubt leg_after;
              doubtful = consumed - taken
          in if doubtful \<le> tolerance then (consumed, 0)
             else if taken \<le> tolerance then (consumed, consumed)
             else (consumed, doubtful)
      else (0, 0))"

definition walk_foreign ::
    "bool \<Rightarrow> rat \<Rightarrow> leg_event \<Rightarrow> leg_ledger \<Rightarrow> rat \<Rightarrow> leg_ledger \<times> rat \<times> leg_outcome list" where
  "walk_foreign proven tolerance e L leg0 =
     (let d = direction (ll_share L);
          share = \<bar>ll_share L\<bar>;
          leg_after = (if d \<noteq> 0 then (leg0 + le_delta e) * d else leg0 + le_delta e);
          (consumed, doubtful) =
            foreign_take proven tolerance d (le_delta e) share (ll_doubt L) leg_after;
          out = \<lparr>lo_event = Some e, lo_consumed = consumed, lo_proven = proven,
                 lo_share_before = share, lo_leg_after = leg_after, lo_seq = le_seq e,
                 lo_unexplained = 0, lo_doubtful = doubtful, lo_clipped = 0,
                 lo_settled = False\<rparr>;
          L1 = (if consumed \<noteq> 0
                then take_journal consumed d (L\<lparr>ll_share := (share - consumed) * d\<rparr>)
                else L);
          L2 = (if doubtful \<noteq> 0
                then add_credit (ll_doubt_seq L1) doubtful d
                       (L1\<lparr>ll_doubt := max 0 (ll_doubt L1 - doubtful)\<rparr>)
                else L1);
          L3 = cap_doubt tolerance L2;
          leg = leg0 + le_delta e
      in (if proven then note_room leg (ll_share L3) L3 else L3, leg, [out]))"

definition walk_event ::
    "bool \<Rightarrow> rat \<Rightarrow> leg_event \<Rightarrow> leg_ledger \<Rightarrow> rat \<Rightarrow> leg_ledger \<times> rat \<times> leg_outcome list" where
  "walk_event proven tolerance e L leg =
     (if le_own e then walk_own proven tolerance e L leg
      else walk_foreign proven tolerance e L leg)"

fun walk_events ::
    "bool \<Rightarrow> rat \<Rightarrow> leg_event list \<Rightarrow> leg_ledger \<Rightarrow> rat \<Rightarrow>
     leg_ledger \<times> rat \<times> leg_outcome list" where
  "walk_events proven tolerance [] L leg = (L, leg, [])"
| "walk_events proven tolerance (e # es) L leg =
     (case walk_event proven tolerance e L leg of
        (L1, leg1, out1) \<Rightarrow>
          (case walk_events proven tolerance es L1 leg1 of
             (L2, leg2, out2) \<Rightarrow> (L2, leg2, out1 @ out2)))"

text \<open>The end of \<open>_walk\<close>: drop the walked executions, move the cursor onto the view.\<close>

definition walk_finish ::
    "bool \<Rightarrow> rat \<Rightarrow> int \<times> rat \<Rightarrow> leg_event list \<Rightarrow> leg_ledger \<Rightarrow> leg_ledger" where
  "walk_finish proven tolerance v due L =
     (let L1 = L\<lparr>ll_events := fold (\<lambda>e es. AList.delete (le_exec_id e) es) due (ll_events L),
                 ll_cursor_seq := Some (fst v), ll_cursor_leg := snd v,
                 ll_share := (if proven then capped (ll_share L) (snd v) tolerance
                              else ll_share L)\<rparr>;
          L2 = cap_doubt tolerance L1;
          L3 = (if proven then note_room (snd v) (ll_share L2) L2 else L2)
      in L3\<lparr>ll_views := filter (\<lambda>w. fst w \<ge> fst v) (ll_views L3)\<rparr>)"

definition walk ::
    "int \<Rightarrow> int \<times> rat \<Rightarrow> bool \<Rightarrow> rat \<Rightarrow> leg_ledger \<Rightarrow> leg_ledger \<times> leg_outcome list" where
  "walk cursor v proven tolerance L =
     (let due = due_events cursor (fst v) L in
      case walk_events proven tolerance due L (ll_cursor_leg L) of
        (L1, leg, out) \<Rightarrow> (walk_finish proven tolerance v due L1, out))"

section \<open>Giving an interval up\<close>

definition give_up_gap :: "int \<Rightarrow> int \<times> rat \<Rightarrow> leg_ledger \<Rightarrow> leg_gap" where
  "give_up_gap cursor first L =
     \<lparr>lg_start_seq = Some cursor, lg_end_seq = fst first, lg_start_leg = ll_cursor_leg L,
      lg_end_leg = snd first, lg_start_share = ll_share L, lg_start_journal = ll_journal L,
      lg_start_doubt = ll_doubt L,
      lg_events = filter (\<lambda>(k, e). cursor < le_seq e \<and> le_seq e \<le> fst first) (ll_events L),
      lg_late = {}, lg_doubt = 0, lg_settled = False\<rparr>"

text \<open>The clamp of the share to the view: the ledger and the quantity clamped.\<close>

definition clamp_to_view :: "rat \<Rightarrow> rat \<Rightarrow> leg_ledger \<Rightarrow> leg_ledger \<times> rat" where
  "clamp_to_view leg tolerance L =
     (let d = direction (ll_share L);
          share_before = \<bar>ll_share L\<bar>;
          leg_dir = leg * d
      in if d \<noteq> 0 \<and> share_before > max leg_dir 0 + tolerance
         then (take_journal (share_before - max leg_dir 0) d
                 (L\<lparr>ll_share := max leg_dir 0 * d\<rparr>), share_before - max leg_dir 0)
         else (L, 0))"

definition give_up ::
    "int \<Rightarrow> int \<times> rat \<Rightarrow> rat \<Rightarrow> leg_ledger \<Rightarrow> leg_ledger \<times> leg_outcome list" where
  "give_up cursor first tolerance L =
     (let gap = give_up_gap cursor first L;
          unexplained = snd first - expected_leg L cursor (fst first);
          (L1, out) = walk cursor first False tolerance L;
          d = direction (ll_share L1);
          share_before = \<bar>ll_share L1\<bar>;
          (L2, clamped) = clamp_to_view (snd first) tolerance L1;
          L3 = add_doubt (fst first) \<bar>ll_share L2\<bar> tolerance
                 (add_credit (fst first) clamped d L2);
          gap_doubt = (if \<bar>ll_share L3\<bar> > tolerance then \<bar>ll_share L3\<bar> else 0);
          L4 = (if \<bar>ll_share L3\<bar> > tolerance
                then add_gap (gap\<lparr>lg_doubt := gap_doubt\<rparr>) L3 else L3);
          L5 = note_room (snd first) (ll_share L4)
                 (L4\<lparr>ll_blind_seq := Some (fst first), ll_room := Map.empty\<rparr>)
      in (L5, out @ [clamp_outcome clamped share_before (snd first * d) (fst first)
                       unexplained gap_doubt]))"

section \<open>Judging given-up intervals again\<close>

definition scratch_of :: "leg_gap \<Rightarrow> int \<Rightarrow> leg_ledger" where
  "scratch_of g start_seq =
     new_ledger\<lparr>ll_cursor_seq := Some start_seq, ll_cursor_leg := lg_start_leg g,
       ll_share := lg_start_share g, ll_journal := lg_start_journal g,
       ll_doubt := lg_start_doubt g,
       ll_events := map (\<lambda>(k, e). (k, if le_own e
                                       then e\<lparr>le_share := own_share e, le_credit := 0\<rparr>
                                       else e)) (lg_events g)\<rparr>"

text \<open>Whether an outcome shows the give-up guessed something, and the verdicts kept.\<close>

definition outcome_own :: "leg_outcome \<Rightarrow> bool" where
  "outcome_own o1 = (case lo_event o1 of None \<Rightarrow> False | Some e \<Rightarrow> le_own e)"

definition outcome_guessed :: "leg_outcome \<Rightarrow> bool" where
  "outcome_guessed o1 = (if outcome_own o1 then lo_clipped o1 > 0 else lo_consumed o1 > 0)"

definition settled_outcomes :: "leg_outcome list \<Rightarrow> leg_outcome list" where
  "settled_outcomes os =
     map (\<lambda>o1. o1\<lparr>lo_proven := False, lo_settled := True\<rparr>)
       (filter (\<lambda>o1. \<not> outcome_own o1) os)"

definition settle_release :: "nat \<Rightarrow> rat \<Rightarrow> leg_ledger \<Rightarrow> leg_ledger" where
  "settle_release i tolerance L =
     (let gs = take i (ll_gaps L) @ drop (Suc i) (ll_gaps L)
      in cap_doubt tolerance
           (L\<lparr>ll_gaps := gs, ll_doubt := min (ll_doubt L) (sum_list (map lg_doubt gs))\<rparr>))"

text \<open>
  The loop over a copy of \<open>gaps\<close>, by position: an interval is only ever removed when it is the
  current one, or all of them at once, so the copy's next element is the one at position
  \<open>i\<close> (after a removal) or \<open>i + 1\<close>, and an emptied list ends the loop as the test
  \<open>gap not in self.gaps\<close> does.
\<close>

lemma length_cap_doubt_gaps: "length (ll_gaps (cap_doubt tolerance L)) \<le> length (ll_gaps L)"
  by (simp add: cap_doubt_def Let_def)

lemma settle_release_less:
  "i < length (ll_gaps L) \<Longrightarrow>
   length (ll_gaps (settle_release i tolerance L)) < length (ll_gaps L)"
  by (simp add: settle_release_def Let_def)
    (rule le_less_trans [OF length_cap_doubt_gaps], simp)

lemma settle_release_less_diff:
  "i < length (ll_gaps L) \<Longrightarrow>
   length (ll_gaps (settle_release i tolerance L)) - i < length (ll_gaps L) - i"
  using settle_release_less [of i L tolerance] by linarith

function settle_loop ::
    "int set \<Rightarrow> rat \<Rightarrow> nat \<Rightarrow> leg_ledger \<Rightarrow> leg_ledger \<times> leg_outcome list" where
  "settle_loop known tolerance i L =
     (if length (ll_gaps L) \<le> i then (L, [])
      else if lg_settled (ll_gaps L ! i) \<or> \<not> gap_complete (ll_gaps L ! i) known tolerance
      then settle_loop known tolerance (Suc i) L
      else
        case lg_start_seq (ll_gaps L ! i) of
          None \<Rightarrow> settle_loop known tolerance (Suc i) L
        | Some s \<Rightarrow>
          (case walk s (lg_end_seq (ll_gaps L ! i), lg_end_leg (ll_gaps L ! i)) True tolerance
                  (scratch_of (ll_gaps L ! i) s) of
             (scratch, walked) \<Rightarrow>
               (case (if list_ex outcome_guessed walked
                      then settle_loop known tolerance (Suc i)
                             (update_gap i (\<lambda>g. g\<lparr>lg_settled := True\<rparr>) L)
                      else settle_loop known tolerance i (settle_release i tolerance L)) of
                  (L1, out) \<Rightarrow> (L1, settled_outcomes walked @ out))))"
  by pat_completeness auto
termination
  by (relation "measure (\<lambda>(known, tolerance, i, L). length (ll_gaps L) - i)")
    (auto simp: update_gap_def not_le intro!: diff_less_mono2 settle_release_less_diff)

declare settle_loop.simps [simp del]

definition settle_gaps ::
    "int set \<Rightarrow> rat \<Rightarrow> leg_ledger \<Rightarrow> leg_ledger \<times> leg_outcome list" where
  "settle_gaps known tolerance L = settle_loop known tolerance 0 L"

section \<open>Advancing\<close>

fun scan_views ::
    "leg_ledger \<Rightarrow> int \<Rightarrow> rat \<Rightarrow> int set \<Rightarrow> (int \<times> rat) option \<Rightarrow> (int \<times> rat) list \<Rightarrow>
     (int \<times> rat) option" where
  "scan_views L cursor tolerance known target [] = target"
| "scan_views L cursor tolerance known target (v # vs) =
     (if \<bar>expected_leg L cursor (fst v) - snd v\<bar> > tolerance \<or> fst v \<notin> known then target
      else scan_views L cursor tolerance known (Some v) vs)"

definition later_views :: "int \<Rightarrow> leg_ledger \<Rightarrow> (int \<times> rat) list" where
  "later_views cursor L = filter (\<lambda>v. fst v > cursor) (ll_views L)"

definition pending_views :: "leg_ledger \<Rightarrow> nat" where
  "pending_views L =
     (case ll_cursor_seq L of None \<Rightarrow> 0 | Some c \<Rightarrow> length (later_views c L))"

text \<open>What the walk does to the fields the loop of \<open>advance\<close> terminates by.\<close>

lemma cap_doubt_frame [ledger_simps]:
  "ll_views (cap_doubt t L) = ll_views L" "ll_cursor_seq (cap_doubt t L) = ll_cursor_seq L"
  "ll_events (cap_doubt t L) = ll_events L" "ll_share (cap_doubt t L) = ll_share L"
  "ll_journal (cap_doubt t L) = ll_journal L" "ll_cursor_leg (cap_doubt t L) = ll_cursor_leg L"
  "ll_room (cap_doubt t L) = ll_room L" "ll_to_net (cap_doubt t L) = ll_to_net L"
  "ll_credits (cap_doubt t L) = ll_credits L" "ll_blind_seq (cap_doubt t L) = ll_blind_seq L"
  "ll_doubt_seq (cap_doubt t L) = ll_doubt_seq L" "ll_gap_since (cap_doubt t L) = ll_gap_since L"
  by (simp_all add: cap_doubt_def Let_def)

lemma note_room_frame [ledger_simps]:
  "ll_views (note_room g s L) = ll_views L" "ll_cursor_seq (note_room g s L) = ll_cursor_seq L"
  "ll_events (note_room g s L) = ll_events L" "ll_share (note_room g s L) = ll_share L"
  "ll_journal (note_room g s L) = ll_journal L" "ll_cursor_leg (note_room g s L) = ll_cursor_leg L"
  "ll_gaps (note_room g s L) = ll_gaps L" "ll_to_net (note_room g s L) = ll_to_net L"
  "ll_credits (note_room g s L) = ll_credits L" "ll_blind_seq (note_room g s L) = ll_blind_seq L"
  "ll_doubt (note_room g s L) = ll_doubt L" "ll_doubt_seq (note_room g s L) = ll_doubt_seq L"
  "ll_gap_since (note_room g s L) = ll_gap_since L"
  by (simp_all add: note_room_def)

lemma take_journal_frame [ledger_simps]:
  "ll_views (take_journal q d L) = ll_views L"
  "ll_cursor_seq (take_journal q d L) = ll_cursor_seq L"
  "ll_events (take_journal q d L) = ll_events L" "ll_share (take_journal q d L) = ll_share L"
  "ll_cursor_leg (take_journal q d L) = ll_cursor_leg L"
  "ll_room (take_journal q d L) = ll_room L" "ll_gaps (take_journal q d L) = ll_gaps L"
  "ll_credits (take_journal q d L) = ll_credits L"
  "ll_blind_seq (take_journal q d L) = ll_blind_seq L"
  "ll_doubt (take_journal q d L) = ll_doubt L"
  "ll_doubt_seq (take_journal q d L) = ll_doubt_seq L"
  "ll_gap_since (take_journal q d L) = ll_gap_since L"
  by (simp_all add: take_journal_def)

lemma add_credit_frame [ledger_simps]:
  "ll_views (add_credit s q d L) = ll_views L"
  "ll_cursor_seq (add_credit s q d L) = ll_cursor_seq L"
  "ll_events (add_credit s q d L) = ll_events L" "ll_share (add_credit s q d L) = ll_share L"
  "ll_journal (add_credit s q d L) = ll_journal L"
  "ll_cursor_leg (add_credit s q d L) = ll_cursor_leg L"
  "ll_room (add_credit s q d L) = ll_room L" "ll_gaps (add_credit s q d L) = ll_gaps L"
  "ll_to_net (add_credit s q d L) = ll_to_net L"
  "ll_blind_seq (add_credit s q d L) = ll_blind_seq L"
  "ll_doubt (add_credit s q d L) = ll_doubt L"
  "ll_doubt_seq (add_credit s q d L) = ll_doubt_seq L"
  "ll_gap_since (add_credit s q d L) = ll_gap_since L"
  by (simp_all add: add_credit_def)

lemma add_doubt_frame [ledger_simps]:
  "ll_views (add_doubt s q t L) = ll_views L"
  "ll_cursor_seq (add_doubt s q t L) = ll_cursor_seq L"
  "ll_events (add_doubt s q t L) = ll_events L" "ll_share (add_doubt s q t L) = ll_share L"
  "ll_journal (add_doubt s q t L) = ll_journal L"
  "ll_cursor_leg (add_doubt s q t L) = ll_cursor_leg L"
  "ll_room (add_doubt s q t L) = ll_room L" "ll_to_net (add_doubt s q t L) = ll_to_net L"
  "ll_credits (add_doubt s q t L) = ll_credits L"
  "ll_blind_seq (add_doubt s q t L) = ll_blind_seq L"
  "ll_gap_since (add_doubt s q t L) = ll_gap_since L"
  by (simp_all add: add_doubt_def ledger_simps)

lemma add_gap_frame [ledger_simps]:
  "ll_views (add_gap g L) = ll_views L" "ll_cursor_seq (add_gap g L) = ll_cursor_seq L"
  "ll_events (add_gap g L) = ll_events L" "ll_share (add_gap g L) = ll_share L"
  "ll_journal (add_gap g L) = ll_journal L" "ll_cursor_leg (add_gap g L) = ll_cursor_leg L"
  "ll_room (add_gap g L) = ll_room L" "ll_to_net (add_gap g L) = ll_to_net L"
  "ll_credits (add_gap g L) = ll_credits L" "ll_blind_seq (add_gap g L) = ll_blind_seq L"
  "ll_doubt (add_gap g L) = ll_doubt L" "ll_doubt_seq (add_gap g L) = ll_doubt_seq L"
  "ll_gap_since (add_gap g L) = ll_gap_since L"
  by (simp_all add: add_gap_def)

lemma update_gap_frame [ledger_simps]:
  "ll_views (update_gap i f L) = ll_views L"
  "ll_cursor_seq (update_gap i f L) = ll_cursor_seq L"
  "ll_events (update_gap i f L) = ll_events L" "ll_share (update_gap i f L) = ll_share L"
  "ll_journal (update_gap i f L) = ll_journal L"
  "ll_cursor_leg (update_gap i f L) = ll_cursor_leg L"
  "ll_room (update_gap i f L) = ll_room L" "ll_to_net (update_gap i f L) = ll_to_net L"
  "ll_credits (update_gap i f L) = ll_credits L"
  "ll_blind_seq (update_gap i f L) = ll_blind_seq L"
  "ll_doubt (update_gap i f L) = ll_doubt L"
  "ll_doubt_seq (update_gap i f L) = ll_doubt_seq L"
  "ll_gap_since (update_gap i f L) = ll_gap_since L"
  by (simp_all add: update_gap_def)

lemma walk_event_frame:
  assumes "walk_event proven t e L leg = (L1, leg1, out)"
  shows "ll_views L1 = ll_views L" "ll_cursor_seq L1 = ll_cursor_seq L"
    "ll_events L1 = ll_events L" "ll_blind_seq L1 = ll_blind_seq L"
    "ll_gap_since L1 = ll_gap_since L" "ll_doubt_seq L1 = ll_doubt_seq L"
    "ll_cursor_leg L1 = ll_cursor_leg L" "leg1 = leg + le_delta e"
  using assms
  by (auto simp: walk_event_def walk_own_def walk_foreign_def Let_def ledger_simps
      split: if_splits prod.splits)

lemma walk_events_frame:
  assumes "walk_events proven t es L leg = (L1, leg1, out)"
  shows "ll_views L1 = ll_views L \<and> ll_cursor_seq L1 = ll_cursor_seq L \<and>
    ll_events L1 = ll_events L \<and> ll_blind_seq L1 = ll_blind_seq L \<and>
    ll_gap_since L1 = ll_gap_since L \<and> ll_cursor_leg L1 = ll_cursor_leg L \<and>
    leg1 = leg + sum_delta es"
  using assms
proof (induction es arbitrary: L leg out)
  case Nil
  then show ?case by (simp add: sum_delta_def)
next
  case (Cons e es)
  obtain La lega outa where a: "walk_event proven t e L leg = (La, lega, outa)"
    by (metis prod_cases3)
  obtain outb where b: "walk_events proven t es La lega = (L1, leg1, outb)"
    using Cons.prems a by (auto split: prod.splits)
  show ?case using Cons.IH [OF b] walk_event_frame [OF a] by (simp add: sum_delta_def)
qed

lemma walk_frame:
  assumes "walk cursor v proven t L = (L1, out)"
  shows "ll_views L1 = filter (\<lambda>w. fst w \<ge> fst v) (ll_views L) \<and>
    ll_cursor_seq L1 = Some (fst v) \<and> ll_cursor_leg L1 = snd v \<and>
    ll_blind_seq L1 = ll_blind_seq L \<and> ll_gap_since L1 = ll_gap_since L"
  using assms
  by (auto simp: walk_def walk_finish_def Let_def ledger_simps
      dest!: walk_events_frame split: prod.splits if_splits)

lemma clamp_to_view_frame:
  assumes "clamp_to_view leg t L = (L1, q)"
  shows "ll_views L1 = ll_views L \<and> ll_cursor_seq L1 = ll_cursor_seq L \<and>
    ll_events L1 = ll_events L \<and> ll_cursor_leg L1 = ll_cursor_leg L \<and>
    ll_gap_since L1 = ll_gap_since L \<and> ll_credits L1 = ll_credits L \<and>
    ll_gaps L1 = ll_gaps L \<and> ll_doubt L1 = ll_doubt L \<and> ll_doubt_seq L1 = ll_doubt_seq L"
  using assms by (auto simp: clamp_to_view_def Let_def ledger_simps split: if_splits)

lemma give_up_frame:
  assumes "give_up cursor v t L = (L1, out)"
  shows "ll_views L1 = filter (\<lambda>w. fst w \<ge> fst v) (ll_views L) \<and>
    ll_cursor_seq L1 = Some (fst v) \<and> ll_cursor_leg L1 = snd v \<and>
    ll_blind_seq L1 = Some (fst v) \<and> ll_gap_since L1 = ll_gap_since L"
  using assms
  by (auto simp: give_up_def Let_def ledger_simps dest!: walk_frame clamp_to_view_frame
      split: prod.splits if_splits)

lemma scan_views_in:
  "scan_views L c t known target vs = Some v \<Longrightarrow> target = Some v \<or> v \<in> set vs"
  by (induction vs arbitrary: target) (auto split: if_splits)

lemma pending_views_less:
  assumes "ll_cursor_seq L1 = Some (fst v)"
    and "ll_views L1 = filter (\<lambda>w. fst w \<ge> fst v) (ll_views L)"
    and "ll_cursor_seq L = Some c" and "v \<in> set (later_views c L)"
  shows "pending_views L1 < pending_views L"
proof -
  have "later_views (fst v) L1 = filter (\<lambda>w. fst w > fst v) (ll_views L)"
    by (auto simp: later_views_def assms(2) intro: filter_cong)
  moreover have "length (filter (\<lambda>w. fst w > fst v) (ll_views L))
      < length (filter (\<lambda>w. fst w > c) (ll_views L))"
    using assms(4) by (intro length_filter_less_filter [where y = v]) (auto simp: later_views_def)
  ultimately show ?thesis
    by (simp add: pending_views_def assms(1,3) later_views_def)
qed

lemma walk_pending:
  assumes "walk c v proven t (L\<lparr>ll_gap_since := g\<rparr>) = (L1, out)"
    and "ll_cursor_seq L = Some c" and "v \<in> set (later_views c L)"
  shows "pending_views L1 < pending_views L"
  using walk_frame [OF assms(1)] assms(2,3) by (auto intro: pending_views_less [where v = v])

lemma give_up_pending:
  assumes "give_up c v t (L\<lparr>ll_gap_since := g\<rparr>) = (L1, out)"
    and "ll_cursor_seq L = Some c" and "later_views c L = v # vs"
  shows "pending_views L1 < pending_views L"
  using give_up_frame [OF assms(1)] assms(2,3) by (auto intro: pending_views_less [where v = v])

lemma scan_target_later:
  assumes "scan_views L c t known None (if provable then first # rest else []) = Some v"
    and "later_views c L = first # rest"
  shows "v \<in> set (later_views c L)"
  using scan_views_in [OF assms(1)] assms(2) by (auto split: if_splits)

text \<open>
  The \<open>while True\<close> loop of \<open>advance\<close>. Each round either returns or moves the cursor onto a
  later view, so the number of views beyond the cursor shrinks.
\<close>

function advance_loop ::
    "rat \<Rightarrow> rat \<Rightarrow> rat \<Rightarrow> int set \<Rightarrow> bool \<Rightarrow> leg_ledger \<Rightarrow> leg_ledger \<times> leg_outcome list" where
  "advance_loop now grace tolerance known provable L =
     (case ll_cursor_seq L of
        None \<Rightarrow> (L, [])
      | Some c \<Rightarrow>
          (case later_views c L of
             [] \<Rightarrow> (L\<lparr>ll_gap_since := None\<rparr>, [])
           | first # rest \<Rightarrow>
               (case scan_views L c tolerance known None
                       (if provable then first # rest else []) of
                  Some target \<Rightarrow>
                    (case walk c target True tolerance (L\<lparr>ll_gap_since := None\<rparr>) of
                       (L1, out1) \<Rightarrow>
                         (case advance_loop now grace tolerance known provable L1 of
                            (L2, out2) \<Rightarrow> (L2, out1 @ out2)))
                | None \<Rightarrow>
                    (case (case ll_gap_since L of None \<Rightarrow> now | Some s \<Rightarrow> s) of
                       since \<Rightarrow>
                         if now - since < grace then (L\<lparr>ll_gap_since := Some since\<rparr>, [])
                         else
                           (case give_up c first tolerance (L\<lparr>ll_gap_since := None\<rparr>) of
                              (L1, out1) \<Rightarrow>
                                (case advance_loop now grace tolerance known provable L1 of
                                   (L2, out2) \<Rightarrow> (L2, out1 @ out2)))))))"
  by pat_completeness auto
termination
  by (relation "measure (\<lambda>(now, grace, tolerance, known, provable, L). pending_views L)")
    (auto intro: walk_pending [OF sym] give_up_pending [OF sym] scan_target_later)

declare advance_loop.simps [simp del]

definition advance ::
    "rat \<Rightarrow> rat \<Rightarrow> rat \<Rightarrow> int set \<Rightarrow> bool \<Rightarrow> leg_ledger \<Rightarrow> leg_ledger \<times> leg_outcome list" where
  "advance now grace tolerance known provable L =
     (if ll_cursor_seq L = None then (L, [])
      else
        case (if provable then settle_gaps known tolerance L else (L, [])) of
          (L1, out1) \<Rightarrow>
            (case advance_loop now grace tolerance known provable L1 of
               (L2, out2) \<Rightarrow> (L2, out1 @ out2)))"

section \<open>The operations as data\<close>

text \<open>
  The calls the plugin makes on one leg's ledger. A failed assertion of \<open>late_own\<close> raises
  held anything is written: the ledger is unchanged.
\<close>

datatype ledger_op =
    AddView int rat "int option"
  | AddEvent leg_event
  | Start rat
  | SyncJournal rat
  | LateOwn leg_event
  | LateForeign leg_event
  | TakeToNet
  | TakeCredit int rat rat
  | Advance rat rat "int set" bool

fun ledger_step :: "rat \<Rightarrow> ledger_op \<Rightarrow> leg_ledger \<Rightarrow> leg_ledger" where
  "ledger_step t (AddView seq sz ms) L = add_view seq sz ms L"
| "ledger_step t (AddEvent e) L = fst (add_event e L)"
| "ledger_step t (Start j) L = fst (start j t L)"
| "ledger_step t (SyncJournal j) L = sync_journal j t L"
| "ledger_step t (LateOwn e) L = (case late_own e t L of None \<Rightarrow> L | Some (L', out) \<Rightarrow> L')"
| "ledger_step t (LateForeign e) L = fst (late_foreign e L)"
| "ledger_step t TakeToNet L = fst (take_to_net L)"
| "ledger_step t (TakeCredit seq q d) L = fst (take_credit seq q d t L)"
| "ledger_step t (Advance now grace known provable) L =
     fst (advance now grace t known provable L)"

end
