(* ===== verification/Ledger_Inv.thy ===== *)
theory Ledger_Inv
  imports Ledger
begin

text \<open>
  The invariant of the leg ledger and its preservation by every operation of \<open>Ledger\<close>:
  the share stays within the journal, the collections stay within their limits, the recorded
  views are strictly ordered, the credits are positive. The lemmas are one per operation and
  conjunct; the summary lemmas at the end of each section combine them.
\<close>

section \<open>Sides\<close>

lemma direction_cases:
  obtains (pos) "share > 0" "direction share = 1"
  | (neg) "share < 0" "direction share = -1"
  | (zero) "share = 0" "direction share = 0"
  by (cases "share > 0"; cases "share < 0") (auto simp: direction_def)

lemma direction_simps [simp]:
  "direction 0 = 0" "direction (- x) = - direction x"
  "direction share = 0 \<longleftrightarrow> share = 0"
  by (auto simp: direction_def)

lemma abs_direction: "\<bar>share\<bar> = share * direction share"
  by (simp add: direction_def)

lemma direction_scale: "q \<ge> 0 \<Longrightarrow> direction (q * direction s) = (if q = 0 \<or> s = 0 then 0 else direction s)"
  by (auto simp: direction_def mult_less_0_iff zero_less_mult_iff)

lemma direction_in: "direction s \<in> {-1, 0, 1}"
  by (simp add: direction_def)

section \<open>The share never exceeds the journal\<close>

text \<open>
  On the share's own side the journal holds at least the share, up to the quantity
  tolerance. A journal on the other side holds nothing of it.
\<close>

definition within_journal :: "rat \<Rightarrow> rat \<Rightarrow> rat \<Rightarrow> bool" where
  "within_journal t share journal \<longleftrightarrow> \<bar>share\<bar> \<le> direction share * journal + t"

definition share_in_journal :: "rat \<Rightarrow> leg_ledger \<Rightarrow> bool" where
  "share_in_journal t L \<longleftrightarrow> within_journal t (ll_share L) (ll_journal L)"

lemma within_journal_0 [simp]: "t \<ge> 0 \<Longrightarrow> within_journal t 0 j"
  by (simp add: within_journal_def)

lemma within_journal_bounded: "t \<ge> 0 \<Longrightarrow> within_journal t (bounded s j t) j"
  by (auto simp: within_journal_def bounded_def direction_def split: if_splits)

lemma within_journal_reduce:
  assumes "within_journal t s j" and "0 \<le> q" and "q \<le> \<bar>s\<bar>" and "t \<ge> 0"
  shows "within_journal t ((\<bar>s\<bar> - q) * direction s) (j - q * direction s)"
  using assms
  by (cases s rule: direction_cases; cases "q = \<bar>s\<bar>")
    (auto simp: within_journal_def direction_def algebra_simps)

lemma abs_capped_le: "\<bar>capped s leg t\<bar> \<le> \<bar>s\<bar> \<and> (capped s leg t = 0 \<or> direction (capped s leg t) = direction s)"
  if "t \<ge> 0"
  using that
  by (auto simp: capped_def Let_def direction_def max_def split: if_splits)

lemma within_journal_capped:
  assumes "within_journal t s j" and "t \<ge> 0"
  shows "within_journal t (capped s leg t) j"
  using abs_capped_le [OF assms(2), of s leg] assms
  by (auto simp: within_journal_def)

lemma capped_fits: "t \<ge> 0 \<Longrightarrow> \<bar>capped s leg t\<bar> \<le> max (leg * direction (capped s leg t)) 0 + t"
  by (auto simp: capped_def Let_def direction_def max_def split: if_splits)

lemma bounded_fits:
  assumes "t \<ge> 0" and "\<bar>s\<bar> \<le> max (leg * direction s) 0 + t"
  shows "\<bar>bounded s j t\<bar> \<le> max (leg * direction (bounded s j t)) 0 + t"
  using assms
  by (auto simp: bounded_def direction_def max_def split: if_splits)

lemma take_journal_eq:
  "ll_journal (take_journal q d L) = (if q \<le> 0 then ll_journal L else ll_journal L - q * d)"
  by (simp add: take_journal_def)

subsection \<open>Recording, credits, doubt: the share and the journal are untouched\<close>

lemma add_view_share [ledger_simps]:
  "ll_share (add_view seq sz ms L) = ll_share L" "ll_journal (add_view seq sz ms L) = ll_journal L"
  by (simp_all add: add_view_def Let_def)

lemma add_event_share [ledger_simps]:
  "ll_share (fst (add_event e L)) = ll_share L" "ll_journal (fst (add_event e L)) = ll_journal L"
  by (simp_all add: add_event_def)

lemma late_foreign_share [ledger_simps]:
  "ll_share (fst (late_foreign e L)) = ll_share L"
  "ll_journal (fst (late_foreign e L)) = ll_journal L"
  by (simp_all add: late_foreign_def ledger_simps split: option.splits)

lemma take_to_net_share [ledger_simps]:
  "ll_share (fst (take_to_net L)) = ll_share L" "ll_journal (fst (take_to_net L)) = ll_journal L"
  by (simp_all add: take_to_net_def)

lemma take_credit_share [ledger_simps]:
  "ll_share (fst (take_credit seq q d t L)) = ll_share L"
  "ll_journal (fst (take_credit seq q d t L)) = ll_journal L"
  by (simp_all add: take_credit_def Let_def split: prod.splits)

lemma settle_release_share [ledger_simps]:
  "ll_share (settle_release i t L) = ll_share L" "ll_journal (settle_release i t L) = ll_journal L"
  "ll_to_net (settle_release i t L) = ll_to_net L"
  "ll_credits (settle_release i t L) = ll_credits L"
  "ll_views (settle_release i t L) = ll_views L"
  "ll_events (settle_release i t L) = ll_events L"
  "ll_cursor_seq (settle_release i t L) = ll_cursor_seq L"
  "ll_cursor_leg (settle_release i t L) = ll_cursor_leg L"
  "ll_blind_seq (settle_release i t L) = ll_blind_seq L"
  "ll_room (settle_release i t L) = ll_room L"
  by (simp_all add: settle_release_def Let_def ledger_simps)

text \<open>
  The induction rule both loops are used through: a relation between the ledger before, the
  ledger after and the outcomes that is reflexive, composes, and holds for each kind of round
  holds for the whole loop.
\<close>

lemma settle_loop_rule:
  assumes refl: "\<And>L. R L L []"
    and trans: "\<And>L L1 L2 os os'. R L L1 os \<Longrightarrow> R L1 L2 os' \<Longrightarrow> R L L2 (os @ os')"
    and mark: "\<And>L i s sc ws. i < length (ll_gaps L) \<Longrightarrow> lg_start_seq (ll_gaps L ! i) = Some s \<Longrightarrow>
        walk s (lg_end_seq (ll_gaps L ! i), lg_end_leg (ll_gaps L ! i)) True t
          (scratch_of (ll_gaps L ! i) s) = (sc, ws) \<Longrightarrow> list_ex outcome_guessed ws \<Longrightarrow>
        R L (update_gap i (\<lambda>g. g\<lparr>lg_settled := True\<rparr>) L) (settled_outcomes ws)"
    and release: "\<And>L i s sc ws. i < length (ll_gaps L) \<Longrightarrow> lg_start_seq (ll_gaps L ! i) = Some s \<Longrightarrow>
        walk s (lg_end_seq (ll_gaps L ! i), lg_end_leg (ll_gaps L ! i)) True t
          (scratch_of (ll_gaps L ! i) s) = (sc, ws) \<Longrightarrow> \<not> list_ex outcome_guessed ws \<Longrightarrow>
        R L (settle_release i t L) (settled_outcomes ws)"
  shows "settle_loop known t i L = (L', os) \<Longrightarrow> R L L' os"
proof (induction "length (ll_gaps L) - i" arbitrary: i L L' os rule: less_induct)
  case less
  note eq = settle_loop.simps [of known t i L]
  let ?g = "ll_gaps L ! i"
  show ?case
  proof (cases "length (ll_gaps L) \<le> i")
    case True
    then show ?thesis using less.prems by (simp add: eq refl)
  next
    case len: False
    have next_i: "settle_loop known t (Suc i) L = (L', os) \<Longrightarrow> R L L' os"
      using len by (intro less.hyps) auto
    show ?thesis
    proof (cases "lg_settled ?g \<or> \<not> gap_complete ?g known t \<or> lg_start_seq ?g = None")
      case True
      then have "settle_loop known t i L = settle_loop known t (Suc i) L"
        using len by (cases "lg_start_seq ?g") (simp_all only: eq if_False if_True option.case, simp_all)
      then show ?thesis using next_i less.prems by simp
    next
      case False
      then obtain s where s: "lg_start_seq ?g = Some s" by auto
      obtain sc ws where w: "walk s (lg_end_seq ?g, lg_end_leg ?g) True t (scratch_of ?g s) = (sc, ws)"
        by (metis surj_pair)
      show ?thesis
      proof (cases "list_ex outcome_guessed ws")
        case True
        let ?L = "update_gap i (\<lambda>g. g\<lparr>lg_settled := True\<rparr>) L"
        obtain os' where rec: "settle_loop known t (Suc i) ?L = (L', os')" and os: "os = settled_outcomes ws @ os'"
          using less.prems len False s w True by (auto simp: eq split: prod.splits)
        have "R ?L L' os'" by (rule less.hyps [OF _ rec]) (use len in \<open>simp add: update_gap_def\<close>)
        then show ?thesis unfolding os using len s w True by (intro trans [OF mark]) auto
      next
        case release_case: False
        let ?L = "settle_release i t L"
        obtain os' where rec: "settle_loop known t i ?L = (L', os')" and os: "os = settled_outcomes ws @ os'"
          using less.prems len False s w release_case by (auto simp: eq split: prod.splits)
        have "R ?L L' os'"
          by (rule less.hyps [OF _ rec]) (use len settle_release_less_diff [of i L t] in simp)
        then show ?thesis unfolding os using len s w release_case by (intro trans [OF release]) auto
      qed
    qed
  qed
qed

definition settle_frame :: "leg_ledger \<Rightarrow> leg_ledger \<Rightarrow> bool" where
  "settle_frame L L' \<longleftrightarrow>
     ll_share L' = ll_share L \<and> ll_journal L' = ll_journal L \<and> ll_to_net L' = ll_to_net L \<and>
     ll_credits L' = ll_credits L \<and> ll_views L' = ll_views L \<and> ll_events L' = ll_events L \<and>
     ll_cursor_seq L' = ll_cursor_seq L \<and> ll_cursor_leg L' = ll_cursor_leg L \<and>
     ll_blind_seq L' = ll_blind_seq L \<and> ll_room L' = ll_room L"

lemma settle_gaps_frame: "settle_gaps known t L = (L', os) \<Longrightarrow> settle_frame L L'"
  unfolding settle_gaps_def
  by (rule settle_loop_rule [where R = "\<lambda>L L' os. settle_frame L L'"])
    (auto simp: settle_frame_def ledger_simps)

subsection \<open>Walking\<close>

lemma walk_own_share_in_journal:
  assumes "t \<ge> 0" and "walk_own proven t e L leg = (L1, leg1, out)"
  shows "share_in_journal t L1"
  using assms
  by (auto simp: walk_own_def Let_def share_in_journal_def ledger_simps within_journal_bounded
      split: if_splits)

lemma foreign_take_cases:
  assumes "foreign_take proven t d delta share doubt leg_after = (consumed, doubtful)"
  obtains (none) "consumed = 0" "doubtful = 0"
  | (taken) "proven" "d \<noteq> 0" "delta * d < 0" "consumed = foreign_consumed share leg_after"
      "consumed > t"
      "doubtful \<in> {0, consumed, consumed - provably_taken consumed share doubt leg_after}"
  using assms
  by (auto simp: foreign_take_def Let_def not_le split: if_splits)

lemma foreign_consumed_bounds: "0 \<le> share \<Longrightarrow> 0 \<le> foreign_consumed share l \<and> foreign_consumed share l \<le> share"
  by (simp add: foreign_consumed_def)

lemma provably_taken_bounds: "0 \<le> c \<Longrightarrow> 0 \<le> provably_taken c s d l \<and> provably_taken c s d l \<le> c"
  by (simp add: provably_taken_def)

lemma foreign_take_bounds:
  assumes "foreign_take proven t d delta \<bar>s\<bar> doubt leg_after = (consumed, doubtful)" and "t \<ge> 0"
  shows "0 \<le> consumed \<and> consumed \<le> \<bar>s\<bar> \<and> 0 \<le> doubtful \<and> doubtful \<le> consumed \<and>
    (consumed = 0 \<or> (consumed > t \<and> proven \<and> d \<noteq> 0))"
  using assms(1)
proof (cases rule: foreign_take_cases)
  case none
  then show ?thesis by simp
next
  case taken
  then show ?thesis
    using foreign_consumed_bounds [of "\<bar>s\<bar>" leg_after]
      provably_taken_bounds [of consumed "\<bar>s\<bar>" doubt leg_after] by auto
qed

lemma walk_foreign_share_in_journal:
  assumes "t \<ge> 0" and "walk_foreign proven t e L leg = (L1, leg1, out)"
    and inv: "share_in_journal t L"
  shows "share_in_journal t L1"
proof -
  obtain consumed doubtful where take:
    "foreign_take proven t (direction (ll_share L)) (le_delta e) \<bar>ll_share L\<bar> (ll_doubt L)
       (if direction (ll_share L) \<noteq> 0 then (leg + le_delta e) * direction (ll_share L)
        else leg + le_delta e) = (consumed, doubtful)"
    by (metis surj_pair)
  note b = foreign_take_bounds [OF take assms(1)]
  have share: "ll_share L1 =
      (if consumed \<noteq> 0 then (\<bar>ll_share L\<bar> - consumed) * direction (ll_share L) else ll_share L)"
    and journal: "ll_journal L1 =
      (if consumed \<noteq> 0 then ll_journal L - consumed * direction (ll_share L) else ll_journal L)"
    using assms(2) b take
    by (auto simp: walk_foreign_def Let_def ledger_simps take_journal_eq split: if_splits)
  show ?thesis
    using within_journal_reduce [of t "ll_share L" "ll_journal L" consumed] b inv assms(1)
    by (auto simp: share_in_journal_def share journal)
qed

lemma walk_event_share_in_journal:
  assumes "t \<ge> 0" and "walk_event proven t e L leg = (L1, leg1, out)" and "share_in_journal t L"
  shows "share_in_journal t L1"
  using assms walk_own_share_in_journal walk_foreign_share_in_journal
  by (auto simp: walk_event_def split: if_splits)

lemma walk_events_share_in_journal:
  assumes "t \<ge> 0" and "walk_events proven t es L leg = (L1, leg1, out)" and "share_in_journal t L"
  shows "share_in_journal t L1"
  using assms(2,3)
proof (induction es arbitrary: L leg out)
  case Nil
  then show ?case by simp
next
  case (Cons e es)
  then show ?case
    by (auto split: prod.splits dest: walk_event_share_in_journal [OF assms(1)])
qed

lemma walk_share_in_journal:
  assumes "t \<ge> 0" and "walk cursor v proven t L = (L1, out)" and "share_in_journal t L"
  shows "share_in_journal t L1"
proof -
  obtain L2 leg2 out2 where w:
    "walk_events proven t (due_events cursor (fst v) L) L (ll_cursor_leg L) = (L2, leg2, out2)"
    by (metis prod_cases3)
  have "share_in_journal t L2" by (rule walk_events_share_in_journal [OF assms(1) w assms(3)])
  moreover have "ll_journal L1 = ll_journal L2"
    "ll_share L1 = (if proven then capped (ll_share L2) (snd v) t else ll_share L2)"
    using assms(2) w by (auto simp: walk_def walk_finish_def Let_def ledger_simps)
  ultimately show ?thesis
    using within_journal_capped assms(1) by (auto simp: share_in_journal_def)
qed

lemma clamp_share_in_journal:
  assumes "t \<ge> 0" and "clamp_to_view leg t L = (L1, q)" and "share_in_journal t L"
  shows "share_in_journal t L1"
proof (cases "direction (ll_share L) \<noteq> 0 \<and> \<bar>ll_share L\<bar> > max (leg * direction (ll_share L)) 0 + t")
  case True
  let ?m = "max (leg * direction (ll_share L)) 0"
  have "ll_share L1 = (\<bar>ll_share L\<bar> - (\<bar>ll_share L\<bar> - ?m)) * direction (ll_share L)"
    "ll_journal L1 = ll_journal L - (\<bar>ll_share L\<bar> - ?m) * direction (ll_share L)"
    using True assms(1,2)
    by (auto simp: clamp_to_view_def Let_def ledger_simps take_journal_eq split: if_splits)
  then show ?thesis
    using within_journal_reduce [of t "ll_share L" "ll_journal L" "\<bar>ll_share L\<bar> - ?m"] True assms(1,3)
    by (auto simp: share_in_journal_def)
next
  case False
  then have "L1 = L" using assms(2) by (auto simp: clamp_to_view_def Let_def split: if_splits)
  then show ?thesis using assms(3) by simp
qed

lemma give_up_share_in_journal:
  assumes "t \<ge> 0" and "give_up cursor v t L = (L1, out)" and "share_in_journal t L"
  shows "share_in_journal t L1"
proof -
  obtain La outa where a: "walk cursor v False t L = (La, outa)" by (metis surj_pair)
  obtain Lb q where b: "clamp_to_view (snd v) t La = (Lb, q)" by (metis surj_pair)
  have "share_in_journal t Lb"
    by (intro clamp_share_in_journal [OF assms(1) b] walk_share_in_journal [OF assms(1) a] assms(3))
  moreover have "ll_share L1 = ll_share Lb" "ll_journal L1 = ll_journal Lb"
    using assms(2) a b by (auto simp: give_up_def Let_def ledger_simps split: if_splits)
  ultimately show ?thesis by (simp add: share_in_journal_def)
qed

lemma advance_loop_rule:
  assumes since: "\<And>L g. R L (L\<lparr>ll_gap_since := g\<rparr>) []"
    and trans: "\<And>L L1 L2 os os'. R L L1 os \<Longrightarrow> R L1 L2 os' \<Longrightarrow> R L L2 (os @ os')"
    and walked: "\<And>L L1 c v os. ll_cursor_seq L = Some c \<Longrightarrow> v \<in> set (later_views c L) \<Longrightarrow>
        provable \<Longrightarrow> scan_views L c t known None (later_views c L) = Some v \<Longrightarrow>
        walk c v True t L = (L1, os) \<Longrightarrow> R L L1 os"
    and given_up: "\<And>L L1 c v vs os. ll_cursor_seq L = Some c \<Longrightarrow> later_views c L = v # vs \<Longrightarrow>
        give_up c v t L = (L1, os) \<Longrightarrow> R L L1 os"
  shows "advance_loop now grace t known provable L = (L', os) \<Longrightarrow> R L L' os"
proof (induction "pending_views L" arbitrary: L L' os rule: less_induct)
  case less
  note eq = advance_loop.simps [of now grace t known provable L]
  show ?case
  proof (cases "ll_cursor_seq L")
    case None
    then show ?thesis using less.prems since [of L "ll_gap_since L"] by (simp add: eq)
  next
    case c: (Some c)
    show ?thesis
    proof (cases "later_views c L")
      case Nil
      then have "L' = L\<lparr>ll_gap_since := None\<rparr>" "os = []" using less.prems c by (simp_all add: eq)
      then show ?thesis using since by simp
    next
      case v: (Cons first rest)
      let ?L0 = "L\<lparr>ll_gap_since := None\<rparr>"
      let ?scan = "scan_views L c t known None (if provable then first # rest else [])"
      have exp0: "expected_leg ?L0 = expected_leg L" by (simp add: fun_eq_iff expected_leg_def)
      have scan0: "scan_views ?L0 c t known tgt vs = scan_views L c t known tgt vs" for tgt vs
        by (induction vs arbitrary: tgt) (auto simp: exp0)
      have later0: "later_views c ?L0 = later_views c L" by (simp add: later_views_def)
      show ?thesis
      proof (cases ?scan)
        case (Some target)
        obtain L1 out1 where w: "walk c target True t ?L0 = (L1, out1)" by (metis surj_pair)
        obtain out2 where rec: "advance_loop now grace t known provable L1 = (L', out2)"
            and os: "os = out1 @ out2"
          using less.prems c v Some w by (auto simp: eq split: prod.splits)
        have prov: provable using Some by (auto split: if_splits)
        have "R L1 L' out2"
          by (rule less.hyps [OF walk_pending [OF w c scan_target_later [OF Some v]] rec])
        moreover have "R ?L0 L1 out1"
          by (rule walked [OF _ _ prov _ w])
            (use c v Some prov scan_target_later [OF Some v] in \<open>simp_all add: later0 scan0 del: scan_views.simps\<close>)
        ultimately show ?thesis unfolding os using since [of L None] trans [of L ?L0 "[]" L1 out1]
          by (auto intro: trans)
      next
        case None
        let ?since = "case ll_gap_since L of None \<Rightarrow> now | Some s \<Rightarrow> s"
        show ?thesis
        proof (cases "now - ?since < grace")
          case True
          then have "L' = L\<lparr>ll_gap_since := Some ?since\<rparr>" "os = []"
            using less.prems c v None by (simp_all add: eq)
          then show ?thesis using since by simp
        next
          case False
          obtain L1 out1 where g: "give_up c first t ?L0 = (L1, out1)" by (metis surj_pair)
          obtain out2 where rec: "advance_loop now grace t known provable L1 = (L', out2)"
              and os: "os = out1 @ out2"
            using less.prems c v None False g by (auto simp: eq split: prod.splits)
          have "R L1 L' out2" by (rule less.hyps [OF give_up_pending [OF g c v] rec])
          moreover have "R ?L0 L1 out1"
            by (rule given_up [OF _ _ g]) (use c v in \<open>simp_all add: later0\<close>)
          ultimately show ?thesis unfolding os using since [of L None] trans [of L ?L0 "[]" L1 out1]
            by (auto intro: trans)
        qed
      qed
    qed
  qed
qed

lemma advance_rule:
  assumes "\<And>L g. R L (L\<lparr>ll_gap_since := g\<rparr>) []"
    and "\<And>L L1 L2 os os'. R L L1 os \<Longrightarrow> R L1 L2 os' \<Longrightarrow> R L L2 (os @ os')"
    and "\<And>L L1 os. provable \<Longrightarrow> settle_gaps known t L = (L1, os) \<Longrightarrow> R L L1 os"
    and "\<And>L L1 c v os. ll_cursor_seq L = Some c \<Longrightarrow> v \<in> set (later_views c L) \<Longrightarrow>
        provable \<Longrightarrow> scan_views L c t known None (later_views c L) = Some v \<Longrightarrow>
        walk c v True t L = (L1, os) \<Longrightarrow> R L L1 os"
    and "\<And>L L1 c v vs os. ll_cursor_seq L = Some c \<Longrightarrow> later_views c L = v # vs \<Longrightarrow>
        give_up c v t L = (L1, os) \<Longrightarrow> R L L1 os"
    and "advance now grace t known provable L = (L', os)"
  shows "R L L' os"
proof -
  have refl: "R L L []" for L using assms(1) [of L "ll_gap_since L"] by simp
  have loop: "advance_loop now grace t known provable L = (L', os) \<Longrightarrow> R L L' os" for L L' os
    by (rule advance_loop_rule [where R = R and now = now and grace = grace and t = t
        and known = known and provable = provable]) (use assms(1,2,4,5) in blast)+
  obtain L1 out1 where first: "(if provable then settle_gaps known t L else (L, [])) = (L1, out1)"
    by (metis surj_pair)
  have one: "R L L1 out1" using first refl assms(3) by (auto split: if_splits)
  obtain L2 out2 where rest: "advance_loop now grace t known provable L1 = (L2, out2)"
    by (metis surj_pair)
  show ?thesis
    using assms(6) refl first rest assms(2) [OF one loop [OF rest]]
    by (auto simp: advance_def split: if_splits)
qed

lemma advance_share_in_journal:
  assumes "t \<ge> 0" and "share_in_journal t L" and "advance now grace t known provable L = (L', os)"
  shows "share_in_journal t L'"
proof -
  have "share_in_journal t L \<longrightarrow> share_in_journal t L'"
    by (rule advance_rule [OF _ _ _ _ _ assms(3),
          where R = "\<lambda>L L' os. share_in_journal t L \<longrightarrow> share_in_journal t L'"])
      (auto simp: share_in_journal_def settle_frame_def dest!: settle_gaps_frame
        intro: walk_share_in_journal [OF assms(1), unfolded share_in_journal_def]
          give_up_share_in_journal [OF assms(1), unfolded share_in_journal_def])
  then show ?thesis using assms(2) by simp
qed

subsection \<open>Starting, synchronising, late own executions\<close>

lemma capped_scaled:
  "t \<ge> 0 \<Longrightarrow> capped s leg t = \<bar>capped s leg t\<bar> * direction s"
  using abs_capped_le [of t s leg] abs_direction [of "capped s leg t"]
  by (cases "capped s leg t = 0") (auto simp: direction_def abs_if split: if_splits)

lemma start_share:
  assumes "ll_views L \<noteq> []"
  shows "ll_share (fst (start j t L)) =
    capped (j - own_beyond L (fst (last (ll_views L)))) (snd (last (ll_views L))) t"
  using assms by (simp add: start_def Let_def ledger_simps split: prod.splits)

lemma start_journal:
  assumes "ll_views L \<noteq> []"
  shows "let s = j - own_beyond L (fst (last (ll_views L))); c = \<bar>s\<bar> - \<bar>ll_share (fst (start j t L))\<bar>
     in ll_journal (fst (start j t L)) = (if s = 0 \<or> c \<le> t \<or> c \<le> 0 then s else s - c * direction s)"
  using assms by (auto simp: start_def Let_def ledger_simps take_journal_eq split: prod.splits)

lemma start_share_in_journal:
  assumes "t \<ge> 0" and "share_in_journal t L"
  shows "share_in_journal t (fst (start j t L))"
proof (cases "ll_views L = []")
  case True
  then show ?thesis using assms by (simp add: start_def)
next
  case False
  define s where "s = j - own_beyond L (fst (last (ll_views L)))"
  define k where "k = capped s (snd (last (ll_views L))) t"
  have k: "k = \<bar>k\<bar> * direction s" unfolding k_def by (rule capped_scaled [OF assms(1)])
  have le: "\<bar>k\<bar> \<le> \<bar>s\<bar>" and dir: "k = 0 \<or> direction k = direction s"
    using abs_capped_le [OF assms(1)] by (auto simp: k_def)
  have "ll_share (fst (start j t L)) = k"
    using start_share [OF False] by (simp add: k_def s_def)
  moreover have "ll_journal (fst (start j t L)) \<in> {s, s - (\<bar>s\<bar> - \<bar>k\<bar>) * direction s}"
    using start_journal [OF False, of j t] start_share [OF False, of j t]
    by (auto simp: k_def s_def Let_def)
  moreover have "within_journal t k s"
    using le dir assms(1) by (auto simp: within_journal_def abs_direction mult.commute)
  moreover have "within_journal t k (s - (\<bar>s\<bar> - \<bar>k\<bar>) * direction s)"
    using within_journal_reduce [of t s s "\<bar>s\<bar> - \<bar>k\<bar>"] le k [symmetric] assms(1)
    by (auto simp: within_journal_def direction_def split: if_splits)
  ultimately show ?thesis by (auto simp: share_in_journal_def)
qed

lemma sync_journal_share_in_journal:
  assumes "t \<ge> 0" and "share_in_journal t L"
  shows "share_in_journal t (sync_journal j t L)"
  using assms within_journal_bounded
  by (auto simp: sync_journal_def Let_def share_in_journal_def ledger_simps split: option.splits)

lemma late_moves_sum:
  assumes "late_moves b w = (shrunk, grown)"
  shows "b - shrunk * direction b + grown * direction w = w" "0 \<le> shrunk" "0 \<le> grown"
    "grown \<le> \<bar>w\<bar>"
  using assms
  by (auto simp: late_moves_def direction_def max_def split: if_splits)

lemma late_kept_bounds: "grown > 0 \<Longrightarrow> t \<ge> 0 \<Longrightarrow> 0 \<le> late_kept grown room t \<and> late_kept grown room t \<le> grown"
  by (auto simp: late_kept_def Let_def)

lemma late_small_frames [ledger_simps]:
  "ll_share (late_shrink b e d s L) = ll_share L" "ll_journal (late_shrink b e d s L) = ll_journal L"
  "ll_share (late_join e g L) = ll_share L" "ll_journal (late_join e g L) = ll_journal L"
  "ll_share (late_resolve e d g L) = ll_share L" "ll_journal (late_resolve e d g L) = ll_journal L"
  "ll_share (late_doubt c b e g k t L) = ll_share L" "ll_journal (late_doubt c b e g k t L) = ll_journal L"
  by (simp_all add: late_shrink_def late_join_def late_resolve_def late_doubt_def Let_def
      ledger_simps split: option.splits)

lemma late_grow_share:
  "ll_share (late_grow c d grown kept share L) = (if grown > 0 then share + kept * d else share)"
  "ll_journal (late_grow c d grown kept share L) =
     (if grown > 0 \<and> grown - kept > 0 then ll_journal L - (grown - kept) * d else ll_journal L)"
  by (simp_all add: late_grow_def Let_def ledger_simps take_journal_eq)

lemma late_own_share:
  assumes "late_own e t L = Some (L', out)"
  obtains shrunk grown kept where
    "late_moves (ll_share L) (bounded (ll_share L + le_share e) (ll_journal L + le_share e) t)
       = (shrunk, grown)"
    "grown > 0 \<Longrightarrow> \<exists>room. kept = late_kept grown room t" "\<not> grown > 0 \<Longrightarrow> kept = 0"
    "ll_share L' = ll_share L - shrunk * direction (ll_share L) +
       kept * direction (bounded (ll_share L + le_share e) (ll_journal L + le_share e) t)"
    "ll_journal L' = ll_journal L + le_share e - (grown - kept) *
       direction (bounded (ll_share L + le_share e) (ll_journal L + le_share e) t)
       \<or> (grown - kept \<le> 0 \<or> \<not> grown > 0) \<and> ll_journal L' = ll_journal L + le_share e"
    "out = None \<longleftrightarrow> \<not> grown > 0 \<or> grown - kept \<le> 0"
    "\<And>o1. out = Some o1 \<Longrightarrow> lo_consumed o1 = grown - kept \<and> lo_event o1 = Some e \<and> \<not> lo_proven o1"
proof -
  let ?w = "bounded (ll_share L + le_share e) (ll_journal L + le_share e) t"
  obtain shrunk grown where m: "late_moves (ll_share L) ?w = (shrunk, grown)" by (metis surj_pair)
  obtain cursor blind where c: "ll_cursor_seq L = Some cursor" "ll_blind_seq L = Some blind"
    using assms by (auto simp: late_own_def split: option.splits)
  define L1 where "L1 = L\<lparr>ll_journal := ll_journal L + le_share e\<rparr>"
  define L2 where "L2 = late_shrink blind e (direction (ll_share L)) shrunk L1"
  define gap where "gap = gap_of L2 (le_seq e)"
  define L3 where "L3 = late_join e gap L2"
  define L4 where "L4 = late_resolve e (direction (ll_share L)) gap L3"
  define kept where "kept = (if grown > 0
      then late_kept grown (dget (ll_room L4) (direction ?w) 0) t else 0)"
  define L5 where "L5 = late_grow cursor (direction ?w) grown kept
      (ll_share L - shrunk * direction (ll_share L)) L4"
  define L6 where "L6 = cap_doubt t (late_doubt cursor blind e gap kept t L5)"
  define gone where "gone = (if grown > 0 then grown - kept else 0)"
  have "late_own e t L = Some (L6, if gone \<le> 0 then None
      else Some \<lparr>lo_event = Some e, lo_consumed = gone, lo_proven = False,
                 lo_share_before = \<bar>?w\<bar>, lo_leg_after = max (ll_cursor_leg L6 * direction ?w) 0,
                 lo_seq = le_seq e, lo_unexplained = 0, lo_doubtful = 0,
                 lo_clipped = 0, lo_settled = False\<rparr>)"
    by (simp add: late_own_def c m Let_def gone_def L6_def kept_def L5_def L4_def L3_def gap_def
        L2_def L1_def cong del: if_cong option.case_cong)
  then have L': "L' = L6" and out: "out = (if gone \<le> 0 then None
      else Some \<lparr>lo_event = Some e, lo_consumed = gone, lo_proven = False,
                 lo_share_before = \<bar>?w\<bar>, lo_leg_after = max (ll_cursor_leg L6 * direction ?w) 0,
                 lo_seq = le_seq e, lo_unexplained = 0, lo_doubtful = 0,
                 lo_clipped = 0, lo_settled = False\<rparr>)"
    using assms by simp_all
  have j4: "ll_journal L4 = ll_journal L + le_share e"
    by (simp add: L4_def L3_def L2_def L1_def ledger_simps)
  show ?thesis
    by (rule that [OF m, where kept = kept])
      (auto simp: kept_def L' out L6_def gone_def L5_def ledger_simps late_grow_share j4
        split: if_splits)
qed

lemma late_own_share_in_journal:
  assumes "t \<ge> 0" and "late_own e t L = Some (L', out)"
  shows "share_in_journal t L'"
  using assms(2)
proof (cases rule: late_own_share)
  case (1 shrunk grown kept)
  let ?w = "bounded (ll_share L + le_share e) (ll_journal L + le_share e) t"
  let ?j = "ll_journal L + le_share e"
  have sum: "ll_share L - shrunk * direction (ll_share L) + grown * direction ?w = ?w"
    "0 \<le> grown" "grown \<le> \<bar>?w\<bar>"
    using late_moves_sum [OF 1(1)] by auto
  have kept: "0 \<le> kept" "kept \<le> grown"
    using 1(2,3) late_kept_bounds [OF _ assms(1)] sum(2) by (cases "grown > 0"; auto)+
  have w: "within_journal t ?w ?j" by (rule within_journal_bounded [OF assms(1)])
  have share: "ll_share L' = (\<bar>?w\<bar> - (grown - kept)) * direction ?w"
    using 1(4) sum(1) abs_direction [of ?w] by (simp add: algebra_simps direction_def split: if_splits)
  have journal: "ll_journal L' = ?j - (grown - kept) * direction ?w"
    using 1(5) kept sum(2) by (auto simp: le_diff_eq)
  show ?thesis
    unfolding share_in_journal_def share journal
    by (rule within_journal_reduce [OF w]) (use kept sum assms(1) in auto)
qed

subsection \<open>Every operation\<close>

lemma ledger_step_share_in_journal:
  assumes "t \<ge> 0" and "share_in_journal t L"
  shows "share_in_journal t (ledger_step t x L)"
proof (cases x)
  case (LateOwn e)
  then show ?thesis
    using assms late_own_share_in_journal [OF assms(1)] by (auto split: option.splits)
next
  case (Advance now grace known provable)
  then show ?thesis
    using advance_share_in_journal [OF assms] by (metis ledger_step.simps(9) surj_pair fst_conv)
qed (use assms start_share_in_journal sync_journal_share_in_journal
     in \<open>auto simp: share_in_journal_def ledger_simps\<close>)

section \<open>Limits, order and signs\<close>

definition views_ok :: "leg_ledger \<Rightarrow> bool" where
  "views_ok L \<longleftrightarrow> length (ll_views L) \<le> MAX_VIEWS \<and> sorted_wrt (<) (map fst (ll_views L))"

definition events_ok :: "leg_ledger \<Rightarrow> bool" where
  "events_ok L \<longleftrightarrow> length (ll_events L) \<le> MAX_EVENTS \<and> distinct (map fst (ll_events L)) \<and>
     (\<forall>(k, e) \<in> set (ll_events L). k = le_exec_id e)"

definition credits_ok :: "leg_ledger \<Rightarrow> bool" where
  "credits_ok L \<longleftrightarrow> length (ll_credits L) \<le> MAX_CREDITS \<and> (\<forall>c \<in> set (ll_credits L). fst (snd c) > 0)"

definition gaps_ok :: "leg_ledger \<Rightarrow> bool" where
  "gaps_ok L \<longleftrightarrow> length (ll_gaps L) \<le> MAX_GAPS \<and> ll_doubt L \<ge> 0"

definition blind_ok :: "leg_ledger \<Rightarrow> bool" where
  "blind_ok L \<longleftrightarrow> (ll_cursor_seq L = None \<longleftrightarrow> ll_blind_seq L = None)"

subsection \<open>Views\<close>

lemma sorted_insert_view:
  assumes "sorted_wrt (<) (map fst vs)"
  shows "sorted_wrt (<) (map fst (insert_view seq sz vs))"
proof -
  let ?ws = "filter (\<lambda>v. fst v \<noteq> seq) vs @ [(seq, sz)]"
  have "distinct (map fst (filter (\<lambda>v. fst v \<noteq> seq) vs))"
    using assms by (induction vs) (auto simp: strict_sorted_iff)
  then have "distinct (map fst ?ws)" by auto
  then have "distinct (map fst (sort_key fst ?ws))"
    by (metis distinct_map distinct_sort set_sort)
  moreover have "sorted (map fst (sort_key fst ?ws))" by simp
  ultimately have "sorted_wrt (<) (map fst (sort_key fst ?ws))"
    by (simp add: strict_sorted_iff)
  then show ?thesis
    using sorted_wrt_drop by (auto simp: insert_view_def keep_last_def drop_map [symmetric])
qed

lemma add_view_views_ok: "views_ok L \<Longrightarrow> views_ok (add_view seq sz ms L)"
  using sorted_insert_view
  by (auto simp: views_ok_def add_view_def Let_def) (auto simp: insert_view_def)

lemma views_ok_filter: "views_ok L \<Longrightarrow> ll_views L' = filter P (ll_views L) \<Longrightarrow> views_ok L'"
  by (auto simp: views_ok_def sorted_wrt_map sorted_wrt_filter intro: order_trans [OF length_filter_le])

lemma start_views: "ll_views (fst (start j t L)) = (if ll_views L = [] then [] else [last (ll_views L)])"
  by (auto simp: start_def Let_def ledger_simps split: prod.splits)

definition late_frame :: "leg_ledger \<Rightarrow> leg_ledger \<Rightarrow> bool" where
  "late_frame L L' \<longleftrightarrow> ll_views L' = ll_views L \<and> ll_events L' = ll_events L \<and>
     ll_cursor_seq L' = ll_cursor_seq L \<and> ll_blind_seq L' = ll_blind_seq L \<and>
     ll_cursor_leg L' = ll_cursor_leg L"

lemma late_frame_trans: "late_frame L1 L2 \<Longrightarrow> late_frame L2 L3 \<Longrightarrow> late_frame L1 L3"
  by (simp add: late_frame_def)

lemma late_frame_refl: "late_frame L L"
  by (simp add: late_frame_def)

lemma late_frame_steps:
  "late_frame L (late_shrink b e d s L)" "late_frame L (late_join e g L)"
  "late_frame L (late_resolve e d g L)" "late_frame L (late_grow c d grown k s L)"
  "late_frame L (late_doubt c b e g k t L)" "late_frame L (cap_doubt t L)"
  "late_frame L (L\<lparr>ll_journal := j\<rparr>)"
  by (simp_all add: late_frame_def late_shrink_def late_join_def late_resolve_def late_grow_def
      late_doubt_def Let_def ledger_simps split: option.splits)

text \<open>A property each piece of \<open>late_own\<close> keeps is kept by the whole.\<close>

lemma late_own_rule:
  assumes "late_own e t L = Some (L', out)" and "P L"
    and "\<And>L j. P L \<Longrightarrow> P (L\<lparr>ll_journal := j\<rparr>)"
    and "\<And>L b d s. P L \<Longrightarrow> P (late_shrink b e d s L)"
    and "\<And>L g. P L \<Longrightarrow> P (late_join e g L)"
    and "\<And>L d g. P L \<Longrightarrow> P (late_resolve e d g L)"
    and "\<And>L c d grown k s. P L \<Longrightarrow> P (late_grow c d grown k s L)"
    and "\<And>L c b g k. P L \<Longrightarrow> P (late_doubt c b e g k t L)"
    and "\<And>L. P L \<Longrightarrow> P (cap_doubt t L)"
  shows "P L'"
proof -
  obtain cursor blind where c: "ll_cursor_seq L = Some cursor" "ll_blind_seq L = Some blind"
    using assms(1) by (auto simp: late_own_def split: option.splits)
  then show ?thesis
    using assms(1) unfolding late_own_def c
    by (auto simp: Let_def simp del: if_split intro!: assms(2-) split: prod.splits)
qed

lemma late_own_frame:
  assumes "late_own e t L = Some (L', out)"
  shows "late_frame L L'"
  by (rule late_own_rule [OF assms, where P = "late_frame L"])
    (rule late_frame_refl | (erule late_frame_trans, rule late_frame_steps))+

lemma views_ok_same: "views_ok L \<Longrightarrow> ll_views L' = ll_views L \<Longrightarrow> views_ok L'"
  by (simp add: views_ok_def)

lemma advance_views_ok:
  assumes "views_ok L" and "advance now grace t known provable L = (L', os)"
  shows "views_ok L'"
proof -
  have "views_ok L \<longrightarrow> views_ok L'"
    by (rule advance_rule [OF _ _ _ _ _ assms(2), where R = "\<lambda>L L' os. views_ok L \<longrightarrow> views_ok L'"])
      (auto dest!: settle_gaps_frame walk_frame give_up_frame intro: views_ok_filter views_ok_same
        simp: settle_frame_def)
  then show ?thesis using assms(1) by simp
qed

subsection \<open>Executions\<close>

definition events_sub :: "leg_ledger \<Rightarrow> leg_ledger \<Rightarrow> bool" where
  "events_sub L L' \<longleftrightarrow> length (ll_events L') \<le> length (ll_events L) \<and>
     set (ll_events L') \<subseteq> set (ll_events L) \<and>
     (distinct (map fst (ll_events L)) \<longrightarrow> distinct (map fst (ll_events L')))"

lemma events_sub_ok: "events_sub L L' \<Longrightarrow> events_ok L \<Longrightarrow> events_ok L'"
  by (auto simp: events_sub_def events_ok_def)

lemma events_sub_same: "ll_events L' = ll_events L \<Longrightarrow> events_sub L L'"
  by (simp add: events_sub_def)

lemma events_sub_trans: "events_sub L1 L2 \<Longrightarrow> events_sub L2 L3 \<Longrightarrow> events_sub L1 L3"
  by (auto simp: events_sub_def)

lemma delete_all_sub:
  "length (fold (\<lambda>e. AList.delete (le_exec_id e)) due es) \<le> length es \<and>
   set (fold (\<lambda>e. AList.delete (le_exec_id e)) due es) \<subseteq> set es \<and>
   (distinct (map fst es) \<longrightarrow> distinct (map fst (fold (\<lambda>e. AList.delete (le_exec_id e)) due es)))"
proof (induction due arbitrary: es)
  case Nil
  then show ?case by simp
next
  case (Cons e due)
  have "set (AList.delete (le_exec_id e) es) \<subseteq> set es" "length (AList.delete (le_exec_id e) es) \<le> length es"
    "distinct (map fst es) \<longrightarrow> distinct (map fst (AList.delete (le_exec_id e) es))"
    by (auto simp: AList.delete_eq distinct_map_filter)
  with Cons [of "AList.delete (le_exec_id e) es"] show ?case by auto
qed

lemma walk_finish_events:
  "ll_events (walk_finish proven t v due L) =
     fold (\<lambda>e. AList.delete (le_exec_id e)) due (ll_events L)"
  by (simp add: walk_finish_def Let_def ledger_simps)

lemma walk_events_sub: "walk c v proven t L = (L', os) \<Longrightarrow> events_sub L L'"
  using delete_all_sub [of "due_events c (fst v) L" "ll_events L"]
  by (auto simp: walk_def walk_finish_events Let_def events_sub_def
      dest!: walk_events_frame split: prod.splits)

lemma give_up_events_sub:
  assumes "give_up c v t L = (L', os)"
  shows "events_sub L L'"
proof -
  obtain L1 os1 where w: "walk c v False t L = (L1, os1)" by (metis surj_pair)
  obtain L2 q where k: "clamp_to_view (snd v) t L1 = (L2, q)" by (metis surj_pair)
  have "ll_events L' = ll_events L1"
    using assms w k clamp_to_view_frame [OF k]
    by (auto simp: give_up_def Let_def ledger_simps split: if_splits)
  then show ?thesis using walk_events_sub [OF w] by (simp add: events_sub_def)
qed

lemma advance_events_sub: "advance now grace t known provable L = (L', os) \<Longrightarrow> events_sub L L'"
  by (rule advance_rule [where R = "\<lambda>L L' os. events_sub L L'"])
    (auto intro: events_sub_trans walk_events_sub give_up_events_sub events_sub_same
      dest!: settle_gaps_frame simp: settle_frame_def)

lemma distinct_update: "distinct (map fst es) \<Longrightarrow> distinct (map fst (AList.update k v es))"
  by (rule AList.distinct_update)

lemma length_update_le: "length (AList.update k v es) \<le> Suc (length es)"
  by (induction es) auto

lemma in_update: "x \<in> set (AList.update k v es) \<Longrightarrow> x = (k, v) \<or> x \<in> set es"
  by (induction es) (auto split: if_splits)

lemma length_delete_less:
  assumes "k \<in> fst ` set es"
  shows "length (AList.delete k es) < length es"
proof -
  obtain p where "p \<in> set es" "fst p = k" using assms by auto
  then show ?thesis by (auto simp: AList.delete_eq intro: length_filter_less)
qed

lemma evict_oldest_ok:
  assumes "length es \<le> Suc MAX_EVENTS" and "distinct (map fst es)"
    and keys: "\<forall>(k, e) \<in> set es. k = le_exec_id e"
  shows "length (evict_oldest es) \<le> MAX_EVENTS \<and> distinct (map fst (evict_oldest es)) \<and>
    (\<forall>(k, e) \<in> set (evict_oldest es). k = le_exec_id e)"
proof (cases "length es > MAX_EVENTS")
  case False
  then show ?thesis using assms by (simp add: evict_oldest_def)
next
  case True
  then obtain p ps where es: "es = p # ps" by (cases es) auto
  let ?m = "min_by le_seq (snd p) (map snd ps)"
  have "?m \<in> snd ` set es" using min_by_in [of le_seq "snd p" "map snd ps"] es by auto
  then obtain k where "(k, ?m) \<in> set es" by auto
  moreover from this have "k = le_exec_id ?m" using keys by blast
  ultimately have "le_exec_id ?m \<in> fst ` set es" by force
  from length_delete_less [OF this] True assms show ?thesis
    by (auto simp: evict_oldest_def es AList.delete_eq distinct_map_filter)
qed

lemma add_event_events_ok:
  assumes "events_ok L"
  shows "events_ok (fst (add_event e L))"
proof -
  let ?es = "AList.update (le_exec_id e) e (ll_events L)"
  have "\<forall>(k, x) \<in> set ?es. k = le_exec_id x"
    using assms in_update by (fastforce simp: events_ok_def)
  moreover have "length ?es \<le> Suc MAX_EVENTS" "distinct (map fst ?es)"
    using assms length_update_le [of "le_exec_id e" e "ll_events L"]
    by (auto simp: events_ok_def intro: AList.distinct_update)
  ultimately show ?thesis
    using evict_oldest_ok [of ?es] assms by (auto simp: add_event_def events_ok_def)
qed

lemma start_events_sub: "events_sub L (fst (start j t L))"
  by (auto simp: start_def Let_def ledger_simps events_sub_def distinct_map_filter
      intro: order_trans [OF length_filter_le] split: prod.splits)

subsection \<open>Credits and gaps\<close>

definition stores_ok :: "leg_ledger \<Rightarrow> bool" where
  "stores_ok L \<longleftrightarrow> credits_ok L \<and> gaps_ok L"

lemma length_merge_gaps: "length (merge_gaps gs) \<le> MAX_GAPS"
  by (induction gs rule: merge_gaps.induct) (auto simp: MAX_GAPS_def)

lemma stores_ok_cong:
  "stores_ok L \<Longrightarrow> ll_credits L' = ll_credits L \<Longrightarrow> ll_gaps L' = ll_gaps L \<Longrightarrow>
   ll_doubt L' = ll_doubt L \<Longrightarrow> stores_ok L'"
  by (simp add: stores_ok_def credits_ok_def gaps_ok_def)

lemma stores_ok_fields [simp]:
  "stores_ok (L\<lparr>ll_journal := j\<rparr>) = stores_ok L" "stores_ok (L\<lparr>ll_share := j\<rparr>) = stores_ok L"
  "stores_ok (L\<lparr>ll_room := r\<rparr>) = stores_ok L" "stores_ok (L\<lparr>ll_gap_since := g\<rparr>) = stores_ok L"
  "stores_ok (L\<lparr>ll_blind_seq := b\<rparr>) = stores_ok L" "stores_ok (L\<lparr>ll_views := vs\<rparr>) = stores_ok L"
  "stores_ok (L\<lparr>ll_events := es\<rparr>) = stores_ok L" "stores_ok (L\<lparr>ll_cursor_seq := c\<rparr>) = stores_ok L"
  "stores_ok (L\<lparr>ll_cursor_leg := l\<rparr>) = stores_ok L" "stores_ok (L\<lparr>ll_to_net := n\<rparr>) = stores_ok L"
  "stores_ok (L\<lparr>ll_latest_view_seq := q\<rparr>) = stores_ok L"
  "stores_ok (L\<lparr>ll_newest_view := w\<rparr>) = stores_ok L"
  by (simp_all add: stores_ok_def credits_ok_def gaps_ok_def)

lemma stores_ok_steps:
  assumes "t \<ge> 0" and "stores_ok L"
  shows "stores_ok (cap_doubt t L)" "stores_ok (note_room g s L)" "stores_ok (take_journal q d L)"
    "stores_ok (add_credit seq q d L)" "stores_ok (add_gap gp L)" "stores_ok (update_gap i f L)"
    "stores_ok (L\<lparr>ll_doubt := max 0 x\<rparr>)"
proof -
  show "stores_ok (cap_doubt t L)"
    using assms by (auto simp: stores_ok_def credits_ok_def gaps_ok_def cap_doubt_def Let_def)
  show "stores_ok (note_room g s L)"
    using assms by (simp add: note_room_def)
  show "stores_ok (take_journal q d L)" using assms by (auto simp: take_journal_def)
  show "stores_ok (add_credit seq q d L)"
    using assms
    by (auto simp: stores_ok_def credits_ok_def gaps_ok_def add_credit_def dest!: in_keep_last)
  show "stores_ok (add_gap gp L)"
    using assms length_merge_gaps
    by (auto simp: stores_ok_def credits_ok_def gaps_ok_def add_gap_def)
  show "stores_ok (update_gap i f L)"
    using assms by (auto simp: stores_ok_def credits_ok_def gaps_ok_def update_gap_def)
  show "stores_ok (L\<lparr>ll_doubt := max 0 x\<rparr>)"
    using assms by (auto simp: stores_ok_def credits_ok_def gaps_ok_def)
qed

lemma add_doubt_stores_ok:
  assumes "t \<ge> 0" and "stores_ok L"
  shows "stores_ok (add_doubt seq q t L)"
proof (cases "q \<le> t")
  case True
  then show ?thesis using assms by (simp add: add_doubt_def)
next
  case False
  then have "stores_ok (L\<lparr>ll_doubt := ll_doubt L + q, ll_doubt_seq := max (ll_doubt_seq L) seq\<rparr>)"
    using assms by (auto simp: stores_ok_def credits_ok_def gaps_ok_def)
  then show ?thesis using False stores_ok_steps(1) [OF assms(1)] by (simp add: add_doubt_def)
qed

lemma walk_event_stores_ok:
  assumes "t \<ge> 0" and "walk_event proven t e L leg = (L1, leg1, out)" and "stores_ok L"
  shows "stores_ok L1"
  using assms(2)
  by (auto simp: walk_event_def walk_own_def walk_foreign_def Let_def
      intro!: stores_ok_steps [OF assms(1)] assms(3) split: if_splits prod.splits)

lemma walk_events_stores_ok:
  assumes "t \<ge> 0" and "walk_events proven t es L leg = (L1, leg1, out)" and "stores_ok L"
  shows "stores_ok L1"
  using assms(2,3)
proof (induction es arbitrary: L leg out)
  case Nil
  then show ?case by simp
next
  case (Cons e es)
  then show ?case by (auto split: prod.splits dest: walk_event_stores_ok [OF assms(1)])
qed

lemma walk_stores_ok:
  assumes "t \<ge> 0" and "walk c v proven t L = (L1, out)" and "stores_ok L"
  shows "stores_ok L1"
  using assms(2,3)
  by (auto simp: walk_def walk_finish_def Let_def intro!: stores_ok_steps [OF assms(1)]
      dest!: walk_events_stores_ok [OF assms(1)] split: prod.splits)

lemma clamp_stores_ok:
  "t \<ge> 0 \<Longrightarrow> clamp_to_view leg t L = (L1, q) \<Longrightarrow> stores_ok L \<Longrightarrow> stores_ok L1"
  by (auto simp: clamp_to_view_def Let_def intro!: stores_ok_steps split: if_splits)

lemma give_up_stores_ok:
  assumes "t \<ge> 0" and "give_up c v t L = (L', out)" and "stores_ok L"
  shows "stores_ok L'"
proof -
  obtain L1 os1 where w: "walk c v False t L = (L1, os1)" by (metis surj_pair)
  obtain L2 q where k: "clamp_to_view (snd v) t L1 = (L2, q)" by (metis surj_pair)
  have "stores_ok L2" by (rule clamp_stores_ok [OF assms(1) k walk_stores_ok [OF assms(1) w assms(3)]])
  then show ?thesis
    using assms(2) w k
    by (auto simp: give_up_def Let_def
        intro!: stores_ok_steps [OF assms(1)] add_doubt_stores_ok [OF assms(1)] split: if_splits)
qed

lemma cap_doubt_nonneg: "t \<ge> 0 \<Longrightarrow> 0 \<le> ll_doubt (cap_doubt t L)"
  by (auto simp: cap_doubt_def Let_def not_le)

lemma length_settle_release: "length (ll_gaps (settle_release i t L)) \<le> length (ll_gaps L)"
  by (auto simp: settle_release_def Let_def intro: order_trans [OF length_cap_doubt_gaps])

lemma settle_stores_ok:
  assumes "t \<ge> 0" and "settle_gaps known t L = (L', os)" and "stores_ok L"
  shows "stores_ok L'"
proof -
  have rel: "stores_ok L \<Longrightarrow> stores_ok (settle_release i t L)" for L i
    using length_settle_release [of i t L] cap_doubt_nonneg [OF assms(1)]
    by (auto simp: settle_release_def Let_def stores_ok_def credits_ok_def gaps_ok_def ledger_simps)
  have "stores_ok L \<longrightarrow> stores_ok L'"
    by (rule settle_loop_rule [OF _ _ _ _ assms(2) [unfolded settle_gaps_def],
          where R = "\<lambda>L L' os. stores_ok L \<longrightarrow> stores_ok L'"])
      (auto intro: rel stores_ok_steps [OF assms(1)])
  then show ?thesis using assms(3) by simp
qed

lemma advance_stores_ok:
  assumes "t \<ge> 0" and "advance now grace t known provable L = (L', os)" and "stores_ok L"
  shows "stores_ok L'"
proof -
  have "stores_ok L \<longrightarrow> stores_ok L'"
    by (rule advance_rule [OF _ _ _ _ _ assms(2), where R = "\<lambda>L L' os. stores_ok L \<longrightarrow> stores_ok L'"])
      (auto intro: walk_stores_ok [OF assms(1)] give_up_stores_ok [OF assms(1)]
        settle_stores_ok [OF assms(1)])
  then show ?thesis using assms(3) by simp
qed

lemma late_own_stores_ok:
  assumes "t \<ge> 0" and "late_own e t L = Some (L', out)" and "stores_ok L"
  shows "stores_ok L'"
  by (rule late_own_rule [OF assms(2), where P = stores_ok])
    (auto simp: late_shrink_def late_join_def late_resolve_def late_grow_def late_doubt_def Let_def
      assms(3) intro!: stores_ok_steps [OF assms(1)] add_doubt_stores_ok [OF assms(1)]
      split: option.splits)

lemma take_loop_credits:
  assumes "take_loop seq q d t taken cs = (cs', r)" and "t \<ge> 0"
    and "\<forall>c \<in> set cs. fst (snd c) > 0"
  shows "length cs' = length cs"
  using assms(1)
  by (induction seq q d t taken cs arbitrary: cs' r rule: take_loop.induct)
    (auto simp: Let_def split: if_splits prod.splits)

lemma take_credit_stores_ok:
  assumes "t \<ge> 0" and "stores_ok L"
  shows "stores_ok (fst (take_credit seq q d t L))"
proof -
  obtain cs r where l: "take_loop seq q d t 0 (ll_credits L) = (cs, r)" by (metis surj_pair)
  have "length cs = length (ll_credits L)"
    using take_loop_credits [OF l assms(1)] assms(2) by (auto simp: stores_ok_def credits_ok_def)
  then show ?thesis
    using assms by (auto simp: take_credit_def l stores_ok_def credits_ok_def gaps_ok_def
        intro: le_trans [OF length_filter_le])
qed

lemma start_stores_ok:
  assumes "t \<ge> 0" and "stores_ok L"
  shows "stores_ok (fst (start j t L))"
proof -
  have base: "stores_ok (L\<lparr>ll_cursor_seq := c, ll_anchor_seq := a, ll_cursor_leg := l,
      ll_views := vs, ll_events := es, ll_share := sh, ll_journal := jj, ll_doubt := 0,
      ll_gaps := [], ll_blind_seq := b, ll_room := r\<rparr>)" for c a l vs es sh jj b r
    using assms by (simp add: stores_ok_def credits_ok_def gaps_ok_def)
  show ?thesis
    by (auto simp: start_def Let_def intro!: stores_ok_steps [OF assms(1)]
        add_doubt_stores_ok [OF assms(1)] base assms(2) split: prod.splits)
qed

section \<open>The ledger invariant\<close>

text \<open>
  \<open>views_ok\<close>, \<open>events_ok\<close>, \<open>credits_ok\<close> and \<open>gaps_ok\<close> state the limits, the order of the views,
  the keys of the executions and the signs; \<open>blind_ok\<close> that a started ledger has the anchor the
  assertion of \<open>late_own\<close> asks for.
\<close>

definition ledger_inv :: "rat \<Rightarrow> leg_ledger \<Rightarrow> bool" where
  "ledger_inv t L \<longleftrightarrow>
     share_in_journal t L \<and> views_ok L \<and> events_ok L \<and> stores_ok L \<and> blind_ok L"

lemma ledger_inv_new: "t \<ge> 0 \<Longrightarrow> ledger_inv t new_ledger"
  by (simp add: ledger_inv_def new_ledger_def share_in_journal_def views_ok_def events_ok_def
      stores_ok_def credits_ok_def gaps_ok_def blind_ok_def)

lemma ledger_step_views_ok:
  assumes "views_ok L"
  shows "views_ok (ledger_step t x L)"
proof (cases x)
  case (Start j)
  then show ?thesis by (simp add: views_ok_def start_views MAX_VIEWS_def)
next
  case (AddView v)
  then show ?thesis by (simp add: add_view_views_ok assms)
next
  case (Advance now grace known provable)
  then show ?thesis
    by (metis advance_views_ok assms ledger_step.simps(9) surj_pair fst_conv)
next
  case (LateOwn e)
  then show ?thesis
    using late_own_frame assms
    by (auto simp: late_frame_def intro: views_ok_same [OF assms] split: option.splits)
qed (auto simp: add_event_def sync_journal_def Let_def ledger_simps
      late_foreign_def take_to_net_def take_credit_def assms intro: views_ok_same [OF assms]
      split: option.splits prod.splits)

lemma ledger_step_events_ok:
  assumes "events_ok L"
  shows "events_ok (ledger_step t x L)"
proof (cases x)
  case (AddEvent e)
  then show ?thesis using add_event_events_ok [OF assms] by simp
next
  case (Start j)
  then show ?thesis using events_sub_ok [OF start_events_sub assms] by simp
next
  case (Advance now grace known provable)
  then show ?thesis
    by (metis advance_events_sub events_sub_ok [OF _ assms] ledger_step.simps(9) surj_pair fst_conv)
next
  case (LateOwn e)
  then show ?thesis
    using late_own_frame assms
    by (auto simp: late_frame_def intro: events_sub_ok [OF events_sub_same] split: option.splits)
qed (auto simp: add_view_def sync_journal_def Let_def ledger_simps
      late_foreign_def take_to_net_def take_credit_def
      intro!: events_sub_ok [OF events_sub_same assms] split: option.splits prod.splits)

lemma ledger_step_stores_ok:
  assumes "t \<ge> 0" and "stores_ok L"
  shows "stores_ok (ledger_step t x L)"
proof (cases x)
  case (Advance now grace known provable)
  then show ?thesis
    by (metis advance_stores_ok [OF assms(1) _ assms(2)] ledger_step.simps(9) surj_pair fst_conv)
next
  case (LateOwn e)
  then show ?thesis
    using late_own_stores_ok [OF assms(1) _ assms(2)] assms(2) by (auto split: option.splits)
next
  case (SyncJournal j)
  then show ?thesis
    using assms stores_ok_steps(1) [OF assms(1)]
    by (auto simp: sync_journal_def Let_def split: option.splits)
next
  case (LateForeign e)
  then show ?thesis
    using assms stores_ok_steps(6) [OF assms] by (auto simp: late_foreign_def split: option.splits)
qed (use assms start_stores_ok take_credit_stores_ok in
      \<open>auto simp: add_view_def add_event_def Let_def take_to_net_def\<close>)

lemma advance_cursor:
  assumes "advance now grace t known provable L = (L', os)"
  shows "(ll_cursor_seq L = None \<longrightarrow> ll_cursor_seq L' = None \<and> ll_blind_seq L' = ll_blind_seq L) \<and>
    (ll_blind_seq L \<noteq> None \<longrightarrow> ll_blind_seq L' \<noteq> None) \<and>
    (ll_cursor_seq L \<noteq> None \<longrightarrow> ll_cursor_seq L' \<noteq> None)"
  by (rule advance_rule [OF _ _ _ _ _ assms, where R = "\<lambda>L L' os.
      (ll_cursor_seq L = None \<longrightarrow> ll_cursor_seq L' = None \<and> ll_blind_seq L' = ll_blind_seq L) \<and>
      (ll_blind_seq L \<noteq> None \<longrightarrow> ll_blind_seq L' \<noteq> None) \<and>
      (ll_cursor_seq L \<noteq> None \<longrightarrow> ll_cursor_seq L' \<noteq> None)"])
    (auto dest!: settle_gaps_frame walk_frame give_up_frame simp: settle_frame_def)

lemma ledger_step_blind_ok:
  assumes "blind_ok L"
  shows "blind_ok (ledger_step t x L)"
proof (cases x)
  case (Advance now grace known provable)
  obtain L' os where a: "advance now grace t known provable L = (L', os)" by (metis surj_pair)
  show ?thesis using advance_cursor [OF a] assms by (auto simp: Advance a blind_ok_def)
next
  case (LateOwn e)
  then show ?thesis
    using late_own_frame assms by (auto simp: late_frame_def blind_ok_def split: option.splits)
qed (use assms in \<open>auto simp: blind_ok_def add_view_def add_event_def start_def sync_journal_def
      Let_def ledger_simps late_foreign_def take_to_net_def take_credit_def
      split: option.splits prod.splits\<close>)

lemma ledger_step_inv:
  assumes "t \<ge> 0" and "ledger_inv t L"
  shows "ledger_inv t (ledger_step t x L)"
  using assms ledger_step_share_in_journal ledger_step_views_ok ledger_step_events_ok
    ledger_step_stores_ok ledger_step_blind_ok
  by (simp add: ledger_inv_def)

text \<open>
  The ledger as a machine: an operation at a non-negative quantity tolerance. The tolerance is
  fixed per leg (half a quantity step), so it is part of the operation's type here.
\<close>

definition ledger_op_at :: "rat \<Rightarrow> ledger_op \<Rightarrow> leg_ledger \<Rightarrow> leg_ledger" where
  "ledger_op_at t = ledger_step \<bar>t\<bar>"

interpretation ledger_machine: op_machine "ledger_op_at t" new_ledger "ledger_inv \<bar>t\<bar>" for t
  by unfold_locales (auto simp: ledger_op_at_def intro: ledger_inv_new ledger_step_inv)

end
