(* ===== verification/Ledger_Theorems.thy ===== *)
theory Ledger_Theorems
  imports Ledger_Inv "HOL-Library.Multiset"
begin

text \<open>
  The properties of the per-leg ledger: what it keeps in every reachable state, what a verdict
  of \<open>advance\<close> proves, what its verdicts take off the journal, when it waits, what a give-up
  leaves, and what the credits allow. \<open>example_ledger\<close> is the run used by the witnesses: a leg
  of 5 the run holds alone, of which a foreign execution closes 3.
\<close>

section \<open>Bookkeeping of the verdicts\<close>

definition net_total :: "leg_ledger \<Rightarrow> rat" where
  "net_total L = dget (ll_to_net L) 1 0 + dget (ll_to_net L) (-1) 0"

definition net_signed :: "leg_ledger \<Rightarrow> rat" where
  "net_signed L = dget (ll_to_net L) 1 0 - dget (ll_to_net L) (-1) 0"

definition own_part :: "leg_event \<Rightarrow> rat" where
  "own_part e = (if le_own e then le_share e else 0)"

definition own_pending :: "leg_ledger \<Rightarrow> rat" where
  "own_pending L = sum_list (map (\<lambda>x. own_part (snd x)) (ll_events L))"

text \<open>What the outcomes took off the share; a settled one repeats an earlier booking.\<close>

definition taken_total :: "leg_outcome list \<Rightarrow> rat" where
  "taken_total os = sum_list (map (\<lambda>o1. if lo_settled o1 then 0 else lo_consumed o1) os)"

lemma taken_total_simps [simp]:
  "taken_total [] = 0" "taken_total (os @ os') = taken_total os + taken_total os'"
  "taken_total (o1 # os) = (if lo_settled o1 then 0 else lo_consumed o1) + taken_total os"
  by (simp_all add: taken_total_def)

lemma taken_total_settled: "taken_total (settled_outcomes ws) = 0"
  by (induction ws) (auto simp: settled_outcomes_def)

text \<open>The amount booked off the journal, the journal and the pending own executions balance.\<close>

definition balanced :: "leg_ledger \<Rightarrow> leg_ledger \<Rightarrow> rat \<Rightarrow> rat \<Rightarrow> bool" where
  "balanced L L' taken own \<longleftrightarrow> net_total L' = net_total L + taken \<and>
     ll_journal L' + net_signed L' = ll_journal L + net_signed L + own"

lemma balanced_trans:
  "balanced L L1 a p \<Longrightarrow> balanced L1 L2 b q \<Longrightarrow> balanced L L2 (a + b) (p + q)"
  by (simp add: balanced_def)

lemma balanced_same:
  "ll_to_net L' = ll_to_net L \<Longrightarrow> ll_journal L' = ll_journal L + p \<Longrightarrow> balanced L L' 0 p"
  by (simp add: balanced_def net_total_def net_signed_def)

lemma take_journal_balanced:
  assumes "0 \<le> q" and "q = 0 \<or> direction s \<noteq> 0"
  shows "balanced L (take_journal q (direction s) L) q 0"
  using assms
  by (cases s rule: direction_cases)
    (auto simp: balanced_def take_journal_def net_total_def net_signed_def dget_def
      split: option.splits)

lemma balanced_fields [simp]:
  "balanced (L\<lparr>ll_share := s\<rparr>) L' a p = balanced L L' a p"
  "balanced (L\<lparr>ll_gap_since := g\<rparr>) L' a p = balanced L L' a p"
  by (simp_all add: balanced_def net_total_def net_signed_def)

lemma walk_own_balanced:
  assumes "walk_own proven t e L leg = (L1, leg1, out)"
  shows "balanced L L1 (taken_total out) (le_share e)"
  using assms
  by (auto simp: walk_own_def Let_def ledger_simps balanced_def net_total_def net_signed_def
      split: if_splits)

lemma walk_foreign_balanced:
  assumes "t \<ge> 0" and "walk_foreign proven t e L leg = (L1, leg1, out)"
  shows "balanced L L1 (taken_total out) 0"
proof -
  let ?d = "direction (ll_share L)"
  let ?after = "if ?d \<noteq> 0 then (leg + le_delta e) * ?d else leg + le_delta e"
  obtain consumed doubtful where take:
    "foreign_take proven t ?d (le_delta e) \<bar>ll_share L\<bar> (ll_doubt L) ?after = (consumed, doubtful)"
    by (metis surj_pair)
  have b: "0 \<le> consumed" "consumed = 0 \<or> ?d \<noteq> 0"
    using foreign_take_bounds [OF take assms(1)] by auto
  have tot: "taken_total out = consumed"
    and same: "ll_to_net L1 = ll_to_net (take_journal consumed ?d L)"
      "ll_journal L1 = ll_journal (take_journal consumed ?d L)"
    using assms(2) take b
    by (auto simp: walk_foreign_def Let_def ledger_simps take_journal_def split: if_splits)
  show ?thesis
    using take_journal_balanced [OF b, of L]
    by (simp add: balanced_def net_total_def net_signed_def tot same)
qed

lemma walk_events_balanced:
  assumes "t \<ge> 0" and "walk_events proven t es L leg = (L1, leg1, out)"
  shows "balanced L L1 (taken_total out) (sum_list (map own_part es))"
  using assms(2)
proof (induction es arbitrary: L leg out)
  case Nil
  then show ?case by (simp add: balanced_same)
next
  case (Cons e es)
  obtain La lega outa where a: "walk_event proven t e L leg = (La, lega, outa)"
    by (metis prod_cases3)
  obtain outb where b: "walk_events proven t es La lega = (L1, leg1, outb)" "out = outa @ outb"
    using Cons.prems a by (auto split: prod.splits)
  have "balanced L La (taken_total outa) (own_part e)"
    using a walk_own_balanced walk_foreign_balanced [OF assms(1)]
    by (auto simp: walk_event_def own_part_def split: if_splits)
  then show ?case using balanced_trans [OF _ Cons.IH [OF b(1)]] b(2) by simp
qed

lemma delete_all_filter:
  "fold (\<lambda>e es. AList.delete (f e) es) due es = filter (\<lambda>x. fst x \<notin> f ` set due) es"
proof (induction due arbitrary: es)
  case Nil
  then show ?case by simp
next
  case (Cons d due)
  have "AList.delete (f d) es = filter (\<lambda>x. fst x \<noteq> f d) es"
    by (auto simp: AList.delete_eq intro: filter_cong)
  then show ?case by (simp add: Cons.IH conj_commute)
qed

lemma due_events_set:
  "set (due_events c s L) = {e \<in> snd ` set (ll_events L). c < le_seq e \<and> le_seq e \<le> s}"
  by (auto simp: due_events_def)

lemma delete_due:
  assumes "events_ok L"
  shows "fold (\<lambda>e es. AList.delete (le_exec_id e) es) (due_events c s L) (ll_events L) =
    filter (\<lambda>x. \<not> (c < le_seq (snd x) \<and> le_seq (snd x) \<le> s)) (ll_events L)"
  unfolding delete_all_filter
proof (rule filter_cong [OF refl])
  fix x assume x: "x \<in> set (ll_events L)"
  have key: "fst y = le_exec_id (snd y)" if "y \<in> set (ll_events L)" for y
    using assms that by (auto simp: events_ok_def)
  have inj: "y = x" if "y \<in> set (ll_events L)" "fst y = fst x" for y
    using assms that x by (auto simp: events_ok_def distinct_map inj_on_def)
  have "fst x \<in> le_exec_id ` set (due_events c s L) \<longleftrightarrow>
      (\<exists>y \<in> set (ll_events L). c < le_seq (snd y) \<and> le_seq (snd y) \<le> s \<and> fst x = fst y)"
    unfolding due_events_set using key by force
  also have "\<dots> \<longleftrightarrow> c < le_seq (snd x) \<and> le_seq (snd x) \<le> s" using x inj by metis
  finally show "(fst x \<notin> le_exec_id ` set (due_events c s L)) =
      (\<not> (c < le_seq (snd x) \<and> le_seq (snd x) \<le> s))" by blast
qed

lemma sum_list_partition:
  fixes f :: "'a \<Rightarrow> rat"
  shows "sum_list (map f xs) = sum_list (map f (filter P xs)) + sum_list (map f (filter (\<lambda>x. \<not> P x) xs))"
  by (induction xs) auto

lemma sum_list_sort_key:
  fixes f :: "'a \<Rightarrow> rat"
  shows "sum_list (map f (sort_key k xs)) = sum_list (map f xs)"
  by (metis mset_map mset_sort sum_mset_sum_list)

lemma due_own_parts:
  "sum_list (map own_part (due_events c s L)) =
   sum_list (map (\<lambda>x. own_part (snd x))
     (filter (\<lambda>x. c < le_seq (snd x) \<and> le_seq (snd x) \<le> s) (ll_events L)))"
  by (simp add: due_events_def sum_list_sort_key filter_map o_def case_prod_beta)

lemma walk_balanced:
  assumes "t \<ge> 0" and "events_ok L" and "walk c v proven t L = (L1, out)"
  shows "balanced L L1 (taken_total out) (own_pending L - own_pending L1)"
proof -
  obtain L2 leg2 where w:
    "walk_events proven t (due_events c (fst v) L) L (ll_cursor_leg L) = (L2, leg2, out)"
    using assms(3) by (auto simp: walk_def Let_def split: prod.splits)
  have ev: "ll_events L2 = ll_events L" using walk_events_frame [OF w] by simp
  have L1: "ll_to_net L1 = ll_to_net L2" "ll_journal L1 = ll_journal L2"
    "ll_events L1 = filter (\<lambda>x. \<not> (c < le_seq (snd x) \<and> le_seq (snd x) \<le> fst v)) (ll_events L)"
    using assms(3) w delete_due [OF assms(2)] ev
    by (auto simp: walk_def walk_finish_def Let_def ledger_simps)
  have "own_pending L - own_pending L1 = sum_list (map own_part (due_events c (fst v) L))"
    unfolding own_pending_def L1(3) due_own_parts
    using sum_list_partition [of "\<lambda>x. own_part (snd x)" "ll_events L"
        "\<lambda>x. c < le_seq (snd x) \<and> le_seq (snd x) \<le> fst v"]
    by simp
  then show ?thesis
    using walk_events_balanced [OF assms(1) w] L1(1,2)
    by (simp add: balanced_def net_total_def net_signed_def)
qed

lemma clamp_balanced:
  assumes "t \<ge> 0" and "clamp_to_view leg t L = (L1, q)"
  shows "balanced L L1 q 0 \<and> own_pending L1 = own_pending L \<and> 0 \<le> q"
proof (cases "direction (ll_share L) \<noteq> 0 \<and> \<bar>ll_share L\<bar> > max (leg * direction (ll_share L)) 0 + t")
  case True
  let ?q = "\<bar>ll_share L\<bar> - max (leg * direction (ll_share L)) 0"
  let ?s = "max (leg * direction (ll_share L)) 0 * direction (ll_share L)"
  have "L1 = take_journal ?q (direction (ll_share L)) (L\<lparr>ll_share := ?s\<rparr>)" "q = ?q"
    using True assms(2) by (auto simp: clamp_to_view_def Let_def split: if_splits)
  moreover have "0 \<le> ?q" using True assms(1) by linarith
  ultimately show ?thesis
    using take_journal_balanced [of ?q "ll_share L" "L\<lparr>ll_share := ?s\<rparr>"] True
    by (simp add: own_pending_def ledger_simps)
next
  case False
  then have "L1 = L" "q = 0" using assms(2) by (auto simp: clamp_to_view_def Let_def split: if_splits)
  then show ?thesis by (simp add: balanced_same)
qed

lemma give_up_balanced:
  assumes "t \<ge> 0" and "events_ok L" and "give_up c v t L = (L1, out)"
  shows "balanced L L1 (taken_total out) (own_pending L - own_pending L1)"
proof -
  obtain La outa where a: "walk c v False t L = (La, outa)" by (metis surj_pair)
  obtain Lb q where b: "clamp_to_view (snd v) t La = (Lb, q)" by (metis surj_pair)
  have same: "ll_to_net L1 = ll_to_net Lb" "ll_journal L1 = ll_journal Lb"
    "ll_events L1 = ll_events Lb" and out: "taken_total out = taken_total outa + q"
    using assms(3) a b by (auto simp: give_up_def Let_def ledger_simps clamp_outcome_def split: if_splits)
  show ?thesis
    using balanced_trans [OF walk_balanced [OF assms(1,2) a]] clamp_balanced [OF assms(1) b] out same
    by (fastforce simp: balanced_def net_total_def net_signed_def own_pending_def)
qed

lemma advance_balanced:
  assumes "t \<ge> 0" and "events_ok L" and "advance now grace t known provable L = (L', os)"
  shows "balanced L L' (taken_total os) (own_pending L - own_pending L')"
proof -
  let ?R = "\<lambda>L L' os. events_ok L \<longrightarrow> events_ok L' \<and>
      balanced L L' (taken_total os) (own_pending L - own_pending L')"
  have "?R L L' os"
  proof (rule advance_rule [OF _ _ _ _ _ assms(3), where R = ?R])
    show "?R L (L\<lparr>ll_gap_since := g\<rparr>) []" for L g
      by (simp add: balanced_same own_pending_def events_ok_def)
    show "?R L L2 (os @ os')" if "?R L L1 os" "?R L1 L2 os'" for L L1 L2 os os'
      using that balanced_trans by fastforce
    show "?R L L1 os" if "settle_gaps known t L = (L1, os)" for L L1 os
    proof -
      have "taken_total os = 0"
        by (rule settle_loop_rule [where R = "\<lambda>L L' os. taken_total os = 0",
              OF _ _ _ _ that [unfolded settle_gaps_def]]) (simp_all add: taken_total_settled)
      moreover have "settle_frame L L1" by (rule settle_gaps_frame [OF that])
      ultimately show ?thesis
        by (simp add: settle_frame_def balanced_same own_pending_def events_ok_def)
    qed
    show "?R L L1 os" if "walk c v True t L = (L1, os)" for L L1 c v os
      using walk_balanced [OF assms(1) _ that] events_sub_ok [OF walk_events_sub [OF that]] by blast
    show "?R L L1 os" if "give_up c v t L = (L1, os)" for L L1 c v os
      using give_up_balanced [OF assms(1) _ that] events_sub_ok [OF give_up_events_sub [OF that]]
      by blast
  qed
  then show ?thesis using assms(2) by blast
qed

section \<open>What a verdict proves\<close>

text \<open>
  A reported loss: a foreign execution took the leg, in the run's direction, below the share the
  run held, and the loss is exactly the part of the share the leg no longer covers.
\<close>

definition loss_shown :: "rat \<Rightarrow> leg_event set \<Rightarrow> leg_outcome \<Rightarrow> bool" where
  "loss_shown t es o1 \<longleftrightarrow>
     (\<exists>e. lo_event o1 = Some e \<and> e \<in> es \<and> \<not> le_own e \<and> lo_seq o1 = le_seq e) \<and>
     \<not> lo_settled o1 \<and> lo_consumed o1 > t \<and>
     lo_leg_after o1 < lo_share_before o1 \<and>
     lo_consumed o1 = lo_share_before o1 - max 0 (lo_leg_after o1) \<and>
     0 \<le> lo_doubtful o1 \<and> lo_doubtful o1 \<le> lo_consumed o1"

definition losses_shown :: "rat \<Rightarrow> leg_event set \<Rightarrow> leg_outcome list \<Rightarrow> bool" where
  "losses_shown t es os \<longleftrightarrow>
     (\<forall>o1 \<in> set os. lo_proven o1 \<longrightarrow> lo_consumed o1 > 0 \<longrightarrow> loss_shown t es o1)"

lemma losses_shown_simps [simp]:
  "losses_shown t es []"
  "losses_shown t es (os @ os') \<longleftrightarrow> losses_shown t es os \<and> losses_shown t es os'"
  by (auto simp: losses_shown_def)

lemma losses_shown_mono: "es \<subseteq> es' \<Longrightarrow> losses_shown t es os \<Longrightarrow> losses_shown t es' os"
  by (fastforce simp: losses_shown_def loss_shown_def)

lemma losses_shown_unproven: "\<forall>o1 \<in> set os. \<not> lo_proven o1 \<Longrightarrow> losses_shown t es os"
  by (simp add: losses_shown_def)

lemma settled_unproven: "o1 \<in> set (settled_outcomes ws) \<Longrightarrow> \<not> lo_proven o1 \<and> lo_settled o1"
  by (auto simp: settled_outcomes_def)

lemma foreign_take_loss:
  assumes "foreign_take proven t d delta \<bar>s\<bar> doubt leg_after = (consumed, doubtful)" and "t \<ge> 0"
    and "consumed > 0"
  shows "consumed > t \<and> leg_after < \<bar>s\<bar> \<and> consumed = \<bar>s\<bar> - max 0 leg_after \<and>
    0 \<le> doubtful \<and> doubtful \<le> consumed"
  using assms(1)
proof (cases rule: foreign_take_cases)
  case none
  then show ?thesis using assms(3) by simp
next
  case taken
  then show ?thesis
    using foreign_take_bounds [OF assms(1,2)] assms(3)
    by (auto simp: foreign_consumed_def min_def max_def split: if_splits)
qed

lemma walk_foreign_losses:
  assumes "t \<ge> 0" and "walk_foreign proven t e L leg = (L1, leg1, out)" and "\<not> le_own e"
  shows "losses_shown t {e} out"
proof -
  define d where "d = direction (ll_share L)"
  define leg_after where "leg_after = (if d \<noteq> 0 then (leg + le_delta e) * d else leg + le_delta e)"
  obtain consumed doubtful where take:
    "foreign_take proven t d (le_delta e) \<bar>ll_share L\<bar> (ll_doubt L) leg_after = (consumed, doubtful)"
    by (metis surj_pair)
  have "out = [\<lparr>lo_event = Some e, lo_consumed = consumed, lo_proven = proven,
      lo_share_before = \<bar>ll_share L\<bar>, lo_leg_after = leg_after, lo_seq = le_seq e,
      lo_unexplained = 0, lo_doubtful = doubtful, lo_clipped = 0, lo_settled = False\<rparr>]"
    using assms(2) take by (auto simp: walk_foreign_def Let_def d_def leg_after_def)
  then show ?thesis
    using foreign_take_loss [OF take assms(1)] assms(3)
    by (simp add: losses_shown_def loss_shown_def)
qed

lemma walk_event_losses:
  assumes "t \<ge> 0" and "walk_event proven t e L leg = (L1, leg1, out)"
  shows "losses_shown t {e} out"
proof (cases "le_own e")
  case True
  then show ?thesis
    using assms(2)
    by (auto simp: walk_event_def walk_own_def Let_def losses_shown_def split: if_splits)
next
  case False
  then show ?thesis using assms walk_foreign_losses by (simp add: walk_event_def)
qed

lemma walk_events_losses:
  assumes "t \<ge> 0" and "walk_events proven t es L leg = (L1, leg1, out)"
  shows "losses_shown t (set es) out"
  using assms(2)
proof (induction es arbitrary: L leg out)
  case Nil
  then show ?case by simp
next
  case (Cons e es)
  obtain La lega outa where a: "walk_event proven t e L leg = (La, lega, outa)"
    by (metis prod_cases3)
  obtain outb where b: "walk_events proven t es La lega = (L1, leg1, outb)" "out = outa @ outb"
    using Cons.prems a by (auto split: prod.splits)
  show ?case
    using losses_shown_mono [OF _ walk_event_losses [OF assms(1) a], of "set (e # es)"]
      losses_shown_mono [OF _ Cons.IH [OF b(1)], of "set (e # es)"] b(2)
    by auto
qed

lemma walk_losses:
  assumes "t \<ge> 0" and "walk c v proven t L = (L1, out)"
  shows "losses_shown t (snd ` set (ll_events L)) out"
proof -
  obtain L2 leg2 where w:
    "walk_events proven t (due_events c (fst v) L) L (ll_cursor_leg L) = (L2, leg2, out)"
    using assms(2) by (auto simp: walk_def Let_def split: prod.splits)
  show ?thesis
    by (rule losses_shown_mono [OF _ walk_events_losses [OF assms(1) w]])
      (auto simp: due_events_set)
qed

lemma walk_unproven:
  assumes "walk_events False t es L leg = (L1, leg1, out)"
  shows "\<forall>o1 \<in> set out. \<not> lo_proven o1"
  using assms
  by (induction es arbitrary: L leg out)
    (fastforce simp: walk_event_def walk_own_def walk_foreign_def Let_def
      split: prod.splits if_splits)+

lemma give_up_unproven:
  assumes "give_up c v t L = (L1, out)"
  shows "\<forall>o1 \<in> set out. \<not> lo_proven o1"
  using assms walk_unproven
  by (fastforce simp: give_up_def walk_def Let_def clamp_outcome_def split: prod.splits)

lemma advance_losses:
  assumes "t \<ge> 0" and "advance now grace t known provable L = (L', os)"
  shows "losses_shown t (snd ` set (ll_events L)) os"
proof -
  let ?R = "\<lambda>L L' os. events_sub L L' \<and> losses_shown t (snd ` set (ll_events L)) os"
  have "?R L L' os"
  proof (rule advance_rule [OF _ _ _ _ _ assms(2), where R = ?R])
    show "?R L (L\<lparr>ll_gap_since := g\<rparr>) []" for L g by (simp add: events_sub_same)
    show "?R L L2 (os @ os')" if "?R L L1 os" "?R L1 L2 os'" for L L1 L2 os os'
    proof -
      have "snd ` set (ll_events L1) \<subseteq> snd ` set (ll_events L)"
        using that(1) by (auto simp: events_sub_def)
      then show ?thesis using that events_sub_trans losses_shown_mono by fastforce
    qed
    show "?R L L1 os" if "settle_gaps known t L = (L1, os)" for L L1 os
      using settle_gaps_frame [OF that] losses_shown_unproven
        settle_loop_rule [where R = "\<lambda>L L' os. \<forall>o1 \<in> set os. \<not> lo_proven o1",
          OF _ _ _ _ that [unfolded settle_gaps_def]] settled_unproven
      by (fastforce simp: settle_frame_def events_sub_same)
    show "?R L L1 os" if "walk c v True t L = (L1, os)" for L L1 c v os
      using walk_events_sub [OF that] walk_losses [OF assms(1) that] by blast
    show "?R L L1 os" if "give_up c v t L = (L1, os)" for L L1 c v os
      using give_up_events_sub [OF that] losses_shown_unproven [OF give_up_unproven [OF that]]
      by blast
  qed
  then show ?thesis by blast
qed

text \<open>An interval is closed on a view only when every view up to it passes both tests.\<close>

lemma scan_views_prefix:
  assumes "scan_views L c t known tgt vs = Some v" and "tgt \<noteq> Some v"
  shows "\<exists>pre post. vs = pre @ v # post \<and>
    (\<forall>w \<in> set (pre @ [v]). \<bar>expected_leg L c (fst w) - snd w\<bar> \<le> t \<and> fst w \<in> known)"
  using assms
proof (induction vs arbitrary: tgt)
  case Nil
  then show ?case by simp
next
  case (Cons a vs)
  show ?case
  proof (cases "\<bar>expected_leg L c (fst a) - snd a\<bar> > t \<or> fst a \<notin> known")
    case True
    then show ?thesis using Cons.prems by simp
  next
    case ok: False
    then have rec: "scan_views L c t known (Some a) vs = Some v" using Cons.prems by simp
    show ?thesis
    proof (cases "a = v")
      case True
      then show ?thesis using ok by (intro exI [of _ "[]"] exI [of _ vs]) auto
    next
      case False
      then obtain pre post where "vs = pre @ v # post"
        "\<forall>w \<in> set (pre @ [v]). \<bar>expected_leg L c (fst w) - snd w\<bar> \<le> t \<and> fst w \<in> known"
        using Cons.IH [OF rec] by auto
      then show ?thesis using ok by (intro exI [of _ "a # pre"] exI [of _ post]) auto
    qed
  qed
qed

section \<open>The share after a cursor move\<close>

text \<open>The leg at the cursor covers the share, up to the tolerance.\<close>

definition share_fits :: "rat \<Rightarrow> leg_ledger \<Rightarrow> bool" where
  "share_fits t L \<longleftrightarrow>
     \<bar>ll_share L\<bar> \<le> max (ll_cursor_leg L * direction (ll_share L)) 0 + t"

lemma walk_share_fits:
  assumes "t \<ge> 0" and "walk c v True t L = (L1, out)"
  shows "share_fits t L1"
proof -
  obtain s where "ll_share L1 = capped s (snd v) t"
    using assms(2) by (auto simp: walk_def walk_finish_def Let_def ledger_simps split: prod.splits)
  then show ?thesis
    using capped_fits [OF assms(1)] walk_frame [OF assms(2)] by (simp add: share_fits_def)
qed

lemma clamp_share_fits:
  assumes "t \<ge> 0" and "clamp_to_view leg t L = (L1, q)"
  shows "\<bar>ll_share L1\<bar> \<le> max (leg * direction (ll_share L1)) 0 + t"
proof (cases "direction (ll_share L) \<noteq> 0 \<and> \<bar>ll_share L\<bar> > max (leg * direction (ll_share L)) 0 + t")
  case True
  then have "ll_share L1 = max (leg * direction (ll_share L)) 0 * direction (ll_share L)"
    using assms(2) by (auto simp: clamp_to_view_def Let_def ledger_simps split: if_splits)
  then show ?thesis
    using True assms(1) by (auto simp: direction_def max_def split: if_splits)
next
  case False
  then have "L1 = L" using assms(2) by (auto simp: clamp_to_view_def Let_def split: if_splits)
  then show ?thesis using False assms(1) by auto
qed

definition doubted :: "rat \<Rightarrow> rat \<Rightarrow> rat \<Rightarrow> rat \<Rightarrow> rat" where
  "doubted d q t share =
     (if q \<le> t then d else if min (d + q) \<bar>share\<bar> \<le> t then 0 else min (d + q) \<bar>share\<bar>)"

lemma add_doubt_doubt: "ll_doubt (add_doubt seq q t L) = doubted (ll_doubt L) q t (ll_share L)"
  by (simp add: add_doubt_def cap_doubt_def Let_def doubted_def)

lemma give_up_parts:
  assumes "give_up c v t L = (L1, out)"
  obtains La outa Lb q where "walk c v False t L = (La, outa)"
    "clamp_to_view (snd v) t La = (Lb, q)" "ll_share L1 = ll_share Lb"
    "ll_doubt L1 = doubted (ll_doubt Lb) \<bar>ll_share Lb\<bar> t (ll_share Lb)"
proof -
  obtain La outa where a: "walk c v False t L = (La, outa)" by (metis surj_pair)
  obtain Lb q where b: "clamp_to_view (snd v) t La = (Lb, q)" by (metis surj_pair)
  show ?thesis
    by (rule that [OF a b])
      (use assms a b in \<open>auto simp: give_up_def Let_def ledger_simps add_doubt_doubt\<close>)
qed

lemma give_up_share_fits:
  assumes "t \<ge> 0" and "give_up c v t L = (L1, out)"
  shows "share_fits t L1"
  using assms(2)
proof (cases rule: give_up_parts)
  case (1 La outa Lb q)
  then show ?thesis
    using clamp_share_fits [OF assms(1) 1(2)] give_up_frame [OF assms(2)]
    by (simp add: share_fits_def)
qed

lemma give_up_doubt:
  assumes "t \<ge> 0" and "stores_ok L" and "give_up c v t L = (L1, out)" and "\<bar>ll_share L1\<bar> > t"
  shows "ll_doubt L1 = \<bar>ll_share L1\<bar>"
  using assms(3)
proof (cases rule: give_up_parts)
  case (1 La outa Lb q)
  have "ll_doubt Lb \<ge> 0"
    using clamp_stores_ok [OF assms(1) 1(2) walk_stores_ok [OF assms(1) 1(1) assms(2)]]
    by (simp add: stores_ok_def gaps_ok_def)
  then show ?thesis
    using 1(3,4) assms(1,4) by (auto simp: doubted_def)
qed

lemma advance_fits:
  assumes "t \<ge> 0" and "advance now grace t known provable L = (L', os)"
  shows "(ll_cursor_seq L' = ll_cursor_seq L \<and> ll_share L' = ll_share L \<and> ll_journal L' = ll_journal L)
    \<or> share_fits t L'"
proof -
  let ?R = "\<lambda>L L' os. (ll_cursor_seq L' = ll_cursor_seq L \<and> ll_share L' = ll_share L \<and>
      ll_journal L' = ll_journal L \<and> ll_cursor_leg L' = ll_cursor_leg L) \<or> share_fits t L'"
  have "?R L L' os"
  proof (rule advance_rule [OF _ _ _ _ _ assms(2), where R = ?R])
    show "?R L L2 (os @ os')" if "?R L L1 os" "?R L1 L2 os'" for L L1 L2 os os'
      using that by (auto simp: share_fits_def)
    show "?R L L1 os" if "settle_gaps known t L = (L1, os)" for L L1 os
      using settle_gaps_frame [OF that] by (simp add: settle_frame_def)
    show "?R L L1 os" if "walk c v True t L = (L1, os)" for L L1 c v os
      using walk_share_fits [OF assms(1) that] by blast
    show "?R L L1 os" if "give_up c v t L = (L1, os)" for L L1 c v os
      using give_up_share_fits [OF assms(1) that] by blast
  qed simp
  then show ?thesis by blast
qed

section \<open>Settling and credits\<close>

lemma settle_release_doubt:
  "ll_doubt L \<ge> 0 \<Longrightarrow> ll_doubt (settle_release i t L) \<le> ll_doubt L"
  by (auto simp: settle_release_def Let_def cap_doubt_def)

lemma settle_gaps_doubt:
  assumes "t \<ge> 0" and "settle_gaps known t L = (L1, os)"
  shows "ll_doubt L \<ge> 0 \<longrightarrow> 0 \<le> ll_doubt L1 \<and> ll_doubt L1 \<le> ll_doubt L"
proof (rule settle_loop_rule [where R = "\<lambda>L L1 os. ll_doubt L \<ge> 0 \<longrightarrow> 0 \<le> ll_doubt L1 \<and> ll_doubt L1 \<le> ll_doubt L",
      OF _ _ _ _ assms(2) [unfolded settle_gaps_def]])
  show "ll_doubt L \<ge> 0 \<longrightarrow> 0 \<le> ll_doubt (settle_release i t L) \<and>
      ll_doubt (settle_release i t L) \<le> ll_doubt L" for L i
    using settle_release_doubt [of L i t] cap_doubt_nonneg [OF assms(1)]
    by (simp add: settle_release_def Let_def)
qed (auto simp: ledger_simps)

lemma settle_gaps_outcomes:
  assumes "settle_gaps known t L = (L1, os)"
  shows "\<forall>o1 \<in> set os. lo_settled o1 \<and> \<not> lo_proven o1"
  by (rule settle_loop_rule [where R = "\<lambda>L L1 os. \<forall>o1 \<in> set os. lo_settled o1 \<and> \<not> lo_proven o1",
        OF _ _ _ _ assms [unfolded settle_gaps_def]]) (auto dest: settled_unproven)

definition credit_total :: "(int \<times> rat \<times> rat) list \<Rightarrow> rat" where
  "credit_total cs = sum_list (map (\<lambda>c. fst (snd c)) cs)"

lemma open_credit_eq:
  "open_credit seq d t L = credit_total (filter (credit_open seq d t) (ll_credits L))"
  by (simp add: open_credit_def credit_total_def)

lemma credit_total_nonneg: "t \<ge> 0 \<Longrightarrow> 0 \<le> credit_total (filter (credit_open seq d t) cs)"
  by (induction cs) (auto simp: credit_total_def credit_open_def)

lemma take_loop_bounds:
  assumes "take_loop seq q d t taken cs = (cs', r)" and "t \<ge> 0"
  shows "taken \<le> r \<and> r \<le> max taken q \<and>
    r - taken \<le> credit_total (filter (credit_open seq d t) cs) \<and>
    credit_total cs' + r = credit_total cs + taken"
  using assms
proof (induction seq q d t taken cs arbitrary: cs' r rule: take_loop.induct)
  case (1 seq quantity d tolerance taken)
  then show ?case by (simp add: credit_total_def)
next
  case (2 seq quantity d tolerance taken cseq cq cd cs)
  consider (stop) "quantity - taken \<le> tolerance"
    | (skip) "\<not> quantity - taken \<le> tolerance" "seq > cseq \<or> cq \<le> tolerance \<or> cd \<noteq> d"
    | (draw) "\<not> quantity - taken \<le> tolerance" "\<not> (seq > cseq \<or> cq \<le> tolerance \<or> cd \<noteq> d)"
    by blast
  then show ?case
  proof cases
    case stop
    then have "cs' = (cseq, cq, cd) # cs" "r = taken" using 2(3) by auto
    then show ?thesis
      using credit_total_nonneg [OF 2(4), of seq d "(cseq, cq, cd) # cs"] by simp
  next
    case skip
    then obtain cs1 where "take_loop seq quantity d tolerance taken cs = (cs1, r)" "cs' = (cseq, cq, cd) # cs1"
      using 2(3) by (auto split: prod.splits)
    then show ?thesis
      using 2(1) 2(4) skip by (auto simp: credit_total_def credit_open_def)
  next
    case draw
    let ?part = "min cq (quantity - taken)"
    obtain cs1 where l: "take_loop seq quantity d tolerance (taken + ?part) cs = (cs1, r)"
      and cs': "cs' = (cseq, cq - ?part, cd) # cs1"
      using 2(3) draw by (auto simp: Let_def split: prod.splits)
    have part: "0 \<le> ?part" "?part \<le> cq" "taken + ?part \<le> quantity"
      using draw 2(4) by (auto simp: min_def)
    have "taken + ?part \<le> r \<and> r \<le> max (taken + ?part) quantity \<and>
        r - (taken + ?part) \<le> credit_total (filter (credit_open seq d tolerance) cs) \<and>
        credit_total cs1 + r = credit_total cs + (taken + ?part)"
      using 2(2) [OF _ _ refl] draw l 2(4) by auto
    moreover have "credit_open seq d tolerance (cseq, cq, cd)" using draw by (simp add: credit_open_def)
    ultimately show ?thesis using part cs' by (auto simp: credit_total_def)
  qed
qed

section \<open>Late own executions and waiting\<close>

lemma late_net_frames [ledger_simps]:
  "ll_to_net (late_shrink b e d s L) = ll_to_net L" "ll_to_net (late_join e g L) = ll_to_net L"
  "ll_to_net (late_resolve e d g L) = ll_to_net L"
  "ll_to_net (late_doubt c b e g k t L) = ll_to_net L"
  by (simp_all add: late_shrink_def late_join_def late_resolve_def late_doubt_def Let_def
      ledger_simps split: option.splits)

lemma late_grow_balanced:
  assumes "grown > 0 \<Longrightarrow> direction w \<noteq> 0"
  shows "balanced L (late_grow c (direction w) grown kept share L)
    (if grown > 0 \<and> grown - kept > 0 then grown - kept else 0) 0"
proof (cases "grown > 0 \<and> grown - kept > 0")
  case True
  let ?L = "L\<lparr>ll_room := (ll_room L)(direction w \<mapsto> dget (ll_room L) (direction w) 0 - kept),
      ll_share := share + kept * direction w\<rparr>"
  have "ll_to_net (late_grow c (direction w) grown kept share L) =
      ll_to_net (take_journal (grown - kept) (direction w) ?L)"
    "ll_journal (late_grow c (direction w) grown kept share L) =
      ll_journal (take_journal (grown - kept) (direction w) ?L)"
    using True by (simp_all add: late_grow_def Let_def ledger_simps)
  then show ?thesis
    using take_journal_balanced [of "grown - kept" w ?L] True assms
    by (simp add: balanced_def net_total_def net_signed_def)
next
  case False
  then show ?thesis by (auto simp: late_grow_def Let_def balanced_def net_total_def net_signed_def)
qed

lemma late_own_balanced:
  assumes "late_own e t L = Some (L', out)"
  shows "balanced L L' (case out of None \<Rightarrow> 0 | Some o1 \<Rightarrow> lo_consumed o1) (le_share e)"
proof -
  let ?w = "bounded (ll_share L + le_share e) (ll_journal L + le_share e) t"
  obtain shrunk grown where m: "late_moves (ll_share L) ?w = (shrunk, grown)" by (metis surj_pair)
  obtain cursor blind where c: "ll_cursor_seq L = Some cursor" "ll_blind_seq L = Some blind"
    using assms by (auto simp: late_own_def split: option.splits)
  define L1 where "L1 = L\<lparr>ll_journal := ll_journal L + le_share e\<rparr>"
  define L2 where "L2 = late_shrink blind e (direction (ll_share L)) shrunk L1"
  define gap where "gap = gap_of L2 (le_seq e)"
  define L4 where "L4 = late_resolve e (direction (ll_share L)) gap (late_join e gap L2)"
  define kept where "kept = (if grown > 0
      then late_kept grown (dget (ll_room L4) (direction ?w) 0) t else 0)"
  define L5 where "L5 = late_grow cursor (direction ?w) grown kept
      (ll_share L - shrunk * direction (ll_share L)) L4"
  define gone where "gone = (if grown > 0 then grown - kept else 0)"
  have "L' = cap_doubt t (late_doubt cursor blind e gap kept t L5)"
    and out: "(case out of None \<Rightarrow> 0 | Some o1 \<Rightarrow> lo_consumed o1) = (if gone \<le> 0 then 0 else gone)"
    using assms
    by (auto simp: late_own_def c m Let_def gone_def kept_def L5_def L4_def gap_def L2_def L1_def
        cong del: if_cong option.case_cong)
  then have L': "ll_to_net L' = ll_to_net L5" "ll_journal L' = ll_journal L5"
    by (simp_all add: ledger_simps)
  have "balanced L L4 0 (le_share e)"
    by (rule balanced_same) (simp_all add: L4_def L2_def L1_def ledger_simps)
  moreover have "grown > 0 \<Longrightarrow> direction ?w \<noteq> 0"
    using late_moves_sum(4) [OF m] by auto
  ultimately show ?thesis
    using balanced_trans [OF _ late_grow_balanced, of L L4 0 "le_share e" grown ?w cursor kept
        "ll_share L - shrunk * direction (ll_share L)"] L' out
    by (auto simp: L5_def [symmetric] gone_def balanced_def net_total_def net_signed_def
        split: if_splits)
qed

lemma advance_loop_waits:
  assumes "now - (case ll_gap_since L of None \<Rightarrow> now | Some s \<Rightarrow> s) < grace"
  shows "\<exists>g. advance_loop now grace t known False L = (L\<lparr>ll_gap_since := g\<rparr>, [])"
proof (cases "ll_cursor_seq L")
  case None
  then show ?thesis
    by (intro exI [of _ "ll_gap_since L"]) (simp add: advance_loop.simps [of now grace t known False L])
next
  case (Some c)
  show ?thesis
  proof (cases "later_views c L")
    case Nil
    then show ?thesis using Some by (auto simp: advance_loop.simps [of now grace t known False L])
  next
    case (Cons v vs)
    then show ?thesis
      using Some assms by (auto simp: advance_loop.simps [of now grace t known False L])
  qed
qed

section \<open>A concrete run\<close>

text \<open>
  A leg of 5 anchored at \<open>seq\<close> 1 that the run holds alone; at \<open>seq\<close> 2 a foreign sale of 3 is
  known and the view shows 2.
\<close>

definition example_close :: leg_event where
  "example_close = \<lparr>le_exec_id = ''x'', le_seq = 2, le_delta = -3, le_own = False, le_share = 0,
     le_credit = 0, le_origin = ORIGIN_USER, le_entry = None\<rparr>"

definition example_ledger :: leg_ledger where
  "example_ledger = new_ledger\<lparr>ll_cursor_seq := Some 1, ll_anchor_seq := Some 1,
     ll_blind_seq := Some 1, ll_cursor_leg := 5, ll_share := 5, ll_journal := 5,
     ll_views := [(1, 5), (2, 2)], ll_events := [(''x'', example_close)]\<rparr>"

definition example_outcome :: leg_outcome where
  "example_outcome = \<lparr>lo_event = Some example_close, lo_consumed = 3, lo_proven = True,
     lo_share_before = 5, lo_leg_after = 2, lo_seq = 2, lo_unexplained = 0, lo_doubtful = 0,
     lo_clipped = 0, lo_settled = False\<rparr>"

lemmas small_step_defs =
  note_room_def note_side_def foreign_room_def dget_def capped_def bounded_def direction_def
  cap_doubt_def add_doubt_def add_credit_def take_journal_def sum_delta_def
  foreign_take_def foreign_consumed_def provably_taken_def

lemma example_fields [simp]:
  "ll_share example_ledger = 5" "ll_doubt example_ledger = 0" "ll_journal example_ledger = 5"
  "ll_room example_ledger = Map.empty" "ll_to_net example_ledger = Map.empty"
  "ll_cursor_leg example_ledger = 5" "ll_cursor_seq example_ledger = Some 1"
  "ll_events example_ledger = [(''x'', example_close)]" "ll_gaps example_ledger = []"
  "ll_views example_ledger = [(1, 5), (2, 2)]" "ll_gap_since example_ledger = None"
  by (simp_all add: example_ledger_def new_ledger_def)

lemma example_close_fields [simp]:
  "le_seq example_close = 2" "le_delta example_close = -3" "le_own example_close = False"
  "le_exec_id example_close = ''x''"
  by (simp_all add: example_close_def)

lemma example_walk_out:
  "walk_foreign True (1/10) example_close (example_ledger\<lparr>ll_gap_since := None\<rparr>) 5 =
   (L', leg, out) \<Longrightarrow> out = [example_outcome]"
  by (simp add: walk_foreign_def foreign_take_def foreign_consumed_def provably_taken_def
      direction_def example_outcome_def Let_def cong: let_weak_cong)

lemma example_walk:
  "snd (walk 1 (2, 2) True (1/10) (example_ledger\<lparr>ll_gap_since := None\<rparr>)) = [example_outcome]"
  by (auto simp: walk_def due_events_def walk_event_def dest: example_walk_out
      split: prod.splits)

lemma example_advance:
  "snd (advance 100 60 (1/10) {2} True example_ledger) = [example_outcome]"
proof -
  obtain L1 where w: "walk 1 (2, 2) True (1/10) (example_ledger\<lparr>ll_gap_since := None\<rparr>) =
      (L1, [example_outcome])"
    using example_walk by (metis prod.collapse)
  have "later_views 1 example_ledger = [(2, 2)]" by (simp add: later_views_def)
  moreover have "ll_cursor_seq L1 = Some 2" "later_views 2 L1 = []"
    using walk_frame [OF w] by (simp_all add: later_views_def)
  moreover have "expected_leg example_ledger 1 2 = 2" by (simp add: expected_leg_def sum_delta_def)
  ultimately show ?thesis
    using w by (simp add: advance_def settle_gaps_def settle_loop.simps [of "{2}" "1/10" 0 example_ledger]
        advance_loop.simps [of 100 60 "1/10" "{2}" True example_ledger]
        advance_loop.simps [of 100 60 "1/10" "{2}" True L1])
qed

section \<open>A doubt that outlives its share\<close>

text \<open>
  The run starts with a journal of 8 over a leg of 5: its share of 5 is all in doubt. The view at
  \<open>seq\<close> 2 shows the leg closed and no execution explains it. Then the run buys 5 (\<open>seq\<close> 3) and a
  foreign sale takes them (\<open>seq\<close> 4); both are known and shown by a view.
\<close>

definition stale_open :: leg_event where
  "stale_open = \<lparr>le_exec_id = ''own'', le_seq = 3, le_delta = 5, le_own = True, le_share = 5,
     le_credit = 0, le_origin = '''', le_entry = None\<rparr>"

definition stale_close :: leg_event where
  "stale_close = \<lparr>le_exec_id = ''foreign'', le_seq = 4, le_delta = -5, le_own = False,
     le_share = 0, le_credit = 0, le_origin = ORIGIN_USER, le_entry = None\<rparr>"

definition stale_ledger :: leg_ledger where
  "stale_ledger = run_ops (ledger_op_at (1/10))
     [AddView 1 5 None, Start 8, AddView 2 0 None, AddEvent stale_open, AddView 3 5 None,
      AddEvent stale_close, AddView 4 0 None] new_ledger"

lemmas add_view_eval = add_view_def is_echo_def is_newest_def not_beyond_cursor_def
  insert_view_def keep_last_def MAX_VIEWS_def new_ledger_def Let_def

lemma stale_started:
  "run_ops (ledger_op_at (1/10)) [AddView 1 5 None, Start 8] new_ledger =
   new_ledger\<lparr>ll_views := [(1, 5)], ll_latest_view_seq := 1, ll_cursor_seq := Some 1,
     ll_anchor_seq := Some 1, ll_cursor_leg := 5, ll_share := 5, ll_journal := 5, ll_doubt := 5,
     ll_doubt_seq := 1, ll_blind_seq := Some 1, ll_credits := [(1, 3, 1)],
     ll_to_net := [1 \<mapsto> 3], ll_room := [1 \<mapsto> 0, -1 \<mapsto> 0],
     ll_gaps := [\<lparr>lg_start_seq = None, lg_end_seq = 1, lg_start_leg = 5, lg_end_leg = 5,
       lg_start_share = 5, lg_start_journal = 5, lg_start_doubt = 0, lg_events = [], lg_late = {},
       lg_doubt = 5, lg_settled = False\<rparr>]\<rparr>"
  unfolding ledger_op_at_def
  by (simp add: add_view_eval cong: let_weak_cong,
      simp add: start_def own_beyond_def capped_def note_room_def note_side_def foreign_room_def
        dget_def direction_def Let_def cong: let_weak_cong,
      simp add: add_doubt_def take_journal_def dget_def cap_doubt_def add_credit_def keep_last_def
        MAX_CREDITS_def add_gap_def Let_def cong: let_weak_cong)

lemma stale_ledger_eq: "stale_ledger = (run_ops (ledger_op_at (1/10)) [AddView 1 5 None, Start 8] new_ledger)\<lparr>
   ll_views := [(1, 5), (2, 0), (3, 5), (4, 0)], ll_latest_view_seq := 4,
   ll_events := [(''own'', stale_open), (''foreign'', stale_close)]\<rparr>"
proof -
  have "stale_ledger = run_ops (ledger_op_at (1/10)) [AddView 2 0 None, AddEvent stale_open, AddView 3 5 None,
      AddEvent stale_close, AddView 4 0 None] (run_ops (ledger_op_at (1/10)) [AddView 1 5 None, Start 8] new_ledger)"
    by (simp add: stale_ledger_def)
  then show ?thesis unfolding stale_started
    by (simp add: ledger_op_at_def add_view_eval add_event_def evict_oldest_def MAX_EVENTS_def
        stale_open_def stale_close_def cong: let_weak_cong)
qed

lemma stale_fields [simp]:
  "ll_share stale_ledger = 5" "ll_doubt stale_ledger = 5" "ll_journal stale_ledger = 5"
  "ll_to_net stale_ledger = [1 \<mapsto> 3]"
  "ll_cursor_leg stale_ledger = 5" "ll_cursor_seq stale_ledger = Some 1"
  "ll_events stale_ledger = [(''own'', stale_open), (''foreign'', stale_close)]" 
  "ll_views stale_ledger = [(1, 5), (2, 0), (3, 5), (4, 0)]" "ll_gap_since stale_ledger = None"
  unfolding stale_ledger_eq stale_started by (simp_all add: new_ledger_def)

lemma stale_gaps: "ll_gaps stale_ledger = [\<lparr>lg_start_seq = None, lg_end_seq = 1, lg_start_leg = 5, lg_end_leg = 5,
       lg_start_share = 5, lg_start_journal = 5, lg_start_doubt = 0, lg_events = [], lg_late = {},
       lg_doubt = 5, lg_settled = False\<rparr>]"
  unfolding stale_ledger_eq stale_started by (simp_all add: new_ledger_def)

lemma stale_event_fields [simp]: "le_seq stale_open = 3" "le_own stale_open" "le_delta stale_open = 5" "le_share stale_open = 5"
  "le_seq stale_close = 4" "\<not> le_own stale_close" "le_delta stale_close = -5"
  by (simp_all add: stale_open_def stale_close_def)

lemma stale_walk1: "walk 1 (2,0) False (1/10) (stale_ledger\<lparr>ll_gap_since := None\<rparr>) = 
  (stale_ledger\<lparr>ll_gap_since := None, ll_cursor_seq := Some 2, ll_cursor_leg := 0, ll_views := [(2,0),(3,5),(4,0)]\<rparr>, [])"
  by (simp add: walk_def due_events_def walk_finish_def cap_doubt_def Let_def stale_gaps cong: let_weak_cong)

lemma stale_give_up: "give_up 1 (2,0) (1/10) (stale_ledger\<lparr>ll_gap_since := None\<rparr>) = (L1, out) \<Longrightarrow>
  ll_share L1 = 0 \<and> ll_journal L1 = 0 \<and> ll_doubt L1 = 5 \<and> map lo_consumed out = [5] \<and> map lo_doubtful out = [0] \<and> map lo_proven out = [False]
  \<and> ll_events L1 = ll_events stale_ledger \<and> ll_gap_since L1 = None \<and> ll_cursor_leg L1 = 0"
  by (auto simp: give_up_def stale_walk1 clamp_to_view_def direction_def ledger_simps take_journal_def clamp_outcome_def add_doubt_doubt doubted_def Let_def cong: let_weak_cong)

lemma stale_scan: "scan_views stale_ledger 1 (1/10) {3,4} None [(2,0),(3,5),(4,0)] = None"
  by (simp add: expected_leg_def sum_delta_def)

lemma stale_scan2: "ll_cursor_leg L1 = 0 \<Longrightarrow> ll_events L1 = ll_events stale_ledger \<Longrightarrow>
   scan_views L1 2 (1/10) {3,4} None [(3,5),(4,0)] = Some (4,0)"
  by (simp add: expected_leg_def sum_delta_def)

lemma stale_own: "ll_share L = 0 \<Longrightarrow> ll_journal L = 0 \<Longrightarrow> ll_doubt L = 5 \<Longrightarrow> walk_own True (1/10) stale_open L 0 = (L2, leg, out)
  \<Longrightarrow> ll_share L2 = 5 \<and> ll_doubt L2 = 5 \<and> leg = 5 \<and> out = []"
  by (auto simp: walk_own_def bounded_def capped_def direction_def cap_doubt_def note_room_def Let_def cong: let_weak_cong)

lemma stale_foreign: "ll_share L = 5 \<Longrightarrow> ll_doubt L = 5 \<Longrightarrow> walk_foreign True (1/10) stale_close L 5 = (L2, leg, out)
  \<Longrightarrow> map lo_consumed out = [5] \<and> map lo_doubtful out = [5] \<and> map lo_proven out = [True]"
  by (auto simp: walk_foreign_def foreign_take_def foreign_consumed_def provably_taken_def direction_def Let_def cong: let_weak_cong)

lemma stale_walk2:
  assumes "ll_share L = 0" "ll_journal L = 0" "ll_doubt L = 5" "ll_events L = ll_events stale_ledger" "ll_cursor_leg L = 0"
   "walk 2 (4, 0) True (1/10) L = (L2, out)" 
  shows "map lo_consumed out = [5] \<and> map lo_doubtful out = [5] \<and> map lo_proven out = [True]"
proof -
  have "due_events 2 4 L = [stale_open, stale_close]"
    using assms by (simp add: due_events_def walk_rank_def)
  then show ?thesis using assms
    by (auto simp: walk_def Let_def walk_event_def dest!: stale_own split: prod.splits) (auto dest: stale_foreign)
qed

section \<open>Properties\<close>

text \<open>
  C1. Every loss \<open>advance\<close> proves is a foreign execution of the ledger that took the leg, in the
  run's direction, below the share the run held; what it is charged with is exactly the part of
  the share the leg no longer covers, it exceeds the tolerance, and the part in doubt lies within
  it. So closes of foreign exposure and same-side adds are never charged to the run.
\<close>

theorem advance_loss_shown:
  assumes "o1 \<in> set (snd (advance now grace \<bar>t\<bar> known provable L))"
    and "lo_proven o1" and "lo_consumed o1 > 0"
  shows "loss_shown \<bar>t\<bar> (snd ` set (ll_events L)) o1"
  using advance_losses [of "\<bar>t\<bar>" now grace known provable L] assms
  by (cases "advance now grace \<bar>t\<bar> known provable L") (auto simp: losses_shown_def)

theorem advance_loss_shown_witness:
  "loss_shown (1/10) (snd ` set (ll_events example_ledger)) example_outcome \<and>
   lo_consumed example_outcome = 3"
  using advance_loss_shown [of example_outcome 100 60 "1/10" "{2}" True example_ledger]
    example_advance by (simp add: example_outcome_def)

text \<open>
  C2. In every ledger any sequence of operations reaches from the empty one, the share never
  exceeds the run's journal on its own side, and a journal on the other side holds none of it.
\<close>

theorem ledger_share_in_journal:
  "share_in_journal \<bar>t\<bar> (run_ops (ledger_op_at t) ops new_ledger)"
  using ledger_machine.run_inv [OF ledger_machine.init_inv, of t ops]
  by (simp add: ledger_inv_def)

text \<open>
  In every reachable ledger the views are strictly ordered and at most 64, the executions
  are distinct and at most 512, credits (all positive) at most 8, given-up intervals at most 16,
  the doubt is not negative, and the assertion of \<open>late_own\<close> holds once the ledger has started.
\<close>

theorem ledger_limits:
  "let L = run_ops (ledger_op_at t) ops new_ledger in
     views_ok L \<and> events_ok L \<and> credits_ok L \<and> gaps_ok L \<and> blind_ok L"
  using ledger_machine.run_inv [OF ledger_machine.init_inv, of t ops]
  by (simp add: ledger_inv_def stores_ok_def Let_def)

text \<open>
  C3. The view an interval is proven on is reached through views that all carry the \<open>seq\<close> of a
  known execution and all equal the leg the known executions predict: one missing execution that
  shows in any view leaves the interval open.
\<close>

theorem proven_interval_complete:
  assumes "scan_views L c t known None (later_views c L) = Some v"
  shows "\<exists>pre post. later_views c L = pre @ v # post \<and>
    (\<forall>w \<in> set (pre @ [v]). \<bar>expected_leg L c (fst w) - snd w\<bar> \<le> t \<and> fst w \<in> known)"
  using scan_views_prefix [OF assms] by simp

theorem proven_interval_complete_witness:
  "\<exists>pre post. later_views 1 example_ledger = pre @ (2, 2) # post \<and>
    (\<forall>w \<in> set (pre @ [(2, 2)]). \<bar>expected_leg example_ledger 1 (fst w) - snd w\<bar> \<le> 1/10 \<and> fst w \<in> {2})"
  by (rule proven_interval_complete)
    (simp add: later_views_def expected_leg_def sum_delta_def)

text \<open>
  Bookkeeping of \<open>advance\<close> on any reachable ledger: what its outcomes took (settled ones
  repeat an earlier booking) is what it added to the amounts the entry rows must still lose, and
  the journal moved by exactly the own executions walked and those amounts.
\<close>

theorem advance_books_what_it_takes:
  "let L = run_ops (ledger_op_at t) ops new_ledger;
       A = advance now grace \<bar>t\<bar> known provable L
   in balanced L (fst A) (taken_total (snd A)) (own_pending L - own_pending (fst A))"
  using ledger_machine.run_inv [OF ledger_machine.init_inv, of t ops]
  by (auto simp: ledger_inv_def Let_def intro: advance_balanced [OF abs_ge_zero _ prod.collapse [symmetric]])

text \<open>
  Whenever \<open>advance\<close> moves the cursor, the leg at the new cursor covers the share; otherwise
  share and journal are unchanged.
\<close>

theorem advance_share_fits:
  "let L' = fst (advance now grace \<bar>t\<bar> known provable L) in
     (ll_cursor_seq L' = ll_cursor_seq L \<and> ll_share L' = ll_share L \<and> ll_journal L' = ll_journal L)
     \<or> share_fits \<bar>t\<bar> L'"
  using advance_fits [of "\<bar>t\<bar>"] by (metis abs_ge_zero prod.collapse)

text \<open>
  While a stream outage is not re-read (\<open>provable = False\<close>) and the grace has not run out,
  \<open>advance\<close> decides nothing and changes nothing but the time the interval was first seen open.
\<close>

theorem advance_waits:
  assumes "now - (case ll_gap_since L of None \<Rightarrow> now | Some s \<Rightarrow> s) < grace"
  shows "\<exists>g. advance now grace t known False L = (L\<lparr>ll_gap_since := g\<rparr>, [])"
proof (cases "ll_cursor_seq L")
  case None
  then show ?thesis by (intro exI [of _ "ll_gap_since L"]) (simp add: advance_def)
next
  case (Some c)
  then show ?thesis using advance_loop_waits [OF assms, of t known] by (auto simp: advance_def)
qed

theorem advance_waits_witness:
  "snd (advance 100 60 (1/10) {2} False example_ledger) = []"
  using advance_waits [of 100 example_ledger 60 "1/10" "{2}"] by auto

text \<open>
  Giving an interval up on a reachable ledger leaves a share the leg covers; when any of it
  is left, all of it is held in doubt.
\<close>

theorem give_up_leaves_doubt:
  "let L = run_ops (ledger_op_at t) ops new_ledger; L' = fst (give_up c v \<bar>t\<bar> L)
   in share_fits \<bar>t\<bar> L' \<and> (\<bar>ll_share L'\<bar> \<le> \<bar>t\<bar> \<or> ll_doubt L' = \<bar>ll_share L'\<bar>)"
proof -
  let ?L = "run_ops (ledger_op_at t) ops new_ledger"
  have "stores_ok ?L"
    using ledger_machine.run_inv [OF ledger_machine.init_inv, of t ops] by (simp add: ledger_inv_def)
  then show ?thesis
    using give_up_share_fits [of "\<bar>t\<bar>" c v ?L] give_up_doubt [of "\<bar>t\<bar>" ?L c v]
    by (metis abs_ge_zero linorder_not_le prod.collapse)
qed

text \<open>
  Judging given-up intervals again never moves the share, the journal, the cursor or the
  credits, only ever releases doubt, and its verdicts are all marked settled and unproven, so
  none of them is reported.
\<close>

theorem settle_only_releases_doubt:
  "let L = run_ops (ledger_op_at t) ops new_ledger; A = settle_gaps known \<bar>t\<bar> L
   in settle_frame L (fst A) \<and> 0 \<le> ll_doubt (fst A) \<and> ll_doubt (fst A) \<le> ll_doubt L \<and>
      list_all (\<lambda>o1. lo_settled o1 \<and> \<not> lo_proven o1) (snd A)"
proof -
  let ?L = "run_ops (ledger_op_at t) ops new_ledger"
  have "ll_doubt ?L \<ge> 0"
    using ledger_machine.run_inv [OF ledger_machine.init_inv, of t ops]
    by (simp add: ledger_inv_def stores_ok_def gaps_ok_def)
  then show ?thesis
    using settle_gaps_frame settle_gaps_doubt [of "\<bar>t\<bar>"] settle_gaps_outcomes
    by (cases "settle_gaps known \<bar>t\<bar> ?L") (auto simp: Let_def list_all_iff)
qed

text \<open>
  C4. \<open>take_credit\<close> hands out no more than the reduce asks for and no more than
  \<open>open_credit\<close> announces, never a negative amount.
\<close>

theorem take_credit_bounds:
  "0 \<le> snd (take_credit seq q d \<bar>t\<bar> L) \<and> snd (take_credit seq q d \<bar>t\<bar> L) \<le> max 0 q \<and>
   snd (take_credit seq q d \<bar>t\<bar> L) \<le> open_credit seq d \<bar>t\<bar> L"
proof -
  obtain cs r where l: "take_loop seq q d \<bar>t\<bar> 0 (ll_credits L) = (cs, r)" by (metis surj_pair)
  show ?thesis using take_loop_bounds [OF l] by (simp add: take_credit_def l open_credit_eq)
qed

text \<open>
  A late own execution moves the journal by its share and books off exactly what it reports
  gone: the fill is counted once, whatever of it the leg still holds, and the share stays within
  the journal. It raises (here \<open>None\<close>) only before the ledger has started.
\<close>

theorem late_own_conserves:
  "case late_own e \<bar>t\<bar> L of
     None \<Rightarrow> ll_cursor_seq L = None \<or> ll_blind_seq L = None
   | Some (L', out) \<Rightarrow>
       balanced L L' (case out of None \<Rightarrow> 0 | Some o1 \<Rightarrow> lo_consumed o1) (le_share e) \<and>
       share_in_journal \<bar>t\<bar> L'"
proof (cases "late_own e \<bar>t\<bar> L")
  case None
  then show ?thesis by (auto simp: late_own_def Let_def split: option.splits prod.splits)
next
  case (Some r)
  then show ?thesis
    using late_own_balanced [of e "\<bar>t\<bar>" L "fst r" "snd r"]
      late_own_share_in_journal [of "\<bar>t\<bar>" e L "fst r" "snd r"]
    by (simp add: case_prod_beta)
qed

text \<open>
  C5. The doubt survives a give-up that takes the whole share: the clamp to the empty leg leaves
  the share 0 and the doubt 5. The next own purchase, proven in full, is then covered by the old
  doubt, and a foreign close of it is proven but charged to the doubt in full, so it is never
  reported. The header of the source file says the share running out resolves all of the doubt.
\<close>

theorem stale_doubt_hides_loss:
  "let os = snd (advance 100 0 (1/10) {3, 4} True stale_ledger) in
     map lo_proven os = [False, True] \<and> map lo_consumed os = [5, 5] \<and> map lo_doubtful os = [0, 5]"
proof -
  obtain L1 o1 where g: "give_up 1 (2, 0) (1/10) (stale_ledger\<lparr>ll_gap_since := None\<rparr>) = (L1, o1)" by (metis surj_pair)
  note G = stale_give_up [OF g]
  note F = give_up_frame [OF g]
  obtain L2 o2 where w: "walk 2 (4, 0) True (1/10) L1 = (L2, o2)" by (metis surj_pair)
  have W: "map lo_consumed o2 = [5] \<and> map lo_doubtful o2 = [5] \<and> map lo_proven o2 = [True]"
    by (rule stale_walk2 [OF _ _ _ _ _ w]) (use G in simp_all)
  have c1: "ll_cursor_seq L1 = Some 2" "later_views 2 L1 = [(3,5),(4,0)]" "L1\<lparr>ll_gap_since := None\<rparr> = L1"
    using F G by (simp_all add: later_views_def)
  have c2: "ll_cursor_seq L2 = Some 4" "later_views 4 L2 = []"
    using walk_frame [OF w] F by (simp_all add: later_views_def)
  have c0: "later_views 1 stale_ledger = [(2,0),(3,5),(4,0)]" by (simp add: later_views_def)
  have s0: "settle_gaps {3, 4} (1/10) stale_ledger = (stale_ledger, [])"
    by (simp add: settle_gaps_def settle_loop.simps [of "{3,4}" "1/10" 0] settle_loop.simps [of "{3,4}" "1/10" "Suc 0"] stale_gaps gap_complete_def)
  have s2: "scan_views L1 2 (1/10) {3,4} None [(3,5),(4,0)] = Some (4,0)" using stale_scan2 G by blast
  have l2: "advance_loop 100 0 (1/10) {3,4} True L2 = (L2\<lparr>ll_gap_since := None\<rparr>, [])"
    by (simp add: advance_loop.simps [of 100 0 "1/10" "{3,4}" True L2] c2)
  have l1: "advance_loop 100 0 (1/10) {3,4} True L1 = (L2\<lparr>ll_gap_since := None\<rparr>, o2)"
    by (subst advance_loop.simps) (simp only: c1 option.case list.case if_True s2 w l2 prod.case append_Nil2)
  have l0: "advance_loop 100 0 (1/10) {3,4} True stale_ledger = (L2\<lparr>ll_gap_since := None\<rparr>, o1 @ o2)"
    by (subst advance_loop.simps) (simp add: c0 stale_scan g l1 del: scan_views.simps)
  show ?thesis using G W by (simp add: advance_def s0 l0)
qed

end
