(* ===== verification/Py_Values.thy ===== *)
theory Py_Values
  imports Bybit_Prelude
begin

text \<open>
  What the plugin uses of Python's values: truthiness, \<open>dict.get\<close>, \<open>str\<close>, and the number parsers
  \<open>int(...)\<close>, \<open>float(...)\<close> and \<open>Decimal(...)\<close> with the strings they accept (surrounding white
  space, a sign, underscores between digits, an exponent, \<open>inf\<close> and \<open>nan\<close>). Characters are code
  points up to 255; the digits of other scripts that Python also accepts are not modelled. A float
  is the exact value of its decimal literal, so \<open>repr\<close> of a float prints that decimal.
\<close>

section \<open>Exceptions of the language\<close>

datatype py_error =
    ValueErr
  | TypeErr
  | KeyErr
  | AttributeErr
  | IndexErr
  | OverflowErr
  | InvalidOperation
  | DivisionByZeroErr
  | AssertionErr
  | ConnectionErr string

text \<open>\<open>except (ArithmeticError, TypeError, ValueError)\<close> and the narrower clauses.\<close>

definition value_or_type_error :: "py_error \<Rightarrow> bool" where
  "value_or_type_error e \<longleftrightarrow> e = ValueErr \<or> e = TypeErr"

definition arithmetic_error :: "py_error \<Rightarrow> bool" where
  "arithmetic_error e \<longleftrightarrow> e = OverflowErr \<or> e = InvalidOperation \<or> e = DivisionByZeroErr"

section \<open>Truthiness and dictionaries\<close>

fun truthy :: "py \<Rightarrow> bool" where
  "truthy PNone = False"
| "truthy (PBool b) = b"
| "truthy (PInt i) = (i \<noteq> 0)"
| "truthy (PFloat r) = (r \<noteq> 0)"
| "truthy (PStr s) = (s \<noteq> [])"
| "truthy (PList xs) = (xs \<noteq> [])"
| "truthy (PDict d) = (d \<noteq> [])"

definition py_or :: "py \<Rightarrow> py \<Rightarrow> py" where
  "py_or a b = (if truthy a then a else b)"

type_synonym jdict = "(string \<times> py) list"

text \<open>\<open>d.get(k)\<close> and \<open>d.get(k, v)\<close>\<close>

definition jget :: "jdict \<Rightarrow> string \<Rightarrow> py" where
  "jget d k = (case map_of d k of None \<Rightarrow> PNone | Some v \<Rightarrow> v)"

definition jget_default :: "jdict \<Rightarrow> string \<Rightarrow> py \<Rightarrow> py" where
  "jget_default d k v0 = (case map_of d k of None \<Rightarrow> v0 | Some v \<Rightarrow> v)"

text \<open>A value the code goes on to call \<open>.get\<close> on.\<close>

fun as_dict :: "py \<Rightarrow> py_error + jdict" where
  "as_dict (PDict d) = Inr d"
| "as_dict v = Inl AttributeErr"

lemma as_dict_Inr [simp]: "as_dict v = Inr d \<longleftrightarrow> v = PDict d"
  by (cases v) auto

text \<open>A value the code iterates over: lists only, as the JSON of the venue has it.\<close>

fun as_list :: "py \<Rightarrow> py_error + py list" where
  "as_list (PList xs) = Inr xs"
| "as_list (PDict d) = Inr (map (\<lambda>(k, v). PStr k) d)"
| "as_list (PStr s) = Inr (map (\<lambda>c. PStr [c]) s)"
| "as_list v = Inl TypeErr"

section \<open>Characters and digits\<close>

definition code :: "char \<Rightarrow> nat" where
  "code c = of_char c"

definition is_digit :: "char \<Rightarrow> bool" where
  "is_digit c \<longleftrightarrow> 48 \<le> code c \<and> code c \<le> 57"

definition digit_val :: "char \<Rightarrow> nat" where
  "digit_val c = code c - 48"

definition digit_char :: "nat \<Rightarrow> char" where
  "digit_char d = char_of (48 + d)"

lemma digit_char_props [simp]:
  assumes "d < 10"
  shows "is_digit (digit_char d)" "digit_val (digit_char d) = d"
  using assms by (simp_all add: is_digit_def digit_val_def digit_char_def code_def)

text \<open>\<open>str.isspace\<close> on the code points up to 255\<close>

definition is_space :: "char \<Rightarrow> bool" where
  "is_space c \<longleftrightarrow> (9 \<le> code c \<and> code c \<le> 13) \<or> (28 \<le> code c \<and> code c \<le> 32) \<or>
     code c = 133 \<or> code c = 160"

lemma digit_not_space: "is_digit c \<Longrightarrow> \<not> is_space c"
  by (auto simp: is_digit_def is_space_def)

definition lstrip :: "string \<Rightarrow> string" where
  "lstrip s = dropWhile is_space s"

definition strip :: "string \<Rightarrow> string" where
  "strip s = rev (dropWhile is_space (rev (dropWhile is_space s)))"

lemma strip_id:
  assumes "s \<noteq> []" "\<not> is_space (hd s)" "\<not> is_space (last s)"
  shows "strip s = s"
proof -
  have "dropWhile is_space s = s" "dropWhile is_space (rev s) = rev s"
    using assms by (simp_all add: dropWhile_eq_self_iff hd_rev)
  then show ?thesis by (simp add: strip_def)
qed

definition upper_char :: "char \<Rightarrow> char" where
  "upper_char c = (if 97 \<le> code c \<and> code c \<le> 122 then char_of (code c - 32) else c)"

definition lower_char :: "char \<Rightarrow> char" where
  "lower_char c = (if 65 \<le> code c \<and> code c \<le> 90 then char_of (code c + 32) else c)"

text \<open>\<open>upper()\<close> and \<open>lower()\<close> on ASCII text, which is all the code applies them to.\<close>

definition upper :: "string \<Rightarrow> string" where
  "upper s = map upper_char s"

definition lower :: "string \<Rightarrow> string" where
  "lower s = map lower_char s"

definition starts_with :: "string \<Rightarrow> string \<Rightarrow> bool" where
  "starts_with s p \<longleftrightarrow> take (length p) s = p"

definition ends_with :: "string \<Rightarrow> string \<Rightarrow> bool" where
  "ends_with s p \<longleftrightarrow> length p \<le> length s \<and> drop (length s - length p) s = p"

text \<open>\<open>p in s\<close> on strings\<close>

fun has_substring :: "string \<Rightarrow> string \<Rightarrow> bool" where
  "has_substring p [] = (p = [])"
| "has_substring p (c # s) = (starts_with (c # s) p \<or> has_substring p s)"

section \<open>Printing numbers\<close>

fun nat_str :: "nat \<Rightarrow> string" where
  "nat_str n = (if n < 10 then [digit_char n] else nat_str (n div 10) @ [digit_char (n mod 10)])"

declare nat_str.simps [simp del]

definition int_str :: "int \<Rightarrow> string" where
  "int_str i = (if i < 0 then CHR ''-'' # nat_str (nat (- i)) else nat_str (nat i))"

text \<open>The number a digit string denotes.\<close>

definition digits_val :: "string \<Rightarrow> nat" where
  "digits_val s = foldl (\<lambda>a c. 10 * a + digit_val c) 0 s"

lemma digits_val_snoc [simp]: "digits_val (s @ [c]) = 10 * digits_val s + digit_val c"
  by (simp add: digits_val_def)

lemma digits_val_Nil [simp]: "digits_val [] = 0"
  by (simp add: digits_val_def)

lemma digits_val_append: "digits_val (s @ t) = digits_val s * 10 ^ length t + digits_val t"
  by (induction t rule: rev_induct) (auto simp: algebra_simps append_assoc [symmetric] simp del: append_assoc)

lemma nat_str_digits: "list_all is_digit (nat_str n)"
  by (induction n rule: nat_str.induct) (subst nat_str.simps, auto)

lemma nat_str_val [simp]: "digits_val (nat_str n) = n"
proof (induction n rule: nat_str.induct)
  case (1 n)
  show ?case
    using 1 by (subst nat_str.simps) (auto simp: digits_val_def)
qed

lemma nat_str_not_Nil [simp]: "nat_str n \<noteq> []"
  by (subst nat_str.simps) auto

section \<open>Scanning digits\<close>

text \<open>Digits with single underscores between them; the flag tells whether a digit precedes.\<close>

fun us_digits :: "bool \<Rightarrow> string \<Rightarrow> string \<times> string" where
  "us_digits p [] = ([], [])"
| "us_digits p (c # cs) =
     (if is_digit c then (case us_digits True cs of (ds, r) \<Rightarrow> (c # ds, r))
      else if c = CHR ''_'' \<and> p \<and> cs \<noteq> [] \<and> is_digit (hd cs) then us_digits False cs
      else ([], c # cs))"

lemma us_digits_all: "list_all is_digit ds \<Longrightarrow> us_digits p ds = (ds, [])"
  by (induction ds arbitrary: p) auto

lemma us_digits_stop:
  "list_all is_digit ds \<Longrightarrow> r = [] \<or> (\<not> is_digit (hd r) \<and> hd r \<noteq> CHR ''_'') \<Longrightarrow>
   us_digits p (ds @ r) = (ds, r)"
  by (induction ds arbitrary: p) (cases r; auto)+

text \<open>A leading sign: whether it is a minus, and the rest.\<close>

fun scan_sign :: "string \<Rightarrow> bool \<times> string" where
  "scan_sign [] = (False, [])"
| "scan_sign (c # cs) =
     (if c = CHR ''-'' then (True, cs) else if c = CHR ''+'' then (False, cs)
      else (False, c # cs))"

lemma digit_not_sign: "is_digit c \<Longrightarrow> c \<noteq> CHR ''-'' \<and> c \<noteq> CHR ''+'' \<and> c \<noteq> CHR ''.'' \<and> c \<noteq> CHR ''_''"
  by (auto simp: is_digit_def code_def)

lemma scan_sign_digits: "s \<noteq> [] \<Longrightarrow> is_digit (hd s) \<Longrightarrow> scan_sign s = (False, s)"
  using digit_not_sign by (cases s) auto

section \<open>\<open>int(...)\<close>\<close>

definition parse_int :: "string \<Rightarrow> py_error + int" where
  "parse_int s =
     (let (neg, r) = scan_sign (strip s); (ds, rest) = us_digits False r
      in if ds = [] \<or> rest \<noteq> [] then Inl ValueErr
         else Inr (if neg then - int (digits_val ds) else int (digits_val ds)))"

text \<open>\<open>int(v)\<close>: a float is truncated towards zero.\<close>

definition trunc :: "rat \<Rightarrow> int" where
  "trunc r = (if r \<ge> 0 then \<lfloor>r\<rfloor> else \<lceil>r\<rceil>)"

fun py_int :: "py \<Rightarrow> py_error + int" where
  "py_int (PInt i) = Inr i"
| "py_int (PBool b) = Inr (if b then 1 else 0)"
| "py_int (PFloat r) = Inr (trunc r)"
| "py_int (PStr s) = parse_int s"
| "py_int v = Inl TypeErr"

lemma strip_digits:
  assumes "list_all is_digit ds" "ds \<noteq> []"
  shows "strip ds = ds" "strip (CHR ''-'' # ds) = CHR ''-'' # ds"
  using assms digit_not_space
  by (auto simp: list_all_iff is_space_def code_def intro!: strip_id)

lemma parse_int_str: "parse_int (int_str i) = Inr i"
proof -
  let ?ds = "nat_str (nat \<bar>i\<bar>)"
  note d = nat_str_digits [of "nat \<bar>i\<bar>"]
  have h: "is_digit (hd ?ds)" using d by (cases ?ds) (auto simp: list_all_iff)
  show ?thesis
    using strip_digits [OF d] us_digits_all [OF d] scan_sign_digits [OF nat_str_not_Nil h]
    by (cases "i < 0") (auto simp: parse_int_def int_str_def Let_def)
qed

section \<open>\<open>float(...)\<close> and \<open>Decimal(...)\<close>\<close>

text \<open>A finite value or one of the special ones.\<close>

datatype num = Fin rat | PosInf | NegInf | NaN

definition ten_pow :: "int \<Rightarrow> rat" where
  "ten_pow e = (if e \<ge> 0 then 10 ^ nat e else 1 / 10 ^ nat (- e))"

text \<open>The optional exponent; \<open>None\<close> when it is malformed or something follows the number.\<close>

definition scan_exponent :: "string \<Rightarrow> int option" where
  "scan_exponent s =
     (case s of
        [] \<Rightarrow> Some 0
      | c # cs \<Rightarrow>
          if lower_char c = CHR ''e''
          then (let (neg, r) = scan_sign cs; (ds, rest) = us_digits False r
                in if ds = [] \<or> rest \<noteq> [] then None
                   else Some (if neg then - int (digits_val ds) else int (digits_val ds)))
          else None)"

definition scan_number :: "string \<Rightarrow> rat option" where
  "scan_number s =
     (let (d1, r1) = us_digits False s;
          (d2, r2) = (if r1 \<noteq> [] \<and> hd r1 = CHR ''.'' then us_digits False (tl r1) else ([], r1))
      in if d1 = [] \<and> d2 = [] then None
         else map_option (\<lambda>e. of_nat (digits_val (d1 @ d2)) * ten_pow (e - int (length d2)))
                (scan_exponent r2))"

definition signed :: "bool \<Rightarrow> rat \<Rightarrow> rat" where
  "signed neg r = (if neg then - r else r)"

definition parse_float :: "string \<Rightarrow> py_error + num" where
  "parse_float s =
     (let (neg, r) = scan_sign (strip s)
      in if lower r = ''inf'' \<or> lower r = ''infinity'' then Inr (if neg then NegInf else PosInf)
         else if lower r = ''nan'' then Inr NaN
         else case scan_number r of None \<Rightarrow> Inl ValueErr | Some v \<Rightarrow> Inr (Fin (signed neg v)))"

fun py_float :: "py \<Rightarrow> py_error + num" where
  "py_float (PInt i) = Inr (Fin (of_int i))"
| "py_float (PBool b) = Inr (Fin (if b then 1 else 0))"
| "py_float (PFloat r) = Inr (Fin r)"
| "py_float (PStr s) = parse_float s"
| "py_float v = Inl TypeErr"

text \<open>
  \<open>Decimal(s)\<close> drops underscores wherever they stand and accepts diagnostic digits after
  \<open>nan\<close> and \<open>snan\<close>; anything else raises \<open>decimal.InvalidOperation\<close>.
\<close>

definition is_nan_text :: "string \<Rightarrow> bool" where
  "is_nan_text r \<longleftrightarrow>
     (starts_with r ''nan'' \<and> list_all is_digit (drop 3 r)) \<or>
     (starts_with r ''snan'' \<and> list_all is_digit (drop 4 r))"

definition parse_dec :: "string \<Rightarrow> py_error + num" where
  "parse_dec s =
     (let (neg, r) = scan_sign (filter (\<lambda>c. c \<noteq> CHR ''_'') (strip s))
      in if lower r = ''inf'' \<or> lower r = ''infinity'' then Inr (if neg then NegInf else PosInf)
         else if is_nan_text (lower r) then Inr NaN
         else case scan_number r of
                None \<Rightarrow> Inl InvalidOperation | Some v \<Rightarrow> Inr (Fin (signed neg v)))"

section \<open>\<open>str(...)\<close>\<close>

text \<open>The least number of decimals that shows a value exactly (at most \<open>fuel\<close>).\<close>

fun decimals :: "nat \<Rightarrow> rat \<Rightarrow> nat" where
  "decimals 0 r = 0"
| "decimals (Suc n) r = (if r = of_int \<lfloor>r\<rfloor> then 0 else Suc (decimals n (r * 10)))"

definition pad_left :: "nat \<Rightarrow> string \<Rightarrow> string" where
  "pad_left n s = replicate (n - length s) (CHR ''0'') @ s"

text \<open>
  \<open>repr\<close> of a float in positional notation, which Python uses from \<open>1e-4\<close> up to \<open>1e16\<close>; 400
  decimals cover every finite double. Outside that range Python prints an exponent; the plugin
  sees no such text.
\<close>

definition float_str :: "rat \<Rightarrow> string" where
  "float_str r =
     (let k = max 1 (decimals 400 \<bar>r\<bar>); n = nat \<lfloor>\<bar>r\<bar> * 10 ^ k\<rfloor>
      in (if r < 0 then ''-'' else []) @ nat_str (n div 10 ^ k) @ ''.'' @
         pad_left k (nat_str (n mod 10 ^ k)))"

fun join_with :: "string \<Rightarrow> string list \<Rightarrow> string" where
  "join_with sep [] = []"
| "join_with sep [x] = x"
| "join_with sep (x # y # ys) = x @ sep @ join_with sep (y # ys)"

text \<open>\<open>repr\<close> of a string: single quotes unless it holds some and no double quote.\<close>

definition quote_str :: "string \<Rightarrow> string" where
  "quote_str s =
     (let q = (if CHR 39 \<in> set s \<and> CHR 34 \<notin> set s then CHR 34 else CHR 39)
      in q # concat (map (\<lambda>c. if c = q \<or> c = CHR 92 then [CHR 92, c]
                              else if c = CHR 10 then [CHR 92, CHR ''n'']
                              else if c = CHR 13 then [CHR 92, CHR ''r'']
                              else if c = CHR 9 then [CHR 92, CHR ''t'']
                              else [c]) s) @ [q])"

fun py_repr :: "py \<Rightarrow> string" where
  "py_repr PNone = ''None''"
| "py_repr (PBool b) = (if b then ''True'' else ''False'')"
| "py_repr (PInt i) = int_str i"
| "py_repr (PFloat r) = float_str r"
| "py_repr (PStr s) = quote_str s"
| "py_repr (PList xs) = ''['' @ join_with '', '' (map py_repr xs) @ '']''"
| "py_repr (PDict d) =
     ''{'' @ join_with '', '' (map (\<lambda>(k, v). quote_str k @ '': '' @ py_repr v) d) @ ''}''"

definition py_str :: "py \<Rightarrow> string" where
  "py_str v = (case v of PStr s \<Rightarrow> s | _ \<Rightarrow> py_repr v)"

text \<open>\<open>str(d.get(k) or '')\<close>, the accessor used for every text field.\<close>

definition jstr :: "jdict \<Rightarrow> string \<Rightarrow> string" where
  "jstr d k = py_str (py_or (jget d k) (PStr []))"

lemma jstr_simps [simp]:
  "map_of d k = None \<Longrightarrow> jstr d k = []"
  "map_of d k = Some (PStr s) \<Longrightarrow> jstr d k = s"
  by (simp_all add: jstr_def jget_def py_or_def py_str_def)

text \<open>
  \<open>s.isdigit()\<close>: the superscripts 1, 2, 3 count as digits for it, but \<open>int\<close> rejects them.
\<close>

definition isdigit :: "string \<Rightarrow> bool" where
  "isdigit s \<longleftrightarrow> s \<noteq> [] \<and> list_all (\<lambda>c. is_digit c \<or> code c \<in> {178, 179, 185}) s"

lemma parse_int_digits:
  assumes "list_all is_digit s" "s \<noteq> []"
  shows "parse_int s = Inr (int (digits_val s))"
proof -
  have "is_digit (hd s)" using assms by (cases s) auto
  then show ?thesis
    using assms strip_digits(1) [of s] us_digits_all [of s False] scan_sign_digits [of s]
    by (simp add: parse_int_def)
qed

text \<open>On the characters \<open>isdigit\<close> accepts, \<open>int\<close> succeeds for ASCII digits only.\<close>

lemma parse_int_isdigit:
  assumes "isdigit s" "parse_int s = Inr i"
  shows "list_all is_digit s \<and> i = int (digits_val s)"
proof (cases "list_all is_digit s")
  case True
  then show ?thesis using parse_int_digits [of s] assms by (auto simp: isdigit_def)
next
  case False
  have sp: "c \<in> set s \<Longrightarrow> \<not> is_space c \<and> c \<noteq> CHR ''-'' \<and> c \<noteq> CHR ''+'' \<and> c \<noteq> CHR ''_''" for c
    using assms(1) by (auto simp: isdigit_def list_all_iff is_space_def is_digit_def code_def)
  have "strip s = s" by (rule strip_id) (use assms(1) sp in \<open>auto simp: isdigit_def\<close>)
  moreover have "scan_sign s = (False, s)" using sp by (cases s) auto
  moreover have "us_digits p t = (ds, []) \<Longrightarrow> set t \<subseteq> set s \<Longrightarrow> list_all is_digit t" for p t ds
    by (induction p t arbitrary: ds rule: us_digits.induct)
      (use sp in \<open>auto split: if_splits prod.splits\<close>)
  ultimately show ?thesis
    using assms(2) False by (auto simp: parse_int_def split: prod.splits if_splits)
qed

end
