(* ===== verification/Errors.thy ===== *)
theory Errors
  imports Py_Values
begin

text \<open>
  Model of \<^verbatim>\<open>src/src/pynecore_bybit/exceptions.py\<close>: the plugin's exceptions as a datatype (the
  message is a field, \<open>str(exc)\<close> returns it), the \<open>retCode\<close> sets, and the translation into the
  framework's broker errors. \<open>raised\<close> is what a call of the plugin may raise: one of these, an
  exception of the language, or the write gate's \<open>VenueWritesQuarantinedError\<close>.
\<close>

section \<open>Exceptions\<close>

datatype bybit_error =
    BybitConnectionError string
  | BybitAdoptionBaselineError string
  | BybitPositionDataError string
  | BybitAPIError string int
  | BybitSymbolError string
  | BybitUnsupportedTimeframeError string

datatype raised =
    Bybit bybit_error
  | Lang py_error
  | VenueWritesQuarantinedError string

datatype broker_error =
    AuthenticationError string string
  | ExchangeRateLimitError string rat
  | ExchangeConnectionError string
  | InsufficientMarginError string
  | ExchangeOrderRejectedError string

fun exc_str :: "bybit_error \<Rightarrow> string" where
  "exc_str (BybitConnectionError m) = m"
| "exc_str (BybitAdoptionBaselineError m) = m"
| "exc_str (BybitPositionDataError m) = m"
| "exc_str (BybitAPIError m c) = m"
| "exc_str (BybitSymbolError m) = m"
| "exc_str (BybitUnsupportedTimeframeError m) = m"

definition RETRYABLE_CODES :: "int list" where
  "RETRYABLE_CODES = [10000, 10002, 10006, 10016, 10018]"

text \<open>The \<open>retryable\<close> attribute; the two classes without one inherit the framework's \<open>False\<close>.\<close>

fun retryable :: "bybit_error \<Rightarrow> bool" where
  "retryable (BybitConnectionError m) = True"
| "retryable (BybitAdoptionBaselineError m) = True"
| "retryable (BybitPositionDataError m) = True"
| "retryable (BybitAPIError m c) = (c \<in> set RETRYABLE_CODES)"
| "retryable (BybitSymbolError m) = False"
| "retryable (BybitUnsupportedTimeframeError m) = False"

section \<open>The code sets\<close>

definition AUTH_ERROR_CODES :: "int list" where
  "AUTH_ERROR_CODES = [10003, 10004, 10005, 10010, 33004]"

definition RATE_LIMIT_CODES :: "int list" where
  "RATE_LIMIT_CODES = [10006, 10018]"

definition INSUFFICIENT_BALANCE_CODES :: "int list" where
  "INSUFFICIENT_BALANCE_CODES = [170131, 110007]"

definition ORDER_NOT_FOUND_CODES :: "int list" where
  "ORDER_NOT_FOUND_CODES = [170213, 110001]"

definition DUPLICATE_COID_CODES :: "int list" where
  "DUPLICATE_COID_CODES = [170141, 110072]"

definition AMBIGUOUS_DISPOSITION_CODES :: "int list" where
  "AMBIGUOUS_DISPOSITION_CODES = [10000, 10016]"

lemmas code_set_defs =
  RETRYABLE_CODES_def AUTH_ERROR_CODES_def RATE_LIMIT_CODES_def INSUFFICIENT_BALANCE_CODES_def
  ORDER_NOT_FOUND_CODES_def DUPLICATE_COID_CODES_def AMBIGUOUS_DISPOSITION_CODES_def

section \<open>Benign rejects\<close>

text \<open>The functions on a \<^const>\<open>BybitAPIError\<close> take its message and its code.\<close>

definition is_trading_stop_zero_position_reject :: "string \<Rightarrow> int \<Rightarrow> bool" where
  "is_trading_stop_zero_position_reject msg ret_code \<longleftrightarrow>
     ret_code = 10001 \<and> has_substring ''zero position'' msg"

definition is_benign_trading_stop_reject :: "string \<Rightarrow> int \<Rightarrow> bool" where
  "is_benign_trading_stop_reject msg ret_code \<longleftrightarrow>
     (if ret_code = 34040 then True else is_trading_stop_zero_position_reject msg ret_code)"

definition is_trading_stop_level_crossed_reject :: "string \<Rightarrow> int \<Rightarrow> bool" where
  "is_trading_stop_level_crossed_reject msg ret_code \<longleftrightarrow>
     ret_code = 10001 \<and> has_substring ''base_price'' msg"

definition is_order_amend_unchanged_reject :: "string \<Rightarrow> int \<Rightarrow> bool" where
  "is_order_amend_unchanged_reject msg ret_code \<longleftrightarrow>
     ret_code = 10001 \<and> has_substring ''order not modified'' (lower msg)"

definition is_reduce_only_zero_position_reject :: "string \<Rightarrow> int \<Rightarrow> bool" where
  "is_reduce_only_zero_position_reject msg ret_code \<longleftrightarrow>
     ret_code = 110017 \<and> has_substring ''position is zero'' msg"

section \<open>Translation\<close>

definition map_broker_error :: "string \<Rightarrow> int \<Rightarrow> broker_error option" where
  "map_broker_error msg ret_code =
     (if ret_code \<in> set AUTH_ERROR_CODES
      then Some (AuthenticationError msg (''retCode='' @ int_str ret_code))
      else if ret_code \<in> set RATE_LIMIT_CODES then Some (ExchangeRateLimitError msg 1)
      else if ret_code = 10002 then Some (ExchangeConnectionError msg)
      else if ret_code \<in> set INSUFFICIENT_BALANCE_CODES then Some (InsufficientMarginError msg)
      else None)"

definition classify_read_error :: "bybit_error \<Rightarrow> broker_error" where
  "classify_read_error e =
     (case e of
        BybitAPIError msg ret_code \<Rightarrow>
          (case map_broker_error msg ret_code of
             Some mapped \<Rightarrow> mapped
           | None \<Rightarrow> ExchangeConnectionError (exc_str e))
      | _ \<Rightarrow> ExchangeConnectionError (exc_str e))"

definition reject_error :: "string \<Rightarrow> int \<Rightarrow> broker_error" where
  "reject_error msg ret_code = ExchangeOrderRejectedError msg"

text \<open>\<open>is_retryable_provider_error\<close> is the framework's: a parameter.\<close>

definition traceback_wanted :: "('e \<Rightarrow> bool) \<Rightarrow> 'e \<Rightarrow> bool" where
  "traceback_wanted is_retryable_provider_error e = (\<not> is_retryable_provider_error e)"

text \<open>Errors the engine waits out and retries.\<close>

fun transient :: "broker_error \<Rightarrow> bool" where
  "transient (ExchangeRateLimitError m w) = True"
| "transient (ExchangeConnectionError m) = True"
| "transient _ = False"

section \<open>Properties\<close>

text \<open>
  C6. Reads fail closed by class, and the class and message are exactly these: a credential reject is
  an authentication error with its code as the reason, a rate-limit reject a rate-limit error with the
  pause of one second, a balance reject a margin error, and every other failure of the plugin, API code
  or not, is a connection error; no read becomes an order reject. What the plugin marks retryable is in
  one of the two classes the engine waits out.
\<close>

theorem read_errors_keep_their_class:
  "(classify_read_error e = AuthenticationError m r \<longleftrightarrow>
      (\<exists>c. e = BybitAPIError m c \<and> c \<in> set AUTH_ERROR_CODES \<and> r = ''retCode='' @ int_str c)) \<and>
   (classify_read_error e = ExchangeRateLimitError m w \<longleftrightarrow>
      (\<exists>c. e = BybitAPIError m c \<and> c \<in> set RATE_LIMIT_CODES \<and> w = 1)) \<and>
   (classify_read_error e = InsufficientMarginError m \<longleftrightarrow>
      (\<exists>c. e = BybitAPIError m c \<and> c \<in> set INSUFFICIENT_BALANCE_CODES)) \<and>
   (classify_read_error e = ExchangeConnectionError m \<longleftrightarrow>
      m = exc_str e \<and>
      \<not> (\<exists>n c. e = BybitAPIError n c \<and>
           c \<in> set AUTH_ERROR_CODES \<union> set RATE_LIMIT_CODES \<union> set INSUFFICIENT_BALANCE_CODES)) \<and>
   classify_read_error e \<noteq> ExchangeOrderRejectedError m \<and>
   (retryable e \<longrightarrow> transient (classify_read_error e))"
  by (cases e)
    (auto simp: classify_read_error_def map_broker_error_def code_set_defs split: if_splits)

theorem read_errors_keep_their_class_witness:
  "classify_read_error (BybitAPIError ''busy'' 10006) = ExchangeRateLimitError ''busy'' 1 \<and>
   transient (classify_read_error (BybitAPIError ''busy'' 10006))"
  using read_errors_keep_their_class [of "BybitAPIError ''busy'' 10006" "''busy''" _ 1]
  by (simp add: code_set_defs)

text \<open>
  The codes that steer control flow stay out of the error translation: an ambiguous write, an
  order that does not exist, a duplicate client id and every benign reject translate to nothing,
  so no dispatch path loses its signal to a broker error; and no code has two meanings.
\<close>

theorem control_flow_codes_unmapped:
  assumes "c \<in> set AMBIGUOUS_DISPOSITION_CODES \<union> set ORDER_NOT_FOUND_CODES \<union> set DUPLICATE_COID_CODES \<or>
    is_benign_trading_stop_reject msg c \<or> is_trading_stop_level_crossed_reject msg c \<or>
    is_order_amend_unchanged_reject msg c \<or> is_reduce_only_zero_position_reject msg c"
  shows "map_broker_error msg c = None \<and>
    distinct (AUTH_ERROR_CODES @ RATE_LIMIT_CODES @ [10002] @ INSUFFICIENT_BALANCE_CODES @
      ORDER_NOT_FOUND_CODES @ DUPLICATE_COID_CODES @ AMBIGUOUS_DISPOSITION_CODES @ [10001, 34040, 110017])"
  using assms
  by (auto simp: map_broker_error_def code_set_defs is_benign_trading_stop_reject_def
      is_trading_stop_zero_position_reject_def is_trading_stop_level_crossed_reject_def
      is_order_amend_unchanged_reject_def is_reduce_only_zero_position_reject_def split: if_splits)

theorem control_flow_codes_unmapped_witness:
  "map_broker_error ''can not set tp/sl/ts for zero position'' 10001 = None"
proof -
  have "is_benign_trading_stop_reject ''can not set tp/sl/ts for zero position'' 10001"
    by (simp add: is_benign_trading_stop_reject_def is_trading_stop_zero_position_reject_def
        starts_with_def)
  then show ?thesis by (rule control_flow_codes_unmapped [THEN conjunct1, OF disjI2, OF disjI1])
qed

end
