(* ===== verification/Hosts.thy ===== *)
theory Hosts
  imports Errors
begin

text \<open>
  Model of \<^verbatim>\<open>src/src/pynecore_bybit/hosts.py\<close>: the region tables and the resolver. The tables are
  association lists in the source's order.
\<close>

record bybit_hosts =
  bh_rest :: string
  bh_ws_public :: "string option"
  bh_ws_private :: "string option"

definition mk_hosts :: "string \<Rightarrow> string option \<Rightarrow> string option \<Rightarrow> bybit_hosts" where
  "mk_hosts r p v = \<lparr>bh_rest = r, bh_ws_public = p, bh_ws_private = v\<rparr>"

definition LIVE :: "(string \<times> bybit_hosts) list" where
  "LIVE =
    [(''global'', mk_hosts ''api.bybit.com'' (Some ''stream.bybit.com'') (Some ''stream.bybit.com'')),
     (''eu'', mk_hosts ''api.bybit.eu'' (Some ''stream.bybit.eu'') (Some ''stream.bybit.eu'')),
     (''nl'', mk_hosts ''api.bybit.nl'' None None),
     (''tr'', mk_hosts ''api.bybit.tr'' (Some ''stream.bybit.tr'') (Some ''stream.bybit.tr'')),
     (''kz'', mk_hosts ''api.bybit.kz'' (Some ''stream.bybit.kz'') (Some ''stream.bybit.kz'')),
     (''ge'', mk_hosts ''api.bybitgeorgia.ge'' (Some ''stream.bybitgeorgia.ge'')
                (Some ''stream.bybitgeorgia.ge'')),
     (''ae'', mk_hosts ''api.bybit.ae'' None None),
     (''id'', mk_hosts ''api.bybit.id'' (Some ''stream.bybit.id'') (Some ''stream.bybit.id'')),
     (''testnet'', mk_hosts ''api-testnet.bybit.com'' None None)]"

definition DEMO :: "(string \<times> bybit_hosts) list" where
  "DEMO =
    [(''global'', mk_hosts ''api-demo.bybit.com'' (Some ''stream.bybit.com'')
                    (Some ''stream-demo.bybit.com'')),
     (''eu'', mk_hosts ''api-demo.bybit.eu'' (Some ''stream.bybit.eu'') (Some ''stream-demo.bybit.eu''))]"

definition REGIONS :: "string list" where
  "REGIONS = [''global'', ''eu'', ''nl'', ''tr'', ''kz'', ''ge'', ''ae'', ''id'', ''testnet'']"

definition str_or :: "string \<Rightarrow> string \<Rightarrow> string" where
  "str_or a b = (if a \<noteq> [] then a else b)"

definition opt_or :: "string \<Rightarrow> string option \<Rightarrow> string option" where
  "opt_or a b = (if a \<noteq> [] then Some a else b)"

definition resolve_hosts ::
    "string \<Rightarrow> bool \<Rightarrow> string \<Rightarrow> string \<Rightarrow> string \<Rightarrow> py_error + bybit_hosts" where
  "resolve_hosts region demo rest_host ws_public_host ws_private_host =
     (if region \<notin> set REGIONS then Inl ValueErr
      else
        case map_of (if demo then DEMO else LIVE) region of
          None \<Rightarrow>
            (if \<not> (rest_host \<noteq> [] \<and> ws_public_host \<noteq> [] \<and> ws_private_host \<noteq> []) then Inl ValueErr
             else Inr (mk_hosts rest_host (Some ws_public_host) (Some ws_private_host)))
        | Some base \<Rightarrow>
            Inr (mk_hosts (str_or rest_host (bh_rest base))
                  (opt_or ws_public_host (bh_ws_public base))
                  (opt_or ws_private_host (bh_ws_private base))))"

lemma live_covers_regions: "set REGIONS = fst ` set LIVE"
  by (simp add: REGIONS_def LIVE_def)

text \<open>The stream hosts of a live table row come in pairs; a demo row has both.\<close>

lemma table_hosts:
  "map_of LIVE r = Some h \<Longrightarrow> bh_rest h \<noteq> [] \<and> (bh_ws_public h = None \<longleftrightarrow> bh_ws_private h = None)"
  "map_of DEMO r = Some h \<Longrightarrow> bh_rest h \<noteq> [] \<and> bh_ws_public h \<noteq> None \<and> bh_ws_private h \<noteq> None"
  by (auto simp: LIVE_def DEMO_def mk_hosts_def split: if_splits)

text \<open>
  The resolver never guesses: an override always wins and is used unchanged, what is not
  overridden comes from the table of the selected mode, it fails exactly for an unknown region or
  for a region outside that table without all three overrides, and a live region never fails.
\<close>

theorem resolve_hosts_never_guesses:
  "case resolve_hosts region demo rest pub priv of
     Inl e \<Rightarrow> e = ValueErr \<and>
       (region \<notin> set REGIONS \<or>
        demo \<and> map_of DEMO region = None \<and> (rest = [] \<or> pub = [] \<or> priv = []))
   | Inr h \<Rightarrow> region \<in> set REGIONS \<and> bh_rest h \<noteq> [] \<and>
       (case map_of (if demo then DEMO else LIVE) region of
          None \<Rightarrow> bh_rest h = rest \<and> bh_ws_public h = Some pub \<and> bh_ws_private h = Some priv
        | Some b \<Rightarrow> bh_rest h \<in> {rest, bh_rest b} \<and>
            bh_ws_public h = (if pub = [] then bh_ws_public b else Some pub) \<and>
            bh_ws_private h = (if priv = [] then bh_ws_private b else Some priv) \<and>
            (rest = [] \<or> bh_rest h = rest))"
proof (cases "region \<in> set REGIONS")
  case False
  then show ?thesis by (simp add: resolve_hosts_def)
next
  case True
  then have live: "map_of LIVE region \<noteq> None" using live_covers_regions by (auto simp: map_of_eq_None_iff)
  show ?thesis
  proof (cases "map_of (if demo then DEMO else LIVE) region")
    case None
    then have "demo" "map_of DEMO region = None" using live by (auto split: if_splits)
    then show ?thesis using True by (auto simp: resolve_hosts_def mk_hosts_def)
  next
    case (Some b)
    then have "bh_rest b \<noteq> []" using table_hosts by (metis (full_types))
    then show ?thesis
      using True Some by (simp add: resolve_hosts_def mk_hosts_def str_or_def opt_or_def)
  qed
qed

theorem resolve_hosts_never_guesses_witness:
  "resolve_hosts ''ae'' True [] [] [] = Inl ValueErr \<and>
   bh_ws_public (mk_hosts ''api.bybit.eu'' (Some ''x'') (Some ''stream.bybit.eu'')) = Some ''x''"
  using resolve_hosts_never_guesses [of "''ae''" True "[]" "[]" "[]"]
    resolve_hosts_never_guesses [of "''eu''" False "[]" "''x''" "[]"]
  by (simp add: resolve_hosts_def REGIONS_def LIVE_def DEMO_def mk_hosts_def str_or_def opt_or_def)

end
