(* ===== verification/Calendar.thy ===== *)
theory Calendar
  imports Errors
begin

text \<open>
  Bar times of \<^verbatim>\<open>src/src/pynecore_bybit/helpers.py\<close>: the interval tables, \<open>add_interval\<close> and
  \<open>bar_close_ts\<close>. Fixed intervals advance arithmetically, any other interval by calendar months in
  UTC. The part of Python's \<open>datetime\<close> this uses (the proleptic Gregorian calendar with years 1 to
  9999) is written out; times are epoch milliseconds.

  The locale \<open>bar_clock\<close> is what the download and backfill loops need of it: the next bar opens
  strictly later. It is interpreted on \<open>add_interval\<close> at the end.
\<close>

section \<open>Tables\<close>

definition TIMEFRAMES :: "(string \<times> string) list" where
  "TIMEFRAMES =
     [(''1'', ''1''), (''3'', ''3''), (''5'', ''5''), (''15'', ''15''), (''30'', ''30''),
      (''60'', ''60''), (''120'', ''120''), (''240'', ''240''), (''360'', ''360''),
      (''720'', ''720''), (''1D'', ''D''), (''1W'', ''W''), (''1M'', ''M'')]"

definition TIMEFRAMES_INV :: "(string \<times> string) list" where
  "TIMEFRAMES_INV = map prod.swap TIMEFRAMES"

definition INTERVAL_MS :: "(string \<times> int) list" where
  "INTERVAL_MS =
     [(''1'', 60000), (''3'', 180000), (''5'', 300000), (''15'', 900000), (''30'', 1800000),
      (''60'', 3600000), (''120'', 7200000), (''240'', 14400000), (''360'', 21600000),
      (''720'', 43200000), (''D'', 86400000), (''W'', 604800000)]"

lemma interval_ms_pos: "map_of INTERVAL_MS i = Some ms \<Longrightarrow> ms > 0"
  by (auto simp: INTERVAL_MS_def split: if_splits)

section \<open>The Gregorian calendar of \<open>datetime\<close>\<close>

text \<open>Ordinal 1 is 1 January of year 1. \<open>days_before_year y\<close> is the ordinal before 1 January of \<open>y\<close>.\<close>

definition is_leap :: "int \<Rightarrow> bool" where
  "is_leap y \<longleftrightarrow> y mod 4 = 0 \<and> (y mod 100 \<noteq> 0 \<or> y mod 400 = 0)"

definition days_before_year :: "int \<Rightarrow> int" where
  "days_before_year y = (y - 1) * 365 + (y - 1) div 4 - (y - 1) div 100 + (y - 1) div 400"

definition days_before_month :: "int \<Rightarrow> int \<Rightarrow> int" where
  "days_before_month y m =
     [0, 31, 59, 90, 120, 151, 181, 212, 243, 273, 304, 334] ! nat (m - 1) +
     (if m > 2 \<and> is_leap y then 1 else 0)"

definition EPOCH_ORDINAL :: int where "EPOCH_ORDINAL = 719163"

definition MAX_ORDINAL :: int where "MAX_ORDINAL = 3652059"

definition DAY_MS :: int where "DAY_MS = 86400000"

definition year_of :: "int \<Rightarrow> int" where
  "year_of ord =
     (let y = (400 * (ord - 1)) div 146097 + 1
      in if days_before_year (y + 1) < ord then y + 1
         else if ord \<le> days_before_year y then y - 1
         else y)"

text \<open>The last of the first \<open>n\<close> months that starts before day \<open>d\<close> of the year.\<close>

fun find_month :: "int \<Rightarrow> int \<Rightarrow> nat \<Rightarrow> nat" where
  "find_month y d 0 = 1"
| "find_month y d (Suc n) =
     (if n = 0 \<or> days_before_month y (int (Suc n)) < d then Suc n else find_month y d n)"

definition month_of :: "int \<Rightarrow> int \<Rightarrow> int" where
  "month_of y doy = int (find_month y doy 12)"

lemma div_pred: "y div k = (y - 1) div k + (if y mod k = 0 then 1 else 0)"
  if "k > 0" for y k :: int
proof -
  let ?r = "(y - 1) mod k"
  have split: "y = k * ((y - 1) div k) + (?r + 1)" by (simp add: mult_div_mod_eq)
  have r: "0 \<le> ?r" "?r < k" using that by simp_all
  show ?thesis
  proof (cases "?r + 1 = k")
    case True
    then have "y = k * ((y - 1) div k + 1) + 0" using split by (simp add: algebra_simps)
    then have "y div k = (y - 1) div k + 1" "y mod k = 0"
      using that int_div_pos_eq int_mod_pos_eq by blast+
    then show ?thesis by simp
  next
    case False
    then have "0 \<le> ?r + 1" "?r + 1 < k" using r by simp_all
    then have "y div k = (y - 1) div k" "y mod k = ?r + 1"
      using int_div_pos_eq [OF split] int_mod_pos_eq [OF split] by simp_all
    then show ?thesis using r by simp
  qed
qed

lemma leap_count:
  "(b \<Longrightarrow> a) \<Longrightarrow> (c \<Longrightarrow> b) \<Longrightarrow>
   (if a then 1 else 0) - (if b then 1 else 0) + (if c then 1 else 0) =
   (if a \<and> (\<not> b \<or> c) then 1 else (0 :: int))"
  by (cases a; cases b; cases c) simp_all

lemma year_days:
  "a - b + c = d \<Longrightarrow>
   y * 365 + (q4 + a) - (q100 + b) + (q400 + c) = (y - 1) * 365 + q4 - q100 + q400 + (365 + d)"
  for y q4 q100 q400 :: int
  by (simp only: left_diff_distrib mult_1)

lemma days_before_year_succ:
  "days_before_year (y + 1) = days_before_year y + (if is_leap y then 366 else 365)"
proof -
  have steps: "y div 4 = (y - 1) div 4 + (if y mod 4 = 0 then 1 else 0)"
    "y div 100 = (y - 1) div 100 + (if y mod 100 = 0 then 1 else 0)"
    "y div 400 = (y - 1) div 400 + (if y mod 400 = 0 then 1 else 0)"
    by (rule div_pred, simp)+
  have nested: "y mod 100 = 0 \<Longrightarrow> y mod 4 = 0" "y mod 400 = 0 \<Longrightarrow> y mod 100 = 0"
    using dvd_trans [of 4 100 y] dvd_trans [of 100 400 y] by (simp_all add: mod_eq_0_iff_dvd)
  have succ: "days_before_year (y + 1) = y * 365 + y div 4 - y div 100 + y div 400"
    by (simp add: days_before_year_def)
  have count: "(if y mod 4 = 0 then 1 else 0) - (if y mod 100 = 0 then 1 else 0) +
      (if y mod 400 = 0 then 1 else 0) = (if is_leap y then 1 else (0 :: int))"
    unfolding is_leap_def by (rule leap_count) (fact nested)+
  show ?thesis
    unfolding succ steps days_before_year_def [of y] year_days [OF count] by simp
qed

lemma div_bounds: "k > 0 \<Longrightarrow> k * (z div k) \<le> z \<and> z < k * (z div k) + k" for z k :: int
  using mult_div_mod_eq [of k z] pos_mod_sign [of k z] pos_mod_bound [of k z] by linarith

lemma days_before_year_bounds:
  "146097 * (y - 1) - 699 \<le> 400 * days_before_year y"
  "400 * days_before_year y \<le> 146097 * (y - 1) + 396"
  using div_bounds [of 4 "y - 1"] div_bounds [of 100 "y - 1"] div_bounds [of 400 "y - 1"]
  by (simp_all add: days_before_year_def)

lemma year_of_bounds: "days_before_year (year_of ord) < ord \<and> ord \<le> days_before_year (year_of ord + 1)"
proof -
  define z where "z = (400 * (ord - 1)) div 146097"
  have z: "146097 * z \<le> 400 * (ord - 1)" "400 * (ord - 1) < 146097 * (z + 1)"
    using div_bounds [of 146097 "400 * (ord - 1)"] by (simp_all add: z_def algebra_simps)
  have "days_before_year z < ord" "ord \<le> days_before_year (z + 3)"
    using z days_before_year_bounds [of z] days_before_year_bounds [of "z + 3"] by simp_all
  moreover have "year_of ord =
      (if days_before_year (z + 2) < ord then z + 2
       else if ord \<le> days_before_year (z + 1) then z else z + 1)"
    unfolding year_of_def Let_def z_def [symmetric] by (simp add: add.commute)
  ultimately show ?thesis by (simp add: algebra_simps)
qed


section \<open>Month numbers\<close>

text \<open>
  Months are counted from January of year 0: \<open>year * 12 + (month - 1)\<close>, the index the source
  computes with. \<open>month_days i\<close> is the ordinal before the first day of month \<open>i\<close>.
\<close>

definition month_days :: "int \<Rightarrow> int" where
  "month_days i = days_before_year (i div 12) + days_before_month (i div 12) (i mod 12 + 1)"

definition month_index_of :: "int \<Rightarrow> int" where
  "month_index_of ord =
     (let y = year_of ord in y * 12 + (month_of y (ord - days_before_year y) - 1))"

lemma days_before_month_table:
  "days_before_month y 1 = 0" "days_before_month y 2 = 31"
  "days_before_month y 3 = 59 + (if is_leap y then 1 else 0)"
  "days_before_month y 4 = 90 + (if is_leap y then 1 else 0)"
  "days_before_month y 5 = 120 + (if is_leap y then 1 else 0)"
  "days_before_month y 6 = 151 + (if is_leap y then 1 else 0)"
  "days_before_month y 7 = 181 + (if is_leap y then 1 else 0)"
  "days_before_month y 8 = 212 + (if is_leap y then 1 else 0)"
  "days_before_month y 9 = 243 + (if is_leap y then 1 else 0)"
  "days_before_month y 10 = 273 + (if is_leap y then 1 else 0)"
  "days_before_month y 11 = 304 + (if is_leap y then 1 else 0)"
  "days_before_month y 12 = 334 + (if is_leap y then 1 else 0)"
  by (simp_all add: days_before_month_def)

lemma days_before_month_less:
  assumes "1 \<le> m" "m \<le> 11"
  shows "days_before_month y m < days_before_month y (m + 1)"
proof -
  have "m = 1 \<or> m = 2 \<or> m = 3 \<or> m = 4 \<or> m = 5 \<or> m = 6 \<or> m = 7 \<or> m = 8 \<or> m = 9 \<or> m = 10 \<or> m = 11"
    using assms by presburger
  then show ?thesis by (elim disjE) (simp_all add: days_before_month_table)
qed

lemma month_days_at:
  assumes "1 \<le> m" "m \<le> 12"
  shows "month_days (y * 12 + (m - 1)) = days_before_year y + days_before_month y m"
proof -
  have "(y * 12 + (m - 1)) div 12 = y" "(y * 12 + (m - 1)) mod 12 = m - 1"
    using assms by (simp_all add: div_mult_self3 int_div_pos_eq int_mod_pos_eq)
  then show ?thesis by (simp only: month_days_def diff_add_cancel)
qed

lemma month_of_index: obtains y m where "i = y * 12 + (m - 1)" "1 \<le> m" "m \<le> (12 :: int)"
proof (rule that [of "i div 12" "i mod 12 + 1"])
  show "i = i div 12 * 12 + (i mod 12 + 1 - 1)" by simp
qed (use pos_mod_bound [of 12 i] in simp_all)

lemma month_days_next:
  assumes "1 \<le> m" "m \<le> 12"
  shows "month_days (y * 12 + (m - 1) + 1) =
    (if m = 12 then days_before_year (y + 1) else days_before_year y + days_before_month y (m + 1))"
proof (cases "m = 12")
  case True
  then have "month_days (y * 12 + (m - 1) + 1) = month_days ((y + 1) * 12 + (1 - 1))"
    by (simp add: algebra_simps)
  then show ?thesis using month_days_at [of 1 "y + 1"] True by (simp add: days_before_month_table)
next
  case False
  then have "month_days (y * 12 + (m - 1) + 1) = month_days (y * 12 + ((m + 1) - 1))"
    by (simp add: algebra_simps)
  then show ?thesis using month_days_at [of "m + 1" y] assms False by simp
qed

lemma month_days_Suc: "month_days i < month_days (i + 1)"
proof -
  obtain y m where i: "i = y * 12 + (m - 1)" "1 \<le> m" "m \<le> 12" by (rule month_of_index)
  show ?thesis
  proof (cases "m = 12")
    case True
    then show ?thesis
      using i month_days_at [of m y] month_days_next [of m y] days_before_year_succ [of y]
      by (simp add: days_before_month_table)
  next
    case False
    then show ?thesis
      using i month_days_at [of m y] month_days_next [of m y] days_before_month_less [of m y] by simp
  qed
qed

lemma month_days_less: "i < j \<Longrightarrow> month_days i < month_days j"
proof (induction "nat (j - i)" arbitrary: j)
  case 0
  then show ?case by simp
next
  case (Suc n)
  show ?case
  proof (cases "i = j - 1")
    case True
    then show ?thesis using month_days_Suc [of i] by simp
  next
    case False
    then have "month_days i < month_days (j - 1)" using Suc by simp
    then show ?thesis using month_days_Suc [of "j - 1"] by simp
  qed
qed

lemma month_days_less_iff: "month_days i < month_days j \<longleftrightarrow> i < j"
  using month_days_less [of i j] month_days_less [of j i] by (cases i j rule: linorder_cases) auto

lemma find_month:
  assumes "days_before_month y 1 < d" "n \<ge> 1"
  shows "1 \<le> find_month y d n \<and> find_month y d n \<le> n \<and>
    days_before_month y (int (find_month y d n)) < d \<and>
    (find_month y d n = n \<or> d \<le> days_before_month y (int (find_month y d n) + 1))"
  using assms(2)
proof (induction n)
  case 0
  then show ?case by simp
next
  case (Suc n)
  show ?case
  proof (cases "n = 0")
    case True
    then show ?thesis using assms(1) by simp
  next
    case False
    then show ?thesis using Suc by (auto simp: not_less add.commute)
  qed
qed

text \<open>The month an ordinal lies in, exactly.\<close>

lemma month_index_of_bounds:
  "month_days (month_index_of ord) < ord \<and> ord \<le> month_days (month_index_of ord + 1)"
proof -
  define y where "y = year_of ord"
  define d where "d = ord - days_before_year y"
  have y: "0 < d" "ord \<le> days_before_year (y + 1)"
    using year_of_bounds [of ord] by (simp_all add: d_def y_def)
  define m where "m = month_of y d"
  have m: "1 \<le> m" "m \<le> 12" "days_before_month y m < d" "m = 12 \<or> d \<le> days_before_month y (m + 1)"
    using find_month [of y d 12] y(1) by (auto simp: m_def month_of_def days_before_month_table)
  have "month_index_of ord = y * 12 + (m - 1)"
    by (simp add: month_index_of_def y_def d_def m_def Let_def)
  then show ?thesis
    using month_days_at [OF m(1,2), of y] month_days_next [OF m(1,2), of y] m(3,4) y(2) d_def
    by auto
qed

lemma month_index_of_first: "month_index_of (month_days i + 1) = i"
proof -
  let ?j = "month_index_of (month_days i + 1)"
  have "month_days ?j < month_days i + 1" "month_days i < month_days (?j + 1)"
    using month_index_of_bounds [of "month_days i + 1"] by simp_all
  then have "?j \<le> i" "i < ?j + 1"
    using month_days_less_iff [of i ?j] month_days_less_iff [of i "?j + 1"] by linarith+
  then show ?thesis by simp
qed

section \<open>Advancing by bars\<close>

text \<open>\<open>datetime.fromtimestamp\<close>, as far as year and month go, and the month start's timestamp.\<close>

definition ordinal_of_ms :: "int \<Rightarrow> py_error + int" where
  "ordinal_of_ms ts =
     (let ord = ts div DAY_MS + EPOCH_ORDINAL
      in if 1 \<le> ord \<and> ord \<le> MAX_ORDINAL then Inr ord else Inl ValueErr)"

definition month_start_ms :: "int \<Rightarrow> py_error + int" where
  "month_start_ms i =
     (if 1 \<le> i div 12 \<and> i div 12 \<le> 9999
      then Inr ((month_days i + 1 - EPOCH_ORDINAL) * DAY_MS)
      else Inl ValueErr)"

definition add_interval :: "int \<Rightarrow> string \<Rightarrow> int \<Rightarrow> py_error + int" where
  "add_interval ts interval n =
     (case map_of INTERVAL_MS interval of
        Some step_ms \<Rightarrow> Inr (ts + n * step_ms)
      | None \<Rightarrow>
          res_bind (ordinal_of_ms ts) (\<lambda>ord. month_start_ms (month_index_of ord + n)))"

definition bar_close_ts :: "int \<Rightarrow> string \<Rightarrow> py_error + int" where
  "bar_close_ts bar_start interval = add_interval bar_start interval 1"

lemma month_start_next:
  assumes "ordinal_of_ms ts = Inr ord" and "month_start_ms (month_index_of ord + n) = Inr t" and "n \<ge> 1"
  shows "ts < t"
proof -
  have "ord \<le> month_days (month_index_of ord + 1)" using month_index_of_bounds by blast
  also have "\<dots> \<le> month_days (month_index_of ord + n)"
    using month_days_less [of "month_index_of ord + 1" "month_index_of ord + n"] assms(3)
    by (cases "n = 1") auto
  finally have "ts div DAY_MS + 1 \<le> month_days (month_index_of ord + n) + 1 - EPOCH_ORDINAL"
    using assms(1) by (auto simp: ordinal_of_ms_def Let_def split: if_splits)
  then have "DAY_MS * (ts div DAY_MS + 1) \<le> t"
    using assms(2) by (auto simp: month_start_ms_def DAY_MS_def split: if_splits)
  then show ?thesis using div_bounds [of DAY_MS ts] by (simp add: DAY_MS_def algebra_simps)
qed

lemma add_interval_later: "add_interval ts i n = Inr t \<Longrightarrow> n \<ge> 1 \<Longrightarrow> ts < t"
  using month_start_next interval_ms_pos
  by (fastforce simp: add_interval_def res_bind_Inr_iff split: option.splits)

lemma month_days_ends: "month_days 12 = 0" "month_days 120000 = 3652059"
  by (simp_all add: month_days_def days_before_year_def days_before_month_table)

lemma month_start_ordinal:
  assumes "month_start_ms i = Inr t"
  shows "ordinal_of_ms t = Inr (month_days i + 1)"
proof -
  have i: "12 \<le> i" "i < 120000"
    using assms div_bounds [of 12 i] by (auto simp: month_start_ms_def split: if_splits)
  have "0 \<le> month_days i" "month_days i < MAX_ORDINAL"
    using month_days_less_iff [of i 12] month_days_less_iff [of i 120000] i month_days_ends
    by (auto simp: not_less [symmetric] MAX_ORDINAL_def)
  moreover have "t = (month_days i + 1 - EPOCH_ORDINAL) * DAY_MS"
    using assms by (simp add: month_start_ms_def split: if_splits)
  ultimately show ?thesis by (simp add: ordinal_of_ms_def DAY_MS_def Let_def)
qed

section \<open>The clock interface\<close>

text \<open>
  What the window loops need of the bar clock: the open of the next bar, when it exists, is later.
  A loop that moves its cursor at least that far comes closer to any end it has not reached.
\<close>

locale bar_clock =
  fixes nxt :: "int \<Rightarrow> 'e + int"
  assumes later: "nxt t = Inr t' \<Longrightarrow> t < t'"
begin

lemma progress: "nxt c = Inr c' \<Longrightarrow> c' \<le> d \<Longrightarrow> c < e \<Longrightarrow> nat (e - d) < nat (e - c)"
  using later by fastforce

lemma never_repeats: "nxt t \<noteq> Inr t"
  using later by blast

end

interpretation bar_clock "\<lambda>ts. bar_close_ts ts interval" for interval
  by unfold_locales (simp add: bar_close_ts_def add_interval_later)

section \<open>Properties\<close>

text \<open>
  Advancing by \<open>a\<close> bars and then by \<open>b\<close> is advancing by \<open>a + b\<close>, on fixed intervals and on
  calendar months alike (leap years and year ends included), from any instant.
\<close>

theorem add_interval_add:
  assumes "add_interval ts interval a = Inr t"
  shows "add_interval t interval b = add_interval ts interval (a + b)"
proof (cases "map_of INTERVAL_MS interval")
  case (Some ms)
  then show ?thesis using assms by (auto simp: add_interval_def algebra_simps)
next
  case None
  then obtain ord where ord: "ordinal_of_ms ts = Inr ord" "month_start_ms (month_index_of ord + a) = Inr t"
    using assms by (auto simp: add_interval_def res_bind_Inr_iff)
  have "add_interval t interval b = month_start_ms (month_index_of ord + a + b)"
    using None month_start_ordinal [OF ord(2)] by (simp add: add_interval_def month_index_of_first)
  then show ?thesis using None ord(1) by (simp add: add_interval_def add.assoc)
qed

theorem add_interval_add_witness:
  "add_interval 951868800000 ''M'' 12 = add_interval 949363200000 ''M'' 13"
proof -
  have "add_interval 949363200000 ''M'' 1 = Inr 951868800000" by code_simp
  from add_interval_add [OF this, of 12] show ?thesis by simp
qed

text \<open>
  A bar closes strictly after it opens, and a monthly bar closes at the first instant of the
  next month: that instant is a month start, and the month before it is the one the bar lies in.
\<close>

theorem bar_close_later:
  assumes "bar_close_ts ts interval = Inr t"
  shows "ts < t \<and>
    (map_of INTERVAL_MS interval = None \<longrightarrow>
      (\<exists>i. month_start_ms (i + 1) = Inr t \<and>
        month_days i < ts div DAY_MS + EPOCH_ORDINAL \<and>
        ts div DAY_MS + EPOCH_ORDINAL \<le> month_days (i + 1)))"
  using later [OF assms] assms month_index_of_bounds
  by (auto simp: bar_close_ts_def add_interval_def res_bind_Inr_iff ordinal_of_ms_def Let_def
      split: if_splits)

theorem bar_close_later_witness:
  "1706702400000 < (1706745600000 :: int) \<and> (\<exists>i. month_start_ms (i + 1) = Inr 1706745600000)"
proof -
  have "bar_close_ts 1706702400000 ''M'' = Inr 1706745600000" by code_simp
  from bar_close_later [OF this] show ?thesis by (auto simp: INTERVAL_MS_def)
qed

end
