(* ===== verification/Helpers.thy ===== *)
theory Helpers
  imports Calendar
begin

text \<open>
  The decimal grid and identifier helpers of \<^verbatim>\<open>src/src/pynecore_bybit/helpers.py\<close>. A
  \<open>decimal.Decimal\<close> result is its exact value; only \<open>format_decimal\<close>, whose subject is the
  representation, works on the coefficient and exponent of the number. Division is exact (the
  context's 28 digits are not modelled), \<open>quantize\<close> raises when its result needs more than 28
  digits, as the context makes it.
\<close>

section \<open>Grids\<close>

text \<open>\<open>ROUND_HALF_UP\<close> rounds halves away from zero, \<open>ROUND_DOWN\<close> truncates.\<close>

definition round_half_up :: "rat \<Rightarrow> int" where
  "round_half_up x = (if x \<ge> 0 then \<lfloor>x + 1 / 2\<rfloor> else - \<lfloor>- x + 1 / 2\<rfloor>)"

definition quantize_nano :: "rat \<Rightarrow> py_error + rat" where
  "quantize_nano x =
     (let n = round_half_up (x * 10 ^ 9)
      in if \<bar>n\<bar> \<ge> 10 ^ 28 then Inl InvalidOperation else Inr (of_int n / 10 ^ 9))"

text \<open>
  \<open>step <= 0\<close> with a step that is not a number raises; an infinite step makes the ratio 0 and
  \<open>0 * Infinity\<close> raises; a negative infinite one counts as no grid.
\<close>

definition floor_to_step :: "rat \<Rightarrow> string \<Rightarrow> py_error + rat" where
  "floor_to_step v step_str =
     res_bind (parse_dec step_str) (\<lambda>step. case step of
        NaN \<Rightarrow> Inl InvalidOperation
      | PosInf \<Rightarrow> Inl InvalidOperation
      | NegInf \<Rightarrow> Inr v
      | Fin s \<Rightarrow>
          if s \<le> 0 then Inr v
          else res_bind (quantize_nano (v / s)) (\<lambda>ratio. Inr (of_int (trunc ratio) * s)))"

definition quantize_qty :: "rat \<Rightarrow> string \<Rightarrow> py_error + rat" where
  "quantize_qty qty step_str = floor_to_step qty step_str"

definition base_to_contracts :: "rat \<Rightarrow> rat \<Rightarrow> string \<Rightarrow> py_error + rat" where
  "base_to_contracts qty price step_str = floor_to_step (qty * price) step_str"

definition base_to_contracts_reduce :: "rat \<Rightarrow> rat \<Rightarrow> string \<Rightarrow> py_error + rat" where
  "base_to_contracts_reduce qty price step_str =
     res_bind (parse_dec step_str) (\<lambda>step. case step of
        NaN \<Rightarrow> Inl InvalidOperation
      | PosInf \<Rightarrow> Inl InvalidOperation
      | NegInf \<Rightarrow> Inr (qty * price)
      | Fin s \<Rightarrow>
          if s \<le> 0 then Inr (qty * price)
          else Inr (of_int (round_half_up (qty * price / s)) * s))"

definition contracts_to_base :: "rat \<Rightarrow> rat \<Rightarrow> py_error + rat" where
  "contracts_to_base contracts price =
     (if price = 0 then Inl (if contracts = 0 then InvalidOperation else DivisionByZeroErr)
      else Inr (contracts / price))"

definition round_price :: "rat \<Rightarrow> string \<Rightarrow> py_error + rat" where
  "round_price price tick_str =
     res_bind (parse_dec tick_str) (\<lambda>tick. case tick of
        NaN \<Rightarrow> Inl InvalidOperation
      | PosInf \<Rightarrow> Inl InvalidOperation
      | NegInf \<Rightarrow> Inr price
      | Fin t \<Rightarrow>
          if t \<le> 0 then Inr price
          else Inr (of_int (round_half_up (price / t)) * t))"

subsection \<open>Rounding\<close>

lemma floor_half_near: "\<bar>of_int \<lfloor>x + 1 / 2\<rfloor> - x\<bar> \<le> 1 / 2" for x :: rat
  using floor_correct [of "x + 1 / 2"] unfolding abs_le_iff by (simp only: of_int_add of_int_1) linarith

lemma round_half_up_near: "\<bar>of_int (round_half_up x) - x\<bar> \<le> 1 / 2"
proof (cases "x \<ge> 0")
  case True
  then show ?thesis using floor_half_near [of x] by (simp add: round_half_up_def)
next
  case False
  have "\<bar>of_int (- \<lfloor>- x + 1 / 2\<rfloor>) - x\<bar> = \<bar>of_int \<lfloor>- x + 1 / 2\<rfloor> - (- x)\<bar>" by simp
  then show ?thesis using False floor_half_near [of "- x"] by (simp only: round_half_up_def if_False)
qed

lemma round_half_up_of_int [simp]: "round_half_up (of_int k) = k"
proof -
  have "\<lfloor>of_int k + 1 / 2 :: rat\<rfloor> = k" "\<lfloor>- of_int k + 1 / 2 :: rat\<rfloor> = - k"
    by (simp_all add: floor_eq_iff)
  then show ?thesis by (simp add: round_half_up_def)
qed

lemma trunc_of_int [simp]: "trunc (of_int k) = k"
  by (simp add: trunc_def)

lemma trunc_bounds:
  "x \<ge> 0 \<Longrightarrow> of_int (trunc x) \<le> x \<and> x < of_int (trunc x) + 1"
  "x \<le> 0 \<Longrightarrow> x \<le> of_int (trunc x) \<and> of_int (trunc x) - 1 < x"
  using floor_correct [of x] ceiling_correct [of x] by (auto simp: trunc_def)

lemma quantize_nano_near:
  assumes "quantize_nano x = Inr r"
  shows "\<bar>r - x\<bar> \<le> 1 / (2 * 10 ^ 9)"
proof -
  define N :: rat where "N = 10 ^ 9"
  define n where "n = round_half_up (x * N)"
  have N: "N > 0" by (simp add: N_def)
  have "r = of_int n / N"
    using assms unfolding quantize_nano_def Let_def N_def [symmetric] n_def [symmetric]
    by (simp split: if_splits)
  then have "of_int n - x * N = (r - x) * N" using N by (simp add: left_diff_distrib)
  then have "\<bar>r - x\<bar> * N \<le> 1 / 2"
    using round_half_up_near [of "x * N"] N by (simp add: n_def [symmetric] abs_mult)
  then show ?thesis using N by (simp add: N_def field_simps)
qed

lemma quantize_nano_of_int:
  assumes "\<bar>k\<bar> < 10 ^ 19"
  shows "quantize_nano (of_int k) = Inr (of_int k)"
proof -
  have "(of_int k :: rat) * 10 ^ 9 = of_int (k * 10 ^ 9)" by simp
  then have n: "round_half_up ((of_int k :: rat) * 10 ^ 9) = k * 10 ^ 9"
    by (simp only: round_half_up_of_int)
  have "\<bar>k * 10 ^ 9\<bar> = \<bar>k\<bar> * 10 ^ 9" by (simp add: abs_mult)
  then have "\<not> \<bar>k * 10 ^ 9\<bar> \<ge> 10 ^ 28" using assms by simp
  then show ?thesis unfolding quantize_nano_def n Let_def by simp
qed

lemma floor_to_step_grid:
  assumes "floor_to_step v step_str = Inr r" and "parse_dec step_str = Inr (Fin s)" and "s > 0"
  obtains k q where "r = of_int k * s" "quantize_nano (v / s) = Inr q" "k = trunc q"
  using assms by (auto simp: floor_to_step_def res_bind_Inr_iff not_le)

lemma trunc_nano:
  assumes "quantize_nano x = Inr q" and "x \<ge> 0"
  shows "0 \<le> trunc q \<and> of_int (trunc q) \<le> x + 1 / (2 * 10 ^ 9) \<and> x < of_int (trunc q) + 1 \<and> trunc q < 10 ^ 19"
proof -
  define N :: int where "N = 10 ^ 9"
  define n where "n = round_half_up (x * 10 ^ 9)"
  have N: "N > 0" by (simp add: N_def)
  have q: "q = of_int n / of_int N" and n28: "\<bar>n\<bar> < 10 ^ 28"
    using assms unfolding quantize_nano_def Let_def n_def [symmetric]
    by (simp_all add: N_def not_le split: if_splits)
  have n0: "n \<ge> 0" using assms(2) by (simp add: n_def round_half_up_def)
  have tq: "trunc q = n div N"
    using n0 N unfolding q trunc_def by (simp add: floor_divide_of_int_eq)
  have dm: "N * (n div N) \<le> n" "n + 1 \<le> N * (n div N) + N" using div_bounds [OF N, of n] by auto
  then have "of_int (N * (n div N)) \<le> (of_int n :: rat)" "of_int (n + 1) \<le> (of_int (N * (n div N) + N) :: rat)"
    by (simp_all only: of_int_le_iff)
  then have le: "of_int (n div N) \<le> q" and less: "q + 1 / of_int N \<le> of_int (n div N) + 1"
    using N by (simp_all add: q field_simps)
  have near: "\<bar>q - x\<bar> \<le> 1 / (2 * 10 ^ 9)" by (rule quantize_nano_near [OF assms(1)])
  have "n < N * 10 ^ 19" using n28 by (simp add: N_def)
  then have "N * (n div N) < N * 10 ^ 19" using dm(1) by linarith
  then have "n div N < 10 ^ 19" using N by (simp only: mult_less_cancel_left_pos)
  moreover have "0 \<le> n div N" using n0 N by (simp add: pos_imp_zdiv_nonneg_iff)
  moreover have "q \<le> x + 1 / (2 * 10 ^ 9)" "x \<le> q + 1 / (2 * 10 ^ 9)"
    using near unfolding abs_le_iff by linarith+
  moreover have "1 / (2 * 10 ^ 9) < 1 / (of_int N :: rat)" by (simp add: N_def)
  ultimately show ?thesis using le less unfolding tq by (intro conjI) linarith+
qed

section \<open>Plain decimal text\<close>

text \<open>
  A finite \<open>Decimal\<close> as its coefficient and exponent; \<open>format(value, 'f')\<close> writes it without an
  exponent. A negative zero equals zero, so \<open>format_decimal\<close> never prints its sign.
\<close>

type_synonym dec = "int \<times> int"

definition dec_val :: "dec \<Rightarrow> rat" where
  "dec_val d = of_int (fst d) * ten_pow (snd d)"

definition plain_digits :: "nat \<Rightarrow> int \<Rightarrow> string" where
  "plain_digits n e =
     (if e \<ge> 0 then nat_str (n * 10 ^ nat e)
      else nat_str (n div 10 ^ nat (- e)) @ ''.'' @ pad_left (nat (- e)) (nat_str (n mod 10 ^ nat (- e))))"

definition sign_text :: "int \<Rightarrow> string" where
  "sign_text c = (if c < 0 then ''-'' else [])"

definition format_f :: "dec \<Rightarrow> string" where
  "format_f d = sign_text (fst d) @ plain_digits (nat \<bar>fst d\<bar>) (snd d)"

definition rstrip :: "char \<Rightarrow> string \<Rightarrow> string" where
  "rstrip c s = rev (dropWhile (\<lambda>x. x = c) (rev s))"

definition format_decimal :: "dec \<Rightarrow> string" where
  "format_decimal d =
     (if fst d = 0 then ''0''
      else let text = format_f d
        in if CHR ''.'' \<in> set text then rstrip (CHR ''.'') (rstrip (CHR ''0'') text) else text)"

subsection \<open>One value, one text\<close>

lemma rstrip_snoc [simp]: "rstrip c (s @ [c]) = rstrip c s" "x \<noteq> c \<Longrightarrow> rstrip c (s @ [x]) = s @ [x]"
  by (simp_all add: rstrip_def)

lemma nat_str_no_point [simp]: "CHR ''.'' \<notin> set (nat_str n)" "CHR ''-'' \<notin> set (nat_str n)"
  using nat_str_digits [of n] digit_not_sign by (auto simp: list_all_iff)

lemma digit_char_0: "digit_char 0 = CHR ''0''"
  by code_simp

lemma nat_str_mult10: "n > 0 \<Longrightarrow> nat_str (10 * n) = nat_str n @ ''0''"
  by (subst nat_str.simps) (simp add: digit_char_0)

lemma nat_str_0: "nat_str 0 = ''0''"
  by (subst nat_str.simps) (simp add: digit_char_0)

lemma pad_left_mult10:
  "k > 0 \<Longrightarrow> pad_left (Suc k) (nat_str (10 * f)) = pad_left k (nat_str f) @ ''0''"
  by (cases "f = 0")
    (auto simp: nat_str_mult10 nat_str_0 pad_left_def replicate_append_same Suc_diff_le
      replicate_Suc [symmetric] simp del: replicate_Suc)

lemma last_nat_str: "last (nat_str n) = digit_char (n mod 10)"
  by (subst nat_str.simps) simp

lemma rstrip_digits: "s \<noteq> [] \<Longrightarrow> last s \<noteq> c \<Longrightarrow> rstrip c s = s"
  by (cases s rule: rev_cases) auto

text \<open>The text without its sign: the integer part, and the decimals unless all are zero.\<close>

definition trimmed :: "nat \<Rightarrow> int \<Rightarrow> string" where
  "trimmed n e =
     (if e \<ge> 0 then nat_str (n * 10 ^ nat e)
      else let k = nat (- e); f = rstrip (CHR ''0'') (pad_left k (nat_str (n mod 10 ^ k)))
        in nat_str (n div 10 ^ k) @ (if f = [] then [] else CHR ''.'' # f))"

lemma dropWhile_stop: "\<not> P x \<Longrightarrow> dropWhile P (a @ x # b) = dropWhile P a @ x # b"
  by (induction a) auto

lemma rstrip_stop: "x \<noteq> c \<Longrightarrow> rstrip c (p @ x # s) = p @ x # rstrip c s"
  by (simp add: rstrip_def dropWhile_stop)

lemma rstrip_set: "x \<in> set (rstrip c s) \<Longrightarrow> x \<in> set s"
  by (auto simp: rstrip_def dest: set_dropWhileD)

lemma set_pad_left: "set (pad_left k s) \<subseteq> insert (CHR ''0'') (set s)"
  by (auto simp: pad_left_def)

lemma rstrip_no: "c \<notin> set s \<Longrightarrow> rstrip c s = s"
  by (cases s rule: rev_cases) (auto simp: rstrip_def)

lemma format_trimmed:
  assumes "fst d \<noteq> 0"
  shows "format_decimal d = sign_text (fst d) @ trimmed (nat \<bar>fst d\<bar>) (snd d)"
proof (cases "snd d \<ge> 0")
  case True
  then show ?thesis
    using assms by (auto simp: format_decimal_def format_f_def trimmed_def plain_digits_def
        sign_text_def Let_def)
next
  case False
  define k where "k = nat (- snd d)"
  define i where "i = sign_text (fst d) @ nat_str (nat \<bar>fst d\<bar> div 10 ^ k)"
  define p where "p = pad_left k (nat_str (nat \<bar>fst d\<bar> mod 10 ^ k))"
  have form: "format_f d = i @ CHR ''.'' # p"
    using False by (simp add: format_f_def plain_digits_def i_def p_def k_def)
  have f: "CHR ''.'' \<notin> set (rstrip (CHR ''0'') p)"
    using set_pad_left [of k] by (fastforce simp: p_def dest: rstrip_set)
  have i: "rstrip (CHR ''.'') i = i"
    by (rule rstrip_no) (auto simp: i_def sign_text_def)
  have "rstrip (CHR ''.'') (i @ CHR ''.'' # rstrip (CHR ''0'') p) =
      i @ (if rstrip (CHR ''0'') p = [] then [] else CHR ''.'' # rstrip (CHR ''0'') p)"
  proof (cases "rstrip (CHR ''0'') p" rule: rev_cases)
    case Nil
    then show ?thesis using i by simp
  next
    case (snoc ys y)
    then have "y \<noteq> CHR ''.''" using f by auto
    from rstrip_snoc(2) [OF this, of "i @ CHR ''.'' # ys"] show ?thesis by (simp add: snoc)
  qed
  then show ?thesis
    using assms False
    by (simp add: format_decimal_def Let_def form rstrip_stop trimmed_def k_def [symmetric]
        p_def [symmetric]) (simp add: i_def)
qed

lemma trimmed_scale: "n > 0 \<Longrightarrow> trimmed (10 * n) (e - 1) = trimmed n e"
proof -
  assume n: "n > 0"
  consider (pos) "e > 0" | (zero) "e = 0" | (neg) "e < 0" by linarith
  then show ?thesis
  proof cases
    case pos
    then have "nat e = Suc (nat (e - 1))" by simp
    then show ?thesis using pos by (simp add: trimmed_def ac_simps)
  next
    case zero
    then show ?thesis by (simp add: trimmed_def nat_str_0 pad_left_def rstrip_def Let_def)
  next
    case neg
    then have k: "nat (- (e - 1)) = Suc (nat (- e))" "nat (- e) > 0" by simp_all
    have "10 * n div 10 ^ Suc (nat (- e)) = n div 10 ^ nat (- e)"
      "10 * n mod 10 ^ Suc (nat (- e)) = 10 * (n mod 10 ^ nat (- e))"
      by (simp_all only: power_Suc mod_mult_mult1 div_mult_mult1 [OF zero_neq_numeral [symmetric]])
    then show ?thesis
      using neg k by (simp add: trimmed_def Let_def pad_left_mult10)
  qed
qed

lemma trimmed_scale_pow: "n > 0 \<Longrightarrow> trimmed (n * 10 ^ j) (e - int j) = trimmed n e"
proof (induction j)
  case 0
  then show ?case by simp
next
  case (Suc j)
  have "trimmed (n * 10 ^ Suc j) (e - int (Suc j)) = trimmed (10 * (n * 10 ^ j)) ((e - int j) - 1)"
    by (simp add: algebra_simps)
  then show ?case using Suc trimmed_scale [of "n * 10 ^ j" "e - int j"] by simp
qed

lemma ten_pow_add: "ten_pow (a + int j) = ten_pow a * 10 ^ j"
proof (cases "a \<ge> 0")
  case True
  then show ?thesis by (simp add: ten_pow_def nat_add_distrib power_add)
next
  case False
  show ?thesis
  proof (cases "a + int j \<ge> 0")
    case True
    then have "j = nat (a + int j) + nat (- a)" using False by linarith
    then have "(10::rat) ^ j = 10 ^ nat (a + int j) * 10 ^ nat (- a)" by (metis power_add)
    then show ?thesis using False True by (simp add: ten_pow_def)
  next
    case b: False
    then have "nat (- a) = nat (- (a + int j)) + j" using False by linarith
    then have "(10::rat) ^ nat (- a) = 10 ^ nat (- (a + int j)) * 10 ^ j" by (metis power_add)
    then show ?thesis using False b by (simp add: ten_pow_def)
  qed
qed

lemma ten_pow_pos [simp]: "ten_pow e > 0"
  by (simp add: ten_pow_def)

lemma dec_val_eq_coef:
  assumes "dec_val (c, e) = dec_val (c', e')" and "e' \<le> e"
  shows "c' = c * 10 ^ nat (e - e')"
proof -
  have "ten_pow e = ten_pow e' * 10 ^ nat (e - e')" using ten_pow_add [of e' "nat (e - e')"] assms(2) by simp
  then have "(of_int c' :: rat) = of_int c * 10 ^ nat (e - e')"
    using assms(1) ten_pow_pos [of e'] by (simp add: dec_val_def)
  also have "\<dots> = of_int (c * 10 ^ nat (e - e'))" by simp
  finally show ?thesis by (simp only: of_int_eq_iff)
qed

lemma format_decimal_scale:
  "dec_val d = dec_val d' \<Longrightarrow> snd d' \<le> snd d \<Longrightarrow> format_decimal d' = format_decimal d"
proof -
  assume eq: "dec_val d = dec_val d'" and le: "snd d' \<le> snd d"
  let ?j = "nat (snd d - snd d')"
  have c: "fst d' = fst d * 10 ^ ?j"
    using dec_val_eq_coef [of "fst d" "snd d" "fst d'" "snd d'"] eq le by simp
  show ?thesis
  proof (cases "fst d = 0")
    case True
    then show ?thesis using c by (simp add: format_decimal_def)
  next
    case False
    have "nat \<bar>fst d'\<bar> = nat \<bar>fst d\<bar> * 10 ^ ?j"
      by (simp add: c abs_mult nat_mult_distrib nat_power_eq)
    moreover have "snd d' = snd d - int ?j" using le by simp
    ultimately have "trimmed (nat \<bar>fst d'\<bar>) (snd d') = trimmed (nat \<bar>fst d\<bar>) (snd d)"
      using trimmed_scale_pow [of "nat \<bar>fst d\<bar>" ?j "snd d"] False by simp
    moreover have "sign_text (fst d') = sign_text (fst d)" "fst d' \<noteq> 0"
      using c False by (simp_all add: sign_text_def mult_less_0_iff)
    ultimately show ?thesis using False by (simp add: format_trimmed)
  qed
qed

lemma format_decimal_value: "dec_val d = dec_val d' \<Longrightarrow> format_decimal d = format_decimal d'"
  using format_decimal_scale [of d d'] format_decimal_scale [of d' d] by (cases "snd d' \<le> snd d") auto

subsection \<open>Reading it back\<close>

lemma scan_number_digits:
  assumes "list_all is_digit ds" "ds \<noteq> []"
  shows "scan_number ds = Some (of_nat (digits_val ds))"
  using assms us_digits_all [of ds False]
  by (simp add: scan_number_def scan_exponent_def ten_pow_def)

lemma scan_number_point:
  assumes "list_all is_digit i" "i \<noteq> []" "list_all is_digit f"
  shows "scan_number (i @ CHR ''.'' # f) =
    Some (of_nat (digits_val (i @ f)) * ten_pow (- int (length f)))"
proof -
  have "us_digits False (i @ CHR ''.'' # f) = (i, CHR ''.'' # f)"
    using us_digits_stop [OF assms(1), of "CHR ''.'' # f" False] by (simp add: is_digit_def code_def)
  then show ?thesis
    using us_digits_all [OF assms(3), of False] assms(2) by (simp add: scan_number_def scan_exponent_def)
qed

lemma digit_lower: "is_digit c \<Longrightarrow> lower_char c = c"
  by (simp add: is_digit_def lower_char_def)

lemma letters_not_digits: "\<not> is_digit (CHR ''i'')" "\<not> is_digit (CHR ''n'')" "\<not> is_digit (CHR ''s'')"
  by (simp_all add: is_digit_def code_def)

text \<open>Text that starts and ends with a digit and holds digits and points only, maybe signed.\<close>

lemma parse_dec_plain:
  assumes "s \<noteq> []" "is_digit (hd s)" "is_digit (last s)" "\<forall>c \<in> set s. is_digit c \<or> c = CHR ''.''"
    and "scan_number s = Some v"
  shows "parse_dec (sign_text k @ s) = Inr (Fin (signed (k < 0) v))"
proof -
  let ?t = "sign_text k @ s"
  have "strip ?t = ?t"
    using assms(1-3) digit_not_space
    by (intro strip_id) (auto simp: sign_text_def is_space_def code_def)
  moreover have "filter (\<lambda>c. c \<noteq> CHR ''_'') ?t = ?t"
    using assms(4) digit_not_sign by (auto simp: filter_id_conv sign_text_def)
  moreover have "scan_sign ?t = (k < 0, s)"
    using assms(1,2) scan_sign_digits [of s] by (simp add: sign_text_def)
  ultimately have parts: "strip ?t = ?t" "filter (\<lambda>c. c \<noteq> CHR ''_'') ?t = ?t"
    "scan_sign ?t = (k < 0, s)" by blast+
  have "hd (lower s) = hd s" "lower s \<noteq> []"
    using assms(1,2) by (simp_all add: lower_def hd_map digit_lower)
  moreover have "hd s \<noteq> CHR ''i''" "hd s \<noteq> CHR ''n''" "hd s \<noteq> CHR ''s''"
    using assms(2) letters_not_digits by metis+
  ultimately have "lower s \<noteq> ''inf''" "lower s \<noteq> ''infinity''" "\<not> is_nan_text (lower s)"
    by (auto simp: is_nan_text_def starts_with_def take_Suc)
  then show ?thesis using assms(5) by (simp add: parse_dec_def parts del: filter_append)
qed

text \<open>Every finite decimal has an exponent 0, or a negative one with a non-zero last digit.\<close>

lemma dec_normal:
  assumes "c \<noteq> 0"
  obtains c' e' where "dec_val (c, e) = dec_val (c', e')" "c' \<noteq> 0" "e' \<le> 0" "e' = 0 \<or> c' mod 10 \<noteq> 0"
proof (cases "e \<ge> 0")
  case True
  then have "dec_val (c, e) = dec_val (c * 10 ^ nat e, 0)" by (simp add: dec_val_def ten_pow_def)
  then show ?thesis using assms that [of "c * 10 ^ nat e" 0] by simp
next
  case False
  have "\<exists>c' e'. dec_val (c, e) = dec_val (c', e') \<and> c' \<noteq> 0 \<and> e' \<le> 0 \<and> (e' = 0 \<or> c' mod 10 \<noteq> 0)"
    using assms False
  proof (induction "nat (- e)" arbitrary: c e)
    case 0
    then show ?case by simp
  next
    case (Suc n)
    show ?case
    proof (cases "c mod 10 = 0")
      case True
      then obtain b where b: "c = b * 10" by (metis mult.commute mod_eq_0_iff_dvd dvdE)
      have eq: "dec_val (c, e) = dec_val (b, e + 1)"
        using ten_pow_add [of e 1] by (simp add: dec_val_def b)
      show ?thesis
      proof (cases "e + 1 < 0")
        case True
        then show ?thesis using Suc.hyps(1) [of "e + 1" b] Suc.hyps(2) Suc.prems b eq by simp
      next
        case False
        then have "e + 1 = 0" using Suc.prems by simp
        then show ?thesis using eq b Suc.prems by (intro exI [of _ b] exI [of _ "e + 1"]) simp
      qed
    next
      case False
      then show ?thesis using Suc.prems by (intro exI [of _ c] exI [of _ e]) simp
    qed
  qed
  then show ?thesis using that by blast
qed

lemma digits_val_zeros: "digits_val (replicate n (CHR ''0'') @ s) = digits_val s"
proof -
  have "digits_val (replicate n (CHR ''0'')) = 0"
    by (induction n) (simp_all add: digits_val_def digit_val_def code_def)
  then show ?thesis by (simp add: digits_val_append)
qed

lemma pad_left_digits: "list_all is_digit s \<Longrightarrow> list_all is_digit (pad_left k s)"
  by (auto simp: pad_left_def list_all_iff is_digit_def code_def)

lemma length_pad_left: "length s \<le> k \<Longrightarrow> length (pad_left k s) = k"
  by (simp add: pad_left_def)

lemma length_nat_str: "n < 10 ^ k \<Longrightarrow> k > 0 \<Longrightarrow> length (nat_str n) \<le> k"
proof (induction k arbitrary: n)
  case 0
  then show ?case by simp
next
  case (Suc k)
  show ?case
  proof (cases "n < 10")
    case True
    then show ?thesis by (subst nat_str.simps) simp
  next
    case False
    then have "k > 0" using Suc.prems by (cases k) auto
    moreover have "n div 10 < 10 ^ k" using Suc.prems by (simp add: less_mult_imp_div_less mult.commute)
    ultimately have "length (nat_str (n div 10)) \<le> k" using Suc.IH by blast
    then show ?thesis using False by (subst nat_str.simps) simp
  qed
qed

lemma trimmed_normal:
  assumes "n > 0" "e \<le> 0" "e = 0 \<or> n mod 10 \<noteq> 0"
  shows "\<exists>i f. trimmed n e = (if e = 0 then i else i @ CHR ''.'' # f) \<and> list_all is_digit i \<and> i \<noteq> [] \<and>
    list_all is_digit f \<and> length f = nat (- e) \<and> digits_val (i @ f) = n"
proof (cases "e = 0")
  case True
  then show ?thesis
    using nat_str_digits [of n] by (intro exI [of _ "nat_str n"] exI [of _ "[]"]) (simp add: trimmed_def)
next
  case False
  define k where "k = nat (- e)"
  have k: "k > 0" using False assms(2) by (simp add: k_def)
  define r where "r = n mod 10 ^ k"
  have "r mod 10 = n mod 10"
    unfolding r_def using k by (simp add: mod_mod_cancel dvd_power)
  then have r: "r mod 10 \<noteq> 0" "r < 10 ^ k" using assms(3) False by (simp_all add: r_def)
  have len: "length (pad_left k (nat_str r)) = k" by (rule length_pad_left [OF length_nat_str [OF r(2) k]])
  have ds: "list_all is_digit (pad_left k (nat_str r))" by (rule pad_left_digits [OF nat_str_digits])
  have last: "last (pad_left k (nat_str r)) \<noteq> CHR ''0''"
  proof
    assume "last (pad_left k (nat_str r)) = CHR ''0''"
    then have "digit_char (r mod 10) = digit_char 0" by (simp add: pad_left_def last_nat_str digit_char_0)
    then have "digit_val (digit_char (r mod 10)) = digit_val (digit_char 0)" by simp
    then show False using r(1) by simp
  qed
  have "rstrip (CHR ''0'') (pad_left k (nat_str r)) = pad_left k (nat_str r)"
    by (rule rstrip_digits) (use last in \<open>simp_all add: pad_left_def\<close>)
  moreover have "digits_val (nat_str (n div 10 ^ k) @ pad_left k (nat_str r)) = n"
    by (simp add: digits_val_append len) (simp add: pad_left_def digits_val_zeros r_def div_mult_mod_eq)
  ultimately show ?thesis
    using False assms(2) ds len nat_str_digits [of "n div 10 ^ k"]
    by (intro exI [of _ "nat_str (n div 10 ^ k)"] exI [of _ "pad_left k (nat_str r)"])
      (auto simp: trimmed_def Let_def k_def [symmetric] r_def [symmetric] pad_left_def)
qed

lemma format_decimal_parses: "parse_dec (format_decimal d) = Inr (Fin (dec_val d))"
proof (cases "fst d = 0")
  case True
  have "parse_dec ''0'' = Inr (Fin 0)" by code_simp
  then show ?thesis using True by (simp add: format_decimal_def dec_val_def)
next
  case False
  obtain c e where ce: "dec_val d = dec_val (c, e)" "c \<noteq> 0" "e \<le> 0" "e = 0 \<or> c mod 10 \<noteq> 0"
    using dec_normal [OF False, of "snd d"] by auto
  have "nat \<bar>c\<bar> mod 10 \<noteq> 0 \<or> e = 0"
  proof (cases "e = 0")
    case False
    then have "\<not> 10 dvd c" using ce(4) by (simp add: dvd_eq_mod_eq_0)
    then have "\<not> 10 dvd nat \<bar>c\<bar>" by (metis abs_ge_zero dvd_abs_iff int_nat_eq nat_int of_nat_dvd_iff of_nat_numeral)
    then show ?thesis by (simp add: dvd_eq_mod_eq_0)
  qed simp
  then obtain i f where t: "trimmed (nat \<bar>c\<bar>) e = (if e = 0 then i else i @ CHR ''.'' # f)"
    "list_all is_digit i" "i \<noteq> []" "list_all is_digit f" "length f = nat (- e)"
    "digits_val (i @ f) = nat \<bar>c\<bar>"
    using trimmed_normal [of "nat \<bar>c\<bar>" e] ce by auto
  let ?s = "trimmed (nat \<bar>c\<bar>) e"
  have "scan_number ?s = Some (of_nat (nat \<bar>c\<bar>) * ten_pow e)"
    using scan_number_digits [OF t(2,3)] scan_number_point [OF t(2,3,4)] t(1,5,6) ce(3)
    by (cases "e = 0") (auto simp: ten_pow_def)
  moreover have "?s \<noteq> []" "is_digit (hd ?s)" "is_digit (last ?s)"
    "\<forall>x \<in> set ?s. is_digit x \<or> x = CHR ''.''"
    using t ce(3) by (auto simp: list_all_iff split: if_splits)
  ultimately have "parse_dec (sign_text c @ ?s) = Inr (Fin (signed (c < 0) (of_nat (nat \<bar>c\<bar>) * ten_pow e)))"
    by (intro parse_dec_plain)
  moreover have "signed (c < 0) (of_nat (nat \<bar>c\<bar>) * ten_pow e) = dec_val (c, e)"
    by (simp add: signed_def dec_val_def)
  moreover have "format_decimal d = sign_text c @ ?s"
    using format_decimal_value [OF ce(1)] format_trimmed [of "(c, e)"] ce(2) by simp
  ultimately show ?thesis using ce(1) by simp
qed

section \<open>Client order ids\<close>

definition ORDER_LINK_ID_MAX_LEN :: nat where "ORDER_LINK_ID_MAX_LEN = 36"

definition is_alnum :: "char \<Rightarrow> bool" where
  "is_alnum c \<longleftrightarrow> is_digit c \<or> (65 \<le> code c \<and> code c \<le> 90) \<or> (97 \<le> code c \<and> code c \<le> 122)"

definition link_char :: "char \<Rightarrow> bool" where
  "link_char c \<longleftrightarrow> is_alnum c \<or> c = CHR ''_'' \<or> c = CHR ''-''"

text \<open>
  The digest is a parameter: \<open>sha256_hex s\<close> is \<open>sha256(s.encode('utf-8')).hexdigest()\<close>, at least
  nine characters of hexadecimal digits.
\<close>

definition wire_link_id :: "(string \<Rightarrow> string) \<Rightarrow> string \<Rightarrow> string" where
  "wire_link_id sha256_hex coid =
     (let wire = map (\<lambda>c. if link_char c then c else CHR ''_'') coid
      in if length wire \<le> ORDER_LINK_ID_MAX_LEN then wire
         else take (ORDER_LINK_ID_MAX_LEN - 10) wire @ ''_'' @ take 9 (sha256_hex coid))"

definition TRADING_STOP_KEY_PREFIX :: string where
  "TRADING_STOP_KEY_PREFIX = ''trading-stop:''"

definition trading_stop_key :: "int \<Rightarrow> string" where
  "trading_stop_key position_idx = TRADING_STOP_KEY_PREFIX @ int_str position_idx"

lemma int_str_inj: "int_str i = int_str j \<longleftrightarrow> i = j"
  by (metis Inr_inject parse_int_str)

lemma trading_stop_key_inj: "trading_stop_key i = trading_stop_key j \<longleftrightarrow> i = j"
  by (simp add: trading_stop_key_def int_str_inj)

section \<open>Rows and execution entries\<close>

definition ENTRY_NETTED_QTY_EXTRA :: string where
  "ENTRY_NETTED_QTY_EXTRA = ''netted_qty''"

text \<open>The store row's fields the helper reads; \<open>extras\<close> may be absent.\<close>

definition num_add :: "rat \<Rightarrow> num \<Rightarrow> num" where
  "num_add a b = (case b of Fin y \<Rightarrow> Fin (a + y) | s \<Rightarrow> s)"

definition venue_filled_qty :: "rat \<Rightarrow> jdict option \<Rightarrow> num" where
  "venue_filled_qty filled_qty extras =
     (let raw = jget (case extras of None \<Rightarrow> [] | Some d \<Rightarrow> d) ENTRY_NETTED_QTY_EXTRA;
          netted = (if raw = PNone then Fin 0
                    else case py_float raw of Inr x \<Rightarrow> x | Inl e \<Rightarrow> Fin 0)
      in num_add filled_qty netted)"

definition int_or_zero :: "py \<Rightarrow> int" where
  "int_or_zero v = (case py_int (py_or v (PInt 0)) of Inr i \<Rightarrow> i | Inl e \<Rightarrow> 0)"

definition execution_sort_key :: "jdict \<Rightarrow> int \<times> int" where
  "execution_sort_key entry =
     (int_or_zero (jget entry ''execTime''), int_or_zero (jget entry ''seq''))"

text \<open>\<open>sorted(entries, key=execution_sort_key)\<close>\<close>

definition sort_executions :: "jdict list \<Rightarrow> jdict list" where
  "sort_executions es = sort_key execution_sort_key es"

section \<open>Properties\<close>

text \<open>
  C7. \<open>format_decimal\<close> is a faithful and canonical wire form: reading it back with \<open>Decimal\<close> gives
  the value, two representations of one value have one text, and the text has no exponent, only
  an optional sign, digits and a point.
\<close>

theorem format_decimal_canonical:
  "parse_dec (format_decimal d) = Inr (Fin (dec_val d)) \<and>
   (format_decimal d = format_decimal d' \<longleftrightarrow> dec_val d = dec_val d')"
  by (metis Inr_inject format_decimal_parses format_decimal_value num.inject)

text \<open>
  \<open>quantize_qty\<close> on a real grid returns a multiple of the step that is not above the quantity
  by more than the noise tolerance (half a billionth of a step), not a full step below it, and that
  quantizes to itself.
\<close>

theorem quantize_qty_floors:
  assumes "quantize_qty q step_str = Inr r" and "parse_dec step_str = Inr (Fin s)" and "0 < s"
    and "0 \<le> q"
  shows "(\<exists>k. 0 \<le> k \<and> r = of_int k * s) \<and> r \<le> q + s / (2 * 10 ^ 9) \<and> q < r + s \<and>
    quantize_qty r step_str = Inr r"
proof -
  obtain k x where k: "r = of_int k * s" "quantize_nano (q / s) = Inr x" "k = trunc x"
    using floor_to_step_grid assms(1-3) unfolding quantize_qty_def by blast
  have t: "0 \<le> k" "of_int k \<le> q / s + 1 / (2 * 10 ^ 9)" "q / s < of_int k + 1" "k < 10 ^ 19"
    using trunc_nano [OF k(2)] assms(3,4) k(3) by simp_all
  have "of_int k * s \<le> (q / s + 1 / (2 * 10 ^ 9)) * s" "q / s * s < (of_int k + 1) * s"
    using t(2,3) assms(3) by (simp_all only: mult_le_cancel_right_pos mult_less_cancel_right_pos)
  then have "r \<le> q + s / (2 * 10 ^ 9)" "q < r + s"
    using assms(3) by (simp_all add: k(1) distrib_right)
  moreover have "quantize_nano (r / s) = Inr (of_int k)"
    using quantize_nano_of_int [of k] t(1,4) assms(3) by (simp add: k(1))
  then have "quantize_qty r step_str = Inr r"
    using assms(2,3) by (simp add: quantize_qty_def floor_to_step_def k(1))
  ultimately show ?thesis using t(1) k(1) by blast
qed

text \<open>
  On a real grid the reduce-side conversion is the nearest grid multiple, and a contract count
  on the grid survives the way to base quantity and back: no remainder is left that no close can
  take back.
\<close>

theorem contracts_round_trip:
  assumes "contracts_to_base (of_int k * s) price = Inr b" and "parse_dec step_str = Inr (Fin s)"
    and "0 < s" and "\<bar>k\<bar> < 10 ^ 19"
  shows "base_to_contracts b price step_str = Inr (of_int k * s) \<and>
    base_to_contracts_reduce b price step_str = Inr (of_int k * s) \<and>
    (\<forall>q r. base_to_contracts_reduce q price step_str = Inr r \<longrightarrow> \<bar>r - q * price\<bar> \<le> s / 2)"
proof -
  have b: "price \<noteq> 0" "b * price = of_int k * s"
    using assms(1) by (auto simp: contracts_to_base_def split: if_splits)
  have ratio: "b * price / s = of_int k" using b(2) assms(3) by simp
  have near: "\<bar>of_int (round_half_up (x / s)) * s - x\<bar> \<le> s / 2" for x
  proof -
    have "of_int (round_half_up (x / s)) * s - x = (of_int (round_half_up (x / s)) - x / s) * s"
      using assms(3) by (simp add: left_diff_distrib)
    then have "\<bar>of_int (round_half_up (x / s)) * s - x\<bar> = \<bar>of_int (round_half_up (x / s)) - x / s\<bar> * s"
      using assms(3) by (simp add: abs_mult)
    also have "\<dots> \<le> 1 / 2 * s"
      using round_half_up_near [of "x / s"] assms(3) by (intro mult_right_mono) simp_all
    finally show ?thesis by simp
  qed
  show ?thesis
    using assms(2,3) ratio quantize_nano_of_int [OF assms(4)] near
    by (auto simp: base_to_contracts_def base_to_contracts_reduce_def floor_to_step_def)
qed

text \<open>
  A wire id is always legal for the venue (at most 36 letters, digits, dashes, underscores);
  a legal id of that length passes unchanged; and an id the mapping had to change never meets a
  canonical id (one without an underscore).
\<close>

theorem wire_link_id_legal:
  assumes "\<forall>s. length (sha256_hex s) \<ge> 9 \<and> list_all is_alnum (sha256_hex s)"
  shows "length (wire_link_id sha256_hex coid) \<le> 36 \<and>
    list_all link_char (wire_link_id sha256_hex coid) \<and>
    (list_all link_char coid \<and> length coid \<le> 36 \<longrightarrow> wire_link_id sha256_hex coid = coid) \<and>
    (wire_link_id sha256_hex coid \<noteq> coid \<longrightarrow> CHR ''_'' \<in> set (wire_link_id sha256_hex coid))"
proof -
  let ?w = "map (\<lambda>c. if link_char c then c else CHR ''_'') coid"
  have us: "link_char (CHR ''_'')" by (simp add: link_char_def)
  then have legal: "list_all link_char ?w" by (auto simp: list_all_iff)
  have hex: "list_all link_char (take 9 (sha256_hex coid))"
    using assms by (auto simp: list_all_iff link_char_def dest: in_set_takeD)
  have same: "list_all link_char coid \<Longrightarrow> ?w = coid" by (induction coid) auto
  have changed: "?w \<noteq> coid \<Longrightarrow> CHR ''_'' \<in> set ?w" by (induction coid) auto
  show ?thesis
  proof (cases "length coid \<le> 36")
    case True
    then show ?thesis
      using legal same changed by (auto simp: wire_link_id_def Let_def ORDER_LINK_ID_MAX_LEN_def)
  next
    case False
    let ?v = "take 26 ?w @ ''_'' @ take 9 (sha256_hex coid)"
    have w: "wire_link_id sha256_hex coid = ?v"
      using False by (simp add: wire_link_id_def Let_def ORDER_LINK_ID_MAX_LEN_def)
    have "list_all link_char (take 26 ?w)"
      using legal by (metis append_take_drop_id list_all_append)
    then have "list_all link_char ?v" using hex us by simp
    moreover have "length ?v \<le> 36" by simp
    ultimately show ?thesis unfolding w using False by simp
  qed
qed

theorem quantize_qty_floors_witness:
  "quantize_qty (19999999999999997 / 1000000000000000000) ''0.01'' = Inr (2 / 100) \<and>
   quantize_qty (2 / 100) ''0.01'' = Inr (2 / 100)"
proof -
  have p: "parse_dec ''0.01'' = Inr (Fin (1 / 100))" by code_simp
  have q: "quantize_qty (19999999999999997 / 1000000000000000000) ''0.01'' = Inr (2 / 100)"
    by code_simp
  from quantize_qty_floors [OF q p] show ?thesis using q by simp
qed

theorem contracts_round_trip_witness:
  "base_to_contracts_reduce (305 / 64000) 64000 ''1'' = Inr 305"
proof -
  have p: "parse_dec ''1'' = Inr (Fin 1)" by code_simp
  have "contracts_to_base (of_int 305 * 1) 64000 = Inr (305 / 64000)" by (simp add: contracts_to_base_def)
  from contracts_round_trip [OF this p] show ?thesis by simp
qed

theorem wire_link_id_legal_witness:
  "list_all link_char (wire_link_id (\<lambda>s. replicate 64 (CHR ''a'')) ''run-7:leg-1'')"
proof -
  have "\<forall>s :: string. 9 \<le> length (replicate 64 (CHR ''a'')) \<and> list_all is_alnum (replicate 64 (CHR ''a''))"
    by (simp add: is_alnum_def code_def list_all_iff)
  from wire_link_id_legal [OF this, of "''run-7:leg-1''"] show ?thesis by blast
qed

end
