(* ===== verification/Instruments.thy ===== *)
theory Instruments
  imports Helpers
begin

text \<open>
  Model of \<^verbatim>\<open>src/src/pynecore_bybit/models.py\<close> and of the provider side of
  \<^verbatim>\<open>src/src/pynecore_bybit/provider.py\<close>: the normalised instrument record, the exact price grid,
  the timeframe conversions, and the resolution of a user-facing symbol with its cache. A REST
  call is a parameter: a function from its query to the \<open>result\<close> object or the exception raised.
\<close>

section \<open>Categories\<close>

definition CATEGORY_SPOT :: string where "CATEGORY_SPOT = ''spot''"
definition CATEGORY_LINEAR :: string where "CATEGORY_LINEAR = ''linear''"
definition CATEGORY_INVERSE :: string where "CATEGORY_INVERSE = ''inverse''"

definition CATEGORIES :: "string list" where
  "CATEGORIES = [CATEGORY_SPOT, CATEGORY_LINEAR, CATEGORY_INVERSE]"

lemmas category_defs = CATEGORIES_def CATEGORY_SPOT_def CATEGORY_LINEAR_def CATEGORY_INVERSE_def

section \<open>The instrument record\<close>

record instrument_info =
  in_category :: string
  in_symbol :: string
  in_base_coin :: string
  in_quote_coin :: string
  in_settle_coin :: string
  in_status :: string
  in_tick_size_str :: string
  in_tick_size :: num
  in_qty_step_str :: string
  in_qty_step :: num
  in_min_order_qty :: num
  in_min_order_amt :: num
  in_min_notional :: num
  in_max_limit_order_qty :: num
  in_max_market_order_qty :: num
  in_contract_type :: string
  in_delivery_time :: "int option"

definition is_perpetual :: "instrument_info \<Rightarrow> bool" where
  "is_perpetual i = ends_with (in_contract_type i) ''Perpetual''"

definition is_inverse :: "instrument_info \<Rightarrow> bool" where
  "is_inverse i \<longleftrightarrow> in_category i = CATEGORY_INVERSE"

text \<open>\<open>text.replace('.', '', 1)\<close> and \<open>text.partition('.')\<close>\<close>

fun remove_first :: "char \<Rightarrow> string \<Rightarrow> string" where
  "remove_first c [] = []"
| "remove_first c (x # xs) = (if x = c then xs else x # remove_first c xs)"

fun partition_at :: "char \<Rightarrow> string \<Rightarrow> string \<times> string" where
  "partition_at c [] = ([], [])"
| "partition_at c (x # xs) =
     (if x = c then ([], xs) else (case partition_at c xs of (a, b) \<Rightarrow> (x # a, b)))"

definition int_or_0 :: "string \<Rightarrow> raised + int" where
  "int_or_0 s =
     (case parse_int (if s = [] then ''0'' else s) of Inl e \<Rightarrow> Inl (Lang e) | Inr i \<Rightarrow> Inr i)"

definition price_grid :: "instrument_info \<Rightarrow> raised + (int \<times> int)" where
  "price_grid i =
     (let text = strip (in_tick_size_str i) in
      if text = [] \<or> \<not> isdigit (remove_first (CHR ''.'') text)
      then Inl (Bybit (BybitSymbolError
             (''Bybit instrument '' @ quote_str (in_symbol i) @ '' reports unparsable tickSize '' @
              quote_str (in_tick_size_str i))))
      else
        let (int_part, frac_part) = partition_at (CHR ''.'') text;
            pricescale = 10 ^ length frac_part
        in res_bind (int_or_0 int_part) (\<lambda>a. res_bind (int_or_0 frac_part) (\<lambda>b.
             let minmove = a * pricescale + b in
             if minmove \<le> 0
             then Inl (Bybit (BybitSymbolError
                    (''Bybit instrument '' @ quote_str (in_symbol i) @
                     '' reports non-positive tickSize '' @ quote_str (in_tick_size_str i))))
             else let divisor = gcd minmove pricescale
               in Inr (minmove div divisor, pricescale div divisor))))"

definition to_float :: "py \<Rightarrow> num" where
  "to_float v =
     (if v = PNone \<or> v = PStr [] then Fin 0
      else case py_float v of Inr x \<Rightarrow> x | Inl e \<Rightarrow> Fin 0)"

text \<open>\<open>int(delivery_ms / 1000) if delivery_ms > 0 else None\<close>\<close>

definition delivery_seconds :: "num \<Rightarrow> py_error + int option" where
  "delivery_seconds d =
     (case d of
        Fin ms \<Rightarrow> Inr (if ms > 0 then Some (trunc (ms / 1000)) else None)
      | PosInf \<Rightarrow> Inl OverflowErr
      | _ \<Rightarrow> Inr None)"

definition true_category :: "string \<Rightarrow> string \<Rightarrow> string" where
  "true_category category contract_type =
     (if starts_with contract_type ''Inverse'' then CATEGORY_INVERSE
      else if starts_with contract_type ''Linear'' then CATEGORY_LINEAR
      else category)"

definition parse_instrument :: "string \<Rightarrow> jdict \<Rightarrow> py_error + instrument_info" where
  "parse_instrument category0 entry =
     (let contract_type = jstr entry ''contractType'';
          category = true_category category0 contract_type
      in res_bind (as_dict (py_or (jget entry ''priceFilter'') (PDict []))) (\<lambda>price_filter.
         res_bind (as_dict (py_or (jget entry ''lotSizeFilter'') (PDict []))) (\<lambda>lot.
         let tick_str = jstr price_filter ''tickSize'';
             spot = (category = CATEGORY_SPOT);
             qty_step_str = jstr lot (if spot then ''basePrecision'' else ''qtyStep'')
         in res_bind (delivery_seconds (to_float (jget entry ''deliveryTime''))) (\<lambda>delivery.
            Inr \<lparr>in_category = category, in_symbol = jstr entry ''symbol'',
                 in_base_coin = jstr entry ''baseCoin'', in_quote_coin = jstr entry ''quoteCoin'',
                 in_settle_coin = jstr entry ''settleCoin'', in_status = jstr entry ''status'',
                 in_tick_size_str = tick_str, in_tick_size = to_float (PStr tick_str),
                 in_qty_step_str = qty_step_str, in_qty_step = to_float (PStr qty_step_str),
                 in_min_order_qty = (if spot then Fin 0 else to_float (jget lot ''minOrderQty'')),
                 in_min_order_amt = (if spot then to_float (jget lot ''minOrderAmt'') else Fin 0),
                 in_min_notional = (if spot then Fin 0 else to_float (jget lot ''minNotionalValue'')),
                 in_max_limit_order_qty =
                   to_float (jget lot (if spot then ''maxLimitOrderQty'' else ''maxOrderQty'')),
                 in_max_market_order_qty =
                   to_float (jget lot (if spot then ''maxMarketOrderQty'' else ''maxMktOrderQty'')),
                 in_contract_type = contract_type, in_delivery_time = delivery\<rparr>))))"

subsection \<open>The price grid is the tick\<close>

lemma partition_remove:
  assumes "partition_at c s = (a, b)"
  shows "c \<notin> set a \<and> remove_first c s = a @ b \<and> (s = a @ c # b \<or> (s = a \<and> b = []))"
  using assms
  by (induction s arbitrary: a b) (auto split: if_splits prod.splits)

lemma int_or_0_digits:
  assumes "int_or_0 s = Inr i" "s = [] \<or> isdigit s"
  shows "list_all is_digit s \<and> i = int (digits_val s)"
proof (cases "s = []")
  case True
  have "parse_int ''0'' = Inr 0" by code_simp
  then show ?thesis using True assms(1) by (simp add: int_or_0_def)
next
  case False
  then show ?thesis
    using assms parse_int_isdigit [of s i] by (auto simp: int_or_0_def split: sum.splits)
qed

lemma isdigit_append: "isdigit (a @ b) \<Longrightarrow> (a = [] \<or> isdigit a) \<and> (b = [] \<or> isdigit b)"
  by (auto simp: isdigit_def)

lemma scan_number_plain:
  assumes "list_all is_digit (a @ b)" "a @ b \<noteq> []" "s = a @ CHR ''.'' # b \<or> (s = a \<and> b = [])"
  shows "scan_number s = Some (of_nat (digits_val (a @ b)) * ten_pow (- int (length b)))"
proof -
  have pt: "\<not> is_digit (CHR ''.'')" by (simp add: is_digit_def code_def)
  have "us_digits False (a @ CHR ''.'' # b) = (a, CHR ''.'' # b)" "us_digits False b = (b, [])"
    "us_digits False a = (a, [])"
    using us_digits_stop [of a "CHR ''.'' # b" False] us_digits_all [of _ False] assms(1) pt by auto
  then show ?thesis
    using assms(2,3) by (auto simp: scan_number_def scan_exponent_def)
qed

lemma price_grid_value:
  assumes "price_grid i = Inr (m, p)"
  obtains a b where "partition_at (CHR ''.'') (strip (in_tick_size_str i)) = (a, b)"
    "list_all is_digit (a @ b)" "a @ b \<noteq> []" "int (digits_val (a @ b)) > 0"
    "m = int (digits_val (a @ b)) div gcd (int (digits_val (a @ b))) (10 ^ length b)"
    "p = 10 ^ length b div gcd (int (digits_val (a @ b))) (10 ^ length b)"
proof -
  obtain a b where ab: "partition_at (CHR ''.'') (strip (in_tick_size_str i)) = (a, b)"
    by (metis surj_pair)
  have dig: "isdigit (a @ b)"
    using assms partition_remove [OF ab]
    by (auto simp: price_grid_def Let_def split: if_splits)
  obtain x y where xy: "int_or_0 a = Inr x" "int_or_0 b = Inr y" "x * 10 ^ length b + y > 0"
    "m = (x * 10 ^ length b + y) div gcd (x * 10 ^ length b + y) (10 ^ length b)"
    "p = 10 ^ length b div gcd (x * 10 ^ length b + y) (10 ^ length b)"
    using assms ab by (auto simp: price_grid_def Let_def res_bind_Inr_iff split: if_splits)
  have v: "list_all is_digit a" "x = int (digits_val a)" "list_all is_digit b" "y = int (digits_val b)"
    using int_or_0_digits xy(1,2) isdigit_append [OF dig] by blast+
  then have "x * 10 ^ length b + y = int (digits_val (a @ b))" by (simp add: digits_val_append)
  then show ?thesis
    using that [OF ab] v(1,3) dig xy(3-5) by (simp add: isdigit_def)
qed

lemma point_lower: "lower_char (CHR ''.'') = CHR ''.''"
  by (simp add: lower_char_def code_def)

lemma parse_float_plain:
  assumes "strip s = t" "t \<noteq> []" "\<forall>c \<in> set t. is_digit c \<or> c = CHR ''.''" "scan_number t = Some v"
  shows "parse_float s = Inr (Fin v)"
proof -
  have h: "is_digit (hd t) \<or> hd t = CHR ''.''" using assms(2,3) by (cases t) auto
  then have "scan_sign t = (False, t)" using assms(2) digit_not_sign by (cases t) auto
  moreover have "lower_char (hd t) = hd t"
    using h digit_lower point_lower by metis
  then have "hd (lower t) = hd t" "lower t \<noteq> []" using assms(2) by (simp_all add: lower_def hd_map)
  moreover have "hd t \<noteq> CHR ''i''" "hd t \<noteq> CHR ''n''" using h letters_not_digits by auto
  ultimately have "scan_sign t = (False, t)" "lower t \<noteq> ''inf''" "lower t \<noteq> ''infinity''" "lower t \<noteq> ''nan''"
    by auto
  then show ?thesis using assms(1,4) by (simp add: parse_float_def signed_def)
qed

section \<open>Timeframes\<close>

definition to_tradingview_timeframe :: "string \<Rightarrow> raised + string" where
  "to_tradingview_timeframe timeframe =
     (case map_of TIMEFRAMES_INV timeframe of
        Some tf \<Rightarrow> Inr tf
      | None \<Rightarrow> Inl (Bybit (BybitUnsupportedTimeframeError
                  (''Unsupported Bybit kline interval: '' @ quote_str timeframe))))"

definition to_exchange_timeframe :: "string \<Rightarrow> raised + string" where
  "to_exchange_timeframe timeframe =
     (case map_of TIMEFRAMES timeframe of
        Some interval \<Rightarrow> Inr interval
      | None \<Rightarrow> Inl (Bybit (BybitUnsupportedTimeframeError
                  (''Unsupported timeframe for Bybit: '' @ quote_str timeframe @ ''. Supported: '' @
                   join_with '', '' (map fst TIMEFRAMES)))))"

section \<open>Resolving a symbol\<close>

text \<open>The mix-in's state: the instrument cache and the pinned chart instrument.\<close>

record provider =
  pv_instruments :: "string \<times> string \<Rightarrow> instrument_info option"
  pv_market :: "instrument_info option"
  pv_market_symbol :: "string option"

definition PARAMS_ERROR_CODE :: int where "PARAMS_ERROR_CODE = 10001"

text \<open>\<open>entries[0]\<close> of a truthy value, and the \<open>.get\<close> the parser then calls on it.\<close>

fun first_entry :: "py \<Rightarrow> py_error + jdict" where
  "first_entry (PList (e # es)) = as_dict e"
| "first_entry (PList []) = Inl IndexErr"
| "first_entry (PStr s) = Inl AttributeErr"
| "first_entry (PDict d) = Inl KeyErr"
| "first_entry v = Inl TypeErr"

definition lift_err :: "py_error + 'a \<Rightarrow> raised + 'a" where
  "lift_err r = (case r of Inl e \<Rightarrow> Inl (Lang e) | Inr x \<Rightarrow> Inr x)"

lemma lift_err_Inr [simp]: "lift_err r = Inr x \<longleftrightarrow> r = Inr x" "lift_err (Inr x) = Inr x"
  by (auto simp: lift_err_def split: sum.splits)

type_synonym instruments_api = "string \<Rightarrow> string \<Rightarrow> raised + jdict"

definition fetch_instrument ::
    "instruments_api \<Rightarrow> string \<Rightarrow> string \<Rightarrow> provider \<Rightarrow>
     provider \<times> (raised + instrument_info option)" where
  "fetch_instrument api category symbol P =
     (case pv_instruments P (category, symbol) of
        Some cached \<Rightarrow> (P, Inr (Some cached))
      | None \<Rightarrow>
          (case api category symbol of
             Inl (Bybit (BybitAPIError m c)) \<Rightarrow>
               (if c = PARAMS_ERROR_CODE then (P, Inr None) else (P, Inl (Bybit (BybitAPIError m c))))
           | Inl e \<Rightarrow> (P, Inl e)
           | Inr result \<Rightarrow>
               (let entries = py_or (jget result ''list'') (PList []) in
                if \<not> truthy entries then (P, Inr None)
                else
                  case res_bind (lift_err (first_entry entries))
                         (\<lambda>e. lift_err (parse_instrument category e)) of
                    Inl e \<Rightarrow> (P, Inl e)
                  | Inr info \<Rightarrow>
                      (P\<lparr>pv_instruments := (pv_instruments P)
                           ((category, in_symbol info) \<mapsto> info,
                            (in_category info, in_symbol info) \<mapsto> info)\<rparr>,
                       Inr (Some info)))))"

text \<open>The probe order and the native name of a user-facing symbol.\<close>

definition strip_prefix :: "string \<Rightarrow> string" where
  "strip_prefix name =
     (if starts_with (upper name) ''BYBIT:'' then drop (length ''BYBIT:'') name else name)"

definition native_name :: "string \<Rightarrow> string \<times> string list" where
  "native_name mapped =
     (let name = upper (strip_prefix (strip mapped)) in
      if ends_with name ''.P''
      then (take (length name - 2) name, [CATEGORY_LINEAR, CATEGORY_INVERSE])
      else (name, CATEGORIES))"

fun probe ::
    "instruments_api \<Rightarrow> string \<Rightarrow> string list \<Rightarrow> provider \<Rightarrow>
     provider \<times> (raised + instrument_info option)" where
  "probe api name [] P = (P, Inr None)"
| "probe api name (c # cs) P =
     (case fetch_instrument api c name P of
        (P1, Inl e) \<Rightarrow> (P1, Inl e)
      | (P1, Inr (Some info)) \<Rightarrow> (P1, Inr (Some info))
      | (P1, Inr None) \<Rightarrow> probe api name cs P1)"

definition not_listed :: "string \<Rightarrow> string list \<Rightarrow> raised" where
  "not_listed symbol probe_order = Bybit (BybitSymbolError
     (''Symbol '' @ quote_str symbol @ '' is not listed on Bybit in any supported category ('' @
      join_with '', '' probe_order @ ''). Spot pairs use the plain name (BTCUSDT), perpetuals '' @
      ''the .P suffix (BTCUSDT.P), dated futures their native Bybit name (BTCUSDT-26JUN26).''))"

text \<open>\<open>resolve_symbol\<close> is the framework's translation table: a parameter.\<close>

definition resolve_market ::
    "(string \<Rightarrow> string) \<Rightarrow> instruments_api \<Rightarrow> string \<Rightarrow> provider \<Rightarrow>
     provider \<times> (raised + instrument_info)" where
  "resolve_market resolve_symbol api symbol P =
     (let (name, probe_order) = native_name (resolve_symbol symbol) in
      case probe api name probe_order P of
        (P1, Inl e) \<Rightarrow> (P1, Inl e)
      | (P1, Inr (Some info)) \<Rightarrow> (P1, Inr info)
      | (P1, Inr None) \<Rightarrow> (P1, Inl (not_listed symbol probe_order)))"

text \<open>\<open>self.symbol\<close> is set once by the framework: an argument, with \<open>None\<close> or empty for none.\<close>

definition get_market ::
    "(string \<Rightarrow> string) \<Rightarrow> instruments_api \<Rightarrow> string option \<Rightarrow> provider \<Rightarrow>
     provider \<times> (raised + instrument_info)" where
  "get_market resolve_symbol api symbol P =
     (case symbol of
        None \<Rightarrow> (P, Inl (Bybit (BybitSymbolError ''Bybit provider has no symbol configured'')))
      | Some s \<Rightarrow>
          if s = [] then (P, Inl (Bybit (BybitSymbolError ''Bybit provider has no symbol configured'')))
          else
            case (pv_market P, pv_market_symbol P) of
              (Some market, None) \<Rightarrow> (P\<lparr>pv_market_symbol := Some s\<rparr>, Inr market)
            | (Some market, Some ms) \<Rightarrow>
                (if ms = s then (P, Inr market)
                 else
                   case resolve_market resolve_symbol api s P of
                     (P1, Inl e) \<Rightarrow> (P1, Inl e)
                   | (P1, Inr m) \<Rightarrow> (P1\<lparr>pv_market := Some m, pv_market_symbol := Some s\<rparr>, Inr m))
            | (None, _) \<Rightarrow>
                (case resolve_market resolve_symbol api s P of
                   (P1, Inl e) \<Rightarrow> (P1, Inl e)
                 | (P1, Inr m) \<Rightarrow> (P1\<lparr>pv_market := Some m, pv_market_symbol := Some s\<rparr>, Inr m)))"

section \<open>The cache\<close>

definition derivative :: "string \<Rightarrow> bool" where
  "derivative c \<longleftrightarrow> c = CATEGORY_LINEAR \<or> c = CATEGORY_INVERSE"

text \<open>
  An entry is stored under its own symbol, and nothing cached under a derivative category is a
  spot instrument.
\<close>

definition cache_ok :: "provider \<Rightarrow> bool" where
  "cache_ok P \<longleftrightarrow> (\<forall>c s i. pv_instruments P (c, s) = Some i \<longrightarrow>
     in_symbol i = s \<and> (derivative c \<longrightarrow> derivative (in_category i)))"

lemma parse_instrument_category:
  "parse_instrument c e = Inr i \<Longrightarrow> in_category i = true_category c (in_contract_type i)"
  by (auto simp: parse_instrument_def Let_def res_bind_Inr_iff)

lemma true_category_derivative:
  "derivative c \<Longrightarrow> derivative (true_category c t)"
  by (simp add: true_category_def derivative_def)

lemma fetch_cases:
  assumes "fetch_instrument api c s P = (P', r)"
  obtains (same) "P' = P" "\<And>i. r = Inr (Some i) \<Longrightarrow> pv_instruments P (c, s) = Some i"
  | (new) i e where "r = Inr (Some i)" "parse_instrument c e = Inr i"
      "P' = P\<lparr>pv_instruments := (pv_instruments P)
         ((c, in_symbol i) \<mapsto> i, (in_category i, in_symbol i) \<mapsto> i)\<rparr>"
  using assms
  by (auto simp: fetch_instrument_def Let_def lift_err_def res_bind_Inr_iff
      split: option.splits sum.splits raised.splits bybit_error.splits if_splits)

lemma fetch_cache_ok:
  assumes "fetch_instrument api c s P = (P', r)" and "cache_ok P"
  shows "cache_ok P' \<and> (\<forall>i. r = Inr (Some i) \<longrightarrow> derivative c \<longrightarrow> derivative (in_category i))"
  using assms(1)
proof (cases rule: fetch_cases)
  case same
  then show ?thesis using assms(2) by (auto simp: cache_ok_def)
next
  case (new i e)
  have "derivative c \<Longrightarrow> derivative (in_category i)"
    using parse_instrument_category [OF new(2)] true_category_derivative by simp
  then show ?thesis using assms(2) new by (auto simp: cache_ok_def)
qed

lemma probe_cache_ok:
  assumes "probe api name cs P = (P', r)" and "cache_ok P"
  shows "cache_ok P' \<and> (\<forall>i. r = Inr (Some i) \<longrightarrow> list_all derivative cs \<longrightarrow> derivative (in_category i))"
  using assms
proof (induction cs arbitrary: P)
  case Nil
  then show ?case by auto
next
  case (Cons c cs)
  obtain P1 r1 where f: "fetch_instrument api c name P = (P1, r1)" by (metis surj_pair)
  note ok = fetch_cache_ok [OF f Cons.prems(2)]
  show ?case
  proof (cases "r1 = Inr None")
    case True
    then show ?thesis using Cons.IH [of P1] Cons.prems(1) f ok by simp
  next
    case False
    then have "P' = P1" "r = r1"
      using Cons.prems(1) f by (auto split: sum.splits option.splits)
    then show ?thesis using ok by auto
  qed
qed

lemma resolve_cache_ok:
  assumes "resolve_market tr api symbol P = (P', r)" and "cache_ok P"
  shows "cache_ok P'" "r = Inr i \<Longrightarrow> ends_with (upper (strip_prefix (strip (tr symbol)))) ''.P'' \<Longrightarrow>
    derivative (in_category i)"
proof -
  obtain name cs where n: "native_name (tr symbol) = (name, cs)" by (metis surj_pair)
  obtain P1 r1 where p: "probe api name cs P = (P1, r1)" by (metis surj_pair)
  note ok = probe_cache_ok [OF p assms(2)]
  show "cache_ok P'"
    using assms(1) n p ok by (auto simp: resolve_market_def split: sum.splits option.splits)
  assume "r = Inr i" "ends_with (upper (strip_prefix (strip (tr symbol)))) ''.P''"
  then have "r1 = Inr (Some i)" "list_all derivative cs"
    using assms(1) n p
    by (auto simp: resolve_market_def native_name_def Let_def derivative_def
        split: sum.splits option.splits if_splits)
  then show "derivative (in_category i)" using ok by blast
qed

text \<open>The mix-in as a machine, driven by the calls that touch the cache.\<close>

datatype provider_op = Fetch string string | Resolve string | GetMarket "string option"

fun provider_step ::
    "(string \<Rightarrow> string) \<Rightarrow> instruments_api \<Rightarrow> provider_op \<Rightarrow> provider \<Rightarrow> provider" where
  "provider_step tr api (Fetch c s) P = fst (fetch_instrument api c s P)"
| "provider_step tr api (Resolve s) P = fst (resolve_market tr api s P)"
| "provider_step tr api (GetMarket s) P = fst (get_market tr api s P)"

definition new_provider :: provider where
  "new_provider = \<lparr>pv_instruments = Map.empty, pv_market = None, pv_market_symbol = None\<rparr>"

lemma cache_ok_new: "cache_ok new_provider"
  by (simp add: cache_ok_def new_provider_def)

lemma cache_ok_fields [simp]:
  "cache_ok (P\<lparr>pv_market := m\<rparr>) = cache_ok P" "cache_ok (P\<lparr>pv_market_symbol := s\<rparr>) = cache_ok P"
  by (simp_all add: cache_ok_def)

lemma provider_step_cache_ok: "cache_ok P \<Longrightarrow> cache_ok (provider_step tr api x P)"
proof (cases x)
  case (Fetch c s)
  then show "cache_ok P \<Longrightarrow> ?thesis"
    using fetch_cache_ok by (metis provider_step.simps(1) prod.collapse)
next
  case (Resolve s)
  then show "cache_ok P \<Longrightarrow> ?thesis"
    using resolve_cache_ok(1) by (metis provider_step.simps(2) prod.collapse)
next
  case (GetMarket s)
  assume ok: "cache_ok P"
  have r: "cache_ok P1" if "resolve_market tr api y P = (P1, q)" for y P1 q
    using resolve_cache_ok(1) [OF that ok] .
  show ?thesis
    using ok r by (auto simp: GetMarket get_market_def split: option.splits sum.splits prod.splits)
qed

interpretation provider_machine: op_machine "provider_step tr api" new_provider cache_ok for tr api
  by unfold_locales (rule cache_ok_new, rule provider_step_cache_ok)

section \<open>Properties\<close>

text \<open>
  The price grid is exact: whatever tick the venue quotes, a returned pair is in lowest terms,
  both parts are positive, and their quotient is the tick \<open>float\<close> reads, so
  \<open>mintick = minmove / pricescale\<close>.
\<close>

theorem price_grid_exact:
  assumes "price_grid i = Inr (m, p)"
  shows "0 < m \<and> 0 < p \<and> coprime m p \<and>
    to_float (PStr (in_tick_size_str i)) = Fin (of_int m / of_int p)"
proof -
  let ?t = "strip (in_tick_size_str i)"
  obtain a b where ab: "partition_at (CHR ''.'') ?t = (a, b)" "list_all is_digit (a @ b)" "a @ b \<noteq> []"
    and pos: "int (digits_val (a @ b)) > 0"
    and m: "m = int (digits_val (a @ b)) div gcd (int (digits_val (a @ b))) (10 ^ length b)"
    and p: "p = 10 ^ length b div gcd (int (digits_val (a @ b))) (10 ^ length b)"
    using assms by (rule price_grid_value)
  define n s g where "n = int (digits_val (a @ b))" and "s = (10 :: int) ^ length b" and "g = gcd n s"
  have n: "n > 0" and mp: "m = n div g" "p = s div g"
    using pos m p by (simp_all add: n_def s_def g_def)
  then have g: "g > 0" by (simp add: g_def)
  have split: "n = m * g" "s = p * g" by (simp_all add: mp g_def)
  have "0 < m" using n g split(1) zero_less_mult_pos2 by blast
  moreover have "s > 0" by (simp add: s_def)
  then have "0 < p" using g zero_less_mult_pos2 [of p g] unfolding split(2) by blast
  moreover have "coprime m p" unfolding mp g_def using n by (intro div_gcd_coprime) simp
  moreover have "to_float (PStr (in_tick_size_str i)) = Fin (of_int m / of_int p)"
  proof -
    have shape: "?t = a @ CHR ''.'' # b \<or> (?t = a \<and> b = [])" using partition_remove [OF ab(1)] by simp
    then have ne: "?t \<noteq> []" using ab(3) by auto
    have "parse_float (in_tick_size_str i) =
        Inr (Fin (of_nat (digits_val (a @ b)) * ten_pow (- int (length b))))"
      by (rule parse_float_plain [OF refl ne _ scan_number_plain [OF ab(2,3) shape]])
        (use shape ab(2) in \<open>auto simp: list_all_iff\<close>)
    moreover have "(of_nat (digits_val (a @ b)) :: rat) * ten_pow (- int (length b)) = of_int n / of_int s"
      by (simp add: ten_pow_def n_def s_def)
    moreover have "(of_int n :: rat) / of_int s = of_int m / of_int p"
      using g by (simp add: split)
    moreover have "in_tick_size_str i \<noteq> []" using ne by (auto simp: strip_def)
    ultimately show ?thesis by (simp add: to_float_def)
  qed
  ultimately show ?thesis by blast
qed

text \<open>
  Timeframes translate one to one: a TradingView timeframe maps to an interval exactly when
  that interval maps back to it.
\<close>

theorem timeframes_round_trip:
  "to_exchange_timeframe tf = Inr i \<longleftrightarrow> to_tradingview_timeframe i = Inr tf"
  by (auto simp: to_exchange_timeframe_def to_tradingview_timeframe_def TIMEFRAMES_INV_def
      TIMEFRAMES_def split: if_splits)

text \<open>
  Whatever the venue answers and whatever was resolved before, a symbol in the perpetual
  notation (\<open>.P\<close>) never resolves to a spot instrument.
\<close>

theorem perpetual_never_spot:
  assumes "snd (resolve_market tr api symbol (run_ops (provider_step tr api) ops new_provider)) = Inr i"
    and "ends_with (upper (strip_prefix (strip (tr symbol)))) ''.P''"
  shows "in_category i \<noteq> CATEGORY_SPOT"
proof -
  let ?P = "run_ops (provider_step tr api) ops new_provider"
  have "cache_ok ?P" by (rule provider_machine.run_inv [OF provider_machine.init_inv])
  then have "derivative (in_category i)"
    using resolve_cache_ok(2) [OF prod.collapse [symmetric]] assms by blast
  then show ?thesis by (auto simp: derivative_def category_defs)
qed

section \<open>Concrete instances\<close>

definition example_entry :: jdict where
  "example_entry =
     [(''symbol'', PStr ''BTCUSDT''), (''contractType'', PStr ''LinearPerpetual''),
      (''status'', PStr ''Trading''), (''priceFilter'', PDict [(''tickSize'', PStr ''0.10'')]),
      (''lotSizeFilter'', PDict [(''qtyStep'', PStr ''0.001'')])]"

text \<open>A venue that lists one linear perpetual and answers 10001 elsewhere.\<close>

definition example_api :: instruments_api where
  "example_api category symbol =
     (if category = CATEGORY_LINEAR \<and> symbol = ''BTCUSDT''
      then Inr [(''list'', PList [PDict example_entry])]
      else Inl (Bybit (BybitAPIError ''params error'' 10001)))"

theorem price_grid_exact_witness:
  "\<exists>i. parse_instrument CATEGORY_LINEAR example_entry = Inr i \<and>
     to_float (PStr (in_tick_size_str i)) = Fin (of_int 1 / of_int 10)"
proof -
  have "case parse_instrument CATEGORY_LINEAR example_entry of
      Inr i \<Rightarrow> (case price_grid i of Inr g \<Rightarrow> g = (1, 10) | Inl e \<Rightarrow> False) | Inl e \<Rightarrow> False"
    by code_simp
  then obtain i where i: "parse_instrument CATEGORY_LINEAR example_entry = Inr i" "price_grid i = Inr (1, 10)"
    by (auto split: sum.splits)
  from price_grid_exact [OF i(2)] i(1) show ?thesis by blast
qed

theorem perpetual_never_spot_witness:
  "\<exists>i. snd (resolve_market (\<lambda>s. s) example_api ''bybit:btcusdt.p'' new_provider) = Inr i \<and>
     in_category i \<noteq> CATEGORY_SPOT"
proof -
  have "case snd (resolve_market (\<lambda>s. s) example_api ''bybit:btcusdt.p'' new_provider) of
      Inr i \<Rightarrow> True | Inl e \<Rightarrow> False"
    by code_simp
  then obtain i where i: "snd (resolve_market (\<lambda>s. s) example_api ''bybit:btcusdt.p'' new_provider) = Inr i"
    by (auto split: sum.splits)
  have "ends_with (upper (strip_prefix (strip ''bybit:btcusdt.p''))) ''.P''" by code_simp
  from perpetual_never_spot [of "\<lambda>s. s" example_api _ "[]", OF _ this] i show ?thesis by simp
qed

end
