(* ===== verification/Market_Data.thy ===== *)
theory Market_Data
  imports Instruments "HOL-Library.List_Lexorder"
begin

text \<open>
  The historical side of \<^verbatim>\<open>src/src/pynecore_bybit/provider.py\<close>: the symbol list, the symbol
  metadata and \<open>download_ohlcv\<close>. The kline endpoint is a parameter (a function from the window
  to the \<open>result\<close> object or the exception raised), so the safety theorem holds for every answer it
  may give. \<open>save_ohlcv_data\<close> is the list of bars saved; a raise part-way leaves the bars saved
  before it. The progress callback is not modelled.
\<close>

section \<open>Bars\<close>

record ohlcv =
  oh_timestamp :: int
  oh_open :: num
  oh_high :: num
  oh_low :: num
  oh_close :: num
  oh_volume :: num
  oh_is_closed :: bool

text \<open>\<open>row[i]\<close>\<close>

fun row_item :: "py \<Rightarrow> nat \<Rightarrow> py_error + py" where
  "row_item (PList xs) i = (if i < length xs then Inr (xs ! i) else Inl IndexErr)"
| "row_item (PStr s) i = (if i < length s then Inr (PStr [s ! i]) else Inl IndexErr)"
| "row_item (PDict d) i = Inl KeyErr"
| "row_item v i = Inl TypeErr"

definition row_start :: "py \<Rightarrow> py_error + int" where
  "row_start row = res_bind (row_item row 0) py_int"

definition row_float :: "py \<Rightarrow> nat \<Rightarrow> py_error + num" where
  "row_float row i = res_bind (row_item row i) py_float"

definition row_bar :: "bool \<Rightarrow> int \<Rightarrow> py \<Rightarrow> py_error + ohlcv" where
  "row_bar cl start row =
     res_bind (row_float row 1) (\<lambda>o1. res_bind (row_float row 2) (\<lambda>h.
     res_bind (row_float row 3) (\<lambda>l. res_bind (row_float row 4) (\<lambda>c.
     res_bind (row_float row 5) (\<lambda>v.
       Inr \<lparr>oh_timestamp = start, oh_open = o1, oh_high = h, oh_low = l, oh_close = c,
            oh_volume = v, oh_is_closed = cl\<rparr>)))))"

text \<open>\<open>sorted(rows, key=lambda r: int(r[0]))\<close>: the keys are computed for all rows first.\<close>

definition sorted_rows :: "py \<Rightarrow> py_error + (int \<times> py) list" where
  "sorted_rows rows =
     res_bind (as_list rows) (\<lambda>rs.
     res_bind (res_map (\<lambda>r. res_bind (row_start r) (\<lambda>t. Inr (t, r))) rs) (\<lambda>keyed.
       Inr (sort_key fst keyed)))"

section \<open>Downloading\<close>

definition KLINE_LIMIT :: int where "KLINE_LIMIT = 1000"

definition effective_limit :: "int option \<Rightarrow> int" where
  "effective_limit limit =
     (let l = (case limit of Some n \<Rightarrow> if n > 0 then n else KLINE_LIMIT | None \<Rightarrow> KLINE_LIMIT)
      in max 2 (min l KLINE_LIMIT))"

type_synonym kline_api = "int \<Rightarrow> int \<Rightarrow> raised + jdict"

text \<open>The loop over one window's rows: the last bar written and the bars saved, and a raise.\<close>

fun save_rows ::
    "string \<Rightarrow> int \<Rightarrow> int \<Rightarrow> (int \<times> py) list \<Rightarrow> int option \<Rightarrow> ohlcv list \<Rightarrow>
     (int option \<times> ohlcv list) \<times> raised option" where
  "save_rows interval cursor now_ts [] last_written saved = ((last_written, saved), None)"
| "save_rows interval cursor now_ts ((bar_start, row) # rows) last_written saved =
     (if bar_start < cursor then save_rows interval cursor now_ts rows last_written saved
      else
        case bar_close_ts bar_start interval of
          Inl e \<Rightarrow> ((last_written, saved), Some (Lang e))
        | Inr close \<Rightarrow>
            if close > now_ts then save_rows interval cursor now_ts rows last_written saved
            else if (case last_written of Some w \<Rightarrow> bar_start \<le> w | None \<Rightarrow> False)
            then save_rows interval cursor now_ts rows last_written saved
            else
              case row_bar False bar_start row of
                Inl e \<Rightarrow> ((last_written, saved), Some (Lang e))
              | Inr bar \<Rightarrow>
                  save_rows interval cursor now_ts rows (Some bar_start) (saved @ [bar]))"

definition skip_window :: "string \<Rightarrow> int \<Rightarrow> int \<Rightarrow> py_error + int" where
  "skip_window interval cursor chunk_end =
     res_bind (add_interval cursor interval 1) (\<lambda>nx. Inr (max chunk_end nx))"

definition next_cursor :: "string \<Rightarrow> int \<Rightarrow> int \<Rightarrow> int option \<Rightarrow> py_error + int" where
  "next_cursor interval cursor chunk_end last_written =
     (case last_written of
        Some w \<Rightarrow> if w \<ge> cursor then add_interval w interval 1
                  else skip_window interval cursor chunk_end
      | None \<Rightarrow> skip_window interval cursor chunk_end)"

lemma skip_window_later: "skip_window interval cursor ce = Inr c \<Longrightarrow> cursor < c"
  using add_interval_later [of cursor interval 1] by (auto simp: skip_window_def res_bind_Inr_iff)

lemma next_cursor_later: "next_cursor interval cursor ce w = Inr c \<Longrightarrow> cursor < c"
  using add_interval_later [of _ interval 1] skip_window_later
  by (fastforce simp: next_cursor_def split: option.splits if_splits)

function download_loop ::
    "kline_api \<Rightarrow> string \<Rightarrow> int \<Rightarrow> int \<Rightarrow> int \<Rightarrow> int \<Rightarrow> int option \<Rightarrow> ohlcv list \<Rightarrow>
     ohlcv list \<times> raised option" where
  "download_loop api interval limit end_ts now_ts cursor last_written saved =
     (if cursor < end_ts
      then
        case add_interval cursor interval (limit - 1) of
          Inl e \<Rightarrow> (saved, Some (Lang e))
        | Inr window \<Rightarrow>
            (case api cursor (min window end_ts) of
               Inl e \<Rightarrow> (saved, Some e)
             | Inr result \<Rightarrow>
                 if \<not> truthy (jget result ''list'')
                 then
                   (case skip_window interval cursor (min window end_ts) of
                      Inl e \<Rightarrow> (saved, Some (Lang e))
                    | Inr c \<Rightarrow>
                        download_loop api interval limit end_ts now_ts c last_written saved)
                 else
                   (case sorted_rows (jget result ''list'') of
                      Inl e \<Rightarrow> (saved, Some (Lang e))
                    | Inr rows \<Rightarrow>
                        (case save_rows interval cursor now_ts rows last_written saved of
                           ((w, saved'), Some e) \<Rightarrow> (saved', Some e)
                         | ((w, saved'), None) \<Rightarrow>
                             (case next_cursor interval cursor (min window end_ts) w of
                                Inl e \<Rightarrow> (saved', Some (Lang e))
                              | Inr c \<Rightarrow>
                                  download_loop api interval limit end_ts now_ts c w saved'))))
      else (saved, None))"
  by pat_completeness auto
termination
  by (relation "measure (\<lambda>(api, interval, limit, end_ts, now_ts, cursor, w, saved). nat (end_ts - cursor))")
    (auto dest: skip_window_later next_cursor_later)

declare download_loop.simps [simp del]

text \<open>
  \<open>download_ohlcv\<close> on resolved datetimes: \<open>time_from\<close>, \<open>time_to\<close> and the two readings of the clock
  are epoch seconds. The market is resolved before (\<open>get_market\<close>), so the endpoint is bound to it.
\<close>

definition download_ohlcv ::
    "kline_api \<Rightarrow> string \<Rightarrow> int option \<Rightarrow> rat \<Rightarrow> rat \<Rightarrow> rat \<Rightarrow> rat \<Rightarrow> ohlcv list \<times> raised option" where
  "download_ohlcv api interval limit time_from time_to now1 now2 =
     download_loop api interval (effective_limit limit)
       (trunc (min time_to now1) * 1000) (trunc now2 * 1000) (trunc time_from * 1000) None []"

section \<open>Safety of the download\<close>

definition closed_bar :: "string \<Rightarrow> int \<Rightarrow> int \<Rightarrow> ohlcv \<Rightarrow> bool" where
  "closed_bar interval start now_ts b \<longleftrightarrow> start \<le> oh_timestamp b \<and>
     (\<exists>c. bar_close_ts (oh_timestamp b) interval = Inr c \<and> c \<le> now_ts)"

definition ascending :: "ohlcv list \<Rightarrow> bool" where
  "ascending bs \<longleftrightarrow> sorted_wrt (<) (map oh_timestamp bs)"

text \<open>The state of the download: bars ascending and closed, the last one known.\<close>

definition saved_ok :: "string \<Rightarrow> int \<Rightarrow> int \<Rightarrow> int option \<Rightarrow> ohlcv list \<Rightarrow> bool" where
  "saved_ok interval start now_ts w saved \<longleftrightarrow> ascending saved \<and>
     (\<forall>b \<in> set saved. closed_bar interval start now_ts b) \<and>
     (\<forall>b \<in> set saved. \<exists>t. w = Some t \<and> oh_timestamp b \<le> t)"

lemma row_bar_timestamp: "row_bar cl t row = Inr b \<Longrightarrow> oh_timestamp b = t \<and> oh_is_closed b = cl"
  by (auto simp: row_bar_def res_bind_Inr_iff)

lemma ascending_snoc:
  "ascending bs \<Longrightarrow> \<forall>b \<in> set bs. oh_timestamp b < oh_timestamp c \<Longrightarrow> ascending (bs @ [c])"
  by (auto simp: ascending_def sorted_wrt_append)

lemma saved_ok_snoc:
  assumes "saved_ok interval start now_ts w saved" and "start \<le> t"
    and "bar_close_ts t interval = Inr c" and "c \<le> now_ts"
    and "\<not> (case w of Some x \<Rightarrow> t \<le> x | None \<Rightarrow> False)" and "row_bar cl t row = Inr b"
  shows "saved_ok interval start now_ts (Some t) (saved @ [b])"
proof -
  have b: "oh_timestamp b = t" using row_bar_timestamp [OF assms(6)] by simp
  have less: "oh_timestamp a < t" if "a \<in> set saved" for a
    using assms(1,5) that by (fastforce simp: saved_ok_def split: option.splits)
  have "ascending (saved @ [b])"
    using assms(1) less b by (intro ascending_snoc) (auto simp: saved_ok_def)
  then show ?thesis
    using assms(1-4) less b by (force simp: saved_ok_def closed_bar_def)
qed

lemma save_rows_ok:
  assumes "save_rows interval cursor now_ts rows w saved = ((w', saved'), e)"
    and "saved_ok interval start now_ts w saved" and "start \<le> cursor"
  shows "saved_ok interval start now_ts w' saved'"
  using assms
proof (induction interval cursor now_ts rows w saved rule: save_rows.induct)
  case (1 interval cursor now_ts w saved)
  then show ?case by simp
next
  case (2 interval cursor now_ts t row rows w saved)
  show ?case
  proof (cases "t < cursor")
    case True
    then show ?thesis using 2 by simp
  next
    case late: False
    show ?thesis
    proof (cases "bar_close_ts t interval")
      case (Inl a)
      then show ?thesis using "2.prems" late by simp
    next
      case close: (Inr c)
      show ?thesis
      proof (cases "c > now_ts \<or> (case w of Some x \<Rightarrow> t \<le> x | None \<Rightarrow> False)")
        case True
        then show ?thesis using 2 late close by (auto split: if_splits)
      next
        case new: False
        show ?thesis
        proof (cases "row_bar False t row")
          case (Inl a)
          then show ?thesis using "2.prems" late close new by auto
        next
          case (Inr b)
          have "start \<le> t" using late "2.prems"(3) by simp
          from saved_ok_snoc [OF "2.prems"(2) this close _ _ Inr]
          have "saved_ok interval start now_ts (Some t) (saved @ [b])" using new by auto
          then show ?thesis
            using "2.IH"(4) [OF late close _ _ Inr] "2.prems"(1,3) late close new Inr by auto
        qed
      qed
    qed
  qed
qed

lemma download_loop_ok:
  assumes "download_loop api interval limit end_ts now_ts cursor w saved = (bars, e)"
    and "saved_ok interval start now_ts w saved" and "start \<le> cursor"
  shows "\<exists>w'. saved_ok interval start now_ts w' bars"
  using assms
proof (induction api interval limit end_ts now_ts cursor w saved rule: download_loop.induct)
  case (1 api interval limit end_ts now_ts cursor w saved)
  note eq = download_loop.simps [of api interval limit end_ts now_ts cursor w saved]
  note run = "1.prems"(1) [unfolded eq]
  note ok = "1.prems"(2,3)
  show ?case
  proof (cases "cursor < end_ts")
    case False
    then show ?thesis using run ok by auto
  next
    case True
    show ?thesis
    proof (cases "add_interval cursor interval (limit - 1)")
      case (Inl a)
      then show ?thesis using True run ok by auto
    next
      case window: (Inr window)
      show ?thesis
      proof (cases "api cursor (min window end_ts)")
        case (Inl a)
        then show ?thesis using True window run ok by auto
      next
        case result: (Inr result)
        show ?thesis
        proof (cases "truthy (jget result ''list'')")
          case False
          then show ?thesis
            using True window result run ok "1.IH"(1) [OF True window result False]
              skip_window_later [of interval cursor]
            by (fastforce split: sum.splits)
        next
          case rows: True
          show ?thesis
          proof (cases "sorted_rows (jget result ''list'')")
            case (Inl a)
            then show ?thesis using True window result rows run ok by auto
          next
            case sorted: (Inr rs)
            obtain w' saved' x where save: "save_rows interval cursor now_ts rs w saved = ((w', saved'), x)"
              by (metis surj_pair)
            note ok' = save_rows_ok [OF save ok]
            show ?thesis
            proof (cases "x")
              case (Some a)
              then show ?thesis using True window result rows sorted save run ok' by auto
            next
              case None
              then show ?thesis
                using True window result rows sorted save run ok' ok(2)
                  next_cursor_later [of interval cursor "min window end_ts" w']
                  "1.IH"(2) [OF True window result _ sorted save [unfolded None, symmetric] refl refl]
                by (fastforce split: sum.splits)
            qed
          qed
        qed
      qed
    qed
  qed
qed

text \<open>
  Where a saved bar comes from: a row the venue served for a window inside the requested range, at or
  after the start of that window. A venue that keeps to its windows serves no row past their end.
\<close>

definition served :: "kline_api \<Rightarrow> int \<Rightarrow> int \<Rightarrow> ohlcv \<Rightarrow> bool" where
  "served api start end_ts b \<longleftrightarrow>
     (\<exists>s e d rs row. start \<le> s \<and> s \<le> oh_timestamp b \<and> s < end_ts \<and> e \<le> end_ts \<and> api s e = Inr d \<and>
        sorted_rows (jget d ''list'') = Inr rs \<and> (oh_timestamp b, row) \<in> set rs \<and>
        row_bar False (oh_timestamp b) row = Inr b)"

definition keeps_windows :: "kline_api \<Rightarrow> bool" where
  "keeps_windows api \<longleftrightarrow>
     (\<forall>s e d rs. api s e = Inr d \<longrightarrow> sorted_rows (jget d ''list'') = Inr rs \<longrightarrow> (\<forall>x \<in> set rs. fst x \<le> e))"

lemma served_in_window: "served api start end_ts b \<Longrightarrow> keeps_windows api \<Longrightarrow> oh_timestamp b \<le> end_ts"
  by (fastforce simp: served_def keeps_windows_def)

lemma save_rows_from:
  assumes "save_rows interval cursor now_ts rows w saved = ((w', saved'), e)" and "b \<in> set saved'"
  shows "b \<in> set saved \<or>
    (\<exists>row. (oh_timestamp b, row) \<in> set rows \<and> cursor \<le> oh_timestamp b \<and> row_bar False (oh_timestamp b) row = Inr b)"
  using assms
proof (induction interval cursor now_ts rows w saved rule: save_rows.induct)
  case (1 interval cursor now_ts w saved)
  then show ?case by simp
next
  case (2 interval cursor now_ts t row rows w saved)
  show ?case
  proof (cases "\<exists>c bar. \<not> t < cursor \<and> bar_close_ts t interval = Inr c \<and> \<not> c > now_ts \<and>
      \<not> (case w of Some x \<Rightarrow> t \<le> x | None \<Rightarrow> False) \<and> row_bar False t row = Inr bar")
    case False
    then show ?thesis using 2 by (auto split: if_splits sum.splits)
  next
    case True
    then obtain c bar where new: "\<not> t < cursor" "bar_close_ts t interval = Inr c" "\<not> c > now_ts"
      "\<not> (case w of Some x \<Rightarrow> t \<le> x | None \<Rightarrow> False)" "row_bar False t row = Inr bar" by blast
    have "save_rows interval cursor now_ts rows (Some t) (saved @ [bar]) = ((w', saved'), e)"
      using "2.prems"(1) new by simp
    from "2.IH"(4) [OF new this "2.prems"(2)] show ?thesis
      using row_bar_timestamp [OF new(5)] new(1,5) by (auto simp: not_less)
  qed
qed

lemma download_loop_served:
  assumes "download_loop api interval limit end_ts now_ts cursor w saved = (bars, e)"
    and "\<forall>b \<in> set saved. served api start end_ts b" and "start \<le> cursor"
  shows "\<forall>b \<in> set bars. served api start end_ts b"
  using assms
proof (induction api interval limit end_ts now_ts cursor w saved rule: download_loop.induct)
  case (1 api interval limit end_ts now_ts cursor w saved)
  note eq = download_loop.simps [of api interval limit end_ts now_ts cursor w saved]
  note run = "1.prems"(1) [unfolded eq]
  note ok = "1.prems"(2,3)
  show ?case
  proof (cases "cursor < end_ts")
    case False
    then show ?thesis using run ok by auto
  next
    case True
    show ?thesis
    proof (cases "add_interval cursor interval (limit - 1)")
      case (Inl a)
      then show ?thesis using True run ok by auto
    next
      case window: (Inr window)
      show ?thesis
      proof (cases "api cursor (min window end_ts)")
        case (Inl a)
        then show ?thesis using True window run ok by auto
      next
        case result: (Inr result)
        show ?thesis
        proof (cases "truthy (jget result ''list'')")
          case False
          then show ?thesis
            using True window result run ok "1.IH"(1) [OF True window result False]
              skip_window_later [of interval cursor]
            by (fastforce split: sum.splits)
        next
          case rows: True
          show ?thesis
          proof (cases "sorted_rows (jget result ''list'')")
            case (Inl a)
            then show ?thesis using True window result rows run ok by auto
          next
            case sorted: (Inr rs)
            obtain w' saved' x where save: "save_rows interval cursor now_ts rs w saved = ((w', saved'), x)"
              by (metis surj_pair)
            have ok': "\<forall>b \<in> set saved'. served api start end_ts b"
            proof
              fix b assume "b \<in> set saved'"
              from save_rows_from [OF save this] show "served api start end_ts b"
              proof
                assume "\<exists>row. (oh_timestamp b, row) \<in> set rs \<and> cursor \<le> oh_timestamp b \<and>
                  row_bar False (oh_timestamp b) row = Inr b"
                then show ?thesis using ok(2) True result sorted
                  unfolding served_def by (meson min.cobounded2)
              qed (use ok(1) in blast)
            qed
            show ?thesis
            proof (cases "x")
              case (Some a)
              then show ?thesis using True window result rows sorted save run ok' by auto
            next
              case None
              then show ?thesis
                using True window result rows sorted save run ok' ok(2)
                  next_cursor_later [of interval cursor "min window end_ts" w']
                  "1.IH"(2) [OF True window result _ sorted save [unfolded None, symmetric] refl refl]
                by (fastforce split: sum.splits)
            qed
          qed
        qed
      qed
    qed
  qed
qed

section \<open>Completeness of the download\<close>

text \<open>
  What the venue documents of the endpoint, for the bars \<open>H\<close> it has: a window of at most \<open>limit\<close> bar
  opens is answered with every bar that opens in it, each row well formed.
\<close>

definition honest_klines :: "int set \<Rightarrow> int \<Rightarrow> kline_api \<Rightarrow> bool" where
  "honest_klines H width api \<longleftrightarrow>
     (\<forall>s e. s \<le> e \<longrightarrow> e - s \<le> width \<longrightarrow>
        (\<exists>d rs. api s e = Inr d \<and> jget d ''list'' = PList rs \<and>
           (\<forall>r \<in> set rs. \<exists>t b. row_start r = Inr t \<and> row_bar False t r = Inr b) \<and>
           {t. \<exists>r \<in> set rs. row_start r = Inr t} = {t \<in> H. s \<le> t \<and> t \<le> e}))"

definition spaced :: "int \<Rightarrow> int set \<Rightarrow> bool" where
  "spaced ms H \<longleftrightarrow> (\<forall>a \<in> H. \<forall>b \<in> H. a < b \<longrightarrow> a + ms \<le> b)"

definition saved_times :: "ohlcv list \<Rightarrow> int set" where
  "saved_times bs = oh_timestamp ` set bs"

lemma res_map_total:
  "\<forall>x \<in> set xs. \<exists>y. f x = Inr y \<Longrightarrow> \<exists>ys. res_map f xs = Inr ys"
  by (induction xs) auto

lemma res_map_set: "res_map f xs = Inr ys \<Longrightarrow> set ys = {y. \<exists>x \<in> set xs. f x = Inr y}"
  by (induction xs arbitrary: ys) (auto simp: res_bind_Inr_iff)

lemma sorted_rows_ok:
  assumes "\<forall>r \<in> set rs. \<exists>t b. row_start r = Inr t \<and> row_bar False t r = Inr b"
  obtains ks where "sorted_rows (PList rs) = Inr ks" "sorted (map fst ks)"
    "fst ` set ks = {t. \<exists>r \<in> set rs. row_start r = Inr t}"
    "\<forall>(t, r) \<in> set ks. \<exists>b. row_bar False t r = Inr b"
proof -
  let ?f = "\<lambda>r. res_bind (row_start r) (\<lambda>t. Inr (t, r))"
  obtain ks where ks: "res_map ?f rs = Inr ks"
    using res_map_total [of rs ?f] assms by fastforce
  then have s: "sorted_rows (PList rs) = Inr (sort_key fst ks)" by (simp add: sorted_rows_def)
  have "set ks = {(t, r). r \<in> set rs \<and> row_start r = Inr t}"
    using res_map_set [OF ks] by (auto simp: res_bind_Inr_iff)
  then show ?thesis using that [OF s] assms by (fastforce simp: image_def)
qed

text \<open>
  What a window of rows with opens \<open>ts\<close> does: exactly its closed bars from the cursor on are added,
  and the last bar written is at or after each of them.
\<close>

definition window_kept ::
    "int \<Rightarrow> int \<Rightarrow> int \<Rightarrow> int set \<Rightarrow> int option \<Rightarrow> ohlcv list \<Rightarrow> int option \<Rightarrow> ohlcv list \<Rightarrow> bool" where
  "window_kept ms now_ts cursor ts w saved w' saved' \<longleftrightarrow>
     saved_times saved' = saved_times saved \<union> {t \<in> ts. cursor \<le> t \<and> t + ms \<le> now_ts} \<and>
     (\<forall>x. w' = Some x \<longrightarrow> x < cursor \<or> x \<in> saved_times saved') \<and>
     (w' = w \<or> (\<exists>x \<in> ts. w' = Some x)) \<and>
     (\<forall>t \<in> ts. cursor \<le> t \<longrightarrow> t + ms \<le> now_ts \<longrightarrow> (\<exists>x. w' = Some x \<and> t \<le> x))"

text \<open>The last bar written lies before the window or is the newest bar saved so far.\<close>

definition last_ok :: "int \<Rightarrow> int set \<Rightarrow> int option \<Rightarrow> ohlcv list \<Rightarrow> bool" where
  "last_ok cursor ts w saved \<longleftrightarrow>
     (\<forall>x. w = Some x \<longrightarrow> x < cursor \<or> x \<in> saved_times saved \<and> (\<forall>t \<in> ts. x \<le> t))"

lemma window_kept_skip:
  assumes "window_kept ms now_ts cursor ts w saved w' saved'" and "t < cursor \<or> t + ms > now_ts"
  shows "window_kept ms now_ts cursor (insert t ts) w saved w' saved'"
  using assms unfolding window_kept_def by (auto 0 3)

lemma window_kept_seen:
  assumes "window_kept ms now_ts cursor ts (Some t) saved w' saved'" and "t \<in> saved_times saved"
    and "\<forall>x \<in> ts. t \<le> x"
  shows "window_kept ms now_ts cursor (insert t ts) (Some t) saved w' saved'"
  using assms unfolding window_kept_def by (auto 0 3)

lemma window_kept_fresh:
  assumes "window_kept ms now_ts cursor ts (Some t) saved1 w' saved'"
    and "saved_times saved1 = insert t (saved_times saved)" and "\<forall>x \<in> ts. t \<le> x"
    and "cursor \<le> t" "t + ms \<le> now_ts"
  shows "window_kept ms now_ts cursor (insert t ts) w saved w' saved'"
  using assms unfolding window_kept_def by (auto 0 3)

text \<open>One window: with every row well formed, each closed bar from the cursor on ends up saved.\<close>

lemma save_rows_complete:
  assumes "map_of INTERVAL_MS interval = Some ms"
    and "sorted (map fst rows)" and "\<forall>(t, r) \<in> set rows. \<exists>b. row_bar False t r = Inr b"
    and "last_ok cursor (fst ` set rows) w saved"
  shows "\<exists>w' saved'. save_rows interval cursor now_ts rows w saved = ((w', saved'), None) \<and>
    window_kept ms now_ts cursor (fst ` set rows) w saved w' saved'"
  using assms(2-)
proof (induction rows arbitrary: w saved)
  case Nil
  then show ?case by (auto simp: window_kept_def last_ok_def)
next
  case (Cons p rows)
  obtain t r where p: "p = (t, r)" by fastforce
  have tail: "sorted (map fst rows)" "\<forall>(t, r) \<in> set rows. \<exists>b. row_bar False t r = Inr b"
    "\<forall>x \<in> fst ` set rows. t \<le> x" "last_ok cursor (fst ` set rows) w saved"
    using Cons.prems p by (auto simp: last_ok_def)
  have close: "bar_close_ts t interval = Inr (t + ms)"
    using assms(1) by (simp add: bar_close_ts_def add_interval_def)
  obtain b where b: "row_bar False t r = Inr b" "oh_timestamp b = t"
    using Cons.prems(2) p row_bar_timestamp by fastforce
  have img: "fst ` set (p # rows) = insert t (fst ` set rows)" using p by simp
  consider (skip) "t < cursor \<or> t + ms > now_ts"
    | (seen) x where "cursor \<le> t" "t + ms \<le> now_ts" "w = Some x" "t \<le> x"
    | (fresh) "cursor \<le> t" "t + ms \<le> now_ts" "\<not> (case w of Some x \<Rightarrow> t \<le> x | None \<Rightarrow> False)"
    by (cases w) force+
  then show ?case
  proof cases
    case skip
    then have "save_rows interval cursor now_ts (p # rows) w saved = save_rows interval cursor now_ts rows w saved"
      using close p by auto
    then show ?thesis using Cons.IH [OF tail(1,2,4)] window_kept_skip [OF _ skip] img by metis
  next
    case seen
    have x: "x = t" "t \<in> saved_times saved" using Cons.prems(3) seen p by (auto simp: last_ok_def)
    then have "save_rows interval cursor now_ts (p # rows) w saved = save_rows interval cursor now_ts rows w saved"
      using close p seen by simp
    then show ?thesis
      using Cons.IH [OF tail(1,2,4)] window_kept_seen [OF _ x(2) tail(3)] img seen(3) x(1) by metis
  next
    case fresh
    have snoc: "saved_times (saved @ [b]) = insert t (saved_times saved)"
      using b by (simp add: saved_times_def)
    then have "last_ok cursor (fst ` set rows) (Some t) (saved @ [b])"
      using tail(3) by (simp add: last_ok_def)
    note ih = Cons.IH [OF tail(1,2) this]
    have "save_rows interval cursor now_ts (p # rows) w saved =
        save_rows interval cursor now_ts rows (Some t) (saved @ [b])"
      using close p fresh b by auto
    then show ?thesis using ih window_kept_fresh [OF _ snoc tail(3) fresh(1,2)] img by metis
  qed
qed

text \<open>The invariant of the window loop: every closed bar before the cursor is saved.\<close>

definition download_inv ::
    "int set \<Rightarrow> int \<Rightarrow> int \<Rightarrow> int \<Rightarrow> int \<Rightarrow> int \<Rightarrow> int option \<Rightarrow> ohlcv list \<Rightarrow> bool" where
  "download_inv H ms start end_ts now_ts cursor w saved \<longleftrightarrow>
     saved_times saved \<subseteq> H \<and> (\<forall>x. w = Some x \<longrightarrow> x < cursor) \<and>
     {t \<in> H. start \<le> t \<and> t < min cursor end_ts \<and> t + ms \<le> now_ts} \<subseteq> saved_times saved"

lemma download_inv_next:
  assumes "download_inv H ms start end_ts now_ts cursor w saved" and "spaced ms H" and "ms > 0"
    and "ts = {t \<in> H. cursor \<le> t \<and> t \<le> chunk_end}" and "min (cursor + ms) end_ts \<le> chunk_end"
    and "window_kept ms now_ts cursor ts w saved w' saved'"
    and "next_cursor interval cursor chunk_end w' = Inr c" and "map_of INTERVAL_MS interval = Some ms"
  shows "download_inv H ms start end_ts now_ts c w' saved'"
proof -
  note kept = assms(6) [unfolded window_kept_def] and inv = assms(1) [unfolded download_inv_def]
  have sub: "saved_times saved' \<subseteq> H" using kept inv assms(4) by auto
  have add: "add_interval t interval 1 = Inr (t + ms)" for t
    using assms(8) by (simp add: add_interval_def)
  show ?thesis
  proof (cases "\<exists>x. w' = Some x \<and> x \<ge> cursor")
    case True
    then obtain x where x: "w' = Some x" "x \<ge> cursor" by blast
    then have c: "c = x + ms" using assms(7) add by (simp add: next_cursor_def)
    have xH: "x \<in> H" "x \<le> chunk_end" using kept inv x assms(4) by auto
    have "t \<in> saved_times saved'" if t: "t \<in> H" "start \<le> t" "t < c" "t < end_ts" "t + ms \<le> now_ts" for t
    proof (cases "t < cursor")
      case True
      then show ?thesis using inv kept t by auto
    next
      case False
      have "t \<le> x" using assms(2) xH t(1,3) c by (force simp: spaced_def)
      then show ?thesis using kept False t xH(2) assms(4) by auto
    qed
    then show ?thesis using sub x c assms(3) by (auto simp: download_inv_def)
  next
    case False
    then have c: "c = max chunk_end (cursor + ms)"
      using assms(7) add by (auto simp: next_cursor_def skip_window_def split: option.splits if_splits)
    have "t \<in> saved_times saved'" if t: "t \<in> H" "start \<le> t" "t < c" "t < end_ts" "t + ms \<le> now_ts" for t
    proof (cases "t < cursor")
      case True
      then show ?thesis using inv kept t by auto
    next
      case late: False
      have "t \<le> chunk_end" using t(3,4) c assms(5) by auto
      then show ?thesis using kept late t assms(4) by auto
    qed
    then show ?thesis using sub False c assms(3) by (force simp: download_inv_def)
  qed
qed

lemma download_loop_complete:
  assumes "honest_klines H ((limit - 1) * ms) api" and "spaced ms H"
    and "map_of INTERVAL_MS interval = Some ms" and "limit \<ge> 2"
    and "download_inv H ms start end_ts now_ts cursor w saved"
  shows "\<exists>bars. download_loop api interval limit end_ts now_ts cursor w saved = (bars, None) \<and>
    saved_times bars \<subseteq> H \<and>
    {t \<in> H. start \<le> t \<and> t < end_ts \<and> t + ms \<le> now_ts} \<subseteq> saved_times bars"
  using assms
proof (induction api interval limit end_ts now_ts cursor w saved rule: download_loop.induct)
  case (1 api interval limit end_ts now_ts cursor w saved)
  note eq = download_loop.simps [of api interval limit end_ts now_ts cursor w saved]
  note inv = "1.prems"(5)
  have ms: "ms > 0" using interval_ms_pos "1.prems"(3) by blast
  have add: "add_interval t interval n = Inr (t + n * ms)" for t n
    using "1.prems"(3) by (simp add: add_interval_def)
  show ?case
  proof (cases "cursor < end_ts")
    case False
    then show ?thesis using inv eq by (auto simp: download_inv_def)
  next
    case True
    define ce where "ce = min (cursor + (limit - 1) * ms) end_ts"
    define k where "k = (limit - 1) * ms"
    have "ms \<le> k" using "1.prems"(4) ms mult_right_mono [of 1 "limit - 1" ms] by (simp add: k_def)
    then have ce: "cursor \<le> ce" "ce - cursor \<le> (limit - 1) * ms" "min (cursor + ms) end_ts \<le> ce"
      using True ms unfolding ce_def k_def [symmetric] by auto
    define ts where "ts = {t \<in> H. cursor \<le> t \<and> t \<le> ce}"
    obtain d rs where api: "api cursor ce = Inr d" "jget d ''list'' = PList rs"
      "\<forall>r \<in> set rs. \<exists>t b. row_start r = Inr t \<and> row_bar False t r = Inr b"
      "{t. \<exists>r \<in> set rs. row_start r = Inr t} = ts"
      using "1.prems"(1) ce(1,2) unfolding honest_klines_def ts_def by blast
    note next_inv = download_inv_next [OF inv "1.prems"(2) ms ts_def ce(3)]
    show ?thesis
    proof (cases "rs = []")
      case True': True
      then have "window_kept ms now_ts cursor ts w saved w saved"
        using api(4) inv by (auto simp: window_kept_def download_inv_def)
      moreover have skip: "skip_window interval cursor ce = Inr (max ce (cursor + ms))"
        using add by (simp add: skip_window_def)
      then have "next_cursor interval cursor ce w = Inr (max ce (cursor + ms))"
        using inv by (auto simp: next_cursor_def download_inv_def split: option.splits)
      ultimately have inv': "download_inv H ms start end_ts now_ts (max ce (cursor + ms)) w saved"
        using next_inv "1.prems"(3) by blast
      have go: "download_loop api interval limit end_ts now_ts cursor w saved =
          download_loop api interval limit end_ts now_ts (max ce (cursor + ms)) w saved"
        by (subst eq) (simp add: True add api(1,2) True' skip flip: ce_def)
      have "\<not> truthy (jget d ''list'')" using api(2) True' by simp
      from "1.IH"(1) [OF True add, folded ce_def, OF api(1) this skip "1.prems"(1-4) inv']
      show ?thesis by (simp only: go)
    next
      case rows: False
      obtain ks where ks: "sorted_rows (PList rs) = Inr ks" "sorted (map fst ks)" "fst ` set ks = ts"
        "\<forall>(t, r) \<in> set ks. \<exists>b. row_bar False t r = Inr b"
        using sorted_rows_ok [OF api(3)] unfolding api(4) by blast
      have "last_ok cursor (fst ` set ks) w saved" using inv by (auto simp: last_ok_def download_inv_def)
      then obtain w' saved' where save: "save_rows interval cursor now_ts ks w saved = ((w', saved'), None)"
        and kept: "window_kept ms now_ts cursor ts w saved w' saved'"
        using save_rows_complete [OF "1.prems"(3) ks(2,4)] ks(3) by metis
      have "\<exists>c. next_cursor interval cursor ce w' = Inr c"
        by (simp add: next_cursor_def skip_window_def add split: option.splits)
      then obtain c where c: "next_cursor interval cursor ce w' = Inr c" by blast
      have inv': "download_inv H ms start end_ts now_ts c w' saved'"
        using next_inv kept c "1.prems"(3) by blast
      have go: "download_loop api interval limit end_ts now_ts cursor w saved =
          download_loop api interval limit end_ts now_ts c w' saved'"
        by (subst eq) (simp add: True add api(1,2) rows ks(1) save c flip: ce_def)
      have "\<not> \<not> truthy (jget d ''list'')" "sorted_rows (jget d ''list'') = Inr ks"
        using api(2) rows ks(1) by simp_all
      from "1.IH"(2) [OF True add, folded ce_def, OF api(1) this save [symmetric] refl refl c
          "1.prems"(1-4) inv']
      show ?thesis by (simp only: go)
    qed
  qed
qed

lemma ascending_unique:
  assumes "ascending a" "ascending b" "saved_times a = saved_times b"
  shows "map oh_timestamp a = map oh_timestamp b"
  using assms by (intro strict_sorted_equal) (auto simp: ascending_def saved_times_def)

section \<open>Symbol lists\<close>

definition INSTRUMENTS_PAGE_LIMIT :: int where "INSTRUMENTS_PAGE_LIMIT = 1000"

definition listed_name :: "instrument_info \<Rightarrow> string" where
  "listed_name info = (if is_perpetual info then in_symbol info @ ''.P'' else in_symbol info)"

text \<open>One page: the entries are parsed in order, a raise part-way loses the whole list.\<close>

definition page_entry :: "string \<Rightarrow> py \<Rightarrow> raised + string list" where
  "page_entry cat entry =
     res_bind (lift_err (as_dict entry)) (\<lambda>e.
     res_bind (lift_err (parse_instrument cat e)) (\<lambda>info.
       Inr (if in_status info \<noteq> ''Trading'' \<or> in_symbol info = [] then [] else [listed_name info])))"

definition page_names :: "string \<Rightarrow> jdict \<Rightarrow> raised + string list" where
  "page_names cat result =
     res_bind (lift_err (as_list (py_or (jget result ''list'') (PList [])))) (\<lambda>entries.
     res_bind (res_map (page_entry cat) entries) (\<lambda>names. Inr (concat names)))"

text \<open>
  The paging endpoint takes the category and the cursor. The walk of one category ends at the first
  page without a cursor; fuel bounds the pages, \<open>None\<close> is a walk still going.
\<close>

type_synonym pages_api = "string \<Rightarrow> py \<Rightarrow> raised + jdict"

fun walk_pages :: "pages_api \<Rightarrow> string \<Rightarrow> nat \<Rightarrow> py \<Rightarrow> string list \<Rightarrow> (raised + string list) option" where
  "walk_pages pages cat 0 cursor out = None"
| "walk_pages pages cat (Suc n) cursor out =
     (case pages cat cursor of
        Inl e \<Rightarrow> Some (Inl e)
      | Inr result \<Rightarrow>
          (case page_names cat result of
             Inl e \<Rightarrow> Some (Inl e)
           | Inr names \<Rightarrow>
               (let nx = py_or (jget result ''nextPageCursor'') PNone in
                if \<not> truthy nx then Some (Inr (out @ names))
                else walk_pages pages cat n nx (out @ names))))"

fun walk_categories ::
    "pages_api \<Rightarrow> nat \<Rightarrow> string list \<Rightarrow> string list \<Rightarrow> (raised + string list) option" where
  "walk_categories pages n [] out = Some (Inr out)"
| "walk_categories pages n (cat # cats) out =
     (case walk_pages pages cat n PNone out of
        None \<Rightarrow> None
      | Some (Inl e) \<Rightarrow> Some (Inl e)
      | Some (Inr out1) \<Rightarrow> walk_categories pages n cats out1)"

definition get_list_of_symbols ::
    "pages_api \<Rightarrow> nat \<Rightarrow> string option \<Rightarrow> (raised + string list) option" where
  "get_list_of_symbols pages n category =
     (case walk_categories pages n
             (case category of Some c \<Rightarrow> if c \<noteq> [] then [c] else CATEGORIES | None \<Rightarrow> CATEGORIES) [] of
        None \<Rightarrow> None
      | Some (Inl e) \<Rightarrow> Some (Inl e)
      | Some (Inr out) \<Rightarrow> Some (Inr (sort_key (map code) out)))"

section \<open>Symbol metadata\<close>

record sym_info =
  sy_prefix :: string
  sy_description :: string
  sy_ticker :: string
  sy_currency :: string
  sy_basecurrency :: "string option"
  sy_period :: string
  sy_type :: string
  sy_volumetype :: string
  sy_mintick :: num
  sy_pricescale :: int
  sy_minmove :: int
  sy_pointvalue :: rat
  sy_mincontract :: num
  sy_opening_hours :: "(int \<times> int \<times> int) list"
  sy_session_starts :: "(int \<times> int) list"
  sy_session_ends :: "(int \<times> int) list"
  sy_timezone :: string
  sy_expiration_date :: "int option"

text \<open>Days with their start and end in seconds of the day.\<close>

definition OPENING_HOURS_24_7 :: "(int \<times> int \<times> int) list" where
  "OPENING_HOURS_24_7 = map (\<lambda>day. (day, 0, 86399)) [0..6]"

definition SESSION_STARTS_24_7 :: "(int \<times> int) list" where
  "SESSION_STARTS_24_7 = map (\<lambda>day. (day, 0)) [0..6]"

definition SESSION_ENDS_24_7 :: "(int \<times> int) list" where
  "SESSION_ENDS_24_7 = map (\<lambda>day. (day, 86399)) [0..6]"

definition syminfo_type_for :: "instrument_info \<Rightarrow> string" where
  "syminfo_type_for market =
     (if in_category market = CATEGORY_SPOT \<or> is_perpetual market then ''crypto'' else ''futures'')"

fun num_le_zero :: "num \<Rightarrow> bool" where
  "num_le_zero (Fin r) = (r \<le> 0)"
| "num_le_zero NegInf = True"
| "num_le_zero PosInf = False"
| "num_le_zero NaN = False"

text \<open>Spot and linear trade on the venue grid, inverse on the grid of the linear sibling.\<close>

definition mincontract_for ::
    "instruments_api \<Rightarrow> instrument_info \<Rightarrow> provider \<Rightarrow> provider \<times> (raised + num)" where
  "mincontract_for api market P =
     (if in_category market = CATEGORY_INVERSE
      then
        (case fetch_instrument api CATEGORY_LINEAR (in_base_coin market @ ''USDT'') P of
           (P1, Inl e) \<Rightarrow> (P1, Inl e)
         | (P1, Inr (Some sibling)) \<Rightarrow> (P1, Inr (in_qty_step sibling))
         | (P1, Inr None) \<Rightarrow> (P1, Inr (Fin 0)))
      else (P, Inr (in_qty_step market)))"

definition sym_info_of ::
    "string \<Rightarrow> string option \<Rightarrow> instrument_info \<Rightarrow> int \<Rightarrow> int \<Rightarrow> num \<Rightarrow> sym_info" where
  "sym_info_of tz timeframe market minmove pricescale mincontract =
     \<lparr>sy_prefix = ''BYBIT'',
      sy_description = in_base_coin market @ ''/'' @ in_quote_coin market @
        (if is_perpetual market then '' Perpetual'' else []),
      sy_ticker = listed_name market, sy_currency = in_quote_coin market,
      sy_basecurrency = (if in_base_coin market = [] then None else Some (in_base_coin market)),
      sy_period = (case timeframe of Some t \<Rightarrow> if t = [] then ''1D'' else t | None \<Rightarrow> ''1D''),
      sy_type = syminfo_type_for market,
      sy_volumetype = (if in_category market = CATEGORY_INVERSE then ''quote'' else ''base''),
      sy_mintick = in_tick_size market, sy_pricescale = pricescale, sy_minmove = minmove,
      sy_pointvalue = 1, sy_mincontract = mincontract,
      sy_opening_hours = OPENING_HOURS_24_7, sy_session_starts = SESSION_STARTS_24_7,
      sy_session_ends = SESSION_ENDS_24_7, sy_timezone = tz,
      sy_expiration_date = in_delivery_time market\<rparr>"

definition update_symbol_info ::
    "(string \<Rightarrow> string) \<Rightarrow> instruments_api \<Rightarrow> string \<Rightarrow> string option \<Rightarrow> string option \<Rightarrow>
     provider \<Rightarrow> provider \<times> (raised + sym_info)" where
  "update_symbol_info tr api tz symbol timeframe P =
     (case get_market tr api symbol P of
        (P1, Inl e) \<Rightarrow> (P1, Inl e)
      | (P1, Inr market) \<Rightarrow>
          if in_status market \<noteq> ''Trading''
          then (P1, Inl (Bybit (BybitSymbolError
                 (''Bybit instrument '' @ quote_str (in_symbol market) @ '' ('' @ in_category market @
                  '') is not tradable (status='' @ quote_str (in_status market) @
                  '') - cannot generate SymInfo''))))
          else if num_le_zero (in_tick_size market)
          then (P1, Inl (Bybit (BybitSymbolError
                 (''Bybit instrument '' @ quote_str (in_symbol market) @
                  '' reports no tickSize - cannot derive mintick''))))
          else
            case price_grid market of
              Inl e \<Rightarrow> (P1, Inl e)
            | Inr (minmove, pricescale) \<Rightarrow>
                (case mincontract_for api market P1 of
                   (P2, Inl e) \<Rightarrow> (P2, Inl e)
                 | (P2, Inr mincontract) \<Rightarrow>
                     (P2, Inr (sym_info_of tz timeframe market minmove pricescale mincontract))))"

subsection \<open>Listed symbols resolve\<close>

text \<open>Bybit's own names: upper-case letters, digits and dashes.\<close>

definition native_char :: "char \<Rightarrow> bool" where
  "native_char c \<longleftrightarrow> is_digit c \<or> (65 \<le> code c \<and> code c \<le> 90) \<or> c = CHR ''-''"

lemma native_char_facts:
  assumes "native_char c"
  shows "\<not> is_space c" "upper_char c = c" "c \<noteq> CHR ''.''" "c \<noteq> CHR '':''"
  using assms by (auto simp: native_char_def is_space_def upper_char_def is_digit_def code_def)

lemma native_upper: "list_all native_char s \<Longrightarrow> upper s = s"
  by (induction s) (auto simp: upper_def native_char_facts(2))

lemma native_upper_suffix:
  assumes "list_all native_char s" and "t = [] \<or> t = ''.P''"
  shows "upper (s @ t) = s @ t"
proof -
  have "upper ''.P'' = ''.P''" by code_simp
  moreover have "upper (s @ t) = upper s @ upper t" by (simp add: upper_def)
  ultimately show ?thesis using assms native_upper by (auto simp: upper_def)
qed

lemma native_prefix:
  assumes "list_all native_char s" and "s \<noteq> []" and "t = [] \<or> t = ''.P''"
  shows "upper (strip_prefix (strip (s @ t))) = s @ t"
proof -
  have "\<not> is_space (CHR ''P'')" by code_simp
  then have last: "\<not> is_space (last (s @ t))"
    using assms native_char_facts(1) by (auto simp: list_all_iff)
  have hd: "\<not> is_space (hd (s @ t))"
    using assms native_char_facts(1) by (cases s) auto
  have strip: "strip (s @ t) = s @ t" by (rule strip_id [OF _ hd last]) (use assms(2) in simp)
  have "CHR '':'' \<notin> set s" using assms(1) native_char_facts(4) by (auto simp: list_all_iff)
  then have colon: "CHR '':'' \<notin> set (s @ t)" using assms(3) by auto
  have "\<not> starts_with (s @ t) ''BYBIT:''"
  proof
    assume "starts_with (s @ t) ''BYBIT:''"
    then have "set ''BYBIT:'' \<subseteq> set (s @ t)"
      unfolding starts_with_def using set_take_subset by metis
    then show False using colon by auto
  qed
  then show ?thesis by (simp add: strip strip_prefix_def native_upper_suffix assms)
qed

text \<open>The categories a listed name is looked for in, and the name asked for.\<close>

definition probe_order :: "instrument_info \<Rightarrow> string list" where
  "probe_order info = (if is_perpetual info then [CATEGORY_LINEAR, CATEGORY_INVERSE] else CATEGORIES)"

lemma native_name_listed:
  assumes "list_all native_char (in_symbol info)" and "in_symbol info \<noteq> []"
  shows "native_name (listed_name info) = (in_symbol info, probe_order info)"
proof (cases "is_perpetual info")
  case True
  then show ?thesis
    using native_prefix [OF assms, of "''.P''"]
    by (simp add: native_name_def listed_name_def probe_order_def ends_with_def Let_def)
next
  case False
  have "CHR ''.'' \<notin> set (in_symbol info)"
    using assms(1) native_char_facts(3) by (auto simp: list_all_iff)
  then have "\<not> ends_with (in_symbol info) ''.P''"
    unfolding ends_with_def by (metis in_set_dropD list.set_intros(1))
  then show ?thesis
    using False native_prefix [OF assms, of "[]"]
    by (simp add: native_name_def listed_name_def probe_order_def Let_def)
qed

text \<open>What a category answers to the lookup of one symbol: not listed, or the instrument.\<close>

definition quiet :: "instruments_api \<Rightarrow> string \<Rightarrow> string \<Rightarrow> bool" where
  "quiet api c s \<longleftrightarrow> (\<exists>m. api c s = Inl (Bybit (BybitAPIError m PARAMS_ERROR_CODE))) \<or>
     (\<exists>d. api c s = Inr d \<and> jget d ''list'' = PList [])"

definition answers :: "instruments_api \<Rightarrow> string \<Rightarrow> instrument_info \<Rightarrow> bool" where
  "answers api c info \<longleftrightarrow>
     (\<exists>d e es i. api c (in_symbol info) = Inr d \<and> jget d ''list'' = PList (PDict e # es) \<and>
        parse_instrument c e = Inr i \<and> listed_name i = listed_name info)"

text \<open>
  A venue whose lookups agree with its lists: a tradable instrument on a page of a category is found
  by that category's lookup, and any other category asked before it knows nothing of the symbol or
  has the same instrument.
\<close>

definition consistent_venue :: "pages_api \<Rightarrow> instruments_api \<Rightarrow> bool" where
  "consistent_venue pages api \<longleftrightarrow>
     (\<forall>c \<in> set CATEGORIES. \<forall>cursor d es e info.
        pages c cursor = Inr d \<longrightarrow> jget d ''list'' = PList es \<longrightarrow> PDict e \<in> set es \<longrightarrow>
        parse_instrument c e = Inr info \<longrightarrow> in_status info = ''Trading'' \<longrightarrow> in_symbol info \<noteq> [] \<longrightarrow>
        list_all native_char (in_symbol info) \<and> c \<in> set (probe_order info) \<and> answers api c info \<and>
        (\<forall>c' \<in> set (probe_order info). quiet api c' (in_symbol info) \<or> answers api c' info))"

lemma fetch_quiet: "quiet api c s \<Longrightarrow> pv_instruments P (c, s) = None \<Longrightarrow> fetch_instrument api c s P = (P, Inr None)"
  by (auto simp: quiet_def fetch_instrument_def PARAMS_ERROR_CODE_def py_or_def)

lemma fetch_answers:
  assumes "answers api c info" and "pv_instruments P (c, in_symbol info) = None"
  shows "\<exists>P' i. fetch_instrument api c (in_symbol info) P = (P', Inr (Some i)) \<and> listed_name i = listed_name info"
  using assms by (fastforce simp: answers_def fetch_instrument_def py_or_def lift_err_def)

lemma probe_answers:
  assumes "\<forall>c \<in> set cs. quiet api c (in_symbol info) \<or> answers api c info"
    and "\<exists>c \<in> set cs. answers api c info" and "pv_instruments P = Map.empty"
  shows "\<exists>P' i. probe api (in_symbol info) cs P = (P', Inr (Some i)) \<and> listed_name i = listed_name info"
  using assms(1,2)
proof (induction cs)
  case Nil
  then show ?case by simp
next
  case (Cons c cs)
  show ?case
  proof (cases "answers api c info")
    case True
    then show ?thesis using fetch_answers [of api c info P] assms(3) by auto
  next
    case False
    then have "fetch_instrument api c (in_symbol info) P = (P, Inr None)"
      using Cons.prems(1) fetch_quiet assms(3) by auto
    then show ?thesis using Cons False by auto
  qed
qed

definition on_page :: "pages_api \<Rightarrow> string \<Rightarrow> string \<Rightarrow> bool" where
  "on_page pages c name \<longleftrightarrow>
     (\<exists>cursor d es e info. pages c cursor = Inr d \<and> jget d ''list'' = PList es \<and> PDict e \<in> set es \<and>
        parse_instrument c e = Inr info \<and> in_status info = ''Trading'' \<and> in_symbol info \<noteq> [] \<and>
        name = listed_name info)"

lemma page_names_on_page:
  assumes "pages c cursor = Inr d" and "page_names c d = Inr names" and "name \<in> set names"
  shows "on_page pages c name"
proof -
  obtain es ns where es: "as_list (py_or (jget d ''list'') (PList [])) = Inr es"
    "res_map (page_entry c) es = Inr ns" "names = concat ns"
    using assms(2) by (auto simp: page_names_def res_bind_Inr_iff)
  then obtain v n where v: "v \<in> set es" "page_entry c v = Inr n" "name \<in> set n"
    using assms(3) res_map_set by fastforce
  then obtain e info where e: "v = PDict e" "parse_instrument c e = Inr info"
    "in_status info = ''Trading''" "in_symbol info \<noteq> []" "name = listed_name info"
    by (auto simp: page_entry_def res_bind_Inr_iff split: if_splits)
  have "jget d ''list'' = PList es"
    using es(1) v(1) e(1) by (cases "jget d ''list''") (auto simp: py_or_def split: if_splits)
  then show ?thesis using assms(1) v(1) e unfolding on_page_def by blast
qed

lemma walk_pages_on_page:
  "walk_pages pages c n cursor out = Some (Inr out') \<Longrightarrow> name \<in> set out' \<Longrightarrow>
     name \<in> set out \<or> on_page pages c name"
proof (induction pages c n cursor out rule: walk_pages.induct)
  case (1 pages cat cursor out)
  then show ?case by simp
next
  case (2 pages cat n cursor out)
  obtain d names where d: "pages cat cursor = Inr d" "page_names cat d = Inr names"
    using "2.prems"(1) by (auto split: sum.splits)
  then show ?case
    using 2 page_names_on_page [of pages cat cursor d names] by (auto simp: Let_def split: if_splits)
qed

lemma walk_categories_on_page:
  "walk_categories pages n cats out = Some (Inr out') \<Longrightarrow> name \<in> set out' \<Longrightarrow>
     name \<in> set out \<or> (\<exists>c \<in> set cats. on_page pages c name)"
proof (induction cats arbitrary: out)
  case Nil
  then show ?case by simp
next
  case (Cons c cats)
  obtain out1 where "walk_pages pages c n PNone out = Some (Inr out1)"
    using Cons.prems(1) by (auto split: option.splits sum.splits)
  then show ?case using Cons walk_pages_on_page by fastforce
qed

text \<open>Enough fuel: a cursor chain that ends after \<open>k\<close> pages is walked to its end.\<close>

fun chain_ends :: "pages_api \<Rightarrow> string \<Rightarrow> nat \<Rightarrow> py \<Rightarrow> bool" where
  "chain_ends pages cat 0 cursor = False"
| "chain_ends pages cat (Suc k) cursor =
     (case pages cat cursor of
        Inl e \<Rightarrow> True
      | Inr d \<Rightarrow> \<not> truthy (jget d ''nextPageCursor'') \<or> chain_ends pages cat k (jget d ''nextPageCursor''))"

lemma walk_pages_returns:
  "chain_ends pages cat k cursor \<Longrightarrow> k \<le> n \<Longrightarrow> \<exists>r. walk_pages pages cat n cursor out = Some r"
proof (induction pages cat n cursor out arbitrary: k rule: walk_pages.induct)
  case (1 pages cat cursor out)
  then show ?case by simp
next
  case (2 pages cat n cursor out)
  then obtain j where "k = Suc j" by (cases k) auto
  note chain = "2.prems"(1) [unfolded this] and le = "2.prems"(2) [unfolded this]
  show ?case
  proof (cases "pages cat cursor")
    case (Inl e)
    then show ?thesis by simp
  next
    case d: (Inr d)
    show ?thesis
    proof (cases "page_names cat d")
      case (Inl e)
      then show ?thesis using d by simp
    next
      case (Inr names)
      then show ?thesis
        using "2.IH" [OF d Inr refl, of j] chain le d by (auto simp: py_or_def Let_def)
    qed
  qed
qed

lemma walk_categories_returns:
  "\<forall>c \<in> set cats. chain_ends pages c n PNone \<Longrightarrow> \<exists>r. walk_categories pages n cats out = Some r"
proof (induction cats arbitrary: out)
  case Nil
  then show ?case by simp
next
  case (Cons c cats)
  obtain r where "walk_pages pages c n PNone out = Some r"
    using walk_pages_returns [of pages c n PNone n out] Cons.prems by auto
  then show ?case using Cons by (cases r) auto
qed

section \<open>Properties\<close>

text \<open>
  C8. Whatever the venue answers, and also when the download raises part-way, the bars it has saved
  are strictly ascending, none opens before the requested start, every one is closed, and every one is
  a row the venue served for a window inside the requested range; so when the venue keeps to the
  windows it is asked for, none opens after the requested end.
\<close>

theorem download_saves_closed_bars:
  assumes "download_ohlcv api interval limit time_from time_to now1 now2 = (bars, e)"
  shows "ascending bars \<and> (\<forall>b \<in> set bars. closed_bar interval (trunc time_from * 1000) (trunc now2 * 1000) b) \<and>
    (\<forall>b \<in> set bars. served api (trunc time_from * 1000) (trunc (min time_to now1) * 1000) b) \<and>
    (keeps_windows api \<longrightarrow> (\<forall>b \<in> set bars. oh_timestamp b \<le> trunc (min time_to now1) * 1000))"
proof -
  have "saved_ok interval s n None []" for s n
    by (simp add: saved_ok_def ascending_def)
  note ok = download_loop_ok [OF assms [unfolded download_ohlcv_def] this order_refl]
  note from_venue = download_loop_served [OF assms [unfolded download_ohlcv_def] _ order_refl, simplified]
  show ?thesis using ok from_venue served_in_window by (auto simp: saved_ok_def)
qed

text \<open>
  Completeness: on a venue that answers every window of at most \<open>limit\<close> opens with all its bars,
  a download of a fixed interval returns without raising, saves only bars the venue has, and saves
  every closed bar of the requested range (gaps and empty windows included).
\<close>

theorem download_complete:
  assumes "map_of INTERVAL_MS interval = Some ms" and "spaced ms H"
    and "honest_klines H ((effective_limit limit - 1) * ms) api"
  shows "\<exists>bars. download_ohlcv api interval limit time_from time_to now1 now2 = (bars, None) \<and>
    saved_times bars \<subseteq> H \<and>
    {t \<in> H. trunc time_from * 1000 \<le> t \<and> t < trunc (min time_to now1) * 1000 \<and>
       t + ms \<le> trunc now2 * 1000} \<subseteq> saved_times bars"
proof -
  have "effective_limit limit \<ge> 2" by (simp add: effective_limit_def Let_def)
  moreover have "download_inv H ms s en n s None []" for s en n
    by (auto simp: download_inv_def saved_times_def)
  ultimately show ?thesis
    using download_loop_complete [OF assms(3,2,1)] unfolding download_ohlcv_def by blast
qed

text \<open>
  Every name the symbol list returns resolves: on a venue whose lookups agree with its lists,
  \<open>_resolve_market\<close> maps it to an instrument whose listed name it is.
\<close>

theorem listed_symbols_resolve:
  assumes "get_list_of_symbols pages n None = Some (Inr out)" and "name \<in> set out"
    and "consistent_venue pages api"
  shows "\<exists>i. snd (resolve_market (\<lambda>s. s) api name new_provider) = Inr i \<and> listed_name i = name"
proof -
  obtain out' where "walk_categories pages n CATEGORIES [] = Some (Inr out')" "set out = set out'"
    using assms(1) by (auto simp: get_list_of_symbols_def split: option.splits sum.splits)
  then obtain c where c: "c \<in> set CATEGORIES" "on_page pages c name"
    using walk_categories_on_page assms(2) by fastforce
  then obtain cursor d es e info where p: "pages c cursor = Inr d" "jget d ''list'' = PList es"
    "PDict e \<in> set es" "parse_instrument c e = Inr info" "in_status info = ''Trading''"
    "in_symbol info \<noteq> []" "name = listed_name info"
    by (auto simp: on_page_def)
  then have v: "list_all native_char (in_symbol info)" "c \<in> set (probe_order info)" "answers api c info"
    "\<forall>c' \<in> set (probe_order info). quiet api c' (in_symbol info) \<or> answers api c' info"
    using assms(3) c(1) unfolding consistent_venue_def by blast+
  have "pv_instruments new_provider = Map.empty" by (simp add: new_provider_def)
  then obtain P' i where
    "probe api (in_symbol info) (probe_order info) new_provider = (P', Inr (Some i))"
    "listed_name i = listed_name info"
    using probe_answers [OF v(4)] v(2,3) by blast
  then show ?thesis using native_name_listed [OF v(1) p(6)] p(7) by (simp add: resolve_market_def)
qed

text \<open>
  C9. The paging ends with the cursor chains: when every category's chain of cursors ends within
  \<open>n\<close> pages, the walk with fuel \<open>n\<close> returns.
\<close>

theorem symbol_paging_returns:
  assumes "\<forall>c \<in> set CATEGORIES. chain_ends pages c n PNone"
  shows "\<exists>r. get_list_of_symbols pages n None = Some r"
  using walk_categories_returns [OF assms, of "[]"]
  by (auto simp: get_list_of_symbols_def split: sum.splits)

section \<open>Concrete instances\<close>

text \<open>A venue with three minute bars, newest first, and one with a single listed perpetual.\<close>

definition kline_row :: "int \<Rightarrow> py" where
  "kline_row t = PList (PStr (int_str t) # map PStr [''1'', ''2'', ''0.5'', ''1.5'', ''10''])"

definition example_klines :: kline_api where
  "example_klines s e =
     Inr [(''list'', PList (map kline_row (filter (\<lambda>t. s \<le> t \<and> t \<le> e) [120000, 60000, 0])))]"

definition example_pages :: pages_api where
  "example_pages c cursor =
     Inr [(''list'', PList (if c = CATEGORY_LINEAR then [PDict example_entry] else []))]"

lemma kline_row_ok: "row_start (kline_row t) = Inr t" "\<exists>b. row_bar False t (kline_row t) = Inr b"
proof -
  show "row_start (kline_row t) = Inr t" by (simp add: row_start_def kline_row_def parse_int_str)
  have f: "parse_float ''1'' = Inr (Fin 1)" "parse_float ''2'' = Inr (Fin 2)"
    "parse_float ''0.5'' = Inr (Fin (1 / 2))" "parse_float ''1.5'' = Inr (Fin (3 / 2))"
    "parse_float ''10'' = Inr (Fin 10)"
    by code_simp+
  show "\<exists>b. row_bar False t (kline_row t) = Inr b"
    by (simp add: row_bar_def row_float_def kline_row_def f)
qed

lemma example_klines_honest: "honest_klines {0, 60000, 120000} w example_klines"
  unfolding honest_klines_def
proof (intro allI impI)
  fix s e :: int
  let ?rs = "map kline_row (filter (\<lambda>t. s \<le> t \<and> t \<le> e) [120000, 60000, 0])"
  have "example_klines s e = Inr [(''list'', PList ?rs)]" by (simp add: example_klines_def)
  moreover have "jget [(''list'', PList ?rs)] ''list'' = PList ?rs" by (simp add: jget_def)
  moreover have "\<forall>r \<in> set ?rs. \<exists>t b. row_start r = Inr t \<and> row_bar False t r = Inr b"
    by (simp only: set_map ball_simps) (use kline_row_ok in blast)
  moreover have "{t. \<exists>r \<in> set ?rs. row_start r = Inr t} = {t \<in> {0, 60000, 120000}. s \<le> t \<and> t \<le> e}"
    by (auto simp: kline_row_ok)
  ultimately show "\<exists>d rs. example_klines s e = Inr d \<and> jget d ''list'' = PList rs \<and>
      (\<forall>r \<in> set rs. \<exists>t b. row_start r = Inr t \<and> row_bar False t r = Inr b) \<and>
      {t. \<exists>r \<in> set rs. row_start r = Inr t} = {t \<in> {0, 60000, 120000}. s \<le> t \<and> t \<le> e}"
    by blast
qed

theorem download_saves_closed_bars_witness:
  "\<exists>bars e. download_ohlcv example_klines ''1'' (Some 2) 0 180 170 170 = (bars, e) \<and> ascending bars"
proof -
  obtain bars e where "download_ohlcv example_klines ''1'' (Some 2) 0 180 170 170 = (bars, e)" by fastforce
  from this download_saves_closed_bars [OF this] show ?thesis by blast
qed

theorem download_complete_witness:
  "\<exists>bars. download_ohlcv example_klines ''1'' (Some 2) 0 180 170 170 = (bars, None) \<and>
     saved_times bars = {0, 60000}"
proof -
  have ms: "map_of INTERVAL_MS ''1'' = Some 60000" by (simp add: INTERVAL_MS_def)
  have sp: "spaced 60000 {0, 60000, 120000}" by (simp add: spaced_def)
  have tr: "trunc 0 * 1000 = 0" "trunc (min 180 170) * 1000 = 170000" "trunc 170 * 1000 = 170000" by code_simp+
  obtain bars where d: "download_ohlcv example_klines ''1'' (Some 2) 0 180 170 170 = (bars, None)"
    "saved_times bars \<subseteq> {0, 60000, 120000}"
    "{t \<in> {0, 60000, 120000}. 0 \<le> t \<and> t < 170000 \<and> t + 60000 \<le> 170000} \<subseteq> saved_times bars"
    using download_complete [OF ms sp example_klines_honest, of "Some 2" 0 180 170 170] unfolding tr by blast
  have "120000 \<notin> saved_times bars"
  proof
    assume "120000 \<in> saved_times bars"
    then obtain b where b: "b \<in> set bars" "oh_timestamp b = 120000" by (auto simp: saved_times_def)
    have "saved_ok ''1'' 0 170000 None []" by (simp add: saved_ok_def ascending_def)
    from download_loop_ok [OF d(1) [unfolded download_ohlcv_def tr] this order_refl] b
    show False by (auto simp: saved_ok_def closed_bar_def bar_close_ts_def add_interval_def ms)
  qed
  then show ?thesis using d by auto
qed

lemma example_entry_parsed:
  "\<exists>i. parse_instrument CATEGORY_LINEAR example_entry = Inr i \<and> in_symbol i = ''BTCUSDT'' \<and>
     is_perpetual i \<and> in_status i = ''Trading''"
proof -
  have "case parse_instrument CATEGORY_LINEAR example_entry of
      Inr i \<Rightarrow> in_symbol i = ''BTCUSDT'' \<and> is_perpetual i \<and> in_status i = ''Trading'' | Inl e \<Rightarrow> False"
    by code_simp
  then show ?thesis by (auto split: sum.splits)
qed

lemma example_consistent: "consistent_venue example_pages example_api"
  unfolding consistent_venue_def
proof (intro ballI allI impI)
  fix c cursor d es e info
  assume a: "example_pages c cursor = Inr d" "jget d ''list'' = PList es" "PDict e \<in> set es"
    "parse_instrument c e = Inr info"
  then have c: "c = CATEGORY_LINEAR" "e = example_entry"
    by (auto simp: example_pages_def jget_def split: if_splits)
  obtain i where i: "parse_instrument CATEGORY_LINEAR example_entry = Inr i" "in_symbol i = ''BTCUSDT''"
    "is_perpetual i"
    using example_entry_parsed by blast
  have info: "info = i" using a(4) c i(1) by simp
  have native: "list_all native_char ''BTCUSDT''" by code_simp
  have ans: "answers example_api CATEGORY_LINEAR i"
    using i by (auto simp: answers_def example_api_def jget_def)
  have "quiet example_api CATEGORY_INVERSE ''BTCUSDT''"
    by (auto simp: quiet_def example_api_def category_defs PARAMS_ERROR_CODE_def)
  then show "list_all native_char (in_symbol info) \<and> c \<in> set (probe_order info) \<and>
      answers example_api c info \<and>
      (\<forall>c' \<in> set (probe_order info). quiet example_api c' (in_symbol info) \<or> answers example_api c' info)"
    using native ans i c info by (simp add: probe_order_def)
qed

theorem listed_symbols_resolve_witness:
  "\<exists>i. snd (resolve_market (\<lambda>s. s) example_api ''BTCUSDT.P'' new_provider) = Inr i \<and>
     listed_name i = ''BTCUSDT.P''"
proof -
  obtain i where i: "parse_instrument CATEGORY_LINEAR example_entry = Inr i" "in_symbol i = ''BTCUSDT''"
    "is_perpetual i" "in_status i = ''Trading''"
    using example_entry_parsed by blast
  then have "page_names CATEGORY_LINEAR [(''list'', PList [PDict example_entry])] = Inr [''BTCUSDT.P'']"
    using i by (simp add: page_names_def page_entry_def py_or_def jget_def listed_name_def)
  moreover have "page_names c [(''list'', PList [])] = Inr []" for c
    by (simp add: page_names_def py_or_def jget_def)
  moreover have "CATEGORY_SPOT \<noteq> CATEGORY_LINEAR" "CATEGORY_INVERSE \<noteq> CATEGORY_LINEAR"
    by (simp_all add: CATEGORY_SPOT_def CATEGORY_LINEAR_def CATEGORY_INVERSE_def)
  ultimately have "get_list_of_symbols example_pages 1 None = Some (Inr [''BTCUSDT.P''])"
    by (simp add: get_list_of_symbols_def CATEGORIES_def example_pages_def jget_def py_or_def)
  from listed_symbols_resolve [OF this _ example_consistent] show ?thesis by simp
qed

theorem symbol_paging_returns_witness: "\<exists>r. get_list_of_symbols example_pages 2 None = Some r"
proof -
  have "\<forall>c \<in> set CATEGORIES. chain_ends example_pages c 2 PNone"
    by (simp add: numeral_2_eq_2 example_pages_def jget_def)
  from symbol_paging_returns [OF this] show ?thesis .
qed

end
