(* ===== verification/Rest.thy ===== *)
theory Rest
  imports Instruments
begin

text \<open>
  Model of \<^verbatim>\<open>src/src/pynecore_bybit/rest.py\<close>: the sig_headers request dispatcher with its write gate
  and its timestamp retry, the read deadline of the async wrapper, and the pooled client. What the
  process does not control is a parameter per attempt: whether the external-intervention quarantine
  forbids writes, the clock, and what the transport answers to the request. HMAC-SHA256 is a
  parameter. The requests that left the process are returned beside the result.
\<close>

section \<open>Encoding\<close>

definition hex_digit :: "nat \<Rightarrow> char" where
  "hex_digit n = (if n < 10 then char_of (48 + n) else char_of (55 + n))"

definition hex_lower :: "nat \<Rightarrow> char" where
  "hex_lower n = (if n < 10 then char_of (48 + n) else char_of (87 + n))"

text \<open>The UTF-8 bytes of a code point up to 255\<close>

definition utf8_bytes :: "char \<Rightarrow> nat list" where
  "utf8_bytes c =
     (if code c < 128 then [code c] else [192 + code c div 64, 128 + code c mod 64])"

text \<open>\<open>urllib.parse.urlencode\<close> with its default \<open>quote_plus\<close>\<close>

definition unreserved :: "char \<Rightarrow> bool" where
  "unreserved c \<longleftrightarrow> is_alnum c \<or> c \<in> {CHR ''_'', CHR ''.'', CHR ''-'', CHR ''~''}"

definition quote_plus :: "string \<Rightarrow> string" where
  "quote_plus s =
     concat (map (\<lambda>c. if unreserved c then [c] else if c = CHR '' '' then ''+''
                      else concat (map (\<lambda>b. [CHR ''%'', hex_digit (b div 16), hex_digit (b mod 16)])
                                       (utf8_bytes c))) s)"

definition urlencode :: "jdict \<Rightarrow> string" where
  "urlencode q = join_with ''&'' (map (\<lambda>(k, v). quote_plus k @ ''='' @ quote_plus (py_str v)) q)"

text \<open>\<open>json.dumps\<close> with \<open>ensure_ascii\<close>\<close>

definition json_char :: "char \<Rightarrow> string" where
  "json_char c =
     (if c = CHR 34 \<or> c = CHR 92 then [CHR 92, c]
      else if code c = 10 then [CHR 92, CHR ''n'']
      else if code c = 13 then [CHR 92, CHR ''r'']
      else if code c = 9 then [CHR 92, CHR ''t'']
      else if code c = 8 then [CHR 92, CHR ''b'']
      else if code c = 12 then [CHR 92, CHR ''f'']
      else if 32 \<le> code c \<and> code c < 127 then [c]
      else CHR 92 # ''u00'' @ [hex_lower (code c div 16), hex_lower (code c mod 16)])"

definition json_str :: "string \<Rightarrow> string" where
  "json_str s = CHR 34 # concat (map json_char s) @ [CHR 34]"

fun json_dumps :: "py \<Rightarrow> string" where
  "json_dumps PNone = ''null''"
| "json_dumps (PBool b) = (if b then ''true'' else ''false'')"
| "json_dumps (PInt i) = int_str i"
| "json_dumps (PFloat r) = float_str r"
| "json_dumps (PStr s) = json_str s"
| "json_dumps (PList xs) = ''['' @ join_with '', '' (map json_dumps xs) @ '']''"
| "json_dumps (PDict d) =
     ''{'' @ join_with '', '' (map (\<lambda>(k, v). json_str k @ '': '' @ json_dumps v) d) @ ''}''"

section \<open>Requests\<close>

definition TIMESTAMP_RETRY_COUNT :: nat where "TIMESTAMP_RETRY_COUNT = 2"
definition TIMESTAMP_RECV_WINDOW_STEP_MS :: int where "TIMESTAMP_RECV_WINDOW_STEP_MS = 2500"
definition READ_DEADLINE_S :: rat where "READ_DEADLINE_S = 20"
definition RECV_WINDOW_MS :: int where "RECV_WINDOW_MS = 5000"

record request =
  rq_method :: string
  rq_endpoint :: string
  rq_query :: jdict
  rq_content :: "string option"
  rq_headers :: "(string \<times> string) list"

text \<open>
  What the transport answers: a timeout or transport error, a body that is no JSON, or the decoded
  body.
\<close>

datatype http_outcome = TransportFailure string | NonJson int | Body py

record attempt_env =
  ae_quarantined :: bool
  ae_epoch_ms :: int
  ae_transport :: "request \<Rightarrow> http_outcome"

text \<open>The configured key pair; \<open>hmac\<close> maps secret and text to the hex digest.\<close>

record credentials =
  cr_api_key :: string
  cr_api_secret :: string

type_synonym hmac_fn = "string \<Rightarrow> string \<Rightarrow> string"

definition sign_headers ::
    "hmac_fn \<Rightarrow> credentials option \<Rightarrow> int \<Rightarrow> string \<Rightarrow> int \<Rightarrow> raised + (string \<times> string) list" where
  "sign_headers hmac config epoch_ms payload recv_window_ms =
     (case config of
        None \<Rightarrow> Inl (Lang AssertionErr)
      | Some c \<Rightarrow>
          (let timestamp = int_str epoch_ms;
               prefix = timestamp @ cr_api_key c @ int_str recv_window_ms;
               signature = hmac (cr_api_secret c) (prefix @ payload)
           in Inr [(''X-BAPI-API-KEY'', cr_api_key c), (''X-BAPI-TIMESTAMP'', timestamp),
                   (''X-BAPI-SIGN'', signature), (''X-BAPI-RECV-WINDOW'', int_str recv_window_ms)]))"

text \<open>The arguments of one call, once the query and the payload are built.\<close>

record rest_call =
  rc_endpoint :: string
  rc_method :: string
  rc_auth :: bool
  rc_query :: jdict
  rc_content :: "string option"

definition is_post :: "rest_call \<Rightarrow> bool" where
  "is_post c \<longleftrightarrow> rc_method c = ''post''"

definition make_call ::
    "string \<Rightarrow> jdict option \<Rightarrow> string \<Rightarrow> jdict option \<Rightarrow> bool \<Rightarrow> rest_call" where
  "make_call endpoint params method body auth =
     (let m = lower method in
      \<lparr>rc_endpoint = endpoint, rc_method = m, rc_auth = auth,
       rc_query = filter (\<lambda>(k, v). v \<noteq> PNone) (case params of Some p \<Rightarrow> p | None \<Rightarrow> []),
       rc_content =
         (if m = ''post'' then Some (json_dumps (PDict (case body of Some b \<Rightarrow> b | None \<Rightarrow> []))) else None)\<rparr>)"

text \<open>\<open>content if method_lc == "post" else urlencode(query)\<close>, and \<open>payload or ""\<close>\<close>

definition payload_of :: "rest_call \<Rightarrow> string" where
  "payload_of c = (case rc_content c of Some t \<Rightarrow> t | None \<Rightarrow> urlencode (rc_query c))"

definition build_request :: "rest_call \<Rightarrow> (string \<times> string) list \<Rightarrow> request" where
  "build_request c sig_headers =
     \<lparr>rq_method = upper (rc_method c), rq_endpoint = rc_endpoint c, rq_query = rc_query c,
      rq_content = rc_content c,
      rq_headers = (if is_post c then [(''Content-Type'', ''application/json'')] else []) @ sig_headers\<rparr>"

definition ensure_venue_writes_allowed :: "bool \<Rightarrow> string \<Rightarrow> raised option" where
  "ensure_venue_writes_allowed quarantined what =
     (if quarantined then Some (VenueWritesQuarantinedError what) else None)"

text \<open>The envelope: its code, and \<open>envelope.get("result") or {}\<close>.\<close>

definition ret_code_of :: "jdict \<Rightarrow> py_error + int" where
  "ret_code_of envelope = py_int (jget_default envelope ''retCode'' (PInt (-1)))"

definition api_error :: "string \<Rightarrow> int \<Rightarrow> jdict \<Rightarrow> raised" where
  "api_error endpoint ret_code envelope = Bybit (BybitAPIError
     (''Bybit API error on '' @ endpoint @ '': retCode='' @ int_str ret_code @ '' retMsg='' @
      py_repr (jget_default envelope ''retMsg'' (PStr []))) ret_code)"

text \<open>
  One attempt: the gate, the signature, the round trip and its reading. It ends the call with what
  was sent, or asks for another attempt.
\<close>

datatype attempt_result = Stop "raised + py" "request list" | Again request

definition read_reply :: "rest_call \<Rightarrow> bool \<Rightarrow> request \<Rightarrow> http_outcome \<Rightarrow> attempt_result" where
  "read_reply c retry_left req reply =
     (case reply of
        TransportFailure msg \<Rightarrow>
          Stop (Inl (Bybit (BybitConnectionError
            (''Bybit HTTP transport error on '' @ rc_endpoint c @ '': '' @ msg)))) [req]
      | NonJson status \<Rightarrow>
          Stop (Inl (Bybit (BybitConnectionError
            (''Bybit returned non-JSON response on '' @ rc_endpoint c @ '' (HTTP '' @
             int_str status @ '')'')))) [req]
      | Body b \<Rightarrow>
          (case as_dict b of
             Inl r \<Rightarrow> Stop (Inl (Lang r)) [req]
           | Inr envelope \<Rightarrow>
               (case ret_code_of envelope of
                  Inl r \<Rightarrow> Stop (Inl (Lang r)) [req]
                | Inr ret_code \<Rightarrow>
                    if ret_code = 0
                    then Stop (Inr (py_or (jget envelope ''result'') (PDict []))) [req]
                    else if rc_auth c \<and> ret_code = 10002 \<and> retry_left then Again req
                    else Stop (Inl (api_error (rc_endpoint c) ret_code envelope)) [req])))"

definition one_attempt ::
    "hmac_fn \<Rightarrow> credentials option \<Rightarrow> rest_call \<Rightarrow> attempt_env \<Rightarrow> bool \<Rightarrow> int \<Rightarrow> attempt_result" where
  "one_attempt hmac config c e retry_left recv_window =
     (case (if is_post c
            then ensure_venue_writes_allowed (ae_quarantined e) (''POST '' @ rc_endpoint c)
            else None) of
        Some r \<Rightarrow> Stop (Inl r) []
      | None \<Rightarrow>
          (case (if rc_auth c
                 then sign_headers hmac config (ae_epoch_ms e) (payload_of c) recv_window
                 else Inr []) of
             Inl r \<Rightarrow> Stop (Inl r) []
           | Inr sig_headers \<Rightarrow>
               (let req = build_request c sig_headers
                in read_reply c retry_left req (ae_transport e req))))"

text \<open>
  The loop over the attempts: \<open>left\<close> counts those left after this one, \<open>n\<close> is this attempt's number.
  The loop running out without a response is the assertion at its end.
\<close>

fun rest_attempts ::
    "hmac_fn \<Rightarrow> credentials option \<Rightarrow> rest_call \<Rightarrow> (nat \<Rightarrow> attempt_env) \<Rightarrow> nat \<Rightarrow> nat \<Rightarrow> int \<Rightarrow>
     request list \<Rightarrow> (raised + py) \<times> request list" where
  "rest_attempts hmac config c env 0 n recv_window sent =
     (case one_attempt hmac config c (env n) False recv_window of
        Stop r new \<Rightarrow> (r, sent @ new)
      | Again req \<Rightarrow> (Inl (Lang AssertionErr), sent @ [req]))"
| "rest_attempts hmac config c env (Suc left) n recv_window sent =
     (case one_attempt hmac config c (env n) True recv_window of
        Stop r new \<Rightarrow> (r, sent @ new)
      | Again req \<Rightarrow>
          rest_attempts hmac config c env left (Suc n)
            (recv_window + TIMESTAMP_RECV_WINDOW_STEP_MS) (sent @ [req]))"

text \<open>\<open>__call__\<close>\<close>

definition rest_request ::
    "hmac_fn \<Rightarrow> credentials option \<Rightarrow> (nat \<Rightarrow> attempt_env) \<Rightarrow> string \<Rightarrow> jdict option \<Rightarrow> string \<Rightarrow>
     jdict option \<Rightarrow> bool \<Rightarrow> (raised + py) \<times> request list" where
  "rest_request hmac config env endpoint params method body auth =
     rest_attempts hmac config (make_call endpoint params method body auth) env
       TIMESTAMP_RETRY_COUNT 0 RECV_WINDOW_MS []"

text \<open>
  \<open>_call\<close>: the request runs on a worker thread that takes \<open>duration\<close> seconds. A read is abandoned at
  the deadline, its requests have been sent all the same; a write is waited for.
\<close>

definition rest_call_async ::
    "hmac_fn \<Rightarrow> credentials option \<Rightarrow> (nat \<Rightarrow> attempt_env) \<Rightarrow> rat \<Rightarrow> string \<Rightarrow> jdict option \<Rightarrow> string \<Rightarrow>
     jdict option \<Rightarrow> bool \<Rightarrow> (raised + py) \<times> request list" where
  "rest_call_async hmac config env duration endpoint params method body auth =
     (let (r, sent) = rest_request hmac config env endpoint params method body auth in
      if lower method \<noteq> ''get'' then (r, sent)
      else if duration \<le> READ_DEADLINE_S then (r, sent)
      else (Inl (Bybit (BybitConnectionError
             (''Bybit read '' @ endpoint @ '' did not complete within 20s''))), sent))"

section \<open>The pooled client\<close>

text \<open>The client slot holds the base URL of the open client; the log is the clients closed.\<close>

definition get_http_client :: "string \<Rightarrow> string option \<Rightarrow> string option \<times> string" where
  "get_http_client rest_host slot =
     (case slot of
        Some c \<Rightarrow> (slot, c)
      | None \<Rightarrow> (Some (''https://'' @ rest_host), ''https://'' @ rest_host))"

definition close_http_client :: "string option \<Rightarrow> string list \<Rightarrow> string option \<times> string list" where
  "close_http_client slot closed_log =
     (case slot of Some c \<Rightarrow> (None, closed_log @ [c]) | None \<Rightarrow> (None, closed_log))"

section \<open>What a call sends\<close>

definition answered_code :: "http_outcome \<Rightarrow> int option" where
  "answered_code r =
     (case r of
        Body (PDict envelope) \<Rightarrow>
          (case ret_code_of envelope of Inr c \<Rightarrow> Some c | Inl e \<Rightarrow> None)
      | _ \<Rightarrow> None)"

text \<open>The request of attempt \<open>i\<close> when the receive window starts at \<open>w\<close>.\<close>

definition attempt_request ::
    "hmac_fn \<Rightarrow> credentials option \<Rightarrow> rest_call \<Rightarrow> attempt_env \<Rightarrow> int \<Rightarrow> request \<Rightarrow> bool" where
  "attempt_request hmac config c e w req \<longleftrightarrow>
     (\<exists>h. (if rc_auth c then sign_headers hmac config (ae_epoch_ms e) (payload_of c) w else Inr []) = Inr h \<and>
        req = build_request c h)"

definition sends_ok ::
    "hmac_fn \<Rightarrow> credentials option \<Rightarrow> rest_call \<Rightarrow> (nat \<Rightarrow> attempt_env) \<Rightarrow> nat \<Rightarrow> nat \<Rightarrow> int \<Rightarrow>
     request list \<Rightarrow> bool" where
  "sends_ok hmac config c env left n w new \<longleftrightarrow> length new \<le> Suc left \<and>
     (\<forall>i < length new.
        attempt_request hmac config c (env (n + i)) (w + TIMESTAMP_RECV_WINDOW_STEP_MS * int i) (new ! i) \<and>
        (is_post c \<longrightarrow> \<not> ae_quarantined (env (n + i))) \<and>
        (Suc i < length new \<longrightarrow>
           rc_auth c \<and> answered_code (ae_transport (env (n + i)) (new ! i)) = Some 10002))"

lemma sends_ok_one:
  "attempt_request hmac config c (env n) w req \<Longrightarrow> (is_post c \<Longrightarrow> \<not> ae_quarantined (env n)) \<Longrightarrow>
     sends_ok hmac config c env left n w [req]"
  by (simp add: sends_ok_def)

lemma sends_ok_Cons:
  assumes "attempt_request hmac config c (env n) w req" and "is_post c \<Longrightarrow> \<not> ae_quarantined (env n)"
    and "rc_auth c" "answered_code (ae_transport (env n) req) = Some 10002"
    and "sends_ok hmac config c env left (Suc n) (w + TIMESTAMP_RECV_WINDOW_STEP_MS) new"
  shows "sends_ok hmac config c env (Suc left) n w (req # new)"
  using assms
  by (auto simp: sends_ok_def nth_Cons algebra_simps split: nat.splits)

text \<open>What comes back: a value only for a last answer with code 0, and never the exhausted loop.\<close>

definition outcome_ok :: "(nat \<Rightarrow> attempt_env) \<Rightarrow> nat \<Rightarrow> request list \<Rightarrow> raised + py \<Rightarrow> bool" where
  "outcome_ok env n new r \<longleftrightarrow>
     (\<forall>v. r = Inr v \<longrightarrow> new \<noteq> [] \<and>
        answered_code (ae_transport (env (n + length new - 1)) (last new)) = Some 0) \<and>
     (\<forall>m k. r = Inl (Bybit (BybitAPIError m k)) \<longrightarrow> new \<noteq> [] \<and>
        answered_code (ae_transport (env (n + length new - 1)) (last new)) = Some k \<and> k \<noteq> 0)"

lemma outcome_ok_Cons: "outcome_ok env (Suc n) new r \<Longrightarrow> outcome_ok env n (req # new) r"
  by (auto simp: outcome_ok_def)

lemma gate_None:
  "(if is_post c then ensure_venue_writes_allowed q x else None) = None \<longleftrightarrow> (is_post c \<longrightarrow> \<not> q)"
  by (simp add: ensure_venue_writes_allowed_def)

lemma ret_code_error: "ret_code_of d = Inl x \<Longrightarrow> x \<noteq> AssertionErr"
  by (auto simp: ret_code_of_def parse_int_def split: if_splits prod.splits elim!: py_int.elims)

lemma read_reply_again:
  "read_reply c retry_left req reply = Again req' \<Longrightarrow>
     req' = req \<and> retry_left \<and> rc_auth c \<and> answered_code reply = Some 10002"
  by (auto simp: read_reply_def answered_code_def split: http_outcome.splits sum.splits if_splits)

lemma read_reply_stop:
  assumes "read_reply c retry_left req reply = Stop r new"
  shows "new = [req] \<and> r \<noteq> Inl (Lang AssertionErr) \<and>
    (\<forall>v. r = Inr v \<longrightarrow> answered_code reply = Some 0) \<and>
    (\<forall>m k. r = Inl (Bybit (BybitAPIError m k)) \<longrightarrow> answered_code reply = Some k \<and> k \<noteq> 0)"
  using assms ret_code_error
  by (auto simp: read_reply_def answered_code_def api_error_def
      split: http_outcome.splits sum.splits if_splits elim!: as_dict.elims)

lemma attempt_cases:
  obtains (gated) r where "one_attempt hmac config c e retry_left w = Stop (Inl r) []"
      "\<forall>m k. r \<noteq> Bybit (BybitAPIError m k)" "r = Lang AssertionErr \<Longrightarrow> rc_auth c \<and> config = None"
    | (out) req where "attempt_request hmac config c e w req" "is_post c \<Longrightarrow> \<not> ae_quarantined e"
      "one_attempt hmac config c e retry_left w = read_reply c retry_left req (ae_transport e req)"
proof (cases "is_post c \<and> ae_quarantined e")
  case True
  then show ?thesis
    by (intro gated) (auto simp: one_attempt_def ensure_venue_writes_allowed_def)
next
  case False
  let ?h = "if rc_auth c then sign_headers hmac config (ae_epoch_ms e) (payload_of c) w else Inr []"
  have one: "one_attempt hmac config c e retry_left w =
      (case ?h of Inl r \<Rightarrow> Stop (Inl r) []
       | Inr h \<Rightarrow> read_reply c retry_left (build_request c h) (ae_transport e (build_request c h)))"
    using False by (simp add: one_attempt_def ensure_venue_writes_allowed_def Let_def cong: sum.case_cong)
  show ?thesis
  proof (cases ?h)
    case (Inl r)
    then have "rc_auth c" "config = None" "r = Lang AssertionErr"
      by (auto simp: sign_headers_def Let_def split: if_splits option.splits)
    then show ?thesis using one Inl by (intro gated) auto
  next
    case (Inr h)
    then show ?thesis using one False by (intro out [of "build_request c h"]) (auto simp: attempt_request_def)
  qed
qed

lemma reply_outcome:
  assumes "read_reply c b req (ae_transport (env n) req) = Stop r new"
  shows "new = [req]" "outcome_ok env n [req] r" "r \<noteq> Inl (Lang AssertionErr)"
  using read_reply_stop [OF assms] by (simp_all add: outcome_ok_def)

lemma rest_attempts_sends:
  assumes "rest_attempts hmac config c env left n w sent = (r, sent')"
  shows "\<exists>new. sent' = sent @ new \<and> sends_ok hmac config c env left n w new \<and> outcome_ok env n new r \<and>
    (r = Inl (Lang AssertionErr) \<longrightarrow> rc_auth c \<and> config = None)"
  using assms
proof (induction left arbitrary: n w sent)
  case (0 n w sent)
  show ?case
  proof (cases rule: attempt_cases [of hmac config c "env n" False w])
    case (gated r)
    then show ?thesis using 0 by (auto simp: sends_ok_def outcome_ok_def)
  next
    case (out req)
    show ?thesis
    proof (cases "read_reply c False req (ae_transport (env n) req)")
      case (Stop r' new)
      note o = reply_outcome [of c False req env n, OF Stop]
      have "r = r'" "sent' = sent @ [req]" using "0.prems" out(3) Stop o(1) by simp_all
      then show ?thesis using sends_ok_one [of hmac config c env n, OF out(1,2)] o by blast
    next
      case (Again req')
      then show ?thesis using read_reply_again by blast
    qed
  qed
next
  case (Suc left n w sent)
  show ?case
  proof (cases rule: attempt_cases [of hmac config c "env n" True w])
    case (gated r)
    then show ?thesis using Suc.prems by (auto simp: sends_ok_def outcome_ok_def)
  next
    case (out req)
    show ?thesis
    proof (cases "read_reply c True req (ae_transport (env n) req)")
      case (Stop r' new)
      note o = reply_outcome [of c True req env n, OF Stop]
      have "r = r'" "sent' = sent @ [req]" using Suc.prems out(3) Stop o(1) by simp_all
      then show ?thesis using sends_ok_one [of hmac config c env n, OF out(1,2)] o by blast
    next
      case (Again req')
      note a = read_reply_again [OF Again]
      then have "rest_attempts hmac config c env left (Suc n) (w + TIMESTAMP_RECV_WINDOW_STEP_MS)
          (sent @ [req]) = (r, sent')"
        using Suc.prems out(3) Again by simp
      from Suc.IH [OF this] obtain new where
        new: "sent' = (sent @ [req]) @ new" "outcome_ok env (Suc n) new r"
        "r = Inl (Lang AssertionErr) \<longrightarrow> rc_auth c \<and> config = None"
        "sends_ok hmac config c env left (Suc n) (w + TIMESTAMP_RECV_WINDOW_STEP_MS) new"
        by blast
      have "sends_ok hmac config c env (Suc left) n w (req # new)"
        using sends_ok_Cons [of hmac config c env n, OF out(1,2)] a new(4) by blast
      then show ?thesis using new outcome_ok_Cons [OF new(2)] by (intro exI [of _ "req # new"]) simp
    qed
  qed
qed

section \<open>Properties\<close>

text \<open>
  C10. A call sends at most three requests, and no write leaves while the quarantine forbids it: each
  attempt, the timestamp retries included, is gated anew. Attempt \<open>i\<close> is signed afresh with a receive
  window of \<open>5000 + 2500 i\<close> ms, and a further attempt follows only an authenticated call that the
  venue answered with code 10002.
\<close>

theorem every_attempt_is_gated:
  assumes "rest_request hmac config env endpoint params method body auth = (r, sent)"
  shows "sends_ok hmac config (make_call endpoint params method body auth) env
    TIMESTAMP_RETRY_COUNT 0 RECV_WINDOW_MS sent"
  using rest_attempts_sends [OF assms [unfolded rest_request_def]] by auto

text \<open>
  C11. What a call returns is what the venue said last: a value only when the last request was
  answered with code 0, an API error only with the code of the last answer, and the loop's closing
  assertion is never reached (an assertion fails only for a signed call without a key pair).
\<close>

theorem call_reports_last_answer:
  assumes "rest_request hmac config env endpoint params method body auth = (r, sent)"
  shows "outcome_ok env 0 sent r \<and> (r = Inl (Lang AssertionErr) \<longrightarrow> auth \<and> config = None)"
  using rest_attempts_sends [OF assms [unfolded rest_request_def]]
  by (auto simp: make_call_def Let_def)

section \<open>Concrete instances\<close>

text \<open>The first attempt is rejected for its timestamp, and the quarantine latches meanwhile.\<close>

definition example_env :: "nat \<Rightarrow> attempt_env" where
  "example_env i = \<lparr>ae_quarantined = (0 < i), ae_epoch_ms = 1700000000000,
     ae_transport = (\<lambda>r. Body (PDict [(''retCode'', PInt 10002)]))\<rparr>"

definition example_keys :: credentials where
  "example_keys = \<lparr>cr_api_key = ''key'', cr_api_secret = ''secret''\<rparr>"

theorem every_attempt_is_gated_witness:
  "\<exists>r sent. rest_request (\<lambda>k t. ''sig'') (Some example_keys) example_env ''/v5/order/create'' None ''POST''
      (Some [(''symbol'', PStr ''BTCUSDT'')]) True = (r, sent) \<and> length sent = 1 \<and>
      sends_ok (\<lambda>k t. ''sig'') (Some example_keys)
        (make_call ''/v5/order/create'' None ''POST'' (Some [(''symbol'', PStr ''BTCUSDT'')]) True)
        example_env TIMESTAMP_RETRY_COUNT 0 RECV_WINDOW_MS sent"
proof -
  let ?run = "rest_request (\<lambda>k t. ''sig'') (Some example_keys) example_env ''/v5/order/create'' None ''POST''
      (Some [(''symbol'', PStr ''BTCUSDT'')]) True"
  obtain r sent where run: "?run = (r, sent)" by fastforce
  have "lower ''POST'' = ''post''" "lower ''GET'' = ''get''" by code_simp+
  then have "length (snd ?run) = 1"
    by (simp add: rest_request_def TIMESTAMP_RETRY_COUNT_def numeral_2_eq_2 one_attempt_def
        read_reply_def make_call_def Let_def is_post_def ensure_venue_writes_allowed_def example_env_def
        sign_headers_def ret_code_of_def jget_default_def)
  then have "length sent = 1" using run by simp
  with run every_attempt_is_gated [OF run] show ?thesis by (intro exI conjI)
qed

theorem call_reports_last_answer_witness:
  "\<exists>r sent. rest_request (\<lambda>k t. ''sig'') (Some example_keys) example_env ''/v5/market/time'' None ''GET''
      None False = (r, sent) \<and> length sent = 1 \<and> outcome_ok example_env 0 sent r"
proof -
  let ?run = "rest_request (\<lambda>k t. ''sig'') (Some example_keys) example_env ''/v5/market/time'' None ''GET''
      None False"
  obtain r sent where run: "?run = (r, sent)" by fastforce
  have "lower ''POST'' = ''post''" "lower ''GET'' = ''get''" by code_simp+
  then have "length (snd ?run) = 1"
    by (simp add: rest_request_def TIMESTAMP_RETRY_COUNT_def numeral_2_eq_2 one_attempt_def
        read_reply_def make_call_def Let_def is_post_def ensure_venue_writes_allowed_def example_env_def
        sign_headers_def ret_code_of_def jget_default_def)
  then have "length sent = 1" using run by simp
  with run conjunct1 [OF call_reports_last_answer [OF run]] show ?thesis by (intro exI conjI)
qed

end
