(* ===== verification/Live_Feed.thy ===== *)
theory Live_Feed
  imports Market_Data
begin

text \<open>
  Model of \<^verbatim>\<open>src/src/pynecore_bybit/live_provider.py\<close>: the bridge from the public kline stream to
  \<open>watch_ohlcv\<close>. Closed bars travel through a queue, the forming bar through one slot, and the
  closed-bar cursor says what a reconnect has to fetch.

  Asyncio. Between two awaits nothing else runs, so every operation is a state transformer; where the
  code awaits, the frames the receive task handles meanwhile are an argument. The event that wakes
  the consumer is not modelled: \<open>watch_ohlcv\<close> is one round of its loop, which delivers, raises or
  waits. The queue object is the one of the current connection. Times are epoch milliseconds.
\<close>

section \<open>State\<close>

text \<open>A queue entry is a closed bar or the closure sentinel \<open>None\<close>.\<close>

record feed =
  fd_queue :: "ohlcv option list option"
  fd_snapshot :: "ohlcv option"
  fd_pending :: "ohlcv list option"
  fd_last_closed :: "int option"
  fd_stream_bar :: "int option"
  fd_last_price :: "num option"
  fd_public_ws :: bool

definition new_feed :: feed where
  "new_feed = \<lparr>fd_queue = None, fd_snapshot = None, fd_pending = None, fd_last_closed = None,
     fd_stream_bar = None, fd_last_price = None, fd_public_ws = False\<rparr>"

text \<open>\<open>last is not None and t <= last\<close>, and \<open>last or 0\<close>\<close>

definition not_newer :: "int \<Rightarrow> int option \<Rightarrow> bool" where
  "not_newer t lc = (case lc of Some l \<Rightarrow> t \<le> l | None \<Rightarrow> False)"

definition or_zero :: "int option \<Rightarrow> int" where
  "or_zero lc = (case lc of Some l \<Rightarrow> l | None \<Rightarrow> 0)"

section \<open>Queueing\<close>

definition enqueue_closed :: "ohlcv \<Rightarrow> feed \<Rightarrow> feed" where
  "enqueue_closed bar F =
     F\<lparr>fd_snapshot :=
         (case fd_snapshot F of
            Some s \<Rightarrow> if oh_timestamp s \<le> oh_timestamp bar then None else Some s
          | None \<Rightarrow> None),
       fd_last_closed := Some (oh_timestamp bar),
       fd_queue := map_option (\<lambda>q. q @ [Some bar]) (fd_queue F)\<rparr>"

definition on_ws_closed :: "feed \<Rightarrow> feed" where
  "on_ws_closed F = F\<lparr>fd_queue := map_option (\<lambda>q. q @ [None]) (fd_queue F)\<rparr>"

definition advance_closed_cursor :: "int \<Rightarrow> feed \<Rightarrow> feed" where
  "advance_closed_cursor t F =
     (case fd_last_closed F of
        None \<Rightarrow> F\<lparr>fd_last_closed := Some t\<rparr>
      | Some l \<Rightarrow> if l < t then F\<lparr>fd_last_closed := Some t\<rparr> else F)"

text \<open>\<open>_release_pending_closed\<close>: the sort is stable, the cursor drops what the backfill covered.\<close>

fun release_bars :: "ohlcv list \<Rightarrow> feed \<Rightarrow> feed" where
  "release_bars [] F = F"
| "release_bars (b # bs) F =
     release_bars bs
       (if not_newer (oh_timestamp b) (fd_last_closed F) then F else enqueue_closed b F)"

definition release_pending_closed :: "feed \<Rightarrow> feed" where
  "release_pending_closed F =
     (let F1 = F\<lparr>fd_pending := None\<rparr> in
      case fd_pending F of
        None \<Rightarrow> F1
      | Some pending \<Rightarrow>
          if pending = [] \<or> fd_queue F = None then F1
          else release_bars (sort_key oh_timestamp pending) F1)"

section \<open>Inbound frames\<close>

text \<open>\<open>entry[k]\<close>\<close>

fun entry_item :: "py \<Rightarrow> string \<Rightarrow> py_error + py" where
  "entry_item (PDict d) k = (case map_of d k of Some v \<Rightarrow> Inr v | None \<Rightarrow> Inl KeyErr)"
| "entry_item v k = Inl TypeErr"

definition confirmed :: "py \<Rightarrow> bool" where
  "confirmed entry =
     (case entry of PDict d \<Rightarrow> truthy (jget_default d ''confirm'' (PBool False)) | _ \<Rightarrow> False)"

definition push_bar :: "py \<Rightarrow> py_error + ohlcv" where
  "push_bar entry =
     res_bind (res_bind (entry_item entry ''start'') py_int) (\<lambda>t.
     res_bind (res_bind (entry_item entry ''open'') py_float) (\<lambda>o1.
     res_bind (res_bind (entry_item entry ''high'') py_float) (\<lambda>h.
     res_bind (res_bind (entry_item entry ''low'') py_float) (\<lambda>l.
     res_bind (res_bind (entry_item entry ''close'') py_float) (\<lambda>c.
     res_bind (res_bind (entry_item entry ''volume'') py_float) (\<lambda>v.
       Inr \<lparr>oh_timestamp = t, oh_open = o1, oh_high = h, oh_low = l, oh_close = c, oh_volume = v,
            oh_is_closed = confirmed entry\<rparr>))))))"

text \<open>One parsed bar of a push\<close>

definition take_push :: "ohlcv \<Rightarrow> feed \<Rightarrow> feed" where
  "take_push bar F =
     (if \<not> oh_is_closed bar \<and> not_newer (oh_timestamp bar) (fd_last_closed F) then F
      else
        let F1 = F\<lparr>fd_last_price := Some (oh_close bar),
                    fd_stream_bar :=
                      (case fd_stream_bar F of
                         None \<Rightarrow> Some (oh_timestamp bar)
                       | Some s \<Rightarrow> Some (if oh_timestamp bar > s then oh_timestamp bar else s))\<rparr>
        in if oh_is_closed bar
           then
             (case fd_pending F1 of
                Some pending \<Rightarrow> F1\<lparr>fd_pending := Some (pending @ [bar])\<rparr>
              | None \<Rightarrow>
                  if not_newer (oh_timestamp bar) (fd_last_closed F1) then F1
                  else enqueue_closed bar F1)
           else F1\<lparr>fd_snapshot := Some bar\<rparr>)"

text \<open>The entries of a push: an entry that does not parse is skipped, other errors escape.\<close>

definition push_skips :: "py_error \<Rightarrow> bool" where
  "push_skips e \<longleftrightarrow> e = KeyErr \<or> e = ValueErr \<or> e = TypeErr"

fun take_pushes :: "py list \<Rightarrow> feed \<Rightarrow> feed \<times> raised option" where
  "take_pushes [] F = (F, None)"
| "take_pushes (entry # es) F =
     (case push_bar entry of
        Inl e \<Rightarrow> if push_skips e then take_pushes es F else (F, Some (Lang e))
      | Inr bar \<Rightarrow> take_pushes es (take_push bar F))"

definition on_ws_message :: "jdict \<Rightarrow> feed \<Rightarrow> feed \<times> raised option" where
  "on_ws_message data F =
     (if fd_queue F = None \<or> \<not> starts_with (py_str (jget_default data ''topic'' (PStr []))) ''kline.''
      then (F, None)
      else
        case as_list (py_or (jget data ''data'') (PList [])) of
          Inl e \<Rightarrow> (F, Some (Lang e))
        | Inr entries \<Rightarrow> take_pushes entries F)"

text \<open>
  The frames the receive task handles in a row. One that raises ends the task, and unless the socket
  is being closed on purpose its exit queues the sentinel.
\<close>

fun recv_frames :: "bool \<Rightarrow> jdict list \<Rightarrow> feed \<Rightarrow> feed" where
  "recv_frames closing [] F = F"
| "recv_frames closing (data # rest) F =
     (case on_ws_message data F of
        (F1, None) \<Rightarrow> recv_frames closing rest F1
      | (F1, Some e) \<Rightarrow> if closing then F1 else on_ws_closed F1)"

section \<open>The consumer\<close>

datatype watch_result = Delivered ohlcv | Raised raised | Waiting

definition watch_ohlcv :: "feed \<Rightarrow> feed \<times> watch_result" where
  "watch_ohlcv F =
     (case fd_queue F of
        None \<Rightarrow> (F, Raised (Lang (ConnectionErr
          ''Bybit live provider is not connected - call connect() first.'')))
      | Some (item # q) \<Rightarrow>
          (case item of
             None \<Rightarrow> (F\<lparr>fd_queue := Some q\<rparr>,
                      Raised (Lang (ConnectionErr ''Bybit WebSocket stream closed unexpectedly'')))
           | Some bar \<Rightarrow> (F\<lparr>fd_queue := Some q\<rparr>, Delivered bar))
      | Some [] \<Rightarrow>
          (case fd_snapshot F of
             Some s \<Rightarrow> (F\<lparr>fd_snapshot := None\<rparr>, Delivered s)
           | None \<Rightarrow> (F, Waiting)))"

section \<open>Lifecycle\<close>

text \<open>
  \<open>connect\<close>: \<open>market\<close> is the outcome of \<open>_get_market\<close>, \<open>ws_outcome\<close> what opening the socket and
  subscribing raise, \<open>frames\<close> what arrives while the subscription is acknowledged.
\<close>

definition connect ::
    "string option \<Rightarrow> string option \<Rightarrow> string \<Rightarrow> string option \<Rightarrow> raised + instrument_info \<Rightarrow>
     raised option \<Rightarrow> jdict list \<Rightarrow> feed \<Rightarrow> feed \<times> raised option" where
  "connect timeframe symbol region host market ws_outcome frames F =
     (case (timeframe, symbol) of
        (Some tf, Some s) \<Rightarrow>
          (case to_exchange_timeframe tf of
             Inl e \<Rightarrow> (F, Some e)
           | Inr interval \<Rightarrow>
               (case market of
                  Inl e \<Rightarrow> (F, Some e)
                | Inr m \<Rightarrow>
                    if (case host of Some h \<Rightarrow> h = [] | None \<Rightarrow> True)
                    then (F, Some (Bybit (BybitConnectionError
                           (''Bybit region '' @ quote_str region @ '' has no public stream host; '' @
                            ''set the ws_public_host override in the config''))))
                    else
                      let F1 = F\<lparr>fd_queue := Some [], fd_snapshot := None,
                                  fd_pending :=
                                    (if fd_last_closed F \<noteq> None \<or> fd_stream_bar F \<noteq> None
                                     then Some [] else None),
                                  fd_public_ws := True\<rparr>;
                          F2 = recv_frames False frames F1
                      in case ws_outcome of
                           None \<Rightarrow> (F2, None)
                         | Some (Bybit e) \<Rightarrow> (F2\<lparr>fd_public_ws := False\<rparr>, Some (Bybit e))
                         | Some e \<Rightarrow> (F2, Some e)))
      | _ \<Rightarrow> (F, Some (Bybit (BybitConnectionError
             (''Bybit live provider requires both 'symbol' and 'timeframe' '' @
              ''to be configured before connect()'')))))"

definition disconnect :: "feed \<Rightarrow> feed" where
  "disconnect F = F\<lparr>fd_public_ws := False, fd_queue := None, fd_snapshot := None, fd_pending := None\<rparr>"

text \<open>One tick of the watchdog: \<open>frames\<close> arrive while the silent socket is closed.\<close>

definition WS_STALE_THRESHOLD_S :: rat where "WS_STALE_THRESHOLD_S = 60"

definition watchdog_tick :: "rat \<Rightarrow> rat \<Rightarrow> jdict list \<Rightarrow> feed \<Rightarrow> feed" where
  "watchdog_tick now last_message frames F =
     (if \<not> fd_public_ws F then F
      else if now - last_message \<le> WS_STALE_THRESHOLD_S then F
      else on_ws_closed (recv_frames True frames (F\<lparr>fd_public_ws := False\<rparr>)))"

section \<open>The cursor only moves forward\<close>

definition lc_le :: "int option \<Rightarrow> int option \<Rightarrow> bool" where
  "lc_le a b \<longleftrightarrow> (\<forall>x. a = Some x \<longrightarrow> (\<exists>y. b = Some y \<and> x \<le> y))"

lemma lc_le_refl [simp]: "lc_le a a" and lc_le_None [simp]: "lc_le None b"
  by (simp_all add: lc_le_def)

lemma lc_le_Some [simp]: "lc_le (Some x) (Some y) \<longleftrightarrow> x \<le> y" "\<not> lc_le (Some x) None"
  by (simp_all add: lc_le_def)

lemma lc_le_trans [trans]: "lc_le a b \<Longrightarrow> lc_le b c \<Longrightarrow> lc_le a c"
  by (force simp: lc_le_def)

lemma not_newer_le: "\<not> not_newer t a \<Longrightarrow> lc_le a (Some t)"
  by (auto simp: not_newer_def lc_le_def split: option.splits)

lemma enqueue_closed_fields [simp]:
  "fd_last_closed (enqueue_closed b F) = Some (oh_timestamp b)"
  "fd_pending (enqueue_closed b F) = fd_pending F"
  "fd_stream_bar (enqueue_closed b F) = fd_stream_bar F"
  "fd_public_ws (enqueue_closed b F) = fd_public_ws F"
  "fd_queue (enqueue_closed b F) = map_option (\<lambda>q. q @ [Some b]) (fd_queue F)"
  by (simp_all add: enqueue_closed_def)

lemma on_ws_closed_fields [simp]:
  "fd_last_closed (on_ws_closed F) = fd_last_closed F" "fd_pending (on_ws_closed F) = fd_pending F"
  "fd_snapshot (on_ws_closed F) = fd_snapshot F" "fd_public_ws (on_ws_closed F) = fd_public_ws F"
  "fd_stream_bar (on_ws_closed F) = fd_stream_bar F"
  by (simp_all add: on_ws_closed_def)

lemma take_push_lc: "lc_le (fd_last_closed F) (fd_last_closed (take_push b F))"
  by (auto simp: take_push_def Let_def not_newer_le split: option.splits)

lemma take_pushes_lc: "take_pushes es F = (F', r) \<Longrightarrow> lc_le (fd_last_closed F) (fd_last_closed F')"
proof (induction es F rule: take_pushes.induct)
  case (1 F)
  then show ?case by simp
next
  case (2 e es F)
  then show ?case using take_push_lc lc_le_trans by (fastforce split: sum.splits if_splits)
qed

lemma on_ws_message_lc: "on_ws_message d F = (F', r) \<Longrightarrow> lc_le (fd_last_closed F) (fd_last_closed F')"
  using take_pushes_lc by (auto simp: on_ws_message_def split: if_splits sum.splits)

lemma recv_frames_lc: "lc_le (fd_last_closed F) (fd_last_closed (recv_frames closing ms F))"
proof (induction ms arbitrary: F)
  case Nil
  then show ?case by simp
next
  case (Cons d ms)
  obtain F1 r where m: "on_ws_message d F = (F1, r)" by fastforce
  show ?case
    using on_ws_message_lc [OF m] Cons [of F1] m lc_le_trans by (cases r) auto
qed

section \<open>Backfilling\<close>

text \<open>The rows of one page; the flag tells whether a bar was queued.\<close>

fun backfill_rows ::
    "string \<Rightarrow> int \<Rightarrow> (int \<times> py) list \<Rightarrow> bool \<Rightarrow> feed \<Rightarrow> (feed \<times> bool) \<times> raised option" where
  "backfill_rows interval now_ts [] wrote F = ((F, wrote), None)"
| "backfill_rows interval now_ts ((t, row) # rows) wrote F =
     (if t \<le> or_zero (fd_last_closed F) then backfill_rows interval now_ts rows wrote F
      else
        case bar_close_ts t interval of
          Inl e \<Rightarrow> ((F, wrote), Some (Lang e))
        | Inr close \<Rightarrow>
            if close > now_ts then backfill_rows interval now_ts rows wrote F
            else
              case row_bar True t row of
                Inl e \<Rightarrow> ((F, wrote), Some (Lang e))
              | Inr bar \<Rightarrow> backfill_rows interval now_ts rows True (enqueue_closed bar F))"

definition backfill_skip :: "string \<Rightarrow> int \<Rightarrow> int \<Rightarrow> py_error + int" where
  "backfill_skip interval chunk_end cursor =
     res_bind (add_interval chunk_end interval 1) (\<lambda>a.
     res_bind (add_interval cursor interval 1) (\<lambda>b. Inr (max a b)))"

definition backfill_next :: "string \<Rightarrow> int \<Rightarrow> int \<Rightarrow> bool \<Rightarrow> feed \<Rightarrow> py_error + int" where
  "backfill_next interval chunk_end cursor wrote F =
     (if wrote
      then (case fd_last_closed F of
              None \<Rightarrow> Inl AssertionErr
            | Some l \<Rightarrow> add_interval l interval 1)
      else backfill_skip interval chunk_end cursor)"

text \<open>What every queued bar keeps, the page keeps.\<close>

lemma backfill_rows_keeps:
  assumes "backfill_rows interval now_ts rows wrote F = ((F', wrote'), r)" and "P wrote F"
    and "\<And>w G t c row b. P w G \<Longrightarrow> or_zero (fd_last_closed G) < t \<Longrightarrow> bar_close_ts t interval = Inr c \<Longrightarrow>
      c \<le> now_ts \<Longrightarrow> (t, row) \<in> set rows \<Longrightarrow> row_bar True t row = Inr b \<Longrightarrow> P True (enqueue_closed b G)"
  shows "P wrote' F'"
  using assms
proof (induction interval now_ts rows wrote F rule: backfill_rows.induct)
  case (1 interval now_ts wrote F)
  then show ?case by simp
next
  case (2 interval now_ts t row rows wrote F)
  have step: "P True (enqueue_closed b G)"
    if "P w G" "or_zero (fd_last_closed G) < t'" "bar_close_ts t' interval = Inr c" "c \<le> now_ts"
      "(t', row') \<in> set rows" "row_bar True t' row' = Inr b" for w G t' c row' b
    using "2.prems"(3) that by (meson list.set_intros(2))
  show ?case
  proof (cases "t \<le> or_zero (fd_last_closed F)")
    case True
    have run: "backfill_rows interval now_ts rows wrote F = ((F', wrote'), r)" using "2.prems"(1) True by simp
    show ?thesis by (rule "2.IH"(1) [OF True run "2.prems"(2)]) (rule step; assumption)
  next
    case late: False
    show ?thesis
    proof (cases "bar_close_ts t interval")
      case (Inl e)
      then show ?thesis using "2.prems"(1,2) late by simp
    next
      case close: (Inr c)
      show ?thesis
      proof (cases "c > now_ts")
        case True
        have run: "backfill_rows interval now_ts rows wrote F = ((F', wrote'), r)"
          using "2.prems"(1) True late close by simp
        show ?thesis by (rule "2.IH"(2) [OF late close True run "2.prems"(2)]) (rule step; assumption)
      next
        case shut: False
        show ?thesis
        proof (cases "row_bar True t row")
          case (Inl e)
          then show ?thesis using "2.prems"(1,2) late close shut by simp
        next
          case (Inr b)
          have "backfill_rows interval now_ts rows True (enqueue_closed b F) = ((F', wrote'), r)"
            using "2.prems"(1) late close shut Inr by simp
          moreover have "P True (enqueue_closed b F)"
            using "2.prems"(3) [OF "2.prems"(2) _ close _ _ Inr] late shut by simp
          ultimately show ?thesis by (rule "2.IH"(3) [OF late close shut Inr]) (rule step; assumption)
        qed
      qed
    qed
  qed
qed

lemma backfill_rows_lc:
  assumes "backfill_rows interval now_ts rows wrote F = ((F', wrote'), r)"
  shows "lc_le (fd_last_closed F) (fd_last_closed F')"
proof (rule backfill_rows_keeps [OF assms, where P = "\<lambda>w G. lc_le (fd_last_closed F) (fd_last_closed G)"])
  fix w :: bool and G :: feed and t c row b
  assume "lc_le (fd_last_closed F) (fd_last_closed G)" "or_zero (fd_last_closed G) < t" "row_bar True t row = Inr b"
  then show "lc_le (fd_last_closed F) (fd_last_closed (enqueue_closed b G))"
    using row_bar_timestamp by (fastforce simp: lc_le_def or_zero_def)
qed simp

lemma backfill_rows_wrote:
  assumes "backfill_rows interval now_ts rows False F = ((F', True), r)"
  shows "\<exists>t. fd_last_closed F' = Some t \<and> t < now_ts \<and> (\<forall>l. fd_last_closed F = Some l \<longrightarrow> l < t)"
proof -
  let ?P = "\<lambda>w G. if w then \<exists>t. fd_last_closed G = Some t \<and> t < now_ts \<and> (\<forall>l. fd_last_closed F = Some l \<longrightarrow> l < t)
                 else fd_last_closed G = fd_last_closed F"
  have "?P True F'"
  proof (rule backfill_rows_keeps [OF assms, where P = ?P])
    fix w and G :: feed and t c row b
    assume a: "?P w G" "or_zero (fd_last_closed G) < t" "bar_close_ts t interval = Inr c" "c \<le> now_ts"
      "row_bar True t row = Inr b"
    have "t < now_ts" using later [OF a(3)] a(4) by simp
    moreover have "oh_timestamp b = t" using row_bar_timestamp [OF a(5)] by simp
    moreover have "\<forall>l. fd_last_closed F = Some l \<longrightarrow> l < t"
      using a(1,2) by (auto simp: or_zero_def split: if_splits)
    ultimately show "?P True (enqueue_closed b G)" by simp
  qed simp
  then show ?thesis by simp
qed

text \<open>
  The window loop of \<open>_backfill_gap\<close>. \<open>frames n\<close> is what the receive task handles while page \<open>n\<close> is
  awaited. It ends because each page either queues a newer bar, and moves the cursor of closed bars,
  or moves the window.
\<close>

function backfill_loop ::
    "kline_api \<Rightarrow> string \<Rightarrow> int \<Rightarrow> (nat \<Rightarrow> jdict list) \<Rightarrow> nat \<Rightarrow> int \<Rightarrow> feed \<Rightarrow> feed \<times> raised option" where
  "backfill_loop api interval now_ts frames n cursor F =
     (case bar_close_ts cursor interval of
        Inl e \<Rightarrow> (F, Some (Lang e))
      | Inr close \<Rightarrow>
          if close \<le> now_ts
          then
            (case add_interval cursor interval (KLINE_LIMIT - 1) of
               Inl e \<Rightarrow> (F, Some (Lang e))
             | Inr window \<Rightarrow>
                 (case api cursor (min window now_ts) of
                    Inl e \<Rightarrow> (recv_frames False (frames n) F, Some e)
                  | Inr result \<Rightarrow>
                      (case sorted_rows (py_or (jget result ''list'') (PList [])) of
                         Inl e \<Rightarrow> (recv_frames False (frames n) F, Some (Lang e))
                       | Inr rows \<Rightarrow>
                           (case backfill_rows interval now_ts rows False (recv_frames False (frames n) F) of
                              ((F1, wrote), Some e) \<Rightarrow> (F1, Some e)
                            | ((F1, wrote), None) \<Rightarrow>
                                (case backfill_next interval (min window now_ts) cursor wrote F1 of
                                   Inl e \<Rightarrow> (F1, Some (Lang e))
                                 | Inr c \<Rightarrow> backfill_loop api interval now_ts frames (Suc n) c F1)))))
          else (F, None))"
  by pat_completeness auto

definition lc_rank :: "int \<Rightarrow> int option \<Rightarrow> nat \<times> nat" where
  "lc_rank now_ts lc = (case lc of None \<Rightarrow> (1, 0) | Some l \<Rightarrow> (0, nat (now_ts - l)))"

lemma lc_rank_le:
  "lc_le a b \<Longrightarrow> fst (lc_rank n b) < fst (lc_rank n a) \<or>
     fst (lc_rank n b) = fst (lc_rank n a) \<and> snd (lc_rank n b) \<le> snd (lc_rank n a)"
  by (cases a; cases b) (auto simp: lc_rank_def)

lemma backfill_skip_later: "backfill_skip interval ce cursor = Inr c \<Longrightarrow> cursor < c"
  using add_interval_later [of cursor interval 1] by (fastforce simp: backfill_skip_def res_bind_Inr_iff)

lemma backfill_step_decreases:
  assumes "bar_close_ts cursor interval = Inr close" and "close \<le> now_ts"
    and "backfill_rows interval now_ts rows False (recv_frames False ms F) = ((F1, wrote), r)"
    and "backfill_next interval ce cursor wrote F1 = Inr c"
  shows "fst (lc_rank now_ts (fd_last_closed F1)) < fst (lc_rank now_ts (fd_last_closed F)) \<or>
    fst (lc_rank now_ts (fd_last_closed F1)) = fst (lc_rank now_ts (fd_last_closed F)) \<and>
    (snd (lc_rank now_ts (fd_last_closed F1)) < snd (lc_rank now_ts (fd_last_closed F)) \<or>
     snd (lc_rank now_ts (fd_last_closed F1)) = snd (lc_rank now_ts (fd_last_closed F)) \<and>
     nat (now_ts - c) < nat (now_ts - cursor))"
proof (cases wrote)
  case True
  then obtain t where t: "fd_last_closed F1 = Some t" "t < now_ts"
    "\<forall>l. fd_last_closed (recv_frames False ms F) = Some l \<longrightarrow> l < t"
    using backfill_rows_wrote [of interval now_ts rows "recv_frames False ms F" F1 r] assms(3) by auto
  show ?thesis
  proof (cases "fd_last_closed F")
    case None
    then show ?thesis using t(1) by (simp add: lc_rank_def)
  next
    case (Some x)
    then obtain y where "fd_last_closed (recv_frames False ms F) = Some y" "x \<le> y"
      using recv_frames_lc [of F False ms] by (auto simp: lc_le_def)
    then show ?thesis using t Some by (auto simp: lc_rank_def)
  qed
next
  case False
  have "lc_le (fd_last_closed F) (fd_last_closed F1)"
    using recv_frames_lc backfill_rows_lc [OF assms(3)] lc_le_trans by blast
  moreover have "cursor < c"
    using assms(4) False backfill_skip_later by (simp add: backfill_next_def)
  moreover have "cursor < now_ts" using later [OF assms(1)] assms(2) by simp
  ultimately show ?thesis using lc_rank_le [of "fd_last_closed F" "fd_last_closed F1" now_ts] by linarith
qed

termination backfill_loop
proof (relation "measures
    [\<lambda>(api, interval, now_ts, frames, n, cursor, F). fst (lc_rank now_ts (fd_last_closed F)),
     \<lambda>(api, interval, now_ts, frames, n, cursor, F). snd (lc_rank now_ts (fd_last_closed F)),
     \<lambda>(api, interval, now_ts, frames, n, cursor, F). nat (now_ts - cursor)]", goal_cases)
  case 1
  show ?case by simp
next
  case (2 api interval now_ts frames n cursor F close window result rows x y F1 wrote c)
  then show ?case
    using backfill_step_decreases [of cursor interval close now_ts rows "frames n" F F1 wrote None] by fastforce
qed

declare backfill_loop.simps [simp del]

text \<open>
  \<open>_backfill_gap\<close>: \<open>frames 0\<close> arrives while the market is resolved. The cursor starts after the last
  closed bar, or at the bar seen forming when the stream has not closed one.
\<close>

definition backfill_gap ::
    "string option \<Rightarrow> raised + instrument_info \<Rightarrow> kline_api \<Rightarrow> int \<Rightarrow> (nat \<Rightarrow> jdict list) \<Rightarrow> feed \<Rightarrow>
     feed \<times> raised option" where
  "backfill_gap timeframe market api now_ts frames F =
     (case timeframe of
        None \<Rightarrow> (F, None)
      | Some tf \<Rightarrow>
          if fd_queue F = None then (F, None)
          else
            case to_exchange_timeframe tf of
              Inl e \<Rightarrow> (F, Some e)
            | Inr interval \<Rightarrow>
                (case (case fd_last_closed F of
                         Some l \<Rightarrow> map_sum id Some (add_interval l interval 1)
                       | None \<Rightarrow> Inr (fd_stream_bar F)) of
                   Inl e \<Rightarrow> (F, Some (Lang e))
                 | Inr None \<Rightarrow> (F, None)
                 | Inr (Some cursor) \<Rightarrow>
                     (case bar_close_ts cursor interval of
                        Inl e \<Rightarrow> (F, Some (Lang e))
                      | Inr close \<Rightarrow>
                          if close > now_ts then (F, None)
                          else
                            case market of
                              Inl e \<Rightarrow> (recv_frames False (frames 0) F, Some e)
                            | Inr m \<Rightarrow>
                                backfill_loop api interval now_ts frames 1 cursor
                                  (recv_frames False (frames 0) F))))"

text \<open>
  \<open>on_reconnect\<close>: \<open>closing\<close> is what the receive task still handles while the socket is being closed
  after a failure. Only the plugin's own errors take the rewinding branch.
\<close>

definition on_reconnect ::
    "string option \<Rightarrow> raised + instrument_info \<Rightarrow> kline_api \<Rightarrow> int \<Rightarrow> (nat \<Rightarrow> jdict list) \<Rightarrow>
     jdict list \<Rightarrow> feed \<Rightarrow> feed \<times> raised option" where
  "on_reconnect timeframe market api now_ts frames closing F =
     (let resume_from = fd_last_closed F in
      case backfill_gap timeframe market api now_ts frames F of
        (F1, None) \<Rightarrow> (release_pending_closed F1, None)
      | (F1, Some (Bybit e)) \<Rightarrow>
          (let F2 = F1\<lparr>fd_last_closed := resume_from, fd_pending := None, fd_public_ws := False\<rparr>
           in (if fd_public_ws F1 then on_ws_closed (recv_frames True closing F2) else F2,
               Some (Bybit e)))
      | (F1, Some e) \<Rightarrow> (F1, Some e))"

text \<open>\<open>backfill_closed_bars\<close>: the rows of a page go to the list handed to the framework.\<close>

fun recover_rows ::
    "string \<Rightarrow> int \<Rightarrow> int \<Rightarrow> (int \<times> py) list \<Rightarrow> ohlcv list \<Rightarrow> int option \<Rightarrow>
     (ohlcv list \<times> int option) \<times> raised option" where
  "recover_rows interval now_ts since_ms [] recovered newest = ((recovered, newest), None)"
| "recover_rows interval now_ts since_ms ((t, row) # rows) recovered newest =
     (if t \<le> since_ms \<or> (recovered \<noteq> [] \<and> t \<le> oh_timestamp (last recovered))
      then recover_rows interval now_ts since_ms rows recovered newest
      else
        case bar_close_ts t interval of
          Inl e \<Rightarrow> ((recovered, newest), Some (Lang e))
        | Inr close \<Rightarrow>
            if close > now_ts then recover_rows interval now_ts since_ms rows recovered newest
            else
              case row_bar True t row of
                Inl e \<Rightarrow> ((recovered, newest), Some (Lang e))
              | Inr bar \<Rightarrow>
                  recover_rows interval now_ts since_ms rows (recovered @ [bar]) (Some t))"

definition recover_next :: "string \<Rightarrow> int \<Rightarrow> int \<Rightarrow> int option \<Rightarrow> py_error + int" where
  "recover_next interval chunk_end cursor newest =
     (case newest of
        Some t \<Rightarrow> add_interval t interval 1
      | None \<Rightarrow> backfill_skip interval chunk_end cursor)"

definition last_ts :: "ohlcv list \<Rightarrow> int option" where
  "last_ts bs = (if bs = [] then None else Some (oh_timestamp (last bs)))"

lemma recover_rows_keeps:
  assumes "recover_rows interval now_ts since_ms rows rec newest = ((rec', newest'), r)" and "P rec newest"
    and "\<And>bs n t c row b. P bs n \<Longrightarrow> since_ms < t \<Longrightarrow> \<not> not_newer t (last_ts bs) \<Longrightarrow>
      bar_close_ts t interval = Inr c \<Longrightarrow> c \<le> now_ts \<Longrightarrow> row_bar True t row = Inr b \<Longrightarrow>
      P (bs @ [b]) (Some t)"
  shows "P rec' newest'"
  using assms
proof (induction interval now_ts since_ms rows rec newest rule: recover_rows.induct)
  case (1 interval now_ts since_ms rec newest)
  then show ?case by simp
next
  case (2 interval now_ts since_ms t row rows rec newest)
  note step = "2.prems"(3)
  show ?case
  proof (cases "t \<le> since_ms \<or> (rec \<noteq> [] \<and> t \<le> oh_timestamp (last rec))")
    case True
    have run: "recover_rows interval now_ts since_ms rows rec newest = ((rec', newest'), r)"
      using "2.prems"(1) True by (simp split: if_splits)
    show ?thesis by (rule "2.IH"(1) [OF True run "2.prems"(2)]) (rule step; assumption)
  next
    case late: False
    show ?thesis
    proof (cases "bar_close_ts t interval")
      case (Inl e)
      then show ?thesis using "2.prems"(1,2) late by (simp split: if_splits)
    next
      case close: (Inr c)
      show ?thesis
      proof (cases "c > now_ts")
        case True
        have run: "recover_rows interval now_ts since_ms rows rec newest = ((rec', newest'), r)"
          using "2.prems"(1) True late close by (simp split: if_splits)
        show ?thesis by (rule "2.IH"(2) [OF late close True run "2.prems"(2)]) (rule step; assumption)
      next
        case shut: False
        show ?thesis
        proof (cases "row_bar True t row")
          case (Inl e)
          then show ?thesis using "2.prems"(1,2) late close shut by (simp split: if_splits)
        next
          case (Inr b)
          have "recover_rows interval now_ts since_ms rows (rec @ [b]) (Some t) = ((rec', newest'), r)"
            using "2.prems"(1) late close shut Inr by (simp split: if_splits)
          moreover have "P (rec @ [b]) (Some t)"
            using step [OF "2.prems"(2) _ _ close _ Inr] late shut
            by (auto simp: not_newer_def last_ts_def split: if_splits)
          ultimately show ?thesis by (rule "2.IH"(3) [OF late close shut Inr]) (rule step; assumption)
        qed
      qed
    qed
  qed
qed

lemma recover_rows_newest:
  assumes "recover_rows interval now_ts since_ms rows rec None = ((rec', newest'), r)"
  shows "case newest' of
      None \<Rightarrow> rec' = rec
    | Some t \<Rightarrow> last_ts rec' = Some t \<and> t < now_ts \<and> (\<forall>l. last_ts rec = Some l \<longrightarrow> l < t)"
proof (rule recover_rows_keeps [OF assms, where P = "\<lambda>bs n. case n of
      None \<Rightarrow> bs = rec
    | Some t \<Rightarrow> last_ts bs = Some t \<and> t < now_ts \<and> (\<forall>l. last_ts rec = Some l \<longrightarrow> l < t)"])
  fix bs n t c row b
  assume a: "case n of None \<Rightarrow> bs = rec
      | Some t \<Rightarrow> last_ts bs = Some t \<and> t < now_ts \<and> (\<forall>l. last_ts rec = Some l \<longrightarrow> l < t)"
    "\<not> not_newer t (last_ts bs)" "bar_close_ts t interval = Inr c" "c \<le> now_ts" "row_bar True t row = Inr b"
  have "t < now_ts" using later [OF a(3)] a(4) by simp
  moreover have "last_ts (bs @ [b]) = Some t" using row_bar_timestamp [OF a(5)] by (simp add: last_ts_def)
  moreover have "\<forall>l. last_ts rec = Some l \<longrightarrow> l < t"
    using a(1,2) by (cases n) (auto simp: not_newer_def)
  ultimately show "case Some t of None \<Rightarrow> bs @ [b] = rec
      | Some t \<Rightarrow> last_ts (bs @ [b]) = Some t \<and> t < now_ts \<and> (\<forall>l. last_ts rec = Some l \<longrightarrow> l < t)"
    by simp
qed simp

function recover_loop ::
    "kline_api \<Rightarrow> string \<Rightarrow> int \<Rightarrow> int \<Rightarrow> (nat \<Rightarrow> jdict list) \<Rightarrow> nat \<Rightarrow> int \<Rightarrow> ohlcv list \<Rightarrow> feed \<Rightarrow>
     feed \<times> (raised + ohlcv list)" where
  "recover_loop api interval now_ts since_ms frames n cursor recovered F =
     (case bar_close_ts cursor interval of
        Inl e \<Rightarrow> (F, Inl (Lang e))
      | Inr close \<Rightarrow>
          if close \<le> now_ts
          then
            (case add_interval cursor interval (KLINE_LIMIT - 1) of
               Inl e \<Rightarrow> (F, Inl (Lang e))
             | Inr window \<Rightarrow>
                 (case api cursor (min window now_ts) of
                    Inl e \<Rightarrow> (recv_frames False (frames n) F, Inl e)
                  | Inr result \<Rightarrow>
                      (case sorted_rows (py_or (jget result ''list'') (PList [])) of
                         Inl e \<Rightarrow> (recv_frames False (frames n) F, Inl (Lang e))
                       | Inr rows \<Rightarrow>
                           (case recover_rows interval now_ts since_ms rows recovered None of
                              ((recovered1, newest), Some e) \<Rightarrow>
                                (recv_frames False (frames n) F, Inl e)
                            | ((recovered1, newest), None) \<Rightarrow>
                                (case recover_next interval (min window now_ts) cursor newest of
                                   Inl e \<Rightarrow> (recv_frames False (frames n) F, Inl (Lang e))
                                 | Inr c \<Rightarrow>
                                     recover_loop api interval now_ts since_ms frames (Suc n) c
                                       recovered1 (recv_frames False (frames n) F))))))
          else (F, Inr recovered))"
  by pat_completeness auto

lemma recover_step_decreases:
  assumes "bar_close_ts cursor interval = Inr close" and "close \<le> now_ts"
    and "recover_rows interval now_ts since_ms rows rec None = ((rec1, newest), r)"
    and "recover_next interval ce cursor newest = Inr c"
  shows "fst (lc_rank now_ts (last_ts rec1)) < fst (lc_rank now_ts (last_ts rec)) \<or>
    fst (lc_rank now_ts (last_ts rec1)) = fst (lc_rank now_ts (last_ts rec)) \<and>
    (snd (lc_rank now_ts (last_ts rec1)) < snd (lc_rank now_ts (last_ts rec)) \<or>
     snd (lc_rank now_ts (last_ts rec1)) = snd (lc_rank now_ts (last_ts rec)) \<and>
     nat (now_ts - c) < nat (now_ts - cursor))"
proof (cases newest)
  case (Some t)
  then show ?thesis
    using recover_rows_newest [OF assms(3)] by (cases "last_ts rec") (auto simp: lc_rank_def)
next
  case None
  then have "rec1 = rec" using recover_rows_newest [OF assms(3)] by simp
  moreover have "cursor < c" using None assms(4) backfill_skip_later by (simp add: recover_next_def)
  moreover have "cursor < now_ts" using later [OF assms(1)] assms(2) by simp
  ultimately show ?thesis by simp
qed

termination recover_loop
proof (relation "measures
    [\<lambda>(api, interval, now_ts, since_ms, frames, n, cursor, rec, F). fst (lc_rank now_ts (last_ts rec)),
     \<lambda>(api, interval, now_ts, since_ms, frames, n, cursor, rec, F). snd (lc_rank now_ts (last_ts rec)),
     \<lambda>(api, interval, now_ts, since_ms, frames, n, cursor, rec, F). nat (now_ts - cursor)]", goal_cases)
  case 1
  show ?case by simp
next
  case (2 api interval now_ts since_ms frames n cursor rec F close window result rows x y rec1 newest c)
  then show ?case
    using recover_step_decreases [of cursor interval close now_ts since_ms rows rec rec1 newest None] by fastforce
qed

declare recover_loop.simps [simp del]

definition backfill_closed_bars ::
    "string \<Rightarrow> raised + instrument_info \<Rightarrow> kline_api \<Rightarrow> int \<Rightarrow> (nat \<Rightarrow> jdict list) \<Rightarrow> int \<Rightarrow> feed \<Rightarrow>
     feed \<times> (raised + ohlcv list)" where
  "backfill_closed_bars timeframe market api now_ts frames since_ms F =
     (case to_exchange_timeframe timeframe of
        Inl e \<Rightarrow> (F, Inl e)
      | Inr interval \<Rightarrow>
          (let F1 = advance_closed_cursor since_ms F in
           case add_interval since_ms interval 1 of
             Inl e \<Rightarrow> (F1, Inl (Lang e))
           | Inr cursor \<Rightarrow>
               (case bar_close_ts cursor interval of
                  Inl e \<Rightarrow> (F1, Inl (Lang e))
                | Inr close \<Rightarrow>
                    if close > now_ts then (F1, Inr [])
                    else
                      let F2 = recv_frames False (frames 0) F1 in
                      case market of
                        Inl e \<Rightarrow> (F2, Inl e)
                      | Inr m \<Rightarrow>
                          (case recover_loop api interval now_ts since_ms frames 1 cursor [] F2 of
                             (F3, Inl e) \<Rightarrow> (F3, Inl e)
                           | (F3, Inr recovered) \<Rightarrow>
                               ((case last_ts recovered of
                                   None \<Rightarrow> F3
                                 | Some t \<Rightarrow> advance_closed_cursor t F3),
                                Inr recovered)))))"

section \<open>The feed as a machine\<close>

text \<open>
  The operations the framework and the event loop drive. A failed reconnect is followed by the
  runner's disconnect, without the queue being read (the docstring of \<open>on_reconnect\<close>).
\<close>

datatype feed_op =
    Connect "string option" "string option" string "string option" "raised + instrument_info"
      "raised option" "jdict list"
  | Disconnect
  | Frames "jdict list"
  | SocketDied
  | Watch
  | Reconnect "string option" "raised + instrument_info" kline_api int "nat \<Rightarrow> jdict list" "jdict list"
  | StartupBackfill string "raised + instrument_info" kline_api int "nat \<Rightarrow> jdict list" int
  | Watchdog rat rat "jdict list"

fun feed_step :: "feed_op \<Rightarrow> feed \<Rightarrow> feed" where
  "feed_step (Connect tf s region host market ws frames) F =
     fst (connect tf s region host market ws frames F)"
| "feed_step Disconnect F = disconnect F"
| "feed_step (Frames ms) F = recv_frames False ms F"
| "feed_step SocketDied F = on_ws_closed F"
| "feed_step Watch F = fst (watch_ohlcv F)"
| "feed_step (Reconnect tf market api now_ts frames closing) F =
     (case on_reconnect tf market api now_ts frames closing F of
        (F1, None) \<Rightarrow> F1
      | (F1, Some e) \<Rightarrow> disconnect F1)"
| "feed_step (StartupBackfill tf market api now_ts frames since_ms) F =
     fst (backfill_closed_bars tf market api now_ts frames since_ms F)"
| "feed_step (Watchdog now last_message frames) F = watchdog_tick now last_message frames F"

text \<open>What a step hands to the framework through \<open>watch_ohlcv\<close>\<close>

definition delivered :: "feed_op \<Rightarrow> feed \<Rightarrow> ohlcv list" where
  "delivered x F =
     (case x of
        Watch \<Rightarrow> (case snd (watch_ohlcv F) of Delivered b \<Rightarrow> [b] | _ \<Rightarrow> [])
      | _ \<Rightarrow> [])"

text \<open>A run that records the deliveries\<close>

definition trace_step :: "feed_op \<Rightarrow> feed \<times> ohlcv list \<Rightarrow> feed \<times> ohlcv list" where
  "trace_step x S = (feed_step x (fst S), snd S @ delivered x (fst S))"

section \<open>What every operation keeps\<close>

text \<open>
  Everything the feed does is built from six changes: a newer closed bar is queued, the sentinel is
  queued, price and stream bar are noted, a forming bar is kept, a closed bar is held back, the held
  bars are let go. A property these keep is kept by the frames, the backfills and the release.
\<close>

locale feed_keeps =
  fixes P :: "feed \<Rightarrow> bool"
  assumes keeps_enqueue: "P F \<Longrightarrow> oh_is_closed b \<Longrightarrow> \<not> not_newer (oh_timestamp b) (fd_last_closed F) \<Longrightarrow>
      P (enqueue_closed b F)"
    and keeps_sentinel: "P F \<Longrightarrow> P (on_ws_closed F)"
    and keeps_noted: "P F \<Longrightarrow> P (F\<lparr>fd_last_price := p, fd_stream_bar := s\<rparr>)"
    and keeps_forming: "P F \<Longrightarrow> \<not> oh_is_closed b \<Longrightarrow> \<not> not_newer (oh_timestamp b) (fd_last_closed F) \<Longrightarrow>
      P (F\<lparr>fd_snapshot := Some b\<rparr>)"
    and keeps_held: "P F \<Longrightarrow> fd_pending F = Some bs \<Longrightarrow> oh_is_closed b \<Longrightarrow>
      P (F\<lparr>fd_pending := Some (bs @ [b])\<rparr>)"
    and keeps_let_go: "P F \<Longrightarrow> P (F\<lparr>fd_pending := None\<rparr>)"
    and held_closed: "P F \<Longrightarrow> fd_pending F = Some bs \<Longrightarrow> b \<in> set bs \<Longrightarrow> oh_is_closed b"
begin

lemma take_push_keeps: "P F \<Longrightarrow> P (take_push b F)"
  using keeps_noted [of F] keeps_enqueue keeps_forming keeps_held
  by (auto simp: take_push_def Let_def split: option.splits)

lemma take_pushes_keeps: "P F \<Longrightarrow> take_pushes es F = (F', r) \<Longrightarrow> P F'"
  by (induction es F rule: take_pushes.induct)
    (auto intro: take_push_keeps split: sum.splits if_splits)

lemma on_ws_message_keeps: "P F \<Longrightarrow> on_ws_message d F = (F', r) \<Longrightarrow> P F'"
  using take_pushes_keeps by (auto simp: on_ws_message_def split: if_splits sum.splits)

lemma recv_frames_keeps: "P F \<Longrightarrow> P (recv_frames closing ms F)"
proof (induction ms arbitrary: F)
  case Nil
  then show ?case by simp
next
  case (Cons d ms)
  obtain F1 r where m: "on_ws_message d F = (F1, r)" by fastforce
  then show ?case using Cons on_ws_message_keeps [OF Cons.prems m] keeps_sentinel by (cases r) auto
qed

lemma release_bars_keeps: "P F \<Longrightarrow> \<forall>b \<in> set bs. oh_is_closed b \<Longrightarrow> P (release_bars bs F)"
  by (induction bs arbitrary: F) (auto intro: keeps_enqueue)

lemma release_pending_closed_keeps: "P F \<Longrightarrow> P (release_pending_closed F)"
  using keeps_let_go release_bars_keeps held_closed
  by (auto simp: release_pending_closed_def Let_def split: option.splits)

lemma page_keeps:
  assumes "P F" and "backfill_rows interval now_ts rows wrote F = ((F', wrote'), r)"
  shows "P F'"
proof (rule backfill_rows_keeps [OF assms(2), where P = "\<lambda>w. P"])
  fix w :: bool and G :: feed and t c row b
  assume "P G" "or_zero (fd_last_closed G) < t" "row_bar True t row = Inr b"
  then show "P (enqueue_closed b G)"
    using row_bar_timestamp [of True t row b]
    by (intro keeps_enqueue) (auto simp: not_newer_def or_zero_def split: option.splits)
qed (rule assms(1))

lemma backfill_loop_keeps:
  "P F \<Longrightarrow> backfill_loop api interval now_ts frames n cursor F = (F', r) \<Longrightarrow> P F'"
proof (induction api interval now_ts frames n cursor F rule: backfill_loop.induct)
  case (1 api interval now_ts frames n cursor F)
  note eq = backfill_loop.simps [of api interval now_ts frames n cursor F]
  note frames_ok = recv_frames_keeps [OF "1.prems"(1), of False "frames n"]
  show ?case
  proof (cases "bar_close_ts cursor interval")
    case (Inl e)
    then show ?thesis using "1.prems" eq by simp
  next
    case close: (Inr c)
    show ?thesis
    proof (cases "c \<le> now_ts")
      case False
      then show ?thesis using "1.prems" eq close by simp
    next
      case due: True
      show ?thesis
      proof (cases "add_interval cursor interval (KLINE_LIMIT - 1)")
        case (Inl e)
        then show ?thesis using "1.prems" eq close due by simp
      next
        case window: (Inr w)
        show ?thesis
        proof (cases "api cursor (min w now_ts)")
          case (Inl e)
          then show ?thesis using "1.prems" eq close due window frames_ok by simp
        next
          case result: (Inr d)
          show ?thesis
          proof (cases "sorted_rows (py_or (jget d ''list'') (PList []))")
            case (Inl e)
            then show ?thesis using "1.prems" eq close due window result frames_ok by simp
          next
            case rows: (Inr rs)
            obtain F1 wrote x where page:
              "backfill_rows interval now_ts rs False (recv_frames False (frames n) F) = ((F1, wrote), x)"
              by (metis surj_pair)
            note page_ok = page_keeps [OF frames_ok page]
            show ?thesis
            proof (cases x)
              case (Some e)
              then show ?thesis using "1.prems" eq close due window result rows page page_ok by simp
            next
              case none: None
              show ?thesis
              proof (cases "backfill_next interval (min w now_ts) cursor wrote F1")
                case (Inl e)
                then show ?thesis using "1.prems" eq close due window result rows page page_ok none by simp
              next
                case (Inr k)
                have "backfill_loop api interval now_ts frames (Suc n) k F1 = (F', r)"
                  using "1.prems"(2) eq close due window result rows page none Inr by simp
                then show ?thesis
                  using "1.IH" [OF close due window result rows page [symmetric] refl none Inr page_ok]
                  by simp
              qed
            qed
          qed
        qed
      qed
    qed
  qed
qed

lemma backfill_gap_keeps:
  assumes "P F" and "backfill_gap tf market api now_ts frames F = (F', r)"
  shows "P F'"
  using assms recv_frames_keeps [OF assms(1)]
  by (auto simp: backfill_gap_def split: option.splits if_splits sum.splits
      dest: backfill_loop_keeps [OF recv_frames_keeps [OF assms(1)]])

lemma recover_loop_keeps:
  "P F \<Longrightarrow> recover_loop api interval now_ts since_ms frames n cursor rec F = (F', r) \<Longrightarrow> P F'"
proof (induction api interval now_ts since_ms frames n cursor rec F rule: recover_loop.induct)
  case (1 api interval now_ts since_ms frames n cursor rec F)
  note eq = recover_loop.simps [of api interval now_ts since_ms frames n cursor rec F]
  note frames_ok = recv_frames_keeps [OF "1.prems"(1), of False "frames n"]
  show ?case
  proof (cases "bar_close_ts cursor interval")
    case (Inl e)
    then show ?thesis using "1.prems" eq by simp
  next
    case close: (Inr c)
    show ?thesis
    proof (cases "c \<le> now_ts")
      case False
      then show ?thesis using "1.prems" eq close by simp
    next
      case due: True
      show ?thesis
      proof (cases "add_interval cursor interval (KLINE_LIMIT - 1)")
        case (Inl e)
        then show ?thesis using "1.prems" eq close due by simp
      next
        case window: (Inr w)
        show ?thesis
        proof (cases "api cursor (min w now_ts)")
          case (Inl e)
          then show ?thesis using "1.prems" eq close due window frames_ok by simp
        next
          case result: (Inr d)
          show ?thesis
          proof (cases "sorted_rows (py_or (jget d ''list'') (PList []))")
            case (Inl e)
            then show ?thesis using "1.prems" eq close due window result frames_ok by simp
          next
            case rows: (Inr rs)
            obtain rec1 newest x where page: "recover_rows interval now_ts since_ms rs rec None = ((rec1, newest), x)"
              by (metis surj_pair)
            show ?thesis
            proof (cases x)
              case (Some e)
              then show ?thesis using "1.prems" eq close due window result rows page frames_ok by simp
            next
              case none: None
              show ?thesis
              proof (cases "recover_next interval (min w now_ts) cursor newest")
                case (Inl e)
                then show ?thesis using "1.prems" eq close due window result rows page frames_ok none by simp
              next
                case (Inr k)
                have "recover_loop api interval now_ts since_ms frames (Suc n) k rec1
                    (recv_frames False (frames n) F) = (F', r)"
                  using "1.prems"(2) eq close due window result rows page none Inr by simp
                then show ?thesis
                  using "1.IH" [OF close due window result rows page [symmetric] refl none Inr frames_ok]
                  by simp
              qed
            qed
          qed
        qed
      qed
    qed
  qed
qed

end

text \<open>What also survives the cursor moving past bars handed over outside the queue.\<close>

locale feed_keeps_all = feed_keeps +
  assumes keeps_cursor: "P F \<Longrightarrow> lc_le (fd_last_closed F) (Some t) \<Longrightarrow> P (F\<lparr>fd_last_closed := Some t\<rparr>)"
begin

lemma advance_closed_cursor_keeps: "P F \<Longrightarrow> P (advance_closed_cursor t F)"
  using keeps_cursor by (auto simp: advance_closed_cursor_def lc_le_def split: option.splits)

lemma backfill_closed_bars_keeps:
  assumes "P F" and "backfill_closed_bars tf market api now_ts frames since_ms F = (F', r)"
  shows "P F'"
proof -
  note adv = advance_closed_cursor_keeps [OF assms(1), of since_ms]
  note first = recv_frames_keeps [OF adv, of False "frames 0"]
  show ?thesis
    using assms adv first recover_loop_keeps [OF first] advance_closed_cursor_keeps
    by (auto simp: backfill_closed_bars_def Let_def
        split: sum.splits if_splits prod.splits option.splits)
qed

end

section \<open>Order of the closed bars\<close>

text \<open>The closed bars in the queue, and the kinds of bar each place holds.\<close>

definition feed_bars :: "feed \<Rightarrow> ohlcv list" where
  "feed_bars F = (case fd_queue F of None \<Rightarrow> [] | Some q \<Rightarrow> List.map_filter (\<lambda>x. x) q)"

definition kinds_ok :: "feed \<Rightarrow> bool" where
  "kinds_ok F \<longleftrightarrow> (\<forall>b \<in> set (feed_bars F). oh_is_closed b) \<and>
     (\<forall>s. fd_snapshot F = Some s \<longrightarrow> \<not> oh_is_closed s) \<and>
     (\<forall>bs. fd_pending F = Some bs \<longrightarrow> (\<forall>b \<in> set bs. oh_is_closed b))"

text \<open>The bars delivered before, those queued, and the cursor.\<close>

definition before_cursor :: "ohlcv list \<Rightarrow> feed \<Rightarrow> bool" where
  "before_cursor bs F \<longleftrightarrow> (\<forall>b \<in> set bs. \<exists>l. fd_last_closed F = Some l \<and> oh_timestamp b \<le> l)"

definition order_ok :: "ohlcv list \<Rightarrow> feed \<Rightarrow> bool" where
  "order_ok ds F \<longleftrightarrow> kinds_ok F \<and> ascending (ds @ feed_bars F) \<and> before_cursor (ds @ feed_bars F) F"

lemma feed_bars_snoc [simp]:
  "fd_queue F = Some q \<Longrightarrow> fd_queue G = Some (q @ [Some b]) \<Longrightarrow> feed_bars G = feed_bars F @ [b]"
  "fd_queue F = Some q \<Longrightarrow> fd_queue G = Some (q @ [None]) \<Longrightarrow> feed_bars G = feed_bars F"
  by (simp_all add: feed_bars_def map_filter_def)

lemma feed_bars_enqueue:
  "feed_bars (enqueue_closed b F) = feed_bars F @ (if fd_queue F = None then [] else [b])"
  by (auto simp: feed_bars_def map_filter_def split: option.splits)

lemma feed_bars_sentinel [simp]: "feed_bars (on_ws_closed F) = feed_bars F"
  by (auto simp: feed_bars_def on_ws_closed_def map_filter_def split: option.splits)

lemma feed_bars_fields [simp]:
  "feed_bars (F\<lparr>fd_last_price := p\<rparr>) = feed_bars F" "feed_bars (F\<lparr>fd_stream_bar := s\<rparr>) = feed_bars F"
  "feed_bars (F\<lparr>fd_snapshot := n\<rparr>) = feed_bars F" "feed_bars (F\<lparr>fd_pending := h\<rparr>) = feed_bars F"
  "feed_bars (F\<lparr>fd_last_closed := c\<rparr>) = feed_bars F" "feed_bars (F\<lparr>fd_public_ws := w\<rparr>) = feed_bars F"
  by (simp_all add: feed_bars_def)

lemma snapshot_enqueue:
  "fd_snapshot (enqueue_closed b F) = Some s \<Longrightarrow> fd_snapshot F = Some s \<and> oh_timestamp b < oh_timestamp s"
  by (auto simp: enqueue_closed_def split: option.splits if_splits)

lemma kinds_ok_enqueue: "kinds_ok F \<Longrightarrow> oh_is_closed b \<Longrightarrow> kinds_ok (enqueue_closed b F)"
  using snapshot_enqueue [of b F] by (auto simp: kinds_ok_def feed_bars_enqueue)

lemma before_cursorD:
  "before_cursor bs F \<Longrightarrow> b \<in> set bs \<Longrightarrow> \<exists>l. fd_last_closed F = Some l \<and> oh_timestamp b \<le> l"
  by (simp add: before_cursor_def)

lemma order_okD:
  "order_ok ds F \<Longrightarrow> kinds_ok F" "order_ok ds F \<Longrightarrow> ascending (ds @ feed_bars F)"
  "order_ok ds F \<Longrightarrow> before_cursor (ds @ feed_bars F) F"
  by (simp_all add: order_ok_def)

lemma order_ok_enqueue:
  assumes "order_ok ds F" and "oh_is_closed b" and "\<not> not_newer (oh_timestamp b) (fd_last_closed F)"
  shows "order_ok ds (enqueue_closed b F)"
proof -
  have less: "oh_timestamp a < oh_timestamp b" if a: "a \<in> set (ds @ feed_bars F)" for a
  proof -
    obtain l where "fd_last_closed F = Some l" "oh_timestamp a \<le> l"
      using before_cursorD [OF order_okD(3) [OF assms(1)] a] by blast
    then show ?thesis using assms(3) by (simp add: not_newer_def)
  qed
  have asc: "ascending ((ds @ feed_bars F) @ [b])"
    using order_okD(2) [OF assms(1)] less by (intro ascending_snoc) auto
  have before: "before_cursor ((ds @ feed_bars F) @ [b]) (enqueue_closed b F)"
    using less by (fastforce simp: before_cursor_def)
  show ?thesis
  proof (cases "fd_queue F = None")
    case True
    then have "feed_bars (enqueue_closed b F) = feed_bars F" by (simp add: feed_bars_enqueue)
    then show ?thesis
      using before order_okD [OF assms(1)] kinds_ok_enqueue [OF _ assms(2)]
      by (simp add: order_ok_def before_cursor_def)
  next
    case False
    then have "feed_bars (enqueue_closed b F) = feed_bars F @ [b]" by (simp add: feed_bars_enqueue)
    then show ?thesis
      using before asc order_okD(1) [OF assms(1)] kinds_ok_enqueue [OF _ assms(2)]
      by (simp add: order_ok_def)
  qed
qed

lemma not_newer_lc: "\<not> not_newer t lc \<Longrightarrow> lc_le lc (Some t)"
  by (rule not_newer_le)

interpretation order: feed_keeps_all "order_ok ds" for ds
proof unfold_locales
  fix F :: feed and b
  show "order_ok ds F \<Longrightarrow> oh_is_closed b \<Longrightarrow> \<not> not_newer (oh_timestamp b) (fd_last_closed F) \<Longrightarrow>
      order_ok ds (enqueue_closed b F)"
    by (rule order_ok_enqueue)
  show "order_ok ds F \<Longrightarrow> \<not> oh_is_closed b \<Longrightarrow> \<not> not_newer (oh_timestamp b) (fd_last_closed F) \<Longrightarrow>
      order_ok ds (F\<lparr>fd_snapshot := Some b\<rparr>)"
    by (simp add: order_ok_def kinds_ok_def before_cursor_def)
next
  fix F :: feed and t
  show "order_ok ds F \<Longrightarrow> lc_le (fd_last_closed F) (Some t) \<Longrightarrow> order_ok ds (F\<lparr>fd_last_closed := Some t\<rparr>)"
    unfolding order_ok_def kinds_ok_def before_cursor_def lc_le_def by simp (meson order_trans)
qed (auto simp: order_ok_def kinds_ok_def before_cursor_def)

lemma order_ok_public_ws [simp]: "order_ok ds (F\<lparr>fd_public_ws := w\<rparr>) = order_ok ds F"
  by (simp add: order_ok_def kinds_ok_def before_cursor_def)

lemma order_ok_prefix: "order_ok ds F \<Longrightarrow> ascending ds \<and> before_cursor ds F"
  by (simp add: order_ok_def before_cursor_def ascending_def sorted_wrt_append)

text \<open>A feed without queue, snapshot and held bars, whose cursor is not behind the bars delivered.\<close>

lemma order_ok_empty:
  assumes "ascending ds" "before_cursor ds F" "feed_bars F = []" "fd_snapshot F = None"
    and "fd_pending F = None \<or> fd_pending F = Some []"
  shows "order_ok ds F"
  using assms by (auto simp: order_ok_def kinds_ok_def)

lemma order_ok_disconnect:
  assumes "ascending ds" "before_cursor ds F"
  shows "order_ok ds (disconnect F)"
  using assms by (intro order_ok_empty) (auto simp: disconnect_def before_cursor_def feed_bars_def)

lemma order_ok_connect:
  assumes "order_ok ds F"
  shows "order_ok ds (fst (connect tf s region host market ws frames F))"
proof -
  let ?F1 = "F\<lparr>fd_queue := Some [], fd_snapshot := None,
      fd_pending := (if fd_last_closed F \<noteq> None \<or> fd_stream_bar F \<noteq> None then Some [] else None),
      fd_public_ws := True\<rparr>"
  have "order_ok ds ?F1"
    using order_ok_prefix [OF assms]
    by (intro order_ok_empty) (auto simp: before_cursor_def feed_bars_def map_filter_def)
  then have "order_ok ds (recv_frames False frames ?F1)" by (rule order.recv_frames_keeps)
  then show ?thesis
    using assms
    by (auto simp: connect_def Let_def split: option.splits sum.splits raised.splits)
qed

lemma order_ok_consume:
  assumes "order_ok ds F" and "feed_bars F = bs @ feed_bars G" and "fd_last_closed G = fd_last_closed F"
    and "fd_pending G = fd_pending F" and "fd_snapshot G = fd_snapshot F \<or> fd_snapshot G = None"
  shows "order_ok (ds @ bs) G"
proof -
  have "(ds @ bs) @ feed_bars G = ds @ feed_bars F" using assms(2) by simp
  moreover have "kinds_ok G"
    using order_okD(1) [OF assms(1)] assms(2-) by (auto simp: kinds_ok_def)
  ultimately show ?thesis
    using order_okD(2,3) [OF assms(1)] assms(3) by (simp add: order_ok_def before_cursor_def)
qed

lemma watch_order:
  assumes "order_ok ds F" and "watch_ohlcv F = (F', r)"
  shows "order_ok (ds @ (case r of Delivered b \<Rightarrow> filter oh_is_closed [b] | _ \<Rightarrow> [])) F'"
proof -
  note k = order_okD(1) [OF assms(1)] and o = assms(1)
  consider "F' = F" "\<forall>b. r \<noteq> Delivered b"
    | (sentinel) q where "fd_queue F = Some (None # q)" "F' = F\<lparr>fd_queue := Some q\<rparr>" "\<forall>b. r \<noteq> Delivered b"
    | (bar) b q where "fd_queue F = Some (Some b # q)" "F' = F\<lparr>fd_queue := Some q\<rparr>" "r = Delivered b"
    | (forming) s where "fd_queue F = Some []" "fd_snapshot F = Some s" "F' = F\<lparr>fd_snapshot := None\<rparr>"
        "r = Delivered s"
    using assms(2) by (auto simp: watch_ohlcv_def split: option.splits list.splits)
  then show ?thesis
  proof cases
    case 1
    then show ?thesis using o by (cases r) auto
  next
    case sentinel
    then have "order_ok (ds @ []) F'"
      by (intro order_ok_consume [OF o]) (simp_all add: feed_bars_def map_filter_def)
    then show ?thesis using sentinel by (cases r) auto
  next
    case bar
    then have fb: "feed_bars F = [b] @ feed_bars F'" by (simp add: feed_bars_def map_filter_def)
    then have "oh_is_closed b" using k by (simp add: kinds_ok_def)
    moreover have "order_ok (ds @ [b]) F'" using order_ok_consume [OF o fb] bar(2) by simp
    ultimately show ?thesis using bar(3) by simp
  next
    case forming
    then have "\<not> oh_is_closed s" using k by (simp add: kinds_ok_def)
    moreover have "order_ok (ds @ []) F'" by (rule order_ok_consume [OF o]) (simp_all add: forming)
    ultimately show ?thesis using forming(4) by simp
  qed
qed

lemma reconnect_order:
  assumes "order_ok ds F" and "on_reconnect tf market api now_ts frames closing F = (F', r)"
  shows "case r of None \<Rightarrow> order_ok ds F' | Some e \<Rightarrow> ascending ds \<and> before_cursor ds F'"
proof -
  obtain F1 x where gap: "backfill_gap tf market api now_ts frames F = (F1, x)" by fastforce
  have ok: "order_ok ds F1" by (rule order.backfill_gap_keeps [OF assms(1) gap])
  have asc: "ascending ds" "before_cursor ds F" using order_ok_prefix [OF assms(1)] by simp_all
  show ?thesis
  proof (cases x)
    case None
    then show ?thesis using assms(2) gap order.release_pending_closed_keeps [OF ok]
      by (auto simp: on_reconnect_def)
  next
    case (Some e)
    let ?F2 = "F1\<lparr>fd_last_closed := fd_last_closed F, fd_pending := None, fd_public_ws := False\<rparr>"
    have "lc_le (fd_last_closed F) (fd_last_closed (recv_frames True closing ?F2))"
      using recv_frames_lc [of ?F2 True closing] by simp
    then have rewound: "before_cursor ds (on_ws_closed (recv_frames True closing ?F2))"
      using asc(2) by (fastforce simp: before_cursor_def lc_le_def)
    have "before_cursor ds ?F2" using asc(2) by (simp add: before_cursor_def)
    then show ?thesis
      using assms(2) gap Some asc(1) rewound order_ok_prefix [OF ok]
      by (auto simp: on_reconnect_def Let_def split: raised.splits if_splits)
  qed
qed

lemma feed_step_order:
  assumes "order_ok ds F"
  shows "order_ok (ds @ filter oh_is_closed (delivered x F)) (feed_step x F)"
proof (cases x)
  case (Connect tf s region host market ws frames)
  then show ?thesis using order_ok_connect [OF assms] by (simp add: delivered_def)
next
  case Disconnect
  then show ?thesis using order_ok_disconnect order_ok_prefix [OF assms] by (simp add: delivered_def)
next
  case (Frames ms)
  then show ?thesis using order.recv_frames_keeps [OF assms] by (simp add: delivered_def)
next
  case SocketDied
  then show ?thesis using order.keeps_sentinel [OF assms] by (simp add: delivered_def)
next
  case Watch
  then show ?thesis
    using watch_order [OF assms, of "fst (watch_ohlcv F)" "snd (watch_ohlcv F)"]
    by (auto simp: delivered_def split: watch_result.splits if_splits)
next
  case (Reconnect tf market api now_ts frames closing)
  obtain F' r where run: "on_reconnect tf market api now_ts frames closing F = (F', r)" by fastforce
  show ?thesis
    using reconnect_order [OF assms run] run order_ok_disconnect
    by (simp add: Reconnect delivered_def split: option.splits)
next
  case (StartupBackfill tf market api now_ts frames since_ms)
  then show ?thesis
    using order.backfill_closed_bars_keeps [OF assms prod.collapse [symmetric]] by (simp add: delivered_def)
next
  case (Watchdog now last_message frames)
  have "order_ok ds (on_ws_closed (recv_frames True frames (F\<lparr>fd_public_ws := False\<rparr>)))"
    using order.keeps_sentinel order.recv_frames_keeps assms by simp
  then show ?thesis using assms Watchdog by (simp add: delivered_def watchdog_tick_def)
qed

interpretation feed_machine: op_machine trace_step "(new_feed, [])"
  "\<lambda>S. order_ok (filter oh_is_closed (snd S)) (fst S)"
proof unfold_locales
  show "order_ok (filter oh_is_closed (snd (new_feed, []))) (fst (new_feed, []))"
    by (simp add: order_ok_def kinds_ok_def before_cursor_def ascending_def new_feed_def feed_bars_def)
next
  fix S :: "feed \<times> ohlcv list" and x
  assume "order_ok (filter oh_is_closed (snd S)) (fst S)"
  from feed_step_order [OF this, of x]
  show "order_ok (filter oh_is_closed (snd (trace_step x S))) (fst (trace_step x S))"
    by (simp add: trace_step_def)
qed

end
