(* ===== verification/Live_Theorems.thy ===== *)
theory Live_Theorems
  imports Live_Feed
begin

text \<open>
  What the live feed guarantees: closed bars reach the consumer in order and once, whatever the
  interleaving; a forming bar is never older than a closed bar delivered before it; a reconnect on an
  honest venue closes the gap. Two interleavings in which the code falls short are shown on concrete
  runs.
\<close>

section \<open>Forming bars\<close>

definition snapshot_newer :: "feed \<Rightarrow> bool" where
  "snapshot_newer F \<longleftrightarrow> (\<forall>s l. fd_snapshot F = Some s \<longrightarrow> fd_last_closed F = Some l \<longrightarrow> l < oh_timestamp s)"

lemma snapshot_newer_enqueue: "snapshot_newer F \<Longrightarrow> snapshot_newer (enqueue_closed b F)"
  using snapshot_enqueue [of b F] by (auto simp: snapshot_newer_def)

lemma snapshot_newer_fields [simp]:
  "snapshot_newer (F\<lparr>fd_last_price := p\<rparr>) = snapshot_newer F"
  "snapshot_newer (F\<lparr>fd_stream_bar := s\<rparr>) = snapshot_newer F"
  "snapshot_newer (F\<lparr>fd_pending := h\<rparr>) = snapshot_newer F"
  "snapshot_newer (F\<lparr>fd_public_ws := w\<rparr>) = snapshot_newer F"
  "snapshot_newer (on_ws_closed F) = snapshot_newer F"
  by (simp_all add: snapshot_newer_def)

lemma kinds_ok_fields [simp]:
  "kinds_ok (F\<lparr>fd_last_price := p\<rparr>) = kinds_ok F" "kinds_ok (F\<lparr>fd_stream_bar := s\<rparr>) = kinds_ok F"
  "kinds_ok (F\<lparr>fd_public_ws := w\<rparr>) = kinds_ok F" "kinds_ok (on_ws_closed F) = kinds_ok F"
  by (simp_all add: kinds_ok_def)

interpretation fresh: feed_keeps "\<lambda>F. kinds_ok F \<and> snapshot_newer F"
proof unfold_locales
  fix F :: feed and b
  show "kinds_ok F \<and> snapshot_newer F \<Longrightarrow> oh_is_closed b \<Longrightarrow>
      \<not> not_newer (oh_timestamp b) (fd_last_closed F) \<Longrightarrow>
      kinds_ok (enqueue_closed b F) \<and> snapshot_newer (enqueue_closed b F)"
    using kinds_ok_enqueue snapshot_newer_enqueue by blast
  show "kinds_ok F \<and> snapshot_newer F \<Longrightarrow> \<not> oh_is_closed b \<Longrightarrow>
      \<not> not_newer (oh_timestamp b) (fd_last_closed F) \<Longrightarrow>
      kinds_ok (F\<lparr>fd_snapshot := Some b\<rparr>) \<and> snapshot_newer (F\<lparr>fd_snapshot := Some b\<rparr>)"
    by (auto simp: kinds_ok_def snapshot_newer_def not_newer_def)
qed (auto simp: kinds_ok_def)

text \<open>Every delivered forming bar is newer than each closed bar delivered before it.\<close>

definition forming_after_closed :: "ohlcv list \<Rightarrow> bool" where
  "forming_after_closed ds \<longleftrightarrow>
     sorted_wrt (\<lambda>a b. oh_is_closed a \<longrightarrow> \<not> oh_is_closed b \<longrightarrow> oh_timestamp a < oh_timestamp b) ds"

definition is_startup :: "feed_op \<Rightarrow> bool" where
  "is_startup x = (case x of StartupBackfill tf m api n fr since \<Rightarrow> True | _ \<Rightarrow> False)"

lemma snapshot_newer_None: "fd_snapshot F = None \<Longrightarrow> snapshot_newer F"
  by (simp add: snapshot_newer_def)

lemma snapshot_newer_connect:
  assumes "kinds_ok F" and "snapshot_newer F"
  shows "snapshot_newer (fst (connect tf s region host market ws frames F))"
proof -
  let ?F1 = "F\<lparr>fd_queue := Some [], fd_snapshot := None,
      fd_pending := (if fd_last_closed F \<noteq> None \<or> fd_stream_bar F \<noteq> None then Some [] else None),
      fd_public_ws := True\<rparr>"
  have "kinds_ok ?F1 \<and> snapshot_newer ?F1"
    by (simp add: kinds_ok_def snapshot_newer_def feed_bars_def map_filter_def)
  then have "snapshot_newer (recv_frames False frames ?F1)" using fresh.recv_frames_keeps by blast
  then show ?thesis
    using assms(2) by (auto simp: connect_def Let_def split: option.splits sum.splits raised.splits)
qed

lemma feed_step_fresh:
  assumes "kinds_ok F" and "snapshot_newer F" and "\<not> is_startup x"
  shows "snapshot_newer (feed_step x F)"
proof (cases x)
  case (Connect tf s region host market ws frames)
  then show ?thesis using snapshot_newer_connect [OF assms(1,2)] by simp
next
  case Watch
  then show ?thesis
    using assms(2) by (auto simp: watch_ohlcv_def snapshot_newer_def split: option.splits list.splits)
next
  case (Reconnect tf market api now_ts frames closing)
  obtain F1 r where gap: "backfill_gap tf market api now_ts frames F = (F1, r)" by fastforce
  have "kinds_ok F1 \<and> snapshot_newer F1"
    using fresh.backfill_gap_keeps [OF _ gap] assms by simp
  then show ?thesis
    using gap fresh.release_pending_closed_keeps
    by (auto simp: Reconnect on_reconnect_def Let_def disconnect_def snapshot_newer_None
        split: option.splits raised.splits prod.splits)
next
  case (Watchdog now last_message frames)
  then show ?thesis
    using assms fresh.recv_frames_keeps [of "F\<lparr>fd_public_ws := False\<rparr>" True frames]
    by (simp add: watchdog_tick_def)
qed (use assms fresh.recv_frames_keeps in
    \<open>auto simp: is_startup_def disconnect_def snapshot_newer_None\<close>)

lemma delivered_forming:
  assumes "order_ok (filter oh_is_closed ds) F" and "snapshot_newer F" and "forming_after_closed ds"
  shows "forming_after_closed (ds @ delivered x F)"
proof -
  have "oh_timestamp a < oh_timestamp b"
    if d: "delivered x F = [b]" "\<not> oh_is_closed b" "a \<in> set ds" "oh_is_closed a" for a b
  proof -
    have b: "snd (watch_ohlcv F) = Delivered b"
      using d(1) by (auto simp: delivered_def split: feed_op.splits watch_result.splits)
    have "fd_snapshot F = Some b"
    proof (cases "fd_queue F")
      case (Some q)
      then show ?thesis
      proof (cases q)
        case (Cons y ys)
        then have "b \<in> set (feed_bars F)"
          using b Some by (auto simp: watch_ohlcv_def feed_bars_def map_filter_def split: option.splits)
        then show ?thesis using order_okD(1) [OF assms(1)] d(2) by (simp add: kinds_ok_def)
      qed (use b Some in \<open>auto simp: watch_ohlcv_def split: option.splits\<close>)
    qed (use b in \<open>auto simp: watch_ohlcv_def\<close>)
    moreover obtain l where "fd_last_closed F = Some l" "oh_timestamp a \<le> l"
      using before_cursorD [OF order_okD(3) [OF assms(1)], of a] d(3,4) by auto
    ultimately show ?thesis using assms(2) by (auto simp: snapshot_newer_def)
  qed
  moreover have "delivered x F = [] \<or> (\<exists>b. delivered x F = [b])"
    by (auto simp: delivered_def split: feed_op.splits watch_result.splits)
  ultimately show ?thesis
    using assms(3) by (auto simp: forming_after_closed_def sorted_wrt_append)
qed

lemma run_forming:
  assumes "list_all (\<lambda>x. \<not> is_startup x) ops"
    and "order_ok (filter oh_is_closed (snd S)) (fst S)" "snapshot_newer (fst S)" "forming_after_closed (snd S)"
  shows "forming_after_closed (snd (run_ops trace_step ops S))"
  using assms
proof (induction ops arbitrary: S)
  case Nil
  then show ?case by simp
next
  case (Cons x ops)
  have "snapshot_newer (feed_step x (fst S))"
    using feed_step_fresh [of "fst S" x] order_okD(1) Cons.prems by auto
  moreover have "forming_after_closed (snd S @ delivered x (fst S))"
    by (rule delivered_forming) (use Cons.prems in auto)
  moreover have "order_ok (filter oh_is_closed (snd (trace_step x S))) (fst (trace_step x S))"
    using feed_machine.step_inv Cons.prems(2) by blast
  ultimately show ?case using Cons by (simp add: trace_step_def)
qed

section \<open>Properties\<close>

text \<open>
  C12. In every run of the feed, whatever the venue sends and whenever it connects, drops, backfills
  or is force-closed, the closed bars \<open>watch_ohlcv\<close> delivers are strictly ascending: none is
  delivered twice or after a newer one.
\<close>

theorem closed_bars_in_order:
  "ascending (filter oh_is_closed (snd (run_ops trace_step ops (new_feed, []))))"
  using order_ok_prefix feed_machine.run_inv [OF feed_machine.init_inv] by blast

text \<open>
  C13. In a run without the startup backfill, a forming bar is delivered only when it is newer than
  every closed bar delivered before it.
\<close>

theorem forming_bar_never_stale:
  assumes "list_all (\<lambda>x. \<not> is_startup x) ops"
  shows "forming_after_closed (snd (run_ops trace_step ops (new_feed, [])))"
  using run_forming [OF assms, of "(new_feed, [])"] feed_machine.init_inv
  by (simp add: forming_after_closed_def snapshot_newer_def new_feed_def)

section \<open>A reconnect closes the gap\<close>

text \<open>While closed bars are held back the frames change neither the queue's bars nor the cursor.\<close>

definition same_bars :: "feed \<Rightarrow> feed \<Rightarrow> bool" where
  "same_bars F G \<longleftrightarrow> fd_last_closed G = fd_last_closed F \<and> feed_bars G = feed_bars F \<and>
     (fd_queue G = None \<longleftrightarrow> fd_queue F = None) \<and> fd_pending G \<noteq> None"

lemma same_bars_trans: "same_bars F G \<Longrightarrow> same_bars G K \<Longrightarrow> same_bars F K"
  by (simp add: same_bars_def)

lemma take_push_held: "fd_pending F \<noteq> None \<Longrightarrow> same_bars F (take_push b F)"
  by (auto simp: take_push_def same_bars_def Let_def feed_bars_def split: option.splits)

lemma take_pushes_held: "take_pushes es F = (F', r) \<Longrightarrow> fd_pending F \<noteq> None \<Longrightarrow> same_bars F F'"
proof (induction es F rule: take_pushes.induct)
  case (1 F)
  then show ?case by (simp add: same_bars_def)
next
  case (2 e es F)
  show ?case
  proof (cases "push_bar e")
    case (Inl x)
    then show ?thesis using 2 by (auto simp: same_bars_def split: if_splits)
  next
    case (Inr b)
    note held = take_push_held [OF "2.prems"(2), of b]
    have "same_bars (take_push b F) F'"
      using "2.IH"(2) [OF Inr] "2.prems"(1) Inr held by (simp add: same_bars_def)
    then show ?thesis using same_bars_trans [OF held] by simp
  qed
qed

lemma recv_frames_held: "fd_pending F \<noteq> None \<Longrightarrow> same_bars F (recv_frames closing ms F)"
proof (induction ms arbitrary: F)
  case Nil
  then show ?case by (simp add: same_bars_def)
next
  case (Cons d ms)
  obtain F1 r where m: "on_ws_message d F = (F1, r)" by fastforce
  then have s: "same_bars F F1"
    using take_pushes_held Cons.prems
    by (auto simp: on_ws_message_def same_bars_def split: if_splits sum.splits)
  then have "same_bars F1 (recv_frames closing ms F1)" using Cons.IH by (simp add: same_bars_def)
  moreover have "same_bars F (on_ws_closed F1)" using s by (simp add: same_bars_def on_ws_closed_def feed_bars_def map_filter_def split: option.splits)
  ultimately show ?case using m s same_bars_trans [OF s] by (cases r) auto
qed

text \<open>A page of well-formed rows queues exactly its closed bars beyond the cursor \<open>y\<close>.\<close>

definition page_kept :: "int \<Rightarrow> int \<Rightarrow> int set \<Rightarrow> int \<Rightarrow> bool \<Rightarrow> feed \<Rightarrow> feed \<Rightarrow> bool \<Rightarrow> int \<Rightarrow> bool" where
  "page_kept ms now_ts ts y wrote F F' wrote' z \<longleftrightarrow>
     saved_times (feed_bars F') = saved_times (feed_bars F) \<union> {t \<in> ts. y < t \<and> t + ms \<le> now_ts} \<and>
     fd_queue F' \<noteq> None \<and> fd_pending F' = fd_pending F \<and>
     fd_last_closed F' = Some z \<and> y \<le> z \<and> (z = y \<or> z \<in> ts) \<and> (wrote' \<longleftrightarrow> wrote \<or> y < z) \<and>
     (\<forall>t \<in> ts. y < t \<longrightarrow> t + ms \<le> now_ts \<longrightarrow> t \<le> z)"

lemma page_kept_skip:
  assumes "page_kept ms now_ts ts y wrote F F' wrote' z" and "t \<le> y \<or> t + ms > now_ts"
  shows "page_kept ms now_ts (insert t ts) y wrote F F' wrote' z"
proof -
  have eq: "{x \<in> insert t ts. y < x \<and> x + ms \<le> now_ts} = {x \<in> ts. y < x \<and> x + ms \<le> now_ts}"
    using assms(2) by auto
  have "y < t \<longrightarrow> t + ms \<le> now_ts \<longrightarrow> t \<le> z" using assms(2) by linarith
  then show ?thesis using assms(1) unfolding page_kept_def eq by blast
qed

lemma page_kept_queued:
  assumes kept: "page_kept ms now_ts ts t True G F' wrote' z" and t: "y < t" "t + ms \<le> now_ts" "\<forall>x \<in> ts. t \<le> x"
    and G: "saved_times (feed_bars G) = insert t (saved_times (feed_bars F))" "fd_pending G = fd_pending F"
  shows "page_kept ms now_ts (insert t ts) y wrote F F' wrote' z"
proof -
  note k = kept [unfolded page_kept_def]
  have "{x \<in> insert t ts. y < x \<and> x + ms \<le> now_ts} = insert t {x \<in> ts. t < x \<and> x + ms \<le> now_ts}"
    using t by force
  then have "saved_times (feed_bars F') = saved_times (feed_bars F) \<union> {x \<in> insert t ts. y < x \<and> x + ms \<le> now_ts}"
    using k G(1) by simp
  moreover have "x \<le> z" if "x \<in> insert t ts" "x + ms \<le> now_ts" for x
  proof (cases "x = t")
    case True
    then show ?thesis using k by simp
  next
    case False
    then have "x \<in> ts" "t < x" using that(1) t(3) by auto
    then show ?thesis using k that(2) by simp
  qed
  moreover have "y < z" using k t(1) by simp
  moreover have "z = y \<or> z \<in> insert t ts" using k by auto
  ultimately show ?thesis using k G(2) unfolding page_kept_def by auto
qed

lemma backfill_rows_complete:
  assumes "map_of INTERVAL_MS interval = Some ms" and "sorted (map fst rows)"
    and "\<forall>(t, r) \<in> set rows. \<exists>b. row_bar True t r = Inr b" and "fd_last_closed F = Some y"
    and "fd_queue F \<noteq> None"
  shows "\<exists>F' wrote'. backfill_rows interval now_ts rows wrote F = ((F', wrote'), None) \<and>
    (\<exists>z. page_kept ms now_ts (fst ` set rows) y wrote F F' wrote' z)"
  using assms(2-)
proof (induction rows arbitrary: F y wrote)
  case Nil
  then show ?case by (auto simp: page_kept_def)
next
  case (Cons p rows)
  obtain t r where p: "p = (t, r)" by fastforce
  have tail: "sorted (map fst rows)" "\<forall>(t, r) \<in> set rows. \<exists>b. row_bar True t r = Inr b"
    "\<forall>x \<in> fst ` set rows. t \<le> x"
    using Cons.prems p by auto
  have close: "bar_close_ts t interval = Inr (t + ms)"
    using assms(1) by (simp add: bar_close_ts_def add_interval_def)
  obtain b where b: "row_bar True t r = Inr b" "oh_timestamp b = t"
    using Cons.prems(2) p row_bar_timestamp by fastforce
  have img: "fst ` set (p # rows) = insert t (fst ` set rows)" using p by simp
  show ?case
  proof (cases "t \<le> y \<or> t + ms > now_ts")
    case True
    then have "backfill_rows interval now_ts (p # rows) wrote F = backfill_rows interval now_ts rows wrote F"
      using close p Cons.prems(3) by (auto simp: or_zero_def)
    then show ?thesis
      using Cons.IH [OF tail(1,2) Cons.prems(3,4), of wrote] page_kept_skip [OF _ True] img by metis
  next
    case False
    then have run: "backfill_rows interval now_ts (p # rows) wrote F =
        backfill_rows interval now_ts rows True (enqueue_closed b F)"
      using close p b Cons.prems(3) by (auto simp: or_zero_def)
    have times: "saved_times (feed_bars (enqueue_closed b F)) = insert t (saved_times (feed_bars F))"
      using Cons.prems(4) b by (auto simp: feed_bars_enqueue saved_times_def)
    obtain F' wrote' z where
      go: "backfill_rows interval now_ts rows True (enqueue_closed b F) = ((F', wrote'), None)"
      and kept: "page_kept ms now_ts (fst ` set rows) t True (enqueue_closed b F) F' wrote' z"
      using Cons.IH [OF tail(1,2), of "enqueue_closed b F" t True] Cons.prems(4) b by auto
    have "page_kept ms now_ts (insert t (fst ` set rows)) y wrote F F' wrote' z"
      by (rule page_kept_queued [OF kept _ _ tail(3) times]) (use False in auto)
    then show ?thesis using run go img by metis
  qed
qed

text \<open>The bars lie on the interval grid through the last closed bar.\<close>

definition aligned :: "int \<Rightarrow> int \<Rightarrow> int set \<Rightarrow> bool" where
  "aligned ms l H \<longleftrightarrow> (\<forall>t \<in> H. ms dvd t - l)"

lemma aligned_gap:
  assumes "aligned ms l H" and "ms > 0" and "t \<in> H" and "ms dvd c - l" and "t < c + ms" and "c < t"
  shows False
proof -
  have "ms dvd t - l" using assms(1,3) by (simp add: aligned_def)
  then have "ms dvd (t - l) - (c - l)" using assms(4) by (rule dvd_diff)
  then have "ms dvd t - c" by (simp add: algebra_simps)
  then show False using assms(2,5,6) zdvd_imp_le [of ms "t - c"] by simp
qed

lemma aligned_step:
  fixes c l ms :: int
  assumes "ms dvd c - l"
  shows "ms dvd c + k * ms - l"
proof -
  have "ms dvd (c - l) + k * ms" using assms by simp
  then show ?thesis by (simp add: algebra_simps)
qed

definition gap_inv :: "int set \<Rightarrow> int \<Rightarrow> int \<Rightarrow> int \<Rightarrow> int \<Rightarrow> feed \<Rightarrow> bool" where
  "gap_inv H ms l now_ts cursor F \<longleftrightarrow>
     fd_queue F \<noteq> None \<and> fd_pending F \<noteq> None \<and> ms dvd cursor - l \<and>
     (\<exists>y. fd_last_closed F = Some y \<and> l \<le> y \<and> y < cursor) \<and>
     {t \<in> H. l < t \<and> t < cursor \<and> t + ms \<le> now_ts} \<subseteq> saved_times (feed_bars F)"

lemma gap_inv_same_bars:
  "gap_inv H ms l now_ts cursor F \<Longrightarrow> same_bars F G \<Longrightarrow> gap_inv H ms l now_ts cursor G"
  by (simp add: gap_inv_def same_bars_def)

lemma gap_inv_page:
  assumes "gap_inv H ms l now_ts cursor F" and "aligned ms l H" and "ms > 0"
    and "map_of INTERVAL_MS interval = Some ms" and "cursor \<le> ce" "ce = now_ts \<or> ms dvd ce - l"
    and "ts = {t \<in> H. cursor \<le> t \<and> t \<le> ce}" and "fd_last_closed F = Some y"
    and kept: "page_kept ms now_ts ts y False F F' wrote z"
  shows "\<exists>c. backfill_next interval ce cursor wrote F' = Inr c \<and>
    (gap_inv H ms l now_ts c F' \<or>
     now_ts < c + ms \<and> fd_pending F' \<noteq> None \<and>
     {t \<in> H. l < t \<and> t < c \<and> t + ms \<le> now_ts} \<subseteq> saved_times (feed_bars F'))"
proof -
  note k = kept [unfolded page_kept_def] and inv = assms(1) [unfolded gap_inv_def]
  have add: "add_interval t interval 1 = Inr (t + ms)" for t
    using assms(4) by (simp add: add_interval_def)
  have y: "l \<le> y" "y < cursor" using inv assms(8) by auto
  have seen: "t \<in> saved_times (feed_bars F')" if "t \<in> H" "l < t" "t \<le> ce" "t + ms \<le> now_ts" for t
  proof (cases "t < cursor")
    case True
    then show ?thesis using inv k that by auto
  next
    case False
    then show ?thesis using k that y assms(7) by auto
  qed
  show ?thesis
  proof (cases wrote)
    case True
    then have z: "z \<in> ts" "y < z" using k by auto
    then have zH: "z \<in> H" "cursor \<le> z" "z \<le> ce" using assms(7) by auto
    have nx: "backfill_next interval ce cursor wrote F' = Inr (z + ms)"
      using True k add by (simp add: backfill_next_def)
    have "t \<in> saved_times (feed_bars F')" if t: "t \<in> H" "l < t" "t < z + ms" "t + ms \<le> now_ts" for t
    proof -
      have "ms dvd z - l" using assms(2) zH(1) by (simp add: aligned_def)
      then have "t \<le> z" using aligned_gap [OF assms(2,3) t(1) _ t(3)] by force
      then show ?thesis using seen t zH(3) by simp
    qed
    moreover have "ms dvd z + ms - l"
      using assms(2) zH(1) aligned_step [of ms z l 1] by (simp add: aligned_def)
    ultimately have "gap_inv H ms l now_ts (z + ms) F'"
      using k inv y zH assms(3) by (auto simp: gap_inv_def)
    then show ?thesis using nx by blast
  next
    case False
    have nx: "backfill_next interval ce cursor wrote F' = Inr (max (ce + ms) (cursor + ms))"
      using False add by (simp add: backfill_next_def backfill_skip_def)
    have c: "max (ce + ms) (cursor + ms) = ce + ms" using assms(5) by simp
    show ?thesis
    proof (cases "ce = now_ts")
      case True
      have "{t \<in> H. l < t \<and> t < ce + ms \<and> t + ms \<le> now_ts} \<subseteq> saved_times (feed_bars F')"
        using seen True assms(3) by auto
      then show ?thesis using nx c k inv True assms(3) by auto
    next
      case ne: False
      then have dv: "ms dvd ce - l" using assms(6) by simp
      have "t \<in> saved_times (feed_bars F')" if t: "t \<in> H" "l < t" "t < ce + ms" "t + ms \<le> now_ts" for t
      proof -
        have "t \<le> ce" using aligned_gap [OF assms(2,3) t(1) dv t(3)] by force
        then show ?thesis using seen t by simp
      qed
      moreover have "z = y" using k False by simp
      ultimately have "gap_inv H ms l now_ts (ce + ms) F'"
        using k inv y assms(3,5) aligned_step [OF dv, of 1] by (auto simp: gap_inv_def)
      then show ?thesis using nx c by auto
    qed
  qed
qed

lemma row_bar_any: "(\<exists>b. row_bar c t r = Inr b) \<longleftrightarrow> (\<exists>b. row_bar d t r = Inr b)"
  by (auto simp: row_bar_def res_bind_Inr_iff)

lemma backfill_loop_complete:
  assumes "honest_klines H ((KLINE_LIMIT - 1) * ms) api" and "aligned ms l H"
    and "map_of INTERVAL_MS interval = Some ms" and "gap_inv H ms l now_ts cursor F"
  shows "\<exists>F'. backfill_loop api interval now_ts frames n cursor F = (F', None) \<and> fd_pending F' \<noteq> None \<and>
    {t \<in> H. l < t \<and> t + ms \<le> now_ts} \<subseteq> saved_times (feed_bars F')"
  using assms
proof (induction api interval now_ts frames n cursor F rule: backfill_loop.induct)
  case (1 api interval now_ts frames n cursor F)
  note eq = backfill_loop.simps [of api interval now_ts frames n cursor F]
  note inv = "1.prems"(4)
  have ms: "ms > 0" using interval_ms_pos "1.prems"(3) by blast
  have add: "add_interval t interval k = Inr (t + k * ms)" for t k
    using "1.prems"(3) by (simp add: add_interval_def)
  have close: "bar_close_ts cursor interval = Inr (cursor + ms)" by (simp add: bar_close_ts_def add)
  show ?case
  proof (cases "cursor + ms \<le> now_ts")
    case False
    then have "{t \<in> H. l < t \<and> t + ms \<le> now_ts} \<subseteq> saved_times (feed_bars F)"
      using inv by (auto simp: gap_inv_def)
    then show ?thesis using False inv eq close by (auto simp: gap_inv_def)
  next
    case due: True
    define ce where "ce = min (cursor + (KLINE_LIMIT - 1) * ms) now_ts"
    define ts where "ts = {t \<in> H. cursor \<le> t \<and> t \<le> ce}"
    define G where "G = recv_frames False (frames n) F"
    have G: "gap_inv H ms l now_ts cursor G"
      using gap_inv_same_bars [OF inv recv_frames_held] inv by (simp add: G_def gap_inv_def)
    then obtain y where y: "fd_last_closed G = Some y" by (auto simp: gap_inv_def)
    define k where "k = (KLINE_LIMIT - 1) * ms"
    have "0 \<le> k" using ms by (simp add: k_def KLINE_LIMIT_def)
    moreover have "ms dvd cursor + k - l"
      using inv aligned_step [of ms cursor l "KLINE_LIMIT - 1"] by (simp add: k_def gap_inv_def)
    ultimately have ce: "cursor \<le> ce" "ce - cursor \<le> (KLINE_LIMIT - 1) * ms" "ce = now_ts \<or> ms dvd ce - l"
      using due ms unfolding ce_def k_def [symmetric] by (auto simp: min_def)
    obtain d rs where api: "api cursor ce = Inr d" "jget d ''list'' = PList rs"
      "\<forall>r \<in> set rs. \<exists>t b. row_start r = Inr t \<and> row_bar False t r = Inr b"
      "{t. \<exists>r \<in> set rs. row_start r = Inr t} = ts"
      using "1.prems"(1) ce(1,2) unfolding honest_klines_def ts_def by blast
    have list: "py_or (jget d ''list'') (PList []) = PList rs" using api(2) by (simp add: py_or_def)
    obtain ks where ks: "sorted_rows (PList rs) = Inr ks" "sorted (map fst ks)" "fst ` set ks = ts"
      "\<forall>(t, r) \<in> set ks. \<exists>b. row_bar False t r = Inr b"
      using sorted_rows_ok [OF api(3)] unfolding api(4) by blast
    have rows_ok: "\<forall>(t, r) \<in> set ks. \<exists>b. row_bar True t r = Inr b" using ks(4) row_bar_any by blast
    have "fd_queue G \<noteq> None" using G by (simp add: gap_inv_def)
    then obtain F1 wrote z where page: "backfill_rows interval now_ts ks False G = ((F1, wrote), None)"
      and kept: "page_kept ms now_ts ts y False G F1 wrote z"
      using backfill_rows_complete [OF "1.prems"(3) ks(2) rows_ok y] ks(3) by metis
    obtain c where c: "backfill_next interval ce cursor wrote F1 = Inr c"
      and next_inv: "gap_inv H ms l now_ts c F1 \<or>
        now_ts < c + ms \<and> fd_pending F1 \<noteq> None \<and>
        {t \<in> H. l < t \<and> t < c \<and> t + ms \<le> now_ts} \<subseteq> saved_times (feed_bars F1)"
      using gap_inv_page [OF G "1.prems"(2) ms "1.prems"(3) ce(1,3) ts_def y kept] by blast
    have go: "backfill_loop api interval now_ts frames n cursor F =
        backfill_loop api interval now_ts frames (Suc n) c F1"
      by (subst eq) (simp add: close due add api(1) list ks(1) page c flip: ce_def G_def)
    show ?thesis
    proof (cases "now_ts < c + ms")
      case True
      then have "backfill_loop api interval now_ts frames (Suc n) c F1 = (F1, None)"
        by (subst backfill_loop.simps) (simp add: bar_close_ts_def add)
      moreover have "fd_pending F1 \<noteq> None"
        "{t \<in> H. l < t \<and> t < c \<and> t + ms \<le> now_ts} \<subseteq> saved_times (feed_bars F1)"
        using next_inv by (auto simp: gap_inv_def)
      ultimately show ?thesis using go True by auto
    next
      case False
      then have "gap_inv H ms l now_ts c F1" using next_inv by simp
      from "1.IH" [OF close due add, folded ce_def, OF api(1) ks(1) [folded list] page [symmetric, unfolded G_def]
          refl refl c "1.prems"(1-3) this]
      show ?thesis using go by simp
    qed
  qed
qed

lemma release_bars_adds:
  "saved_times (feed_bars F) \<subseteq> saved_times (feed_bars (release_bars bs F))"
proof (induction bs arbitrary: F)
  case Nil
  then show ?case by simp
next
  case (Cons b bs)
  have "saved_times (feed_bars F) \<subseteq> saved_times (feed_bars (enqueue_closed b F))"
    by (auto simp: saved_times_def feed_bars_enqueue)
  then show ?case using Cons [of F] Cons [of "enqueue_closed b F"] by auto
qed

lemma release_pending_adds:
  "saved_times (feed_bars F) \<subseteq> saved_times (feed_bars (release_pending_closed F))"
  using release_bars_adds [of "F\<lparr>fd_pending := None\<rparr>"]
  by (auto simp: release_pending_closed_def Let_def split: option.splits)

lemma backfill_gap_complete:
  assumes "honest_klines H ((KLINE_LIMIT - 1) * ms) api" and "aligned ms l H"
    and "to_exchange_timeframe tf = Inr interval" and "map_of INTERVAL_MS interval = Some ms"
    and "fd_last_closed F = Some l" "fd_queue F \<noteq> None" "fd_pending F \<noteq> None"
  shows "\<exists>F'. backfill_gap (Some tf) (Inr m) api now_ts frames F = (F', None) \<and>
    {t \<in> H. l < t \<and> t + ms \<le> now_ts} \<subseteq> saved_times (feed_bars F')"
proof -
  have ms: "ms > 0" using interval_ms_pos assms(4) by blast
  have add: "add_interval t interval k = Inr (t + k * ms)" for t k
    using assms(4) by (simp add: add_interval_def)
  have close: "bar_close_ts (l + ms) interval = Inr (l + ms + ms)" by (simp add: bar_close_ts_def add)
  have after: "l + ms \<le> t" if t: "t \<in> H" "l < t" for t
  proof -
    have "ms dvd t - l" using assms(2) t(1) by (simp add: aligned_def)
    then show ?thesis using zdvd_imp_le [of ms "t - l"] t(2) by simp
  qed
  show ?thesis
  proof (cases "l + ms + ms > now_ts")
    case True
    then have "{t \<in> H. l < t \<and> t + ms \<le> now_ts} = {}" using after by fastforce
    moreover have "backfill_gap (Some tf) (Inr m) api now_ts frames F = (F, None)"
      using True assms(3,5,6) close add [of l 1] by (simp add: backfill_gap_def)
    ultimately show ?thesis by auto
  next
    case False
    let ?G = "recv_frames False (frames 0) F"
    have run: "backfill_gap (Some tf) (Inr m) api now_ts frames F =
        backfill_loop api interval now_ts frames 1 (l + ms) ?G"
      using False assms(3,5,6) close add [of l 1] by (auto simp: backfill_gap_def)
    have "t \<notin> H \<or> \<not> (l < t \<and> t < l + ms)" for t using after [of t] by linarith
    then have none: "{t \<in> H. l < t \<and> t < l + ms \<and> t + ms \<le> now_ts} = {}" by blast
    have "gap_inv H ms l now_ts (l + ms) F"
      using assms(5-7) ms unfolding gap_inv_def none by simp
    then have "gap_inv H ms l now_ts (l + ms) ?G"
      by (rule gap_inv_same_bars [OF _ recv_frames_held [OF assms(7)]])
    then show ?thesis
      using backfill_loop_complete [OF assms(1,2,4)] unfolding run by blast
  qed
qed

text \<open>
  C14. A reconnect loses nothing: with the fresh closes held back since \<open>connect\<close>, and a venue that
  answers every window with all its bars, \<open>on_reconnect\<close> returns without raising and every bar the
  venue closed after the cursor and before now is in the queue, whatever frames arrive meanwhile.
\<close>

theorem reconnect_closes_gap:
  assumes "honest_klines H ((KLINE_LIMIT - 1) * ms) api" and "aligned ms l H"
    and "to_exchange_timeframe tf = Inr interval" and "map_of INTERVAL_MS interval = Some ms"
    and "fd_last_closed F = Some l" "fd_queue F \<noteq> None" "fd_pending F \<noteq> None"
  shows "\<exists>F'. on_reconnect (Some tf) (Inr m) api now_ts frames closing F = (F', None) \<and>
    {t \<in> H. l < t \<and> t + ms \<le> now_ts} \<subseteq> saved_times (feed_bars F')"
proof -
  obtain F1 where "backfill_gap (Some tf) (Inr m) api now_ts frames F = (F1, None)"
    "{t \<in> H. l < t \<and> t + ms \<le> now_ts} \<subseteq> saved_times (feed_bars F1)"
    using backfill_gap_complete [OF assms] by blast
  then show ?thesis using release_pending_adds [of F1] by (auto simp: on_reconnect_def)
qed

section \<open>Two races\<close>

definition frame :: "int \<Rightarrow> bool \<Rightarrow> jdict" where
  "frame t confirm =
     [(''topic'', PStr ''kline.1.BTCUSDT''),
      (''data'', PList [PDict [(''start'', PInt t), (''open'', PInt 1), (''high'', PInt 1),
         (''low'', PInt 1), (''close'', PInt 1), (''volume'', PInt 1), (''confirm'', PBool confirm)]])]"

definition plain_bar :: "int \<Rightarrow> bool \<Rightarrow> ohlcv" where
  "plain_bar t c = \<lparr>oh_timestamp = t, oh_open = Fin 1, oh_high = Fin 1, oh_low = Fin 1,
     oh_close = Fin 1, oh_volume = Fin 1, oh_is_closed = c\<rparr>"

definition venue :: "int list \<Rightarrow> kline_api" where
  "venue opens s e =
     Inr [(''list'', PList (map (\<lambda>t. PList [PInt t, PInt 1, PInt 1, PInt 1, PInt 1, PInt 1])
            (filter (\<lambda>t. s \<le> t \<and> t \<le> e) opens)))]"

definition venue_down :: kline_api where
  "venue_down s e = Inl (Bybit (BybitConnectionError ''down''))"

lemma frame_message:
  "on_ws_message (frame t c) F = (if fd_queue F = None then F else take_push (plain_bar t c) F, None)"
proof -
  have "starts_with ''kline.1.BTCUSDT'' ''kline.''" by code_simp
  then show ?thesis
    by (simp add: on_ws_message_def frame_def jget_default_def jget_def py_or_def py_str_def push_bar_def
        confirmed_def plain_bar_def)
qed

lemma int_row_bar: "row_bar c t (PList [PInt s, PInt 1, PInt 1, PInt 1, PInt 1, PInt 1]) = Inr (plain_bar t c)"
  by (simp add: row_bar_def row_float_def plain_bar_def)

lemma int_row_start: "row_start (PList (PInt s # xs)) = Inr s"
  by (simp add: row_start_def)

lemma minute: "to_exchange_timeframe ''1'' = Inr ''1''" "add_interval t ''1'' k = Inr (t + k * 60000)"
  "bar_close_ts t ''1'' = Inr (t + 60000)"
  by (simp_all add: to_exchange_timeframe_def TIMEFRAMES_def add_interval_def INTERVAL_MS_def bar_close_ts_def)

text \<open>
  The runner's sequence: a first connection delivers the bar at 60 s, the stream drops, the first
  reconnect fails on REST while its socket is being closed, the next one finds the venue well.
\<close>

definition race_ops :: "instrument_info \<Rightarrow> jdict list \<Rightarrow> feed_op list" where
  "race_ops m closing =
     (let con = Connect (Some ''1'') (Some ''BTCUSDT.P'') ''global'' (Some ''host'') (Inr m) None [];
          rec = (\<lambda>api cl. Reconnect (Some ''1'') (Inr m) api 300000 (\<lambda>n. []) cl)
      in [con, Frames [frame 60000 True], Watch, Disconnect,
          con, rec venue_down closing,
          con, rec (venue [60000, 120000, 180000, 240000]) [], Watch, Watch, Watch])"

definition closed_times :: "ohlcv list \<Rightarrow> int list" where
  "closed_times ds = map oh_timestamp (filter oh_is_closed ds)"

lemmas run_simps =
  trace_step_def delivered_def connect_def Let_def minute frame_message take_push_def plain_bar_def
  not_newer_def or_zero_def enqueue_closed_def on_ws_closed_def watch_ohlcv_def disconnect_def
  on_reconnect_def backfill_gap_def release_pending_closed_def closed_times_def new_feed_def

lemma first_leg:
  "run_ops trace_step (take 4 (race_ops m closing)) (new_feed, []) =
     (new_feed\<lparr>fd_last_closed := Some 60000, fd_stream_bar := Some 60000, fd_last_price := Some (Fin 1)\<rparr>,
      [plain_bar 60000 True])"
  by (simp add: race_ops_def run_simps)

text \<open>After the failed reconnect the cursor is back, unless a frame came in while the socket closed.\<close>

lemma failed_leg:
  "run_ops trace_step (take 6 (race_ops m [])) (new_feed, []) =
     (new_feed\<lparr>fd_last_closed := Some 60000, fd_stream_bar := Some 60000, fd_last_price := Some (Fin 1)\<rparr>,
      [plain_bar 60000 True])"
  "run_ops trace_step (take 6 (race_ops m [frame 240000 True])) (new_feed, []) =
     (new_feed\<lparr>fd_last_closed := Some 240000, fd_stream_bar := Some 240000, fd_last_price := Some (Fin 1)\<rparr>,
      [plain_bar 60000 True])"
  by (simp_all add: race_ops_def run_simps backfill_loop.simps [of venue_down] venue_down_def)

text \<open>The second half of the sequence, from the state the first half leaves\<close>

lemma run_race:
  "run_ops trace_step (race_ops m closing) S =
     run_ops trace_step
       [Connect (Some ''1'') (Some ''BTCUSDT.P'') ''global'' (Some ''host'') (Inr m) None [],
        Reconnect (Some ''1'') (Inr m) (venue [60000, 120000, 180000, 240000]) 300000 (\<lambda>n. []) [],
        Watch, Watch, Watch]
       (run_ops trace_step (take 6 (race_ops m closing)) S)"
proof -
  have "run_ops trace_step (take 6 ops @ drop 6 ops) S =
      run_ops trace_step (drop 6 ops) (run_ops trace_step (take 6 ops) S)" for ops
    by (rule run_ops_append)
  moreover have "drop 6 (race_ops m closing) =
       [Connect (Some ''1'') (Some ''BTCUSDT.P'') ''global'' (Some ''host'') (Inr m) None [],
        Reconnect (Some ''1'') (Inr m) (venue [60000, 120000, 180000, 240000]) 300000 (\<lambda>n. []) [],
        Watch, Watch, Watch]"
    by (simp add: race_ops_def Let_def)
  ultimately show ?thesis by (metis append_take_drop_id)
qed

lemma good_gap:
  assumes "F = new_feed\<lparr>fd_queue := Some [], fd_pending := Some [], fd_last_closed := Some 60000,
      fd_stream_bar := Some 60000, fd_last_price := Some (Fin 1), fd_public_ws := True\<rparr>"
  shows "backfill_gap (Some ''1'') (Inr m) (venue [60000, 120000, 180000, 240000]) 300000 (\<lambda>n. []) F =
    (F\<lparr>fd_queue := Some (map (\<lambda>t. Some (plain_bar t True)) [120000, 180000, 240000]),
       fd_last_closed := Some 240000\<rparr>, None)"
proof -
  let ?api = "venue [60000, 120000, 180000, 240000]"
  have "backfill_loop ?api ''1'' 300000 (\<lambda>n. []) 1 120000 F =
      (F\<lparr>fd_queue := Some (map (\<lambda>t. Some (plain_bar t True)) [120000, 180000, 240000]),
         fd_last_closed := Some 240000\<rparr>, None)"
    using assms
    by (subst backfill_loop.simps)
      (simp add: minute KLINE_LIMIT_def venue_def sorted_rows_def jget_def py_or_def int_row_start
        int_row_bar backfill_next_def enqueue_closed_def or_zero_def plain_bar_def new_feed_def
        backfill_loop.simps [of _ _ _ _ "Suc (Suc 0)"])
  then show ?thesis using assms by (simp add: backfill_gap_def minute new_feed_def)
qed

lemma lost_gap:
  assumes "F = new_feed\<lparr>fd_queue := Some [], fd_pending := Some [], fd_last_closed := Some 240000,
      fd_stream_bar := Some 240000, fd_last_price := Some (Fin 1), fd_public_ws := True\<rparr>"
  shows "backfill_gap (Some ''1'') (Inr m) api 300000 (\<lambda>n. []) F = (F, None)"
  using assms by (simp add: backfill_gap_def minute new_feed_def)

text \<open>
  C15. A race the rewind does not cover: \<open>on_reconnect\<close> lets the held bars go and rewinds the cursor
  before it awaits the closing of the socket, and the receive task still runs while that is awaited.
  A close pushed in that window moves the cursor past the whole gap, the runner throws the queue away,
  and the next, successful reconnect has nothing left to fetch: on this run the closed bars at 120,
  180 and 240 s are never delivered. Without that frame the same run delivers all of them.
\<close>

theorem closing_race_loses_bars:
  "closed_times (snd (run_ops trace_step (race_ops m [frame 240000 True]) (new_feed, []))) = [60000] \<and>
   closed_times (snd (run_ops trace_step (race_ops m []) (new_feed, []))) = [60000, 120000, 180000, 240000]"
proof
  show "closed_times (snd (run_ops trace_step (race_ops m [frame 240000 True]) (new_feed, []))) = [60000]"
    unfolding run_race failed_leg
    by (simp add: run_simps)
next
  let ?api = "venue [60000, 120000, 180000, 240000]"
  let ?b = "\<lambda>t. plain_bar t True"
  define A where "A = new_feed\<lparr>fd_last_closed := Some 60000, fd_stream_bar := Some 60000,
      fd_last_price := Some (Fin 1)\<rparr>"
  define F where "F = A\<lparr>fd_queue := Some [], fd_pending := Some [], fd_public_ws := True\<rparr>"
  define G where "G = F\<lparr>fd_pending := None, fd_last_closed := Some 240000,
      fd_queue := Some (map (\<lambda>t. Some (?b t)) [120000, 180000, 240000])\<rparr>"
  have opened: "fst (connect (Some ''1'') (Some ''BTCUSDT.P'') ''global'' (Some ''host'') (Inr m) None [] A) = F"
    by (simp add: connect_def minute new_feed_def Let_def A_def F_def)
  have "backfill_gap (Some ''1'') (Inr m) ?api 300000 (\<lambda>n. []) F =
      (F\<lparr>fd_queue := Some (map (\<lambda>t. Some (?b t)) [120000, 180000, 240000]), fd_last_closed := Some 240000\<rparr>, None)"
    by (rule good_gap) (simp add: A_def F_def)
  then have returned: "on_reconnect (Some ''1'') (Inr m) ?api 300000 (\<lambda>n. []) [] F = (G, None)"
    by (simp add: on_reconnect_def release_pending_closed_def G_def F_def)
  have watched: "watch_ohlcv (G\<lparr>fd_queue := Some (Some b # q)\<rparr>) = (G\<lparr>fd_queue := Some q\<rparr>, Delivered b)" for b q
    by (simp add: watch_ohlcv_def)
  have G: "G = G\<lparr>fd_queue := Some (map (\<lambda>t. Some (?b t)) [120000, 180000, 240000])\<rparr>"
    by (simp add: G_def)
  have "run_ops trace_step [Watch, Watch, Watch] (G, ds) =
      (G\<lparr>fd_queue := Some []\<rparr>, ds @ [?b 120000, ?b 180000, ?b 240000])" for ds
    by (subst G) (simp add: trace_step_def delivered_def watched)
  then have "run_ops trace_step (race_ops m []) (new_feed, []) =
      (G\<lparr>fd_queue := Some []\<rparr>, [?b 60000, ?b 120000, ?b 180000, ?b 240000])"
    unfolding run_race failed_leg(1) A_def [symmetric]
    by (simp add: trace_step_def delivered_def opened returned)
  then show "closed_times (snd (run_ops trace_step (race_ops m []) (new_feed, []))) =
      [60000, 120000, 180000, 240000]"
    by (simp add: closed_times_def plain_bar_def)
qed

text \<open>
  A stale forming bar: the startup backfill moves the cursor over a bar whose forming snapshot is
  still in the slot and leaves it there. On this run the framework has been handed the closed bar at
  120 s, and the next bar \<open>watch_ohlcv\<close> delivers is the forming one of the same time. (The push of
  its close, had it come meanwhile, would be dropped as a duplicate.)
\<close>

definition startup_ops :: "instrument_info \<Rightarrow> feed_op list" where
  "startup_ops m =
     [Connect (Some ''1'') (Some ''BTCUSDT.P'') ''global'' (Some ''host'') (Inr m) None [],
      Frames [frame 120000 False]]"

theorem startup_backfill_leaves_stale_bar:
  "\<exists>F bars F' s. F = fst (run_ops trace_step (startup_ops m) (new_feed, [])) \<and>
     backfill_closed_bars ''1'' (Inr m) (venue [60000, 120000]) 180000 (\<lambda>n. []) 60000 F = (F', Inr bars) \<and>
     closed_times bars = [120000] \<and> snd (watch_ohlcv F') = Delivered s \<and>
     oh_timestamp s = 120000 \<and> \<not> oh_is_closed s"
proof -
  let ?F = "new_feed\<lparr>fd_queue := Some [], fd_snapshot := Some (plain_bar 120000 False),
      fd_stream_bar := Some 120000, fd_last_price := Some (Fin 1), fd_public_ws := True\<rparr>"
  let ?F' = "?F\<lparr>fd_last_closed := Some 120000\<rparr>"
  have F: "?F = fst (run_ops trace_step (startup_ops m) (new_feed, []))"
    by (simp add: startup_ops_def run_simps)
  have "recover_loop (venue [60000, 120000]) ''1'' 180000 60000 (\<lambda>n. []) 1 120000 []
      (?F\<lparr>fd_last_closed := Some 60000\<rparr>) = (?F\<lparr>fd_last_closed := Some 60000\<rparr>, Inr [plain_bar 120000 True])"
    by (subst recover_loop.simps)
      (simp add: minute KLINE_LIMIT_def venue_def sorted_rows_def jget_def py_or_def int_row_start
        int_row_bar recover_next_def plain_bar_def recover_loop.simps [of _ _ _ _ _ "Suc (Suc 0)"])
  then have "backfill_closed_bars ''1'' (Inr m) (venue [60000, 120000]) 180000 (\<lambda>n. []) 60000 ?F =
      (?F', Inr [plain_bar 120000 True])"
    by (simp add: backfill_closed_bars_def minute advance_closed_cursor_def last_ts_def plain_bar_def new_feed_def)
  moreover have "snd (watch_ohlcv ?F') = Delivered (plain_bar 120000 False)"
    by (simp add: watch_ohlcv_def)
  ultimately show ?thesis using F by (auto simp: closed_times_def plain_bar_def)
qed

section \<open>Concrete instances\<close>

theorem forming_bar_never_stale_witness:
  "\<forall>m. forming_after_closed (snd (run_ops trace_step (startup_ops m @ [Watch]) (new_feed, [])))"
proof
  fix m
  have "list_all (\<lambda>x. \<not> is_startup x) (startup_ops m @ [Watch])"
    by (simp add: startup_ops_def is_startup_def)
  from forming_bar_never_stale [OF this]
  show "forming_after_closed (snd (run_ops trace_step (startup_ops m @ [Watch]) (new_feed, [])))" .
qed

theorem reconnect_closes_gap_witness:
  "\<forall>m. \<exists>F'. on_reconnect (Some ''1'') (Inr m) example_klines 180000 (\<lambda>n. [frame 180000 True]) []
      (new_feed\<lparr>fd_queue := Some [], fd_pending := Some [], fd_last_closed := Some 0\<rparr>) = (F', None) \<and>
     {60000, 120000} \<subseteq> saved_times (feed_bars F')"
proof
  fix m
  let ?F = "new_feed\<lparr>fd_queue := Some [], fd_pending := Some [], fd_last_closed := Some 0\<rparr>"
  have al: "aligned 60000 0 {0, 60000, 120000}" by (simp add: aligned_def)
  have ms: "map_of INTERVAL_MS ''1'' = Some 60000" by (simp add: INTERVAL_MS_def)
  have gap: "{t \<in> {0, 60000, 120000}. 0 < t \<and> t + 60000 \<le> 180000} = {60000, 120000 :: int}" by auto
  have "\<exists>F'. on_reconnect (Some ''1'') (Inr m) example_klines 180000 (\<lambda>n. [frame 180000 True]) [] ?F = (F', None) \<and>
     {t \<in> {0, 60000, 120000}. 0 < t \<and> t + 60000 \<le> 180000} \<subseteq> saved_times (feed_bars F')"
    by (rule reconnect_closes_gap [OF example_klines_honest al minute(1) ms]) simp_all
  then show "\<exists>F'. on_reconnect (Some ''1'') (Inr m) example_klines 180000 (\<lambda>n. [frame 180000 True]) [] ?F = (F', None) \<and>
     {60000, 120000} \<subseteq> saved_times (feed_bars F')"
    unfolding gap .
qed

end
