(* ===== verification/Inventory.thy ===== *)
theory Inventory
  imports Instruments
begin

text \<open>
  Model of \<^verbatim>\<open>src/src/pynecore_bybit/inventory.py\<close>: the port the spot inventory manager of the
  framework drives. The execution endpoint is a parameter (a function of the window and the page
  cursor), as are the plugin's identity map, the broker store's two lookups and the validation the
  framework's \<open>SpotExecution\<close> performs when it is built. Decimals are exact rationals with the two
  infinities and NaN; a signal of the decimal context is the exception it raises.
\<close>

section \<open>Decimal arithmetic with infinities\<close>

fun num_neg :: "num \<Rightarrow> num" where
  "num_neg (Fin r) = Fin (- r)"
| "num_neg PosInf = NegInf"
| "num_neg NegInf = PosInf"
| "num_neg NaN = NaN"

fun num_plus :: "num \<Rightarrow> num \<Rightarrow> py_error + num" where
  "num_plus NaN y = Inr NaN"
| "num_plus x NaN = Inr NaN"
| "num_plus (Fin a) (Fin b) = Inr (Fin (a + b))"
| "num_plus PosInf NegInf = Inl InvalidOperation"
| "num_plus NegInf PosInf = Inl InvalidOperation"
| "num_plus PosInf y = Inr PosInf"
| "num_plus NegInf y = Inr NegInf"
| "num_plus (Fin a) y = Inr y"

definition num_minus :: "num \<Rightarrow> num \<Rightarrow> py_error + num" where
  "num_minus x y = num_plus x (num_neg y)"

definition num_inf :: "bool \<Rightarrow> num" where
  "num_inf negative = (if negative then NegInf else PosInf)"

fun num_times :: "num \<Rightarrow> num \<Rightarrow> py_error + num" where
  "num_times NaN y = Inr NaN"
| "num_times x NaN = Inr NaN"
| "num_times (Fin a) (Fin b) = Inr (Fin (a * b))"
| "num_times (Fin a) PosInf = (if a = 0 then Inl InvalidOperation else Inr (num_inf (a < 0)))"
| "num_times (Fin a) NegInf = (if a = 0 then Inl InvalidOperation else Inr (num_inf (a > 0)))"
| "num_times PosInf (Fin b) = (if b = 0 then Inl InvalidOperation else Inr (num_inf (b < 0)))"
| "num_times NegInf (Fin b) = (if b = 0 then Inl InvalidOperation else Inr (num_inf (b > 0)))"
| "num_times PosInf PosInf = Inr PosInf"
| "num_times NegInf NegInf = Inr PosInf"
| "num_times PosInf NegInf = Inr NegInf"
| "num_times NegInf PosInf = Inr NegInf"

fun num_over :: "num \<Rightarrow> num \<Rightarrow> py_error + num" where
  "num_over NaN y = Inr NaN"
| "num_over x NaN = Inr NaN"
| "num_over (Fin a) (Fin b) =
     (if b = 0 then Inl (if a = 0 then InvalidOperation else DivisionByZeroErr) else Inr (Fin (a / b)))"
| "num_over (Fin a) y = Inr (Fin 0)"
| "num_over PosInf (Fin b) = Inr (num_inf (b < 0))"
| "num_over NegInf (Fin b) = Inr (num_inf (b \<ge> 0))"
| "num_over x y = Inl InvalidOperation"

text \<open>\<open>x > y\<close> on decimals, where NaN signals, and \<open>x > 0\<close> on a float, where it does not\<close>

fun num_greater :: "num \<Rightarrow> num \<Rightarrow> py_error + bool" where
  "num_greater NaN y = Inl InvalidOperation"
| "num_greater x NaN = Inl InvalidOperation"
| "num_greater (Fin a) (Fin b) = Inr (a > b)"
| "num_greater PosInf y = Inr (y \<noteq> PosInf)"
| "num_greater NegInf y = Inr False"
| "num_greater (Fin a) y = Inr (y = NegInf)"

fun num_positive :: "num \<Rightarrow> bool" where
  "num_positive (Fin r) = (r > 0)"
| "num_positive PosInf = True"
| "num_positive NegInf = False"
| "num_positive NaN = False"

fun num_not_positive :: "num \<Rightarrow> bool" where
  "num_not_positive (Fin r) = (r \<le> 0)"
| "num_not_positive PosInf = False"
| "num_not_positive NegInf = True"
| "num_not_positive NaN = False"

section \<open>Quantity floors\<close>

text \<open>The plugin the port is built on\<close>

record spot_host =
  sh_last_price :: "num option"
  sh_owns_link_id :: "string \<Rightarrow> bool"
  sh_store :: "((string \<Rightarrow> bool) \<times> (string \<Rightarrow> string option)) option"

definition qty_floor :: "instrument_info \<Rightarrow> py_error + num" where
  "qty_floor market =
     res_bind (parse_dec (in_qty_step_str market)) (\<lambda>floor_qty.
     res_bind (num_greater (in_min_order_qty market) floor_qty) (\<lambda>g.
       Inr (if g then in_min_order_qty market else floor_qty)))"

definition notional_floor :: "spot_host \<Rightarrow> instrument_info \<Rightarrow> py_error + num option" where
  "notional_floor host market =
     (case sh_last_price host of
        None \<Rightarrow> Inr None
      | Some price \<Rightarrow>
          if num_not_positive price then Inr None
          else res_bind (num_over (in_min_order_amt market) price) (\<lambda>v. Inr (Some v)))"

definition position_dust_threshold :: "spot_host \<Rightarrow> instrument_info \<Rightarrow> py_error + num" where
  "position_dust_threshold host market =
     res_bind (notional_floor host market) (\<lambda>nf.
     res_bind (qty_floor market) (\<lambda>floor_qty.
       case nf of
         None \<Rightarrow> Inr floor_qty
       | Some n \<Rightarrow> res_bind (num_greater n floor_qty) (\<lambda>g. Inr (if g then n else floor_qty))))"

definition positive_or_none :: "num \<Rightarrow> py_error + num option" where
  "positive_or_none f = res_bind (num_greater f (Fin 0)) (\<lambda>g. Inr (if g then Some f else None))"

definition min_sellable_base :: "spot_host \<Rightarrow> instrument_info \<Rightarrow> py_error + num option" where
  "min_sellable_base host market =
     res_bind (qty_floor market) (\<lambda>floor_qty.
       if num_positive (in_min_order_amt market)
       then
         res_bind (notional_floor host market) (\<lambda>nf.
           case nf of
             None \<Rightarrow> Inr None
           | Some n \<Rightarrow>
               res_bind (num_greater n floor_qty) (\<lambda>g. positive_or_none (if g then n else floor_qty)))
       else positive_or_none floor_qty)"

section \<open>Executions\<close>

record spot_execution =
  sx_fill_id :: string
  sx_side :: string
  sx_base_delta :: num
  sx_quote_delta :: num
  sx_price :: num
  sx_fee_amount :: num
  sx_fee_currency :: string
  sx_ts_ms :: int
  sx_exchange_order_id :: "string option"
  sx_client_order_id :: string
  sx_venue_seq :: "int option"

definition text_or_none :: "string \<Rightarrow> string option" where
  "text_or_none s = (if s = [] then None else Some s)"

definition attribute_of :: "spot_host \<Rightarrow> jdict \<Rightarrow> string option" where
  "attribute_of host entry =
     (let link_id = jstr entry ''orderLinkId''; order_id = jstr entry ''orderId'';
          by_ref = (case sh_store host of
                      Some (known, find_ref) \<Rightarrow> if order_id \<noteq> [] then find_ref order_id else None
                    | None \<Rightarrow> None)
      in if link_id \<noteq> [] \<and> (sh_owns_link_id host link_id \<or>
              (case sh_store host of Some (known, find_ref) \<Rightarrow> known link_id | None \<Rightarrow> False))
         then Some link_id
         else by_ref)"

text \<open>The numbers of a row: side, quantity, price, value, fee and time, or what the parsing raises.\<close>

definition execution_numbers :: "jdict \<Rightarrow> py_error + (num \<times> num \<times> num \<times> num \<times> int)" where
  "execution_numbers entry =
     res_bind (parse_dec (jstr entry ''execQty'')) (\<lambda>qty.
     res_bind (parse_dec (jstr entry ''execPrice'')) (\<lambda>price.
     res_bind (if truthy (jget entry ''execValue'') then parse_dec (jstr entry ''execValue'')
               else num_times qty price) (\<lambda>val.
     res_bind (let t = py_str (py_or (jget entry ''execFee'') (PStr ''0''))
               in parse_dec (if t = [] then ''0'' else t)) (\<lambda>fee.
     res_bind (py_int (py_or (jget entry ''execTime'') (PInt 0))) (\<lambda>ts.
       Inr (qty, price, val, fee, ts))))))"

definition venue_seq_of :: "jdict \<Rightarrow> string \<Rightarrow> py_error + int option" where
  "venue_seq_of entry exec_id =
     (let seq_raw = (if jstr entry ''seq'' = [] then exec_id else jstr entry ''seq'')
      in if isdigit seq_raw then map_sum id Some (parse_int seq_raw) else Inr None)"

text \<open>
  The record of a parsed row. \<open>validate\<close> is the framework's check of a built record: a rejected one
  raises \<open>ValueError\<close>, which the code logs and drops. Errors of the delta arithmetic are outside the
  try blocks and escape.
\<close>

definition build_execution ::
    "(spot_execution \<Rightarrow> bool) \<Rightarrow> instrument_info \<Rightarrow> jdict \<Rightarrow> string \<Rightarrow> num \<Rightarrow> num \<Rightarrow> num \<Rightarrow> num \<Rightarrow> int \<Rightarrow>
     py_error + spot_execution option" where
  "build_execution validate market entry coid qty price val fee ts_ms =
     (let side = lower (jstr entry ''side'');
          fee_currency =
            (if jstr entry ''feeCurrency'' \<noteq> [] then jstr entry ''feeCurrency''
             else if side = ''buy'' then in_base_coin market else in_quote_coin market);
          base_fee = (if fee_currency = in_base_coin market then fee else Fin 0);
          quote_fee = (if fee_currency = in_quote_coin market then fee else Fin 0);
          buy = (side = ''buy'')
      in res_bind (num_minus (if buy then qty else num_neg qty) base_fee) (\<lambda>base_delta.
         res_bind (num_minus (if buy then num_neg val else val) quote_fee) (\<lambda>quote_delta.
           case venue_seq_of entry (jstr entry ''execId'') of
             Inl e \<Rightarrow> if e = ValueErr then Inr None else Inl e
           | Inr seq \<Rightarrow>
               (let x = \<lparr>sx_fill_id = jstr entry ''execId'', sx_side = side,
                          sx_base_delta = base_delta, sx_quote_delta = quote_delta,
                          sx_price = price, sx_fee_amount = fee,
                          sx_fee_currency = fee_currency, sx_ts_ms = ts_ms,
                          sx_exchange_order_id = text_or_none (jstr entry ''orderId''),
                          sx_client_order_id = coid, sx_venue_seq = seq\<rparr>
                in Inr (if validate x then Some x else None)))))"

definition to_execution ::
    "(spot_execution \<Rightarrow> bool) \<Rightarrow> spot_host \<Rightarrow> instrument_info \<Rightarrow> jdict \<Rightarrow>
     py_error + spot_execution option" where
  "to_execution validate host market entry =
     (if py_str (py_or (jget entry ''execType'') (PStr ''Trade'')) \<noteq> ''Trade'' then Inr None
      else if jstr entry ''symbol'' \<noteq> in_symbol market then Inr None
      else
        case attribute_of host entry of
          None \<Rightarrow> Inr None
        | Some coid \<Rightarrow>
            (case execution_numbers entry of
               Inl e \<Rightarrow> if arithmetic_error e \<or> value_or_type_error e then Inr None else Inl e
             | Inr (qty, price, val, fee, ts_ms) \<Rightarrow>
                 build_execution validate market entry coid qty price val fee ts_ms))"

section \<open>Reading the execution history\<close>

definition MAX_WINDOW_PAGES :: nat where "MAX_WINDOW_PAGES = 200"
definition EXECUTION_WINDOW_MS :: int where "EXECUTION_WINDOW_MS = 7 * 86400 * 1000"
definition EXECUTION_CURSOR_OVERLAP_MS :: int where "EXECUTION_CURSOR_OVERLAP_MS = 60000"

text \<open>The endpoint: window start and end and the page cursor.\<close>

type_synonym executions_api = "int \<Rightarrow> int \<Rightarrow> py \<Rightarrow> raised + jdict"

fun page_executions ::
    "(jdict \<Rightarrow> py_error + spot_execution option) \<Rightarrow> py list \<Rightarrow> py_error + spot_execution list" where
  "page_executions conv [] = Inr []"
| "page_executions conv (entry # es) =
     res_bind (as_dict entry) (\<lambda>d. res_bind (conv d) (\<lambda>x.
     res_bind (page_executions conv es) (\<lambda>xs.
       Inr ((case x of Some y \<Rightarrow> [y] | None \<Rightarrow> []) @ xs))))"

text \<open>
  The pages of one window; the first argument counts the pages still allowed. The flag tells whether
  the window was drained completely.
\<close>

fun drain_window ::
    "nat \<Rightarrow> executions_api \<Rightarrow> (jdict \<Rightarrow> py_error + spot_execution option) \<Rightarrow> int \<Rightarrow> int \<Rightarrow> py \<Rightarrow>
     spot_execution list \<Rightarrow> raised + (spot_execution list \<times> bool)" where
  "drain_window 0 api conv s e cursor rows = Inr (rows, False)"
| "drain_window (Suc n) api conv s e cursor rows =
     (case api s e cursor of
        Inl (Bybit x) \<Rightarrow> Inr (rows, False)
      | Inl x \<Rightarrow> Inl x
      | Inr result \<Rightarrow>
          (case res_bind (as_list (py_or (jget result ''list'') (PList []))) (page_executions conv) of
             Inl x \<Rightarrow> Inl (Lang x)
           | Inr xs \<Rightarrow>
               (let nx = py_or (jget result ''nextPageCursor'') PNone in
                if \<not> truthy nx then Inr (rows @ xs, True)
                else drain_window n api conv s e nx (rows @ xs))))"

record execution_batch =
  eb_executions :: "spot_execution list"
  eb_next_cursor :: "string option"
  eb_has_more :: bool
  eb_conclusive :: bool

definition read_window :: "int \<Rightarrow> int \<Rightarrow> int \<times> int" where
  "read_window watermark now_ms =
     (let start = max 0 (watermark - EXECUTION_CURSOR_OVERLAP_MS)
      in (start, min (start + EXECUTION_WINDOW_MS) now_ms))"

definition fetch_executions ::
    "executions_api \<Rightarrow> (jdict \<Rightarrow> py_error + spot_execution option) \<Rightarrow> int \<Rightarrow> string option \<Rightarrow>
     raised + execution_batch" where
  "fetch_executions api conv now_ms cursor =
     (case cursor of
        None \<Rightarrow> Inr \<lparr>eb_executions = [], eb_next_cursor = Some (int_str now_ms), eb_has_more = False,
                     eb_conclusive = True\<rparr>
      | Some text \<Rightarrow>
          (case parse_int text of
             Inl e \<Rightarrow> Inr \<lparr>eb_executions = [], eb_next_cursor = None, eb_has_more = False,
                           eb_conclusive = False\<rparr>
           | Inr watermark \<Rightarrow>
               (let (start, window_end) = read_window watermark now_ms in
                case drain_window MAX_WINDOW_PAGES api conv start window_end PNone [] of
                  Inl e \<Rightarrow> Inl e
                | Inr (rows, conclusive) \<Rightarrow>
                    Inr (if \<not> conclusive
                         then \<lparr>eb_executions = rows, eb_next_cursor = None, eb_has_more = False,
                               eb_conclusive = False\<rparr>
                         else \<lparr>eb_executions = rows, eb_next_cursor = Some (int_str window_end),
                               eb_has_more = window_end < now_ms, eb_conclusive = True\<rparr>))))"

definition fetch_base_balance :: "raised + jdict \<Rightarrow> raised + num" where
  "fetch_base_balance entry =
     res_bind entry (\<lambda>d.
       let t = py_str (py_or (jget d ''walletBalance'') (PStr ''0''))
       in lift_err (parse_dec (if t = [] then ''0'' else t)))"

text \<open>
  What the manager does with the port: read on while there is more, handing the cursor back. \<open>nows\<close>
  are the clock readings; \<open>None\<close> is a catch-up still going. Fuel bounds the reads.
\<close>

fun catch_up ::
    "executions_api \<Rightarrow> (jdict \<Rightarrow> py_error + spot_execution option) \<Rightarrow> (nat \<Rightarrow> int) \<Rightarrow> nat \<Rightarrow> nat \<Rightarrow>
     string option \<Rightarrow> spot_execution list \<Rightarrow>
     (raised + (spot_execution list \<times> string option \<times> bool)) option" where
  "catch_up api conv nows 0 n cursor acc = None"
| "catch_up api conv nows (Suc k) n cursor acc =
     (case fetch_executions api conv (nows n) cursor of
        Inl e \<Rightarrow> Some (Inl e)
      | Inr b \<Rightarrow>
          if eb_conclusive b \<and> eb_has_more b
          then catch_up api conv nows k (Suc n) (eb_next_cursor b) (acc @ eb_executions b)
          else Some (Inr (acc @ eb_executions b, eb_next_cursor b, eb_conclusive b)))"

section \<open>Attribution\<close>

definition owned :: "spot_host \<Rightarrow> string \<Rightarrow> bool" where
  "owned host coid \<longleftrightarrow> sh_owns_link_id host coid \<or>
     (\<exists>known find_ref. sh_store host = Some (known, find_ref) \<and>
        (known coid \<or> (\<exists>oid. oid \<noteq> [] \<and> find_ref oid = Some coid)))"

lemma attribute_owned: "attribute_of host entry = Some coid \<Longrightarrow> owned host coid"
  by (auto simp: attribute_of_def owned_def Let_def split: if_splits option.splits)

lemma build_execution_ok:
  assumes "build_execution validate market entry coid qty price val fee ts_ms = Inr (Some x)"
  shows "sx_client_order_id x = coid \<and> validate x \<and> sx_ts_ms x = ts_ms"
  using assms unfolding build_execution_def Let_def
  by (elim res_bind_Inr_iff [THEN iffD1, elim_format] exE conjE) (auto split: sum.splits if_splits)

lemma to_execution_built:
  assumes "to_execution validate host market entry = Inr (Some x)"
  obtains coid qty price val fee ts_ms where "attribute_of host entry = Some coid"
    "jstr entry ''symbol'' = in_symbol market"
    "build_execution validate market entry coid qty price val fee ts_ms = Inr (Some x)"
  using assms by (auto simp: to_execution_def split: if_splits option.splits sum.splits)

lemma to_execution_owned:
  assumes "to_execution validate host market entry = Inr (Some x)"
  shows "owned host (sx_client_order_id x) \<and> validate x \<and> jstr entry ''symbol'' = in_symbol market"
proof -
  obtain coid qty price val fee ts_ms where b: "attribute_of host entry = Some coid"
    "jstr entry ''symbol'' = in_symbol market"
    "build_execution validate market entry coid qty price val fee ts_ms = Inr (Some x)"
    using assms by (rule to_execution_built)
  then show ?thesis using build_execution_ok [OF b(3)] attribute_owned [OF b(1)] by simp
qed

lemma page_executions_from:
  "page_executions conv es = Inr xs \<Longrightarrow> x \<in> set xs \<Longrightarrow> \<exists>d. PDict d \<in> set es \<and> conv d = Inr (Some x)"
proof (induction es arbitrary: xs)
  case Nil
  then show ?case by simp
next
  case (Cons v es)
  then obtain d y ys where d: "v = PDict d" "conv d = Inr y" "page_executions conv es = Inr ys"
    "xs = (case y of Some z \<Rightarrow> [z] | None \<Rightarrow> []) @ ys"
    by (auto simp: res_bind_Inr_iff)
  show ?case
  proof (cases "x \<in> set ys")
    case True
    then show ?thesis using Cons.IH [OF d(3)] by auto
  next
    case False
    then have "y = Some x" using d(4) Cons.prems(2) by (auto split: option.splits)
    then show ?thesis using d by auto
  qed
qed

lemma page_executions_all:
  "page_executions conv (map PDict ds) = Inr xs \<Longrightarrow> d \<in> set ds \<Longrightarrow> conv d = Inr (Some x) \<Longrightarrow> x \<in> set xs"
  by (induction ds arbitrary: xs) (auto simp: res_bind_Inr_iff)

lemma page_executions_total:
  "\<forall>d \<in> set ds. \<exists>x. conv d = Inr x \<Longrightarrow> \<exists>xs. page_executions conv (map PDict ds) = Inr xs"
  by (induction ds) auto

lemma drain_window_from:
  assumes "drain_window n api conv s e cursor rows = Inr (rows', c)" and "x \<in> set rows'"
  shows "x \<in> set rows \<or> (\<exists>d. conv d = Inr (Some x))"
  using assms
proof (induction n api conv s e cursor rows rule: drain_window.induct)
  case (1 api conv s e cursor rows)
  then show ?case by simp
next
  case (2 n api conv s e cursor rows)
  then show ?case
    using page_executions_from [of conv]
    by (fastforce simp: Let_def res_bind_Inr_iff split: sum.splits raised.splits if_splits)
qed

section \<open>A venue that answers its windows in full\<close>

text \<open>
  The rows of a window as the pages hand them out, \<open>None\<close> when a page fails or the chain of cursors
  is longer than the pages allowed. An honest history answers every window of at most seven days
  within the page limit, and the answer holds every fill of the window. \<open>fills\<close> pairs the time of a
  fill with its row.
\<close>

fun dict_rows :: "py list \<Rightarrow> jdict list option" where
  "dict_rows [] = Some []"
| "dict_rows (PDict d # vs) = map_option ((#) d) (dict_rows vs)"
| "dict_rows (v # vs) = None"

lemma dict_rows_map: "dict_rows vs = Some ds \<Longrightarrow> vs = map PDict ds"
  by (induction vs arbitrary: ds rule: dict_rows.induct) auto

definition page_rows :: "jdict \<Rightarrow> jdict list option" where
  "page_rows d = (case jget d ''list'' of PList vs \<Rightarrow> dict_rows vs | _ \<Rightarrow> None)"

fun window_rows :: "nat \<Rightarrow> executions_api \<Rightarrow> int \<Rightarrow> int \<Rightarrow> py \<Rightarrow> jdict list option" where
  "window_rows 0 api s e cursor = None"
| "window_rows (Suc k) api s e cursor =
     (case api s e cursor of
        Inl x \<Rightarrow> None
      | Inr d \<Rightarrow>
          (case page_rows d of
             None \<Rightarrow> None
           | Some ds \<Rightarrow>
               if \<not> truthy (jget d ''nextPageCursor'') then Some ds
               else map_option ((@) ds) (window_rows k api s e (jget d ''nextPageCursor''))))"

definition honest_history ::
    "executions_api \<Rightarrow> (jdict \<Rightarrow> py_error + spot_execution option) \<Rightarrow> (int \<times> jdict) list \<Rightarrow> bool" where
  "honest_history api conv fills \<longleftrightarrow>
     (\<forall>s e. 0 \<le> s \<longrightarrow> s \<le> e \<longrightarrow> e \<le> s + EXECUTION_WINDOW_MS \<longrightarrow>
        (\<exists>ds. window_rows MAX_WINDOW_PAGES api s e PNone = Some ds \<and>
           (\<forall>d \<in> set ds. \<exists>x. conv d = Inr x) \<and>
           (\<forall>(t, d) \<in> set fills. s \<le> t \<longrightarrow> t \<le> e \<longrightarrow> d \<in> set ds)))"

lemma page_rows_list:
  assumes "page_rows d = Some ds"
  shows "as_list (py_or (jget d ''list'') (PList [])) = Inr (map PDict ds)"
  using assms dict_rows_map
  by (cases "jget d ''list''") (auto simp: page_rows_def py_or_def)

lemma truthy_or_none: "truthy (py_or v PNone) \<longleftrightarrow> truthy v" "truthy v \<Longrightarrow> py_or v PNone = v"
  by (auto simp: py_or_def)

lemma page_executions_append:
  assumes "page_executions conv (map PDict ds) = Inr xs" and "page_executions conv (map PDict es) = Inr ys"
  shows "page_executions conv (map PDict (ds @ es)) = Inr (xs @ ys)"
  using assms by (induction ds arbitrary: xs) (auto simp: res_bind_Inr_iff)

lemma drain_window_complete:
  assumes "window_rows k api s e cursor = Some ds" and "\<forall>d \<in> set ds. \<exists>x. conv d = Inr x"
  shows "\<exists>xs. drain_window k api conv s e cursor rows = Inr (rows @ xs, True) \<and>
     page_executions conv (map PDict ds) = Inr xs"
  using assms
proof (induction k api conv s e cursor rows arbitrary: ds rule: drain_window.induct)
  case (1 api conv s e cursor rows)
  then show ?case by simp
next
  case (2 n api conv s e cursor rows)
  obtain d page where d: "api s e cursor = Inr d" "page_rows d = Some page"
    using "2.prems"(1) by (auto split: sum.splits option.splits)
  have sub: "set page \<subseteq> set ds"
    using "2.prems"(1) d by (auto split: if_splits)
  then obtain xs where xs: "page_executions conv (map PDict page) = Inr xs"
    using page_executions_total [of page conv] "2.prems"(2) by blast
  show ?case
  proof (cases "truthy (jget d ''nextPageCursor'')")
    case False
    then show ?thesis using "2.prems"(1) d xs by (simp add: page_rows_list truthy_or_none Let_def)
  next
    case True
    then obtain more where m: "window_rows n api s e (jget d ''nextPageCursor'') = Some more" "ds = page @ more"
      using "2.prems"(1) d by auto
    have step: "drain_window (Suc n) api conv s e cursor rows =
        drain_window n api conv s e (jget d ''nextPageCursor'') (rows @ xs)"
      using d xs True by (simp add: page_rows_list truthy_or_none Let_def)
    obtain ys where ys: "drain_window n api conv s e (jget d ''nextPageCursor'') (rows @ xs) =
        Inr ((rows @ xs) @ ys, True)" "page_executions conv (map PDict more) = Inr ys"
      using "2.IH" [OF d(1) _ refl, of xs more] d True xs m "2.prems"(2)
      by (auto simp: page_rows_list truthy_or_none)
    then show ?thesis using step page_executions_append [OF xs] m(2) by auto
  qed
qed

lemma window_batch:
  assumes "honest_history api conv fills" and "0 \<le> w" and "w \<le> now"
  defines "s \<equiv> max 0 (w - EXECUTION_CURSOR_OVERLAP_MS)"
  defines "e \<equiv> min (s + EXECUTION_WINDOW_MS) now"
  shows "\<exists>xs. fetch_executions api conv now (Some (int_str w)) =
      Inr \<lparr>eb_executions = xs, eb_next_cursor = Some (int_str e), eb_has_more = (e < now), eb_conclusive = True\<rparr> \<and>
      (\<forall>(t, d) \<in> set fills. \<forall>x. s \<le> t \<longrightarrow> t \<le> e \<longrightarrow> conv d = Inr (Some x) \<longrightarrow> x \<in> set xs)"
proof -
  have "0 \<le> s" "s \<le> e" "e \<le> s + EXECUTION_WINDOW_MS"
    using assms(2,3) by (auto simp: s_def e_def EXECUTION_WINDOW_MS_def EXECUTION_CURSOR_OVERLAP_MS_def)
  then obtain ds where ds: "window_rows MAX_WINDOW_PAGES api s e PNone = Some ds"
    "\<forall>d \<in> set ds. \<exists>x. conv d = Inr x" "\<forall>(t, d) \<in> set fills. s \<le> t \<longrightarrow> t \<le> e \<longrightarrow> d \<in> set ds"
    using assms(1) unfolding honest_history_def by blast
  obtain xs where xs: "drain_window MAX_WINDOW_PAGES api conv s e PNone [] = Inr (xs, True)"
    "page_executions conv (map PDict ds) = Inr xs"
    using drain_window_complete [OF ds(1,2), of "[]"] by auto
  have "read_window w now = (s, e)" by (simp add: read_window_def s_def e_def Let_def)
  then have "fetch_executions api conv now (Some (int_str w)) =
      Inr \<lparr>eb_executions = xs, eb_next_cursor = Some (int_str e), eb_has_more = (e < now), eb_conclusive = True\<rparr>"
    by (simp add: fetch_executions_def parse_int_str xs(1))
  then show ?thesis using page_executions_all [OF xs(2)] ds(3) by blast
qed

lemma overlap_window: "EXECUTION_CURSOR_OVERLAP_MS < EXECUTION_WINDOW_MS" "0 < EXECUTION_CURSOR_OVERLAP_MS"
  by (simp_all add: EXECUTION_WINDOW_MS_def EXECUTION_CURSOR_OVERLAP_MS_def)

lemma catch_up_reads:
  assumes honest: "honest_history api conv fills" and clock: "\<And>i j. i \<le> j \<Longrightarrow> nows i \<le> nows j"
    and "0 \<le> w" and "w \<le> nows n"
    and "nows (n + j) \<le> w + int (Suc j) * (EXECUTION_WINDOW_MS - EXECUTION_CURSOR_OVERLAP_MS)" and "j < k"
  shows "\<exists>xs c. catch_up api conv nows k n (Some (int_str w)) acc = Some (Inr (acc @ xs, Some (int_str c), True)) \<and>
    nows n \<le> c \<and>
    (\<forall>(t, d) \<in> set fills. \<forall>x. 0 \<le> t \<longrightarrow> w - EXECUTION_CURSOR_OVERLAP_MS \<le> t \<longrightarrow> t \<le> c \<longrightarrow>
       conv d = Inr (Some x) \<longrightarrow> x \<in> set xs)"
  using assms(3-6)
proof (induction j arbitrary: k n w acc)
  case 0
  then obtain k' where k: "k = Suc k'" by (cases k) auto
  let ?s = "max 0 (w - EXECUTION_CURSOR_OVERLAP_MS)"
  have e: "min (?s + EXECUTION_WINDOW_MS) (nows n) = nows n"
    using 0 overlap_window by (auto simp: algebra_simps)
  obtain xs where xs: "fetch_executions api conv (nows n) (Some (int_str w)) =
      Inr \<lparr>eb_executions = xs, eb_next_cursor = Some (int_str (nows n)), eb_has_more = False, eb_conclusive = True\<rparr>"
    "\<forall>(t, d) \<in> set fills. \<forall>x. ?s \<le> t \<longrightarrow> t \<le> nows n \<longrightarrow> conv d = Inr (Some x) \<longrightarrow> x \<in> set xs"
    using window_batch [OF honest 0(1,2)] unfolding e by auto
  show ?case
    by (rule exI [of _ xs], rule exI [of _ "nows n"]) (use xs k in \<open>auto\<close>)
next
  case (Suc j)
  then obtain k' where k: "k = Suc k'" "j < k'" by (cases k) auto
  let ?s = "max 0 (w - EXECUTION_CURSOR_OVERLAP_MS)"
  define e where "e = min (?s + EXECUTION_WINDOW_MS) (nows n)"
  obtain xs where xs: "fetch_executions api conv (nows n) (Some (int_str w)) =
      Inr \<lparr>eb_executions = xs, eb_next_cursor = Some (int_str e), eb_has_more = (e < nows n), eb_conclusive = True\<rparr>"
    "\<forall>(t, d) \<in> set fills. \<forall>x. ?s \<le> t \<longrightarrow> t \<le> e \<longrightarrow> conv d = Inr (Some x) \<longrightarrow> x \<in> set xs"
    using window_batch [OF honest Suc.prems(1,2)] unfolding e_def by blast
  show ?case
  proof (cases "e < nows n")
    case False
    then have "e = nows n" by (simp add: e_def)
    then show ?thesis
      by (intro exI [of _ xs] exI [of _ "nows n"]) (use xs k in \<open>auto\<close>)
  next
    case True
    then have e: "e = ?s + EXECUTION_WINDOW_MS" by (simp add: e_def)
    have pre: "0 \<le> e" "e \<le> nows (Suc n)"
      "nows (Suc n + j) \<le> e + int (Suc j) * (EXECUTION_WINDOW_MS - EXECUTION_CURSOR_OVERLAP_MS)"
      using e True clock [of n "Suc n"] Suc.prems(3) overlap_window by (auto simp: algebra_simps)
    obtain ys c where ys: "catch_up api conv nows k' (Suc n) (Some (int_str e)) (acc @ xs) =
        Some (Inr ((acc @ xs) @ ys, Some (int_str c), True))" "nows (Suc n) \<le> c"
      "\<forall>(t, d) \<in> set fills. \<forall>x. 0 \<le> t \<longrightarrow> e - EXECUTION_CURSOR_OVERLAP_MS \<le> t \<longrightarrow> t \<le> c \<longrightarrow>
         conv d = Inr (Some x) \<longrightarrow> x \<in> set ys"
      using Suc.IH [OF pre k(2)] by blast
    have "catch_up api conv nows k n (Some (int_str w)) acc = Some (Inr (acc @ (xs @ ys), Some (int_str c), True))"
      using k xs(1) True ys(1) by simp
    moreover have "nows n \<le> c" using ys(2) clock [of n "Suc n"] by simp
    moreover have "\<forall>(t, d) \<in> set fills. \<forall>x. 0 \<le> t \<longrightarrow> w - EXECUTION_CURSOR_OVERLAP_MS \<le> t \<longrightarrow> t \<le> c \<longrightarrow>
       conv d = Inr (Some x) \<longrightarrow> x \<in> set (xs @ ys)"
    proof (clarify)
      fix t d x
      assume a: "(t, d) \<in> set fills" "0 \<le> t" "w - EXECUTION_CURSOR_OVERLAP_MS \<le> t" "t \<le> c" "conv d = Inr (Some x)"
      show "x \<in> set (xs @ ys)"
      proof (cases "t \<le> e")
        case True
        then show ?thesis using xs(2) a by auto
      next
        case False
        then have "e - EXECUTION_CURSOR_OVERLAP_MS \<le> t" using overlap_window by simp
        then show ?thesis using ys(3) a by auto
      qed
    qed
    ultimately show ?thesis by blast
  qed
qed

text \<open>
  C16. Catching up after an outage of any length neither stops short nor skips a fill: on a venue that
  answers every seven-day window completely within the page limit, with rows the conversion accepts, the
  reads end once they have covered the gap
  at a net step of the window less the overlap, conclusively, with a cursor not before the time of the
  first read, and every representable fill of the bot from the cursor on has been handed over.
\<close>

theorem catch_up_complete:
  assumes "honest_history api conv fills" and "\<forall>i j. i \<le> j \<longrightarrow> nows i \<le> nows j"
    and "0 \<le> w" and "w \<le> nows 0"
    and "nows j \<le> w + int (Suc j) * (EXECUTION_WINDOW_MS - EXECUTION_CURSOR_OVERLAP_MS)" and "j < k"
  shows "\<exists>xs c. catch_up api conv nows k 0 (Some (int_str w)) [] = Some (Inr (xs, Some (int_str c), True)) \<and>
    nows 0 \<le> c \<and>
    (\<forall>(t, d) \<in> set fills. \<forall>x. 0 \<le> t \<longrightarrow> w - EXECUTION_CURSOR_OVERLAP_MS \<le> t \<longrightarrow> t \<le> c \<longrightarrow>
       conv d = Inr (Some x) \<longrightarrow> x \<in> set xs)"
  using catch_up_reads [of api conv fills nows w 0 j k "[]"] assms by simp

text \<open>
  Concrete inputs: an instrument, a plugin that owns one order link id, one fill, and a history that
  answers every window with it.
\<close>

definition example_market :: instrument_info where
  "example_market =
     \<lparr>in_category = ''spot'', in_symbol = ''BTCUSDT'', in_base_coin = ''BTC'', in_quote_coin = ''USDT'',
      in_settle_coin = '''', in_status = ''Trading'', in_tick_size_str = ''0.01'', in_tick_size = Fin (1/100),
      in_qty_step_str = ''0.001'', in_qty_step = Fin (1/1000), in_min_order_qty = Fin (1/100),
      in_min_order_amt = Fin 5, in_min_notional = Fin 0, in_max_limit_order_qty = PosInf,
      in_max_market_order_qty = PosInf, in_contract_type = '''', in_delivery_time = None\<rparr>"

definition example_host :: spot_host where
  "example_host = \<lparr>sh_last_price = Some (Fin 100), sh_owns_link_id = (\<lambda>l. l = ''py-1''), sh_store = None\<rparr>"

definition example_row :: jdict where
  "example_row =
     [(''symbol'', PStr ''BTCUSDT''), (''side'', PStr ''Buy''), (''orderLinkId'', PStr ''py-1''),
      (''execQty'', PStr ''2''), (''execPrice'', PStr ''10''), (''execFee'', PStr ''1''), (''execTime'', PStr ''7''),
      (''execId'', PStr ''4'')]"

definition example_fill :: spot_execution where
  "example_fill =
     \<lparr>sx_fill_id = ''4'', sx_side = ''buy'', sx_base_delta = Fin 1, sx_quote_delta = Fin (-20), sx_price = Fin 10,
      sx_fee_amount = Fin 1, sx_fee_currency = ''BTC'', sx_ts_ms = 7, sx_exchange_order_id = None,
      sx_client_order_id = ''py-1'', sx_venue_seq = Some 4\<rparr>"

definition example_history :: executions_api where
  "example_history s e cursor = Inr [(''list'', PList [PDict example_row])]"

lemma example_conv: "to_execution (\<lambda>x. True) example_host example_market example_row = Inr (Some example_fill)"
  by code_simp

lemma pages_suc: "MAX_WINDOW_PAGES = Suc 199"
  by (simp add: MAX_WINDOW_PAGES_def)

lemma example_honest:
  "honest_history example_history (to_execution (\<lambda>x. True) example_host example_market) [(7, example_row)]"
proof -
  have "window_rows (Suc n) example_history s e PNone = Some [example_row]" for n s e
    by (simp add: example_history_def page_rows_def jget_def)
  from this [of 199] have "window_rows MAX_WINDOW_PAGES example_history s e PNone = Some [example_row]" for s e
    unfolding pages_suc .
  then show ?thesis unfolding honest_history_def by (auto simp: example_conv)
qed

theorem catch_up_complete_witness:
  "\<exists>xs c. catch_up example_history (to_execution (\<lambda>x. True) example_host example_market)
      (\<lambda>n. 864000000 + 1000 * int n) 2 0 (Some (int_str 0)) [] = Some (Inr (xs, Some (int_str c), True)) \<and>
    864000000 \<le> c \<and> example_fill \<in> set xs"
proof -
  have "\<exists>xs c. catch_up example_history (to_execution (\<lambda>x. True) example_host example_market)
      (\<lambda>n. 864000000 + 1000 * int n) 2 0 (Some (int_str 0)) [] = Some (Inr (xs, Some (int_str c), True)) \<and>
    864000000 + 1000 * int 0 \<le> c \<and>
    (\<forall>(t, d) \<in> set [(7, example_row)]. \<forall>x. 0 \<le> t \<longrightarrow> 0 - EXECUTION_CURSOR_OVERLAP_MS \<le> t \<longrightarrow> t \<le> c \<longrightarrow>
       to_execution (\<lambda>x. True) example_host example_market d = Inr (Some x) \<longrightarrow> x \<in> set xs)"
    by (rule catch_up_complete [OF example_honest, where j = 1])
      (simp_all add: EXECUTION_WINDOW_MS_def EXECUTION_CURSOR_OVERLAP_MS_def)
  then show ?thesis by (auto simp: example_conv EXECUTION_CURSOR_OVERLAP_MS_def)
qed

text \<open>
  Only the bot's own fills reach the inventory ledger: every execution of a batch carries the
  client order id of a dispatch of this plugin (from its identity map or the broker store) and passed
  the ledger's validation; an unfinished window is never conclusive and moves no cursor.
\<close>

theorem batch_attributed:
  assumes "fetch_executions api (to_execution validate host market) now cursor = Inr b"
  shows "(\<forall>x \<in> set (eb_executions b). owned host (sx_client_order_id x) \<and> validate x) \<and>
    (\<not> eb_conclusive b \<longrightarrow> eb_next_cursor b = None \<and> \<not> eb_has_more b)"
proof -
  have "owned host (sx_client_order_id x) \<and> validate x"
    if "drain_window n api (to_execution validate host market) s e PNone [] = Inr (rows, c)" "x \<in> set rows"
    for n s e rows c x
    using drain_window_from [OF that] to_execution_owned by fastforce
  then show ?thesis using assms
    by (force simp: fetch_executions_def Let_def split: option.splits sum.splits prod.splits if_splits)
qed

theorem batch_attributed_witness:
  "\<exists>b. fetch_executions example_history (to_execution (\<lambda>x. True) example_host example_market) 9 (Some ''0'') = Inr b \<and>
     eb_executions b = [example_fill] \<and> owned example_host (sx_client_order_id example_fill)"
proof -
  have p: "parse_int ''0'' = Inr 0" by code_simp
  have "drain_window (Suc n) example_history (to_execution (\<lambda>x. True) example_host example_market) s e PNone [] =
      Inr ([example_fill], True)" for n s e
    by (simp add: example_history_def jget_def py_or_def Let_def example_conv)
  from this [of 199] obtain b where b: "fetch_executions example_history (to_execution (\<lambda>x. True) example_host example_market) 9 (Some ''0'') = Inr b"
      "eb_executions b = [example_fill]"
    unfolding pages_suc [symmetric] by (simp add: fetch_executions_def p read_window_def Let_def)
  from batch_attributed [OF b(1)] b show ?thesis by auto
qed

text \<open>
  The two bounds of the port agree: with a minimum order value and a positive last price, the
  least sellable quantity, when there is one, is the dust threshold.
\<close>

theorem min_sellable_is_dust_threshold:
  assumes "num_positive (in_min_order_amt market)" and "min_sellable_base host market = Inr (Some f)"
  shows "position_dust_threshold host market = Inr f"
proof -
  obtain q nf where q: "qty_floor market = Inr q" and nf: "notional_floor host market = Inr nf"
    and m: "(case nf of None \<Rightarrow> Inr None
       | Some n \<Rightarrow> res_bind (num_greater n q) (\<lambda>g. positive_or_none (if g then n else q))) = Inr (Some f)"
    using assms unfolding min_sellable_base_def res_bind_Inr_iff by (metis (no_types, lifting) res_bind_Inr_iff)
  obtain n where n: "nf = Some n" using m by (cases nf) simp_all
  obtain g where g: "num_greater n q = Inr g" and p: "positive_or_none (if g then n else q) = Inr (Some f)"
    using m unfolding n option.case res_bind_Inr_iff by blast
  have "f = (if g then n else q)"
    using p unfolding positive_or_none_def res_bind_Inr_iff by (metis Inr_inject option.distinct(1) option.inject)
  then show ?thesis unfolding position_dust_threshold_def q nf n by (simp add: g)
qed

theorem min_sellable_is_dust_threshold_witness:
  "position_dust_threshold example_host example_market = Inr (Fin (1/20))"
proof -
  have "min_sellable_base example_host example_market = Inr (Some (Fin (1/20)))" by code_simp
  from min_sellable_is_dust_threshold [OF _ this] show ?thesis by (simp add: example_market_def)
qed

end
