(* ===== verification/Position_Reads.thy ===== *)
theory Position_Reads
  imports Ledger Inventory
begin

text \<open>
  The derivative position path of \<^verbatim>\<open>src/src/pynecore_bybit/positions.py\<close> up to the store: the parsers
  of the venue's position rows, the detection of the position mode, the cache of the last known
  sizes with its freshness watermark, and the flat test; from
  \<^verbatim>\<open>src/src/pynecore_bybit/protection.py\<close> the field parsers and the recording of position views in
  the leg ledgers, which decide whether a row is a delayed push.
\<close>

section \<open>Fields of venue rows\<close>

fun type_name :: "py \<Rightarrow> string" where
  "type_name PNone = ''NoneType''"
| "type_name (PBool b) = ''bool''"
| "type_name (PInt i) = ''int''"
| "type_name (PFloat r) = ''float''"
| "type_name (PStr s) = ''str''"
| "type_name (PList xs) = ''list''"
| "type_name (PDict d) = ''dict''"

definition field_error :: "string \<Rightarrow> string \<Rightarrow> raised + 'a" where
  "field_error field problem =
     Inl (Bybit (BybitPositionDataError (''Bybit position field '' @ quote_str field @ problem)))"

fun is_number_or_text :: "py \<Rightarrow> bool" where
  "is_number_or_text (PInt i) = True"
| "is_number_or_text (PFloat r) = True"
| "is_number_or_text (PStr s) = True"
| "is_number_or_text v = False"

definition wire_float :: "string \<Rightarrow> py \<Rightarrow> raised + rat" where
  "wire_float field v =
     (if v = PNone \<or> v = PStr [] then Inr 0
      else if \<not> is_number_or_text v
      then field_error field ('' must be numeric, got '' @ type_name v)
      else case py_float v of
             Inl e \<Rightarrow> if e = ValueErr then field_error field ('' is not numeric: '' @ py_repr v) else Inl (Lang e)
           | Inr (Fin r) \<Rightarrow> Inr r
           | Inr n \<Rightarrow> field_error field ('' must be finite, got '' @ py_repr v))"

definition wire_int :: "string \<Rightarrow> py \<Rightarrow> raised + int" where
  "wire_int field v =
     (if v = PNone \<or> v = PStr [] then Inr 0
      else case v of
             PBool b \<Rightarrow> field_error field '' must be an integer, got bool''
           | PInt i \<Rightarrow> Inr i
           | PStr s \<Rightarrow>
               (case parse_int s of
                  Inl e \<Rightarrow> field_error field ('' is not an integer: '' @ py_repr v)
                | Inr i \<Rightarrow> Inr i)
           | _ \<Rightarrow> field_error field ('' must be an integer, got '' @ type_name v))"

definition position_row_size :: "jdict \<Rightarrow> raised + rat" where
  "position_row_size row =
     res_bind (wire_float ''size'' (jget row ''size'')) (\<lambda>size.
       if size < 0 then field_error ''size'' ('' must be non-negative, got '' @ float_str size)
       else Inr size)"

definition position_row_index :: "jdict \<Rightarrow> raised + int" where
  "position_row_index row = wire_int ''positionIdx'' (jget row ''positionIdx'')"

definition position_row_updated_ms :: "jdict \<Rightarrow> raised + int" where
  "position_row_updated_ms row =
     res_bind (wire_int ''updatedTime'' (jget row ''updatedTime'')) (\<lambda>ms.
       if ms < 0 then field_error ''updatedTime'' ('' must be non-negative, got '' @ int_str ms)
       else Inr ms)"

text \<open>
  The optional fields: a venue price (an absent one is no error), a quantity, a cross sequence and a
  timestamp. The three quiet parsers give \<open>None\<close> for whatever they cannot read.
\<close>

definition venue_level :: "py \<Rightarrow> py_error + rat option" where
  "venue_level raw =
     (if raw = PNone \<or> raw = PStr [] then Inr None
      else if \<not> is_number_or_text raw then Inl ValueErr
      else res_bind (py_float raw) (\<lambda>n. case n of
             Fin v \<Rightarrow> if v < 0 then Inl ValueErr else Inr (if v = 0 then None else Some v)
           | _ \<Rightarrow> Inl ValueErr))"

definition venue_qty :: "py \<Rightarrow> rat option" where
  "venue_qty raw =
     (if \<not> is_number_or_text raw \<or> raw = PStr [] then None
      else case py_float raw of
             Inr (Fin v) \<Rightarrow> if v > 0 then Some v else None
           | _ \<Rightarrow> None)"

fun positive_int :: "py \<Rightarrow> int option" where
  "positive_int (PInt i) = (if i > 0 then Some i else None)"
| "positive_int (PStr s) =
     (case parse_int s of Inl e \<Rightarrow> None | Inr i \<Rightarrow> if i > 0 then Some i else None)"
| "positive_int v = None"

definition parse_seq :: "py \<Rightarrow> int option" where
  "parse_seq raw = positive_int raw"

definition parse_ms :: "py \<Rightarrow> int option" where
  "parse_ms raw = positive_int raw"

lemma parse_seq_pos: "parse_seq raw = Some q \<Longrightarrow> q > 0"
  by (cases raw) (auto simp: parse_seq_def split: sum.splits if_splits)

section \<open>Position mode\<close>

definition POSITION_MODE_ONE_WAY :: string where "POSITION_MODE_ONE_WAY = ''one_way''"
definition POSITION_MODE_HEDGE :: string where "POSITION_MODE_HEDGE = ''hedge''"
definition HEDGE_IDX_BUY :: int where "HEDGE_IDX_BUY = 1"
definition HEDGE_IDX_SELL :: int where "HEDGE_IDX_SELL = 2"
definition ONE_WAY_IDX :: int where "ONE_WAY_IDX = 0"

lemmas idx_defs = HEDGE_IDX_BUY_def HEDGE_IDX_SELL_def ONE_WAY_IDX_def

text \<open>\<open>list(result.get('list') or [])\<close>, every row one whose \<open>.get\<close> is called later.\<close>

definition fetch_position_rows :: "raised + jdict \<Rightarrow> raised + jdict list" where
  "fetch_position_rows reply =
     res_bind reply (\<lambda>result.
     res_bind (lift_err (as_list (py_or (jget result ''list'') (PList [])))) (\<lambda>vs.
       lift_err (res_map as_dict vs)))"

fun detect_mode_rows :: "jdict list \<Rightarrow> raised + string" where
  "detect_mode_rows [] = Inr POSITION_MODE_ONE_WAY"
| "detect_mode_rows (row # rows) =
     res_bind (position_row_index row) (\<lambda>idx.
       if idx = HEDGE_IDX_BUY \<or> idx = HEDGE_IDX_SELL then Inr POSITION_MODE_HEDGE
       else detect_mode_rows rows)"

definition detect_position_mode :: "raised + jdict \<Rightarrow> raised + string" where
  "detect_position_mode reply = res_bind (fetch_position_rows reply) detect_mode_rows"

section \<open>Views and the size cache\<close>

text \<open>
  The ledgers per leg, the sizes per \<open>positionIdx\<close> in the order they were first seen, the newest
  \<open>updatedTime\<close> and the time of the run's newest own fill.
\<close>

record position_state =
  ps_ledgers :: "int \<Rightarrow> leg_ledger option"
  ps_sizes :: "(int \<times> rat) list option"
  ps_snapshot_ms :: int
  ps_own_fill_ms :: int
  ps_mode :: "string option"

definition new_positions :: position_state where
  "new_positions =
     \<lparr>ps_ledgers = Map.empty, ps_sizes = None, ps_snapshot_ms = 0, ps_own_fill_ms = 0, ps_mode = None\<rparr>"

definition hedge :: "position_state \<Rightarrow> bool" where
  "hedge S \<longleftrightarrow> ps_mode S = Some POSITION_MODE_HEDGE"

definition ledger_of :: "int \<Rightarrow> position_state \<Rightarrow> leg_ledger" where
  "ledger_of idx S = (case ps_ledgers S idx of None \<Rightarrow> new_ledger | Some L \<Rightarrow> L)"

definition closed_leg :: "string \<Rightarrow> position_state \<Rightarrow> int" where
  "closed_leg side S =
     (if \<not> hedge S then ONE_WAY_IDX else if side = ''sell'' then HEDGE_IDX_BUY else HEDGE_IDX_SELL)"

definition opened_leg :: "string \<Rightarrow> position_state \<Rightarrow> int" where
  "opened_leg side S =
     (if \<not> hedge S then ONE_WAY_IDX else if side = ''buy'' then HEDGE_IDX_BUY else HEDGE_IDX_SELL)"

text \<open>
  What one row enters: leg, sequence, signed size and time, or nothing. A parser that raises the
  plugin's own data error skips the row (the size and index) or the time.
\<close>

definition quiet :: "raised + 'a \<Rightarrow> 'a option" where
  "quiet r = (case r of Inr x \<Rightarrow> Some x | Inl e \<Rightarrow> None)"

definition row_view :: "jdict \<Rightarrow> (int \<times> int \<times> rat \<times> int option) option" where
  "row_view row =
     (case parse_seq (jget row ''seq'') of
        None \<Rightarrow> None
      | Some seq \<Rightarrow>
          (case (quiet (position_row_index row), quiet (position_row_size row)) of
             (Some idx, Some sz) \<Rightarrow>
               (let updated_ms = (case quiet (position_row_updated_ms row) of
                                    Some ms \<Rightarrow> if ms = 0 then None else Some ms
                                  | None \<Rightarrow> None);
                    side = lower (jstr row ''side'') in
                if idx = ONE_WAY_IDX \<and> sz > 0
                then (if side = ''buy'' then Some (idx, seq, sz, updated_ms)
                      else if side = ''sell'' then Some (idx, seq, - sz, updated_ms)
                      else None)
                else Some (idx, seq, sz, updated_ms))
           | _ \<Rightarrow> None))"

definition record_view :: "jdict \<Rightarrow> position_state \<Rightarrow> position_state" where
  "record_view row S =
     (case row_view row of
        None \<Rightarrow> S
      | Some (idx, seq, sz, updated_ms) \<Rightarrow>
          S\<lparr>ps_ledgers := (ps_ledgers S)(idx \<mapsto> add_view seq sz updated_ms (ledger_of idx S))\<rparr>)"

fun record_position_views :: "jdict list \<Rightarrow> position_state \<Rightarrow> position_state" where
  "record_position_views [] S = S"
| "record_position_views (row # rows) S = record_position_views rows (record_view row S)"

definition position_view_superseded :: "position_state \<Rightarrow> int \<Rightarrow> jdict \<Rightarrow> bool" where
  "position_view_superseded S idx row =
     (case (parse_seq (jget row ''seq''), ps_ledgers S idx) of
        (Some seq, Some L) \<Rightarrow> ll_latest_view_seq L > seq
      | _ \<Rightarrow> False)"

text \<open>
  A row read for the cache: its leg, size and time. The code parses every row before it changes
  anything, so a malformed row leaves cache, watermark and ledgers as they were.
\<close>

definition read_row :: "jdict \<Rightarrow> raised + (int \<times> rat \<times> int \<times> jdict)" where
  "read_row row =
     res_bind (position_row_index row) (\<lambda>idx.
     res_bind (position_row_size row) (\<lambda>sz.
     res_bind (position_row_updated_ms row) (\<lambda>ms. Inr (idx, sz, ms, row))))"

fun store_sizes ::
    "(int \<times> rat \<times> int \<times> jdict) list \<Rightarrow> (int \<times> rat) list \<Rightarrow> int \<Rightarrow> (int \<times> rat) list \<times> int" where
  "store_sizes [] sizes snap = (sizes, snap)"
| "store_sizes ((idx, sz, ms, row) # rest) sizes snap =
     store_sizes rest (AList.update idx sz sizes) (max snap ms)"

definition not_superseded :: "position_state \<Rightarrow> int \<times> rat \<times> int \<times> jdict \<Rightarrow> bool" where
  "not_superseded S p = (case p of (idx, sz, ms, row) \<Rightarrow> \<not> position_view_superseded S idx row)"

definition ingest_position_sizes :: "int \<Rightarrow> jdict list \<Rightarrow> position_state \<Rightarrow> raised + position_state" where
  "ingest_position_sizes now_ms rows S =
     res_bind (res_map read_row rows) (\<lambda>parsed.
       if rows = [] then Inr S
       else
         let S1 = record_position_views rows S;
             current = filter (not_superseded S1) parsed
         in if current = [] then Inr S1
            else
              let (sizes, snap) = store_sizes current (case ps_sizes S1 of None \<Rightarrow> [] | Some zs \<Rightarrow> zs) 0
              in Inr (S1\<lparr>ps_sizes := Some sizes,
                         ps_snapshot_ms := max (ps_snapshot_ms S1) (if snap = 0 then now_ms else snap)\<rparr>))"

text \<open>\<open>share\<close> is the run's signed share by its durable rows, \<open>None\<close> without a store.\<close>

definition FILL_EPS :: rat where "FILL_EPS = 1 / 10 ^ 9"

definition deriv_is_flat :: "rat option \<Rightarrow> position_state \<Rightarrow> bool" where
  "deriv_is_flat share S =
     (case ps_sizes S of
        None \<Rightarrow> False
      | Some sizes \<Rightarrow>
          (case (hedge S, share) of
             (True, Some own) \<Rightarrow> \<bar>own\<bar> \<le> FILL_EPS \<and> ps_snapshot_ms S \<ge> ps_own_fill_ms S
           | _ \<Rightarrow>
               if \<not> list_all (\<lambda>(idx, sz). sz \<le> 0) sizes then False
               else ps_snapshot_ms S \<ge> ps_own_fill_ms S))"

section \<open>The cache follows the newest view\<close>

text \<open>
  A usable row of a leg: it parses and it enters a view. \<open>newest_of\<close> relates a cached size to the
  rows seen: it is the size of one whose sequence no other row of the leg exceeds.
\<close>

definition usable :: "jdict \<Rightarrow> bool" where
  "usable row \<longleftrightarrow> row_view row \<noteq> None \<and> (\<exists>p. read_row row = Inr p)"

definition view_seq :: "jdict \<Rightarrow> int" where
  "view_seq row = (case parse_seq (jget row ''seq'') of Some q \<Rightarrow> q | None \<Rightarrow> 0)"

definition newest_of :: "jdict list \<Rightarrow> int \<Rightarrow> rat \<Rightarrow> bool" where
  "newest_of seen idx sz \<longleftrightarrow>
     (\<exists>row \<in> set seen. position_row_index row = Inr idx \<and> position_row_size row = Inr sz \<and>
        (\<forall>other \<in> set seen. position_row_index other = Inr idx \<longrightarrow> view_seq other \<le> view_seq row))"

definition latest_seq :: "position_state \<Rightarrow> int \<Rightarrow> int" where
  "latest_seq S idx = ll_latest_view_seq (ledger_of idx S)"

lemma add_view_latest [simp]:
  "ll_latest_view_seq (add_view seq sz ms L) = max (ll_latest_view_seq L) seq"
  by (simp add: add_view_def Let_def)

lemma row_view_index:
  "row_view row = Some (idx, seq, sz, ms) \<Longrightarrow> position_row_index row = Inr idx \<and> view_seq row = seq"
  by (auto simp: row_view_def quiet_def view_seq_def Let_def split: option.splits sum.splits if_splits)

lemma record_view_latest:
  assumes "row_view row \<noteq> None"
  shows "latest_seq (record_view row S) idx =
    (if position_row_index row = Inr idx then max (latest_seq S idx) (view_seq row) else latest_seq S idx)"
proof -
  obtain i q s ms where v: "row_view row = Some (i, q, s, ms)" using assms by (cases "row_view row") auto
  show ?thesis using row_view_index [OF v] by (auto simp: record_view_def v latest_seq_def ledger_of_def)
qed

lemma record_view_fields [simp]:
  "ps_sizes (record_view row S) = ps_sizes S" "ps_snapshot_ms (record_view row S) = ps_snapshot_ms S"
  "ps_own_fill_ms (record_view row S) = ps_own_fill_ms S" "ps_mode (record_view row S) = ps_mode S"
  by (auto simp: record_view_def split: option.splits)

lemma record_views_fields [simp]:
  "ps_sizes (record_position_views rows S) = ps_sizes S"
  "ps_snapshot_ms (record_position_views rows S) = ps_snapshot_ms S"
  "ps_own_fill_ms (record_position_views rows S) = ps_own_fill_ms S"
  "ps_mode (record_position_views rows S) = ps_mode S"
  by (induction rows arbitrary: S) auto

text \<open>After the views of a batch are entered, the latest sequence of a leg bounds its rows.\<close>

lemma record_views_latest:
  assumes "\<forall>row \<in> set rows. row_view row \<noteq> None"
  shows "latest_seq S idx \<le> latest_seq (record_position_views rows S) idx" (is ?mono)
    and "\<forall>row \<in> set rows. position_row_index row = Inr idx \<longrightarrow>
           view_seq row \<le> latest_seq (record_position_views rows S) idx" (is ?above)
    and "latest_seq (record_position_views rows S) idx = latest_seq S idx \<or>
      (\<exists>row \<in> set rows. position_row_index row = Inr idx \<and>
         view_seq row = latest_seq (record_position_views rows S) idx)" (is ?hit)
proof -
  have "?mono \<and> ?above \<and> ?hit" using assms
  proof (induction rows arbitrary: S)
    case Nil
    then show ?case by simp
  next
    case (Cons r rows)
    have r: "latest_seq (record_view r S) idx =
      (if position_row_index r = Inr idx then max (latest_seq S idx) (view_seq r) else latest_seq S idx)"
      using Cons.prems by (intro record_view_latest) simp
    from Cons.IH [of "record_view r S"] Cons.prems show ?case
      unfolding record_position_views.simps r by (auto split: if_splits)
  qed
  then show ?mono ?above ?hit by auto
qed

lemma store_sizes_get:
  "store_sizes cur sizes snap = (zs, m) \<Longrightarrow> map_of zs idx = Some sz \<Longrightarrow>
     (\<exists>(i, s, ms, row) \<in> set cur. i = idx \<and> s = sz) \<or>
     ((\<forall>(i, s, ms, row) \<in> set cur. i \<noteq> idx) \<and> map_of sizes idx = Some sz)"
proof (induction cur sizes snap rule: store_sizes.induct)
  case (1 sizes snap)
  then show ?case by simp
next
  case (2 i s ms row rest sizes snap)
  have up: "map_of (AList.update i s sizes) idx = (if i = idx then Some s else map_of sizes idx)"
    by (simp add: update_conv)
  show ?case
    using "2.IH" "2.prems" unfolding up by (cases "i = idx") auto
qed

definition newest_inv :: "jdict list \<Rightarrow> position_state \<Rightarrow> bool" where
  "newest_inv seen S \<longleftrightarrow>
     (\<forall>row \<in> set seen. \<forall>idx. position_row_index row = Inr idx \<longrightarrow> view_seq row \<le> latest_seq S idx) \<and>
     (\<forall>sizes idx sz. ps_sizes S = Some sizes \<longrightarrow> map_of sizes idx = Some sz \<longrightarrow>
        (\<exists>row \<in> set seen. position_row_index row = Inr idx \<and> position_row_size row = Inr sz \<and>
           view_seq row = latest_seq S idx))"

lemma newest_inv_cached:
  "newest_inv seen S \<Longrightarrow> ps_sizes S = Some sizes \<Longrightarrow> map_of sizes idx = Some sz \<Longrightarrow> newest_of seen idx sz"
  unfolding newest_inv_def newest_of_def by metis

lemma superseded_latest:
  assumes "row_view row \<noteq> None" and "position_row_index row = Inr idx" and "ps_ledgers S idx \<noteq> None"
  shows "position_view_superseded S idx row \<longleftrightarrow> view_seq row < latest_seq S idx"
  using assms
  by (auto simp: position_view_superseded_def row_view_def view_seq_def latest_seq_def ledger_of_def
      split: option.splits)

lemma record_views_entered:
  assumes "\<forall>row \<in> set rows. row_view row \<noteq> None" and "row \<in> set rows" and "position_row_index row = Inr idx"
  shows "ps_ledgers (record_position_views rows S) idx \<noteq> None"
proof -
  have keep: "ps_ledgers T idx \<noteq> None \<Longrightarrow> ps_ledgers (record_position_views rs T) idx \<noteq> None" for rs T
    by (induction rs arbitrary: T) (auto simp: record_view_def split: option.splits)
  show ?thesis
    using assms(1,2)
  proof (induction rows arbitrary: S)
    case Nil
    then show ?case by simp
  next
    case (Cons r rows)
    show ?case
    proof (cases "r = row")
      case True
      obtain i q s ms where v: "row_view row = Some (i, q, s, ms)" using Cons.prems True by auto
      have "i = idx" using row_view_index [OF v] assms(3) by simp
      then show ?thesis using True v keep by (simp add: record_view_def)
    next
      case False
      then show ?thesis using Cons by simp
    qed
  qed
qed

lemma read_rows_fields:
  assumes "res_map read_row rows = Inr parsed"
  shows "map (\<lambda>(i, s, ms, row). row) parsed = rows \<and>
    (\<forall>(i, s, ms, row) \<in> set parsed. position_row_index row = Inr i \<and> position_row_size row = Inr s)"
  using assms
  by (induction rows arbitrary: parsed) (auto simp: res_bind_Inr_iff read_row_def)

definition ingest_step :: "int \<times> jdict list \<Rightarrow> position_state \<Rightarrow> position_state" where
  "ingest_step x S = (case ingest_position_sizes (fst x) (snd x) S of Inr S' \<Rightarrow> S' | Inl e \<Rightarrow> S)"

lemma ingest_batch_newest:
  assumes inv: "newest_inv seen S" and usable: "\<forall>row \<in> set rows. usable row"
    and parsed: "res_map read_row rows = Inr parsed"
  defines "S1 \<equiv> record_position_views rows S"
  defines "cur \<equiv> filter (not_superseded S1) parsed"
  assumes sizes: "\<And>sizes idx sz. ps_sizes S' = Some sizes \<Longrightarrow> map_of sizes idx = Some sz \<Longrightarrow>
      (\<exists>(i, s, ms, row) \<in> set cur. i = idx \<and> s = sz) \<or>
      ((\<forall>(i, s, ms, row) \<in> set cur. i \<noteq> idx) \<and>
       (\<exists>old. ps_sizes S = Some old \<and> map_of old idx = Some sz))"
    and ledgers: "ps_ledgers S' = ps_ledgers S1"
  shows "newest_inv (seen @ rows) S'"
proof -
  have views: "\<forall>row \<in> set rows. row_view row \<noteq> None" using usable by (simp add: usable_def)
  note L = record_views_latest [OF views, where S = S, folded S1_def]
  have latest: "latest_seq S' = latest_seq S1" using ledgers by (simp add: latest_seq_def ledger_of_def fun_eq_iff)
  have fields: "position_row_index row = Inr i \<and> position_row_size row = Inr s \<and> row \<in> set rows"
    if "(i, s, ms, row) \<in> set parsed" for i s ms row
    using read_rows_fields [OF parsed] that by force
  have is_cur: "(i, s, ms, row) \<in> set cur \<longleftrightarrow> (i, s, ms, row) \<in> set parsed \<and> latest_seq S1 i \<le> view_seq row"
    for i s ms row
  proof (cases "(i, s, ms, row) \<in> set parsed")
    case True
    note f = fields [OF True]
    have "position_view_superseded S1 i row \<longleftrightarrow> view_seq row < latest_seq S1 i"
      using superseded_latest [of row i S1] record_views_entered [OF views] f views unfolding S1_def by blast
    then show ?thesis using True by (auto simp: cur_def not_superseded_def)
  qed (simp add: cur_def)
  have above: "view_seq row \<le> latest_seq S' idx"
    if "row \<in> set (seen @ rows)" "position_row_index row = Inr idx" for row idx
  proof (cases "row \<in> set rows")
    case True
    then show ?thesis using L(2) [of idx] that(2) unfolding latest by blast
  next
    case False
    then have "view_seq row \<le> latest_seq S idx" using that inv unfolding newest_inv_def by simp
    then show ?thesis using L(1) [of idx] unfolding latest by simp
  qed
  have "\<exists>row \<in> set (seen @ rows). position_row_index row = Inr idx \<and> position_row_size row = Inr sz \<and>
      view_seq row = latest_seq S' idx"
    if at: "ps_sizes S' = Some zs" "map_of zs idx = Some sz" for zs idx sz
    using sizes [OF at]
  proof
    assume "\<exists>(i, s, ms, row) \<in> set cur. i = idx \<and> s = sz"
    then obtain ms row where m: "(idx, sz, ms, row) \<in> set cur" by auto
    then have f: "position_row_index row = Inr idx" "position_row_size row = Inr sz" "row \<in> set rows"
      "latest_seq S1 idx \<le> view_seq row" using is_cur fields by blast+
    then have "view_seq row = latest_seq S' idx" using above [of row idx] unfolding latest by auto
    then show ?thesis using f by auto
  next
    assume a: "(\<forall>(i, s, ms, row) \<in> set cur. i \<noteq> idx) \<and> (\<exists>old. ps_sizes S = Some old \<and> map_of old idx = Some sz)"
    then obtain row where r: "row \<in> set seen" "position_row_index row = Inr idx" "position_row_size row = Inr sz"
      "view_seq row = latest_seq S idx" using inv unfolding newest_inv_def by blast
    have "latest_seq S1 idx = latest_seq S idx"
    proof (rule ccontr)
      assume "latest_seq S1 idx \<noteq> latest_seq S idx"
      then obtain r' where r': "r' \<in> set rows" "position_row_index r' = Inr idx" "view_seq r' = latest_seq S1 idx"
        using L(3) [of idx] by auto
      obtain s ms where "(idx, s, ms, r') \<in> set parsed"
        using read_rows_fields [OF parsed] r'(1,2) by (force simp: image_iff)
      then have "(idx, s, ms, r') \<in> set cur" using is_cur r'(3) by simp
      then show False using a by blast
    qed
    then show ?thesis using r unfolding latest by auto
  qed
  then show ?thesis using above unfolding newest_inv_def by blast
qed

lemma read_rows_ok: "\<forall>row \<in> set rows. usable row \<Longrightarrow> \<exists>parsed. res_map read_row rows = Inr parsed"
  by (induction rows) (auto simp: usable_def)

lemma ingest_step_newest:
  assumes "newest_inv seen S" and "\<forall>row \<in> set (snd x). usable row"
  shows "newest_inv (seen @ snd x) (ingest_step x S)"
proof (cases "snd x = []")
  case True
  then show ?thesis using assms(1) by (simp add: ingest_step_def ingest_position_sizes_def)
next
  case False
  obtain parsed where p: "res_map read_row (snd x) = Inr parsed" using read_rows_ok [OF assms(2)] by blast
  let ?S1 = "record_position_views (snd x) S"
  let ?cur = "filter (not_superseded ?S1) parsed"
  let ?old = "case ps_sizes ?S1 of None \<Rightarrow> [] | Some zs \<Rightarrow> zs"
  obtain zs m where z: "store_sizes ?cur ?old 0 = (zs, m)" by fastforce
  show ?thesis
  proof (cases "?cur = []")
    case True
    then have "ingest_step x S = ?S1"
      using False p by (simp add: ingest_step_def ingest_position_sizes_def)
    then show ?thesis
      by (intro ingest_batch_newest [OF assms p]) (auto simp: True)
  next
    case nonempty: False
    then have S': "ingest_step x S = ?S1\<lparr>ps_sizes := Some zs,
        ps_snapshot_ms := max (ps_snapshot_ms ?S1) (if m = 0 then fst x else m)\<rparr>"
      using False p z by (simp add: ingest_step_def ingest_position_sizes_def Let_def del: record_views_fields)
    show ?thesis
      unfolding S' by (intro ingest_batch_newest [OF assms p])
        (use store_sizes_get [OF z] in \<open>fastforce split: option.splits\<close>)+
  qed
qed

text \<open>
  C17. A delayed push never overrides a newer view: in whatever order sequenced position rows arrive,
  and however they are batched, the cached size of a leg is the size of a row with the highest
  sequence the leg has shown.
\<close>

theorem cache_follows_newest_view:
  assumes "\<forall>x \<in> set batches. \<forall>row \<in> set (snd x). usable row"
    and "ps_sizes (run_ops ingest_step batches new_positions) = Some sizes" and "map_of sizes idx = Some sz"
  shows "newest_of (concat (map snd batches)) idx sz"
proof -
  have "newest_inv (seen @ concat (map snd batches)) (run_ops ingest_step batches S)"
    if "newest_inv seen S" for seen S
    using that assms(1)
  proof (induction batches arbitrary: seen S)
    case Nil
    then show ?case by simp
  next
    case (Cons x xs)
    show ?case using Cons.IH [OF ingest_step_newest [OF Cons.prems(1), of x]] Cons.prems(2) by simp
  qed
  from this [of "[]" new_positions] show ?thesis
    using assms(2,3) newest_inv_cached by (simp add: newest_inv_def new_positions_def)
qed

definition example_position :: "string \<Rightarrow> string \<Rightarrow> jdict" where
  "example_position seq sz =
     [(''positionIdx'', PInt 1), (''side'', PStr ''Buy''), (''size'', PStr sz), (''updatedTime'', PStr ''5''),
      (''seq'', PStr seq)]"

theorem cache_follows_newest_view_witness:
  "newest_of [example_position ''9'' ''3'', example_position ''8'' ''0''] 1 3"
proof -
  let ?b = "[(7, [example_position ''9'' ''3'']), (8, [example_position ''8'' ''0''])]"
  have "case (row_view r, read_row r) of (Some v, Inr p) \<Rightarrow> True | _ \<Rightarrow> False"
    if "r = example_position ''9'' ''3'' \<or> r = example_position ''8'' ''0''" for r
    using that by (elim disjE) (simp_all only:, code_simp+)
  then have u: "\<forall>x \<in> set ?b. \<forall>row \<in> set (snd x). usable row"
    unfolding usable_def by (fastforce split: option.splits sum.splits)
  have "ps_sizes (run_ops ingest_step ?b new_positions) = Some [(1, 3)]" by code_simp
  from cache_follows_newest_view [OF u this] show ?thesis by simp
qed

end
