(* ===== verification/Journal.thy ===== *)
theory Journal
  imports Position_Reads "HOL-Library.Multiset"
begin

text \<open>
  The run's durable entry rows: the share of a derivative position it owns. Models the row netting of
  \<^verbatim>\<open>src/src/pynecore_bybit/events.py\<close> (\<open>_reduce_entry_ownership\<close>, \<open>_net_entry_row\<close>,
  \<open>_retire_cancelled_row\<close>) and the ownership functions of
  \<^verbatim>\<open>src/src/pynecore_bybit/positions.py\<close>. The broker store is the framework's: a parameter, given
  by the calls the plugin makes (the live rows, an update of a row's fields, which stands for
  \<open>upsert_order\<close> on an existing row and \<open>set_filled\<close>, the closing of a row, the end of a parked
  dispatch and the completion of an intent), with the laws of the locale \<open>order_store\<close> as the documented behaviour relied on. Audit events and logging are left out.
\<close>

section \<open>Rows and the store\<close>

record order_row =
  or_coid :: string
  or_side :: string
  or_qty :: rat
  or_filled :: rat
  or_state :: string
  or_pine_id :: "string option"
  or_from_entry :: "string option"
  or_order_id :: "string option"
  or_intent_key :: "string option"
  or_created_ms :: int
  or_extras :: "jdict option"

text \<open>The framework's constants the code compares with.\<close>

record framework =
  fc_entry_kinds :: "string list"
  fc_adopted_key :: string
  fc_pending_states :: "string list"
  fc_ledger_states :: "string list"

record 's store_ops =
  so_live :: "'s \<Rightarrow> order_row list"
  so_update :: "string \<Rightarrow> (order_row \<Rightarrow> order_row) \<Rightarrow> 's \<Rightarrow> 's"
  so_close :: "string \<Rightarrow> 's \<Rightarrow> 's"
  so_unpark :: "string \<Rightarrow> 's \<Rightarrow> 's"
  so_complete :: "string \<Rightarrow> 's \<Rightarrow> 's"

text \<open>\<open>row.extras or {}\<close> and the kind test on it\<close>

definition extras_of :: "order_row \<Rightarrow> jdict" where
  "extras_of r = (case or_extras r of None \<Rightarrow> [] | Some d \<Rightarrow> d)"

definition kind_in :: "string list \<Rightarrow> order_row \<Rightarrow> bool" where
  "kind_in kinds r \<longleftrightarrow> list_ex (\<lambda>k. jget (extras_of r) ''kind'' = PStr k) kinds"

definition is_entry_row :: "framework \<Rightarrow> order_row \<Rightarrow> bool" where
  "is_entry_row F r \<longleftrightarrow> kind_in (fc_entry_kinds F) r"

section \<open>What the run owns\<close>

definition owned_part :: "order_row \<Rightarrow> rat" where
  "owned_part r = (if or_filled r \<le> 0 then 0 else if or_side r = ''buy'' then or_filled r else - or_filled r)"

definition run_owned_signed_size :: "framework \<Rightarrow> order_row list \<Rightarrow> rat" where
  "run_owned_signed_size F rows =
     sum_list (map owned_part
       (filter (\<lambda>r. is_entry_row F r \<and> \<not> truthy (jget (extras_of r) (fc_adopted_key F))) rows))"

definition entry_side_of :: "string \<Rightarrow> string" where
  "entry_side_of side = (if side = ''sell'' then ''buy'' else ''sell'')"

text \<open>The live entry rows of a side that own exposure; \<open>clampable\<close> leaves the pending ones out.\<close>

definition owning :: "framework \<Rightarrow> string \<Rightarrow> order_row \<Rightarrow> bool" where
  "owning F side r \<longleftrightarrow> or_side r = side \<and> is_entry_row F r"

definition settled_owning :: "framework \<Rightarrow> string \<Rightarrow> order_row \<Rightarrow> bool" where
  "settled_owning F side r \<longleftrightarrow> owning F side r \<and> or_state r \<notin> set (fc_pending_states F)"

definition exposed :: "(order_row \<Rightarrow> bool) \<Rightarrow> order_row list \<Rightarrow> order_row list" where
  "exposed Q rows = filter (\<lambda>r. Q r \<and> or_filled r > FILL_EPS) rows"

definition exposure :: "(order_row \<Rightarrow> bool) \<Rightarrow> order_row list \<Rightarrow> rat" where
  "exposure Q rows = sum_list (map or_filled (exposed Q rows))"

definition entry_side_exposure :: "framework \<Rightarrow> string \<Rightarrow> order_row list \<Rightarrow> rat" where
  "entry_side_exposure F side rows = exposure (owning F (entry_side_of side)) rows"

definition reducible_rows :: "framework \<Rightarrow> string \<Rightarrow> order_row list \<Rightarrow> order_row list" where
  "reducible_rows F side rows = sort_key or_created_ms (exposed (owning F (entry_side_of side)) rows)"

definition clampable_entry_rows :: "framework \<Rightarrow> string \<Rightarrow> order_row list \<Rightarrow> order_row list" where
  "clampable_entry_rows F side rows = sort_key or_created_ms (exposed (settled_owning F side) rows)"

section \<open>Netting\<close>

text \<open>
  The extras of a netted row: the cumulative netted quantity grows by what was consumed. A non-finite
  value, which the plugin never writes, stays as it is.
\<close>

definition netted_extras :: "order_row \<Rightarrow> rat \<Rightarrow> jdict" where
  "netted_extras r consumed =
     (case venue_filled_qty (or_filled r) (or_extras r) of
        Fin v \<Rightarrow> AList.update ENTRY_NETTED_QTY_EXTRA (PFloat (v - or_filled r + consumed)) (extras_of r)
      | _ \<Rightarrow> extras_of r)"

definition netted_row :: "order_row \<Rightarrow> rat \<Rightarrow> order_row \<Rightarrow> order_row" where
  "netted_row row consumed r =
     r\<lparr>or_qty := or_qty row - consumed, or_filled := max 0 (or_filled row - consumed),
       or_extras := Some (netted_extras row consumed)\<rparr>"

definition net_entry_row :: "'s store_ops \<Rightarrow> order_row \<Rightarrow> rat \<Rightarrow> 's \<Rightarrow> 's" where
  "net_entry_row ops row consumed s =
     (if consumed \<le> 0 then s
      else if or_qty row - consumed \<le> FILL_EPS then so_close ops (or_coid row) s
      else so_update ops (or_coid row) (netted_row row consumed) s)"

fun net_entry_rows_fifo :: "'s store_ops \<Rightarrow> order_row list \<Rightarrow> rat \<Rightarrow> 's \<Rightarrow> 's" where
  "net_entry_rows_fifo ops [] remaining s = s"
| "net_entry_rows_fifo ops (row # rows) remaining s =
     (if remaining \<le> FILL_EPS then s
      else let consumed = min remaining (or_filled row)
        in net_entry_rows_fifo ops rows (remaining - consumed) (net_entry_row ops row consumed s))"

definition reduce_entry_ownership :: "framework \<Rightarrow> 's store_ops \<Rightarrow> string \<Rightarrow> rat \<Rightarrow> 's \<Rightarrow> 's" where
  "reduce_entry_ownership F ops side q s =
     (if q \<le> 0 then s
      else net_entry_rows_fifo ops (reducible_rows F side (so_live ops s)) q s)"

text \<open>The venue's size per side from the position rows; any other side is ignored.\<close>

fun venue_sides :: "jdict list \<Rightarrow> rat \<times> rat \<Rightarrow> raised + (rat \<times> rat)" where
  "venue_sides [] acc = Inr acc"
| "venue_sides (row # rows) (b, s) =
     res_bind (position_row_size row) (\<lambda>sz.
       let side = lower (jstr row ''side'') in
       venue_sides rows
         (if sz \<le> 0 then (b, s)
          else if side = ''buy'' then (b + sz, s)
          else if side = ''sell'' then (b, s + sz) else (b, s)))"

definition total_filled :: "order_row list \<Rightarrow> rat" where
  "total_filled rows = sum_list (map or_filled rows)"

definition clamp_side :: "framework \<Rightarrow> 's store_ops \<Rightarrow> string \<Rightarrow> rat \<Rightarrow> 's \<Rightarrow> 's" where
  "clamp_side F ops side venue s =
     (let rows = clampable_entry_rows F side (so_live ops s);
          excess = total_filled rows - venue
      in if excess \<le> FILL_EPS then s else net_entry_rows_fifo ops rows excess s)"

definition fold_side :: "framework \<Rightarrow> 's store_ops \<Rightarrow> string \<Rightarrow> rat \<Rightarrow> 's \<Rightarrow> 's" where
  "fold_side F ops side q s = net_entry_rows_fifo ops (clampable_entry_rows F side (so_live ops s)) q s"

definition fold_sides :: "framework \<Rightarrow> 's store_ops \<Rightarrow> 's \<Rightarrow> 's" where
  "fold_sides F ops s =
     (let rows = so_live ops s;
          folded = min (total_filled (clampable_entry_rows F ''buy'' rows))
                       (total_filled (clampable_entry_rows F ''sell'' rows))
      in if folded > FILL_EPS
         then fold_side F ops ''sell'' folded (fold_side F ops ''buy'' folded s) else s)"

definition clamp_entry_ownership_to_venue ::
    "framework \<Rightarrow> 's store_ops \<Rightarrow> bool \<Rightarrow> jdict list \<Rightarrow> 's \<Rightarrow> raised + 's" where
  "clamp_entry_ownership_to_venue F ops hedged rows s =
     res_bind (venue_sides rows (0, 0)) (\<lambda>(buy, sell).
       let net = buy - sell;
           (buy', sell') = (if hedged then (buy, sell) else (max net 0, max (- net) 0));
           s1 = (if hedged then s else fold_sides F ops s)
       in Inr (clamp_side F ops ''sell'' sell' (clamp_side F ops ''buy'' buy' s1)))"

section \<open>The store's laws and what netting does\<close>

text \<open>
  The client ids of the live rows are distinct, an update of a row's fields changes that row only and
  keeps the order, a closed row leaves the live rows, and neither the end of a parked dispatch nor the
  completion of an intent touches them. Functions that change the client id are not used.
\<close>

locale order_store =
  fixes ops :: "'s store_ops"
  assumes live_update: "(\<And>r. or_coid (f r) = or_coid r) \<Longrightarrow>
      so_live ops (so_update ops c f s) = map (\<lambda>r. if or_coid r = c then f r else r) (so_live ops s)"
    and live_close: "so_live ops (so_close ops c s) = filter (\<lambda>r. or_coid r \<noteq> c) (so_live ops s)"
    and live_unpark: "so_live ops (so_unpark ops c s) = so_live ops s"
    and live_complete: "so_live ops (so_complete ops k s) = so_live ops s"
    and live_distinct: "distinct (map or_coid (so_live ops s))"

text \<open>A predicate on rows that netting does not change.\<close>

definition net_stable :: "(order_row \<Rightarrow> bool) \<Rightarrow> bool" where
  "net_stable Q \<longleftrightarrow> (\<forall>row consumed. Q (netted_row row consumed row) = Q row)"

lemma netted_row_fields [simp]:
  "or_coid (netted_row row c r) = or_coid r" "or_side (netted_row row c r) = or_side r"
  "or_state (netted_row row c r) = or_state r" "or_created_ms (netted_row row c r) = or_created_ms r"
  "or_filled (netted_row row c r) = max 0 (or_filled row - c)"
  "or_qty (netted_row row c r) = or_qty row - c"
  by (simp_all add: netted_row_def)

lemma jget_update: "jget (AList.update k v d) k' = (if k' = k then v else jget d k')"
  by (simp add: jget_def update_conv)

lemma netted_key: "ENTRY_NETTED_QTY_EXTRA \<noteq> ''kind''"
  by (simp add: ENTRY_NETTED_QTY_EXTRA_def)

lemma kind_netted [simp]: "kind_in ks (netted_row row c row) = kind_in ks row"
  using netted_key
  by (auto simp: kind_in_def netted_row_def netted_extras_def extras_of_def jget_update list_ex_iff
      split: num.splits option.splits)

lemma net_stable_owning [simp]: "net_stable (owning F side)" "net_stable (settled_owning F side)"
  by (simp_all add: net_stable_def owning_def settled_owning_def is_entry_row_def)

text \<open>The exposure of rows: what removing or replacing one of them does.\<close>

lemma exposure_simps [simp]:
  "exposure Q [] = 0"
  "exposure Q (r # rows) = (if Q r \<and> or_filled r > FILL_EPS then or_filled r else 0) + exposure Q rows"
  by (simp_all add: exposure_def exposed_def)

lemma eps_pos: "FILL_EPS > 0"
  by (simp add: FILL_EPS_def)

lemma exposure_nonneg: "exposure Q rows \<ge> 0"
  using eps_pos by (induction rows) auto

lemma exposure_remove:
  assumes "distinct (map or_coid rows)" and "row \<in> set rows"
  shows "exposure Q (filter (\<lambda>r. or_coid r \<noteq> or_coid row) rows) =
    exposure Q rows - (if Q row \<and> or_filled row > FILL_EPS then or_filled row else 0)"
  using assms
proof (induction rows)
  case Nil
  then show ?case by simp
next
  case (Cons r rows)
  show ?case
  proof (cases "r = row")
    case True
    have "\<forall>x \<in> set rows. or_coid x \<noteq> or_coid row"
      using Cons.prems(1) True by (force simp: image_iff)
    then have "filter (\<lambda>x. or_coid x \<noteq> or_coid row) rows = rows"
      by (simp add: filter_id_conv)
    then show ?thesis using True by simp
  next
    case False
    then have "row \<in> set rows" "or_coid r \<noteq> or_coid row" using Cons.prems by auto
    then show ?thesis using Cons by simp
  qed
qed

lemma exposure_replace:
  assumes "distinct (map or_coid rows)" and "row \<in> set rows"
  shows "exposure Q (map (\<lambda>r. if or_coid r = or_coid row then f r else r) rows) =
    exposure Q rows - (if Q row \<and> or_filled row > FILL_EPS then or_filled row else 0)
      + (if Q (f row) \<and> or_filled (f row) > FILL_EPS then or_filled (f row) else 0)"
  using assms
proof (induction rows)
  case Nil
  then show ?case by simp
next
  case (Cons r rows)
  show ?case
  proof (cases "r = row")
    case True
    have "\<forall>x \<in> set rows. or_coid x \<noteq> or_coid row"
      using Cons.prems(1) True by (force simp: image_iff)
    then have "map (\<lambda>x. if or_coid x = or_coid row then f x else x) rows = rows"
      by (simp add: map_idI)
    then show ?thesis using True by simp
  next
    case False
    then have "row \<in> set rows" "or_coid r \<noteq> or_coid row" using Cons.prems by auto
    then show ?thesis using Cons by simp
  qed
qed

text \<open>Rows whose filled part is within their quantity.\<close>

definition well_filled :: "order_row list \<Rightarrow> bool" where
  "well_filled rows \<longleftrightarrow> (\<forall>r \<in> set rows. or_filled r \<le> or_qty r)"

context order_store
begin

lemma net_row_live:
  "so_live ops (net_entry_row ops row c s) =
     (if c \<le> 0 then so_live ops s
      else if or_qty row - c \<le> FILL_EPS then filter (\<lambda>r. or_coid r \<noteq> or_coid row) (so_live ops s)
      else map (\<lambda>r. if or_coid r = or_coid row then netted_row row c r else r) (so_live ops s))"
  by (simp add: net_entry_row_def live_update live_close)

text \<open>One step: the exposure under a stable predicate falls by what is consumed, up to the slack.\<close>

lemma net_row_exposure:
  assumes "row \<in> set (so_live ops s)" and "or_filled row \<le> or_qty row" and "0 < c" and "c \<le> or_filled row"
    and "net_stable Q" and "Q row" and "or_filled row > FILL_EPS"
  shows "exposure Q (so_live ops (net_entry_row ops row c s)) \<le> exposure Q (so_live ops s) - c"
    and "exposure Q (so_live ops s) - c - FILL_EPS \<le> exposure Q (so_live ops (net_entry_row ops row c s))"
    and "c = or_filled row \<Longrightarrow>
      exposure Q (so_live ops (net_entry_row ops row c s)) = exposure Q (so_live ops s) - c"
proof -
  have q: "Q (netted_row row c row)" using assms(5,6) by (simp add: net_stable_def)
  have e: "exposure Q (so_live ops (net_entry_row ops row c s)) =
    exposure Q (so_live ops s) - or_filled row +
      (if or_qty row - c \<le> FILL_EPS then 0
       else if or_filled row - c > FILL_EPS then or_filled row - c else 0)"
    using assms(3,4,6,7) q eps_pos
    by (auto simp: net_row_live exposure_remove [OF live_distinct assms(1)]
        exposure_replace [OF live_distinct assms(1)])
  show "exposure Q (so_live ops (net_entry_row ops row c s)) \<le> exposure Q (so_live ops s) - c"
    using e assms(2-4) by (auto split: if_splits)
  show "exposure Q (so_live ops s) - c - FILL_EPS \<le> exposure Q (so_live ops (net_entry_row ops row c s))"
    using e assms(2-4) eps_pos by (auto split: if_splits)
  show "exposure Q (so_live ops (net_entry_row ops row c s)) = exposure Q (so_live ops s) - c"
    if "c = or_filled row" using e that eps_pos by auto
qed

lemma net_row_other:
  assumes "row \<in> set (so_live ops s)" and "net_stable Q" and "\<not> Q row"
  shows "exposure Q (so_live ops (net_entry_row ops row c s)) = exposure Q (so_live ops s)"
proof -
  have "\<not> Q (netted_row row c row)" using assms(2,3) by (simp add: net_stable_def)
  then show ?thesis
    using assms(3) by (simp add: net_row_live exposure_remove [OF live_distinct assms(1)]
        exposure_replace [OF live_distinct assms(1)])
qed

lemma net_row_keeps:
  assumes "r \<in> set (so_live ops s)" and "or_coid r \<noteq> or_coid row"
  shows "r \<in> set (so_live ops (net_entry_row ops row c s))"
  using assms by (force simp: net_row_live)

lemma net_row_well_filled:
  assumes "well_filled (so_live ops s)" and "c \<le> or_filled row" and "or_filled row \<le> or_qty row"
  shows "well_filled (so_live ops (net_entry_row ops row c s))"
  using assms eps_pos by (auto simp: well_filled_def net_row_live)

end

text \<open>
  What the loop over the exposed rows of a predicate achieves: the exposure falls by the quantity, or
  to nothing, up to the slack; predicates that exclude the rows are untouched.
\<close>

definition nettable :: "(order_row \<Rightarrow> bool) \<Rightarrow> order_row list \<Rightarrow> order_row list \<Rightarrow> bool" where
  "nettable Q rows live \<longleftrightarrow> distinct (map or_coid rows) \<and> set rows \<subseteq> set live \<and>
     (\<forall>r \<in> set rows. Q r \<and> or_filled r > FILL_EPS \<and> or_filled r \<le> or_qty r)"

lemma nettable_exposed:
  assumes "distinct (map or_coid live)" and "well_filled live"
  shows "nettable Q (sort_key or_created_ms (exposed Q live)) live"
  using assms by (auto simp: nettable_def exposed_def well_filled_def distinct_map intro: inj_on_subset)

lemma total_exposed [simp]: "total_filled (sort_key or_created_ms (exposed Q live)) = exposure Q live"
proof -
  have "mset (map or_filled (sort_key or_created_ms (exposed Q live))) = mset (map or_filled (exposed Q live))"
    by simp
  then show ?thesis unfolding total_filled_def exposure_def by (metis sum_mset_sum_list)
qed

context order_store
begin

lemma nettable_next:
  assumes "nettable Q (row # rows) (so_live ops s)"
  shows "nettable Q rows (so_live ops (net_entry_row ops row c s))"
proof -
  have "set rows \<subseteq> set (so_live ops s)" "or_coid row \<notin> or_coid ` set rows"
    using assms by (simp_all add: nettable_def)
  have "set rows \<subseteq> set (so_live ops (net_entry_row ops row c s))"
  proof (intro subsetI)
    fix r
    assume r: "r \<in> set rows"
    have "or_coid r \<noteq> or_coid row"
      using r \<open>or_coid row \<notin> or_coid ` set rows\<close> by (auto simp: image_iff)
    then show "r \<in> set (so_live ops (net_entry_row ops row c s))"
      using r \<open>set rows \<subseteq> set (so_live ops s)\<close> by (intro net_row_keeps) auto
  qed
  then show ?thesis using assms by (simp add: nettable_def)
qed

lemma fifo_exposure:
  assumes "nettable Q rows (so_live ops s)" and "net_stable Q" and "0 \<le> q"
  shows "exposure Q (so_live ops (net_entry_rows_fifo ops rows q s))
       \<le> exposure Q (so_live ops s) - min q (total_filled rows) + FILL_EPS"
    and "exposure Q (so_live ops s) - min q (total_filled rows) - FILL_EPS
       \<le> exposure Q (so_live ops (net_entry_rows_fifo ops rows q s))"
proof -
  let ?E = "\<lambda>s. exposure Q (so_live ops s)"
  have "?E (net_entry_rows_fifo ops rows q s) \<le> ?E s - min q (total_filled rows) + FILL_EPS \<and>
      ?E s - min q (total_filled rows) - FILL_EPS \<le> ?E (net_entry_rows_fifo ops rows q s)"
    using assms(1,3)
  proof (induction rows arbitrary: q s)
    case Nil
    then show ?case using eps_pos by (simp add: total_filled_def)
  next
    case (Cons row rows)
    have row: "row \<in> set (so_live ops s)" "Q row" "or_filled row > FILL_EPS" "or_filled row \<le> or_qty row"
      using Cons.prems(1) by (auto simp: nettable_def)
    have nn: "0 \<le> total_filled rows"
      using Cons.prems(1) eps_pos by (force simp: nettable_def total_filled_def intro!: sum_list_nonneg)
    have tot: "total_filled (row # rows) = or_filled row + total_filled rows" by (simp add: total_filled_def)
    show ?case
    proof (cases "q \<le> FILL_EPS")
      case True
      then show ?thesis using Cons.prems(2) nn tot row eps_pos by (simp add: min_def)
    next
      case False
      define c where "c = min q (or_filled row)"
      have c: "0 < c" "c \<le> or_filled row" using False row eps_pos by (auto simp: c_def)
      let ?s = "net_entry_row ops row c s"
      have step: "net_entry_rows_fifo ops (row # rows) q s = net_entry_rows_fifo ops rows (q - c) ?s"
        using False by (simp add: c_def Let_def)
      note IH = Cons.IH [OF nettable_next [OF Cons.prems(1)], of "q - c" c]
      note one = net_row_exposure [OF row(1,4) c assms(2) row(2,3)]
      show ?thesis
      proof (cases "or_filled row \<le> q")
        case True
        then have "c = or_filled row" by (simp add: c_def)
        then show ?thesis using IH one(3) True unfolding step tot by (auto simp: min_def split: if_splits)
      next
        case less: False
        then have q: "c = q" by (simp add: c_def)
        have stop: "net_entry_rows_fifo ops rows (q - c) ?s = ?s"
          using eps_pos by (cases rows) (auto simp: q)
        show ?thesis using one(1,2) less nn eps_pos unfolding step stop tot by (simp add: q min_def)
      qed
    qed
  qed
  then show "?E (net_entry_rows_fifo ops rows q s) \<le> ?E s - min q (total_filled rows) + FILL_EPS"
    and "?E s - min q (total_filled rows) - FILL_EPS \<le> ?E (net_entry_rows_fifo ops rows q s)" by auto
qed

lemma fifo_other:
  assumes "nettable Q rows (so_live ops s)" and "net_stable P" and "\<And>r. Q r \<Longrightarrow> \<not> P r"
  shows "exposure P (so_live ops (net_entry_rows_fifo ops rows q s)) = exposure P (so_live ops s)"
  using assms(1)
proof (induction rows arbitrary: q s)
  case Nil
  then show ?case by simp
next
  case (Cons row rows)
  have "row \<in> set (so_live ops s)" "\<not> P row" using Cons.prems assms(3) by (auto simp: nettable_def)
  then show ?case
    using Cons.IH [OF nettable_next [OF Cons.prems]] net_row_other [OF _ assms(2)] by (simp add: Let_def)
qed

lemma fifo_well_filled:
  assumes "nettable Q rows (so_live ops s)" and "well_filled (so_live ops s)"
  shows "well_filled (so_live ops (net_entry_rows_fifo ops rows q s))"
  using assms
proof (induction rows arbitrary: q s)
  case Nil
  then show ?case by simp
next
  case (Cons row rows)
  let ?c = "min q (or_filled row)"
  have "well_filled (so_live ops (net_entry_row ops row ?c s))"
    using Cons.prems by (intro net_row_well_filled) (auto simp: nettable_def)
  then show ?case
    using Cons.IH [OF nettable_next [OF Cons.prems(1)]] Cons.prems(2) by (simp add: Let_def)
qed

text \<open>\<open>reduce_entry_ownership\<close> and one side of the clamp, in terms of the exposure.\<close>

lemma reduce_exposure:
  assumes "well_filled (so_live ops s)" and "0 \<le> q"
  shows "\<bar>entry_side_exposure F side (so_live ops (reduce_entry_ownership F ops side q s))
      - max 0 (entry_side_exposure F side (so_live ops s) - q)\<bar> \<le> FILL_EPS"
proof (cases "q = 0")
  case True
  then show ?thesis
    using eps_pos exposure_nonneg [of "owning F (entry_side_of side)" "so_live ops s"]
    by (simp add: reduce_entry_ownership_def entry_side_exposure_def)
next
  case False
  let ?Q = "owning F (entry_side_of side)"
  have q: "reduce_entry_ownership F ops side q s =
      net_entry_rows_fifo ops (sort_key or_created_ms (exposed ?Q (so_live ops s))) q s"
    using False assms(2) by (simp add: reduce_entry_ownership_def reducible_rows_def)
  show ?thesis
    using fifo_exposure [OF nettable_exposed [OF live_distinct assms(1)] net_stable_owning(1) assms(2),
        of F "entry_side_of side"]
    unfolding q total_exposed entry_side_exposure_def abs_le_iff by (auto simp: min_def max_def split: if_splits)
qed

lemma clamp_side_exposure:
  assumes "well_filled (so_live ops s)" and "0 \<le> venue"
  shows "exposure (settled_owning F side) (so_live ops (clamp_side F ops side venue s)) \<le> venue + FILL_EPS"
proof -
  let ?Q = "settled_owning F side"
  let ?E = "exposure ?Q (so_live ops s)"
  have tot: "total_filled (clampable_entry_rows F side (so_live ops s)) = ?E"
    by (simp add: clampable_entry_rows_def)
  show ?thesis
  proof (cases "?E - venue \<le> FILL_EPS")
    case True
    then show ?thesis by (simp add: clamp_side_def tot)
  next
    case False
    have "exposure ?Q (so_live ops (net_entry_rows_fifo ops (clampable_entry_rows F side (so_live ops s)) (?E - venue) s))
        \<le> ?E - min (?E - venue) ?E + FILL_EPS"
      using fifo_exposure(1) [OF nettable_exposed [OF live_distinct assms(1)] net_stable_owning(2),
          of "?E - venue" F side] False eps_pos
      unfolding clampable_entry_rows_def total_exposed by simp
    then show ?thesis using False assms(2) by (simp add: clamp_side_def tot Let_def min_def)
  qed
qed

lemma clamp_side_other:
  assumes "well_filled (so_live ops s)" and "side \<noteq> other"
  shows "exposure (settled_owning F other) (so_live ops (clamp_side F ops side venue s)) =
    exposure (settled_owning F other) (so_live ops s)"
proof -
  have ex: "\<not> settled_owning F other r" if "settled_owning F side r" for r
    using that assms(2) by (auto simp: settled_owning_def owning_def)
  show ?thesis
    using fifo_other [OF nettable_exposed [OF live_distinct assms(1)] net_stable_owning(2) ex]
    by (simp add: clamp_side_def Let_def clampable_entry_rows_def)
qed

lemma clamp_side_well_filled:
  "well_filled (so_live ops s) \<Longrightarrow> well_filled (so_live ops (clamp_side F ops side venue s))"
  using fifo_well_filled [OF nettable_exposed [OF live_distinct]]
  by (simp add: clamp_side_def Let_def clampable_entry_rows_def)

lemma fold_side_well_filled:
  "well_filled (so_live ops s) \<Longrightarrow> well_filled (so_live ops (fold_side F ops side q s))"
  using fifo_well_filled [OF nettable_exposed [OF live_distinct]]
  by (simp add: fold_side_def clampable_entry_rows_def)

end

text \<open>What netting leaves of a row: the same order with its venue cursor and unfilled remainder.\<close>

definition same_order :: "order_row \<Rightarrow> order_row \<Rightarrow> bool" where
  "same_order r r' \<longleftrightarrow> or_coid r' = or_coid r \<and> or_side r' = or_side r \<and>
     venue_filled_qty (or_filled r') (or_extras r') = venue_filled_qty (or_filled r) (or_extras r) \<and>
     or_qty r' - or_filled r' = or_qty r - or_filled r"

definition nets_only :: "order_row list \<Rightarrow> order_row list \<Rightarrow> bool" where
  "nets_only before after \<longleftrightarrow>
     (\<forall>r' \<in> set after. \<exists>r \<in> set before. same_order r r') \<and>
     (\<forall>r \<in> set before. (\<exists>r' \<in> set after. same_order r r') \<or> or_qty r - or_filled r \<le> FILL_EPS)"

lemma same_order_refl [simp]: "same_order r r"
  by (simp add: same_order_def)

lemma same_order_trans: "same_order a b \<Longrightarrow> same_order b c \<Longrightarrow> same_order a c"
  by (simp add: same_order_def)

lemma nets_only_refl [simp]: "nets_only rows rows"
  by (auto simp: nets_only_def intro: same_order_refl)

lemma nets_only_trans:
  assumes "nets_only a b" and "nets_only b c"
  shows "nets_only a c"
proof -
  have "\<exists>x \<in> set a. same_order x z" if "z \<in> set c" for z
    using that assms same_order_trans unfolding nets_only_def by blast
  moreover have "(\<exists>z \<in> set c. same_order x z) \<or> or_qty x - or_filled x \<le> FILL_EPS" if "x \<in> set a" for x
  proof (cases "\<exists>y \<in> set b. same_order x y")
    case True
    then obtain y where y: "y \<in> set b" "same_order x y" by blast
    then have "or_qty y - or_filled y = or_qty x - or_filled x" by (simp add: same_order_def)
    moreover have "(\<exists>z \<in> set c. same_order y z) \<or> or_qty y - or_filled y \<le> FILL_EPS"
      using assms(2) y(1) by (simp add: nets_only_def)
    ultimately show ?thesis using same_order_trans [OF y(2)] by metis
  next
    case False
    then show ?thesis using assms(1) that unfolding nets_only_def by blast
  qed
  ultimately show ?thesis by (simp add: nets_only_def)
qed

lemma same_order_netted:
  assumes "c \<le> or_filled row"
  shows "same_order row (netted_row row c row)"
proof -
  have f: "max 0 (or_filled row - c) = or_filled row - c" using assms by simp
  have "venue_filled_qty (or_filled row - c) (Some (netted_extras row c)) =
      venue_filled_qty (or_filled row) (or_extras row)"
    by (cases "venue_filled_qty (or_filled row) (or_extras row)")
      (auto simp: netted_extras_def venue_filled_qty_def num_add_def jget_update extras_of_def Let_def
        split: num.splits sum.splits option.splits if_splits)
  then show ?thesis by (simp add: same_order_def netted_row_def f)
qed

text \<open>A concrete store: a list of rows, of which the first with a client id counts.\<close>

fun dedup :: "order_row list \<Rightarrow> order_row list" where
  "dedup [] = []"
| "dedup (r # rs) = r # filter (\<lambda>x. or_coid x \<noteq> or_coid r) (dedup rs)"

definition row_list_store :: "order_row list store_ops" where
  "row_list_store =
     \<lparr>so_live = dedup,
      so_update = (\<lambda>c f rows. map (\<lambda>r. if or_coid r = c then f r else r) rows),
      so_close = (\<lambda>c rows. filter (\<lambda>r. or_coid r \<noteq> c) rows),
      so_unpark = (\<lambda>c rows. rows), so_complete = (\<lambda>k rows. rows)\<rparr>"

lemma dedup_distinct: "distinct (map or_coid (dedup rows))"
  by (induction rows) (auto simp: distinct_map inj_on_def)

lemma dedup_map:
  "(\<And>r. or_coid (g r) = or_coid r) \<Longrightarrow> dedup (map g rows) = map g (dedup rows)"
  by (induction rows) (auto simp: filter_map comp_def)

lemma dedup_filter: "dedup (filter (\<lambda>r. or_coid r \<noteq> c) rows) = filter (\<lambda>r. or_coid r \<noteq> c) (dedup rows)"
  by (induction rows) (auto simp: conj_commute filter_empty_conv intro: filter_cong)

interpretation row_list: order_store row_list_store
  by unfold_locales (auto simp: row_list_store_def dedup_map dedup_filter dedup_distinct)

context order_store
begin

lemma net_row_nets_only:
  assumes "row \<in> set (so_live ops s)" and "c \<le> or_filled row"
  shows "nets_only (so_live ops s) (so_live ops (net_entry_row ops row c s))"
proof -
  have row: "r = row" if "r \<in> set (so_live ops s)" "or_coid r = or_coid row" for r
    using that assms(1) live_distinct [of s] by (metis distinct_map inj_on_def)
  consider "c \<le> 0" | "0 < c" "or_qty row - c \<le> FILL_EPS" | "0 < c" "FILL_EPS < or_qty row - c" by linarith
  then show ?thesis
  proof cases
    case 1
    then show ?thesis by (simp add: net_row_live)
  next
    case 2
    have "or_qty r - or_filled r \<le> FILL_EPS" if "r \<in> set (so_live ops s)" "or_coid r = or_coid row" for r
      using row [OF that] 2 assms(2) by simp
    then show ?thesis using 2 by (auto simp: net_row_live nets_only_def intro: same_order_refl)
  next
    case 3
    define g where "g = (\<lambda>r. if or_coid r = or_coid row then netted_row row c r else r)"
    have "same_order r (g r)" if "r \<in> set (so_live ops s)" for r
      using row [OF that] same_order_netted [OF assms(2)] by (auto simp: g_def)
    moreover have "so_live ops (net_entry_row ops row c s) = map g (so_live ops s)"
      using 3 by (simp add: net_row_live g_def)
    ultimately show ?thesis by (auto simp: nets_only_def)
  qed
qed

lemma fifo_nets_only:
  assumes "nettable Q rows (so_live ops s)"
  shows "nets_only (so_live ops s) (so_live ops (net_entry_rows_fifo ops rows q s))"
  using assms
proof (induction rows arbitrary: q s)
  case Nil
  then show ?case by simp
next
  case (Cons row rows)
  let ?c = "min q (or_filled row)"
  have "nets_only (so_live ops s) (so_live ops (net_entry_row ops row ?c s))"
    using Cons.prems by (intro net_row_nets_only) (auto simp: nettable_def)
  then show ?case
    using nets_only_trans [OF _ Cons.IH [OF nettable_next [OF Cons.prems]]] by (simp add: Let_def)
qed

lemma reduce_nets_only:
  assumes "well_filled (so_live ops s)"
  shows "nets_only (so_live ops s) (so_live ops (reduce_entry_ownership F ops side q s))"
  using fifo_nets_only [OF nettable_exposed [OF live_distinct assms]]
  by (simp add: reduce_entry_ownership_def reducible_rows_def)

lemma reduce_other_side:
  assumes "well_filled (so_live ops s)" and "other \<noteq> entry_side_of side"
  shows "exposure (owning F other) (so_live ops (reduce_entry_ownership F ops side q s)) =
    exposure (owning F other) (so_live ops s)"
proof -
  have ex: "\<not> owning F other r" if "owning F (entry_side_of side) r" for r
    using that assms(2) by (auto simp: owning_def)
  show ?thesis
    using fifo_other [OF nettable_exposed [OF live_distinct assms(1)] net_stable_owning(1) ex]
    by (simp add: reduce_entry_ownership_def reducible_rows_def)
qed

lemma clamp_within_venue:
  assumes "well_filled (so_live ops s)" and "0 \<le> b" and "0 \<le> v"
  shows "exposure (settled_owning F ''buy'')
      (so_live ops (clamp_side F ops ''sell'' v (clamp_side F ops ''buy'' b s))) \<le> b + FILL_EPS"
    and "exposure (settled_owning F ''sell'')
      (so_live ops (clamp_side F ops ''sell'' v (clamp_side F ops ''buy'' b s))) \<le> v + FILL_EPS"
proof -
  let ?s = "clamp_side F ops ''buy'' b s"
  have w: "well_filled (so_live ops ?s)" by (rule clamp_side_well_filled [OF assms(1)])
  show "exposure (settled_owning F ''sell'') (so_live ops (clamp_side F ops ''sell'' v ?s)) \<le> v + FILL_EPS"
    by (rule clamp_side_exposure [OF w assms(3)])
  show "exposure (settled_owning F ''buy'') (so_live ops (clamp_side F ops ''sell'' v ?s)) \<le> b + FILL_EPS"
    using clamp_side_exposure [OF assms(1,2)] clamp_side_other [OF w] by simp
qed

end

section \<open>Hedge rows scoped to the run\<close>

text \<open>\<open>Decimal(str(x))\<close> of a float: the digits \<open>repr\<close> shows.\<close>

definition float_dec :: "rat \<Rightarrow> dec" where
  "float_dec r = (let k = max 1 (decimals 400 \<bar>r\<bar>) in (trunc (r * 10 ^ k), - int k))"

definition projected_row :: "rat \<Rightarrow> jdict \<Rightarrow> jdict" where
  "projected_row scoped row = AList.update ''size'' (PStr (format_decimal (float_dec scoped))) row"

fun scope_rows :: "int \<Rightarrow> rat \<Rightarrow> jdict list \<Rightarrow> raised + jdict list" where
  "scope_rows wanted_idx share [] = Inr []"
| "scope_rows wanted_idx share (row # rows) =
     res_bind (position_row_index row) (\<lambda>idx.
       if idx \<noteq> wanted_idx then scope_rows wanted_idx share rows
       else res_bind (position_row_size row) (\<lambda>physical.
         let scoped = min \<bar>share\<bar> physical in
         if scoped \<le> FILL_EPS then Inr [] else Inr [projected_row scoped row]))"

text \<open>The live rows, \<open>None\<close> without a store.\<close>

definition scope_hedge_rows_to_run ::
    "framework \<Rightarrow> order_row list option \<Rightarrow> jdict list \<Rightarrow> raised + jdict list" where
  "scope_hedge_rows_to_run F live rows =
     (case live of
        None \<Rightarrow> Inr rows
      | Some journal \<Rightarrow>
          (let share = run_owned_signed_size F journal in
           if \<bar>share\<bar> \<le> FILL_EPS then Inr []
           else scope_rows (if share > 0 then HEDGE_IDX_BUY else HEDGE_IDX_SELL) share rows))"

text \<open>A written size reads back: plain decimal text means the same to \<open>float\<close> and to \<open>Decimal\<close>.\<close>

lemma parse_float_of_dec:
  assumes "parse_dec s = Inr (Fin v)" and "CHR ''_'' \<notin> set s"
  shows "parse_float s = Inr (Fin v)"
proof -
  have sub: "set (strip s) \<subseteq> set s"
    unfolding strip_def lstrip_def by (auto dest!: set_dropWhileD)
  have "filter (\<lambda>c. c \<noteq> CHR ''_'') (strip s) = strip s"
    using sub assms(2) by (auto simp: filter_id_conv)
  moreover have "is_nan_text ''nan''" by code_simp
  ultimately show ?thesis
    using assms(1) by (auto simp: parse_dec_def parse_float_def Let_def split: prod.splits if_splits option.splits)
qed

lemma plain_chars: "set (format_decimal d) \<subseteq> {c. is_digit c} \<union> {CHR ''.'', CHR ''-''}"
proof -
  have n: "set (nat_str n) \<subseteq> {c. is_digit c}" for n using nat_str_digits [of n] by (auto simp: list_all_iff)
  have z: "is_digit (CHR ''0'')" by code_simp
  have r: "set (rstrip c s) \<subseteq> set s" for c s by (auto simp: rstrip_def dest!: set_dropWhileD)
  have f: "set (format_f d) \<subseteq> {c. is_digit c} \<union> {CHR ''.'', CHR ''-''}"
    using n z by (auto simp: format_f_def sign_text_def plain_digits_def pad_left_def)
  then show ?thesis using r z unfolding format_decimal_def Let_def by (auto dest!: set_mp [OF r])
qed

lemma format_decimal_float: "py_float (PStr (format_decimal d)) = Inr (Fin (dec_val d))"
proof -
  have "CHR ''_'' \<notin> set (format_decimal d)"
    using plain_chars [of d] digit_not_sign by auto
  then show ?thesis using parse_float_of_dec [OF format_decimal_parses] by simp
qed

text \<open>Values with at most 400 decimals, as every finite double: their text is exact.\<close>

definition is_decimal :: "rat \<Rightarrow> bool" where
  "is_decimal r \<longleftrightarrow> (\<exists>k \<le> 400. r * 10 ^ k \<in> \<int>)"

lemma is_decimal_abs: "is_decimal r \<Longrightarrow> is_decimal \<bar>r\<bar>"
  unfolding is_decimal_def abs_if by (auto simp: minus_in_Ints_iff)

lemma decimals_exact: "r * 10 ^ k \<in> \<int> \<Longrightarrow> k \<le> n \<Longrightarrow> r * 10 ^ decimals n r \<in> \<int>"
proof (induction n r arbitrary: k rule: decimals.induct)
  case (1 r)
  then show ?case by simp
next
  case (2 n r)
  show ?case
  proof (cases "r = of_int \<lfloor>r\<rfloor>")
    case True
    then show ?thesis by simp (metis Ints_of_int)
  next
    case False
    then have "k \<noteq> 0" using "2.prems"(1) by (metis Ints_cases floor_of_int mult.right_neutral power_0)
    then obtain j where j: "k = Suc j" by (cases k) auto
    then have "r * 10 * 10 ^ j \<in> \<int>" using "2.prems"(1) by (simp add: mult.assoc)
    then show ?thesis using "2.IH" [OF False, of j] "2.prems"(2) j False by (simp add: mult.assoc)
  qed
qed

lemma float_dec_val:
  assumes "is_decimal r" and "0 \<le> r"
  shows "dec_val (float_dec r) = r"
proof -
  let ?d = "decimals 400 r" let ?k = "max 1 ?d"
  have "r * 10 ^ ?d \<in> \<int>" using assms(1) decimals_exact unfolding is_decimal_def by blast
  then have "(r * 10 ^ ?d) * 10 ^ (?k - ?d) \<in> \<int>"
    by (rule Ints_mult) simp
  moreover have "(10::rat) ^ ?k = 10 ^ ?d * 10 ^ (?k - ?d)"
    by (subst power_add [symmetric]) simp
  ultimately have "r * 10 ^ ?k \<in> \<int>" by (simp only: mult.assoc)
  then obtain i where i: "r * 10 ^ ?k = of_int i" by (auto elim: Ints_cases)
  have "0 \<le> r * 10 ^ ?k" using assms(2) by simp
  then have "trunc (r * 10 ^ ?k) = i" unfolding i by (simp add: trunc_def)
  then have "dec_val (float_dec r) = of_int i * (1 / 10 ^ ?k)"
    using assms(2) by (simp add: float_dec_def dec_val_def ten_pow_def Let_def)
  also have "\<dots> = r" unfolding i [symmetric] by simp
  finally show ?thesis .
qed

lemma projected_row_size:
  assumes "is_decimal v" and "0 \<le> v"
  shows "position_row_size (projected_row v row) = Inr v"
proof -
  have n: "format_decimal (float_dec v) \<noteq> []"
  proof
    assume e: "format_decimal (float_dec v) = []"
    have "parse_dec [] = Inl InvalidOperation" by code_simp
    then show False using format_decimal_parses [of "float_dec v"] by (simp add: e)
  qed
  have j: "jget (projected_row v row) ''size'' = PStr (format_decimal (float_dec v))"
    by (simp add: projected_row_def jget_update)
  show ?thesis
    using assms(2) n format_decimal_float [of "float_dec v"]
    by (simp add: position_row_size_def j wire_float_def float_dec_val [OF assms])
qed

lemma projected_row_index: "position_row_index (projected_row v row) = position_row_index row"
  by (simp add: position_row_index_def projected_row_def jget_update)

lemma scope_rows_result:
  "scope_rows idx share rows = Inr out \<Longrightarrow>
     out = [] \<or> (\<exists>row \<in> set rows. \<exists>physical. position_row_index row = Inr idx \<and>
       position_row_size row = Inr physical \<and> FILL_EPS < min \<bar>share\<bar> physical \<and>
       out = [projected_row (min \<bar>share\<bar> physical) row])"
proof (induction idx share rows rule: scope_rows.induct)
  case (1 idx share)
  then show ?case by simp
next
  case (2 idx share row rows)
  show ?case
  proof (cases "position_row_index row = Inr idx")
    case True
    then show ?thesis using "2.prems" by (auto simp: res_bind_Inr_iff Let_def split: if_splits)
  next
    case False
    then obtain i where "position_row_index row = Inr i" "i \<noteq> idx"
      using "2.prems" by (auto simp: res_bind_Inr_iff)
    then show ?thesis using 2 by auto
  qed
qed

section \<open>Properties\<close>

text \<open>
  C18. A reducing fill takes exactly its quantity out of the run's entry rows, oldest first: the owned
  exposure of the reduced side falls by the quantity, or to zero, up to the fill tolerance, the other
  side keeps its exposure.
\<close>

theorem reduce_takes_its_quantity:
  assumes "order_store ops" and "well_filled (so_live ops s)" and "0 \<le> q" and "other \<noteq> entry_side_of side"
  shows "\<bar>entry_side_exposure F side (so_live ops (reduce_entry_ownership F ops side q s))
      - max 0 (entry_side_exposure F side (so_live ops s) - q)\<bar> \<le> FILL_EPS \<and>
    exposure (owning F other) (so_live ops (reduce_entry_ownership F ops side q s)) =
      exposure (owning F other) (so_live ops s)"
  using order_store.reduce_exposure [OF assms(1-3)] order_store.reduce_other_side [OF assms(1,2,4)] by blast

text \<open>
  C19. Netting touches the owned part only: every surviving row stands for an order from before, with
  the venue-domain fill cursor and the unfilled remainder it had, and a row that is retired had no
  working remainder, so no later fill of a live order is taken for covered.
\<close>

theorem netting_keeps_venue_cursor:
  assumes "order_store ops" and "well_filled (so_live ops s)"
  shows "nets_only (so_live ops s) (so_live ops (reduce_entry_ownership F ops side q s))"
  using order_store.reduce_nets_only [OF assms] .

definition venue_share :: "bool \<Rightarrow> rat \<times> rat \<Rightarrow> rat \<times> rat" where
  "venue_share hedged v = (if hedged then v else (max (fst v - snd v) 0, max (snd v - fst v) 0))"

lemma venue_sides_nonneg:
  "venue_sides rows (b, s) = Inr (b', s') \<Longrightarrow> 0 \<le> b \<Longrightarrow> 0 \<le> s \<Longrightarrow> 0 \<le> b' \<and> 0 \<le> s'"
  by (induction rows arbitrary: b s) (auto simp: res_bind_Inr_iff Let_def split: if_splits)

text \<open>
  C20. After the adoption clamp the run owns no more than the venue holds: on a hedge account each
  side is within its leg, on a one-way account each side is within the venue's signed net, up to the
  fill tolerance.
\<close>

theorem clamp_never_exceeds_venue:
  assumes "order_store ops" and "well_filled (so_live ops s)" and "venue_sides rows (0, 0) = Inr v"
    and "clamp_entry_ownership_to_venue F ops hedged rows s = Inr s'"
  shows "exposure (settled_owning F ''buy'') (so_live ops s') \<le> fst (venue_share hedged v) + FILL_EPS \<and>
    exposure (settled_owning F ''sell'') (so_live ops s') \<le> snd (venue_share hedged v) + FILL_EPS"
proof -
  obtain b v' where v: "v = (b, v')" "0 \<le> b" "0 \<le> v'"
    using venue_sides_nonneg [of rows 0 0 "fst v" "snd v"] assms(3) by (cases v) auto
  define s1 where "s1 = (if hedged then s else fold_sides F ops s)"
  have w: "well_filled (so_live ops s1)"
    using assms(2) order_store.fold_side_well_filled [OF assms(1)]
    by (simp add: s1_def fold_sides_def Let_def)
  have s': "s' = clamp_side F ops ''sell'' (snd (venue_share hedged v))
      (clamp_side F ops ''buy'' (fst (venue_share hedged v)) s1)"
    using assms(3,4)
    by (auto simp: clamp_entry_ownership_to_venue_def v(1) venue_share_def s1_def Let_def)
  have "0 \<le> fst (venue_share hedged v)" "0 \<le> snd (venue_share hedged v)"
    using v by (simp_all add: venue_share_def)
  then show ?thesis
    using order_store.clamp_within_venue [OF assms(1) w] unfolding s' by blast
qed

text \<open>
  C21. On a hedge account the run acts on its own slice only: the scoped view has at most one leg, on
  the run's side, of a size that is neither above its share nor above the physical leg; without a
  share it is empty, whatever anybody else holds.
\<close>

theorem scoped_leg_is_own_slice:
  assumes "scope_hedge_rows_to_run F (Some journal) rows = Inr out" and "is_decimal (run_owned_signed_size F journal)"
    and "\<forall>row \<in> set rows. \<forall>sz. position_row_size row = Inr sz \<longrightarrow> is_decimal sz"
  defines "share \<equiv> run_owned_signed_size F journal"
  shows "out = [] \<or> (\<exists>leg row physical. out = [leg] \<and> row \<in> set rows \<and> FILL_EPS < \<bar>share\<bar> \<and>
    position_row_index leg = Inr (if share > 0 then HEDGE_IDX_BUY else HEDGE_IDX_SELL) \<and>
    position_row_index row = position_row_index leg \<and> position_row_size row = Inr physical \<and>
    position_row_size leg = Inr (min \<bar>share\<bar> physical))"
proof (cases "\<bar>share\<bar> \<le> FILL_EPS")
  case True
  then show ?thesis using assms(1) by (simp add: scope_hedge_rows_to_run_def share_def)
next
  case False
  let ?idx = "if share > 0 then HEDGE_IDX_BUY else HEDGE_IDX_SELL"
  have sc: "scope_rows ?idx share rows = Inr out"
    using assms(1) False by (simp add: scope_hedge_rows_to_run_def share_def Let_def)
  show ?thesis
  proof (cases "out = []")
    case True
    then show ?thesis ..
  next
    case nonempty: False
    obtain row physical where r: "row \<in> set rows" "position_row_index row = Inr ?idx"
      "position_row_size row = Inr physical" "FILL_EPS < min \<bar>share\<bar> physical"
      "out = [projected_row (min \<bar>share\<bar> physical) row]"
      using scope_rows_result [OF sc] nonempty by blast
    have "is_decimal \<bar>share\<bar>"
      using assms(2) is_decimal_abs by (simp add: share_def)
    then have "is_decimal (min \<bar>share\<bar> physical)" using assms(3) r(1,3) by (simp add: min_def)
    moreover have "0 \<le> min \<bar>share\<bar> physical" using r(4) eps_pos by simp
    ultimately have "position_row_size (projected_row (min \<bar>share\<bar> physical) row) = Inr (min \<bar>share\<bar> physical)"
      by (rule projected_row_size)
    moreover have "position_row_index (projected_row (min \<bar>share\<bar> physical) row) = Inr ?idx"
      using r(2) by (simp only: projected_row_index)
    ultimately have "out = [projected_row (min \<bar>share\<bar> physical) row] \<and> row \<in> set rows \<and> FILL_EPS < \<bar>share\<bar> \<and>
        position_row_index (projected_row (min \<bar>share\<bar> physical) row) = Inr ?idx \<and>
        position_row_index row = position_row_index (projected_row (min \<bar>share\<bar> physical) row) \<and>
        position_row_size row = Inr physical \<and>
        position_row_size (projected_row (min \<bar>share\<bar> physical) row) = Inr (min \<bar>share\<bar> physical)"
      using r(1-3,5) False by (simp only: not_le projected_row_index simp_thms)
    then show ?thesis by (intro disjI2 exI)
  qed
qed

text \<open>Concrete rows: a run that bought 3 in two entries, one of them still working.\<close>

definition example_framework :: framework where
  "example_framework =
     \<lparr>fc_entry_kinds = [''position'', ''working''], fc_adopted_key = ''adopted'',
      fc_pending_states = [''submitted''], fc_ledger_states = [''ledger'']\<rparr>"

definition example_entry_row :: "string \<Rightarrow> rat \<Rightarrow> rat \<Rightarrow> int \<Rightarrow> order_row" where
  "example_entry_row c q f t =
     \<lparr>or_coid = c, or_side = ''buy'', or_qty = q, or_filled = f, or_state = ''confirmed'', or_pine_id = None,
      or_from_entry = None, or_order_id = None, or_intent_key = None, or_created_ms = t,
      or_extras = Some [(''kind'', PStr ''position'')]\<rparr>"

definition example_journal :: "order_row list" where
  "example_journal = [example_entry_row ''b'' 5 2 20, example_entry_row ''a'' 1 1 10]"

lemma example_journal_live: "so_live row_list_store example_journal = example_journal"
  by (simp add: row_list_store_def example_journal_def example_entry_row_def)

lemma example_well_filled: "well_filled (so_live row_list_store example_journal)"
  unfolding example_journal_live by (simp add: well_filled_def example_journal_def example_entry_row_def)

theorem reduce_takes_its_quantity_witness:
  "\<bar>entry_side_exposure example_framework ''sell'' (so_live row_list_store
      (reduce_entry_ownership example_framework row_list_store ''sell'' 2 example_journal)) - 1\<bar> \<le> FILL_EPS"
proof -
  have e: "entry_side_exposure example_framework ''sell'' (so_live row_list_store example_journal) = 3"
    unfolding example_journal_live by code_simp
  show ?thesis
    using reduce_takes_its_quantity [OF row_list.order_store_axioms example_well_filled,
        of 2 "''sell''" "''sell''" example_framework]
    by (simp add: e entry_side_of_def)
qed

theorem netting_keeps_venue_cursor_witness:
  "nets_only example_journal (so_live row_list_store
     (reduce_entry_ownership example_framework row_list_store ''sell'' 2 example_journal))"
  using netting_keeps_venue_cursor [OF row_list.order_store_axioms example_well_filled] example_journal_live
  by simp

theorem clamp_never_exceeds_venue_witness:
  "\<exists>s'. clamp_entry_ownership_to_venue example_framework row_list_store True [example_position ''9'' ''1''] example_journal
      = Inr s' \<and> exposure (settled_owning example_framework ''buy'') (so_live row_list_store s') \<le> 1 + FILL_EPS"
proof -
  have v: "venue_sides [example_position ''9'' ''1''] (0, 0) = Inr (1, 0)" by code_simp
  then obtain s' where s': "clamp_entry_ownership_to_venue example_framework row_list_store True
      [example_position ''9'' ''1''] example_journal = Inr s'"
    by (simp add: clamp_entry_ownership_to_venue_def)
  from clamp_never_exceeds_venue [OF row_list.order_store_axioms example_well_filled v this] s' show ?thesis
    by (simp add: venue_share_def)
qed

theorem scoped_leg_is_own_slice_witness:
  "\<exists>out. scope_hedge_rows_to_run example_framework (Some example_journal) [example_position ''9'' ''7''] = Inr out \<and>
     out \<noteq> [] \<and> (\<forall>leg \<in> set out. position_row_size leg = Inr 3)"
proof -
  have own: "run_owned_signed_size example_framework example_journal = 3" by code_simp
  have sz: "position_row_size (example_position ''9'' ''7'') = Inr 7"
    and ix: "position_row_index (example_position ''9'' ''7'') = Inr 1" by code_simp+
  then obtain out where out: "scope_hedge_rows_to_run example_framework (Some example_journal)
      [example_position ''9'' ''7''] = Inr out" "out \<noteq> []"
    by (simp add: scope_hedge_rows_to_run_def own idx_defs FILL_EPS_def Let_def)
  have dec: "is_decimal 3" "is_decimal 7" unfolding is_decimal_def by (intro exI [of _ 0], simp)+
  from scoped_leg_is_own_slice [OF out(1)] show ?thesis
    using out by (auto simp: own sz dec)
qed

end
