(* ===== verification/Inverse_Sizing.thy ===== *)
theory Inverse_Sizing
  imports Journal
begin

text \<open>
  Order sizes of \<^verbatim>\<open>src/src/pynecore_bybit/execution.py\<close> (the grid, the venue's bounds and the
  conversion between base quantities and inverse contracts) and the inverse net-position mirror of
  \<^verbatim>\<open>src/src/pynecore_bybit/positions.py\<close>, with the part of \<open>_fill_event\<close> of
  \<^verbatim>\<open>src/src/pynecore_bybit/events.py\<close> that converts an inverse fill. Message texts of skipped
  orders and their context dictionaries are left out: a skip carries its intent and reason.
\<close>

section \<open>Errors and float comparisons\<close>

datatype dispatch_error =
    OrderSkipped string string
  | Rejected broker_error
  | Failed raised

definition lift_lang :: "py_error + 'a \<Rightarrow> dispatch_error + 'a" where
  "lift_lang r = (case r of Inl e \<Rightarrow> Inl (Failed (Lang e)) | Inr x \<Rightarrow> Inr x)"

lemma lift_lang_simps [simp]:
  "lift_lang (Inr x) = Inr x" "lift_lang r = Inr x \<longleftrightarrow> r = Inr x"
  by (auto simp: lift_lang_def split: sum.splits)

text \<open>\<open>a < b\<close> on floats: NaN compares false.\<close>

fun float_less :: "num \<Rightarrow> num \<Rightarrow> bool" where
  "float_less (Fin a) (Fin b) = (a < b)"
| "float_less NegInf (Fin b) = True"
| "float_less (Fin a) PosInf = True"
| "float_less NegInf PosInf = True"
| "float_less x y = False"

text \<open>
  A decimal used in exact arithmetic: a non-finite one makes the conversions below raise
  \<open>decimal.InvalidOperation\<close> when they quantize; here it does so where it is read.
\<close>

fun finite_dec :: "num \<Rightarrow> py_error + rat" where
  "finite_dec (Fin r) = Inr r"
| "finite_dec n = Inl InvalidOperation"

section \<open>The grid and the venue's bounds\<close>

definition quantize_or_skip :: "instrument_info \<Rightarrow> rat \<Rightarrow> string \<Rightarrow> dispatch_error + rat" where
  "quantize_or_skip market qty intent_key =
     res_bind (lift_lang (quantize_qty qty (in_qty_step_str market))) (\<lambda>quantized.
       if quantized \<le> 0 then Inl (OrderSkipped intent_key ''below_min_size'') else Inr quantized)"

definition notional_check ::
    "instrument_info \<Rightarrow> rat \<Rightarrow> rat option \<Rightarrow> num option \<Rightarrow> string \<Rightarrow> dispatch_error + unit" where
  "notional_check market qty price last_price intent_key =
     (let min_notional = (if in_min_order_amt market = Fin 0 then in_min_notional market
                          else in_min_order_amt market) in
      if \<not> num_positive min_notional then Inr ()
      else if is_inverse market
      then (if float_less (Fin qty) min_notional
            then Inl (OrderSkipped intent_key ''below_min_notional'') else Inr ())
      else
        case (case price of Some p \<Rightarrow> Some (Fin p) | None \<Rightarrow> last_price) of
          None \<Rightarrow> Inr ()
        | Some ref_price \<Rightarrow>
            res_bind (lift_lang (num_times (Fin qty) ref_price)) (\<lambda>notional.
              if float_less notional min_notional
              then Inl (OrderSkipped intent_key ''below_min_notional'') else Inr ()))"

definition preflight_order ::
    "instrument_info \<Rightarrow> rat \<Rightarrow> bool \<Rightarrow> rat option \<Rightarrow> num option \<Rightarrow> string \<Rightarrow> bool \<Rightarrow> dispatch_error + unit" where
  "preflight_order market qty is_market price last_price intent_key reduce_only =
     (let cap = (if is_market then in_max_market_order_qty market else in_max_limit_order_qty market) in
      if num_positive cap \<and> float_less cap (Fin qty) then Inl (OrderSkipped intent_key ''above_max_size'')
      else if reduce_only then Inr ()
      else if 0 < qty \<and> float_less (Fin qty) (in_min_order_qty market)
      then Inl (OrderSkipped intent_key ''below_min_size'')
      else notional_check market qty price last_price intent_key)"

section \<open>The mirror and the anchors\<close>

record inverse_state =
  iv_contracts :: rat
  iv_base :: rat
  iv_anchor :: "string \<Rightarrow> num option"

definition new_inverse :: inverse_state where
  "new_inverse = \<lparr>iv_contracts = 0, iv_base = 0, iv_anchor = Map.empty\<rparr>"

text \<open>
  The anchor of a dispatch. \<open>row_extras\<close> is the store's view: the extras of the row with a client id,
  \<open>None\<close> without a row; without a store the function is \<open>None\<close> everywhere. A stored anchor is cached.
\<close>

type_synonym extras_lookup = "string \<Rightarrow> jdict option"

definition stored_anchor :: "extras_lookup \<Rightarrow> string \<Rightarrow> py" where
  "stored_anchor row_extras coid =
     (if coid = [] then PNone
      else case row_extras coid of None \<Rightarrow> PNone | Some d \<Rightarrow> jget d ''anchor'')"

definition fallback_anchor :: "num option \<Rightarrow> num option" where
  "fallback_anchor fallback =
     (case fallback of Some p \<Rightarrow> if num_positive p then Some p else None | None \<Rightarrow> None)"

definition inverse_anchor_for ::
    "extras_lookup \<Rightarrow> string \<Rightarrow> num option \<Rightarrow> inverse_state \<Rightarrow> py_error + (inverse_state \<times> num option)" where
  "inverse_anchor_for row_extras coid fallback I =
     (case iv_anchor I coid of
        Some a \<Rightarrow> Inr (I, Some a)
      | None \<Rightarrow>
          (let raw = stored_anchor row_extras coid in
           if truthy raw
           then res_bind (parse_dec (py_str raw)) (\<lambda>a.
                  Inr (I\<lparr>iv_anchor := (iv_anchor I)(coid \<mapsto> a)\<rparr>, Some a))
           else Inr (I, fallback_anchor fallback)))"

text \<open>
  The entry row of a Pine entry id: the live rows first, then the identities of this process (client
  id, Pine id and whether the leg is an entry, in dispatch order), newest first.
\<close>

definition entry_coid_for ::
    "framework \<Rightarrow> order_row list option \<Rightarrow> (string \<times> string option \<times> bool) list \<Rightarrow> string \<Rightarrow> string option" where
  "entry_coid_for F live identity from_entry =
     (case find (\<lambda>r. or_pine_id r = Some from_entry \<and> is_entry_row F r)
             (case live of Some rows \<Rightarrow> rows | None \<Rightarrow> []) of
        Some r \<Rightarrow> Some (or_coid r)
      | None \<Rightarrow>
          map_option fst (find (\<lambda>(coid, pine, is_entry). is_entry \<and> pine = Some from_entry) (rev identity)))"

text \<open>\<open>entry_coid\<close> is the parent entry's client id when one resolves.\<close>

definition parent_anchor ::
    "extras_lookup \<Rightarrow> string option \<Rightarrow> inverse_state \<Rightarrow> py_error + (inverse_state \<times> num option)" where
  "parent_anchor row_extras entry_coid I =
     (case entry_coid of None \<Rightarrow> Inr (I, None) | Some c \<Rightarrow> inverse_anchor_for row_extras c None I)"

definition covers_mirror :: "string \<Rightarrow> rat \<Rightarrow> inverse_state \<Rightarrow> bool" where
  "covers_mirror side contracts I \<longleftrightarrow>
     iv_contracts I \<noteq> 0 \<and> \<bar>iv_base I\<bar> > 0 \<and> (side = ''sell'') = (iv_contracts I > 0) \<and>
     \<bar>iv_contracts I\<bar> * (1 - 1 / 10 ^ 9) \<le> contracts \<and> contracts \<le> \<bar>iv_contracts I\<bar> * (1 + 1 / 10 ^ 9)"

definition inverse_fill_anchor ::
    "extras_lookup \<Rightarrow> string option \<Rightarrow> string \<Rightarrow> string \<Rightarrow> rat \<Rightarrow> rat \<Rightarrow> bool \<Rightarrow> inverse_state \<Rightarrow>
     py_error + (inverse_state \<times> num)" where
  "inverse_fill_anchor row_extras entry_coid coid side contracts exec_price reducing I =
     (if reducing \<and> covers_mirror side contracts I
      then Inr (I, Fin (contracts / \<bar>iv_base I\<bar>))
      else
        res_bind (inverse_anchor_for row_extras coid None I) (\<lambda>(I1, anchor).
          case anchor of
            Some a \<Rightarrow> Inr (I1, a)
          | None \<Rightarrow>
              res_bind (parent_anchor row_extras entry_coid I1) (\<lambda>(I2, parent).
                Inr (I2, case parent of Some a \<Rightarrow> a | None \<Rightarrow> Fin exec_price))))"

definition sign_of :: "string \<Rightarrow> rat" where
  "sign_of side = (if side = ''buy'' then 1 else - 1)"

definition apply_inverse_fill :: "string \<Rightarrow> rat \<Rightarrow> rat \<Rightarrow> inverse_state \<Rightarrow> inverse_state" where
  "apply_inverse_fill side contracts base I =
     (let c = iv_contracts I + sign_of side * contracts
      in I\<lparr>iv_contracts := c, iv_base := (if c = 0 then 0 else iv_base I + sign_of side * base)\<rparr>)"

definition net_inverse_mirror :: "instrument_info option \<Rightarrow> string \<Rightarrow> rat \<Rightarrow> inverse_state \<Rightarrow> inverse_state" where
  "net_inverse_mirror market side contracts I =
     (case market of
        None \<Rightarrow> I
      | Some m \<Rightarrow>
          if \<not> is_inverse m \<or> contracts \<le> 0 \<or> iv_contracts I = 0 then I
          else
            let held = iv_contracts I;
                shifted = held + (if side = ''sell'' then contracts else - contracts)
            in I\<lparr>iv_contracts := shifted,
                 iv_base := (if shifted = 0 then 0 else iv_base I * (shifted / held))\<rparr>)"

fun seed_rows :: "jdict list \<Rightarrow> rat \<times> rat \<Rightarrow> raised + (rat \<times> rat)" where
  "seed_rows [] acc = Inr acc"
| "seed_rows (row # rows) (contracts, base) =
     res_bind (position_row_size row) (\<lambda>sz.
       if sz \<le> 0 then seed_rows rows (contracts, base)
       else
         let side = lower (jstr row ''side'') in
         res_bind (wire_float ''avgPrice'' (jget row ''avgPrice'')) (\<lambda>avg.
           if side \<noteq> ''buy'' \<and> side \<noteq> ''sell'' \<or> avg \<le> 0 then seed_rows rows (contracts, base)
           else
             let sign = (if side = ''buy'' then 1 else - 1) in
             res_bind (lift_err (contracts_to_base sz avg)) (\<lambda>b.
               seed_rows rows (contracts + sign * sz, base + sign * b))))"

definition inverse_seed_net :: "jdict list \<Rightarrow> inverse_state \<Rightarrow> raised + inverse_state" where
  "inverse_seed_net rows I =
     res_bind (seed_rows rows (0, 0)) (\<lambda>(c, b). Inr (I\<lparr>iv_contracts := c, iv_base := b\<rparr>))"

definition inverse_core_size :: "string \<Rightarrow> rat \<Rightarrow> rat \<Rightarrow> inverse_state \<Rightarrow> py_error + rat" where
  "inverse_core_size side contracts avg_price I =
     (let signed_size = (if side = ''buy'' then contracts else - contracts);
          mirror = iv_contracts I
      in if signed_size = mirror then Inr \<bar>iv_base I\<bar>
         else if signed_size * mirror > 0 \<and> \<bar>signed_size\<bar> > \<bar>mirror\<bar>
         then res_bind (contracts_to_base (\<bar>signed_size\<bar> - \<bar>mirror\<bar>) avg_price) (\<lambda>b. Inr (\<bar>iv_base I\<bar> + b))
         else contracts_to_base contracts avg_price)"

section \<open>Sizing inverse orders\<close>

text \<open>The reference price: the order's own, the last trade, else one ticker read.\<close>

definition reference_error :: "string \<Rightarrow> dispatch_error" where
  "reference_error msg = Rejected (ExchangeOrderRejectedError msg)"

definition ticker_price :: "jdict \<Rightarrow> dispatch_error + num" where
  "ticker_price result =
     (let rows = py_or (jget result ''list'') (PList []) in
      res_bind (lift_lang (if truthy rows then first_entry rows else Inr [])) (\<lambda>row.
      lift_lang (py_float (py_or (jget row ''lastPrice'') (PFloat 0)))))"

definition inverse_ref_ticker :: "instrument_info \<Rightarrow> raised + jdict \<Rightarrow> dispatch_error + num" where
  "inverse_ref_ticker market ticker =
     (case ticker of
        Inl (Bybit e) \<Rightarrow> Inl (reference_error
          (''Bybit inverse conversion needs a reference price and the ticker read failed for '' @
           in_symbol market @ '': '' @ exc_str e))
      | Inl e \<Rightarrow> Inl (Failed e)
      | Inr result \<Rightarrow>
          res_bind (ticker_price result) (\<lambda>l.
            if num_positive l then Inr l
            else Inl (reference_error
              (''Bybit reports no last price for '' @ in_symbol market @
               '' - cannot convert the base quantity to inverse contracts''))))"

definition inverse_ref_price ::
    "instrument_info \<Rightarrow> raised + jdict \<Rightarrow> num option \<Rightarrow> rat option \<Rightarrow> dispatch_error + num" where
  "inverse_ref_price market ticker last_price price =
     (case (price, fallback_anchor last_price) of
        (Some p, l) \<Rightarrow>
          if p > 0 then Inr (Fin p)
          else (case l of Some a \<Rightarrow> Inr a | None \<Rightarrow> inverse_ref_ticker market ticker)
      | (None, Some a) \<Rightarrow> Inr a
      | (None, None) \<Rightarrow> inverse_ref_ticker market ticker)"

definition positive_or_skip :: "string \<Rightarrow> rat \<Rightarrow> dispatch_error + rat" where
  "positive_or_skip intent_key contracts =
     (if contracts \<le> 0 then Inl (OrderSkipped intent_key ''below_min_size'') else Inr contracts)"

definition inverse_entry_contracts ::
    "instrument_info \<Rightarrow> rat \<Rightarrow> num \<Rightarrow> string \<Rightarrow> dispatch_error + rat" where
  "inverse_entry_contracts market qty anchor intent_key =
     res_bind (lift_lang (res_bind (finite_dec anchor) (\<lambda>a.
       base_to_contracts qty a (in_qty_step_str market)))) (positive_or_skip intent_key)"

text \<open>\<open>min(a, quantize_qty(net_c))\<close> and the two conversions at an anchor\<close>

definition capped_at_mirror :: "instrument_info \<Rightarrow> rat \<Rightarrow> py_error + rat \<Rightarrow> py_error + rat" where
  "capped_at_mirror market net_c r =
     res_bind r (\<lambda>a. res_bind (quantize_qty net_c (in_qty_step_str market)) (\<lambda>b. Inr (min a b)))"

definition at_anchor :: "(rat \<Rightarrow> py_error + rat) \<Rightarrow> num \<Rightarrow> py_error + (rat \<times> num)" where
  "at_anchor f anchor =
     res_bind (finite_dec anchor) (\<lambda>a. res_bind (f a) (\<lambda>c. Inr (c, anchor)))"

definition mirror_contracts ::
    "instrument_info \<Rightarrow> rat \<Rightarrow> num option \<Rightarrow> rat \<Rightarrow> rat \<Rightarrow> py_error + (rat \<times> num)" where
  "mirror_contracts market qty entry_anchor net_c net_b =
     (let step = in_qty_step_str market in
      if qty \<ge> net_b * (1 - 1 / 10 ^ 9)
      then res_bind (quantize_qty net_c step) (\<lambda>c. Inr (c, Fin (net_c / net_b)))
      else case entry_anchor of
             Some a \<Rightarrow> at_anchor (\<lambda>a. capped_at_mirror market net_c (base_to_contracts qty a step)) a
           | None \<Rightarrow>
               at_anchor (\<lambda>a. capped_at_mirror market net_c (base_to_contracts_reduce qty a step))
                 (Fin (net_c / net_b)))"

definition inverse_reduce_contracts ::
    "extras_lookup \<Rightarrow> string option \<Rightarrow> instrument_info \<Rightarrow> raised + jdict \<Rightarrow> num option \<Rightarrow> rat \<Rightarrow> string \<Rightarrow>
     inverse_state \<Rightarrow> dispatch_error + (inverse_state \<times> rat \<times> num)" where
  "inverse_reduce_contracts row_extras entry_coid market ticker last_price qty intent_key I0 =
     res_bind (lift_lang (parent_anchor row_extras entry_coid I0)) (\<lambda>(I, entry_anchor).
     res_bind
       (let net_c = \<bar>iv_contracts I\<bar>; net_b = \<bar>iv_base I\<bar>; step = in_qty_step_str market in
        if net_c > 0 \<and> net_b > 0 then lift_lang (mirror_contracts market qty entry_anchor net_c net_b)
        else case entry_anchor of
               Some a \<Rightarrow> lift_lang (at_anchor (\<lambda>a. base_to_contracts qty a step) a)
             | None \<Rightarrow>
                 res_bind (inverse_ref_price market ticker last_price None) (\<lambda>a.
                   lift_lang (at_anchor (\<lambda>a. base_to_contracts_reduce qty a step) a)))
       (\<lambda>(contracts, anchor).
          res_bind (positive_or_skip intent_key contracts) (\<lambda>c. Inr (I, c, anchor))))"

definition inverse_amend_contracts ::
    "instrument_info \<Rightarrow> rat \<Rightarrow> num \<Rightarrow> string \<Rightarrow> inverse_state \<Rightarrow> dispatch_error + rat" where
  "inverse_amend_contracts market qty anchor intent_key I =
     res_bind (lift_lang
       (res_bind (finite_dec anchor) (\<lambda>a.
          let r = base_to_contracts_reduce qty a (in_qty_step_str market); net_c = \<bar>iv_contracts I\<bar>
          in if net_c > 0 then capped_at_mirror market net_c r else r)))
       (positive_or_skip intent_key)"

definition core_qty :: "rat \<Rightarrow> rat option \<Rightarrow> py_error + rat" where
  "core_qty qty anchor = (case anchor of None \<Rightarrow> Inr qty | Some a \<Rightarrow> contracts_to_base qty a)"

text \<open>Remembering a dispatch's anchor, in the map and in the row's extras\<close>

definition record_anchor ::
    "string \<Rightarrow> dec option \<Rightarrow> jdict \<Rightarrow> inverse_state \<Rightarrow> inverse_state \<times> jdict" where
  "record_anchor coid anchor extras I =
     (case anchor of
        None \<Rightarrow> (I, extras)
      | Some d \<Rightarrow> (I\<lparr>iv_anchor := (iv_anchor I)(coid \<mapsto> Fin (dec_val d))\<rparr>,
                   AList.update ''anchor'' (PStr (format_decimal d)) extras))"

text \<open>
  The inverse part of an own fill: the base the core is told, and the mirror after it. \<open>credit\<close> is
  what a give-up of the position ledger netted ahead.
\<close>

definition inverse_fill ::
    "extras_lookup \<Rightarrow> string option \<Rightarrow> string \<Rightarrow> string \<Rightarrow> rat \<Rightarrow> rat \<Rightarrow> bool \<Rightarrow> rat \<Rightarrow> inverse_state \<Rightarrow>
     py_error + (inverse_state \<times> rat)" where
  "inverse_fill row_extras entry_coid coid side exec_qty exec_price reducing credit I =
     res_bind (inverse_fill_anchor row_extras entry_coid coid side exec_qty exec_price reducing I) (\<lambda>(I1, anchor).
     res_bind (finite_dec anchor) (\<lambda>factor.
       if factor = 0 then Inl DivisionByZeroErr
       else
         let fill_qty = exec_qty / factor
         in Inr (apply_inverse_fill side (exec_qty - credit) (fill_qty * (exec_qty - credit) / exec_qty) I1,
                 fill_qty)))"

section \<open>A full close lands on flat\<close>

fun fill_slices ::
    "extras_lookup \<Rightarrow> string option \<Rightarrow> string \<Rightarrow> string \<Rightarrow> (rat \<times> rat) list \<Rightarrow> inverse_state \<Rightarrow>
     py_error + (inverse_state \<times> rat)" where
  "fill_slices row_extras entry_coid coid side [] I = Inr (I, 0)"
| "fill_slices row_extras entry_coid coid side ((q, price) # rest) I =
     res_bind (inverse_fill row_extras entry_coid coid side q price True 0 I) (\<lambda>(I1, b).
     res_bind (fill_slices row_extras entry_coid coid side rest I1) (\<lambda>(I2, total). Inr (I2, b + total)))"

text \<open>A mirror of whole contracts at the average conversion \<open>r\<close>, which the dispatch recorded.\<close>

definition mirror_at :: "string \<Rightarrow> rat \<Rightarrow> int \<Rightarrow> inverse_state \<Rightarrow> bool" where
  "mirror_at coid r n I \<longleftrightarrow> iv_contracts I = of_int n \<and> iv_base I = of_int n / r \<and> iv_anchor I coid = Some (Fin r)"

definition closing_side :: "int \<Rightarrow> string" where
  "closing_side n = (if n > 0 then ''sell'' else ''buy'')"

lemma whole_cover:
  assumes "\<bar>n\<bar> < 10 ^ 9" and "0 < k" and "k \<le> \<bar>n\<bar>" and "\<bar>of_int n :: rat\<bar> * (1 - 1 / 10 ^ 9) \<le> of_int k"
  shows "k = \<bar>n\<bar>"
proof -
  have "of_int \<bar>n\<bar> < (10 ^ 9 :: rat)" using assms(1) by (metis of_int_less_iff of_int_numeral of_int_power)
  then have "of_int \<bar>n\<bar> - of_int k < (1 :: rat)" using assms(4) by (simp add: algebra_simps)
  then have "\<bar>n\<bar> - k < 1" by (metis of_int_1 of_int_diff of_int_less_iff)
  then show ?thesis using assms(3) by simp
qed

lemma slice_step:
  assumes "mirror_at coid r n I" and "0 < r" and "\<bar>n\<bar> < 10 ^ 9" and "0 < k" and "k \<le> \<bar>n\<bar>"
  shows "\<exists>I1. inverse_fill row_extras entry_coid coid (closing_side n) (of_int k) price True 0 I =
      Inr (I1, of_int k / r) \<and> mirror_at coid r (n - sgn n * k) I1"
proof -
  let ?side = "closing_side n"
  have n: "n \<noteq> 0" using assms(4,5) by auto
  have m: "iv_contracts I = of_int n" "iv_base I = of_int n / r" "iv_anchor I coid = Some (Fin r)"
    using assms(1) by (simp_all add: mirror_at_def)
  have a: "inverse_fill_anchor row_extras entry_coid coid ?side (of_int k) price True I = Inr (I, Fin r)"
  proof (cases "covers_mirror ?side (of_int k) I")
    case True
    then have "k = \<bar>n\<bar>" using whole_cover [OF assms(3-5)] by (simp add: covers_mirror_def m)
    then have "of_int k / \<bar>iv_base I\<bar> = r" using n assms(2) by (simp add: m abs_mult)
    then show ?thesis using True by (simp add: inverse_fill_anchor_def)
  next
    case False
    then show ?thesis by (simp add: inverse_fill_anchor_def inverse_anchor_for_def m(3))
  qed
  have s: "sign_of ?side * of_int k = - of_int (sgn n * k)"
    using n by (auto simp: sign_of_def closing_side_def sgn_if)
  have c: "iv_contracts I + sign_of ?side * of_int k = of_int (n - sgn n * k)"
    unfolding s m(1) by simp
  have b: "iv_base I + sign_of ?side * (of_int k / r) = of_int (n - sgn n * k) / r"
    unfolding times_divide_eq_right s m(2) by (simp add: diff_divide_distrib)
  define I1 where "I1 = apply_inverse_fill ?side (of_int k) (of_int k / r) I"
  have "iv_contracts I1 = of_int (n - sgn n * k)" "iv_base I1 = of_int (n - sgn n * k) / r"
    unfolding I1_def apply_inverse_fill_def Let_def c b by simp_all
  moreover have "iv_anchor I1 coid = Some (Fin r)"
    using m(3) by (simp add: I1_def apply_inverse_fill_def Let_def)
  ultimately have "mirror_at coid r (n - sgn n * k) I1" unfolding mirror_at_def by blast
  moreover have "inverse_fill row_extras entry_coid coid ?side (of_int k) price True 0 I = Inr (I1, of_int k / r)"
    using assms(2,4) by (simp add: inverse_fill_def a I1_def Let_def)
  ultimately show ?thesis by blast
qed

lemma slices_exact:
  assumes "mirror_at coid r n I" and "0 < r" and "\<bar>n\<bar> < 10 ^ 9" and "\<forall>k \<in> set ks. 0 < k"
    and "sum_list ks = \<bar>n\<bar>" and "n \<noteq> 0 \<Longrightarrow> side = closing_side n" and "length ps = length ks"
  shows "\<exists>I2. fill_slices row_extras entry_coid coid side (zip (map of_int ks) ps) I = Inr (I2, of_int \<bar>n\<bar> / r) \<and>
    iv_contracts I2 = 0 \<and> iv_base I2 = 0"
  using assms(1,3-7)
proof (induction ks arbitrary: n I ps)
  case Nil
  then show ?case by (auto simp: mirror_at_def)
next
  case (Cons k ks)
  obtain p ps' where ps: "ps = p # ps'" "length ps' = length ks" using Cons.prems(6) by (cases ps) auto
  have rest: "0 \<le> sum_list ks" using Cons.prems(3) by (simp add: less_imp_le sum_list_nonneg)
  have k: "0 < k" "k \<le> \<bar>n\<bar>" and n: "n \<noteq> 0" using Cons.prems(3,4) rest by auto
  obtain I1 where I1: "inverse_fill row_extras entry_coid coid side (of_int k) p True 0 I = Inr (I1, of_int k / r)"
    "mirror_at coid r (n - sgn n * k) I1"
    using slice_step [OF Cons.prems(1) assms(2) Cons.prems(2) k] Cons.prems(5) n by blast
  have left: "\<bar>n - sgn n * k\<bar> = \<bar>n\<bar> - k" using k n by (auto simp: sgn_if)
  have side: "side = closing_side (n - sgn n * k)" if "n - sgn n * k \<noteq> 0"
    using that Cons.prems(5) k n by (auto simp: closing_side_def sgn_if split: if_splits)
  have "\<exists>I2. fill_slices row_extras entry_coid coid side (zip (map of_int ks) ps') I1 =
      Inr (I2, of_int \<bar>n - sgn n * k\<bar> / r) \<and> iv_contracts I2 = 0 \<and> iv_base I2 = 0"
    using Cons.prems(2-4) left k side ps(2) by (intro Cons.IH [OF I1(2)]) auto
  then show ?case using ps(1) I1(1) unfolding left by (auto simp: add_divide_distrib [symmetric])
qed

text \<open>
  C22. A full close of an inverse position lands on exactly flat: the dispatch of the base the core was
  told takes every contract of the mirror, and however the venue slices the fills and whatever they
  pay, the core is told exactly that base back and the mirror ends empty.
\<close>

theorem full_close_leaves_no_residue:
  assumes "iv_contracts I = of_int n" and "n \<noteq> 0" and "\<bar>n\<bar> < 10 ^ 9" and "0 < iv_base I * of_int n"
    and "\<bar>iv_base I\<bar> * (1 - 1 / 10 ^ 9) \<le> qty"
    and "quantize_qty (of_int \<bar>n\<bar>) (in_qty_step_str market) = Inr (of_int \<bar>n\<bar>)"
    and "parent_anchor row_extras entry_coid I = Inr (I1, entry_anchor)"
    and "\<forall>k \<in> set ks. 0 < k" and "sum_list ks = \<bar>n\<bar>" and "length ps = length ks"
  shows "\<exists>a I2. inverse_reduce_contracts row_extras entry_coid market ticker last_price qty key I =
      Inr (I1, of_int \<bar>n\<bar>, Fin a) \<and>
    fill_slices row_extras entry_coid coid (closing_side n) (zip (map of_int ks) ps)
      (I1\<lparr>iv_anchor := (iv_anchor I1)(coid \<mapsto> Fin a)\<rparr>) = Inr (I2, \<bar>iv_base I\<bar>) \<and>
    iv_contracts I2 = 0 \<and> iv_base I2 = 0"
proof -
  have keep: "iv_contracts I1 = iv_contracts I" "iv_base I1 = iv_base I"
    using assms(7)
    by (auto simp: parent_anchor_def inverse_anchor_for_def res_bind_Inr_iff Let_def
        split: option.splits if_splits)
  define a where "a = \<bar>of_int n\<bar> / \<bar>iv_base I\<bar>"
  have b0: "iv_base I \<noteq> 0" using assms(4) by auto
  have a: "0 < a" using assms(2) b0 by (simp add: a_def)
  have base: "iv_base I = of_int n / a"
    using assms(2,4) b0 unfolding a_def by (auto simp: abs_if zero_less_mult_iff)
  let ?I = "I1\<lparr>iv_anchor := (iv_anchor I1)(coid \<mapsto> Fin a)\<rparr>"
  have "mirror_at coid a n ?I" using keep assms(1) base by (simp add: mirror_at_def)
  from slices_exact [OF this a assms(3,8,9) _ assms(10), of "closing_side n"]
  obtain I2 where "fill_slices row_extras entry_coid coid (closing_side n) (zip (map of_int ks) ps) ?I =
      Inr (I2, of_int \<bar>n\<bar> / a)" "iv_contracts I2 = 0" "iv_base I2 = 0" by blast
  moreover have "of_int \<bar>n\<bar> / a = \<bar>iv_base I\<bar>" using assms(2) b0 by (simp add: a_def)
  moreover have "inverse_reduce_contracts row_extras entry_coid market ticker last_price qty key I =
      Inr (I1, of_int \<bar>n\<bar>, Fin a)"
    using assms(1,2,5,6) b0
    by (simp add: inverse_reduce_contracts_def assms(7) keep mirror_contracts_def a_def positive_or_skip_def)
  ultimately show ?thesis by auto
qed

definition example_inverse_market :: instrument_info where
  "example_inverse_market = example_market\<lparr>in_category := CATEGORY_INVERSE, in_qty_step_str := ''1''\<rparr>"

theorem full_close_leaves_no_residue_witness:
  "\<exists>I2. fill_slices (\<lambda>c. None) None ''c'' ''sell'' [(100, 7), (65, 8)]
     \<lparr>iv_contracts = 165, iv_base = 3 / 7, iv_anchor = [''c'' \<mapsto> Fin (165 / (3 / 7))]\<rparr> = Inr (I2, 3 / 7) \<and>
   iv_contracts I2 = 0 \<and> iv_base I2 = 0"
proof -
  let ?I = "\<lparr>iv_contracts = 165, iv_base = 3 / 7, iv_anchor = Map.empty\<rparr>"
  have q: "quantize_qty (of_int \<bar>165\<bar>) (in_qty_step_str example_inverse_market) = Inr (of_int \<bar>165\<bar>)" by code_simp
  have p: "parent_anchor (\<lambda>c. None) None ?I = Inr (?I, None)" by (simp add: parent_anchor_def)
  from full_close_leaves_no_residue [OF _ _ _ _ _ q p, of "3 / 7" "[100, 65]" "[7, 8]" "Inr []" None "[]" "''c''"]
  show ?thesis
    by (auto simp: inverse_reduce_contracts_def p mirror_contracts_def q [simplified] positive_or_skip_def
        closing_side_def)
qed

end
