(* ===== verification/Order_Reads.thy ===== *)
theory Order_Reads
  imports Journal
begin

text \<open>
  The venue reads behind the startup adoption: the lookup of one order and the walk over its
  executions (\<^verbatim>\<open>src/src/pynecore_bybit/reconcile.py\<close>, \<^verbatim>\<open>recovery.py\<close>, \<^verbatim>\<open>execution.py\<close>), the executions
  no process of the run booked (\<^verbatim>\<open>events.py\<close>), the private slices parked meanwhile, the venue clock and
  the identity of a position snapshot (\<^verbatim>\<open>positions.py\<close>). The endpoints are parameters; a walk over
  pages that has no page limit in the code takes fuel, \<open>None\<close> is a walk still going.
\<close>

section \<open>Reading a field\<close>

text \<open>\<open>float(entry.get(k) or 0.0)\<close> and \<open>int(entry.get(k) or 0)\<close>\<close>

definition row_float :: "jdict \<Rightarrow> string \<Rightarrow> py_error + num" where
  "row_float entry k = py_float (py_or (jget entry k) (PFloat 0))"

definition row_int :: "jdict \<Rightarrow> string \<Rightarrow> py_error + int" where
  "row_int entry k = py_int (py_or (jget entry k) (PInt 0))"

text \<open>\<open>str(entry.get(k) or d)\<close>\<close>

definition jstr_or :: "jdict \<Rightarrow> string \<Rightarrow> string \<Rightarrow> string" where
  "jstr_or entry k d = py_str (py_or (jget entry k) (PStr d))"

section \<open>One order\<close>

definition SPENT_COID_SKEW_MS :: int where "SPENT_COID_SKEW_MS = 5000"
definition EXECUTION_SINCE_SKEW_MS :: int where "EXECUTION_SINCE_SKEW_MS = 60000"

text \<open>\<open>row_created\<close> is the creation time of the dispatch row, \<open>None\<close> without a store or row.\<close>

definition duplicate_original_is_spent :: "int option \<Rightarrow> jdict \<Rightarrow> bool" where
  "duplicate_original_is_spent row_created existing =
     (case row_created of
        None \<Rightarrow> False
      | Some ts \<Rightarrow>
          (case row_int existing ''createdTime'' of
             Inl e \<Rightarrow> False
           | Inr created \<Rightarrow> if created \<le> 0 then False else created < ts - SPENT_COID_SKEW_MS))"

text \<open>
  The two endpoints in order: a failed read is inconclusive, the first entry found decides, and one
  that a prior instance placed counts as nothing found.
\<close>

fun confirm_lookup :: "int option \<Rightarrow> (raised + jdict) list \<Rightarrow> raised + (jdict option \<times> bool)" where
  "confirm_lookup row_created [] = Inr (None, True)"
| "confirm_lookup row_created (reply # replies) =
     (case reply of
        Inl (Bybit e) \<Rightarrow> Inr (None, False)
      | Inl e \<Rightarrow> Inl e
      | Inr result \<Rightarrow>
          (let entries = py_or (jget result ''list'') (PList []) in
           if truthy entries
           then res_bind (lift_err (first_entry entries)) (\<lambda>entry.
                  if duplicate_original_is_spent row_created entry then Inr (None, True)
                  else Inr (Some entry, True))
           else confirm_lookup row_created replies))"

section \<open>The executions of one order\<close>

text \<open>Rows with an \<open>execId\<close> not read before, in order\<close>

fun take_new :: "py list \<Rightarrow> jdict list \<Rightarrow> py_error + jdict list" where
  "take_new [] acc = Inr acc"
| "take_new (v # vs) acc =
     res_bind (as_dict v) (\<lambda>entry.
       let eid = jstr entry ''execId'' in
       if eid = [] \<or> eid \<in> set (map (\<lambda>d. jstr d ''execId'') acc) then take_new vs acc
       else take_new vs (acc @ [entry]))"

text \<open>The pages of one window: the rows so far and whether every read succeeded.\<close>

fun order_pages ::
    "nat \<Rightarrow> executions_api \<Rightarrow> int \<Rightarrow> int \<Rightarrow> py \<Rightarrow> jdict list \<Rightarrow> (raised + (jdict list \<times> bool)) option" where
  "order_pages 0 api s e cursor acc = None"
| "order_pages (Suc n) api s e cursor acc =
     (case api s e cursor of
        Inl (Bybit x) \<Rightarrow> Some (Inr (acc, False))
      | Inl x \<Rightarrow> Some (Inl x)
      | Inr result \<Rightarrow>
          (case res_bind (as_list (py_or (jget result ''list'') (PList []))) (\<lambda>vs. take_new vs acc) of
             Inl x \<Rightarrow> Some (Inl (Lang x))
           | Inr acc1 \<Rightarrow>
               (let nx = py_or (jget result ''nextPageCursor'') PNone in
                if \<not> truthy nx then Some (Inr (acc1, True)) else order_pages n api s e nx acc1)))"

function order_windows ::
    "nat \<Rightarrow> executions_api \<Rightarrow> int \<Rightarrow> int \<Rightarrow> jdict list \<Rightarrow> (raised + (jdict list \<times> bool)) option" where
  "order_windows n api now_ms from_ms acc =
     (if from_ms < now_ms
      then
        (let e = min (from_ms + EXECUTION_WINDOW_MS) now_ms in
         case order_pages n api from_ms e PNone acc of
           Some (Inr (acc1, True)) \<Rightarrow> order_windows n api now_ms e acc1
         | r \<Rightarrow> r)
      else Some (Inr (acc, True)))"
  by pat_completeness auto

termination order_windows
  by (relation "measure (\<lambda>(n, api, now_ms, from_ms, acc). nat (now_ms - from_ms))")
    (auto simp: EXECUTION_WINDOW_MS_def)

declare order_windows.simps [simp del]

definition order_executions ::
    "nat \<Rightarrow> executions_api \<Rightarrow> string \<Rightarrow> int \<Rightarrow> int \<Rightarrow> int option \<Rightarrow> (raised + (jdict list \<times> bool)) option" where
  "order_executions n api order_id clock_ms from_ms until_ms =
     (if order_id = [] then Some (Inr ([], False))
      else order_windows n api
             (case until_ms of Some u \<Rightarrow> if u > clock_ms then u else clock_ms | None \<Rightarrow> clock_ms) from_ms [])"

text \<open>
  The ids, the summed quantity, whether the walk was complete, and the rows. A quantity that does not
  parse counts as nothing; so does an infinite or NaN one, which no venue quantity is.
\<close>

definition quantity_of :: "jdict \<Rightarrow> rat" where
  "quantity_of entry = (case row_float entry ''execQty'' of Inr (Fin q) \<Rightarrow> q | _ \<Rightarrow> 0)"

record fill_walk =
  fw_ids :: "string list"
  fw_qty :: rat
  fw_seeded :: bool
  fw_rows :: "jdict list"

definition fill_walk_of :: "jdict list \<Rightarrow> bool \<Rightarrow> fill_walk" where
  "fill_walk_of entries seeded =
     \<lparr>fw_ids = map (\<lambda>d. jstr d ''execId'') entries, fw_qty = sum_list (map quantity_of entries),
      fw_seeded = seeded, fw_rows = entries\<rparr>"

definition recovery_fill_ids ::
    "nat \<Rightarrow> executions_api \<Rightarrow> string \<Rightarrow> int \<Rightarrow> int \<Rightarrow> int option \<Rightarrow> (raised + fill_walk) option" where
  "recovery_fill_ids n api order_id clock_ms from_ms until_ms =
     (case order_executions n api order_id clock_ms from_ms until_ms of
        None \<Rightarrow> None
      | Some (Inl e) \<Rightarrow> Some (Inl e)
      | Some (Inr (entries, seeded)) \<Rightarrow> Some (Inr (fill_walk_of entries seeded)))"

section \<open>Executions no process of the run booked\<close>

definition MAX_BACKFILL_WINDOW_PAGES :: nat where "MAX_BACKFILL_WINDOW_PAGES = 200"

text \<open>One window with its page limit: the raw rows, and whether it drained completely.\<close>

fun drain_deriv_exec_window ::
    "nat \<Rightarrow> executions_api \<Rightarrow> int \<Rightarrow> int \<Rightarrow> py \<Rightarrow> py list \<Rightarrow> raised + (py list \<times> bool)" where
  "drain_deriv_exec_window 0 api s e cursor acc = Inr (acc, False)"
| "drain_deriv_exec_window (Suc n) api s e cursor acc =
     (case api s e cursor of
        Inl (Bybit x) \<Rightarrow> Inr (acc, False)
      | Inl x \<Rightarrow> Inl x
      | Inr result \<Rightarrow>
          res_bind (lift_err (as_list (py_or (jget result ''list'') (PList [])))) (\<lambda>vs.
            let nx = py_or (jget result ''nextPageCursor'') PNone in
            if \<not> truthy nx then Inr (acc @ vs, True)
            else drain_deriv_exec_window n api s e nx (acc @ vs)))"

text \<open>A row of another symbol or category is never the run's.\<close>

definition on_market :: "instrument_info \<Rightarrow> jdict \<Rightarrow> bool" where
  "on_market market entry \<longleftrightarrow>
     jstr entry ''symbol'' = in_symbol market \<and>
     jstr_or entry ''category'' (in_category market) = in_category market"

definition VENUE_STOP_ORDER_TYPES :: "string list" where
  "VENUE_STOP_ORDER_TYPES = [''TakeProfit'', ''StopLoss'', ''TrailingStop'']"

definition VENUE_CLOSEOUT_CREATE_TYPES :: "string list" where
  "VENUE_CLOSEOUT_CREATE_TYPES =
     [''CreateByLiq'', ''CreateByTakeOver_PassThrough'', ''CreateByAdl_PassThrough'', ''CreateByAdminClosing'']"

definition VENUE_CLOSEOUT_EXEC_TYPES :: "string list" where
  "VENUE_CLOSEOUT_EXEC_TYPES = [''AdlTrade'', ''BustTrade'', ''Delivery'']"

definition live_before :: "string \<Rightarrow> int \<Rightarrow> order_row list \<Rightarrow> bool" where
  "live_before side exec_ms rows \<longleftrightarrow>
     list_ex (\<lambda>r. or_side r = side \<and> or_created_ms r - EXECUTION_SINCE_SKEW_MS \<le> exec_ms) rows"

definition own_venue_stop_execution :: "jdict \<Rightarrow> instrument_info \<Rightarrow> order_row list \<Rightarrow> bool" where
  "own_venue_stop_execution entry market owners =
     (if \<not> on_market market entry then False
      else if jstr_or entry ''execType'' ''Trade'' \<noteq> ''Trade'' then False
      else if jstr entry ''orderLinkId'' \<noteq> [] then False
      else if jstr entry ''stopOrderType'' \<notin> set VENUE_STOP_ORDER_TYPES then False
      else
        case (row_float entry ''closedSize'', row_float entry ''execQty'', row_int entry ''execTime'') of
          (Inr closed_size, Inr exec_qty, Inr exec_ms) \<Rightarrow>
            \<not> num_not_positive closed_size \<and> \<not> num_not_positive exec_qty \<and>
            live_before (lower (jstr entry ''side'')) exec_ms owners
        | _ \<Rightarrow> False)"

definition venue_closeout_execution :: "jdict \<Rightarrow> instrument_info \<Rightarrow> order_row list \<Rightarrow> bool" where
  "venue_closeout_execution entry market entries =
     (let exec_type = jstr_or entry ''execType'' ''Trade'' in
      if \<not> on_market market entry then False
      else if exec_type \<notin> set VENUE_CLOSEOUT_EXEC_TYPES \<and>
              \<not> (exec_type = ''Trade'' \<and> jstr entry ''createType'' \<in> set VENUE_CLOSEOUT_CREATE_TYPES)
      then False
      else
        case (row_float entry ''closedSize'', row_int entry ''execTime'') of
          (Inr closed_size, Inr exec_ms) \<Rightarrow>
            \<not> num_not_positive closed_size \<and>
            live_before (entry_side_of (lower (jstr entry ''side''))) exec_ms entries
        | _ \<Rightarrow> False)"

text \<open>The new rows of a window that \<open>keep\<close> selects, in order\<close>

fun keep_unbooked ::
    "(jdict \<Rightarrow> bool) \<Rightarrow> string list \<Rightarrow> py list \<Rightarrow> jdict list \<Rightarrow> py_error + jdict list" where
  "keep_unbooked keep booked [] found = Inr found"
| "keep_unbooked keep booked (v # vs) found =
     res_bind (as_dict v) (\<lambda>entry.
       let eid = jstr entry ''execId'' in
       if eid \<noteq> [] \<and> eid \<notin> set booked \<and> eid \<notin> set (map (\<lambda>d. jstr d ''execId'') found) \<and> keep entry
       then keep_unbooked keep booked vs (found @ [entry])
       else keep_unbooked keep booked vs found)"

definition baseline_error :: "string \<Rightarrow> raised" where
  "baseline_error m = Bybit (BybitAdoptionBaselineError (''adoption baseline: '' @ m))"

definition history_error :: "instrument_info \<Rightarrow> int \<Rightarrow> int \<Rightarrow> raised" where
  "history_error market s e =
     baseline_error (''execution history read failed for '' @ in_symbol market @ '' ('' @ int_str s @ ''..'' @
       int_str e @ '')'')"

function unbooked_windows ::
    "executions_api \<Rightarrow> (jdict \<Rightarrow> bool) \<Rightarrow> string list \<Rightarrow> instrument_info \<Rightarrow> int \<Rightarrow> int \<Rightarrow> jdict list \<Rightarrow>
     raised + jdict list" where
  "unbooked_windows api keep booked market floor_ms s found =
     (if s < floor_ms
      then
        (let e = min (s + EXECUTION_WINDOW_MS) floor_ms in
         case drain_deriv_exec_window MAX_BACKFILL_WINDOW_PAGES api s e PNone [] of
           Inl x \<Rightarrow> Inl x
         | Inr (vs, conclusive) \<Rightarrow>
             if \<not> conclusive then Inl (history_error market s e)
             else (case keep_unbooked keep booked vs found of
                     Inl x \<Rightarrow> Inl (Lang x)
                   | Inr found1 \<Rightarrow> unbooked_windows api keep booked market floor_ms e found1))
      else Inr (sort_executions found))"
  by pat_completeness auto

termination unbooked_windows
  by (relation "measure (\<lambda>(api, keep, booked, market, floor_ms, s, found). nat (floor_ms - s))")
    (auto simp: EXECUTION_WINDOW_MS_def)

declare unbooked_windows.simps [simp del]

text \<open>\<open>watermark\<close> is the persisted backfill watermark, \<open>booked\<close> the ids the run's audit events hold.\<close>

definition unbooked_executions ::
    "executions_api \<Rightarrow> int option \<Rightarrow> string list \<Rightarrow> instrument_info \<Rightarrow> int \<Rightarrow> int \<Rightarrow> (jdict \<Rightarrow> bool) \<Rightarrow>
     raised + jdict list" where
  "unbooked_executions api watermark booked market oldest_ms floor_ms keep =
     (let s = oldest_ms - EXECUTION_SINCE_SKEW_MS;
          s1 = (case watermark of Some w \<Rightarrow> max s (w - EXECUTION_CURSOR_OVERLAP_MS) | None \<Rightarrow> s)
      in unbooked_windows api keep booked market floor_ms s1 [])"

definition oldest_created :: "order_row list \<Rightarrow> int" where
  "oldest_created rows = Min (set (map or_created_ms rows))"

definition unbooked_venue_stop_executions ::
    "executions_api \<Rightarrow> int option \<Rightarrow> string list \<Rightarrow> instrument_info \<Rightarrow> order_row list \<Rightarrow> int \<Rightarrow> raised + jdict list" where
  "unbooked_venue_stop_executions api watermark booked market ownerships floor_ms =
     (let owners = filter (\<lambda>r. or_side r = ''buy'' \<or> or_side r = ''sell'') ownerships in
      if in_category market = CATEGORY_SPOT \<or> owners = [] then Inr []
      else unbooked_executions api watermark booked market (oldest_created owners) floor_ms
             (\<lambda>entry. own_venue_stop_execution entry market owners))"

definition unbooked_venue_closeouts ::
    "framework \<Rightarrow> executions_api \<Rightarrow> int option \<Rightarrow> string list \<Rightarrow> instrument_info \<Rightarrow> order_row list \<Rightarrow> int \<Rightarrow>
     raised + jdict list" where
  "unbooked_venue_closeouts F api watermark booked market live floor_ms =
     (let entries = exposed (is_entry_row F) live in
      if in_category market = CATEGORY_SPOT \<or> entries = [] then Inr []
      else unbooked_executions api watermark booked market (oldest_created entries) floor_ms
             (\<lambda>entry. venue_closeout_execution entry market entries))"

section \<open>Parked slices, the venue clock, the snapshot's identity\<close>

text \<open>
  The private execution frames parked behind the adoption gate: slices of an order up to the floor
  that the walk has not read. Their ids, summed quantity and rows.
\<close>

definition parked_match :: "instrument_info \<Rightarrow> string \<Rightarrow> jdict \<Rightarrow> bool" where
  "parked_match market order_id entry \<longleftrightarrow>
     on_market market entry \<and> jstr_or entry ''execType'' ''Trade'' = ''Trade'' \<and> jstr entry ''orderId'' = order_id"

fun parked_rows ::
    "instrument_info \<Rightarrow> string \<Rightarrow> int \<Rightarrow> string list \<Rightarrow> py list \<Rightarrow> string list \<times> rat \<times> jdict list \<Rightarrow>
     raised + (string list \<times> rat \<times> jdict list)" where
  "parked_rows market order_id floor_ms known [] acc = Inr acc"
| "parked_rows market order_id floor_ms known (v # vs) (ids, q, rows) =
     res_bind (lift_err (as_dict v)) (\<lambda>entry.
       if \<not> parked_match market order_id entry
       then parked_rows market order_id floor_ms known vs (ids, q, rows)
       else
         res_bind (wire_int ''execTime'' (jget entry ''execTime'')) (\<lambda>exec_time.
           let eid = jstr entry ''execId'' in
           if exec_time > floor_ms \<or> eid = [] \<or> eid \<in> set ids \<or> eid \<in> set known
           then parked_rows market order_id floor_ms known vs (ids, q, rows)
           else res_bind (wire_float ''execQty'' (jget entry ''execQty'')) (\<lambda>x.
                  parked_rows market order_id floor_ms known vs (ids @ [eid], q + x, rows @ [entry]))))"

fun parked_adoption_executions ::
    "instrument_info \<Rightarrow> string \<Rightarrow> int \<Rightarrow> string list \<Rightarrow> jdict list \<Rightarrow> string list \<times> rat \<times> jdict list \<Rightarrow>
     raised + (string list \<times> rat \<times> jdict list)" where
  "parked_adoption_executions market order_id floor_ms known [] acc = Inr acc"
| "parked_adoption_executions market order_id floor_ms known (frame # frames) acc =
     (if jstr frame ''topic'' \<noteq> ''execution''
      then parked_adoption_executions market order_id floor_ms known frames acc
      else res_bind (lift_err (as_list (py_or (jget frame ''data'') (PList [])))) (\<lambda>vs.
           res_bind (parked_rows market order_id floor_ms known vs acc)
             (parked_adoption_executions market order_id floor_ms known frames)))"

text \<open>A data error of the clock reading becomes a baseline error.\<close>

definition venue_time_ms :: "raised + jdict \<Rightarrow> raised + int" where
  "venue_time_ms reply =
     res_bind reply (\<lambda>result.
       let nano = jget result ''timeNano'' in
       case (if nano \<noteq> PNone \<and> nano \<noteq> PStr []
             then res_bind (wire_int ''timeNano'' nano) (\<lambda>t. Inr (t div 1000000))
             else res_bind (wire_int ''timeSecond'' (jget result ''timeSecond'')) (\<lambda>t. Inr (t * 1000))) of
         Inl (Bybit (BybitPositionDataError m)) \<Rightarrow> Inl (baseline_error ''venue time response is invalid'')
       | r \<Rightarrow> r)"

text \<open>Two snapshots are the same when their rows agree as a multiset of these five fields.\<close>

type_synonym row_signature = "int \<times> string \<times> string \<times> string \<times> string"

definition row_sig :: "jdict \<Rightarrow> raised + row_signature" where
  "row_sig row =
     res_bind (wire_int ''positionIdx'' (jget row ''positionIdx'')) (\<lambda>idx.
       Inr (idx, jstr row ''side'', jstr row ''size'', jstr row ''avgPrice'', jstr row ''updatedTime''))"

definition same_signature :: "jdict list \<Rightarrow> jdict list \<Rightarrow> raised + bool" where
  "same_signature a b =
     res_bind (res_map row_sig a) (\<lambda>x. res_bind (res_map row_sig b) (\<lambda>y. Inr (mset x = mset y)))"

text \<open>Concrete inputs: an order with two executions, a linear perpetual.\<close>

definition example_executions :: executions_api where
  "example_executions s e cursor =
     Inr [(''list'', PList
       [PDict [(''execId'', PStr ''e1''), (''execQty'', PStr ''2'')],
        PDict [(''execId'', PStr ''e2''), (''execQty'', PStr ''1'')]])]"

definition example_perpetual :: instrument_info where
  "example_perpetual = example_market\<lparr>in_category := ''linear'', in_contract_type := ''LinearPerpetual''\<rparr>"

end
