(* ===== verification/Adoption.thy ===== *)
theory Adoption
  imports Order_Reads
begin

text \<open>
  The startup adoption baseline (\<open>_apply_adoption_baseline\<close> in
  \<^verbatim>\<open>src/src/pynecore_bybit/positions.py\<close>): the one-shot barrier that seeds every live row's fill cursor
  from the venue's own per-order history before the engine adopts the net position, with the persisted
  credits of \<^verbatim>\<open>src/src/pynecore_bybit/protection.py\<close> it takes. What the venue answers in each of the
  attempts is an argument; the store is unchanged while the reads run. The three closing calls into
  the protection mix-in (forgetting a fired stop, noting since when the share is held, advancing the
  ledgers) are the parameter \<open>av_finish\<close>; audit events and logging are left out.
\<close>

section \<open>State and environment\<close>

type_synonym leg_credits = "(int \<times> rat \<times> rat) list"

record 's adoption =
  ad_store :: 's
  ad_baselined :: bool
  ad_floor_ms :: int
  ad_seen :: "string list"
  ad_positions :: position_state
  ad_credits :: "int \<Rightarrow> leg_credits"

text \<open>The answers: attempts are numbered, the executions of an order are keyed by its id.\<close>

record 's adoption_env =
  av_fuel :: nat
  av_time :: "raised + jdict"
  av_lookup :: "nat \<Rightarrow> string \<Rightarrow> (raised + jdict) list"
  av_executions :: "nat \<Rightarrow> string \<Rightarrow> executions_api"
  av_history :: "nat \<Rightarrow> executions_api"
  av_positions :: "nat \<Rightarrow> raised + jdict"
  av_clock :: "nat \<Rightarrow> int"
  av_frames :: "nat \<Rightarrow> jdict list"
  av_watermark :: "int option"
  av_ownerships :: "'s \<Rightarrow> order_row list"
  av_booked_stops :: "string list"
  av_booked_closeouts :: "string list"
  av_finish :: "jdict list \<Rightarrow> int \<Rightarrow> 's adoption \<Rightarrow> raised + 's adoption"

text \<open>Sequencing of a read that may still be going.\<close>

definition read_bind :: "(raised + 'a) option \<Rightarrow> ('a \<Rightarrow> (raised + 'b) option) \<Rightarrow> (raised + 'b) option" where
  "read_bind m f =
     (case m of None \<Rightarrow> None | Some (Inl e) \<Rightarrow> Some (Inl e) | Some (Inr x) \<Rightarrow> f x)"

lemma read_bind_Inr [simp]:
  "read_bind m f = Some (Inr y) \<longleftrightarrow> (\<exists>x. m = Some (Inr x) \<and> f x = Some (Inr y))"
  by (auto simp: read_bind_def split: option.splits sum.splits)

section \<open>One row's seed\<close>

record seed =
  sd_row :: order_row
  sd_ids :: "string list"
  sd_qty :: rat
  sd_dead :: bool
  sd_rows :: "jdict list"
  sd_cum :: "rat option"

definition order_id_of :: "order_row \<Rightarrow> jdict option \<Rightarrow> string" where
  "order_id_of row lookup =
     (case or_order_id row of
        Some (c # cs) \<Rightarrow> c # cs
      | _ \<Rightarrow> (case lookup of None \<Rightarrow> [] | Some d \<Rightarrow> jstr d ''orderId''))"

text \<open>The walk of an order's executions, joined with the slices parked behind the gate.\<close>

definition walk_order ::
    "'s adoption_env \<Rightarrow> nat \<Rightarrow> instrument_info \<Rightarrow> int \<Rightarrow> order_row \<Rightarrow> string \<Rightarrow>
     (raised + (string list \<times> rat \<times> jdict list)) option" where
  "walk_order env k market floor_ms row order_id =
     (if order_id = [] then Some (Inr ([], 0, []))
      else
        read_bind (recovery_fill_ids (av_fuel env) (av_executions env k order_id) order_id (av_clock env k)
            (or_created_ms row - EXECUTION_SINCE_SKEW_MS) (Some floor_ms)) (\<lambda>w.
          if \<not> fw_seeded w
          then Some (Inl (baseline_error (''execution seed read failed for order '' @ order_id)))
          else
            Some (res_bind
              (parked_adoption_executions market order_id floor_ms (fw_ids w) (av_frames env k) ([], 0, []))
              (\<lambda>(ids, q, rows). Inr (fw_ids w @ ids, fw_qty w + q, fw_rows w @ rows)))))"

definition seed_of ::
    "'s adoption_env \<Rightarrow> nat \<Rightarrow> instrument_info \<Rightarrow> int \<Rightarrow> order_row \<Rightarrow> (raised + seed) option" where
  "seed_of env k market floor_ms row =
     (case confirm_lookup (Some (or_created_ms row)) (av_lookup env k (or_coid row)) of
        Inl e \<Rightarrow> Some (Inl e)
      | Inr (lookup, conclusive) \<Rightarrow>
          if \<not> conclusive
          then Some (Inl (baseline_error (''orderLinkId lookup failed for '' @ or_coid row)))
          else
            read_bind (walk_order env k market floor_ms row (order_id_of row lookup)) (\<lambda>(ids, q, rows).
              Some (res_bind
                (case lookup of
                   None \<Rightarrow> Inr None
                 | Some d \<Rightarrow> res_bind (wire_float ''cumExecQty'' (jget d ''cumExecQty'')) (\<lambda>c. Inr (Some c)))
                (\<lambda>cum. Inr \<lparr>sd_row = row, sd_ids = ids, sd_qty = q, sd_dead = (lookup = None), sd_rows = rows,
                           sd_cum = cum\<rparr>))))"

text \<open>The order truth leads the execution index: the seed does not cover \<open>cumExecQty\<close>.\<close>

definition lags :: "seed \<Rightarrow> bool" where
  "lags sd = (case sd_cum sd of None \<Rightarrow> False | Some c \<Rightarrow> sd_qty sd < c - FILL_EPS)"

fun seeds_of ::
    "'s adoption_env \<Rightarrow> nat \<Rightarrow> instrument_info \<Rightarrow> int \<Rightarrow> order_row list \<Rightarrow> (raised + seed list) option" where
  "seeds_of env k market floor_ms [] = Some (Inr [])"
| "seeds_of env k market floor_ms (row # rows) =
     read_bind (seed_of env k market floor_ms row) (\<lambda>sd.
     read_bind (seeds_of env k market floor_ms rows) (\<lambda>sds. Some (Inr (sd # sds))))"

definition walked_rows :: "framework \<Rightarrow> order_row list \<Rightarrow> order_row list" where
  "walked_rows F rows =
     filter (\<lambda>r. or_state r \<notin> set (fc_pending_states F) \<and> or_state r \<notin> set (fc_ledger_states F)) rows"

section \<open>Committing a stable pass\<close>

definition seed_cumulative :: "seed \<Rightarrow> rat" where
  "seed_cumulative sd =
     (let row = sd_row sd;
          netted = (case venue_filled_qty (or_filled row) (or_extras row) of Fin v \<Rightarrow> v - or_filled row | _ \<Rightarrow> 0)
      in min (or_qty row) (max (or_filled row) (sd_qty sd - netted)))"

definition is_reduce_row :: "order_row \<Rightarrow> bool" where
  "is_reduce_row r = kind_in [''exit_leg'', ''close''] r"

definition retire_row :: "'s store_ops \<Rightarrow> order_row \<Rightarrow> 's \<Rightarrow> 's" where
  "retire_row ops row s =
     (let s1 = so_close ops (or_coid row) (so_unpark ops (or_coid row) s)
      in case or_intent_key row of
           Some (c # cs) \<Rightarrow> so_complete ops (c # cs) s1
         | _ \<Rightarrow> s1)"

type_synonym reduce_item = "string \<times> rat \<times> jdict list"

definition seed_reduce :: "seed \<Rightarrow> reduce_item list" where
  "seed_reduce sd =
     (let row = sd_row sd; cumulative = seed_cumulative sd
      in if is_reduce_row row \<and> cumulative > or_filled row + FILL_EPS
         then [(or_side row, cumulative - or_filled row, sd_rows sd)] else [])"

definition commit_seed :: "framework \<Rightarrow> 's store_ops \<Rightarrow> seed \<Rightarrow> 's \<Rightarrow> 's" where
  "commit_seed F ops sd s =
     (let row = sd_row sd;
          cumulative = seed_cumulative sd;
          s1 = (if cumulative > or_filled row
                then so_update ops (or_coid row) (\<lambda>r. r\<lparr>or_filled := cumulative\<rparr>) s else s)
      in if sd_dead sd \<and> is_entry_row F row \<and> cumulative > FILL_EPS
         then (if cumulative < or_qty row - FILL_EPS
               then so_update ops (or_coid row) (\<lambda>r. r\<lparr>or_qty := cumulative\<rparr>) s1 else s1)
         else if sd_dead sd then retire_row ops row s1
         else if is_reduce_row row \<and> cumulative \<ge> or_qty row - FILL_EPS then retire_row ops row s1
         else s1)"

fun commit_seeds :: "framework \<Rightarrow> 's store_ops \<Rightarrow> seed list \<Rightarrow> 's \<Rightarrow> 's" where
  "commit_seeds F ops [] s = s"
| "commit_seeds F ops (sd # sds) s = commit_seeds F ops sds (commit_seed F ops sd s)"

text \<open>The credits an earlier process left, taken by the unbooked executions, newest first.\<close>

definition newest_first :: "jdict list \<Rightarrow> jdict list" where
  "newest_first rows = sort_key (\<lambda>e. (- fst (execution_sort_key e), - snd (execution_sort_key e))) rows"

definition reduced_direction :: "string \<Rightarrow> position_state \<Rightarrow> rat" where
  "reduced_direction side S = (if hedge S \<or> side = ''sell'' then 1 else - 1)"

fun take_for_rows ::
    "rat \<Rightarrow> rat \<Rightarrow> jdict list \<Rightarrow> rat \<Rightarrow> rat \<Rightarrow> leg_ledger \<Rightarrow> leg_ledger \<times> rat" where
  "take_for_rows d tolerance [] remaining taken L = (L, taken)"
| "take_for_rows d tolerance (entry # es) remaining taken L =
     (if remaining \<le> tolerance then (L, taken)
      else
        let part = min (case venue_qty (jget entry ''execQty'') of Some q \<Rightarrow> q | None \<Rightarrow> 0) remaining;
            (L1, t) = (case parse_seq (jget entry ''seq'') of
                         Some seq \<Rightarrow> take_credit seq part d tolerance L | None \<Rightarrow> (L, 0))
        in take_for_rows d tolerance es (remaining - part) (taken + t) L1)"

fun take_persisted_ledger_credits ::
    "position_state \<Rightarrow> rat \<Rightarrow> reduce_item list \<Rightarrow> (int \<Rightarrow> leg_credits) \<Rightarrow> (string \<times> rat) list" where
  "take_persisted_ledger_credits S tolerance [] by_leg = []"
| "take_persisted_ledger_credits S tolerance ((side, q, rows) # items) by_leg =
     (let idx = closed_leg side S;
          (L, taken) = take_for_rows (reduced_direction side S) tolerance (newest_first rows) q 0
                         (new_ledger\<lparr>ll_credits := by_leg idx\<rparr>)
      in (side, q - taken) # take_persisted_ledger_credits S tolerance items (by_leg(idx := ll_credits L)))"

fun reduce_each :: "framework \<Rightarrow> 's store_ops \<Rightarrow> (string \<times> rat) list \<Rightarrow> 's \<Rightarrow> 's" where
  "reduce_each F ops [] s = s"
| "reduce_each F ops ((side, q) # rest) s = reduce_each F ops rest (reduce_entry_ownership F ops side q s)"

text \<open>A venue close of the run's side while it was down: its share there is taken as gone.\<close>

fun retire_closeouts :: "framework \<Rightarrow> 's store_ops \<Rightarrow> jdict list \<Rightarrow> 's \<Rightarrow> 's" where
  "retire_closeouts F ops [] s = s"
| "retire_closeouts F ops (entry # es) s =
     (let side = lower (jstr entry ''side'') in
      retire_closeouts F ops es
        (reduce_entry_ownership F ops side (entry_side_exposure F side (so_live ops s)) s))"

definition stop_reduces :: "jdict list \<Rightarrow> reduce_item list" where
  "stop_reduces stops = map (\<lambda>e. (lower (jstr e ''side''), quantity_of e, [e])) stops"

text \<open>What one complete pass of reads found.\<close>

record adoption_pass =
  ap_seeds :: "seed list"
  ap_stops :: "jdict list"
  ap_closeouts :: "jdict list"
  ap_verify :: "jdict list"

definition qty_tolerance :: "instrument_info \<Rightarrow> rat" where
  "qty_tolerance market =
     (case in_qty_step market of Fin s \<Rightarrow> if s > 0 then s / 2 else FILL_EPS | _ \<Rightarrow> FILL_EPS)"

definition exec_ids :: "jdict list \<Rightarrow> string list" where
  "exec_ids rows = map (\<lambda>e. jstr e ''execId'') rows"

definition commit_pass ::
    "framework \<Rightarrow> 's store_ops \<Rightarrow> instrument_info \<Rightarrow> int \<Rightarrow> adoption_pass \<Rightarrow> 's adoption \<Rightarrow> raised + 's adoption" where
  "commit_pass F ops market floor_ms p A =
     (let S = ad_positions A;
          reduces = concat (map seed_reduce (ap_seeds p)) @ stop_reduces (ap_stops p);
          credited = take_persisted_ledger_credits S (qty_tolerance market) reduces (ad_credits A);
          s1 = commit_seeds F ops (ap_seeds p) (ad_store A);
          s2 = retire_closeouts F ops (ap_closeouts p) (reduce_each F ops credited s1)
      in res_bind (clamp_entry_ownership_to_venue F ops (hedge S) (ap_verify p) s2) (\<lambda>s3.
           Inr (A\<lparr>ad_store := s3, ad_baselined := True, ad_floor_ms := floor_ms,
                  ad_seen := ad_seen A @ concat (map sd_ids (ap_seeds p)) @ exec_ids (ap_stops p)
                    @ exec_ids (ap_closeouts p),
                  ad_credits := (\<lambda>idx. [])\<rparr>)))"

section \<open>The attempts\<close>

definition verify_rows :: "raised + jdict \<Rightarrow> raised + jdict list" where
  "verify_rows reply =
     (case fetch_position_rows reply of
        Inl (Bybit e) \<Rightarrow> Inl (baseline_error ''verify snapshot read failed'')
      | r \<Rightarrow> r)"

definition read_pass ::
    "framework \<Rightarrow> 's store_ops \<Rightarrow> 's adoption_env \<Rightarrow> nat \<Rightarrow> instrument_info \<Rightarrow> int \<Rightarrow> 's adoption \<Rightarrow>
     (raised + adoption_pass) option" where
  "read_pass F ops env k market floor_ms A =
     read_bind (seeds_of env k market floor_ms (walked_rows F (so_live ops (ad_store A)))) (\<lambda>sds.
     Some (res_bind (unbooked_venue_stop_executions (av_history env k) (av_watermark env) (av_booked_stops env)
             market (av_ownerships env (ad_store A)) floor_ms) (\<lambda>stops.
           res_bind (unbooked_venue_closeouts F (av_history env k) (av_watermark env) (av_booked_closeouts env)
             market (so_live ops (ad_store A)) floor_ms) (\<lambda>closeouts.
           res_bind (verify_rows (av_positions env k)) (\<lambda>verify.
             Inr \<lparr>ap_seeds = sds, ap_stops = stops, ap_closeouts = closeouts, ap_verify = verify\<rparr>)))))"

text \<open>The first lagging order of the last lagging attempt is reported; \<open>lag\<close> remembers one was seen.\<close>

definition attempts_error :: "bool \<Rightarrow> raised" where
  "attempts_error lag =
     baseline_error (if lag then ''execution index remained behind order truth across 3 attempts''
                     else ''position snapshot kept changing across 3 attempts'')"

definition after_pass ::
    "framework \<Rightarrow> 's store_ops \<Rightarrow> 's adoption_env \<Rightarrow> instrument_info \<Rightarrow> int \<Rightarrow> adoption_pass \<Rightarrow> 's adoption \<Rightarrow>
     's adoption \<times> (raised + jdict list)" where
  "after_pass F ops env market floor_ms p A =
     (case commit_pass F ops market floor_ms p A of
        Inl e \<Rightarrow> (A, Inl e)
      | Inr A1 \<Rightarrow>
          (case av_finish env (ap_verify p) floor_ms A1 of
             Inl e \<Rightarrow> (A1, Inl e)
           | Inr A2 \<Rightarrow> (A2, Inr (ap_verify p))))"

fun adoption_attempts ::
    "framework \<Rightarrow> 's store_ops \<Rightarrow> 's adoption_env \<Rightarrow> instrument_info \<Rightarrow> int \<Rightarrow> nat \<Rightarrow> nat \<Rightarrow> bool \<Rightarrow>
     jdict list \<Rightarrow> 's adoption \<Rightarrow> ('s adoption \<times> (raised + jdict list)) option" where
  "adoption_attempts F ops env market floor_ms 0 k lag rows A = Some (A, Inl (attempts_error lag))"
| "adoption_attempts F ops env market floor_ms (Suc n) k lag rows A =
     (case read_pass F ops env k market floor_ms A of
        None \<Rightarrow> None
      | Some (Inl e) \<Rightarrow> Some (A, Inl e)
      | Some (Inr p) \<Rightarrow>
          (case ingest_position_sizes (av_clock env k) (ap_verify p) (ad_positions A) of
             Inl e \<Rightarrow> Some (A, Inl e)
           | Inr S \<Rightarrow>
               (let A1 = A\<lparr>ad_positions := S\<rparr>; behind = list_ex lags (ap_seeds p) in
                case same_signature (ap_verify p) rows of
                  Inl e \<Rightarrow> Some (A1, Inl e)
                | Inr same \<Rightarrow>
                    if \<not> same \<or> behind
                    then adoption_attempts F ops env market floor_ms n (Suc k) (lag \<or> behind) (ap_verify p) A1
                    else Some (after_pass F ops env market floor_ms p A1))))"

definition ADOPTION_STABLE_ATTEMPTS :: nat where "ADOPTION_STABLE_ATTEMPTS = 3"

text \<open>\<open>has_store\<close>: a broker store is configured. The result is the snapshot to report from.\<close>

definition apply_adoption_baseline ::
    "framework \<Rightarrow> 's store_ops \<Rightarrow> bool \<Rightarrow> 's adoption_env \<Rightarrow> instrument_info \<Rightarrow> jdict list \<Rightarrow> 's adoption \<Rightarrow>
     ('s adoption \<times> (raised + jdict list)) option" where
  "apply_adoption_baseline F ops has_store env market rows A =
     (if \<not> has_store \<or> ad_baselined A then Some (A, Inr rows)
      else
        case venue_time_ms (av_time env) of
          Inl (Bybit e) \<Rightarrow> Some (A, Inl (baseline_error ''venue time read failed''))
        | Inl e \<Rightarrow> Some (A, Inl e)
        | Inr floor_ms \<Rightarrow>
            if floor_ms \<le> 0 then Some (A, Inl (baseline_error ''venue time read returned no timestamp''))
            else adoption_attempts F ops env market floor_ms ADOPTION_STABLE_ATTEMPTS 0 False rows A)"

section \<open>What a committed pass guarantees\<close>

context order_store
begin

lemma reduce_well_filled:
  "well_filled (so_live ops s) \<Longrightarrow> well_filled (so_live ops (reduce_entry_ownership F ops side q s))"
  using fifo_well_filled [OF nettable_exposed [OF live_distinct]]
  by (simp add: reduce_entry_ownership_def reducible_rows_def)

lemma reduce_each_well_filled:
  "well_filled (so_live ops s) \<Longrightarrow> well_filled (so_live ops (reduce_each F ops items s))"
  by (induction items arbitrary: s) (auto simp: reduce_well_filled)

lemma retire_closeouts_well_filled:
  "well_filled (so_live ops s) \<Longrightarrow> well_filled (so_live ops (retire_closeouts F ops es s))"
  by (induction es arbitrary: s) (auto simp: reduce_well_filled Let_def)

lemma retire_row_live:
  "so_live ops (retire_row ops row s) = filter (\<lambda>r. or_coid r \<noteq> or_coid row) (so_live ops s)"
  by (auto simp: retire_row_def Let_def live_close live_unpark live_complete split: option.splits list.splits)

lemma update_well_filled:
  assumes "well_filled (so_live ops s)" and "\<And>r. or_coid (f r) = or_coid r"
    and "\<And>r. r \<in> set (so_live ops s) \<Longrightarrow> or_coid r = c \<Longrightarrow> or_filled (f r) \<le> or_qty (f r)"
  shows "well_filled (so_live ops (so_update ops c f s))"
  using assms by (auto simp: well_filled_def live_update)

lemma only_row:
  "row \<in> set (so_live ops s) \<Longrightarrow> r \<in> set (so_live ops s) \<Longrightarrow> or_coid r = or_coid row \<Longrightarrow> r = row"
  using live_distinct [of s] by (metis distinct_map inj_on_def)

lemma seed_cumulative_bounds:
  "or_filled (sd_row sd) \<le> or_qty (sd_row sd) \<Longrightarrow>
     or_filled (sd_row sd) \<le> seed_cumulative sd \<and> seed_cumulative sd \<le> or_qty (sd_row sd)"
  by (simp add: seed_cumulative_def Let_def)

lemma commit_seed_well_filled:
  assumes "well_filled (so_live ops s)" and row: "sd_row sd \<in> set (so_live ops s)"
  shows "well_filled (so_live ops (commit_seed F ops sd s))"
proof -
  let ?row = "sd_row sd" let ?c = "seed_cumulative sd"
  have b: "or_filled ?row \<le> ?c" "?c \<le> or_qty ?row"
    using seed_cumulative_bounds assms by (auto simp: well_filled_def)
  define s1 where "s1 = (if ?c > or_filled ?row
      then so_update ops (or_coid ?row) (\<lambda>r. r\<lparr>or_filled := ?c\<rparr>) s else s)"
  have w1: "well_filled (so_live ops s1)"
  proof (cases "?c > or_filled ?row")
    case True
    have "?c \<le> or_qty r" if "r \<in> set (so_live ops s)" "or_coid r = or_coid ?row" for r
      using only_row [OF row that] b(2) by simp
    then show ?thesis using True assms(1) by (simp add: s1_def update_well_filled)
  next
    case False
    then show ?thesis using assms(1) by (simp add: s1_def)
  qed
  have f1: "or_filled r = ?c" if "r \<in> set (so_live ops s1)" "or_coid r = or_coid ?row" for r
    using that only_row [OF row] b(1) by (fastforce simp: s1_def live_update split: if_splits)
  have w2: "well_filled (so_live ops (so_update ops (or_coid ?row) (\<lambda>r. r\<lparr>or_qty := ?c\<rparr>) s1))"
    using w1 f1 by (intro update_well_filled) auto
  have w3: "well_filled (so_live ops (retire_row ops ?row s1))"
    using w1 by (auto simp: retire_row_live well_filled_def)
  show ?thesis using w1 w2 w3 by (simp add: commit_seed_def Let_def s1_def [symmetric])
qed

lemma commit_seed_keeps:
  assumes "r \<in> set (so_live ops s)" and "or_coid r \<noteq> or_coid (sd_row sd)"
  shows "r \<in> set (so_live ops (commit_seed F ops sd s))"
  using assms by (auto simp: commit_seed_def Let_def retire_row_live live_update image_iff)

lemma commit_seeds_well_filled:
  assumes "well_filled (so_live ops s)" and "distinct (map (or_coid \<circ> sd_row) sds)"
    and "\<forall>sd \<in> set sds. sd_row sd \<in> set (so_live ops s)"
  shows "well_filled (so_live ops (commit_seeds F ops sds s))"
  using assms
proof (induction sds arbitrary: s)
  case Nil
  then show ?case by simp
next
  case (Cons sd sds)
  have "\<forall>x \<in> set sds. sd_row x \<in> set (so_live ops (commit_seed F ops sd s))"
  proof
    fix x
    assume x: "x \<in> set sds"
    then have "or_coid (sd_row x) \<noteq> or_coid (sd_row sd)" using Cons.prems(2) by (auto simp: image_iff)
    then show "sd_row x \<in> set (so_live ops (commit_seed F ops sd s))"
      using x Cons.prems(3) by (intro commit_seed_keeps) auto
  qed
  then show ?case using Cons commit_seed_well_filled by simp
qed

end

text \<open>The seeds of a pass are those of its rows, in order.\<close>

lemma seed_of_row: "seed_of env k market floor_ms row = Some (Inr sd) \<Longrightarrow> sd_row sd = row"
  by (auto simp: seed_of_def res_bind_Inr_iff split: sum.splits if_splits)

lemma seeds_of_rows:
  "seeds_of env k market floor_ms rows = Some (Inr sds) \<Longrightarrow>
     map sd_row sds = rows \<and> (\<forall>sd \<in> set sds. seed_of env k market floor_ms (sd_row sd) = Some (Inr sd))"
  by (induction rows arbitrary: sds) (auto simp: seed_of_row)

lemma ingest_parsed:
  "ingest_position_sizes now rows S = Inr S' \<Longrightarrow> \<exists>parsed. res_map read_row rows = Inr parsed"
  by (auto simp: ingest_position_sizes_def res_bind_Inr_iff)

lemma venue_sides_total:
  "res_map read_row rows = Inr parsed \<Longrightarrow> \<exists>v. venue_sides rows acc = Inr v"
proof (induction rows arbitrary: parsed acc)
  case Nil
  then show ?case by simp
next
  case (Cons r rows)
  then obtain p ps where p: "read_row r = Inr p" and ps: "res_map read_row rows = Inr ps"
    by (auto simp: res_bind_Inr_iff)
  obtain sz where sz: "position_row_size r = Inr sz" using p by (auto simp: read_row_def res_bind_Inr_iff)
  obtain b s where acc: "acc = (b, s)" by (cases acc)
  show ?case unfolding acc using Cons.IH [OF ps] by (simp add: sz Let_def del: split_paired_Ex)
qed

lemma commit_pass_total:
  assumes "ingest_position_sizes now (ap_verify p) S = Inr S'"
  shows "\<exists>A1. commit_pass F ops market floor_ms p A = Inr A1"
proof -
  obtain parsed where "res_map read_row (ap_verify p) = Inr parsed" using ingest_parsed [OF assms] by blast
  then obtain v where "venue_sides (ap_verify p) (0, 0) = Inr v" using venue_sides_total by blast
  then show ?thesis
    by (cases v) (simp add: commit_pass_def clamp_entry_ownership_to_venue_def Let_def)
qed

text \<open>Nothing committed: only the size cache may have moved.\<close>

definition uncommitted :: "'s adoption \<Rightarrow> 's adoption \<Rightarrow> bool" where
  "uncommitted A B \<longleftrightarrow> ad_store B = ad_store A \<and> ad_baselined B = ad_baselined A \<and>
     ad_floor_ms B = ad_floor_ms A \<and> ad_seen B = ad_seen A \<and> ad_credits B = ad_credits A"

lemma uncommitted_refl [simp]: "uncommitted A A" "uncommitted A (A\<lparr>ad_positions := S\<rparr>)"
  by (simp_all add: uncommitted_def)

lemma uncommitted_trans: "uncommitted A B \<Longrightarrow> uncommitted B C \<Longrightarrow> uncommitted A C"
  by (simp add: uncommitted_def)

lemma read_pass_store: "ad_store B = ad_store A \<Longrightarrow> read_pass F ops env k market fl B = read_pass F ops env k market fl A"
  by (simp add: read_pass_def)

text \<open>The snapshot an attempt is compared with: the caller's, or the one the attempt before verified.\<close>

definition snapshot_before :: "'s adoption_env \<Rightarrow> nat \<Rightarrow> nat \<Rightarrow> jdict list \<Rightarrow> jdict list \<Rightarrow> bool" where
  "snapshot_before env k0 k rows before \<longleftrightarrow>
     (k = k0 \<and> before = rows) \<or> (k > k0 \<and> verify_rows (av_positions env (k - 1)) = Inr before)"

definition stable_pass ::
    "framework \<Rightarrow> 's store_ops \<Rightarrow> 's adoption_env \<Rightarrow> nat \<Rightarrow> instrument_info \<Rightarrow> int \<Rightarrow> jdict list \<Rightarrow> adoption_pass \<Rightarrow>
     's adoption \<Rightarrow> bool" where
  "stable_pass F ops env k market fl before p A1 \<longleftrightarrow>
     read_pass F ops env k market fl A1 = Some (Inr p) \<and> same_signature (ap_verify p) before = Inr True \<and>
     \<not> list_ex lags (ap_seeds p) \<and> (\<exists>A2. commit_pass F ops market fl p A1 = Inr A2)"

lemma read_pass_verify:
  "read_pass F ops env k market fl A = Some (Inr p) \<Longrightarrow> verify_rows (av_positions env k) = Inr (ap_verify p)"
  by (auto simp: read_pass_def res_bind_Inr_iff)

lemma attempts_outcome:
  assumes "adoption_attempts F ops env market fl n k lag rows A = Some (A', r)"
  shows "((\<exists>e. r = Inl e) \<and> uncommitted A A') \<or>
    (\<exists>k' before p A1. k' < k + n \<and> snapshot_before env k k' rows before \<and> uncommitted A A1 \<and>
       stable_pass F ops env k' market fl before p A1 \<and> (A', r) = after_pass F ops env market fl p A1)"
  using assms
proof (induction n arbitrary: k lag rows A)
  case 0
  then show ?case by auto
next
  case (Suc n)
  show ?case
  proof (cases "read_pass F ops env k market fl A")
    case None
    then show ?thesis using Suc.prems by simp
  next
    case (Some q)
    note read = this
    show ?thesis
    proof (cases q)
      case (Inl e)
      then show ?thesis using Suc.prems read by auto
    next
      case (Inr p)
      note read = read [unfolded this]
      show ?thesis
      proof (cases "ingest_position_sizes (av_clock env k) (ap_verify p) (ad_positions A)")
        case (Inl e)
        then show ?thesis using Suc.prems read by auto
      next
        case (Inr S)
        note ing = this
        let ?A1 = "A\<lparr>ad_positions := S\<rparr>" and ?behind = "list_ex lags (ap_seeds p)"
        show ?thesis
        proof (cases "same_signature (ap_verify p) rows")
          case (Inl e)
          then show ?thesis using Suc.prems read ing by auto
        next
          case (Inr same)
          show ?thesis
          proof (cases "\<not> same \<or> ?behind")
            case True
            then have "adoption_attempts F ops env market fl n (Suc k) (lag \<or> ?behind) (ap_verify p) ?A1 = Some (A', r)"
              using Suc.prems read ing Inr by (simp add: Let_def)
            from Suc.IH [OF this] show ?thesis
            proof (elim disjE exE conjE)
              fix k' before p' A1
              assume h: "k' < Suc k + n" "snapshot_before env (Suc k) k' (ap_verify p) before" "uncommitted ?A1 A1"
                "stable_pass F ops env k' market fl before p' A1" "(A', r) = after_pass F ops env market fl p' A1"
              have "snapshot_before env k k' rows before"
                using h(2) read_pass_verify [OF read] unfolding snapshot_before_def by auto
              moreover have "uncommitted A A1" using uncommitted_trans [OF uncommitted_refl(2) h(3)] .
              ultimately have "k' < k + Suc n \<and> snapshot_before env k k' rows before \<and> uncommitted A A1 \<and>
                  stable_pass F ops env k' market fl before p' A1 \<and> (A', r) = after_pass F ops env market fl p' A1"
                using h(1,4,5) by simp
              then show ?thesis by blast
            next
              fix e
              assume "uncommitted ?A1 A'" "r = Inl e"
              then show ?thesis using uncommitted_trans [OF uncommitted_refl(2)] by blast
            qed
          next
            case False
            then have ap: "(A', r) = after_pass F ops env market fl p ?A1"
              using Suc.prems read ing Inr by (simp add: Let_def)
            have "stable_pass F ops env k market fl rows p ?A1"
              using False Inr read commit_pass_total [OF ing] read_pass_store [of ?A1 A]
              by (simp add: stable_pass_def)
            then have "k < k + Suc n \<and> snapshot_before env k k rows rows \<and> uncommitted A ?A1 \<and>
                stable_pass F ops env k market fl rows p ?A1 \<and> (A', r) = after_pass F ops env market fl p ?A1"
              using ap by (simp add: snapshot_before_def)
            then show ?thesis by blast
          qed
        qed
      qed
    qed
  qed
qed

text \<open>What a settled row means: a conclusive lookup, every execution known, the order truth covered.\<close>

definition row_settled ::
    "'s adoption_env \<Rightarrow> nat \<Rightarrow> instrument_info \<Rightarrow> int \<Rightarrow> 's adoption \<Rightarrow> order_row \<Rightarrow> bool" where
  "row_settled env k market fl A row \<longleftrightarrow>
     (\<exists>lookup ids q rows.
        confirm_lookup (Some (or_created_ms row)) (av_lookup env k (or_coid row)) = Inr (lookup, True) \<and>
        walk_order env k market fl row (order_id_of row lookup) = Some (Inr (ids, q, rows)) \<and>
        set ids \<subseteq> set (ad_seen A) \<and>
        (\<forall>d c. lookup = Some d \<longrightarrow> wire_float ''cumExecQty'' (jget d ''cumExecQty'') = Inr c \<longrightarrow> c \<le> q + FILL_EPS))"

lemma seed_settled:
  assumes "seed_of env k market fl row = Some (Inr sd)" and "\<not> lags sd" and "set (sd_ids sd) \<subseteq> set (ad_seen A)"
  shows "row_settled env k market fl A row"
proof -
  obtain lookup where l: "confirm_lookup (Some (or_created_ms row)) (av_lookup env k (or_coid row)) = Inr (lookup, True)"
    using assms(1) by (auto simp: seed_of_def split: sum.splits if_splits)
  obtain ids q rows where w: "walk_order env k market fl row (order_id_of row lookup) = Some (Inr (ids, q, rows))"
    using assms(1) l by (auto simp: seed_of_def)
  have sd: "sd_ids sd = ids" "sd_qty sd = q"
    "sd_cum sd = (case lookup of None \<Rightarrow> None | Some d \<Rightarrow> (case wire_float ''cumExecQty'' (jget d ''cumExecQty'') of
        Inr c \<Rightarrow> Some c | Inl e \<Rightarrow> None))"
    using assms(1) l w by (auto simp: seed_of_def res_bind_Inr_iff read_bind_def split: option.splits)
  have "c \<le> q + FILL_EPS" if "lookup = Some d" "wire_float ''cumExecQty'' (jget d ''cumExecQty'') = Inr c" for d c
    using assms(2) that unfolding lags_def sd by simp
  then show ?thesis using l w assms(3) unfolding row_settled_def sd by blast
qed

text \<open>What a committed pass leaves behind, with the ownership that the venue snapshot bounds.\<close>

definition within_snapshot :: "framework \<Rightarrow> 's store_ops \<Rightarrow> bool \<Rightarrow> jdict list \<Rightarrow> 's \<Rightarrow> bool" where
  "within_snapshot F ops hedged rows s \<longleftrightarrow>
     (\<exists>v. venue_sides rows (0, 0) = Inr v \<and>
        exposure (settled_owning F ''buy'') (so_live ops s) \<le> fst (venue_share hedged v) + FILL_EPS \<and>
        exposure (settled_owning F ''sell'') (so_live ops s) \<le> snd (venue_share hedged v) + FILL_EPS)"

context order_store
begin

lemma clamp_within_snapshot:
  assumes "well_filled (so_live ops s)" and "clamp_entry_ownership_to_venue F ops hedged rows s = Inr s'"
  shows "within_snapshot F ops hedged rows s'"
proof -
  obtain b q where v: "venue_sides rows (0, 0) = Inr (b, q)"
    using assms(2) by (auto simp: clamp_entry_ownership_to_venue_def res_bind_Inr_iff)
  have nonneg: "0 \<le> fst (venue_share hedged (b, q))" "0 \<le> snd (venue_share hedged (b, q))"
    using venue_sides_nonneg [OF v] by (simp_all add: venue_share_def)
  define s1 where "s1 = (if hedged then s else fold_sides F ops s)"
  have w: "well_filled (so_live ops s1)"
    using assms(1) fold_side_well_filled by (simp add: s1_def fold_sides_def Let_def)
  have "s' = clamp_side F ops ''sell'' (snd (venue_share hedged (b, q)))
      (clamp_side F ops ''buy'' (fst (venue_share hedged (b, q))) s1)"
    using assms(2) by (auto simp: clamp_entry_ownership_to_venue_def v venue_share_def s1_def Let_def)
  then show ?thesis using clamp_within_venue [OF w nonneg] v unfolding within_snapshot_def by blast
qed

lemma commit_pass_settles:
  assumes "well_filled (so_live ops (ad_store A))" and "stable_pass F ops env k market fl before p A"
    and "commit_pass F ops market fl p A = Inr A2"
  shows "ad_baselined A2 \<and> ad_floor_ms A2 = fl \<and>
    (\<forall>row \<in> set (walked_rows F (so_live ops (ad_store A))). row_settled env k market fl A2 row) \<and>
    within_snapshot F ops (hedge (ad_positions A)) (ap_verify p) (ad_store A2)"
proof -
  let ?rows = "walked_rows F (so_live ops (ad_store A))"
  have sds: "seeds_of env k market fl ?rows = Some (Inr (ap_seeds p))"
    using assms(2) by (auto simp: stable_pass_def read_pass_def res_bind_Inr_iff)
  have rows: "map sd_row (ap_seeds p) = ?rows"
    and each: "\<forall>sd \<in> set (ap_seeds p). seed_of env k market fl (sd_row sd) = Some (Inr sd)"
    using seeds_of_rows [OF sds] by blast+
  have "distinct (map or_coid (map sd_row (ap_seeds p)))"
    unfolding rows using live_distinct [of "ad_store A"] by (simp add: walked_rows_def distinct_map_filter)
  moreover have "sd_row ` set (ap_seeds p) \<subseteq> set (so_live ops (ad_store A))"
    using arg_cong [OF rows, of set] by (auto simp: walked_rows_def)
  ultimately have w: "well_filled (so_live ops (commit_seeds F ops (ap_seeds p) (ad_store A)))"
    using assms(1) by (intro commit_seeds_well_filled) auto
  have c: "ad_baselined A2" "ad_floor_ms A2 = fl"
    "set (concat (map sd_ids (ap_seeds p))) \<subseteq> set (ad_seen A2)"
    using assms(3) by (auto simp: commit_pass_def Let_def res_bind_Inr_iff)
  obtain items where cl: "clamp_entry_ownership_to_venue F ops (hedge (ad_positions A)) (ap_verify p)
      (retire_closeouts F ops (ap_closeouts p)
        (reduce_each F ops items (commit_seeds F ops (ap_seeds p) (ad_store A)))) = Inr (ad_store A2)"
    using assms(3) by (auto simp: commit_pass_def Let_def res_bind_Inr_iff)
  have sn: "within_snapshot F ops (hedge (ad_positions A)) (ap_verify p) (ad_store A2)"
    by (rule clamp_within_snapshot [OF retire_closeouts_well_filled [OF reduce_each_well_filled [OF w]] cl])
  have "row_settled env k market fl A2 (sd_row sd)" if "sd \<in> set (ap_seeds p)" for sd
    using that each assms(2) c(3) by (intro seed_settled) (auto simp: stable_pass_def list_ex_iff)
  then have "\<forall>row \<in> set ?rows. row_settled env k market fl A2 row"
    using arg_cong [OF rows, of set] by (metis (no_types, lifting) imageE list.set_map)
  then show ?thesis using c(1,2) sn by blast
qed

end

section \<open>Properties\<close>

lemma baseline_attempts:
  assumes "apply_adoption_baseline F ops True env market rows A = Some (A', r)" and "\<not> ad_baselined A"
  shows "((\<exists>e. r = Inl e) \<and> uncommitted A A') \<or>
    (\<exists>k before p A1 fl. k < 3 \<and> 0 < fl \<and> snapshot_before env 0 k rows before \<and> uncommitted A A1 \<and>
       stable_pass F ops env k market fl before p A1 \<and> (A', r) = after_pass F ops env market fl p A1)"
proof (cases "\<exists>fl. 0 < fl \<and> adoption_attempts F ops env market fl 3 0 False rows A = Some (A', r)")
  case True
  then obtain fl where fl: "0 < fl" "adoption_attempts F ops env market fl 3 0 False rows A = Some (A', r)" by blast
  show ?thesis using attempts_outcome [OF fl(2)] fl(1) by (metis add_0)
next
  case False
  have "(\<exists>e. r = Inl e) \<and> A' = A"
    using assms False
    by (auto simp: apply_adoption_baseline_def ADOPTION_STABLE_ATTEMPTS_def
        split: sum.splits raised.splits if_splits)
  then show ?thesis by simp
qed

text \<open>
  C23. The startup baseline opens the engine only on a complete and stable picture: when it returns a
  snapshot, one of its three attempts looked up every walked row conclusively, read all of the row's
  executions up to the floor, found them not behind the order truth and recorded them as seen; the
  verified snapshot equals the one read before; and the committed entry ownership is within what that
  snapshot says the venue holds.
\<close>

theorem baseline_commits_complete_pass:
  assumes "order_store ops" and "well_filled (so_live ops (ad_store A))" and "\<not> ad_baselined A"
    and "apply_adoption_baseline F ops True env market rows A = Some (A', Inr out)"
  shows "\<exists>k before A1 hedged. k < 3 \<and> snapshot_before env 0 k rows before \<and> same_signature out before = Inr True \<and>
    ad_baselined A1 \<and> 0 < ad_floor_ms A1 \<and> av_finish env out (ad_floor_ms A1) A1 = Inr A' \<and>
    (\<forall>row \<in> set (walked_rows F (so_live ops (ad_store A))).
       row_settled env k market (ad_floor_ms A1) A1 row) \<and>
    within_snapshot F ops hedged out (ad_store A1)"
proof -
  obtain k before p A1 fl where h: "k < 3" "0 < fl" "snapshot_before env 0 k rows before" "uncommitted A A1"
      "stable_pass F ops env k market fl before p A1" "(A', Inr out) = after_pass F ops env market fl p A1"
    using baseline_attempts [OF assms(4,3)] by auto
  have st: "ad_store A1 = ad_store A" using h(4) by (simp add: uncommitted_def)
  obtain A2 where c: "commit_pass F ops market fl p A1 = Inr A2" "out = ap_verify p" "av_finish env out fl A2 = Inr A'"
    using h(6) by (auto simp: after_pass_def split: sum.splits)
  have "well_filled (so_live ops (ad_store A1))" using assms(2) st by simp
  from order_store.commit_pass_settles [OF assms(1) this h(5) c(1)]
  have s: "ad_baselined A2" "ad_floor_ms A2 = fl"
    "\<forall>row \<in> set (walked_rows F (so_live ops (ad_store A))). row_settled env k market fl A2 row"
    "within_snapshot F ops (hedge (ad_positions A1)) out (ad_store A2)"
    unfolding st c(2) by blast+
  show ?thesis
    using h(1-3,5) c(2,3) s
    by (intro exI [of _ k] exI [of _ before] exI [of _ A2] exI [of _ "hedge (ad_positions A1)"])
      (simp add: stable_pass_def)
qed

text \<open>
  C24. A baseline that fails commits nothing: the journal, the seen executions, the floor and the
  persisted credits are as before and the run is not marked adopted, so the next start reads again.
  The only later failure is one of the closing calls that follow the commit.
\<close>

theorem baseline_failure_commits_nothing:
  assumes "apply_adoption_baseline F ops True env market rows A = Some (A', Inl e)" and "\<not> ad_baselined A"
  shows "uncommitted A A' \<or> (ad_baselined A' \<and> (\<exists>out. av_finish env out (ad_floor_ms A') A' = Inl e))"
proof -
  consider "uncommitted A A'" |
    k before p A1 fl where "stable_pass F ops env k market fl before p A1" "(A', Inl e) = after_pass F ops env market fl p A1"
    using baseline_attempts [OF assms] by blast
  then show ?thesis
  proof cases
    case 2
    then obtain A2 where c: "commit_pass F ops market fl p A1 = Inr A2" by (auto simp: stable_pass_def)
    then have "A' = A2" "av_finish env (ap_verify p) fl A2 = Inl e"
      using 2(2) by (auto simp: after_pass_def split: sum.splits)
    moreover have "ad_baselined A2" "ad_floor_ms A2 = fl"
      using c by (auto simp: commit_pass_def Let_def res_bind_Inr_iff)
    ultimately show ?thesis by blast
  qed simp
qed

text \<open>A start after downtime: one entry order journaled with 2 filled of 5, of which the venue says 3.\<close>

definition example_adoption_env :: "(raised + jdict) \<Rightarrow> order_row list adoption_env" where
  "example_adoption_env time =
     \<lparr>av_fuel = 1, av_time = time,
      av_lookup = (\<lambda>k c. [Inr [(''list'', PList [PDict [(''orderId'', PStr ''o1''), (''cumExecQty'', PStr ''3''),
        (''createdTime'', PStr ''20'')]])]]),
      av_executions = (\<lambda>k c. example_executions), av_history = (\<lambda>k s e cursor. Inr []),
      av_positions = (\<lambda>k. Inr [(''list'', PList [PDict (example_position ''9'' ''3'')])]),
      av_clock = (\<lambda>k. 90), av_frames = (\<lambda>k. []), av_watermark = None, av_ownerships = (\<lambda>s. []),
      av_booked_stops = [], av_booked_closeouts = [], av_finish = (\<lambda>rows fl A. Inr A)\<rparr>"

definition example_adoption :: "order_row list adoption" where
  "example_adoption =
     \<lparr>ad_store = [example_entry_row ''b'' 5 2 20], ad_baselined = False, ad_floor_ms = 0, ad_seen = [],
      ad_positions = new_positions, ad_credits = (\<lambda>idx. [])\<rparr>"

definition example_clock :: "raised + jdict" where "example_clock = Inr [(''timeSecond'', PStr ''1'')]"

lemma example_adopts:
  "\<exists>A'. apply_adoption_baseline example_framework row_list_store True (example_adoption_env example_clock)
      example_perpetual [example_position ''9'' ''3''] example_adoption = Some (A', Inr [example_position ''9'' ''3''])"
proof -
  have "map_option (\<lambda>(A', r). r) (apply_adoption_baseline example_framework row_list_store True
      (example_adoption_env example_clock) example_perpetual [example_position ''9'' ''3''] example_adoption)
      = Some (Inr [example_position ''9'' ''3''])"
    by code_simp
  then show ?thesis by auto
qed

lemma example_adoption_filled: "well_filled (so_live row_list_store (ad_store example_adoption))"
  by (simp add: example_adoption_def row_list_store_def well_filled_def example_entry_row_def)

theorem baseline_commits_complete_pass_witness:
  "\<exists>A1. ad_baselined A1 \<and> 0 < ad_floor_ms A1 \<and>
     row_settled (example_adoption_env example_clock) 0 example_perpetual (ad_floor_ms A1) A1
       (example_entry_row ''b'' 5 2 20) \<or> (\<exists>k. 0 < k \<and> k < 3 \<and> ad_baselined A1 \<and>
     row_settled (example_adoption_env example_clock) k example_perpetual (ad_floor_ms A1) A1
       (example_entry_row ''b'' 5 2 20))"
proof -
  obtain A' where a: "apply_adoption_baseline example_framework row_list_store True
      (example_adoption_env example_clock) example_perpetual [example_position ''9'' ''3''] example_adoption
      = Some (A', Inr [example_position ''9'' ''3''])"
    using example_adopts by blast
  have w: "example_entry_row ''b'' 5 2 20 \<in> set (walked_rows example_framework
      (so_live row_list_store (ad_store example_adoption)))"
    by (simp add: walked_rows_def example_adoption_def row_list_store_def example_entry_row_def example_framework_def)
  have n: "\<not> ad_baselined example_adoption" by (simp add: example_adoption_def)
  from baseline_commits_complete_pass [OF row_list.order_store_axioms example_adoption_filled n a] w
  show ?thesis by (metis neq0_conv)
qed

theorem baseline_failure_commits_nothing_witness:
  "\<exists>A' e. apply_adoption_baseline example_framework row_list_store True (example_adoption_env (Inr []))
      example_perpetual [] example_adoption = Some (A', Inl e) \<and>
    (uncommitted example_adoption A' \<or> ad_baselined A')"
proof -
  have "map_option (\<lambda>p. isl (snd p)) (apply_adoption_baseline example_framework
      row_list_store True (example_adoption_env (Inr [])) example_perpetual [] example_adoption) = Some True"
    by code_simp
  then obtain A' e where a: "apply_adoption_baseline example_framework row_list_store True
      (example_adoption_env (Inr [])) example_perpetual [] example_adoption = Some (A', Inl e)"
    by (auto simp: isl_def)
  have "\<not> ad_baselined example_adoption" by (simp add: example_adoption_def)
  from baseline_failure_commits_nothing [OF a this] a show ?thesis by blast
qed

end
