(* ===== verification/Recovery.thy ===== *)
theory Recovery
  imports Order_Reads
begin

text \<open>
  The startup recovery of in-flight submissions (\<^verbatim>\<open>src/src/pynecore_bybit/recovery.py\<close>): every row a
  crash left pending is resolved by the lookup of its client id, then rows and intent envelopes whose
  venue counterpart is proven gone are retired. The venue's answers are arguments, the framework's
  store and dispatch journal a parameter with the laws of the locale \<open>dispatch_store\<close>; audit events
  and logging are left out.
\<close>

section \<open>The store behind the dispatches\<close>

text \<open>
  Beside the rows: the pending rows (\<open>find_pending_dispatch\<close>), the keys of the intent envelopes
  (\<open>replay()[0]\<close>), an added reference and the journal's terminal close (\<open>apply_reconcile_outcome\<close>).
\<close>

record 's dispatch_ops =
  ds_rows :: "'s store_ops"
  ds_pending :: "'s \<Rightarrow> order_row list"
  ds_envelopes :: "'s \<Rightarrow> string list"
  ds_add_ref :: "string \<Rightarrow> string \<Rightarrow> string \<Rightarrow> 's \<Rightarrow> 's"
  ds_terminal_close :: "string \<Rightarrow> string \<Rightarrow> string option \<Rightarrow> 's \<Rightarrow> 's"

text \<open>What the recovery changes, and the venue it reads: the two lookups of a client id, the walks.\<close>

record 's recovery =
  rc_store :: 's
  rc_seen :: "string list"
  rc_anchors :: "string \<Rightarrow> num option"

type_synonym orders_api = "py \<Rightarrow> raised + jdict"

record recovery_env =
  rv_fuel :: nat
  rv_clock :: int
  rv_lookup :: "string \<Rightarrow> (raised + jdict) list"
  rv_executions :: "string \<Rightarrow> executions_api"
  rv_orders :: orders_api
  rv_positions :: "raised + jdict"
  rv_spot_net :: "num option"

section \<open>One pending row\<close>

definition DEAD_ORDER_STATUSES :: "string list" where
  "DEAD_ORDER_STATUSES = [''Cancelled'', ''PartiallyFilledCanceled'', ''Deactivated'', ''Rejected'']"

text \<open>An endpoint that fails is passed over, the first order found is the answer.\<close>

fun lookup_order_by_coid :: "(raised + jdict) list \<Rightarrow> raised + jdict option" where
  "lookup_order_by_coid [] = Inr None"
| "lookup_order_by_coid (reply # replies) =
     (case reply of
        Inl (Bybit e) \<Rightarrow> lookup_order_by_coid replies
      | Inl e \<Rightarrow> Inl e
      | Inr result \<Rightarrow>
          (let entries = py_or (jget result ''list'') (PList []) in
           if truthy entries then res_bind (lift_err (first_entry entries)) (\<lambda>d. Inr (Some d))
           else lookup_order_by_coid replies))"

text \<open>\<open>Decimal(str(v or '0') or '0')\<close>, zero when it does not parse\<close>

definition decimal_or_zero :: "py \<Rightarrow> num" where
  "decimal_or_zero v = (case parse_dec (py_str (py_or v (PStr ''0''))) of Inr d \<Rightarrow> d | Inl e \<Rightarrow> Fin 0)"

definition complete_intent :: "'s dispatch_ops \<Rightarrow> order_row \<Rightarrow> 's \<Rightarrow> 's" where
  "complete_intent D row s =
     (case or_intent_key row of Some (c # cs) \<Rightarrow> so_complete (ds_rows D) (c # cs) s | _ \<Rightarrow> s)"

definition retire_recovered_rejected :: "'s dispatch_ops \<Rightarrow> order_row \<Rightarrow> jdict \<Rightarrow> 's \<Rightarrow> 's" where
  "retire_recovered_rejected D row existing s =
     (let order_id = jstr existing ''orderId''
      in complete_intent D row
           (ds_terminal_close D (or_coid row) ''rejected'' (if order_id = [] then None else Some order_id) s))"

text \<open>\<open>min(row.qty, max(row.filled_qty, float(cum_exec)))\<close>\<close>

definition filled_cursor :: "order_row \<Rightarrow> num \<Rightarrow> rat" where
  "filled_cursor row cum =
     min (or_qty row) (case cum of Fin c \<Rightarrow> max (or_filled row) c | PosInf \<Rightarrow> max (or_filled row) (or_qty row)
                       | _ \<Rightarrow> or_filled row)"

definition confirmed_row :: "jdict \<Rightarrow> num \<Rightarrow> order_row \<Rightarrow> order_row \<Rightarrow> order_row" where
  "confirmed_row existing cum row r =
     r\<lparr>or_state := ''confirmed'', or_order_id := Some (jstr existing ''orderId''),
       or_filled := filled_cursor row cum, or_extras := Some (extras_of row)\<rparr>"

definition promote_row :: "'s dispatch_ops \<Rightarrow> order_row \<Rightarrow> jdict \<Rightarrow> num \<Rightarrow> 's recovery \<Rightarrow> 's recovery" where
  "promote_row D row existing cum R =
     (let coid = or_coid row;
          order_id = jstr existing ''orderId'';
          s1 = so_update (ds_rows D) coid (confirmed_row existing cum row) (rc_store R);
          s2 = (if order_id \<noteq> [] then ds_add_ref D coid ''order_id'' order_id s1 else s1);
          anchor = jget (extras_of row) ''anchor''
      in R\<lparr>rc_store := so_unpark (ds_rows D) coid s2,
           rc_anchors :=
             (if truthy anchor
              then (case parse_dec (py_str anchor) of
                      Inr a \<Rightarrow> (rc_anchors R)(coid \<mapsto> a) | Inl e \<Rightarrow> rc_anchors R)
              else rc_anchors R)\<rparr>)"

text \<open>The fills of a found order seed the de-dup first; without them the row stays pending.\<close>

definition confirm_recovered_row ::
    "'s dispatch_ops \<Rightarrow> recovery_env \<Rightarrow> order_row \<Rightarrow> jdict \<Rightarrow> num \<Rightarrow> 's recovery \<Rightarrow>
     ('s recovery \<times> (raised + bool)) option" where
  "confirm_recovered_row D env row existing cum R =
     (let order_id = jstr existing ''orderId'' in
      case num_greater cum (Fin 0) of
        Inl e \<Rightarrow> Some (R, Inl (Lang e))
      | Inr False \<Rightarrow> Some (promote_row D row existing cum R, Inr True)
      | Inr True \<Rightarrow>
          (case recovery_fill_ids (rv_fuel env) (rv_executions env order_id) order_id (rv_clock env)
                  (or_created_ms row - EXECUTION_SINCE_SKEW_MS) None of
             None \<Rightarrow> None
           | Some (Inl e) \<Rightarrow> Some (R, Inl e)
           | Some (Inr w) \<Rightarrow>
               if \<not> fw_seeded w \<or> fw_ids w = [] then Some (R, Inr False)
               else Some (promote_row D row existing cum (R\<lparr>rc_seen := rc_seen R @ fw_ids w\<rparr>), Inr True)))"

definition recover_one_pending_row ::
    "'s dispatch_ops \<Rightarrow> recovery_env \<Rightarrow> order_row \<Rightarrow> 's recovery \<Rightarrow> ('s recovery \<times> (raised + bool)) option" where
  "recover_one_pending_row D env row R =
     (case lookup_order_by_coid (rv_lookup env (or_coid row)) of
        Inl e \<Rightarrow> Some (R, Inl e)
      | Inr None \<Rightarrow> Some (R, Inr False)
      | Inr (Some existing) \<Rightarrow>
          (let cum = decimal_or_zero (jget existing ''cumExecQty'') in
           if jstr existing ''orderStatus'' \<in> set DEAD_ORDER_STATUSES
           then (case num_greater cum (Fin 0) of
                   Inl e \<Rightarrow> Some (R, Inl (Lang e))
                 | Inr False \<Rightarrow>
                     Some (R\<lparr>rc_store := retire_recovered_rejected D row existing (rc_store R)\<rparr>, Inr False)
                 | Inr True \<Rightarrow> confirm_recovered_row D env row existing cum R)
           else confirm_recovered_row D env row existing cum R))"

fun recover_pending ::
    "'s dispatch_ops \<Rightarrow> recovery_env \<Rightarrow> order_row list \<Rightarrow> 's recovery \<Rightarrow> string list \<Rightarrow>
     ('s recovery \<times> (raised + string list)) option" where
  "recover_pending D env [] R promoted = Some (R, Inr promoted)"
| "recover_pending D env (row # rows) R promoted =
     (case recover_one_pending_row D env row R of
        None \<Rightarrow> None
      | Some (R1, Inl e) \<Rightarrow> Some (R1, Inl e)
      | Some (R1, Inr p) \<Rightarrow>
          recover_pending D env rows R1 (if p then or_coid row # promoted else promoted))"

section \<open>The venue snapshots\<close>

fun open_order_pages :: "nat \<Rightarrow> orders_api \<Rightarrow> py \<Rightarrow> jdict list \<Rightarrow> (raised + (jdict list \<times> bool)) option" where
  "open_order_pages 0 api cursor rows = None"
| "open_order_pages (Suc n) api cursor rows =
     (case api cursor of
        Inl (Bybit e) \<Rightarrow> Some (Inr (rows, False))
      | Inl e \<Rightarrow> Some (Inl e)
      | Inr result \<Rightarrow>
          (case res_bind (as_list (py_or (jget result ''list'') (PList []))) (res_map as_dict) of
             Inl e \<Rightarrow> Some (Inl (Lang e))
           | Inr page \<Rightarrow>
               (let nx = py_or (jget result ''nextPageCursor'') PNone in
                if \<not> truthy nx then Some (Inr (rows @ page, True)) else open_order_pages n api nx (rows @ page))))"

definition open_order_rows :: "nat \<Rightarrow> orders_api \<Rightarrow> (raised + (jdict list \<times> bool)) option" where
  "open_order_rows n api = open_order_pages n api PNone []"

fun open_orders_by_id :: "jdict list \<Rightarrow> (string \<times> num) list \<Rightarrow> (string \<times> num) list" where
  "open_orders_by_id [] orders = orders"
| "open_orders_by_id (entry # rows) orders =
     (let oid = jstr entry ''orderId'' in
      open_orders_by_id rows
        (if oid = [] then orders else AList.update oid (decimal_or_zero (jget entry ''cumExecQty'')) orders))"

definition recovery_open_orders :: "nat \<Rightarrow> orders_api \<Rightarrow> (raised + ((string \<times> num) list \<times> bool)) option" where
  "recovery_open_orders n api =
     (case open_order_rows n api of
        None \<Rightarrow> None
      | Some (Inl e) \<Rightarrow> Some (Inl e)
      | Some (Inr (rows, conclusive)) \<Rightarrow> Some (Inr (open_orders_by_id rows [], conclusive)))"

fun rows_exposed :: "jdict list \<Rightarrow> raised + (bool \<times> bool)" where
  "rows_exposed [] = Inr (False, True)"
| "rows_exposed (row # rows) =
     (case position_row_size row of
        Inl (Bybit e) \<Rightarrow> Inr (False, False)
      | Inl e \<Rightarrow> Inl e
      | Inr sz \<Rightarrow> if sz > 0 then Inr (True, True) else rows_exposed rows)"

text \<open>Whether the symbol carries exposure, and whether that is proven.\<close>

definition recovery_has_exposure :: "instrument_info \<Rightarrow> raised + jdict \<Rightarrow> num option \<Rightarrow> raised + (bool \<times> bool)" where
  "recovery_has_exposure market reply spot_net =
     (if in_category market \<noteq> CATEGORY_SPOT
      then
        (case fetch_position_rows reply of
           Inl (Bybit e) \<Rightarrow> Inr (False, False)
         | Inl e \<Rightarrow> Inl e
         | Inr rows \<Rightarrow> rows_exposed rows)
      else
        (case spot_net of
           None \<Rightarrow> Inr (False, False)
         | Some net \<Rightarrow> res_bind (lift_err (num_greater net (Fin 0))) (\<lambda>g. Inr (g, True))))"

section \<open>Orphans\<close>

text \<open>\<open>row.exchange_order_id\<close>, else the order id of the extras\<close>

definition broker_handle :: "order_row \<Rightarrow> string option" where
  "broker_handle row =
     (case or_order_id row of
        Some (c # cs) \<Rightarrow> Some (c # cs)
      | _ \<Rightarrow> (let order_id = jget (extras_of row) ''order_id'' in
              if truthy order_id then Some (py_str order_id) else None))"

definition startup_orphan :: "string list \<Rightarrow> string list \<Rightarrow> order_row \<Rightarrow> bool" where
  "startup_orphan open_ids promoted row \<longleftrightarrow>
     or_coid row \<notin> set promoted \<and> (or_state row = ''confirmed'' \<or> or_state row = ''closing'') \<and>
     (case broker_handle row of None \<Rightarrow> False | Some h \<Rightarrow> h \<notin> set open_ids)"

fun retire_orphans :: "'s dispatch_ops \<Rightarrow> string list \<Rightarrow> string list \<Rightarrow> order_row list \<Rightarrow> 's \<Rightarrow> 's" where
  "retire_orphans D open_ids promoted [] s = s"
| "retire_orphans D open_ids promoted (row # rows) s =
     retire_orphans D open_ids promoted rows
       (if startup_orphan open_ids promoted row
        then complete_intent D row (so_close (ds_rows D) (or_coid row) s) else s)"

definition retire_startup_orphans :: "'s dispatch_ops \<Rightarrow> string list \<Rightarrow> bool \<Rightarrow> string list \<Rightarrow> 's \<Rightarrow> 's" where
  "retire_startup_orphans D open_ids has_exposure promoted s =
     (if has_exposure then s else retire_orphans D open_ids promoted (so_live (ds_rows D) s) s)"

definition live_keys :: "'s dispatch_ops \<Rightarrow> 's \<Rightarrow> string list" where
  "live_keys D s = concat (map (\<lambda>r. case or_intent_key r of Some (c # cs) \<Rightarrow> [c # cs] | _ \<Rightarrow> []) (so_live (ds_rows D) s))"

definition retire_orphaned_envelopes :: "'s dispatch_ops \<Rightarrow> bool \<Rightarrow> 's \<Rightarrow> 's" where
  "retire_orphaned_envelopes D has_exposure s =
     (if has_exposure then s
      else foldl (\<lambda>t key. if key \<in> set (live_keys D s) then t else so_complete (ds_rows D) key t) s (ds_envelopes D s))"

section \<open>The pass\<close>

definition retire_unmatched :: "'s dispatch_ops \<Rightarrow> string list \<Rightarrow> bool \<Rightarrow> string list \<Rightarrow> 's \<Rightarrow> 's" where
  "retire_unmatched D open_ids has_exposure promoted s =
     retire_orphaned_envelopes D has_exposure (retire_startup_orphans D open_ids has_exposure promoted s)"

definition recover_snapshots ::
    "'s dispatch_ops \<Rightarrow> recovery_env \<Rightarrow> instrument_info \<Rightarrow> string list \<Rightarrow> 's recovery \<Rightarrow>
     ('s recovery \<times> (raised + unit)) option" where
  "recover_snapshots D env market promoted R =
     (case recovery_open_orders (rv_fuel env) (rv_orders env) of
        None \<Rightarrow> None
      | Some (Inl e) \<Rightarrow> Some (R, Inl e)
      | Some (Inr (orders, orders_ok)) \<Rightarrow>
          (case recovery_has_exposure market (rv_positions env) (rv_spot_net env) of
             Inl e \<Rightarrow> Some (R, Inl e)
           | Inr (has_exposure, exposure_ok) \<Rightarrow>
               Some (if orders_ok \<and> exposure_ok
                     then R\<lparr>rc_store := retire_unmatched D (map fst orders) has_exposure promoted (rc_store R)\<rparr>
                     else R, Inr ())))"

definition recover_in_flight_submissions ::
    "'s dispatch_ops \<Rightarrow> bool \<Rightarrow> recovery_env \<Rightarrow> instrument_info \<Rightarrow> 's recovery \<Rightarrow>
     ('s recovery \<times> (raised + unit)) option" where
  "recover_in_flight_submissions D has_store env market R =
     (let s = rc_store R in
      if \<not> has_store \<or> (ds_pending D s = [] \<and> so_live (ds_rows D) s = [] \<and> ds_envelopes D s = [])
      then Some (R, Inr ())
      else
        (case recover_pending D env (ds_pending D s) R [] of
           None \<Rightarrow> None
         | Some (R1, Inl e) \<Rightarrow> Some (R1, Inl e)
         | Some (R1, Inr promoted) \<Rightarrow> recover_snapshots D env market promoted R1))"

section \<open>The laws of the store\<close>

locale dispatch_store = order_store "ds_rows D" for D :: "'s dispatch_ops" +
  assumes live_ref: "so_live (ds_rows D) (ds_add_ref D c k v s) = so_live (ds_rows D) s"
    and live_terminal: "so_live (ds_rows D) (ds_terminal_close D c st oid s) =
      filter (\<lambda>r. or_coid r \<noteq> c) (so_live (ds_rows D) s)"
    and pending_live: "set (ds_pending D s) \<subseteq> set (so_live (ds_rows D) s)"
    and pending_distinct: "distinct (map or_coid (ds_pending D s))"
    and envelopes_update: "ds_envelopes D (so_update (ds_rows D) c f s) = ds_envelopes D s"
    and envelopes_close: "ds_envelopes D (so_close (ds_rows D) c s) = ds_envelopes D s"
    and envelopes_unpark: "ds_envelopes D (so_unpark (ds_rows D) c s) = ds_envelopes D s"
    and envelopes_ref: "ds_envelopes D (ds_add_ref D c k v s) = ds_envelopes D s"
    and envelopes_terminal: "ds_envelopes D (ds_terminal_close D c st oid s) = ds_envelopes D s"
    and envelopes_complete: "ds_envelopes D (so_complete (ds_rows D) k s) = filter (\<lambda>x. x \<noteq> k) (ds_envelopes D s)"

text \<open>A store of rows and envelope keys, with the states of a pending dispatch.\<close>

definition journal_store :: "string list \<Rightarrow> (order_row list \<times> string list) dispatch_ops" where
  "journal_store pending_states =
     \<lparr>ds_rows =
        \<lparr>so_live = (\<lambda>s. dedup (fst s)),
         so_update = (\<lambda>c f s. (map (\<lambda>r. if or_coid r = c then f r else r) (fst s), snd s)),
         so_close = (\<lambda>c s. (filter (\<lambda>r. or_coid r \<noteq> c) (fst s), snd s)),
         so_unpark = (\<lambda>c s. s), so_complete = (\<lambda>k s. (fst s, filter (\<lambda>x. x \<noteq> k) (snd s)))\<rparr>,
      ds_pending = (\<lambda>s. filter (\<lambda>r. or_state r \<in> set pending_states) (dedup (fst s))),
      ds_envelopes = snd, ds_add_ref = (\<lambda>c k v s. s),
      ds_terminal_close = (\<lambda>c st oid s. (filter (\<lambda>r. or_coid r \<noteq> c) (fst s), snd s))\<rparr>"

interpretation journal: dispatch_store "journal_store pending_states"
  by unfold_locales
    (auto simp: journal_store_def dedup_map dedup_filter dedup_distinct distinct_map_filter)

section \<open>What the pending rows become\<close>

text \<open>The lookup found the order dead and without a fill.\<close>

definition found_dead :: "recovery_env \<Rightarrow> order_row \<Rightarrow> bool" where
  "found_dead env row \<longleftrightarrow>
     (\<exists>d. lookup_order_by_coid (rv_lookup env (or_coid row)) = Inr (Some d) \<and>
        jstr d ''orderStatus'' \<in> set DEAD_ORDER_STATUSES \<and>
        num_greater (decimal_or_zero (jget d ''cumExecQty'')) (Fin 0) = Inr False)"

text \<open>The lookup found the order; if it carries fills, their executions are in the de-dup.\<close>

definition deduplicated :: "recovery_env \<Rightarrow> order_row \<Rightarrow> jdict \<Rightarrow> string list \<Rightarrow> bool" where
  "deduplicated env row d seen \<longleftrightarrow>
     (\<exists>w. recovery_fill_ids (rv_fuel env) (rv_executions env (jstr d ''orderId'')) (jstr d ''orderId'') (rv_clock env)
            (or_created_ms row - EXECUTION_SINCE_SKEW_MS) None = Some (Inr w) \<and>
        fw_seeded w \<and> fw_ids w \<noteq> [] \<and> set (fw_ids w) \<subseteq> set seen)"

definition found_landed :: "recovery_env \<Rightarrow> order_row \<Rightarrow> string list \<Rightarrow> order_row \<Rightarrow> bool" where
  "found_landed env row seen r \<longleftrightarrow>
     (\<exists>d g. lookup_order_by_coid (rv_lookup env (or_coid row)) = Inr (Some d) \<and>
        r = confirmed_row d (decimal_or_zero (jget d ''cumExecQty'')) row row \<and>
        num_greater (decimal_or_zero (jget d ''cumExecQty'')) (Fin 0) = Inr g \<and>
        (g \<longrightarrow> deduplicated env row d seen))"

lemma deduplicated_mono: "deduplicated env row d seen \<Longrightarrow> set seen \<subseteq> set seen' \<Longrightarrow> deduplicated env row d seen'"
  unfolding deduplicated_def by (meson subset_trans)

lemma found_landed_mono: "found_landed env row seen r \<Longrightarrow> set seen \<subseteq> set seen' \<Longrightarrow> found_landed env row seen' r"
  unfolding found_landed_def using deduplicated_mono by blast

lemma confirmed_row_coid [simp]: "or_coid (confirmed_row d c row r) = or_coid r"
  by (simp add: confirmed_row_def)

text \<open>The three outcomes of one row: dropped, promoted, or untouched.\<close>

definition one_outcome ::
    "'s dispatch_ops \<Rightarrow> recovery_env \<Rightarrow> order_row \<Rightarrow> 's recovery \<Rightarrow> 's recovery \<Rightarrow> raised + bool \<Rightarrow> bool" where
  "one_outcome D env row R R' p \<longleftrightarrow>
     (rc_store R' = rc_store R \<and> rc_seen R' = rc_seen R \<and> p \<noteq> Inr True) \<or>
     (found_dead env row \<and> p = Inr False \<and> rc_seen R' = rc_seen R \<and>
        (\<exists>d. rc_store R' = retire_recovered_rejected D row d (rc_store R))) \<or>
     (p = Inr True \<and> set (rc_seen R) \<subseteq> set (rc_seen R') \<and>
        (\<exists>d c Q. rc_store Q = rc_store R \<and> rc_store R' = rc_store (promote_row D row d c Q) \<and>
           found_landed env row (rc_seen R') (confirmed_row d c row row)))"

lemma promote_row_seen [simp]: "rc_seen (promote_row D row d c R) = rc_seen R"
  by (simp add: promote_row_def Let_def)

lemma confirm_outcome:
  assumes "confirm_recovered_row D env row d (decimal_or_zero (jget d ''cumExecQty'')) R = Some (R', p)"
    and "lookup_order_by_coid (rv_lookup env (or_coid row)) = Inr (Some d)"
  shows "one_outcome D env row R R' p"
proof -
  let ?c = "decimal_or_zero (jget d ''cumExecQty'')"
  let ?walk = "recovery_fill_ids (rv_fuel env) (rv_executions env (jstr d ''orderId'')) (jstr d ''orderId'')
    (rv_clock env) (or_created_ms row - EXECUTION_SINCE_SKEW_MS) None"
  consider "rc_store R' = rc_store R" "rc_seen R' = rc_seen R" "p \<noteq> Inr True" |
    "num_greater ?c (Fin 0) = Inr False" "R' = promote_row D row d ?c R" "p = Inr True" |
    w where "num_greater ?c (Fin 0) = Inr True" "?walk = Some (Inr w)" "fw_seeded w" "fw_ids w \<noteq> []" "p = Inr True"
      "R' = promote_row D row d ?c (R\<lparr>rc_seen := rc_seen R @ fw_ids w\<rparr>)"
    using assms(1)
    by (auto simp: confirm_recovered_row_def Let_def split: sum.splits bool.splits option.splits if_splits)
  then show ?thesis
  proof cases
    case 1
    then show ?thesis by (simp add: one_outcome_def)
  next
    case 2
    then have "found_landed env row (rc_seen R') (confirmed_row d ?c row row)"
      using assms(2) by (auto simp: found_landed_def)
    then show ?thesis using 2 unfolding one_outcome_def by (metis order_refl promote_row_seen)
  next
    case 3
    then have "found_landed env row (rc_seen R') (confirmed_row d ?c row row)"
      using assms(2) by (auto simp: found_landed_def deduplicated_def)
    moreover have "rc_store (R\<lparr>rc_seen := rc_seen R @ fw_ids w\<rparr>) = rc_store R" by simp
    moreover have "set (rc_seen R) \<subseteq> set (rc_seen R')" using 3 by simp
    ultimately show ?thesis using 3 unfolding one_outcome_def by blast
  qed
qed

lemma recover_one_outcome:
  assumes "recover_one_pending_row D env row R = Some (R', p)"
  shows "one_outcome D env row R R' p"
proof (cases "lookup_order_by_coid (rv_lookup env (or_coid row))")
  case (Inl e)
  then show ?thesis using assms by (auto simp: recover_one_pending_row_def one_outcome_def)
next
  case (Inr o')
  note look = Inr
  show ?thesis
  proof (cases o')
    case None
    then show ?thesis using assms look by (auto simp: recover_one_pending_row_def one_outcome_def)
  next
    case (Some d)
    let ?c = "decimal_or_zero (jget d ''cumExecQty'')"
    consider e where "p = Inl e" "R' = R" |
      "found_dead env row" "p = Inr False" "R' = R\<lparr>rc_store := retire_recovered_rejected D row d (rc_store R)\<rparr>" |
      "confirm_recovered_row D env row d ?c R = Some (R', p)"
      using assms look Some
      by (fastforce simp: recover_one_pending_row_def found_dead_def Let_def split: sum.splits bool.splits if_splits)
    then show ?thesis
    proof cases
      case 3
      then show ?thesis by (rule confirm_outcome) (simp add: look Some)
    qed (auto simp: one_outcome_def)
  qed
qed

definition coids :: "order_row list \<Rightarrow> string set" where
  "coids rows = or_coid ` set rows"

definition rows_follow ::
    "recovery_env \<Rightarrow> order_row list \<Rightarrow> order_row list \<Rightarrow> order_row list \<Rightarrow> string list \<Rightarrow> string list option \<Rightarrow> bool" where
  "rows_follow env rows old new seen promoted \<longleftrightarrow>
     (\<forall>r \<in> set new. r \<in> set old \<or>
        (\<exists>row \<in> set rows. or_coid r = or_coid row \<and> found_landed env row seen r \<and>
           (\<forall>ps. promoted = Some ps \<longrightarrow> or_coid row \<in> set ps))) \<and>
     (\<forall>r \<in> set old. or_coid r \<notin> coids new \<longrightarrow> r \<in> set rows \<and> found_dead env r)"

context dispatch_store
begin

abbreviation live :: "'s \<Rightarrow> order_row list" where "live s \<equiv> so_live (ds_rows D) s"

lemma complete_intent_live [simp]: "live (complete_intent D row s) = live s"
  by (simp add: complete_intent_def live_complete split: option.split list.split)

lemma rejected_live:
  "live (retire_recovered_rejected D row d s) = filter (\<lambda>r. or_coid r \<noteq> or_coid row) (live s)"
  by (simp add: retire_recovered_rejected_def Let_def live_terminal)

lemma promote_live:
  "live (rc_store (promote_row D row d c R)) =
     map (\<lambda>r. if or_coid r = or_coid row then confirmed_row d c row r else r) (live (rc_store R))"
  by (simp add: promote_row_def Let_def live_unpark live_ref live_update)

lemma same_row: "a \<in> set (live s) \<Longrightarrow> b \<in> set (live s) \<Longrightarrow> or_coid a = or_coid b \<Longrightarrow> a = b"
  using live_distinct [of s] by (metis distinct_map inj_on_def)

lemma one_row_follows:
  assumes "one_outcome D env row R R' p" and row: "row \<in> set (live (rc_store R))"
  shows "rows_follow env [row] (live (rc_store R)) (live (rc_store R')) (rc_seen R')
      (if p = Inr True then Some [or_coid row] else None)"
    and "\<And>r. r \<in> set (live (rc_store R)) \<Longrightarrow> or_coid r \<noteq> or_coid row \<Longrightarrow> r \<in> set (live (rc_store R'))"
    and "\<And>r. r \<in> set (live (rc_store R')) \<Longrightarrow> or_coid r \<noteq> or_coid row \<or> p \<noteq> Inr True \<Longrightarrow>
      r \<in> set (live (rc_store R))"
    and "set (rc_seen R) \<subseteq> set (rc_seen R')"
proof -
  consider "rc_store R' = rc_store R" "rc_seen R' = rc_seen R" |
    "found_dead env row" "rc_seen R' = rc_seen R"
      "live (rc_store R') = filter (\<lambda>r. or_coid r \<noteq> or_coid row) (live (rc_store R))" |
    d c where "p = Inr True" "set (rc_seen R) \<subseteq> set (rc_seen R')" "found_landed env row (rc_seen R') (confirmed_row d c row row)"
      "live (rc_store R') =
        map (\<lambda>r. if or_coid r = or_coid row then confirmed_row d c row r else r) (live (rc_store R))"
  proof -
    show thesis if "\<lbrakk>rc_store R' = rc_store R; rc_seen R' = rc_seen R\<rbrakk> \<Longrightarrow> thesis"
      "\<lbrakk>found_dead env row; rc_seen R' = rc_seen R;
        live (rc_store R') = filter (\<lambda>r. or_coid r \<noteq> or_coid row) (live (rc_store R))\<rbrakk> \<Longrightarrow> thesis"
      "\<And>d c. \<lbrakk>p = Inr True; set (rc_seen R) \<subseteq> set (rc_seen R'); found_landed env row (rc_seen R') (confirmed_row d c row row);
        live (rc_store R') =
          map (\<lambda>r. if or_coid r = or_coid row then confirmed_row d c row r else r) (live (rc_store R))\<rbrakk> \<Longrightarrow> thesis"
      for thesis
      using assms(1) unfolding one_outcome_def
    proof (elim disjE exE conjE)
      assume "rc_store R' = rc_store R" "rc_seen R' = rc_seen R"
      then show thesis by (rule that(1))
    next
      fix d
      assume "found_dead env row" "rc_seen R' = rc_seen R" "rc_store R' = retire_recovered_rejected D row d (rc_store R)"
      then show thesis by (intro that(2)) (simp_all add: rejected_live)
    next
      fix d c Q
      assume "p = Inr True" "set (rc_seen R) \<subseteq> set (rc_seen R')" "found_landed env row (rc_seen R') (confirmed_row d c row row)"
        "rc_store Q = rc_store R" "rc_store R' = rc_store (promote_row D row d c Q)"
      then show thesis by (intro that(3) [of d c]) (simp_all add: promote_live)
    qed
  qed
  note c = this
  have only: "r = row" if "r \<in> set (live (rc_store R))" "or_coid r = or_coid row" for r
    using same_row [OF that(1) row that(2)] .
  from c show "rows_follow env [row] (live (rc_store R)) (live (rc_store R')) (rc_seen R')
      (if p = Inr True then Some [or_coid row] else None)"
  proof cases
    case 3
    have "r \<in> set (live (rc_store R)) \<or> or_coid r = or_coid row \<and> found_landed env row (rc_seen R') r"
      if r: "r \<in> set (live (rc_store R'))" for r
    proof -
      obtain r0 where r0: "r0 \<in> set (live (rc_store R))"
        "r = (if or_coid r0 = or_coid row then confirmed_row d c row r0 else r0)"
        using r unfolding 3(4) by auto
      show ?thesis
        using r0 only [OF r0(1)] 3(3) by (cases "or_coid r0 = or_coid row") simp_all
    qed
    moreover have "map or_coid (live (rc_store R')) = map or_coid (live (rc_store R))"
      by (simp add: 3(4))
    then have "coids (live (rc_store R')) = coids (live (rc_store R))"
      unfolding coids_def set_map [symmetric] by simp
    ultimately show ?thesis by (auto simp: rows_follow_def coids_def)
  qed (auto simp: rows_follow_def coids_def dest: only)
  from c show "r \<in> set (live (rc_store R'))"
    if "r \<in> set (live (rc_store R))" "or_coid r \<noteq> or_coid row" for r
    using that by cases (auto intro!: image_eqI [of _ _ r])
  from c show "r \<in> set (live (rc_store R))"
    if "r \<in> set (live (rc_store R'))" "or_coid r \<noteq> or_coid row \<or> p \<noteq> Inr True" for r
    using that by cases (auto split: if_splits)
  from c show "set (rc_seen R) \<subseteq> set (rc_seen R')" by cases auto
qed

end

context dispatch_store
begin

lemma recover_pending_follows:
  assumes "recover_pending D env rows R acc = Some (R', q)"
    and "set rows \<subseteq> set (live (rc_store R))" and "distinct (map or_coid rows)"
  shows "rows_follow env rows (live (rc_store R)) (live (rc_store R')) (rc_seen R')
      (case q of Inr ps \<Rightarrow> Some ps | Inl e \<Rightarrow> None) \<and>
    set (rc_seen R) \<subseteq> set (rc_seen R') \<and> (\<forall>ps. q = Inr ps \<longrightarrow> set acc \<subseteq> set ps)"
  using assms
proof (induction rows arbitrary: R acc)
  case Nil
  then show ?case by (auto simp: rows_follow_def coids_def)
next
  case (Cons row rows)
  obtain R1 p where one: "recover_one_pending_row D env row R = Some (R1, p)"
    using Cons.prems(1) by (auto split: option.splits)
  have row: "row \<in> set (live (rc_store R))" using Cons.prems(2) by simp
  note f = one_row_follows [OF recover_one_outcome [OF one] row]
  show ?case
  proof (cases p)
    case (Inl e)
    then have "R' = R1" "q = Inl e" using Cons.prems(1) one by auto
    then show ?thesis using f(1,4) Inl by (auto simp: rows_follow_def)
  next
    case (Inr b)
    let ?acc = "if b then or_coid row # acc else acc"
    have rest: "recover_pending D env rows R1 ?acc = Some (R', q)"
      using Cons.prems(1) one Inr by simp
    have sub: "set rows \<subseteq> set (live (rc_store R1))"
    proof
      fix x
      assume x: "x \<in> set rows"
      then have "or_coid x \<in> or_coid ` set rows" by simp
      then have "or_coid x \<noteq> or_coid row" using Cons.prems(3) by auto
      then show "x \<in> set (live (rc_store R1))" using f(2) x Cons.prems(2) by auto
    qed
    from Cons.IH [OF rest sub] Cons.prems(3)
    have ih: "rows_follow env rows (live (rc_store R1)) (live (rc_store R')) (rc_seen R')
        (case q of Inr ps \<Rightarrow> Some ps | Inl e \<Rightarrow> None)"
      "set (rc_seen R1) \<subseteq> set (rc_seen R')" "\<And>ps. q = Inr ps \<Longrightarrow> set ?acc \<subseteq> set ps"
      by auto
    let ?P = "case q of Inr ps \<Rightarrow> Some ps | Inl e \<Rightarrow> None"
    have "r \<in> set (live (rc_store R)) \<or> (\<exists>x \<in> set (row # rows). or_coid r = or_coid x \<and>
        found_landed env x (rc_seen R') r \<and> (\<forall>ps. ?P = Some ps \<longrightarrow> or_coid x \<in> set ps))"
      if r: "r \<in> set (live (rc_store R'))" for r
    proof -
      from ih(1) r consider "r \<in> set (live (rc_store R1))" |
        x where "x \<in> set rows" "or_coid r = or_coid x" "found_landed env x (rc_seen R') r"
          "\<forall>ps. ?P = Some ps \<longrightarrow> or_coid x \<in> set ps"
        unfolding rows_follow_def by blast
      then show ?thesis
      proof cases
        case 1
        from f(1) 1 consider "r \<in> set (live (rc_store R))" | "or_coid r = or_coid row" "found_landed env row (rc_seen R1) r"
            "p = Inr True"
          using f(3) [OF 1] unfolding rows_follow_def by (cases "p = Inr True") auto
        then show ?thesis
        proof cases
          case 2
          then have "found_landed env row (rc_seen R') r" using found_landed_mono ih(2) by blast
          moreover have "\<forall>ps. ?P = Some ps \<longrightarrow> or_coid row \<in> set ps"
            using ih(3) 2(3) Inr by (auto split: sum.splits)
          ultimately show ?thesis using 2(1) by auto
        qed simp
      qed auto
    qed
    moreover have "r \<in> set (row # rows) \<and> found_dead env r"
      if r: "r \<in> set (live (rc_store R))" "or_coid r \<notin> coids (live (rc_store R'))" for r
    proof (cases "or_coid r \<in> coids (live (rc_store R1))")
      case True
      show ?thesis
      proof (cases "or_coid r = or_coid row")
        case False
        then show ?thesis using f(2) [OF r(1)] ih(1) r(2) by (auto simp: rows_follow_def)
      next
        case same: True
        obtain r1 where r1: "r1 \<in> set (live (rc_store R1))" "or_coid r1 = or_coid r"
          using True by (auto simp: coids_def)
        then have "r1 \<in> set rows" using ih(1) r(2) by (auto simp: rows_follow_def)
        then have "or_coid r1 \<in> or_coid ` set rows" by simp
        then show ?thesis using Cons.prems(3) r1(2) same by auto
      qed
    next
      case False
      then show ?thesis using f(1) r(1) by (auto simp: rows_follow_def)
    qed
    ultimately show ?thesis using f(4) ih(2,3) unfolding rows_follow_def by (force split: if_splits)
  qed
qed

end

section \<open>Retiring the unmatched\<close>

context dispatch_store
begin

lemma complete_intent_envelopes:
  "k \<in> set (ds_envelopes D (complete_intent D row s)) \<longleftrightarrow>
     k \<in> set (ds_envelopes D s) \<and> \<not> (or_intent_key row = Some k \<and> k \<noteq> [])"
  by (auto simp: complete_intent_def envelopes_complete split: option.split list.split)

lemma retire_orphans_live:
  "live (retire_orphans D ids promoted rows s) =
     filter (\<lambda>r. \<not> (\<exists>row \<in> set rows. startup_orphan ids promoted row \<and> or_coid row = or_coid r)) (live s)"
proof (induction rows arbitrary: s)
  case (Cons row rows)
  show ?case
    by (cases "startup_orphan ids promoted row")
      (auto simp: Cons.IH live_close intro!: filter_cong)
qed simp

lemma retire_orphans_envelopes:
  "k \<in> set (ds_envelopes D (retire_orphans D ids promoted rows s)) \<longleftrightarrow>
     k \<in> set (ds_envelopes D s) \<and>
     \<not> (\<exists>row \<in> set rows. startup_orphan ids promoted row \<and> or_intent_key row = Some k \<and> k \<noteq> [])"
  by (induction rows arbitrary: s) (auto simp: complete_intent_envelopes envelopes_close)

lemma clear_envelopes:
  "live (foldl (\<lambda>t key. if key \<in> K then t else so_complete (ds_rows D) key t) s keys) = live s"
  "k \<in> set (ds_envelopes D (foldl (\<lambda>t key. if key \<in> K then t else so_complete (ds_rows D) key t) s keys)) \<longleftrightarrow>
     k \<in> set (ds_envelopes D s) \<and> (k \<in> set keys \<longrightarrow> k \<in> K)"
  by (induction keys arbitrary: s) (auto simp: live_complete envelopes_complete)

lemma live_keys_iff: "k \<in> set (live_keys D s) \<longleftrightarrow> k \<noteq> [] \<and> (\<exists>r \<in> set (live s). or_intent_key r = Some k)"
  unfolding live_keys_def
  by (auto split: option.splits list.splits) (metis list.exhaust)+

lemma retire_unmatched_live:
  "live (retire_unmatched D ids has_exposure promoted s) =
     filter (\<lambda>r. \<not> (\<not> has_exposure \<and> startup_orphan ids promoted r)) (live s)"
proof -
  have "(\<exists>row \<in> set (live s). startup_orphan ids promoted row \<and> or_coid row = or_coid r) = startup_orphan ids promoted r"
    if "r \<in> set (live s)" for r
    using same_row that by blast
  then show ?thesis
    unfolding retire_unmatched_def retire_orphaned_envelopes_def retire_startup_orphans_def
    by (auto simp: clear_envelopes retire_orphans_live intro!: filter_cong)
qed

end

text \<open>The symbol is proven flat, and the row's order proven not open.\<close>

definition proven_flat :: "recovery_env \<Rightarrow> instrument_info \<Rightarrow> bool" where
  "proven_flat env market \<longleftrightarrow> recovery_has_exposure market (rv_positions env) (rv_spot_net env) = Inr (False, True)"

definition proven_orphan :: "recovery_env \<Rightarrow> instrument_info \<Rightarrow> order_row \<Rightarrow> bool" where
  "proven_orphan env market row \<longleftrightarrow>
     proven_flat env market \<and> (or_state row = ''confirmed'' \<or> or_state row = ''closing'') \<and>
     (\<exists>orders h. recovery_open_orders (rv_fuel env) (rv_orders env) = Some (Inr (orders, True)) \<and>
        broker_handle row = Some h \<and> h \<notin> set (map fst orders))"

text \<open>The two phases of a pass.\<close>

lemma recovery_phases:
  assumes "recover_in_flight_submissions D has_store env market R = Some (R', r)"
  shows "R' = R \<or> (\<exists>R1 q. recover_pending D env (ds_pending D (rc_store R)) R [] = Some (R1, q) \<and>
    rc_seen R' = rc_seen R1 \<and>
    (rc_store R' = rc_store R1 \<or>
     (\<exists>ps orders has_exposure. q = Inr ps \<and> has_store \<and> r = Inr () \<and>
        recovery_open_orders (rv_fuel env) (rv_orders env) = Some (Inr (orders, True)) \<and>
        recovery_has_exposure market (rv_positions env) (rv_spot_net env) = Inr (has_exposure, True) \<and>
        rc_store R' = retire_unmatched D (map fst orders) has_exposure ps (rc_store R1))))"
proof (cases "R' = R")
  case False
  obtain R1 q where rec: "recover_pending D env (ds_pending D (rc_store R)) R [] = Some (R1, q)"
    using assms False by (auto simp: recover_in_flight_submissions_def Let_def split: if_splits option.splits)
  show ?thesis
  proof (cases q)
    case (Inl e)
    then have "R' = R1"
      using assms False rec by (auto simp: recover_in_flight_submissions_def Let_def split: if_splits)
    then show ?thesis using rec by blast
  next
    case (Inr ps)
    then have snap: "recover_snapshots D env market ps R1 = Some (R', r)"
      using assms False rec by (auto simp: recover_in_flight_submissions_def Let_def split: if_splits)
    then consider "R' = R1" | orders has_exposure where
      "recovery_open_orders (rv_fuel env) (rv_orders env) = Some (Inr (orders, True))"
      "recovery_has_exposure market (rv_positions env) (rv_spot_net env) = Inr (has_exposure, True)"
      "R' = R1\<lparr>rc_store := retire_unmatched D (map fst orders) has_exposure ps (rc_store R1)\<rparr>" "r = Inr ()"
      by (auto simp: recover_snapshots_def split: option.splits sum.splits prod.splits if_splits)
    then show ?thesis
    proof cases
      case 1
      then show ?thesis using rec by blast
    next
      case 2
      then have "rc_seen R' = rc_seen R1"
        "rc_store R' = retire_unmatched D (map fst orders) has_exposure ps (rc_store R1)" by simp_all
      moreover have has_store using assms False by (simp add: recover_in_flight_submissions_def Let_def split: if_splits)
      ultimately show ?thesis using rec Inr 2(1,2,4) by blast
    qed
  qed
qed simp

context dispatch_store
begin

lemma follow_coids:
  "rows_follow env rows old new seen promoted \<Longrightarrow> set rows \<subseteq> set old \<Longrightarrow> coids new \<subseteq> coids old"
  unfolding rows_follow_def coids_def by (fastforce simp: image_iff)

lemma one_row_envelopes:
  assumes "one_outcome D env row R R' p" and "k \<in> set (ds_envelopes D (rc_store R))"
    and "k \<notin> set (ds_envelopes D (rc_store R'))"
  shows "or_intent_key row = Some k \<and> or_coid row \<notin> coids (live (rc_store R'))"
  using assms unfolding one_outcome_def
proof (elim disjE exE conjE)
  fix d
  assume "rc_store R' = retire_recovered_rejected D row d (rc_store R)"
  then show ?thesis using assms(2,3)
    by (auto simp: coids_def rejected_live)
      (auto simp: retire_recovered_rejected_def Let_def complete_intent_envelopes envelopes_terminal)
next
  fix d c Q
  assume q: "rc_store Q = rc_store R" "rc_store R' = rc_store (promote_row D row d c Q)"
  have "ds_envelopes D (rc_store (promote_row D row d c Q)) = ds_envelopes D (rc_store Q)"
    by (simp add: promote_row_def Let_def envelopes_update envelopes_ref envelopes_unpark)
  then show ?thesis using assms(2,3) q by simp
qed simp

lemma pending_rest:
  assumes "recover_one_pending_row D env row R = Some (R1, p)"
    and "set (row # rows) \<subseteq> set (live (rc_store R))" and "distinct (map or_coid (row # rows))"
  shows "set rows \<subseteq> set (live (rc_store R1))"
proof
  fix x
  assume x: "x \<in> set rows"
  then have "or_coid x \<in> or_coid ` set rows" by simp
  then have "or_coid x \<noteq> or_coid row" using assms(3) by auto
  then show "x \<in> set (live (rc_store R1))"
    using one_row_follows(2) [OF recover_one_outcome [OF assms(1)]] x assms(2) by auto
qed

lemma recover_pending_envelopes:
  assumes "recover_pending D env rows R acc = Some (R', q)"
    and "set rows \<subseteq> set (live (rc_store R))" and "distinct (map or_coid rows)"
    and "k \<in> set (ds_envelopes D (rc_store R))" and "k \<notin> set (ds_envelopes D (rc_store R'))"
  shows "\<exists>row \<in> set rows. or_intent_key row = Some k \<and> or_coid row \<notin> coids (live (rc_store R'))"
  using assms
proof (induction rows arbitrary: R acc)
  case (Cons row rows)
  obtain R1 p where one: "recover_one_pending_row D env row R = Some (R1, p)"
    using Cons.prems(1) by (auto split: option.splits)
  note sub = pending_rest [OF one Cons.prems(2,3)]
  note d = Cons.prems(3) [simplified, THEN conjunct2]
  consider e where "p = Inl e" "R' = R1" | b where "p = Inr b"
      "recover_pending D env rows R1 (if b then or_coid row # acc else acc) = Some (R', q)"
    using Cons.prems(1) one by (cases p) auto
  then have coids: "coids (live (rc_store R')) \<subseteq> coids (live (rc_store R1))"
  proof cases
    case 2
    then show ?thesis using recover_pending_follows [OF 2(2) sub d] follow_coids sub by blast
  qed simp
  show ?case
  proof (cases "k \<in> set (ds_envelopes D (rc_store R1))")
    case False
    then show ?thesis
      using one_row_envelopes [OF recover_one_outcome [OF one] Cons.prems(4)] coids by auto
  next
    case True
    then obtain b where "recover_pending D env rows R1 (if b then or_coid row # acc else acc) = Some (R', q)"
      using Cons.prems(1,5) one by (cases p) auto
    from Cons.IH [OF this sub d True Cons.prems(5)] show ?thesis by auto
  qed
qed simp

end

text \<open>Conversely the envelope of a dropped row is gone, and no step brings an envelope back.\<close>

context dispatch_store
begin

lemma one_row_keeps_envelopes:
  assumes "one_outcome D env row R R' p"
  shows "set (ds_envelopes D (rc_store R')) \<subseteq> set (ds_envelopes D (rc_store R))"
proof -
  have "ds_envelopes D (rc_store (promote_row D row d c Q)) = ds_envelopes D (rc_store Q)" for d c Q
    by (simp add: promote_row_def Let_def envelopes_update envelopes_ref envelopes_unpark)
  moreover have "set (ds_envelopes D (retire_recovered_rejected D row d s)) \<subseteq> set (ds_envelopes D s)" for d s
    by (auto simp: retire_recovered_rejected_def Let_def complete_intent_envelopes envelopes_terminal)
  ultimately show ?thesis using assms unfolding one_outcome_def by (elim disjE exE conjE) simp_all
qed

lemma one_row_drops:
  assumes o1: "one_outcome D env row R R' p" and row: "row \<in> set (live (rc_store R))"
    and x: "x \<in> set (live (rc_store R))" "or_coid x \<notin> coids (live (rc_store R'))"
    and k: "or_intent_key x = Some k" "k \<noteq> []"
  shows "k \<notin> set (ds_envelopes D (rc_store R'))"
  using o1 unfolding one_outcome_def
proof (elim disjE exE conjE)
  assume "rc_store R' = rc_store R"
  then show ?thesis using x by (auto simp: coids_def)
next
  fix d
  assume d: "rc_store R' = retire_recovered_rejected D row d (rc_store R)"
  have "or_coid x = or_coid row"
    using x unfolding d by (auto simp: rejected_live coids_def)
  then have "x = row" using same_row x(1) row by blast
  then show ?thesis using k unfolding d
    by (simp add: retire_recovered_rejected_def Let_def complete_intent_envelopes)
next
  fix d c Q
  assume q: "rc_store Q = rc_store R" "rc_store R' = rc_store (promote_row D row d c Q)"
  have "map or_coid (live (rc_store R')) = map or_coid (live (rc_store R))"
    by (simp add: q promote_live)
  then have "coids (live (rc_store R')) = coids (live (rc_store R))"
    unfolding coids_def set_map [symmetric] by simp
  then show ?thesis using x by (auto simp: coids_def)
qed

lemma found_landed_key: "found_landed env row s r \<Longrightarrow> or_intent_key r = or_intent_key row"
  by (auto simp: found_landed_def confirmed_row_def)

lemma recover_pending_drops:
  assumes "recover_pending D env rows R acc = Some (R', q)"
    and "set rows \<subseteq> set (live (rc_store R))" and "distinct (map or_coid rows)"
  shows "set (ds_envelopes D (rc_store R')) \<subseteq> set (ds_envelopes D (rc_store R)) \<and>
    (\<forall>x \<in> set (live (rc_store R)). \<forall>k. or_coid x \<notin> coids (live (rc_store R')) \<longrightarrow> or_intent_key x = Some k \<longrightarrow>
       k \<noteq> [] \<longrightarrow> k \<notin> set (ds_envelopes D (rc_store R')))"
  using assms
proof (induction rows arbitrary: R acc)
  case Nil
  then show ?case by (auto simp: coids_def)
next
  case (Cons row rows)
  obtain R1 p where one: "recover_one_pending_row D env row R = Some (R1, p)"
    using Cons.prems(1) by (auto split: option.splits)
  have row: "row \<in> set (live (rc_store R))" using Cons.prems(2) by simp
  note o1 = recover_one_outcome [OF one]
  note less = one_row_keeps_envelopes [OF o1]
  show ?case
  proof (cases p)
    case (Inl e)
    then have "R' = R1" using Cons.prems(1) one by auto
    then show ?thesis using less one_row_drops [OF o1 row] by blast
  next
    case (Inr b)
    have rest: "recover_pending D env rows R1 (if b then or_coid row # acc else acc) = Some (R', q)"
      using Cons.prems(1) one Inr by simp
    note ih = Cons.IH [OF rest pending_rest [OF one Cons.prems(2,3)] Cons.prems(3) [simplified, THEN conjunct2]]
    have "k \<notin> set (ds_envelopes D (rc_store R'))"
      if x: "x \<in> set (live (rc_store R))" "or_coid x \<notin> coids (live (rc_store R'))" and k: "or_intent_key x = Some k" "k \<noteq> []"
      for x k
    proof (cases "or_coid x \<in> coids (live (rc_store R1))")
      case False
      then show ?thesis using one_row_drops [OF o1 row x(1) _ k] ih by blast
    next
      case True
      then obtain x1 where x1: "x1 \<in> set (live (rc_store R1))" "or_coid x1 = or_coid x" by (auto simp: coids_def)
      have "or_intent_key x1 = Some k"
      proof (cases "x1 \<in> set (live (rc_store R))")
        case True
        then show ?thesis using same_row [OF True x(1) x1(2)] k by simp
      next
        case False
        then have f: "or_coid x1 = or_coid row" "found_landed env row (rc_seen R1) x1"
          using one_row_follows(1) [OF o1 row] x1(1) unfolding rows_follow_def by auto
        then have "x = row" using same_row [OF x(1) row] x1(2) by simp
        then show ?thesis using found_landed_key [OF f(2)] k by simp
      qed
      then show ?thesis using ih x1 x(2) k(2) by metis
    qed
    then show ?thesis using ih less by blast
  qed
qed

lemma retire_unmatched_clears:
  "k \<in> set (ds_envelopes D (retire_unmatched D ids has_exposure promoted s)) \<longleftrightarrow>
     k \<in> set (ds_envelopes D s) \<and>
     (has_exposure \<or>
      \<not> (\<exists>row \<in> set (live s). startup_orphan ids promoted row \<and> or_intent_key row = Some k \<and> k \<noteq> []) \<and>
      (k \<noteq> [] \<and> (\<exists>r \<in> set (live (retire_unmatched D ids has_exposure promoted s)). or_intent_key r = Some k)))"
proof -
  let ?s = "retire_startup_orphans D ids has_exposure promoted s"
  have l: "live (retire_unmatched D ids has_exposure promoted s) = live ?s"
    by (simp add: retire_unmatched_def retire_orphaned_envelopes_def clear_envelopes)
  have "k \<in> set (ds_envelopes D (retire_unmatched D ids has_exposure promoted s)) \<longleftrightarrow>
      k \<in> set (ds_envelopes D ?s) \<and> (has_exposure \<or> k \<in> set (live_keys D ?s))"
    by (auto simp: retire_unmatched_def retire_orphaned_envelopes_def clear_envelopes)
  moreover have "k \<in> set (ds_envelopes D ?s) \<longleftrightarrow> k \<in> set (ds_envelopes D s) \<and>
      (has_exposure \<or> \<not> (\<exists>row \<in> set (live s). startup_orphan ids promoted row \<and> or_intent_key row = Some k \<and> k \<noteq> []))"
    by (auto simp: retire_startup_orphans_def retire_orphans_envelopes)
  ultimately show ?thesis unfolding l by (auto simp only: live_keys_iff)
qed

end

lemma recovery_pass_ends:
  assumes "recover_in_flight_submissions D has_store env market R = Some (R', res)" and has_store
    and "k \<in> set (ds_envelopes D (rc_store R))"
  shows "\<exists>R1 q. recover_pending D env (ds_pending D (rc_store R)) R [] = Some (R1, q) \<and>
    (case q of Inl e \<Rightarrow> R' = R1 \<and> res = Inl e | Inr ps \<Rightarrow> recover_snapshots D env market ps R1 = Some (R', res))"
proof -
  have busy: "ds_envelopes D (rc_store R) \<noteq> []" using assms(3) by auto
  obtain R1 q where rec: "recover_pending D env (ds_pending D (rc_store R)) R [] = Some (R1, q)"
    using assms(1,2) busy by (auto simp: recover_in_flight_submissions_def Let_def split: option.splits)
  then have "case q of Inl e \<Rightarrow> R' = R1 \<and> res = Inl e | Inr ps \<Rightarrow> recover_snapshots D env market ps R1 = Some (R', res)"
    using assms(1,2) busy by (cases q) (auto simp: recover_in_flight_submissions_def Let_def)
  with rec show ?thesis by blast
qed

lemma snapshots_keep:
  assumes "recover_snapshots D env market ps R1 = Some (R', res)"
    and "\<not> ((\<exists>orders. recovery_open_orders (rv_fuel env) (rv_orders env) = Some (Inr (orders, True))) \<and> proven_flat env market)"
  shows "rc_store R' = rc_store R1"
  using assms
  by (auto simp: recover_snapshots_def proven_flat_def retire_unmatched_def retire_orphaned_envelopes_def
      retire_startup_orphans_def split: option.splits sum.splits prod.splits if_splits)

context dispatch_store
begin

text \<open>The pending rows, and after them the pass over a flat symbol.\<close>

lemma pending_phase:
  assumes rec: "recover_pending D env (ds_pending D (rc_store R)) R [] = Some (R1, q)"
    and k: "k \<in> set (ds_envelopes D (rc_store R))" "k \<noteq> []"
  shows "k \<notin> set (ds_envelopes D (rc_store R1)) \<longleftrightarrow>
    (\<exists>row \<in> set (live (rc_store R)). or_intent_key row = Some k \<and> or_coid row \<notin> coids (live (rc_store R1)))"
  using recover_pending_envelopes [OF rec pending_live pending_distinct k(1)] pending_live
    recover_pending_drops [OF rec pending_live pending_distinct] k(2) by blast

lemma pending_rows:
  assumes rec: "recover_pending D env (ds_pending D (rc_store R)) R [] = Some (R1, q)"
    and x: "x \<in> set (live (rc_store R))" and x1: "x1 \<in> set (live (rc_store R1))" "or_coid x1 = or_coid x"
  shows "or_intent_key x1 = or_intent_key x"
proof (cases "x1 \<in> set (live (rc_store R))")
  case True
  then show ?thesis using same_row [OF True x x1(2)] by simp
next
  case False
  then obtain row where row: "row \<in> set (ds_pending D (rc_store R))" "or_coid x1 = or_coid row"
      "found_landed env row (rc_seen R1) x1"
    using recover_pending_follows [OF rec pending_live pending_distinct] x1(1) unfolding rows_follow_def by blast
  then have "x = row" using same_row [OF x] pending_live x1(2) by auto
  then show ?thesis using found_landed_key [OF row(3)] by simp
qed

lemma flat_phase:
  assumes rec: "recover_pending D env (ds_pending D (rc_store R)) R [] = Some (R1, q)"
    and k: "k \<in> set (ds_envelopes D (rc_store R))" "k \<noteq> []"
    and R': "rc_store R' = retire_unmatched D ids False ps (rc_store R1)"
  shows "k \<notin> set (ds_envelopes D (rc_store R')) \<longleftrightarrow>
    (\<exists>row \<in> set (live (rc_store R)). or_intent_key row = Some k \<and> or_coid row \<notin> coids (live (rc_store R'))) \<or>
    (\<forall>row \<in> set (live (rc_store R')). or_intent_key row \<noteq> Some k)"
proof -
  have sub: "set (live (rc_store R')) \<subseteq> set (live (rc_store R1))" by (auto simp: R' retire_unmatched_live)
  have gone: "or_coid r \<notin> coids (live (rc_store R')) \<longleftrightarrow> startup_orphan ids ps r" if "r \<in> set (live (rc_store R1))" for r
    using same_row that by (auto simp: R' retire_unmatched_live coids_def)
  have coids1: "or_coid r \<notin> coids (live (rc_store R'))" if "or_coid r \<notin> coids (live (rc_store R1))" for r
    using that sub by (auto simp: coids_def)
  have kept: "\<exists>row \<in> set (live (rc_store R)). or_coid row = or_coid r1 \<and> or_intent_key row = or_intent_key r1"
    if "r1 \<in> set (live (rc_store R1))" for r1
  proof -
    have "coids (live (rc_store R1)) \<subseteq> coids (live (rc_store R))"
      by (rule follow_coids [OF recover_pending_follows [OF rec pending_live pending_distinct, THEN conjunct1] pending_live])
    then have "or_coid r1 \<in> coids (live (rc_store R))" using that by (auto simp: coids_def)
    then obtain row where "row \<in> set (live (rc_store R))" "or_coid row = or_coid r1" by (auto simp: coids_def)
    then show ?thesis using pending_rows [OF rec _ that] by auto
  qed
  have clears: "k \<notin> set (ds_envelopes D (rc_store R')) \<longleftrightarrow>
      k \<notin> set (ds_envelopes D (rc_store R1)) \<or>
      (\<exists>row \<in> set (live (rc_store R1)). or_coid row \<notin> coids (live (rc_store R')) \<and> or_intent_key row = Some k) \<or>
      (\<forall>r \<in> set (live (rc_store R')). or_intent_key r \<noteq> Some k)"
    using gone k(2) unfolding R' by (subst retire_unmatched_clears) blast
  have "(\<exists>row \<in> set (live (rc_store R)). or_intent_key row = Some k \<and> or_coid row \<notin> coids (live (rc_store R'))) \<longleftrightarrow>
      (\<exists>row \<in> set (live (rc_store R)). or_intent_key row = Some k \<and> or_coid row \<notin> coids (live (rc_store R1))) \<or>
      (\<exists>row \<in> set (live (rc_store R1)). or_coid row \<notin> coids (live (rc_store R')) \<and> or_intent_key row = Some k)"
    (is "?L \<longleftrightarrow> ?A \<or> ?B")
  proof
    assume ?L
    then obtain row where row: "row \<in> set (live (rc_store R))" "or_intent_key row = Some k" "or_coid row \<notin> coids (live (rc_store R'))"
      by blast
    show "?A \<or> ?B"
    proof (cases "or_coid row \<in> coids (live (rc_store R1))")
      case True
      then obtain x1 where x1: "x1 \<in> set (live (rc_store R1))" "or_coid x1 = or_coid row" by (auto simp: coids_def)
      then have "or_intent_key x1 = Some k" "or_coid x1 \<notin> coids (live (rc_store R'))"
        using pending_rows [OF rec row(1)] row(2,3) by simp_all
      then show ?thesis using x1(1) by blast
    qed (use row in blast)
  next
    assume "?A \<or> ?B"
    then show ?L using coids1 kept by metis
  qed
  then show ?thesis using clears pending_phase [OF rec k] by blast
qed

end

section \<open>Properties\<close>

text \<open>
  C25. Recovery gives up only what is proven: a live row is gone after it only when it was pending and
  its order was found dead without a fill, or when it was confirmed or closing and, from conclusive
  snapshots, its order is not open and the symbol flat. A failed or empty read retires nothing.
\<close>

theorem recovery_keeps_unproven_rows:
  assumes "dispatch_store D" and "recover_in_flight_submissions D has_store env market R = Some (R', r)"
    and "row \<in> set (so_live (ds_rows D) (rc_store R))"
    and "or_coid row \<notin> coids (so_live (ds_rows D) (rc_store R'))"
  shows "(row \<in> set (ds_pending D (rc_store R)) \<and> found_dead env row) \<or> proven_orphan env market row"
proof -
  note ax = assms(1)
  let ?live = "\<lambda>X. so_live (ds_rows D) (rc_store X)"
  have "R' \<noteq> R" using assms(3,4) by (auto simp: coids_def)
  then obtain R1 q where rec: "recover_pending D env (ds_pending D (rc_store R)) R [] = Some (R1, q)"
    and ph: "rc_store R' = rc_store R1 \<or> (\<exists>ps orders hx. q = Inr ps \<and>
        recovery_open_orders (rv_fuel env) (rv_orders env) = Some (Inr (orders, True)) \<and>
        recovery_has_exposure market (rv_positions env) (rv_spot_net env) = Inr (hx, True) \<and>
        rc_store R' = retire_unmatched D (map fst orders) hx ps (rc_store R1))"
    using recovery_phases [OF assms(2)] by blast
  have fol: "rows_follow env (ds_pending D (rc_store R)) (?live R) (?live R1) (rc_seen R1)
      (case q of Inr ps \<Rightarrow> Some ps | Inl e \<Rightarrow> None)"
    using dispatch_store.recover_pending_follows [OF ax rec dispatch_store.pending_live [OF ax]
        dispatch_store.pending_distinct [OF ax]] by blast
  show ?thesis
  proof (cases "or_coid row \<in> coids (?live R1)")
    case False
    then show ?thesis using fol assms(3) by (auto simp: rows_follow_def)
  next
    case True
    then obtain row1 where row1: "row1 \<in> set (?live R1)" "or_coid row1 = or_coid row" by (auto simp: coids_def)
    have "rc_store R' \<noteq> rc_store R1" using True assms(4) by auto
    then obtain ps orders hx where p: "q = Inr ps"
        "recovery_open_orders (rv_fuel env) (rv_orders env) = Some (Inr (orders, True))"
        "recovery_has_exposure market (rv_positions env) (rv_spot_net env) = Inr (hx, True)"
        "rc_store R' = retire_unmatched D (map fst orders) hx ps (rc_store R1)"
      using ph by blast
    have o: "\<not> hx" "startup_orphan (map fst orders) ps row1"
      using row1 assms(4) unfolding p(4) coids_def dispatch_store.retire_unmatched_live [OF ax]
      by (auto simp: image_iff)
    have "row1 \<in> set (?live R)"
    proof (rule ccontr)
      assume "row1 \<notin> set (?live R)"
      then have "or_coid row1 \<in> set ps" using fol row1(1) p(1) by (auto simp: rows_follow_def)
      then show False using o(2) by (simp add: startup_orphan_def)
    qed
    then have "row1 = row" using dispatch_store.same_row [OF ax _ assms(3)] row1(2) by blast
    then have "proven_orphan env market row"
      using o p(2,3) by (auto simp: proven_orphan_def proven_flat_def startup_orphan_def split: option.splits)
    then show ?thesis ..
  qed
qed

text \<open>
  C26. A recovered row is the venue's: every row that changed was pending, its client id was found, it
  carries the order's id and fill cursor, and if the order reports fills, the ids of its executions
  are in the de-dup already, so the stream cannot book them a second time.
\<close>

theorem recovery_promotes_deduplicated:
  assumes "dispatch_store D" and "recover_in_flight_submissions D has_store env market R = Some (R', res)"
    and "r \<in> set (so_live (ds_rows D) (rc_store R'))" and "r \<notin> set (so_live (ds_rows D) (rc_store R))"
  shows "\<exists>row \<in> set (ds_pending D (rc_store R)). or_coid r = or_coid row \<and> found_landed env row (rc_seen R') r"
proof -
  note ax = assms(1)
  have "R' \<noteq> R" using assms(3,4) by auto
  then obtain R1 q where rec: "recover_pending D env (ds_pending D (rc_store R)) R [] = Some (R1, q)"
    and seen: "rc_seen R' = rc_seen R1"
    and ph: "rc_store R' = rc_store R1 \<or> (\<exists>ids hx ps. rc_store R' = retire_unmatched D ids hx ps (rc_store R1))"
    using recovery_phases [OF assms(2)] by blast
  have "r \<in> set (so_live (ds_rows D) (rc_store R1))"
    using ph assms(3) by (auto simp: dispatch_store.retire_unmatched_live [OF ax])
  then show ?thesis
    using dispatch_store.recover_pending_follows [OF ax rec dispatch_store.pending_live [OF ax]
        dispatch_store.pending_distinct [OF ax]] assms(4) seen
    unfolding rows_follow_def by metis
qed

text \<open>
  C27. Which intent envelopes recovery clears, exactly: those with a row that was live before and is not
  afterwards, and, when the pass got through to conclusive snapshots of a symbol proven flat, those no
  live row is left for. So an intent none of whose rows was retired keeps its envelope while it has a
  row; but the legs of one exit share their intent, and retiring the row of one clears the envelope
  under the live row of the other.
\<close>

theorem recovery_clears_exact_envelopes:
  assumes "dispatch_store D" and "recover_in_flight_submissions D has_store env market R = Some (R', res)"
    and "k \<in> set (ds_envelopes D (rc_store R))" and "k \<noteq> []"
  shows "k \<notin> set (ds_envelopes D (rc_store R')) \<longleftrightarrow>
    (\<exists>row \<in> set (so_live (ds_rows D) (rc_store R)). or_intent_key row = Some k \<and>
       or_coid row \<notin> coids (so_live (ds_rows D) (rc_store R'))) \<or>
    (has_store \<and> res = Inr () \<and> proven_flat env market \<and>
       (\<exists>orders. recovery_open_orders (rv_fuel env) (rv_orders env) = Some (Inr (orders, True))) \<and>
       (\<forall>row \<in> set (so_live (ds_rows D) (rc_store R')). or_intent_key row \<noteq> Some k))"
    (is "_ \<longleftrightarrow> ?dropped \<or> ?swept")
proof (cases "\<not> has_store")
  case True
  then have "R' = R" using assms(2) by (simp add: recover_in_flight_submissions_def)
  then show ?thesis using True assms(3) by (auto simp: coids_def)
next
  case False
  let ?live = "\<lambda>X. so_live (ds_rows D) (rc_store X)" and ?env = "\<lambda>X. set (ds_envelopes D (rc_store X))"
  note pass = recovery_pass_ends [OF assms(2) _ assms(3)]
  from False obtain R1 q where rec: "recover_pending D env (ds_pending D (rc_store R)) R [] = Some (R1, q)"
    and ends: "(case q of Inl e \<Rightarrow> R' = R1 \<and> res = Inl e | Inr ps \<Rightarrow> recover_snapshots D env market ps R1 = Some (R', res))"
    using pass by blast
  show ?thesis
  proof (cases "\<exists>ps orders. q = Inr ps \<and> recovery_open_orders (rv_fuel env) (rv_orders env) = Some (Inr (orders, True)) \<and>
      proven_flat env market")
    case False
    then have same: "rc_store R' = rc_store R1"
      using ends snapshots_keep [of D env market _ R1 R' res] by (auto split: sum.splits)
    have "\<not> ?swept" using ends False by (cases q) auto
    then show ?thesis using dispatch_store.pending_phase [OF assms(1) rec assms(3,4)] unfolding same by blast
  next
    case True
    then obtain ps orders where t: "q = Inr ps" "rc_store R' = retire_unmatched D (map fst orders) False ps (rc_store R1)"
        "res = Inr ()" "recovery_open_orders (rv_fuel env) (rv_orders env) = Some (Inr (orders, True))" "proven_flat env market"
      using ends by (auto simp: recover_snapshots_def proven_flat_def)
    show ?thesis
      using dispatch_store.flat_phase [OF assms(1) rec assms(3,4) t(2)] t False by auto
  qed
qed

text \<open>
  Recovery never raises for a failing venue: when every endpoint answers with an error of the plugin,
  whatever its code, the pass ends normally and nothing has changed.
\<close>

definition venue_down :: "recovery_env \<Rightarrow> bool" where
  "venue_down env \<longleftrightarrow>
     (\<forall>c. \<forall>reply \<in> set (rv_lookup env c). \<exists>e. reply = Inl (Bybit e)) \<and>
     (\<forall>cursor. \<exists>e. rv_orders env cursor = Inl (Bybit e)) \<and> (\<exists>e. rv_positions env = Inl (Bybit e))"

lemma lookup_down: "\<forall>reply \<in> set replies. \<exists>e. reply = Inl (Bybit e) \<Longrightarrow> lookup_order_by_coid replies = Inr None"
  by (induction replies) auto

lemma pending_down:
  "venue_down env \<Longrightarrow> recover_pending D env rows R promoted = Some (R, Inr promoted)"
  by (induction rows) (auto simp: recover_one_pending_row_def venue_down_def lookup_down)

lemma recovery_absorbs_venue_errors:
  assumes "venue_down env" and "in_category market \<noteq> CATEGORY_SPOT" and "rv_fuel env = Suc n"
  shows "recover_in_flight_submissions D has_store env market R = Some (R, Inr ())"
proof -
  obtain e1 e2 where e: "rv_orders env PNone = Inl (Bybit e1)" "rv_positions env = Inl (Bybit e2)"
    using assms(1) unfolding venue_down_def by blast
  have "recovery_open_orders (rv_fuel env) (rv_orders env) = Some (Inr ([], False))"
    using e(1) assms(3) by (simp add: recovery_open_orders_def open_order_rows_def)
  moreover have "recovery_has_exposure market (rv_positions env) (rv_spot_net env) = Inr (False, False)"
    using e(2) assms(2) by (simp add: recovery_has_exposure_def fetch_position_rows_def)
  ultimately show ?thesis
    by (simp add: recover_in_flight_submissions_def recover_snapshots_def Let_def pending_down [OF assms(1)])
qed

text \<open>
  A restart: \<open>p1\<close> was sent and filled, \<open>p2\<close> was rejected, \<open>c1\<close> was confirmed and is gone, and the
  envelope \<open>k0\<close> has no row left.
\<close>

definition example_pending_row :: "string \<Rightarrow> string \<Rightarrow> string option \<Rightarrow> order_row" where
  "example_pending_row c st oid =
     (example_entry_row c 3 0 20)\<lparr>or_state := st, or_order_id := oid, or_intent_key := Some (''k'' @ c)\<rparr>"

definition example_recovery :: "(order_row list \<times> string list) recovery" where
  "example_recovery =
     \<lparr>rc_store = ([example_pending_row ''p1'' ''submitted'' None, example_pending_row ''p2'' ''submitted'' None,
        example_pending_row ''c1'' ''confirmed'' (Some ''o7'')], [''kp1'', ''kp2'', ''kc1'', ''k0'']),
      rc_seen = [], rc_anchors = Map.empty\<rparr>"

definition example_found :: "string \<Rightarrow> string \<Rightarrow> string \<Rightarrow> jdict" where
  "example_found oid st q =
     [(''list'', PList [PDict [(''orderId'', PStr oid), (''orderStatus'', PStr st), (''cumExecQty'', PStr q)]])]"

definition example_recovery_env :: recovery_env where
  "example_recovery_env =
     \<lparr>rv_fuel = 1, rv_clock = 90,
      rv_lookup = (\<lambda>c. if c = ''p1'' then [Inr (example_found ''o1'' ''Filled'' ''3'')]
        else [Inr [], Inr (example_found ''o2'' ''Rejected'' ''0'')]),
      rv_executions = (\<lambda>oid. example_executions), rv_orders = (\<lambda>c. Inr []),
      rv_positions = Inr [], rv_spot_net = None\<rparr>"

abbreviation example_journal_store where "example_journal_store \<equiv> journal_store [''submitted'']"

definition example_recovered :: "(order_row list \<times> string list) recovery" where
  "example_recovered = fst (the (recover_in_flight_submissions example_journal_store True example_recovery_env
     example_perpetual example_recovery))"

lemma example_recovers:
  "recover_in_flight_submissions example_journal_store True example_recovery_env example_perpetual example_recovery
     = Some (example_recovered, Inr ())"
proof -
  have e: "map_option snd (recover_in_flight_submissions example_journal_store True example_recovery_env
      example_perpetual example_recovery) = Some (Inr ())"
    by code_simp
  have "m = Some (fst (the m), Inr ())" if "map_option snd m = Some (Inr ())"
    for m :: "((order_row list \<times> string list) recovery \<times> (raised + unit)) option"
    using that by (cases m) (auto simp: prod_eq_iff)
  from this [OF e] show ?thesis unfolding example_recovered_def .
qed

lemma example_recovered_view:
  "map or_coid (so_live (ds_rows example_journal_store) (rc_store example_recovered)) = [''p1'']"
  "map or_filled (so_live (ds_rows example_journal_store) (rc_store example_recovered)) = [3]"
  "ds_envelopes example_journal_store (rc_store example_recovered) = [''kp1'']"
  "rc_seen example_recovered = [''e1'', ''e2'']"
  by code_simp+

lemma example_before:
  "map or_coid (so_live (ds_rows example_journal_store) (rc_store example_recovery)) = [''p1'', ''p2'', ''c1'']"
  "map or_filled (so_live (ds_rows example_journal_store) (rc_store example_recovery)) = [0, 0, 0]"
  "ds_envelopes example_journal_store (rc_store example_recovery) = [''kp1'', ''kp2'', ''kc1'', ''k0'']"
  "map or_intent_key (so_live (ds_rows example_journal_store) (rc_store example_recovery)) =
     [Some ''kp1'', Some ''kp2'', Some ''kc1'']"
  by code_simp+

lemma coids_map: "coids rows = set (map or_coid rows)"
  by (simp add: coids_def)

theorem recovery_keeps_unproven_rows_witness:
  "\<exists>row. or_coid row = ''p2'' \<and>
     (found_dead example_recovery_env row \<or> proven_orphan example_recovery_env example_perpetual row)"
proof -
  have "''p2'' \<in> set (map or_coid (so_live (ds_rows example_journal_store) (rc_store example_recovery)))"
    unfolding example_before by simp
  then obtain row where row: "row \<in> set (so_live (ds_rows example_journal_store) (rc_store example_recovery))"
      "or_coid row = ''p2''"
    unfolding set_map by (elim imageE) simp
  have n: "or_coid row \<notin> coids (so_live (ds_rows example_journal_store) (rc_store example_recovered))"
    unfolding coids_map example_recovered_view row(2) by simp
  show ?thesis
    using recovery_keeps_unproven_rows [OF journal.dispatch_store_axioms example_recovers row(1) n] row(2)
    by (intro exI [of _ row]) (elim disjE conjE; simp)
qed

theorem recovery_promotes_deduplicated_witness:
  "\<exists>r row. or_filled r = 3 \<and> or_coid r = or_coid row \<and>
     found_landed example_recovery_env row [''e1'', ''e2''] r"
proof -
  have "3 \<in> set (map or_filled (so_live (ds_rows example_journal_store) (rc_store example_recovered)))"
    unfolding example_recovered_view by simp
  then obtain r where r: "r \<in> set (so_live (ds_rows example_journal_store) (rc_store example_recovered))" "or_filled r = 3"
    unfolding set_map by (elim imageE) simp
  have "3 \<notin> set (map or_filled (so_live (ds_rows example_journal_store) (rc_store example_recovery)))"
    unfolding example_before by simp
  then have n: "r \<notin> set (so_live (ds_rows example_journal_store) (rc_store example_recovery))"
    using r(2) unfolding set_map by (metis imageI)
  from recovery_promotes_deduplicated [OF journal.dispatch_store_axioms example_recovers r(1) n]
  obtain row where "or_coid r = or_coid row" "found_landed example_recovery_env row (rc_seen example_recovered) r"
    by (elim bexE conjE)
  then show ?thesis unfolding example_recovered_view using r(2) by (intro exI conjI)
qed

theorem recovery_clears_exact_envelopes_witness:
  "proven_flat example_recovery_env example_perpetual \<and>
     Some ''k0'' \<notin> set (map or_intent_key (so_live (ds_rows example_journal_store) (rc_store example_recovered)))"
proof -
  have b: "''k0'' \<in> set (ds_envelopes example_journal_store (rc_store example_recovery))"
    unfolding example_before by simp
  have a: "''k0'' \<notin> set (ds_envelopes example_journal_store (rc_store example_recovered))"
    unfolding example_recovered_view by simp
  have n: "''k0'' \<noteq> []" by simp
  have "Some ''k0'' \<notin> set (map or_intent_key (so_live (ds_rows example_journal_store) (rc_store example_recovery)))"
    unfolding example_before by simp
  then have k: "or_intent_key row \<noteq> Some ''k0''"
    if "row \<in> set (so_live (ds_rows example_journal_store) (rc_store example_recovery))" for row
    using that unfolding set_map by (metis imageI)
  from recovery_clears_exact_envelopes [OF journal.dispatch_store_axioms example_recovers b n, THEN iffD1, OF a]
  show ?thesis
  proof (elim disjE bexE conjE)
    fix row
    assume "row \<in> set (so_live (ds_rows example_journal_store) (rc_store example_recovery))"
      "or_intent_key row = Some ''k0''"
    from k [OF this(1)] this(2) show ?thesis by (rule notE)
  next
    assume flat: "proven_flat example_recovery_env example_perpetual"
      and all: "\<forall>row \<in> set (so_live (ds_rows example_journal_store) (rc_store example_recovered)). or_intent_key row \<noteq> Some ''k0''"
    have "Some ''k0'' \<notin> set (map or_intent_key (so_live (ds_rows example_journal_store) (rc_store example_recovered)))"
    proof
      assume "Some ''k0'' \<in> set (map or_intent_key (so_live (ds_rows example_journal_store) (rc_store example_recovered)))"
      then obtain row where r: "row \<in> set (so_live (ds_rows example_journal_store) (rc_store example_recovered))"
        "Some ''k0'' = or_intent_key row" unfolding set_map by (elim imageE)
      show False using bspec [OF all r(1)] r(2) [symmetric] by (rule notE)
    qed
    with flat show ?thesis by (rule conjI)
  qed
qed

end
