(* ===== verification/State_Query.thy ===== *)
theory State_Query
  imports Adoption Recovery Inverse_Sizing
begin

text \<open>
  The engine-facing reads and the startup of the broker (\<^verbatim>\<open>src/src/pynecore_bybit/state.py\<close>, with
  \<open>_fetch_deriv_position\<close> and \<open>fetch_raw_positions\<close> of \<^verbatim>\<open>positions.py\<close>): the parse of an order, the
  account identity, the capabilities, the one-shot startup with the recovery and the reads of orders,
  position and balance. The framework's spot inventory manager is a type variable with the functions
  the code calls on it, the netting view of the emulator a parameter.
\<close>

section \<open>Errors\<close>

text \<open>What a read raises: a broker error, a capability error, or what nobody translated.\<close>

datatype query_error =
    Broker broker_error
  | ExchangeCapabilityError string
  | Escaped raised

text \<open>\<open>except BybitError as e: raise classify_read_error(e) from e\<close>\<close>

definition classified :: "raised + 'a \<Rightarrow> query_error + 'a" where
  "classified r =
     (case r of
        Inl (Bybit e) \<Rightarrow> Inl (Broker (classify_read_error e))
      | Inl e \<Rightarrow> Inl (Escaped e)
      | Inr x \<Rightarrow> Inr x)"

definition escaping :: "raised + 'a \<Rightarrow> query_error + 'a" where
  "escaping r = (case r of Inl e \<Rightarrow> Inl (Escaped e) | Inr x \<Rightarrow> Inr x)"

lemma classified_Inr [simp]: "classified r = Inr x \<longleftrightarrow> r = Inr x"
  by (cases r) (auto simp: classified_def split: raised.splits)

section \<open>Orders\<close>

datatype order_status = OPEN | PARTIALLY_FILLED | FILLED | CANCELLED | REJECTED

datatype order_type = LIMIT | MARKET | STOP

definition ORDER_STATUS_MAP :: "(string \<times> order_status) list" where
  "ORDER_STATUS_MAP =
     [(''New'', OPEN), (''PartiallyFilled'', PARTIALLY_FILLED), (''Untriggered'', OPEN), (''Triggered'', OPEN),
      (''Filled'', FILLED), (''Cancelled'', CANCELLED), (''PartiallyFilledCanceled'', CANCELLED),
      (''Rejected'', REJECTED), (''Deactivated'', CANCELLED)]"

definition order_type_of :: "jdict \<Rightarrow> order_type" where
  "order_type_of entry =
     (if jstr entry ''triggerPrice'' \<noteq> [] then STOP
      else if jstr entry ''orderType'' = ''Limit'' then LIMIT else MARKET)"

record exchange_order =
  eo_id :: string
  eo_symbol :: string
  eo_side :: string
  eo_type :: order_type
  eo_qty :: num
  eo_filled_qty :: num
  eo_remaining_qty :: num
  eo_price :: "num option"
  eo_stop_price :: "num option"
  eo_average_fill_price :: "num option"
  eo_status :: order_status
  eo_timestamp :: num
  eo_fee :: num
  eo_reduce_only :: bool
  eo_client_order_id :: "string option"

text \<open>Float arithmetic with the special values: \<open>a - b\<close>, \<open>max(0.0, x)\<close>, \<open>x / d\<close>, \<open>x or None\<close>\<close>

fun float_sub :: "num \<Rightarrow> num \<Rightarrow> num" where
  "float_sub (Fin a) (Fin b) = Fin (a - b)"
| "float_sub NaN y = NaN"
| "float_sub x NaN = NaN"
| "float_sub PosInf y = (if y = PosInf then NaN else PosInf)"
| "float_sub NegInf y = (if y = NegInf then NaN else NegInf)"
| "float_sub (Fin a) y = (if y = PosInf then NegInf else PosInf)"

definition float_max0 :: "num \<Rightarrow> num" where
  "float_max0 x = (if num_positive x then x else Fin 0)"

fun float_over :: "num \<Rightarrow> rat \<Rightarrow> num" where
  "float_over (Fin a) d = Fin (a / d)"
| "float_over x d = x"

definition nonzero_or_none :: "num \<Rightarrow> num option" where
  "nonzero_or_none x = (if x = Fin 0 then None else Some x)"

definition some_text :: "string \<Rightarrow> string option" where
  "some_text s = (if s = [] then None else Some s)"

definition parse_exchange_order :: "jdict \<Rightarrow> py_error + exchange_order" where
  "parse_exchange_order entry =
     res_bind (row_float entry ''qty'') (\<lambda>qty.
     res_bind (row_float entry ''cumExecQty'') (\<lambda>filled.
     res_bind (row_float entry ''price'') (\<lambda>price.
     res_bind (row_float entry ''triggerPrice'') (\<lambda>trigger.
     res_bind (row_float entry ''avgPrice'') (\<lambda>avg.
     res_bind (row_float entry ''createdTime'') (\<lambda>created_ms.
     res_bind (row_float entry ''cumExecFee'') (\<lambda>fee.
       Inr \<lparr>eo_id = jstr entry ''orderId'', eo_symbol = jstr entry ''symbol'', eo_side = lower (jstr entry ''side''),
            eo_type = order_type_of entry, eo_qty = qty, eo_filled_qty = filled,
            eo_remaining_qty = float_max0 (float_sub qty filled), eo_price = nonzero_or_none price,
            eo_stop_price = nonzero_or_none trigger, eo_average_fill_price = nonzero_or_none avg,
            eo_status = (case map_of ORDER_STATUS_MAP (jstr entry ''orderStatus'') of Some st \<Rightarrow> st | None \<Rightarrow> OPEN),
            eo_timestamp = float_over created_ms 1000, eo_fee = fee,
            eo_reduce_only = truthy (jget_default entry ''reduceOnly'' (PBool False)),
            eo_client_order_id = some_text (jstr entry ''orderLinkId'')\<rparr>)))))))"

section \<open>Identity and capabilities\<close>

record account =
  ac_api_key :: string
  ac_demo :: bool
  ac_id :: "string option"

definition no_user_id :: raised where
  "no_user_id = Bybit (BybitConnectionError ''Bybit query-api returned no userID - cannot derive the account identity'')"

definition account_id :: "raised + jdict \<Rightarrow> account \<Rightarrow> account \<times> (raised + string)" where
  "account_id reply A =
     (if ac_id A = None \<and> ac_api_key A \<noteq> []
      then
        (case reply of
           Inl e \<Rightarrow> (A, Inl e)
         | Inr result \<Rightarrow>
             (let uid = jstr result ''userID'';
                  ident = ''bybit-'' @ (if ac_demo A then ''demo'' else ''live'') @ ''-'' @ uid
              in if uid = [] then (A, Inl no_user_id) else (A\<lparr>ac_id := Some ident\<rparr>, Inr ident)))
      else (A, Inr (case ac_id A of Some (c # cs) \<Rightarrow> c # cs | _ \<Rightarrow> ''default'')))"

datatype capability_level = NATIVE | PARTIAL_NATIVE | SOFTWARE | UNSUPPORTED

record capabilities =
  cp_stop_order :: capability_level
  cp_trailing_stop :: capability_level
  cp_tp_sl_bracket :: capability_level
  cp_partial_qty_bracket_exit :: capability_level
  cp_partial_qty_bracket_exit_pyramiding :: capability_level
  cp_oca_cancel :: capability_level
  cp_amend_order :: capability_level
  cp_cancel_all :: capability_level
  cp_reduce_only :: capability_level
  cp_watch_orders :: capability_level
  cp_fetch_position :: capability_level
  cp_idempotency :: capability_level
  cp_short_selling :: capability_level

definition get_capabilities :: "instrument_info \<Rightarrow> capabilities" where
  "get_capabilities market =
     (if in_category market = CATEGORY_SPOT
      then
        \<lparr>cp_stop_order = NATIVE, cp_trailing_stop = UNSUPPORTED, cp_tp_sl_bracket = SOFTWARE,
         cp_partial_qty_bracket_exit = SOFTWARE, cp_partial_qty_bracket_exit_pyramiding = SOFTWARE,
         cp_oca_cancel = SOFTWARE, cp_amend_order = PARTIAL_NATIVE, cp_cancel_all = NATIVE,
         cp_reduce_only = SOFTWARE, cp_watch_orders = NATIVE, cp_fetch_position = SOFTWARE,
         cp_idempotency = NATIVE, cp_short_selling = UNSUPPORTED\<rparr>
      else
        \<lparr>cp_stop_order = NATIVE, cp_trailing_stop = NATIVE, cp_tp_sl_bracket = SOFTWARE,
         cp_partial_qty_bracket_exit = SOFTWARE, cp_partial_qty_bracket_exit_pyramiding = SOFTWARE,
         cp_oca_cancel = SOFTWARE, cp_amend_order = PARTIAL_NATIVE, cp_cancel_all = NATIVE,
         cp_reduce_only = NATIVE, cp_watch_orders = NATIVE, cp_fetch_position = NATIVE,
         cp_idempotency = NATIVE, cp_short_selling = NATIVE\<rparr>)"

definition spot_market :: "instrument_info \<Rightarrow> query_error + instrument_info" where
  "spot_market market =
     (if in_category market \<noteq> CATEGORY_SPOT
      then Inl (ExchangeCapabilityError (''Bybit spot inventory path invoked on a '' @ in_category market @
             '' instrument ('' @ quote_str (in_symbol market) @ '') - this is a plugin bug''))
      else Inr market)"

definition owns_order_link_id :: "(string \<times> 'i) list \<Rightarrow> string \<Rightarrow> bool" where
  "owns_order_link_id order_identity link_id \<longleftrightarrow> link_id \<in> set (map fst order_identity)"

section \<open>Startup\<close>

text \<open>The state of the broker; \<open>'m\<close> is the running spot manager.\<close>

record ('s, 'm) broker =
  bk_started :: bool
  bk_position_port :: bool
  bk_account :: account
  bk_inverse :: inverse_state
  bk_adoption :: "'s adoption"
  bk_spot :: "'m option"

text \<open>The venue's answers to the startup, the spot manager's start for an account, its net base.\<close>

record ('s, 'm) start_env =
  se_dispatch :: "'s dispatch_ops"
  se_has_store :: bool
  se_identity :: "raised + jdict"
  se_mode :: "raised + jdict"
  se_seed :: "raised + jdict"
  se_spot_start :: "string \<Rightarrow> raised + 'm"
  se_spot_net :: "'m \<Rightarrow> num"
  se_recovery :: recovery_env

definition recovery_of :: "('s, 'm) broker \<Rightarrow> 's recovery" where
  "recovery_of B =
     \<lparr>rc_store = ad_store (bk_adoption B), rc_seen = ad_seen (bk_adoption B), rc_anchors = iv_anchor (bk_inverse B)\<rparr>"

definition with_recovery :: "'s recovery \<Rightarrow> ('s, 'm) broker \<Rightarrow> ('s, 'm) broker" where
  "with_recovery R B =
     B\<lparr>bk_adoption := (bk_adoption B)\<lparr>ad_store := rc_store R, ad_seen := rc_seen R\<rparr>,
       bk_inverse := (bk_inverse B)\<lparr>iv_anchor := rc_anchors R\<rparr>\<rparr>"

definition set_mode :: "string \<Rightarrow> ('s, 'm) broker \<Rightarrow> ('s, 'm) broker" where
  "set_mode mode B =
     B\<lparr>bk_adoption := (bk_adoption B)\<lparr>ad_positions := (ad_positions (bk_adoption B))\<lparr>ps_mode := Some mode\<rparr>\<rparr>\<rparr>"

definition hedge_inverse_error :: "instrument_info \<Rightarrow> query_error" where
  "hedge_inverse_error market =
     ExchangeCapabilityError (''Bybit inverse trading requires one-way position mode; the account holds '' @
       quote_str (in_symbol market) @ '' legs in hedge mode. Switch the contract to one-way mode on Bybit and restart.'')"

definition start_derivative ::
    "('s, 'm) start_env \<Rightarrow> instrument_info \<Rightarrow> ('s, 'm) broker \<Rightarrow> ('s, 'm) broker \<times> (query_error + unit)" where
  "start_derivative E market B =
     (case detect_position_mode (se_mode E) of
        Inl e \<Rightarrow> (B, Inl (Escaped e))
      | Inr mode \<Rightarrow>
          (let B1 = set_mode mode B in
           if mode = POSITION_MODE_HEDGE \<and> is_inverse market then (B1, Inl (hedge_inverse_error market))
           else
             let B2 = (if mode = POSITION_MODE_HEDGE then B1\<lparr>bk_position_port := True\<rparr> else B1) in
             if is_inverse market
             then (case res_bind (fetch_position_rows (se_seed E)) (\<lambda>rows. inverse_seed_net rows (bk_inverse B2)) of
                     Inl e \<Rightarrow> (B2, Inl (Escaped e))
                   | Inr I \<Rightarrow> (B2\<lparr>bk_inverse := I\<rparr>, Inr ()))
             else (B2, Inr ())))"

definition start_spot ::
    "('s, 'm) start_env \<Rightarrow> ('s, 'm) broker \<Rightarrow> ('s, 'm) broker \<times> (query_error + unit)" where
  "start_spot E B =
     (if \<not> se_has_store E then (B, Inr ())
      else
        (case account_id (se_identity E) (bk_account B) of
           (A, Inl e) \<Rightarrow> (B\<lparr>bk_account := A\<rparr>, Inl (Escaped e))
         | (A, Inr ident) \<Rightarrow>
             (case se_spot_start E ident of
                Inl e \<Rightarrow> (B\<lparr>bk_account := A\<rparr>, Inl (Escaped e))
              | Inr manager \<Rightarrow> (B\<lparr>bk_account := A, bk_spot := Some manager\<rparr>, Inr ()))))"

definition start_category ::
    "('s, 'm) start_env \<Rightarrow> instrument_info \<Rightarrow> ('s, 'm) broker \<Rightarrow> ('s, 'm) broker \<times> (query_error + unit)" where
  "start_category E market B =
     (if in_category market \<noteq> CATEGORY_SPOT then start_derivative E market B else start_spot E B)"

definition recovery_env_of :: "('s, 'm) start_env \<Rightarrow> ('s, 'm) broker \<Rightarrow> recovery_env" where
  "recovery_env_of E B = (se_recovery E)\<lparr>rv_spot_net := map_option (se_spot_net E) (bk_spot B)\<rparr>"

definition ensure_broker_started ::
    "('s, 'm) start_env \<Rightarrow> instrument_info \<Rightarrow> ('s, 'm) broker \<Rightarrow> (('s, 'm) broker \<times> (query_error + unit)) option" where
  "ensure_broker_started E market B =
     (if bk_started B then Some (B, Inr ())
      else
        (case start_category E market B of
           (B1, Inl e) \<Rightarrow> Some (B1, Inl e)
         | (B1, Inr u) \<Rightarrow>
             (case recover_in_flight_submissions (se_dispatch E) (se_has_store E) (recovery_env_of E B1) market
                     (recovery_of B1) of
                None \<Rightarrow> None
              | Some (R, Inl e) \<Rightarrow> Some (with_recovery R B1, Inl (Escaped e))
              | Some (R, Inr v) \<Rightarrow> Some ((with_recovery R B1)\<lparr>bk_started := True\<rparr>, Inr ()))))"

section \<open>The reads\<close>

text \<open>
  The state a read runs in beside the broker: whether a store is configured, the chart symbol, the
  last trade price, the clock, and the anchors of the store's rows.
\<close>

record read_ctx =
  rx_store :: bool
  rx_symbol :: "string option"
  rx_last_price :: "num option"
  rx_clock :: int
  rx_extras :: extras_lookup

definition chart_symbol :: "read_ctx \<Rightarrow> instrument_info \<Rightarrow> string" where
  "chart_symbol X market = (case rx_symbol X of Some (c # cs) \<Rightarrow> c # cs | _ \<Rightarrow> in_symbol market)"

text \<open>\<open>symbol in (self.symbol, market.symbol)\<close>\<close>

definition own_symbol :: "read_ctx \<Rightarrow> instrument_info \<Rightarrow> string \<Rightarrow> bool" where
  "own_symbol X market symbol \<longleftrightarrow> rx_symbol X = Some symbol \<or> symbol = in_symbol market"

definition first_price :: "num option list \<Rightarrow> num option" where
  "first_price xs =
     (case filter (\<lambda>x. x \<noteq> None \<and> x \<noteq> Some (Fin 0)) xs of [] \<Rightarrow> None | x # _ \<Rightarrow> x)"

definition float_div :: "num \<Rightarrow> num \<Rightarrow> num" where
  "float_div x factor =
     (case (x, factor) of
        (Fin a, Fin f) \<Rightarrow> Fin (a / f)
      | (Fin a, NaN) \<Rightarrow> NaN
      | (Fin a, _) \<Rightarrow> Fin 0
      | (s, Fin f) \<Rightarrow> s
      | _ \<Rightarrow> NaN)"

text \<open>
  An order in base units at its anchor, else at the first price it carries, else at the last trade.
  An anchor that is NaN fails the comparison with zero.
\<close>

definition inverse_order_to_base ::
    "read_ctx \<Rightarrow> exchange_order \<Rightarrow> inverse_state \<Rightarrow> py_error + (inverse_state \<times> exchange_order)" where
  "inverse_order_to_base X o1 I =
     res_bind (inverse_anchor_for (rx_extras X) (case eo_client_order_id o1 of Some c \<Rightarrow> c | None \<Rightarrow> [])
         (first_price [eo_price o1, eo_stop_price o1, eo_average_fill_price o1, rx_last_price X]) I) (\<lambda>(I1, anchor).
       case anchor of
         None \<Rightarrow> Inr (I1, o1)
       | Some a \<Rightarrow>
           res_bind (num_greater a (Fin 0)) (\<lambda>g.
             if \<not> g then Inr (I1, o1)
             else Inr (I1, o1\<lparr>eo_qty := float_div (eo_qty o1) a,
                            eo_filled_qty := float_div (eo_filled_qty o1) a,
                            eo_remaining_qty := float_div (eo_remaining_qty o1) a\<rparr>)))"

fun orders_to_base ::
    "read_ctx \<Rightarrow> exchange_order list \<Rightarrow> inverse_state \<Rightarrow> py_error + (inverse_state \<times> exchange_order list)" where
  "orders_to_base X [] I = Inr (I, [])"
| "orders_to_base X (o1 # os) I =
     res_bind (inverse_order_to_base X o1 I) (\<lambda>(I1, o2).
     res_bind (orders_to_base X os I1) (\<lambda>(I2, os2). Inr (I2, o2 # os2)))"

text \<open>The pages of the open orders: a read that fails is translated, an order that does not parse is not.\<close>

fun open_pages :: "nat \<Rightarrow> orders_api \<Rightarrow> py \<Rightarrow> exchange_order list \<Rightarrow> (query_error + exchange_order list) option" where
  "open_pages 0 api cursor out = None"
| "open_pages (Suc n) api cursor out =
     (case classified (api cursor) of
        Inl e \<Rightarrow> Some (Inl e)
      | Inr result \<Rightarrow>
          (case res_bind (as_list (py_or (jget result ''list'') (PList [])))
                 (res_map (\<lambda>v. res_bind (as_dict v) parse_exchange_order)) of
             Inl e \<Rightarrow> Some (Inl (Escaped (Lang e)))
           | Inr page \<Rightarrow>
               (let nx = py_or (jget result ''nextPageCursor'') PNone in
                if \<not> truthy nx then Some (Inr (out @ page)) else open_pages n api nx (out @ page))))"

definition get_open_orders ::
    "('s, 'm) start_env \<Rightarrow> read_ctx \<Rightarrow> nat \<Rightarrow> orders_api \<Rightarrow> instrument_info \<Rightarrow> string option \<Rightarrow> ('s, 'm) broker \<Rightarrow>
     (('s, 'm) broker \<times> (query_error + exchange_order list)) option" where
  "get_open_orders E X n api market symbol B =
     (case ensure_broker_started E market B of
        None \<Rightarrow> None
      | Some (B1, Inl e) \<Rightarrow> Some (B1, Inl e)
      | Some (B1, Inr u) \<Rightarrow>
          if (case symbol of None \<Rightarrow> False | Some sy \<Rightarrow> \<not> own_symbol X market sy) then Some (B1, Inr [])
          else
            (case open_pages n api PNone [] of
               None \<Rightarrow> None
             | Some (Inl e) \<Rightarrow> Some (B1, Inl e)
             | Some (Inr out) \<Rightarrow>
                 if is_inverse market
                 then (case orders_to_base X out (bk_inverse B1) of
                         Inl e \<Rightarrow> Some (B1, Inl (Escaped (Lang e)))
                       | Inr (I, out1) \<Rightarrow> Some (B1\<lparr>bk_inverse := I\<rparr>, Inr out1))
                 else Some (B1, Inr out)))"

section \<open>The position\<close>

record exchange_position =
  ep_symbol :: string
  ep_side :: string
  ep_size :: rat
  ep_entry_price :: rat
  ep_unrealized_pnl :: rat
  ep_liquidation_price :: "rat option"
  ep_leverage :: rat
  ep_margin_mode :: string

record position_leg =
  pl_leg_id :: string
  pl_symbol :: string
  pl_side :: string
  pl_qty :: rat
  pl_entry_price :: rat
  pl_open_time :: rat
  pl_unrealized_pnl :: rat

definition side_error :: "string \<Rightarrow> raised" where
  "side_error side =
     Bybit (BybitPositionDataError (''Bybit position field 'side' is invalid for open exposure: '' @ quote_str side))"

definition pnl_error :: raised where
  "pnl_error = Bybit (BybitPositionDataError ''Bybit inverse unrealized PnL conversion is non-finite'')"

text \<open>\<open>mark or self._last_price or entry_price\<close>\<close>

definition mark_price :: "rat \<Rightarrow> num option \<Rightarrow> rat \<Rightarrow> num" where
  "mark_price mark last_price entry =
     (if mark \<noteq> 0 then Fin mark
      else case last_price of None \<Rightarrow> Fin entry | Some p \<Rightarrow> if p = Fin 0 then Fin entry else p)"

text \<open>The size in base units and the profit in the quote coin, both unchanged on a linear contract.\<close>

definition inverse_view ::
    "read_ctx \<Rightarrow> instrument_info \<Rightarrow> inverse_state \<Rightarrow> jdict \<Rightarrow> string \<Rightarrow> rat \<Rightarrow> rat \<Rightarrow> rat \<Rightarrow> raised + (rat \<times> rat)" where
  "inverse_view X market I row side sz entry unrealized =
     (if is_inverse market \<and> entry > 0
      then
        res_bind (lift_err (inverse_core_size side sz entry I)) (\<lambda>base.
        res_bind (wire_float ''markPrice'' (jget row ''markPrice'')) (\<lambda>mark.
          case mark_price mark (rx_last_price X) entry of
            Fin m \<Rightarrow> Inr (base, unrealized * m)
          | _ \<Rightarrow> Inl pnl_error))
      else Inr (sz, unrealized))"

definition margin_mode :: "int \<Rightarrow> string" where
  "margin_mode i = (if i = 1 then ''isolated'' else ''cross'')"

definition position_of_row ::
    "read_ctx \<Rightarrow> instrument_info \<Rightarrow> inverse_state \<Rightarrow> jdict \<Rightarrow> rat \<Rightarrow> raised + exchange_position" where
  "position_of_row X market I row sz =
     (let side = lower (jstr row ''side'') in
      if side \<noteq> ''buy'' \<and> side \<noteq> ''sell'' then Inl (side_error side)
      else
        res_bind (wire_float ''avgPrice'' (jget row ''avgPrice'')) (\<lambda>entry.
        res_bind (wire_float ''unrealisedPnl'' (jget row ''unrealisedPnl'')) (\<lambda>pnl.
        res_bind (inverse_view X market I row side sz entry pnl) (\<lambda>(sz1, pnl1).
        res_bind (wire_float ''liqPrice'' (jget row ''liqPrice'')) (\<lambda>liq.
        res_bind (wire_float ''leverage'' (jget row ''leverage'')) (\<lambda>lev.
        res_bind (wire_int ''tradeMode'' (jget row ''tradeMode'')) (\<lambda>mode.
          Inr \<lparr>ep_symbol = chart_symbol X market, ep_side = (if side = ''buy'' then ''long'' else ''short''),
               ep_size = sz1, ep_entry_price = entry, ep_unrealized_pnl = pnl1,
               ep_liquidation_price = (if liq = 0 then None else Some liq), ep_leverage = lev,
               ep_margin_mode = margin_mode mode\<rparr>)))))))"

fun position_of_rows ::
    "read_ctx \<Rightarrow> instrument_info \<Rightarrow> inverse_state \<Rightarrow> jdict list \<Rightarrow> raised + exchange_position option" where
  "position_of_rows X market I [] = Inr None"
| "position_of_rows X market I (row # rows) =
     res_bind (position_row_size row) (\<lambda>sz.
       if sz \<le> 0 then position_of_rows X market I rows
       else res_bind (position_of_row X market I row sz) (\<lambda>p. Inr (Some p)))"

text \<open>
  The rows a position is reported from: read, ingested into the size cache and passed through the
  startup baseline.
\<close>

definition adopted_rows ::
    "framework \<Rightarrow> 's store_ops \<Rightarrow> read_ctx \<Rightarrow> 's adoption_env \<Rightarrow> instrument_info \<Rightarrow> raised + jdict \<Rightarrow> 's adoption \<Rightarrow>
     ('s adoption \<times> (raised + jdict list)) option" where
  "adopted_rows F ops X V market reply A =
     (case res_bind (fetch_position_rows reply) (\<lambda>rows.
             res_bind (ingest_position_sizes (rx_clock X) rows (ad_positions A)) (\<lambda>S. Inr (rows, S))) of
        Inl e \<Rightarrow> Some (A, Inl e)
      | Inr (rows, S) \<Rightarrow> apply_adoption_baseline F ops (rx_store X) V market rows (A\<lparr>ad_positions := S\<rparr>))"

definition fetch_deriv_position ::
    "framework \<Rightarrow> 's store_ops \<Rightarrow> read_ctx \<Rightarrow> 's adoption_env \<Rightarrow> instrument_info \<Rightarrow> raised + jdict \<Rightarrow>
     ('s, 'm) broker \<Rightarrow> (('s, 'm) broker \<times> (raised + exchange_position option)) option" where
  "fetch_deriv_position F ops X V market reply B =
     (case adopted_rows F ops X V market reply (bk_adoption B) of
        None \<Rightarrow> None
      | Some (A, r) \<Rightarrow>
          Some (B\<lparr>bk_adoption := A\<rparr>, res_bind r (position_of_rows X market (bk_inverse B))))"

fun legs_of_rows :: "string \<Rightarrow> jdict list \<Rightarrow> raised + position_leg list" where
  "legs_of_rows symbol [] = Inr []"
| "legs_of_rows symbol (row # rows) =
     res_bind (position_row_size row) (\<lambda>sz.
       let side = lower (jstr row ''side'') in
       if sz \<le> 0 \<or> (side \<noteq> ''buy'' \<and> side \<noteq> ''sell'') then legs_of_rows symbol rows
       else
         res_bind (position_row_index row) (\<lambda>idx.
         res_bind (wire_float ''avgPrice'' (jget row ''avgPrice'')) (\<lambda>entry.
         res_bind (wire_float ''createdTime'' (jget row ''createdTime'')) (\<lambda>created.
         res_bind (wire_float ''unrealisedPnl'' (jget row ''unrealisedPnl'')) (\<lambda>pnl.
         res_bind (legs_of_rows symbol rows) (\<lambda>legs.
           Inr (\<lparr>pl_leg_id = int_str idx, pl_symbol = symbol, pl_side = side, pl_qty = sz, pl_entry_price = entry,
                 pl_open_time = created / 1000, pl_unrealized_pnl = pnl\<rparr> # legs)))))))"

definition fetch_raw_position_legs ::
    "framework \<Rightarrow> 's store_ops \<Rightarrow> read_ctx \<Rightarrow> 's adoption_env \<Rightarrow> instrument_info \<Rightarrow> raised + jdict \<Rightarrow> string \<Rightarrow>
     ('s, 'm) broker \<Rightarrow> (('s, 'm) broker \<times> (raised + position_leg list)) option" where
  "fetch_raw_position_legs F ops X V market reply symbol B =
     (if \<not> own_symbol X market symbol then Some (B, Inr [])
      else
        (case adopted_rows F ops X V market reply (bk_adoption B) of
           None \<Rightarrow> None
         | Some (A, r) \<Rightarrow>
             Some (B\<lparr>bk_adoption := A\<rparr>,
               res_bind r (\<lambda>rows.
               res_bind (scope_hedge_rows_to_run F (if rx_store X then Some (so_live ops (ad_store A)) else None) rows)
                 (\<lambda>scoped. res_bind (legs_of_rows symbol scoped) (\<lambda>legs. Inr (sort_key pl_open_time legs)))))))"

definition fetch_raw_positions ::
    "framework \<Rightarrow> 's store_ops \<Rightarrow> read_ctx \<Rightarrow> 's adoption_env \<Rightarrow> instrument_info \<Rightarrow> raised + jdict \<Rightarrow> string \<Rightarrow>
     ('s, 'm) broker \<Rightarrow> (('s, 'm) broker \<times> (query_error + position_leg list)) option" where
  "fetch_raw_positions F ops X V market reply symbol B =
     map_option (\<lambda>(B1, r). (B1, classified r)) (fetch_raw_position_legs F ops X V market reply symbol B)"

text \<open>What the code calls on the spot manager, and the emulator's netting view.\<close>

record 'm position_env =
  pe_vwap :: "'m \<Rightarrow> num option"
  pe_synthesize :: "'m \<Rightarrow> num \<Rightarrow> exchange_position option"
  pe_host :: spot_host
  pe_aggregate :: "string \<Rightarrow> position_leg list \<Rightarrow> exchange_position option"

text \<open>The ledger's position at the mark; dust below the port's threshold is flat.\<close>

definition spot_position ::
    "'m position_env \<Rightarrow> read_ctx \<Rightarrow> instrument_info \<Rightarrow> 'm option \<Rightarrow> py_error + exchange_position option" where
  "spot_position P X market spot =
     (case spot of
        None \<Rightarrow> Inr None
      | Some manager \<Rightarrow>
          (let mark = (case rx_last_price X of
                 Some p \<Rightarrow> p
               | None \<Rightarrow> (case pe_vwap P manager of Some v \<Rightarrow> v | None \<Rightarrow> Fin 0))
           in case pe_synthesize P manager mark of
                None \<Rightarrow> Inr None
              | Some p \<Rightarrow>
                  res_bind (position_dust_threshold (pe_host P) market) (\<lambda>threshold.
                  res_bind (num_greater threshold (Fin (ep_size p))) (\<lambda>dust.
                    Inr (if dust then None else Some p)))))"

definition get_position ::
    "framework \<Rightarrow> ('s, 'm) start_env \<Rightarrow> 'm position_env \<Rightarrow> read_ctx \<Rightarrow> 's adoption_env \<Rightarrow> instrument_info \<Rightarrow>
     raised + jdict \<Rightarrow> string \<Rightarrow> ('s, 'm) broker \<Rightarrow>
     (('s, 'm) broker \<times> (query_error + exchange_position option)) option" where
  "get_position F E P X V market reply symbol B =
     (case ensure_broker_started E market B of
        None \<Rightarrow> None
      | Some (B1, Inl e) \<Rightarrow> Some (B1, Inl e)
      | Some (B1, Inr u) \<Rightarrow>
          if in_category market \<noteq> CATEGORY_SPOT
          then
            (if hedge (ad_positions (bk_adoption B1))
             then map_option (\<lambda>(B2, r). (B2, res_bind r (\<lambda>legs. Inr (pe_aggregate P symbol legs))))
                    (fetch_raw_positions F (ds_rows (se_dispatch E)) X V market reply symbol B1)
             else map_option (\<lambda>(B2, r). (B2, classified r))
                    (fetch_deriv_position F (ds_rows (se_dispatch E)) X V market reply B1))
          else Some (B1, escaping (lift_err (spot_position P X market (bk_spot B1)))))"

section \<open>Balances and volume\<close>

fun balance_coins :: "py list \<Rightarrow> (string \<times> num) list \<Rightarrow> py_error + (string \<times> num) list" where
  "balance_coins [] acc = Inr acc"
| "balance_coins (v # vs) acc =
     res_bind (as_dict v) (\<lambda>coin.
       let name = jstr coin ''coin'' in
       if name = [] then balance_coins vs acc
       else
         (case row_float coin ''walletBalance'' of
            Inr x \<Rightarrow> balance_coins vs (AList.update name x acc)
          | Inl e \<Rightarrow> if value_or_type_error e then balance_coins vs acc else Inl e))"

fun balance_accounts :: "py list \<Rightarrow> (string \<times> num) list \<Rightarrow> py_error + (string \<times> num) list" where
  "balance_accounts [] acc = Inr acc"
| "balance_accounts (v # vs) acc =
     res_bind (as_dict v) (\<lambda>account.
     res_bind (as_list (py_or (jget account ''coin'') (PList []))) (\<lambda>coins.
     res_bind (balance_coins coins acc) (balance_accounts vs)))"

definition get_balance ::
    "('s, 'm) start_env \<Rightarrow> instrument_info \<Rightarrow> raised + jdict \<Rightarrow> ('s, 'm) broker \<Rightarrow>
     (('s, 'm) broker \<times> (query_error + (string \<times> num) list)) option" where
  "get_balance E market reply B =
     (case ensure_broker_started E market B of
        None \<Rightarrow> None
      | Some (B1, Inl e) \<Rightarrow> Some (B1, Inl e)
      | Some (B1, Inr u) \<Rightarrow>
          Some (B1, res_bind (classified reply) (\<lambda>result.
            escaping (lift_err (res_bind (as_list (py_or (jget result ''list'') (PList [])))
              (\<lambda>accounts. balance_accounts accounts []))))))"

fun wallet_coins :: "string \<Rightarrow> py list \<Rightarrow> py_error + jdict option" where
  "wallet_coins coin [] = Inr None"
| "wallet_coins coin (v # vs) =
     res_bind (as_dict v) (\<lambda>entry.
       if jstr entry ''coin'' = coin then Inr (Some entry) else wallet_coins coin vs)"

fun wallet_accounts :: "string \<Rightarrow> py list \<Rightarrow> py_error + jdict" where
  "wallet_accounts coin [] = Inr []"
| "wallet_accounts coin (v # vs) =
     res_bind (as_dict v) (\<lambda>account.
     res_bind (as_list (py_or (jget account ''coin'') (PList []))) (\<lambda>coins.
     res_bind (wallet_coins coin coins) (\<lambda>found.
       case found of Some entry \<Rightarrow> Inr entry | None \<Rightarrow> wallet_accounts coin vs)))"

definition fetch_wallet_coin :: "raised + jdict \<Rightarrow> string \<Rightarrow> raised + jdict" where
  "fetch_wallet_coin reply coin =
     res_bind reply (\<lambda>result.
       lift_err (res_bind (as_list (py_or (jget result ''list'') (PList []))) (wallet_accounts coin)))"

text \<open>The quantizer: Pine units to whole steps, towards zero.\<close>

definition volume_of :: "rat \<Rightarrow> rat \<Rightarrow> int" where
  "volume_of step units = trunc (units / step)"

definition get_volume_quantizer :: "instrument_info \<Rightarrow> dispatch_error + (rat \<Rightarrow> int)" where
  "get_volume_quantizer market =
     res_bind (lift_lang (parse_dec (in_qty_step_str market))) (\<lambda>step.
     res_bind (lift_lang (num_greater step (Fin 0))) (\<lambda>usable.
       if \<not> usable
       then Inl (Rejected (ExchangeOrderRejectedError (''Bybit instrument '' @ quote_str (in_symbol market) @
              '' reports no usable qtyStep ('' @ quote_str (in_qty_step_str market) @ '')'')))
       else Inr (\<lambda>units. case step of Fin s \<Rightarrow> volume_of s units | _ \<Rightarrow> 0)))"

section \<open>Properties\<close>

text \<open>What the translation leaves: nothing of the plugin's own exceptions.\<close>

definition translated :: "query_error + 'a \<Rightarrow> bool" where
  "translated r \<longleftrightarrow> (\<forall>e. r \<noteq> Inl (Escaped (Bybit e)))"

lemma translated_simps [simp]:
  "translated (classified r)" "translated (Inr x)" "translated (Inl (Broker b))" "translated (Inl (Escaped (Lang p)))"
  "translated (escaping (lift_err q))"
  by (auto simp: translated_def classified_def escaping_def lift_err_def split: sum.splits raised.splits)

lemma translated_bind: "translated r \<Longrightarrow> (\<And>x. r = Inr x \<Longrightarrow> translated (f x)) \<Longrightarrow> translated (res_bind r f)"
  by (cases r) (auto simp: translated_def)

lemma open_pages_translated: "open_pages n api cursor out = Some r \<Longrightarrow> translated r"
proof (induction n arbitrary: cursor out)
  case (Suc n)
  show ?case
  proof (cases "classified (api cursor)")
    case (Inl e)
    then have "r = Inl e" using Suc.prems by simp
    moreover have "translated (classified (api cursor))" by simp
    ultimately show ?thesis using Inl by (simp add: translated_def)
  next
    case (Inr result)
    note rd = this
    show ?thesis
    proof (cases "res_bind (as_list (py_or (jget result ''list'') (PList [])))
        (res_map (\<lambda>v. res_bind (as_dict v) parse_exchange_order))")
      case (Inl e)
      then show ?thesis using Suc.prems rd by auto
    next
      case (Inr page)
      then show ?thesis using Suc rd by (cases "truthy (py_or (jget result ''nextPageCursor'') PNone)") auto
    qed
  qed
qed simp

lemma started: "bk_started B \<Longrightarrow> ensure_broker_started E market B = Some (B, Inr ())"
  by (simp add: ensure_broker_started_def)

lemma orders_translated:
  assumes "bk_started B" and "get_open_orders E X n api market sy B = Some (B', r)"
  shows "translated r"
proof (cases "\<exists>e. open_pages n api PNone [] = Some (Inl e)")
  case True
  then obtain e where e: "open_pages n api PNone [] = Some (Inl e)" by blast
  then have "translated (Inl e :: query_error + exchange_order list)"
    using open_pages_translated by blast
  then show ?thesis
    using assms(2) e by (simp add: get_open_orders_def started [OF assms(1)] split: if_splits; fastforce)
next
  case False
  then show ?thesis
    using assms(2)
    by (auto simp: get_open_orders_def started [OF assms(1)] split: if_splits option.splits sum.splits)
qed

lemma raw_positions_translated: "fetch_raw_positions F ops X V market reply symbol B = Some (B', r) \<Longrightarrow> translated r"
  by (auto simp: fetch_raw_positions_def)

lemma position_translated:
  assumes "bk_started B" and "get_position F E P X V market reply symbol B = Some (B', r)"
  shows "translated r"
proof -
  consider "r = escaping (lift_err (spot_position P X market (bk_spot B)))" |
    B2 q where "fetch_raw_positions F (ds_rows (se_dispatch E)) X V market reply symbol B = Some (B2, q)"
      "r = res_bind q (\<lambda>legs. Inr (pe_aggregate P symbol legs))" |
    q where "r = classified q"
    using assms(2) unfolding get_position_def started [OF assms(1)]
    by (simp split: if_splits) (metis prod.inject prod.case_eq_if)+
  then show ?thesis
    by cases (auto dest: raw_positions_translated intro!: translated_bind)
qed

lemma balance_translated:
  "bk_started B \<Longrightarrow> get_balance E market reply B = Some (B', r) \<Longrightarrow> translated r"
  by (auto simp: get_balance_def started intro!: translated_bind)

text \<open>
  C29. Once the broker runs, the engine-facing reads speak the broker's language: whatever the venue
  answers, none of them raises an exception of the plugin's own; a failed read is the broker error
  that its classification gives, so the engine parks and retries instead of halting.
\<close>

theorem reads_speak_broker_errors:
  assumes "bk_started B"
  shows "(\<forall>B' r. get_open_orders E X n api market sy B = Some (B', r) \<longrightarrow> translated r) \<and>
    (\<forall>B' r. get_position F E P X V market reply symbol B = Some (B', r) \<longrightarrow> translated r) \<and>
    (\<forall>B' r. fetch_raw_positions F ops X V market reply symbol B = Some (B', r) \<longrightarrow> translated r) \<and>
    (\<forall>B' r. get_balance E market reply B = Some (B', r) \<longrightarrow> translated r)"
  by (intro conjI allI impI)
    (erule orders_translated [OF assms] position_translated [OF assms] raw_positions_translated
      balance_translated [OF assms])+

section \<open>What a started broker is\<close>

text \<open>The category's part of a successful start on a derivative.\<close>

definition derivative_ready ::
    "('s, 'm) start_env \<Rightarrow> instrument_info \<Rightarrow> ('s, 'm) broker \<Rightarrow> ('s, 'm) broker \<Rightarrow> bool" where
  "derivative_ready E market B B' \<longleftrightarrow>
     (\<exists>mode. detect_position_mode (se_mode E) = Inr mode \<and>
        ps_mode (ad_positions (bk_adoption B')) = Some mode \<and>
        bk_position_port B' = (mode = POSITION_MODE_HEDGE \<or> bk_position_port B) \<and>
        (is_inverse market \<longrightarrow> mode \<noteq> POSITION_MODE_HEDGE \<and>
           (\<exists>rows c b. fetch_position_rows (se_seed E) = Inr rows \<and> seed_rows rows (0, 0) = Inr (c, b) \<and>
              iv_contracts (bk_inverse B') = c \<and> iv_base (bk_inverse B') = b)))"

lemma start_derivative_ready:
  assumes "start_derivative E market B = (B1, Inr u)"
  shows "derivative_ready E market B B1 \<and> ad_store (bk_adoption B1) = ad_store (bk_adoption B) \<and>
    ad_seen (bk_adoption B1) = ad_seen (bk_adoption B) \<and> bk_started B1 = bk_started B"
proof (cases "detect_position_mode (se_mode E)")
  case (Inl e)
  then show ?thesis using assms by (simp add: start_derivative_def)
next
  case (Inr mode)
  show ?thesis
  proof (cases "is_inverse market")
    case True
    then obtain rows I where r: "mode \<noteq> POSITION_MODE_HEDGE" "fetch_position_rows (se_seed E) = Inr rows"
        "inverse_seed_net rows (bk_inverse B) = Inr I" "B1 = (set_mode mode B)\<lparr>bk_inverse := I\<rparr>"
      using assms Inr
      by (auto simp: start_derivative_def Let_def res_bind_Inr_iff set_mode_def split: if_splits sum.splits)
    then obtain c b where "seed_rows rows (0, 0) = Inr (c, b)" "iv_contracts I = c" "iv_base I = b"
      by (auto simp: inverse_seed_net_def res_bind_Inr_iff)
    then show ?thesis using r Inr by (simp add: derivative_ready_def set_mode_def)
  next
    case False
    then show ?thesis
      using assms Inr by (auto simp: start_derivative_def derivative_ready_def set_mode_def Let_def split: if_splits)
  qed
qed

lemma with_recovery_simps [simp]:
  "ad_positions (bk_adoption (with_recovery R B)) = ad_positions (bk_adoption B)"
  "ad_store (bk_adoption (with_recovery R B)) = rc_store R"
  "ad_baselined (bk_adoption (with_recovery R B)) = ad_baselined (bk_adoption B)"
  "bk_position_port (with_recovery R B) = bk_position_port B"
  "iv_contracts (bk_inverse (with_recovery R B)) = iv_contracts (bk_inverse B)"
  "iv_base (bk_inverse (with_recovery R B)) = iv_base (bk_inverse B)"
  "bk_started (with_recovery R B) = bk_started B"
  by (simp_all add: with_recovery_def)

lemma start_category_unstarted: "start_category E market B = (B1, r) \<Longrightarrow> bk_started B1 = bk_started B"
  by (auto simp: start_category_def start_derivative_def start_spot_def set_mode_def Let_def
      split: sum.splits if_splits prod.splits)

lemma derivative_ready_step:
  "derivative_ready E market B B1 \<Longrightarrow> derivative_ready E market B ((with_recovery R B1)\<lparr>bk_started := True\<rparr>)"
  by (simp add: derivative_ready_def)

text \<open>
  C28. The startup is all or nothing and happens once: the broker counts as started exactly when the
  sequence succeeded. A started broker is the outcome of two completed steps, in this order: the category's
  own start, and the recovery of in-flight submissions run on that broker's own journal and venue reads, to
  a normal end; what the recovery left is what the broker starts with. On a derivative it then knows the
  account's mode, offers the hedge surface on a hedge account, never runs inverse on one and has its
  inverse mirror seeded from the venue's rows. Every later call does nothing.
\<close>

theorem started_broker_is_ready:
  assumes "\<not> bk_started B" and "ensure_broker_started E market B = Some (B', r)"
  shows "(bk_started B' \<longleftrightarrow> r = Inr ()) \<and>
    (r = Inr () \<longrightarrow>
       (\<exists>B1 R. start_category E market B = (B1, Inr ()) \<and>
          recover_in_flight_submissions (se_dispatch E) (se_has_store E) (recovery_env_of E B1) market (recovery_of B1) =
            Some (R, Inr ()) \<and>
          B' = (with_recovery R B1)\<lparr>bk_started := True\<rparr>)) \<and>
    (r = Inr () \<longrightarrow> in_category market \<noteq> CATEGORY_SPOT \<longrightarrow> derivative_ready E market B B') \<and>
    (r = Inr () \<longrightarrow> (\<forall>E'. ensure_broker_started E' market B' = Some (B', Inr ())))"
proof -
  obtain B1 s where cat: "start_category E market B = (B1, s)" by (cases "start_category E market B")
  note un = start_category_unstarted [OF cat]
  show ?thesis
  proof (cases s)
    case (Inl e)
    then have "B' = B1" "r = Inl e" using assms cat by (simp_all add: ensure_broker_started_def)
    then show ?thesis using un assms(1) by simp
  next
    case (Inr u)
    let ?run = "recover_in_flight_submissions (se_dispatch E) (se_has_store E) (recovery_env_of E B1) market
      (recovery_of B1)"
    obtain R q where run: "?run = Some (R, q)"
      using assms cat Inr by (auto simp: ensure_broker_started_def split: option.splits)
    show ?thesis
    proof (cases q)
      case (Inl e)
      then have "B' = with_recovery R B1" "r = Inl (Escaped e)"
        using assms cat Inr run by (simp_all add: ensure_broker_started_def)
      then show ?thesis using un assms(1) by simp
    next
      case (Inr v)
      then have B': "B' = (with_recovery R B1)\<lparr>bk_started := True\<rparr>" "r = Inr ()"
        using assms cat \<open>s = Inr u\<close> run by (simp_all add: ensure_broker_started_def)
      have steps: "start_category E market B = (B1, Inr ())" "?run = Some (R, Inr ())"
        using cat run \<open>s = Inr u\<close> Inr by simp_all
      have ready: "derivative_ready E market B B'" if c: "in_category market \<noteq> CATEGORY_SPOT"
      proof -
        have "start_derivative E market B = (B1, Inr u)" using cat c \<open>s = Inr u\<close> by (simp add: start_category_def)
        from start_derivative_ready [OF this] show ?thesis using derivative_ready_step unfolding B'(1) by blast
      qed
      have "\<exists>B1 R. start_category E market B = (B1, Inr ()) \<and>
          recover_in_flight_submissions (se_dispatch E) (se_has_store E) (recovery_env_of E B1) market (recovery_of B1) =
            Some (R, Inr ()) \<and> B' = (with_recovery R B1)\<lparr>bk_started := True\<rparr>"
        using steps B'(1) by blast
      moreover have "bk_started B'" "\<forall>E'. ensure_broker_started E' market B' = Some (B', Inr ())"
        by (simp_all add: B'(1) ensure_broker_started_def)
      ultimately show ?thesis using ready B'(2) by simp
    qed
  qed
qed

lemma position_of_row_fields:
  assumes "position_of_row X market I row sz = Inr p"
  shows "\<exists>entry pnl q. wire_float ''avgPrice'' (jget row ''avgPrice'') = Inr entry \<and>
    inverse_view X market I row (lower (jstr row ''side'')) sz entry pnl = Inr q \<and> ep_size p = fst q \<and>
    ep_entry_price p = entry \<and> ep_side p = (if lower (jstr row ''side'') = ''buy'' then ''long'' else ''short'')"
proof -
  let ?side = "lower (jstr row ''side'')"
  have "\<not> (?side \<noteq> ''buy'' \<and> ?side \<noteq> ''sell'')"
    using assms by (rule contrapos_pn) (simp add: position_of_row_def Let_def)
  then obtain entry pnl q liq lev mode where "wire_float ''avgPrice'' (jget row ''avgPrice'') = Inr entry"
      "inverse_view X market I row ?side sz entry pnl = Inr q"
      "Inr \<lparr>ep_symbol = chart_symbol X market, ep_side = (if ?side = ''buy'' then ''long'' else ''short''),
         ep_size = fst q, ep_entry_price = entry, ep_unrealized_pnl = snd q,
         ep_liquidation_price = liq, ep_leverage = lev, ep_margin_mode = mode\<rparr> =
         (Inr p :: raised + exchange_position)"
    using assms unfolding position_of_row_def Let_def if_not_P [of "?side \<noteq> ''buy'' \<and> ?side \<noteq> ''sell''"]
    by (simp only: if_False res_bind_Inr_iff case_prod_unfold) (elim exE conjE, rule that, assumption+)
  then show ?thesis by (intro exI [of _ entry] exI [of _ pnl] exI [of _ q]) (simp add: eq_commute [of _ p])
qed

lemma inverse_view_size:
  assumes "is_inverse market" and "0 < entry" and "inverse_view X market I row side sz entry pnl = Inr q"
  shows "inverse_core_size side sz entry I = Inr (fst q)"
proof -
  obtain base mark where b: "inverse_core_size side sz entry I = Inr base"
      "(case mark_price mark (rx_last_price X) entry of Fin m \<Rightarrow> Inr (base, pnl * m) | _ \<Rightarrow> Inl pnl_error) = Inr q"
    using assms by (auto simp: inverse_view_def res_bind_Inr_iff)
  then show ?thesis by (cases "mark_price mark (rx_last_price X) entry") auto
qed

text \<open>
  The inverse position the core adopts is the one the mirror closes: with the mirror seeded from
  the venue's rows, the position read from the same rows tells the core the mirror's base quantity,
  on the side of its sign, so the adopted size and the later closes convert at one anchor.
\<close>

theorem adopted_size_is_mirror:
  assumes "is_inverse market" and "inverse_seed_net (pre @ row # post) I0 = Inr I"
    and "\<forall>r \<in> set (pre @ post). \<exists>sz. position_row_size r = Inr sz \<and> sz \<le> 0"
    and "position_of_rows X market I (pre @ row # post) = Inr (Some p)" and "0 < ep_entry_price p"
  shows "ep_size p = \<bar>iv_base I\<bar> \<and> iv_contracts I \<noteq> 0 \<and> (ep_side p = ''long'' \<longleftrightarrow> 0 < iv_contracts I)"
proof -
  have skip: "seed_rows (rows @ rest) acc = seed_rows rest acc \<and>
      position_of_rows X market I (rows @ rest) = position_of_rows X market I rest"
    if "\<forall>r \<in> set rows. \<exists>sz. position_row_size r = Inr sz \<and> sz \<le> 0" for rows rest acc
    using that by (induction rows arbitrary: acc) auto
  have pre: "\<forall>r \<in> set pre. \<exists>sz. position_row_size r = Inr sz \<and> sz \<le> 0"
    and post: "\<forall>r \<in> set post. \<exists>sz. position_row_size r = Inr sz \<and> sz \<le> 0" using assms(3) by auto
  have pos: "position_of_rows X market I (row # post) = Inr (Some p)"
    using assms(4) skip [OF pre] by simp
  have none: "position_of_rows X market I post = Inr None" using skip [OF post, of "[]"] by simp
  obtain sz where sz: "position_row_size row = Inr sz" "0 < sz" "position_of_row X market I row sz = Inr p"
    using pos none by (auto simp: res_bind_Inr_iff split: if_splits)
  obtain c b where seed: "seed_rows (row # post) (0, 0) = Inr (c, b)" "iv_contracts I = c" "iv_base I = b"
    using assms(2) skip [OF pre] by (auto simp: inverse_seed_net_def res_bind_Inr_iff)
  have rest: "seed_rows post acc = Inr acc" for acc using skip [OF post, of "[]"] by simp
  let ?side = "lower (jstr row ''side'')"
  have side: "?side = ''buy'' \<or> ?side = ''sell''"
    using sz(3) by (rule contrapos_pp) (simp add: position_of_row_def Let_def)
  obtain entry pnl q where v:
      "wire_float ''avgPrice'' (jget row ''avgPrice'') = Inr entry"
      "inverse_view X market I row ?side sz entry pnl = Inr q" "ep_size p = fst q" "ep_entry_price p = entry"
      "ep_side p = (if ?side = ''buy'' then ''long'' else ''short'')"
    using position_of_row_fields [OF sz(3)] by blast
  have entry: "0 < entry" using assms(5) v(4) by simp
  obtain b0 where b0: "contracts_to_base sz entry = Inr b0"
      "c = (if ?side = ''buy'' then 1 else - 1) * sz" "b = (if ?side = ''buy'' then 1 else - 1) * b0"
  proof -
    let ?sign = "if ?side = ''buy'' then 1 else - 1 :: rat"
    have "res_bind (lift_err (contracts_to_base sz entry)) (\<lambda>b0. seed_rows post (?sign * sz, ?sign * b0)) = Inr (c, b)"
      using side
      by (elim disjE) (use seed(1) sz(1,2) v(1) entry in \<open>simp add: Let_def\<close>)+
    then obtain b0 where "contracts_to_base sz entry = Inr b0" "seed_rows post (?sign * sz, ?sign * b0) = Inr (c, b)"
      unfolding res_bind_Inr_iff lift_err_Inr by blast
    then show thesis using rest by (intro that [of b0]) simp_all
  qed
  have "inverse_core_size ?side sz entry I = Inr \<bar>b\<bar>"
    using b0(2) seed(2,3) side by (auto simp: inverse_core_size_def Let_def)
  then have "ep_size p = \<bar>b\<bar>"
    using inverse_view_size [OF assms(1) entry v(2)] v(3) by simp
  then show ?thesis using b0(2) seed(2,3) sz(2) v(5) by (auto split: if_splits)
qed

text \<open>The closing calls of the baseline do not undo it.\<close>

definition keeps_latch :: "'s adoption_env \<Rightarrow> bool" where
  "keeps_latch V \<longleftrightarrow> (\<forall>rows fl A A2. av_finish V rows fl A = Inr A2 \<longrightarrow> ad_baselined A2 = ad_baselined A)"

lemma baseline_latches:
  assumes "keeps_latch V" and "apply_adoption_baseline F ops True V market rows A = Some (A', Inr out)"
  shows "ad_baselined A'"
proof (cases "ad_baselined A")
  case True
  then show ?thesis using assms(2) by (simp add: apply_adoption_baseline_def)
next
  case False
  obtain p A1 fl where "(A', Inr out) = after_pass F ops V market fl p A1"
    using baseline_attempts [OF assms(2) False] by blast
  then obtain A2 where "commit_pass F ops market fl p A1 = Inr A2" "av_finish V (ap_verify p) fl A2 = Inr A'"
    by (auto simp: after_pass_def split: sum.splits)
  moreover from this have "ad_baselined A2" by (auto simp: commit_pass_def Let_def res_bind_Inr_iff)
  ultimately show ?thesis using assms(1) by (auto simp: keeps_latch_def)
qed

lemma adopted_rows_latched:
  assumes "keeps_latch V" and "rx_store X" and "adopted_rows F ops X V market reply A = Some (A', Inr out)"
  shows "ad_baselined A'"
  using assms(3) baseline_latches [OF assms(1)] assms(2)
  by (auto simp: adopted_rows_def split: sum.splits)

lemma deriv_position_latched:
  assumes "keeps_latch V" and "rx_store X" and "fetch_deriv_position F ops X V market reply B = Some (B', Inr p)"
  shows "ad_baselined (bk_adoption B')"
proof -
  obtain A r where a: "adopted_rows F ops X V market reply (bk_adoption B) = Some (A, r)"
      "B' = B\<lparr>bk_adoption := A\<rparr>" "res_bind r (position_of_rows X market (bk_inverse B)) = Inr p"
    using assms(3) by (auto simp: fetch_deriv_position_def split: option.splits)
  then obtain out where "r = Inr out" by (auto simp: res_bind_Inr_iff)
  then show ?thesis using adopted_rows_latched [OF assms(1,2)] a(1,2) by simp
qed

lemma raw_positions_latched:
  assumes "keeps_latch V" and "rx_store X" and "own_symbol X market symbol"
    and "fetch_raw_positions F ops X V market reply symbol B = Some (B', Inr legs)"
  shows "ad_baselined (bk_adoption B')"
proof -
  obtain q where q: "fetch_raw_position_legs F ops X V market reply symbol B = Some (B', q)" "classified q = Inr legs"
    using assms(4) by (auto simp: fetch_raw_positions_def)
  have qr: "q = Inr legs" using q(2) by simp
  obtain A r where a: "adopted_rows F ops X V market reply (bk_adoption B) = Some (A, r)" "B' = B\<lparr>bk_adoption := A\<rparr>"
      "\<exists>out. r = Inr out"
    using q(1) assms(3) qr
    by (auto simp: fetch_raw_position_legs_def res_bind_Inr_iff split: option.splits)
  then show ?thesis using adopted_rows_latched [OF assms(1,2)] by auto
qed

text \<open>
  C30. With a store, the engine hears of the derivative position, a flat one included, only after the
  startup baseline: whenever the read of the chart symbol returns, the run is adopted, so no fill from
  before the start can be applied on top of the adopted size.
\<close>

theorem position_only_after_adoption:
  assumes "keeps_latch V" and "rx_store X" and "in_category market \<noteq> CATEGORY_SPOT" and "own_symbol X market symbol"
    and "get_position F E P X V market reply symbol B = Some (B', Inr p)"
  shows "bk_started B' \<and> ad_baselined (bk_adoption B')"
proof -
  let ?ops = "ds_rows (se_dispatch E)"
  obtain B1 where st: "ensure_broker_started E market B = Some (B1, Inr ())"
    using assms(5) by (auto simp: get_position_def split: option.splits sum.splits)
  have started: "bk_started B1"
    using st by (auto simp: ensure_broker_started_def split: if_splits option.splits sum.splits prod.splits)
  have keep: "bk_started B2 = bk_started B1"
    if "fetch_raw_positions F ?ops X V market reply symbol B1 = Some (B2, q) \<or>
        fetch_deriv_position F ?ops X V market reply B1 = Some (B2, q')" for B2 q q'
    using that
    by (auto simp: fetch_raw_positions_def fetch_raw_position_legs_def fetch_deriv_position_def
        split: if_splits option.splits)
  consider legs where "fetch_raw_positions F ?ops X V market reply symbol B1 = Some (B', Inr legs)" |
    p1 where "fetch_deriv_position F ?ops X V market reply B1 = Some (B', Inr p1)"
    using assms(3,5) st
    by (auto simp: get_position_def res_bind_Inr_iff split: if_splits)
  then show ?thesis
  proof cases
    case 1
    then show ?thesis using raw_positions_latched [OF assms(1,2,4)] keep started by blast
  next
    case 2
    then show ?thesis using deriv_position_latched [OF assms(1,2)] keep started by blast
  qed
qed

section \<open>Concrete inputs\<close>

text \<open>An inverse account in one-way mode that holds 300 contracts bought at 50, and an empty journal.\<close>

definition example_inverse_row :: jdict where
  "example_inverse_row =
     [(''positionIdx'', PInt 0), (''side'', PStr ''Buy''), (''size'', PStr ''300''), (''avgPrice'', PStr ''50''),
      (''unrealisedPnl'', PStr ''0''), (''markPrice'', PStr ''60''), (''liqPrice'', PStr ''''), (''leverage'', PStr ''1''),
      (''tradeMode'', PInt 0), (''updatedTime'', PStr ''5''), (''seq'', PStr ''9'')]"

definition example_snapshot :: "raised + jdict" where
  "example_snapshot = Inr [(''list'', PList [PDict example_inverse_row])]"

definition example_start :: "(order_row list \<times> string list, unit) start_env" where
  "example_start =
     \<lparr>se_dispatch = example_journal_store, se_has_store = True, se_identity = Inr [], se_mode = example_snapshot,
      se_seed = example_snapshot, se_spot_start = (\<lambda>i. Inr ()), se_spot_net = (\<lambda>m. Fin 0),
      se_recovery = example_recovery_env\<rparr>"

definition example_broker :: "(order_row list \<times> string list, unit) broker" where
  "example_broker =
     \<lparr>bk_started = False, bk_position_port = False, bk_account = \<lparr>ac_api_key = ''k'', ac_demo = True, ac_id = None\<rparr>,
      bk_inverse = new_inverse,
      bk_adoption = \<lparr>ad_store = ([], []), ad_baselined = False, ad_floor_ms = 0, ad_seen = [],
        ad_positions = new_positions, ad_credits = (\<lambda>idx. [])\<rparr>,
      bk_spot = None\<rparr>"

definition example_reads :: "(order_row list \<times> string list) adoption_env" where
  "example_reads =
     \<lparr>av_fuel = 1, av_time = example_clock, av_lookup = (\<lambda>k c. []), av_executions = (\<lambda>k c. example_executions),
      av_history = (\<lambda>k s e cursor. Inr []), av_positions = (\<lambda>k. example_snapshot), av_clock = (\<lambda>k. 90),
      av_frames = (\<lambda>k. []), av_watermark = None, av_ownerships = (\<lambda>s. []), av_booked_stops = [],
      av_booked_closeouts = [], av_finish = (\<lambda>rows fl A. Inr A)\<rparr>"

definition example_ctx :: read_ctx where
  "example_ctx =
     \<lparr>rx_store = True, rx_symbol = Some ''BTCUSD'', rx_last_price = None, rx_clock = 90, rx_extras = (\<lambda>c. None)\<rparr>"

definition example_views :: "unit position_env" where
  "example_views =
     \<lparr>pe_vwap = (\<lambda>m. None), pe_synthesize = (\<lambda>m p. None), pe_host = example_host, pe_aggregate = (\<lambda>s legs. None)\<rparr>"

text \<open>The only component of a run is its outcome.\<close>

lemma outcome_of:
  assumes "map_option snd m = Some r"
  shows "m = Some (fst (the m), r)"
  using assms by (cases m) (auto simp: prod_eq_iff)

definition example_after :: "(order_row list \<times> string list, unit) broker" where
  "example_after = fst (the (ensure_broker_started example_start example_inverse_market example_broker))"

lemma example_starts: "ensure_broker_started example_start example_inverse_market example_broker = Some (example_after, Inr ())"
  unfolding example_after_def by (rule outcome_of) code_simp

theorem started_broker_is_ready_witness:
  "bk_started example_after \<and> derivative_ready example_start example_inverse_market example_broker example_after"
proof -
  have "\<not> bk_started example_broker" by (simp add: example_broker_def)
  from started_broker_is_ready [OF this example_starts] show ?thesis
    by (simp add: example_inverse_market_def CATEGORY_INVERSE_def CATEGORY_SPOT_def)
qed

theorem reads_speak_broker_errors_witness:
  "get_balance example_start example_inverse_market (Inl (Bybit (BybitConnectionError ''down''))) example_after
      = Some (example_after, Inl (Broker (ExchangeConnectionError ''down''))) \<and>
    translated (Inl (Broker (ExchangeConnectionError ''down'')) :: query_error + (string \<times> num) list)"
proof -
  have st: "bk_started example_after" by code_simp
  have g: "get_balance example_start example_inverse_market (Inl (Bybit (BybitConnectionError ''down''))) example_after
      = Some (example_after, Inl (Broker (ExchangeConnectionError ''down'')))"
    by (simp add: get_balance_def started [OF st] classified_def classify_read_error_def)
  from reads_speak_broker_errors [OF st, THEN conjunct2, THEN conjunct2, THEN conjunct2, rule_format, OF g] g
  show ?thesis by (rule conjI [rotated])
qed

definition example_mirror :: inverse_state where
  "example_mirror = \<lparr>iv_contracts = 300, iv_base = 6, iv_anchor = Map.empty\<rparr>"

lemma example_seeded: "inverse_seed_net ([] @ example_inverse_row # []) new_inverse = Inr example_mirror"
proof -
  have "seed_rows [example_inverse_row] (0, 0) = Inr (300, 6)" by code_simp
  then show ?thesis by (simp only: inverse_seed_net_def append_Nil) (simp add: new_inverse_def example_mirror_def)
qed

theorem adopted_size_is_mirror_witness:
  "\<exists>p. position_of_rows example_ctx example_inverse_market example_mirror ([] @ example_inverse_row # []) = Inr (Some p) \<and>
     ep_size p = 6 \<and> ep_side p = ''long''"
proof -
  have inv: "is_inverse example_inverse_market" by code_simp
  have "map_sum id (map_option ep_entry_price) (position_of_rows example_ctx example_inverse_market example_mirror
      ([] @ example_inverse_row # [])) = Inr (Some 50)"
    by code_simp
  then obtain p where p: "position_of_rows example_ctx example_inverse_market example_mirror
      ([] @ example_inverse_row # []) = Inr (Some p)" "ep_entry_price p = 50"
    by (cases "position_of_rows example_ctx example_inverse_market example_mirror ([] @ example_inverse_row # [])") auto
  from adopted_size_is_mirror [OF inv example_seeded _ p(1)] p show ?thesis by (simp add: example_mirror_def)
qed

theorem position_only_after_adoption_witness:
  "\<exists>B' p. get_position example_framework example_start example_views example_ctx example_reads example_inverse_market
      example_snapshot ''BTCUSD'' example_broker = Some (B', Inr p) \<and> bk_started B' \<and> ad_baselined (bk_adoption B')"
proof -
  let ?run = "get_position example_framework example_start example_views example_ctx example_reads
    example_inverse_market example_snapshot ''BTCUSD'' example_broker"
  have k: "keeps_latch example_reads" "rx_store example_ctx" by (simp_all add: keeps_latch_def example_reads_def example_ctx_def)
  have m: "in_category example_inverse_market \<noteq> CATEGORY_SPOT" "own_symbol example_ctx example_inverse_market ''BTCUSD''"
    by code_simp+
  have "map_option (\<lambda>p. map_sum id (map_option ep_size) (snd p)) ?run = Some (Inr (Some 6))" by code_simp
  then obtain B' r where r: "?run = Some (B', r)" "map_sum id (map_option ep_size) r = Inr (Some 6)"
    by (cases ?run) auto
  then obtain p where "?run = Some (B', Inr p)" by (cases r) auto
  moreover from position_only_after_adoption [OF k m this] have "bk_started B' \<and> ad_baselined (bk_adoption B')" .
  ultimately show ?thesis by (intro exI conjI) (assumption, simp_all)
qed

text \<open>
  The startup in front of those reads does not translate: a transient fault of the position mode read
  reaches the engine as the plugin's own exception from the very first \<open>get_position\<close>.
\<close>

theorem startup_fault_escapes:
  "get_position F (example_start\<lparr>se_mode := Inl (Bybit (BybitConnectionError ''down''))\<rparr>) P X V
      example_inverse_market reply symbol example_broker =
    Some (example_broker, Inl (Escaped (Bybit (BybitConnectionError ''down''))))"
  by (simp add: get_position_def ensure_broker_started_def start_category_def start_derivative_def
      detect_position_mode_def fetch_position_rows_def example_broker_def example_inverse_market_def
      CATEGORY_INVERSE_def CATEGORY_SPOT_def)

end
