(* ===== verification/Runtime.thy ===== *)
theory Runtime
  imports State_Query
begin

text \<open>
  What a running instance of the plugin keeps: the attributes of \<^verbatim>\<open>src/src/pynecore_bybit/_base.py\<close>
  the protection guard, the ledger glue and the reconcile passes work on, set up as
  \<^verbatim>\<open>src/src/pynecore_bybit/plugin.py\<close> does. The framework behind them - the durable store with its rows
  and envelopes, and the protection level guard that persists on the rows - is one abstract state
  with the calls the plugin makes, and the laws of the locale \<open>runtime_store\<close>.
\<close>

section \<open>The framework's calls and constants\<close>

text \<open>\<open>ProtectionLevels\<close>: stop, limit, whether it trails and at which distance\<close>

record levels =
  lv_stop :: "rat option"
  lv_limit :: "rat option"
  lv_trailing :: bool
  lv_trail_distance :: "rat option"

definition no_levels :: levels where
  "no_levels = \<lparr>lv_stop = None, lv_limit = None, lv_trailing = False, lv_trail_distance = None\<rparr>"

text \<open>
  \<open>fo_get\<close> is \<open>get_order\<close>: a row by its client id, open or closed, and whether it is closed;
  \<open>fo_find_ref\<close> finds one by a recorded reference; \<open>fo_owned_stops\<close> gives the live bracket ownership rows, \<open>fo_ever_owned\<close> those of every instance of the
  run; \<open>fo_resolve\<close> records a resolution for the engine. The guard: is a key known, forget it, judge
  a view (tick, start of the read, at once), open and close an own write, adopt a baseline, place a
  view before the own writes.
\<close>

record 's framework_ops =
  fo_dispatch :: "'s dispatch_ops"
  fo_find_ref :: "string \<Rightarrow> string \<Rightarrow> 's \<Rightarrow> order_row option"
  fo_get :: "string \<Rightarrow> 's \<Rightarrow> (order_row \<times> bool) option"
  fo_owned_stops :: "'s \<Rightarrow> order_row list"
  fo_ever_owned :: "'s \<Rightarrow> order_row list"
  fo_resolve :: "string \<Rightarrow> string \<Rightarrow> 's \<Rightarrow> 's"
  fo_known :: "string \<Rightarrow> 's \<Rightarrow> bool"
  fo_forget :: "string \<Rightarrow> 's \<Rightarrow> 's"
  fo_observe :: "string \<Rightarrow> levels \<Rightarrow> num \<Rightarrow> rat option \<Rightarrow> bool \<Rightarrow> 's \<Rightarrow> 's \<times> bool"
  fo_expect :: "string \<Rightarrow> levels \<Rightarrow> string option \<Rightarrow> 's \<Rightarrow> 's \<times> int"
  fo_settle :: "string \<Rightarrow> levels option \<Rightarrow> levels option \<Rightarrow> int option \<Rightarrow> 's \<Rightarrow> 's"
  fo_adopt :: "string \<Rightarrow> levels \<Rightarrow> string option \<Rightarrow> 's \<Rightarrow> 's"
  fo_precede :: "string \<Rightarrow> levels \<Rightarrow> num \<Rightarrow> 's \<Rightarrow> 's \<times> bool"

text \<open>Names the framework fixes, and its parsers of a wire client id and of a canonical one.\<close>

record keys =
  fk_base :: framework
  fk_position_kind :: string
  fk_working_kind :: string
  fk_levels_key :: string
  fk_leg_key :: string
  fk_attach_key :: string
  fk_clear_key :: string
  fk_own_state :: string
  fk_missing_key :: string
  fk_unknown_state :: string
  fk_bot_id :: "string \<Rightarrow> bool"
  fk_canonical_id :: "string \<Rightarrow> bool"

abbreviation rows_of :: "'s framework_ops \<Rightarrow> 's store_ops" where
  "rows_of W \<equiv> ds_rows (fo_dispatch W)"

section \<open>The attributes of an instance\<close>

text \<open>What is reported to the intervention policy, and the audit events that carry a verdict.\<close>

datatype report =
    QtyEdit string rat rat
  | TpslOrder string
  | ExternalClose string rat rat

datatype audit = Audit string string rat

datatype leg_type = ENTRY | TAKE_PROFIT | STOP_LOSS | TRAILING_STOP | CLOSE

type_synonym identity = "string option \<times> string option \<times> leg_type"

text \<open>
  Dictionaries are association lists in insertion order, sets are lists. \<open>rt_has_store\<close> is
  \<open>store_ctx is not None\<close>; \<open>rt_saved_credits\<close> and \<open>rt_unproven_stops\<close> are audit events the plugin
  reads back; \<open>rt_reports\<close> and \<open>rt_log\<close> are outputs, newest last.
\<close>

record 's runtime =
  rt_has_store :: bool
  rt_store :: 's
  rt_positions :: position_state
  rt_inverse :: inverse_state
  rt_baselined :: bool
  rt_sides :: "(string \<times> string) list"
  rt_writes :: "(string \<times> (int \<times> rat)) list"
  rt_order_qtys :: "(string \<times> rat list) list"
  rt_mismatches :: "(string \<times> (rat \<times> nat)) list"
  rt_qty_reported :: "string list"
  rt_cut_logged :: "(string \<times> rat) list"
  rt_rebaseline_pending :: "string list"
  rt_rebaselined :: "string list"
  rt_exec_ids :: "string list"
  rt_exec_seqs :: "int list"
  rt_hold :: nat
  rt_reported_closes :: "string list"
  rt_share_start :: "(int \<times> (int \<times> int)) list"
  rt_held_since :: "(int \<times> int) list"
  rt_judged :: "(string \<times> (rat option \<times> rat option) option) list"
  rt_pending_tpsl :: "(string \<times> (jdict \<times> rat)) list"
  rt_view_at :: "(int \<times> rat) list"
  rt_last_view :: "(int \<times> jdict) list"
  rt_unviewed :: "int list"
  rt_stream_opened_ms :: "int option"
  rt_saved_credits :: "int \<Rightarrow> leg_credits"
  rt_unproven_stops :: "(int \<times> int option) list"
  rt_misses :: "(string \<times> nat) list"
  rt_unbooked :: "(string \<times> (string \<times> num)) list"
  rt_checked :: "string list"
  rt_identity :: "(string \<times> identity) list"
  rt_dispatch_qty :: "(string \<times> rat) list"
  rt_filled_cum :: "(string \<times> rat) list"
  rt_created :: "string list"
  rt_seen :: "string list"
  rt_reports :: "report list"
  rt_log :: "audit list"

definition new_runtime :: "bool \<Rightarrow> 's \<Rightarrow> 's runtime" where
  "new_runtime has_store s =
     \<lparr>rt_has_store = has_store, rt_store = s, rt_positions = new_positions, rt_inverse = new_inverse,
      rt_baselined = False, rt_sides = [], rt_writes = [], rt_order_qtys = [], rt_mismatches = [],
      rt_qty_reported = [], rt_cut_logged = [], rt_rebaseline_pending = [], rt_rebaselined = [],
      rt_exec_ids = [], rt_exec_seqs = [], rt_hold = 0, rt_reported_closes = [], rt_share_start = [],
      rt_held_since = [], rt_judged = [], rt_pending_tpsl = [], rt_view_at = [], rt_last_view = [],
      rt_unviewed = [], rt_stream_opened_ms = None, rt_saved_credits = (\<lambda>i. []), rt_unproven_stops = [],
      rt_misses = [], rt_unbooked = [], rt_checked = [],
      rt_identity = [], rt_dispatch_qty = [], rt_filled_cum = [], rt_created = [], rt_seen = [], rt_reports = [], rt_log = []\<rparr>"

text \<open>The change of the store of an instance, and what comes out beside it.\<close>

definition on_store :: "('s \<Rightarrow> 's) \<Rightarrow> 's runtime \<Rightarrow> 's runtime" where
  "on_store f R = R\<lparr>rt_store := f (rt_store R)\<rparr>"

definition report :: "report \<Rightarrow> 's runtime \<Rightarrow> 's runtime" where
  "report e R = R\<lparr>rt_reports := rt_reports R @ [e]\<rparr>"

definition audit_event :: "string \<Rightarrow> string \<Rightarrow> rat \<Rightarrow> 's runtime \<Rightarrow> 's runtime" where
  "audit_event kind subject amount R =
     (if rt_has_store R then R\<lparr>rt_log := rt_log R @ [Audit kind subject amount]\<rparr> else R)"

lemma on_store_fields [simp]:
  "rt_store (on_store f R) = f (rt_store R)" "rt_positions (on_store f R) = rt_positions R"
  "rt_has_store (on_store f R) = rt_has_store R" "rt_reports (on_store f R) = rt_reports R"
  "rt_log (on_store f R) = rt_log R" "rt_saved_credits (on_store f R) = rt_saved_credits R"
  "rt_inverse (on_store f R) = rt_inverse R" "rt_misses (on_store f R) = rt_misses R"
  "rt_unbooked (on_store f R) = rt_unbooked R" "rt_checked (on_store f R) = rt_checked R"
  "rt_baselined (on_store f R) = rt_baselined R" "rt_qty_reported (on_store f R) = rt_qty_reported R"
  by (simp_all add: on_store_def)

lemma audit_event_fields [simp]:
  "rt_store (audit_event k c a R) = rt_store R" "rt_positions (audit_event k c a R) = rt_positions R"
  "rt_has_store (audit_event k c a R) = rt_has_store R" "rt_reports (audit_event k c a R) = rt_reports R"
  "rt_qty_reported (audit_event k c a R) = rt_qty_reported R" "rt_unbooked (audit_event k c a R) = rt_unbooked R"
  "rt_judged (audit_event k c a R) = rt_judged R" "rt_pending_tpsl (audit_event k c a R) = rt_pending_tpsl R"
  "rt_mismatches (audit_event k c a R) = rt_mismatches R" "rt_inverse (audit_event k c a R) = rt_inverse R"
  "rt_baselined (audit_event k c a R) = rt_baselined R"
  by (simp_all add: audit_event_def)

section \<open>Whose order it is\<close>

definition PRIOR_INSTANCE_ORDER_EXTRA :: string where
  "PRIOR_INSTANCE_ORDER_EXTRA = ''prior_instance_order''"

definition record_identity ::
    "string \<Rightarrow> string option \<Rightarrow> string option \<Rightarrow> leg_type \<Rightarrow> rat \<Rightarrow> 's runtime \<Rightarrow> 's runtime" where
  "record_identity coid pine_id from_entry leg q R =
     R\<lparr>rt_identity := AList.update coid (pine_id, from_entry, leg) (rt_identity R),
       rt_dispatch_qty := AList.update coid q (rt_dispatch_qty R)\<rparr>"

fun text_of :: "py \<Rightarrow> string option" where
  "text_of (PStr s) = Some s"
| "text_of v = None"

text \<open>The identity of a dispatch row, \<open>None\<close> for an order of a prior instance under its id.\<close>

definition row_identity :: "order_row \<Rightarrow> identity option" where
  "row_identity row =
     (let extras = extras_of row; kind = jget extras ''kind'' in
      if truthy (jget extras PRIOR_INSTANCE_ORDER_EXTRA) then None
      else if kind = PStr ''exit_leg''
      then Some (text_of (jget extras ''exit_id''), or_from_entry row,
                 if jget extras ''leg'' = PStr ''tp'' then TAKE_PROFIT else STOP_LOSS)
      else if kind = PStr ''close'' then Some (None, text_of (jget extras ''close_of_entry''), CLOSE)
      else Some (or_pine_id row, None, ENTRY))"

definition resolve_identity ::
    "'s framework_ops \<Rightarrow> string option \<Rightarrow> string option \<Rightarrow> 's runtime \<Rightarrow> identity option" where
  "resolve_identity W link_id order_id R =
     (let by_link = (case link_id of None \<Rightarrow> None | Some [] \<Rightarrow> None | Some l \<Rightarrow> Some l);
          by_id = (case order_id of None \<Rightarrow> None | Some [] \<Rightarrow> None | Some i \<Rightarrow> Some i)
      in case (case by_link of None \<Rightarrow> None | Some l \<Rightarrow> map_of (rt_identity R) l) of
           Some i \<Rightarrow> Some i
         | None \<Rightarrow>
             if \<not> rt_has_store R then None
             else
               (case (case by_link of None \<Rightarrow> None | Some l \<Rightarrow> map_option fst (fo_get W l (rt_store R))) of
                  Some row \<Rightarrow> row_identity row
                | None \<Rightarrow>
                    (case by_id of
                       None \<Rightarrow> None
                     | Some i \<Rightarrow>
                         (case fo_find_ref W ''order_id'' i (rt_store R) of
                            None \<Rightarrow> None | Some row \<Rightarrow> row_identity row))))"

section \<open>Rows as the guard leaves them\<close>

text \<open>
  The guard writes its levels on the rows under one extras key; every other field stays. Two lists
  of rows alike but for that key:
\<close>

definition row_alike :: "string \<Rightarrow> order_row \<Rightarrow> order_row \<Rightarrow> bool" where
  "row_alike key r r' \<longleftrightarrow>
     or_coid r' = or_coid r \<and> or_side r' = or_side r \<and> or_qty r' = or_qty r \<and> or_filled r' = or_filled r \<and>
     or_state r' = or_state r \<and> or_pine_id r' = or_pine_id r \<and> or_from_entry r' = or_from_entry r \<and>
     or_order_id r' = or_order_id r \<and> or_intent_key r' = or_intent_key r \<and>
     or_created_ms r' = or_created_ms r \<and>
     (\<forall>k. k \<noteq> key \<longrightarrow> map_of (extras_of r') k = map_of (extras_of r) k)"

definition rows_alike :: "string \<Rightarrow> order_row list \<Rightarrow> order_row list \<Rightarrow> bool" where
  "rows_alike key rows rows' \<longleftrightarrow> list_all2 (row_alike key) rows rows'"

lemma row_alike_refl [simp]: "row_alike key r r"
  by (simp add: row_alike_def)

lemma row_alike_trans: "row_alike key a b \<Longrightarrow> row_alike key b c \<Longrightarrow> row_alike key a c"
  by (simp add: row_alike_def)

lemma rows_alike_refl [simp]: "rows_alike key rows rows"
  by (simp add: rows_alike_def list_all2_refl)

lemma rows_alike_trans: "rows_alike key a b \<Longrightarrow> rows_alike key b c \<Longrightarrow> rows_alike key a c"
  unfolding rows_alike_def by (rule list_all2_trans [OF row_alike_trans])

text \<open>What a predicate and a size that do not look at the key see of such rows is the same.\<close>

lemma rows_alike_total:
  assumes "rows_alike key rows rows'"
    and "\<And>r r'. row_alike key r r' \<Longrightarrow> P r' = P r" and "\<And>r r'. row_alike key r r' \<Longrightarrow> f r' = f r"
  shows "map f (filter P rows') = map f (filter P rows)"
  using assms(1) unfolding rows_alike_def by induction (auto simp: assms(2,3))

definition own_row :: "framework \<Rightarrow> order_row \<Rightarrow> bool" where
  "own_row F r \<longleftrightarrow> is_entry_row F r \<and> \<not> truthy (jget (extras_of r) (fc_adopted_key F)) \<and> or_filled r > FILL_EPS"

lemma own_row_alike:
  assumes "row_alike key r r'" and "key \<noteq> ''kind''" and "key \<noteq> fc_adopted_key F"
  shows "own_row F r' = own_row F r"
proof -
  have "jget (extras_of r') k = jget (extras_of r) k" if "k \<noteq> key" for k
    using assms(1) that by (simp add: row_alike_def jget_def)
  moreover have "or_filled r' = or_filled r" using assms(1) by (simp add: row_alike_def)
  ultimately show ?thesis using assms(2,3) by (simp add: own_row_def is_entry_row_def kind_in_def)
qed

section \<open>The laws of the framework\<close>

text \<open>
  Beside those of \<open>dispatch_store\<close>: \<open>get_order\<close> finds the open rows the live list shows; a recorded
  resolution changes no row; the guard changes a row only under its own key, which is no key the
  plugin reads its rows by.
\<close>

locale runtime_store = dispatch_store "fo_dispatch W" for W :: "'s framework_ops" +
  fixes K :: keys
  assumes get_live: "fo_get W c s = Some (r, False) \<longleftrightarrow> r \<in> set (so_live (rows_of W) s) \<and> or_coid r = c"
    and resolve_live: "so_live (rows_of W) (fo_resolve W c v s) = so_live (rows_of W) s"
    and forget_alike: "rows_alike (fk_levels_key K) (so_live (rows_of W) s) (so_live (rows_of W) (fo_forget W k s))"
    and observe_alike: "rows_alike (fk_levels_key K) (so_live (rows_of W) s)
        (so_live (rows_of W) (fst (fo_observe W k lv tick since now s)))"
    and expect_alike: "rows_alike (fk_levels_key K) (so_live (rows_of W) s)
        (so_live (rows_of W) (fst (fo_expect W k lv c' s)))"
    and settle_alike: "rows_alike (fk_levels_key K) (so_live (rows_of W) s)
        (so_live (rows_of W) (fo_settle W k lc lr w s))"
    and adopt_alike: "rows_alike (fk_levels_key K) (so_live (rows_of W) s) (so_live (rows_of W) (fo_adopt W k lv c' s))"
    and precede_alike: "rows_alike (fk_levels_key K) (so_live (rows_of W) s)
        (so_live (rows_of W) (fst (fo_precede W k lv tick s)))"
    and own_keys: "fk_levels_key K \<notin> {''kind'', fc_adopted_key (fk_base K)}"
      "fc_adopted_key (fk_base K) \<noteq> ENTRY_NETTED_QTY_EXTRA"

text \<open>
  A framework in plain data: the open and the closed rows, the envelope keys, the guarded levels and
  the resolutions. Its guard takes every view that shows other levels at once for an edit.
\<close>

record desk =
  dk_rows :: "order_row list"
  dk_closed :: "order_row list"
  dk_envelopes :: "string list"
  dk_levels :: "(string \<times> levels) list"
  dk_resolutions :: "(string \<times> string) list"

definition close_desk_row :: "string \<Rightarrow> desk \<Rightarrow> desk" where
  "close_desk_row c s =
     s\<lparr>dk_rows := filter (\<lambda>r. or_coid r \<noteq> c) (dk_rows s),
       dk_closed := filter (\<lambda>r. or_coid r = c) (dedup (dk_rows s)) @ dk_closed s\<rparr>"

definition desk_rows :: "desk store_ops" where
  "desk_rows =
     \<lparr>so_live = (\<lambda>s. dedup (dk_rows s)),
      so_update = (\<lambda>c f s. s\<lparr>dk_rows := map (\<lambda>r. if or_coid r = c then f r else r) (dk_rows s)\<rparr>),
      so_close = close_desk_row, so_unpark = (\<lambda>c s. s),
      so_complete = (\<lambda>k s. s\<lparr>dk_envelopes := filter (\<lambda>x. x \<noteq> k) (dk_envelopes s)\<rparr>)\<rparr>"

definition find_coid :: "string \<Rightarrow> order_row list \<Rightarrow> order_row option" where
  "find_coid c rows = find (\<lambda>r. or_coid r = c) rows"

definition desk_get :: "string \<Rightarrow> desk \<Rightarrow> (order_row \<times> bool) option" where
  "desk_get c s =
     (case find_coid c (dedup (dk_rows s)) of
        Some r \<Rightarrow> Some (r, False)
      | None \<Rightarrow> map_option (\<lambda>r. (r, True)) (find_coid c (dk_closed s)))"

definition desk_ops :: "string list \<Rightarrow> desk framework_ops" where
  "desk_ops pending_states =
     \<lparr>fo_dispatch =
        \<lparr>ds_rows = desk_rows, ds_pending = (\<lambda>s. filter (\<lambda>r. or_state r \<in> set pending_states) (dedup (dk_rows s))),
         ds_envelopes = dk_envelopes, ds_add_ref = (\<lambda>c k v s. s),
         ds_terminal_close = (\<lambda>c st oid s. close_desk_row c s)\<rparr>,
      fo_find_ref = (\<lambda>k v s. find (\<lambda>r. or_order_id r = Some v) (dedup (dk_rows s) @ dk_closed s)),
      fo_get = desk_get,
      fo_owned_stops = (\<lambda>s. filter (\<lambda>r. or_state r = ''bracket_own'') (dedup (dk_rows s))),
      fo_ever_owned = (\<lambda>s. filter (\<lambda>r. or_state r = ''bracket_own'') (dedup (dk_rows s) @ dk_closed s)),
      fo_resolve = (\<lambda>c v s. s\<lparr>dk_resolutions := dk_resolutions s @ [(c, v)]\<rparr>),
      fo_known = (\<lambda>k s. map_of (dk_levels s) k \<noteq> None),
      fo_forget = (\<lambda>k s. s\<lparr>dk_levels := AList.delete k (dk_levels s)\<rparr>),
      fo_observe = (\<lambda>k lv tick since now s. (s, now \<and> map_of (dk_levels s) k \<noteq> Some lv)),
      fo_expect = (\<lambda>k lv c s. (s\<lparr>dk_levels := AList.update k lv (dk_levels s)\<rparr>, 0)),
      fo_settle = (\<lambda>k lc lr w s. s),
      fo_adopt = (\<lambda>k lv c s. s\<lparr>dk_levels := AList.update k lv (dk_levels s)\<rparr>),
      fo_precede = (\<lambda>k lv tick s. (s, False))\<rparr>"

definition example_keys :: keys where
  "example_keys =
     \<lparr>fk_base = example_framework, fk_position_kind = ''position'', fk_working_kind = ''working'',
      fk_levels_key = ''protection_levels'', fk_leg_key = ''leg_id'', fk_attach_key = ''attach'',
      fk_clear_key = ''clear'', fk_own_state = ''bracket_own'', fk_missing_key = ''missing_pending_since'',
      fk_unknown_state = ''disposition_unknown'', fk_bot_id = (\<lambda>s. starts_with s ''pyne''),
      fk_canonical_id = (\<lambda>s. False)\<rparr>"

lemma find_coid_Some:
  assumes "distinct (map or_coid rows)"
  shows "find_coid c rows = Some r \<longleftrightarrow> r \<in> set rows \<and> or_coid r = c"
  using assms by (induction rows) (auto simp: find_coid_def rev_image_eqI)

lemma desk_get_open: "desk_get c s = Some (r, False) \<longleftrightarrow> r \<in> set (dedup (dk_rows s)) \<and> or_coid r = c"
  by (cases "find_coid c (dedup (dk_rows s))")
    (auto simp: desk_get_def find_coid_Some [OF dedup_distinct] simp flip: find_coid_Some [OF dedup_distinct])

interpretation desk: runtime_store "desk_ops pending" example_keys
  by unfold_locales
    (auto simp: desk_ops_def desk_rows_def close_desk_row_def desk_get_open dedup_map dedup_filter dedup_distinct
      distinct_map_filter example_keys_def example_framework_def ENTRY_NETTED_QTY_EXTRA_def)

end
