(* ===== verification/Guard.thy ===== *)
theory Guard
  imports Runtime
begin

text \<open>
  The external-intervention guard of \<^verbatim>\<open>src/src/pynecore_bybit/protection.py\<close>: the writes and own
  quantities it remembers, the trading stop of a position and the row it lives on, the verdict on an
  order's quantity and on a foreign partial TP/SL order. Which levels of a key count as edited is the
  framework's protection level guard, a parameter; the intervention policy is one that lets the run
  go on, what it is told is the list \<open>rt_reports\<close>.
\<close>

section \<open>Writes\<close>

definition MAX_OWN_ORDER_QTYS :: nat where "MAX_OWN_ORDER_QTYS = 8"
definition FOREIGN_TPSL_VERDICT_CEILING_S :: rat where "FOREIGN_TPSL_VERDICT_CEILING_S = 300"
definition OWN_ORDER_QTYS_EXTRA :: string where "OWN_ORDER_QTYS_EXTRA = ''own_order_qtys''"

definition forget_protection :: "'s framework_ops \<Rightarrow> string \<Rightarrow> 's runtime \<Rightarrow> 's runtime" where
  "forget_protection W key R =
     R\<lparr>rt_sides := AList.delete key (rt_sides R), rt_writes := AList.delete key (rt_writes R),
       rt_order_qtys := AList.delete key (rt_order_qtys R),
       rt_mismatches := AList.delete key (rt_mismatches R),
       rt_cut_logged := AList.delete key (rt_cut_logged R),
       rt_rebaseline_pending := removeAll key (rt_rebaseline_pending R),
       rt_store := fo_forget W key (rt_store R)\<rparr>"

definition expect_protection ::
    "'s framework_ops \<Rightarrow> rat \<Rightarrow> string \<Rightarrow> levels \<Rightarrow> string option \<Rightarrow> string option \<Rightarrow> 's runtime \<Rightarrow>
     's runtime \<times> int" where
  "expect_protection W now key lv row_coid protects R =
     (let in_flight = (case map_of (rt_writes R) key of None \<Rightarrow> 0 | Some w \<Rightarrow> fst w);
          (s, write) = fo_expect W key lv row_coid (rt_store R)
      in (R\<lparr>rt_sides := (case protects of None \<Rightarrow> rt_sides R | Some p \<Rightarrow> AList.update key p (rt_sides R)),
            rt_writes := AList.update key (in_flight + 1, now) (rt_writes R), rt_store := s\<rparr>, write))"

definition settle_protection ::
    "'s framework_ops \<Rightarrow> rat \<Rightarrow> string \<Rightarrow> levels option \<Rightarrow> levels option \<Rightarrow> int option \<Rightarrow> 's runtime \<Rightarrow>
     's runtime" where
  "settle_protection W now key confirmed rejected write R =
     R\<lparr>rt_writes := (case map_of (rt_writes R) key of
           None \<Rightarrow> rt_writes R
         | Some w \<Rightarrow> AList.update key (max 0 (fst w - 1), now) (rt_writes R)),
       rt_store := fo_settle W key confirmed rejected write (rt_store R)\<rparr>"

definition view_postdates_own_writes :: "string \<Rightarrow> rat option \<Rightarrow> 's runtime \<Rightarrow> bool" where
  "view_postdates_own_writes key read_started R =
     (case map_of (rt_writes R) key of
        None \<Rightarrow> True
      | Some (in_flight, written_at) \<Rightarrow>
          if in_flight > 0 then False
          else case read_started of None \<Rightarrow> True | Some t \<Rightarrow> t \<ge> written_at)"

section \<open>The bot's own order quantities\<close>

text \<open>\<open>isinstance(v, (int, float))\<close>, which a bool is too\<close>

fun py_number :: "py \<Rightarrow> rat option" where
  "py_number (PInt i) = Some (of_int i)"
| "py_number (PFloat r) = Some r"
| "py_number (PBool b) = Some (if b then 1 else 0)"
| "py_number v = None"

fun saved_numbers :: "py \<Rightarrow> rat list" where
  "saved_numbers (PList vs) = List.map_filter py_number vs"
| "saved_numbers v = []"

definition write_own_order_qtys ::
    "'s framework_ops \<Rightarrow> string \<Rightarrow> (rat list \<Rightarrow> rat list) \<Rightarrow> 's runtime \<Rightarrow> 's runtime" where
  "write_own_order_qtys W coid upd R =
     (if \<not> rt_has_store R then R
      else
        (case fo_get W coid (rt_store R) of
           Some (row, False) \<Rightarrow>
             (let qtys = saved_numbers (jget (extras_of row) OWN_ORDER_QTYS_EXTRA);
                  extras = AList.update OWN_ORDER_QTYS_EXTRA
                    (PList (map PFloat (keep_last MAX_OWN_ORDER_QTYS (upd qtys)))) (extras_of row)
              in on_store (so_update (rows_of W) coid (\<lambda>r. r\<lparr>or_extras := Some extras\<rparr>)) R)
         | _ \<Rightarrow> R))"

definition note_own_order_qty :: "'s framework_ops \<Rightarrow> string \<Rightarrow> rat \<Rightarrow> 's runtime \<Rightarrow> 's runtime" where
  "note_own_order_qty W coid q R =
     (let sent = (case map_of (rt_order_qtys R) coid of None \<Rightarrow> [] | Some qs \<Rightarrow> qs);
          R1 = R\<lparr>rt_order_qtys := AList.update coid (keep_last MAX_OWN_ORDER_QTYS (sent @ [q])) (rt_order_qtys R)\<rparr>
      in write_own_order_qtys W coid (\<lambda>saved. saved @ [q]) R1)"

text \<open>The latest occurrence, searched from the end\<close>

definition drop_latest :: "rat \<Rightarrow> rat list \<Rightarrow> rat list" where
  "drop_latest q qs = rev (remove1 q (rev qs))"

definition retract_own_order_qty :: "'s framework_ops \<Rightarrow> string \<Rightarrow> rat \<Rightarrow> 's runtime \<Rightarrow> 's runtime" where
  "retract_own_order_qty W coid q R =
     (let R1 = (case map_of (rt_order_qtys R) coid of
                  None \<Rightarrow> R
                | Some sent \<Rightarrow> R\<lparr>rt_order_qtys := AList.update coid (drop_latest q sent) (rt_order_qtys R)\<rparr>)
      in write_own_order_qtys W coid (drop_latest q) R1)"

definition own_order_qty_candidates :: "'s framework_ops \<Rightarrow> string \<Rightarrow> 's runtime \<Rightarrow> rat list" where
  "own_order_qty_candidates W coid R =
     (let own = (case map_of (rt_order_qtys R) coid of None \<Rightarrow> [] | Some qs \<Rightarrow> qs) in
      if \<not> rt_has_store R then own
      else
        (case fo_get W coid (rt_store R) of
           None \<Rightarrow> own
         | Some (row, is_closed) \<Rightarrow>
             (let extras = extras_of row;
                  netted = (case py_number (jget extras ENTRY_NETTED_QTY_EXTRA) of None \<Rightarrow> 0 | Some n \<Rightarrow> n)
              in own @ saved_numbers (jget extras OWN_ORDER_QTYS_EXTRA) @ [or_qty row + netted])))"

text \<open>The levels record of a row, and the flags of an operator resume\<close>

definition saved_levels :: "keys \<Rightarrow> order_row \<Rightarrow> jdict option" where
  "saved_levels K row = (case jget (extras_of row) (fk_levels_key K) of PDict d \<Rightarrow> Some d | _ \<Rightarrow> None)"

definition protection_rebaseline_flagged :: "'s framework_ops \<Rightarrow> keys \<Rightarrow> string \<Rightarrow> 's runtime \<Rightarrow> bool" where
  "protection_rebaseline_flagged W K coid R =
     (rt_has_store R \<and>
      (case fo_get W coid (rt_store R) of
         None \<Rightarrow> False
       | Some (row, is_closed) \<Rightarrow>
           (case saved_levels K row of None \<Rightarrow> False | Some d \<Rightarrow> truthy (jget d ''rebaseline''))))"

section \<open>The run's share of a leg\<close>

definition owned_entry_rows :: "'s framework_ops \<Rightarrow> framework \<Rightarrow> 's runtime \<Rightarrow> order_row list" where
  "owned_entry_rows W F R =
     (if rt_has_store R then filter (own_row F) (so_live (rows_of W) (rt_store R)) else [])"

text \<open>\<open>_journal_leg_shares().get(idx, 0.0)\<close>\<close>

definition journal_leg_share :: "'s framework_ops \<Rightarrow> framework \<Rightarrow> 's runtime \<Rightarrow> int \<Rightarrow> rat" where
  "journal_leg_share W F R idx =
     (if \<not> rt_has_store R then 0
      else if hedge (rt_positions R)
      then if idx = HEDGE_IDX_BUY
           then sum_list (map or_filled (filter (\<lambda>r. or_side r = ''buy'') (owned_entry_rows W F R)))
           else if idx = HEDGE_IDX_SELL
           then sum_list (map or_filled (filter (\<lambda>r. or_side r \<noteq> ''buy'') (owned_entry_rows W F R)))
           else 0
      else if idx = ONE_WAY_IDX then run_owned_signed_size F (so_live (rows_of W) (rt_store R)) else 0)"

text \<open>\<open>market\<close> is the chart's instrument, \<open>None\<close> before it is resolved.\<close>

definition tolerance_of :: "instrument_info option \<Rightarrow> rat" where
  "tolerance_of market = (case market of None \<Rightarrow> FILL_EPS | Some m \<Rightarrow> qty_tolerance m)"

definition run_side_on_leg ::
    "'s framework_ops \<Rightarrow> framework \<Rightarrow> instrument_info option \<Rightarrow> 's runtime \<Rightarrow> int \<Rightarrow> string option" where
  "run_side_on_leg W F market R idx =
     (let share = journal_leg_share W F R idx in
      if \<bar>share\<bar> \<le> tolerance_of market then None
      else if idx = HEDGE_IDX_BUY then Some ''buy''
      else if idx = HEDGE_IDX_SELL then Some ''sell''
      else if share > 0 then Some ''buy'' else Some ''sell'')"

section \<open>The trading stop of a position\<close>

definition leg_id_of :: "keys \<Rightarrow> order_row \<Rightarrow> string" where
  "leg_id_of K row = py_str (jget (extras_of row) (fk_leg_key K))"

fun find_stop_row :: "keys \<Rightarrow> string \<Rightarrow> string \<Rightarrow> order_row list \<Rightarrow> string option \<Rightarrow> string option" where
  "find_stop_row K leg_id coid [] newest = newest"
| "find_stop_row K leg_id coid (row # rows) newest =
     (if leg_id_of K row \<noteq> leg_id then find_stop_row K leg_id coid rows newest
      else if jget (extras_of row) (fk_attach_key K) = PStr coid \<or> jget (extras_of row) (fk_clear_key K) = PStr coid
      then Some (or_coid row)
      else find_stop_row K leg_id coid rows (Some (or_coid row)))"

definition trading_stop_row_coid ::
    "'s framework_ops \<Rightarrow> keys \<Rightarrow> string \<Rightarrow> string \<Rightarrow> 's runtime \<Rightarrow> string option" where
  "trading_stop_row_coid W K leg_id coid R =
     (if rt_has_store R then find_stop_row K leg_id coid (fo_owned_stops W (rt_store R)) None else None)"

definition opposite :: "string \<Rightarrow> string" where
  "opposite side = (if side = ''buy'' then ''sell'' else ''buy'')"

definition stop_owner_side :: "keys \<Rightarrow> int \<Rightarrow> order_row list \<Rightarrow> string option" where
  "stop_owner_side K idx rows =
     (case find (\<lambda>r. leg_id_of K r = int_str idx \<and> (or_side r = ''buy'' \<or> or_side r = ''sell'')) rows of
        None \<Rightarrow> None | Some r \<Rightarrow> Some (opposite (or_side r)))"

definition trading_stop_side ::
    "'s framework_ops \<Rightarrow> keys \<Rightarrow> instrument_info option \<Rightarrow> string \<Rightarrow> int \<Rightarrow> 's runtime \<Rightarrow> 's runtime \<times> string option" where
  "trading_stop_side W K market key idx R =
     (if idx = HEDGE_IDX_BUY then (R, Some ''buy'')
      else if idx = HEDGE_IDX_SELL then (R, Some ''sell'')
      else
        (case map_of (rt_sides R) key of
           Some side \<Rightarrow> (R, Some side)
         | None \<Rightarrow>
             if \<not> rt_has_store R then (R, None)
             else
               (case (case stop_owner_side K idx (fo_owned_stops W (rt_store R)) of
                        Some side \<Rightarrow> Some side
                      | None \<Rightarrow> run_side_on_leg W (fk_base K) market R idx) of
                  None \<Rightarrow> (R, None)
                | Some side \<Rightarrow> (R\<lparr>rt_sides := AList.update key side (rt_sides R)\<rparr>, Some side))))"

definition holds_key :: "keys \<Rightarrow> string \<Rightarrow> order_row \<Rightarrow> bool" where
  "holds_key K key row = (case saved_levels K row of None \<Rightarrow> False | Some d \<Rightarrow> jget d ''key'' = PStr key)"

definition bare_home_eligible ::
    "'s framework_ops \<Rightarrow> keys \<Rightarrow> instrument_info option \<Rightarrow> string \<Rightarrow> 's runtime \<Rightarrow> order_row \<Rightarrow> bool" where
  "bare_home_eligible W K market key R row =
     (if or_qty row - or_filled row > tolerance_of market then False
      else if jget (extras_of row) (fk_levels_key K) \<noteq> PNone \<and> \<not> holds_key K key row then False
      else \<not> fo_known W (or_coid row) (rt_store R))"

definition bare_baseline_row_coid ::
    "'s framework_ops \<Rightarrow> keys \<Rightarrow> instrument_info option \<Rightarrow> string \<Rightarrow> string \<Rightarrow> 's runtime \<Rightarrow> string option" where
  "bare_baseline_row_coid W K market side key R =
     (let rows = filter (\<lambda>r. or_side r = side \<and> bare_home_eligible W K market key R r)
                   (owned_entry_rows W (fk_base K) R)
      in case find (holds_key K key) rows of
           Some row \<Rightarrow> Some (or_coid row)
         | None \<Rightarrow> if rows = [] then None else Some (or_coid (last (sort_key or_created_ms rows))))"

text \<open>The row the levels of a key live on stays when it is an ownership row or an eligible entry.\<close>

definition home_stays ::
    "'s framework_ops \<Rightarrow> keys \<Rightarrow> instrument_info option \<Rightarrow> string \<Rightarrow> string \<Rightarrow> 's runtime \<Rightarrow> bool" where
  "home_stays W K market side key R =
     (case find (holds_key K key) (so_live (rows_of W) (rt_store R)) of
        None \<Rightarrow> False
      | Some row \<Rightarrow>
          or_state row = fk_own_state K \<or>
          (own_row (fk_base K) row \<and> or_side row = side \<and> bare_home_eligible W K market key R row))"

definition home_trading_stop ::
    "'s framework_ops \<Rightarrow> keys \<Rightarrow> instrument_info option \<Rightarrow> string \<Rightarrow> int \<Rightarrow> 's runtime \<Rightarrow> 's runtime" where
  "home_trading_stop W K market key idx R =
     (if \<not> rt_has_store R \<or> \<not> fo_known W key (rt_store R) then R
      else
        (case run_side_on_leg W (fk_base K) market R idx of
           None \<Rightarrow> R
         | Some side \<Rightarrow>
             if home_stays W K market side key R then R
             else
               (case bare_baseline_row_coid W K market side key R of
                  None \<Rightarrow> R
                | Some target \<Rightarrow>
                    on_store (\<lambda>s. case fo_expect W key no_levels (Some target) s of
                      (s1, write) \<Rightarrow> fo_settle W key None (Some no_levels) (Some write) s1) R)))"

definition forget_trading_stop_if_flat ::
    "'s framework_ops \<Rightarrow> keys \<Rightarrow> instrument_info option \<Rightarrow> string \<Rightarrow> 's runtime \<Rightarrow> 's runtime" where
  "forget_trading_stop_if_flat W K market side R =
     (if \<not> rt_has_store R \<or> (side \<noteq> ''buy'' \<and> side \<noteq> ''sell'') then R
      else
        let entry_side = opposite side;
            idx = (if hedge (rt_positions R)
                   then (if entry_side = ''buy'' then HEDGE_IDX_BUY else HEDGE_IDX_SELL) else ONE_WAY_IDX);
            key = trading_stop_key idx
        in if \<not> fo_known W key (rt_store R) then R
           else
             (case trading_stop_side W K market key idx R of
                (R1, stop_side) \<Rightarrow>
                  if stop_side \<noteq> None \<and> stop_side \<noteq> Some entry_side then R1
                  else if list_ex (\<lambda>r. owning (fk_base K) entry_side r \<and> or_filled r > FILL_EPS)
                            (so_live (rows_of W) (rt_store R1))
                  then home_trading_stop W K market key idx R1
                  else forget_protection W key R1))"

definition guard_cleared_trading_stop ::
    "'s framework_ops \<Rightarrow> keys \<Rightarrow> instrument_info option \<Rightarrow> string \<Rightarrow> int \<Rightarrow> 's runtime \<Rightarrow> 's runtime" where
  "guard_cleared_trading_stop W K market key idx R =
     (case run_side_on_leg W (fk_base K) market R idx of
        None \<Rightarrow> forget_protection W key R
      | Some side \<Rightarrow>
          (on_store (\<lambda>s. case fo_expect W key no_levels (bare_baseline_row_coid W K market side key R) s of
             (s1, write) \<Rightarrow> fo_settle W key (Some no_levels) None (Some write) s1) R)
          \<lparr>rt_sides := AList.update key side (rt_sides R)\<rparr>)"

section \<open>An order's levels and quantity\<close>

definition UNFILLED_ORDER_STATUSES :: "string list" where "UNFILLED_ORDER_STATUSES = [''New'', ''Untriggered'']"
definition FIRED_ORDER_STATUSES :: "string list" where
  "FIRED_ORDER_STATUSES = [''Triggered'', ''PartiallyFilled'', ''Filled'']"

definition exit_leg_levels :: "leg_type \<Rightarrow> rat \<Rightarrow> levels" where
  "exit_leg_levels leg price =
     (if leg = TAKE_PROFIT then no_levels\<lparr>lv_limit := Some price\<rparr> else no_levels\<lparr>lv_stop := Some price\<rparr>)"

text \<open>A price the view does not show or that cannot be read gives no levels.\<close>

definition shown_price :: "jdict \<Rightarrow> string \<Rightarrow> rat option" where
  "shown_price entry field = (case venue_level (jget entry field) of Inr p \<Rightarrow> p | Inl e \<Rightarrow> None)"

definition order_view_levels ::
    "'s framework_ops \<Rightarrow> jdict \<Rightarrow> string \<Rightarrow> leg_type \<Rightarrow> string \<Rightarrow> 's runtime \<Rightarrow> levels option" where
  "order_view_levels W entry coid leg status R =
     (if leg = ENTRY
      then
        (let order_type = (if \<not> rt_has_store R then []
                           else case fo_get W coid (rt_store R) of
                                  None \<Rightarrow> [] | Some (row, is_closed) \<Rightarrow> jstr (extras_of row) ''order_type'')
         in if order_type = ''stop''
            then (if status \<noteq> ''Untriggered'' then None
                  else map_option (\<lambda>p. no_levels\<lparr>lv_stop := Some p\<rparr>) (shown_price entry ''triggerPrice''))
            else map_option (\<lambda>p. no_levels\<lparr>lv_limit := Some p\<rparr>) (shown_price entry ''price''))
      else map_option (exit_leg_levels leg)
             (shown_price entry (if leg = TAKE_PROFIT then ''price'' else ''triggerPrice'')))"

definition protected_position :: "string \<Rightarrow> 's runtime \<Rightarrow> rat option" where
  "protected_position exit_side R =
     (if exit_side \<noteq> ''buy'' \<and> exit_side \<noteq> ''sell'' then None
      else
        (case ps_ledgers (rt_positions R) (closed_leg exit_side (rt_positions R)) of
           None \<Rightarrow> None
         | Some L \<Rightarrow>
             map_option (\<lambda>sz. max (if \<not> hedge (rt_positions R) \<and> exit_side = ''buy'' then - sz else sz) 0)
               (latest_size L)))"

definition log_order_qty_cut ::
    "jdict \<Rightarrow> string \<Rightarrow> leg_type \<Rightarrow> rat \<Rightarrow> rat \<Rightarrow> instrument_info \<Rightarrow> 's runtime \<Rightarrow> 's runtime" where
  "log_order_qty_cut entry coid leg venue expected market R =
     (let tolerance = qty_tolerance market;
          again = (case map_of (rt_cut_logged R) coid of None \<Rightarrow> False | Some q \<Rightarrow> \<bar>q - venue\<bar> \<le> tolerance)
      in if again then R
         else
           let R1 = R\<lparr>rt_cut_logged := AList.update coid venue (rt_cut_logged R)\<rparr>;
               position = (if leg = TAKE_PROFIT \<or> leg = STOP_LOSS
                           then protected_position (lower (jstr entry ''side'')) R else None);
               covered = (case position of None \<Rightarrow> False | Some p \<Rightarrow> venue \<ge> min p expected - tolerance)
           in if covered then R1 else audit_event ''order_qty_cut_unattributed'' coid venue R1)"

fun list_max :: "rat list \<Rightarrow> rat" where
  "list_max [] = 0"
| "list_max [x] = x"
| "list_max (x # xs) = max x (list_max xs)"

definition resting_spot_leg :: "instrument_info \<Rightarrow> jdict \<Rightarrow> bool" where
  "resting_spot_leg market entry \<longleftrightarrow>
     in_category market = CATEGORY_SPOT \<and>
     (jstr entry ''orderStatus'' = ''Untriggered'' \<or> jstr entry ''orderType'' = ''Limit'')"

text \<open>The count a polled mismatch has reached with this observation\<close>

definition mismatch_count :: "string \<Rightarrow> rat \<Rightarrow> rat \<Rightarrow> 's runtime \<Rightarrow> nat" where
  "mismatch_count coid venue tolerance R =
     (case map_of (rt_mismatches R) coid of
        Some (q, n) \<Rightarrow> if \<bar>q - venue\<bar> \<le> tolerance then n + 1 else 1
      | None \<Rightarrow> 1)"

definition judge_changed_qty ::
    "jdict \<Rightarrow> string \<Rightarrow> leg_type \<Rightarrow> instrument_info \<Rightarrow> rat \<Rightarrow> rat list \<Rightarrow> bool \<Rightarrow> 's runtime \<Rightarrow> 's runtime" where
  "judge_changed_qty entry coid leg market venue own cut_down R =
     (let R1 = R\<lparr>rt_mismatches := AList.delete coid (rt_mismatches R)\<rparr> in
      if cut_down then log_order_qty_cut entry coid leg venue (list_max own) market R1
      else report (QtyEdit coid (list_max own) venue) (R1\<lparr>rt_qty_reported := List.insert coid (rt_qty_reported R)\<rparr>))"

definition judge_order_qty ::
    "'s framework_ops \<Rightarrow> jdict \<Rightarrow> string \<Rightarrow> leg_type \<Rightarrow> instrument_info \<Rightarrow> rat option \<Rightarrow> 's runtime \<Rightarrow> 's runtime" where
  "judge_order_qty W entry coid leg market read_started R =
     (if coid \<in> set (rt_qty_reported R) \<or> \<not> view_postdates_own_writes coid read_started R then R
      else
        (case venue_qty (jget entry ''qty'') of
           None \<Rightarrow> R
         | Some venue \<Rightarrow>
             if coid \<in> set (rt_rebaseline_pending R)
             then
               let sent = (case map_of (rt_order_qtys R) coid of None \<Rightarrow> [] | Some qs \<Rightarrow> qs)
               in write_own_order_qtys W coid (\<lambda>saved. venue # sent)
                    (R\<lparr>rt_rebaseline_pending := removeAll coid (rt_rebaseline_pending R),
                       rt_rebaselined := List.insert coid (rt_rebaselined R),
                       rt_mismatches := AList.delete coid (rt_mismatches R)\<rparr>)
             else
               let own = own_order_qty_candidates W coid R;
                   tolerance = qty_tolerance market;
                   changed = list_all (\<lambda>q. \<bar>venue - q\<bar> > tolerance) own;
                   cut_down = (changed \<and> \<not> resting_spot_leg market entry \<and> venue \<le> list_max own + tolerance)
               in if own = [] then R
                  else if \<not> changed then R\<lparr>rt_mismatches := AList.delete coid (rt_mismatches R)\<rparr>
                  else if cut_down \<and> read_started = None then R
                  else if read_started = None then judge_changed_qty entry coid leg market venue own cut_down R
                  else
                    let n = mismatch_count coid venue tolerance R;
                        R1 = R\<lparr>rt_mismatches := AList.update coid (venue, n) (rt_mismatches R)\<rparr>
                    in if n < 2 then R1 else judge_changed_qty entry coid leg market venue own cut_down R1))"

definition judge_order_levels ::
    "'s framework_ops \<Rightarrow> keys \<Rightarrow> jdict \<Rightarrow> string \<Rightarrow> leg_type \<Rightarrow> instrument_info \<Rightarrow> rat option \<Rightarrow> 's runtime \<Rightarrow>
     's runtime" where
  "judge_order_levels W K entry coid leg market read_started R =
     (let status = jstr entry ''orderStatus'';
          R1 = (if coid \<notin> set (rt_rebaselined R) \<and> protection_rebaseline_flagged W K coid R
                then R\<lparr>rt_rebaseline_pending := List.insert coid (rt_rebaseline_pending R)\<rparr> else R);
          (R2, reported) =
            (case order_view_levels W entry coid leg status R1 of
               None \<Rightarrow> (R1, False)
             | Some lv \<Rightarrow>
                 (case fo_observe W coid lv (in_tick_size market) read_started (read_started = None) (rt_store R1) of
                    (s, b) \<Rightarrow> (R1\<lparr>rt_store := s\<rparr>, b)))
      in if reported \<or> status \<notin> set UNFILLED_ORDER_STATUSES then R2
         else judge_order_qty W entry coid leg market read_started R2)"

text \<open>The pushes and the snapshot; \<open>row_open\<close>: without a store every order counts as open.\<close>

definition row_open :: "'s framework_ops \<Rightarrow> string \<Rightarrow> 's runtime \<Rightarrow> bool" where
  "row_open W coid R \<longleftrightarrow>
     \<not> rt_has_store R \<or> (case fo_get W coid (rt_store R) of Some (row, is_closed) \<Rightarrow> \<not> is_closed | None \<Rightarrow> False)"

definition observe_exit_leg_push ::
    "'s framework_ops \<Rightarrow> keys \<Rightarrow> jdict \<Rightarrow> string \<Rightarrow> leg_type \<Rightarrow> instrument_info \<Rightarrow> 's runtime \<Rightarrow> 's runtime" where
  "observe_exit_leg_push W K entry coid leg market R =
     (if coid = [] \<or> (leg \<noteq> TAKE_PROFIT \<and> leg \<noteq> STOP_LOSS) \<or> \<not> fo_known W coid (rt_store R) then R
      else if \<not> row_open W coid R then forget_protection W coid R
      else judge_order_levels W K entry coid leg market None R)"

definition observe_entry_push ::
    "'s framework_ops \<Rightarrow> keys \<Rightarrow> jdict \<Rightarrow> string \<Rightarrow> instrument_info \<Rightarrow> 's runtime \<Rightarrow> 's runtime" where
  "observe_entry_push W K entry coid market R =
     (if coid = [] \<or> \<not> fo_known W coid (rt_store R) then R
      else if \<not> row_open W coid R then forget_protection W coid R
      else judge_order_levels W K entry coid ENTRY market None R)"

section \<open>A foreign partial TP/SL order\<close>

definition PARTIAL_TPSL_STOP_TYPES :: "string list" where
  "PARTIAL_TPSL_STOP_TYPES = [''PartialTakeProfit'', ''PartialStopLoss'']"
definition FILL_REPORT_GRACE_S :: rat where "FILL_REPORT_GRACE_S = 90"

type_synonym tpsl_terms = "rat option \<times> rat option"

definition tpsl_order_terms :: "jdict \<Rightarrow> tpsl_terms" where
  "tpsl_order_terms entry = (venue_qty (jget entry ''qty''), shown_price entry ''triggerPrice'')"

definition beyond_half_tick :: "instrument_info \<Rightarrow> rat \<Rightarrow> bool" where
  "beyond_half_tick market d \<longleftrightarrow>
     (case in_tick_size market of Fin t \<Rightarrow> \<bar>d\<bar> > t / 2 | NegInf \<Rightarrow> True | _ \<Rightarrow> False)"

definition tpsl_order_amended :: "tpsl_terms option \<Rightarrow> jdict \<Rightarrow> instrument_info \<Rightarrow> bool" where
  "tpsl_order_amended terms entry market =
     (case terms of
        None \<Rightarrow> False
      | Some (q, trigger) \<Rightarrow>
          (case tpsl_order_terms entry of
             (new_qty, new_trigger) \<Rightarrow>
               (case new_trigger of
                  None \<Rightarrow> False
                | Some t \<Rightarrow> (case trigger of None \<Rightarrow> True | Some t0 \<Rightarrow> beyond_half_tick market (t - t0))) \<or>
               (case new_qty of
                  None \<Rightarrow> False
                | Some n \<Rightarrow> (case q of None \<Rightarrow> True | Some q0 \<Rightarrow> n > q0 + qty_tolerance market))))"

text \<open>The verdicts the audit log of the run holds, read at the first use.\<close>

fun restore_judged :: "(string \<times> jdict) list \<Rightarrow> (string \<times> tpsl_terms option) list \<Rightarrow> (string \<times> tpsl_terms option) list" where
  "restore_judged [] J = J"
| "restore_judged ((order_id, payload) # events) J =
     restore_judged events
       (if order_id = [] \<or> map_of J order_id = Some None then J
        else if jget payload ''verdict'' = PStr ''reported'' then AList.update order_id None J
        else AList.update order_id
               (Some (tpsl_order_terms [(''qty'', jget payload ''qty''), (''triggerPrice'', jget payload ''trigger_price'')])) J)"

text \<open>The foreign exposure beside the run's share, and the share in doubt.\<close>

definition tpsl_order_evidence :: "int \<Rightarrow> string \<Rightarrow> rat \<Rightarrow> rat \<Rightarrow> 's runtime \<Rightarrow> (rat \<times> rat) option" where
  "tpsl_order_evidence idx held first_seen now R =
     (if rt_stream_opened_ms R \<noteq> None \<or> now - first_seen < FILL_REPORT_GRACE_S then None
      else
        (case (map_of (rt_view_at R) idx, ps_ledgers (rt_positions R) idx) of
           (Some view_at, Some L) \<Rightarrow>
             (case ll_cursor_seq L of
                None \<Rightarrow> None
              | Some cursor \<Rightarrow>
                  if view_at \<le> first_seen \<or> is_open L \<or> list_ex (\<lambda>p. le_seq (snd p) > cursor) (ll_events L) then None
                  else
                    let d = (if hedge (rt_positions R) \<or> held = ''buy'' then 1 else - 1);
                        leg = max (ll_cursor_leg L * d) 0;
                        share = max (ll_share L * d) 0
                    in Some (max 0 (leg - share), ll_doubt L))
         | _ \<Rightarrow> None))"

datatype tpsl_verdict = Waiting_Evidence | Unproven | Preexisting | Foreign_Only | Reported

text \<open>The verdict from the terms of the order, its creation and what is known of the share's start.\<close>

definition tpsl_verdict ::
    "int \<Rightarrow> string \<Rightarrow> rat option \<Rightarrow> int option \<Rightarrow> instrument_info \<Rightarrow> rat \<Rightarrow> rat \<Rightarrow> 's runtime \<Rightarrow> tpsl_verdict" where
  "tpsl_verdict idx held q created market first_seen now R =
     (let start = map_of (rt_share_start R) idx;
          since = (if start = None then map_of (rt_held_since R) idx else None);
          tolerance = qty_tolerance market
      in case (q, created) of
           (Some n, Some c) \<Rightarrow>
             if start = None \<and> since = None then Unproven
             else if (case start of Some st \<Rightarrow> c < snd st | None \<Rightarrow> False) then Preexisting
             else if (case since of Some ms \<Rightarrow> c < ms | None \<Rightarrow> False) then Unproven
             else
               (case tpsl_order_evidence idx held first_seen now R of
                  None \<Rightarrow> if now - first_seen < FOREIGN_TPSL_VERDICT_CEILING_S then Waiting_Evidence else Unproven
                | Some (room, doubt) \<Rightarrow>
                    if n \<le> room + tolerance then Foreign_Only
                    else if n > room + doubt + tolerance then Reported else Unproven)
         | _ \<Rightarrow> Unproven)"

definition judged_as :: "tpsl_verdict \<Rightarrow> string \<Rightarrow> tpsl_terms \<Rightarrow> 's runtime \<Rightarrow> 's runtime" where
  "judged_as v order_id terms R =
     (let R1 = R\<lparr>rt_pending_tpsl := AList.delete order_id (rt_pending_tpsl R),
                 rt_judged := AList.update order_id (if v = Reported then None else Some terms) (rt_judged R)\<rparr>;
          R2 = audit_event ''foreign_tpsl_order_judged'' order_id (case fst terms of None \<Rightarrow> 0 | Some q \<Rightarrow> q) R1
      in if v = Reported then report (TpslOrder order_id) R2 else R2)"

definition judge_tpsl_order ::
    "'s framework_ops \<Rightarrow> keys \<Rightarrow> instrument_info \<Rightarrow> rat \<Rightarrow> string \<Rightarrow> 's runtime \<Rightarrow> 's runtime" where
  "judge_tpsl_order W K market now order_id R =
     (case map_of (rt_pending_tpsl R) order_id of
        None \<Rightarrow> R
      | Some (entry, first_seen) \<Rightarrow>
          (let side = lower (jstr entry ''side'');
               idx = closed_leg side (rt_positions R);
               gone = R\<lparr>rt_pending_tpsl := AList.delete order_id (rt_pending_tpsl R)\<rparr>
           in case run_side_on_leg W (fk_base K) (Some market) R idx of
                None \<Rightarrow> gone
              | Some held \<Rightarrow>
                  if held = side \<or> \<not> rt_has_store R then gone
                  else
                    let terms = tpsl_order_terms entry;
                        created = parse_ms (jget entry
                          (if map_of (rt_judged R) order_id \<noteq> None then ''updatedTime'' else ''createdTime''));
                        v = tpsl_verdict idx held (fst terms) created market first_seen now R
                    in if v = Waiting_Evidence then R else judged_as v order_id terms R))"

fun judge_tpsl_orders ::
    "'s framework_ops \<Rightarrow> keys \<Rightarrow> instrument_info \<Rightarrow> rat \<Rightarrow> string list \<Rightarrow> 's runtime \<Rightarrow> 's runtime" where
  "judge_tpsl_orders W K market now [] R = R"
| "judge_tpsl_orders W K market now (order_id # ids) R =
     judge_tpsl_orders W K market now ids (judge_tpsl_order W K market now order_id R)"

definition judge_pending_tpsl_orders ::
    "'s framework_ops \<Rightarrow> keys \<Rightarrow> instrument_info \<Rightarrow> rat \<Rightarrow> 's runtime \<Rightarrow> 's runtime" where
  "judge_pending_tpsl_orders W K market now R =
     judge_tpsl_orders W K market now (map fst (rt_pending_tpsl R)) R"

definition withdraw_pending_tpsl_order :: "string \<Rightarrow> string option \<Rightarrow> 's runtime \<Rightarrow> 's runtime" where
  "withdraw_pending_tpsl_order order_id status R =
     (case map_of (rt_pending_tpsl R) order_id of
        None \<Rightarrow> R
      | Some (entry, first_seen) \<Rightarrow>
          (let R1 = R\<lparr>rt_pending_tpsl := AList.delete order_id (rt_pending_tpsl R)\<rparr> in
           if (case status of None \<Rightarrow> False | Some s \<Rightarrow> s \<in> set FIRED_ORDER_STATUSES) then R1
           else
             let terms = tpsl_order_terms entry
             in audit_event ''foreign_tpsl_order_judged'' order_id (case fst terms of None \<Rightarrow> 0 | Some q \<Rightarrow> q)
                  (R1\<lparr>rt_judged := AList.update order_id (Some terms) (rt_judged R)\<rparr>)))"

definition observe_foreign_tpsl_order ::
    "'s framework_ops \<Rightarrow> keys \<Rightarrow> instrument_info \<Rightarrow> rat \<Rightarrow> jdict \<Rightarrow> 's runtime \<Rightarrow> 's runtime" where
  "observe_foreign_tpsl_order W K market now entry R =
     (let order_id = jstr entry ''orderId'';
          status = jstr entry ''orderStatus'';
          side = lower (jstr entry ''side'')
      in if in_category market = CATEGORY_SPOT \<or> \<not> rt_has_store R \<or> \<not> rt_baselined R then R
         else if jstr_or entry ''symbol'' (in_symbol market) \<noteq> in_symbol market then R
         else if jstr entry ''stopOrderType'' \<notin> set PARTIAL_TPSL_STOP_TYPES then R
         else if order_id = [] then R
         else if status \<notin> set UNFILLED_ORDER_STATUSES then withdraw_pending_tpsl_order order_id (Some status) R
         else if side \<noteq> ''buy'' \<and> side \<noteq> ''sell'' then R
         else if (case map_of (rt_judged R) order_id of
                    None \<Rightarrow> False | Some terms \<Rightarrow> \<not> tpsl_order_amended terms entry market) then R
         else
           let first_seen = (case map_of (rt_pending_tpsl R) order_id of None \<Rightarrow> now | Some p \<Rightarrow> snd p)
           in judge_tpsl_order W K market now order_id
                (R\<lparr>rt_pending_tpsl := AList.update order_id (entry, first_seen) (rt_pending_tpsl R)\<rparr>))"

section \<open>The open-orders snapshot\<close>

fun withdraw_unshown :: "string list \<Rightarrow> rat \<Rightarrow> (string \<times> (jdict \<times> rat)) list \<Rightarrow> 's runtime \<Rightarrow> 's runtime" where
  "withdraw_unshown shown read_at [] R = R"
| "withdraw_unshown shown read_at ((order_id, entry, first_seen) # ps) R =
     withdraw_unshown shown read_at ps
       (if order_id \<notin> set shown \<and> read_at \<ge> first_seen then withdraw_pending_tpsl_order order_id None R else R)"

definition observe_shown_order ::
    "'s framework_ops \<Rightarrow> keys \<Rightarrow> instrument_info \<Rightarrow> rat \<Rightarrow> rat \<Rightarrow> jdict \<Rightarrow> 's runtime \<Rightarrow> 's runtime" where
  "observe_shown_order W K market now read_at entry R =
     (let coid = jstr entry ''orderLinkId'' in
      if coid = [] then observe_foreign_tpsl_order W K market now entry R
      else if \<not> fo_known W coid (rt_store R) \<or> \<not> row_open W coid R then R
      else
        (case resolve_identity W (Some coid) (Some (jstr entry ''orderId'')) R of
           Some (pine_id, from_entry, leg) \<Rightarrow>
             if leg = CLOSE then R else judge_order_levels W K entry coid leg market (Some read_at) R
         | None \<Rightarrow> R))"

fun observe_shown_orders ::
    "'s framework_ops \<Rightarrow> keys \<Rightarrow> instrument_info \<Rightarrow> rat \<Rightarrow> rat \<Rightarrow> jdict list \<Rightarrow> 's runtime \<Rightarrow> 's runtime" where
  "observe_shown_orders W K market now read_at [] R = R"
| "observe_shown_orders W K market now read_at (entry # orders) R =
     observe_shown_orders W K market now read_at orders (observe_shown_order W K market now read_at entry R)"

definition observe_open_order_levels ::
    "'s framework_ops \<Rightarrow> keys \<Rightarrow> instrument_info \<Rightarrow> rat \<Rightarrow> rat \<Rightarrow> jdict list \<Rightarrow> 's runtime \<Rightarrow> 's runtime" where
  "observe_open_order_levels W K market now read_at orders R =
     observe_shown_orders W K market now read_at orders
       (withdraw_unshown (map (\<lambda>d. jstr d ''orderId'') orders) read_at (rt_pending_tpsl R) R)"

section \<open>The trading stop a position row shows\<close>

definition trading_stop_levels :: "rat option \<Rightarrow> rat option \<Rightarrow> rat option \<Rightarrow> levels" where
  "trading_stop_levels tp sl trail =
     \<lparr>lv_stop = sl, lv_limit = tp, lv_trailing = (trail \<noteq> None), lv_trail_distance = trail\<rparr>"

definition trading_stop_view :: "jdict \<Rightarrow> levels option" where
  "trading_stop_view row =
     (case (venue_level (jget row ''takeProfit''), venue_level (jget row ''stopLoss''),
            venue_level (jget row ''trailingStop'')) of
        (Inr tp, Inr sl, Inr trail) \<Rightarrow> Some (trading_stop_levels tp sl trail)
      | _ \<Rightarrow> None)"

text \<open>The audit event of a stop of unproven origin, which the run reads back later.\<close>

definition note_unproven_stop :: "int \<Rightarrow> jdict \<Rightarrow> 's runtime \<Rightarrow> 's runtime" where
  "note_unproven_stop idx row R =
     (if rt_has_store R
      then R\<lparr>rt_unproven_stops := rt_unproven_stops R @ [(idx, parse_seq (jget row ''seq''))]\<rparr> else R)"

definition predates_share :: "int \<Rightarrow> jdict \<Rightarrow> 's runtime \<Rightarrow> bool" where
  "predates_share idx row R =
     (case (map_of (rt_share_start R) idx, parse_seq (jget row ''seq'')) of
        (Some st, Some seq) \<Rightarrow> seq < fst st
      | _ \<Rightarrow> False)"

definition baseline_bare_trading_stop ::
    "'s framework_ops \<Rightarrow> keys \<Rightarrow> instrument_info option \<Rightarrow> int \<Rightarrow> string \<Rightarrow> jdict \<Rightarrow> 's runtime \<Rightarrow> 's runtime" where
  "baseline_bare_trading_stop W K market idx key row R =
     (let side = lower (jstr row ''side'') in
      if \<not> rt_baselined R then R
      else if (side \<noteq> ''buy'' \<and> side \<noteq> ''sell'') \<or> run_side_on_leg W (fk_base K) market R idx \<noteq> Some side then R
      else if map_of (rt_share_start R) idx \<noteq> None \<and>
              (parse_seq (jget row ''seq'') = None \<or> predates_share idx row R) then R
      else
        (case trading_stop_view row of
           None \<Rightarrow> R
         | Some venue \<Rightarrow>
             let R1 = (if venue \<noteq> no_levels then note_unproven_stop idx row R else R)
             in (on_store (fo_adopt W key venue (bare_baseline_row_coid W K market side key R1)) R1)
                  \<lparr>rt_sides := AList.update key side (rt_sides R1)\<rparr>))"

definition precede_own_trading_stop ::
    "'s framework_ops \<Rightarrow> instrument_info \<Rightarrow> int \<Rightarrow> string \<Rightarrow> levels \<Rightarrow> jdict \<Rightarrow> 's runtime \<Rightarrow> 's runtime" where
  "precede_own_trading_stop W market idx key venue row R =
     (case fo_precede W key venue (in_tick_size market) (rt_store R) of
        (s, taken) \<Rightarrow>
          (let R1 = R\<lparr>rt_store := s\<rparr> in
           if \<not> taken \<or> venue = no_levels then R1 else note_unproven_stop idx row R1))"

definition note_leg_view :: "int \<Rightarrow> jdict \<Rightarrow> rat \<Rightarrow> rat option \<Rightarrow> 's runtime \<Rightarrow> 's runtime" where
  "note_leg_view idx row now read_at R =
     (case (parse_seq (jget row ''seq''), ps_ledgers (rt_positions R) idx) of
        (Some seq, Some L) \<Rightarrow>
          if ll_latest_view_seq L \<noteq> seq then R
          else R\<lparr>rt_view_at := AList.update idx (case read_at of Some t \<Rightarrow> t | None \<Rightarrow> now) (rt_view_at R)\<rparr>
      | _ \<Rightarrow> R)"

text \<open>A row that judges: the key is guarded and the position is open on the protected side.\<close>

definition judge_trading_stop ::
    "'s framework_ops \<Rightarrow> keys \<Rightarrow> instrument_info \<Rightarrow> rat option \<Rightarrow> int \<Rightarrow> string \<Rightarrow> bool \<Rightarrow> jdict \<Rightarrow> 's runtime \<Rightarrow>
     's runtime" where
  "judge_trading_stop W K market read_at idx key first_view row R =
     home_trading_stop W K (Some market) key idx
       (case trading_stop_view row of
          None \<Rightarrow> R
        | Some venue \<Rightarrow>
            (let R1 = (if first_view then precede_own_trading_stop W market idx key venue row R else R)
             in R1\<lparr>rt_store := fst (fo_observe W key venue (in_tick_size market) read_at False (rt_store R1))\<rparr>))"

definition observe_current_row ::
    "'s framework_ops \<Rightarrow> keys \<Rightarrow> instrument_info \<Rightarrow> rat option \<Rightarrow> int \<Rightarrow> rat \<Rightarrow> bool \<Rightarrow> jdict \<Rightarrow> 's runtime \<Rightarrow>
     's runtime" where
  "observe_current_row W K market read_at idx sz first_view row R =
     (let key = trading_stop_key idx;
          bare = (\<lambda>X. if sz > 0 then baseline_bare_trading_stop W K (Some market) idx key row X else X)
      in if \<not> fo_known W key (rt_store R) then bare R
         else if sz \<le> 0
         then (if view_postdates_own_writes key read_at R then forget_protection W key R else R)
         else
           (case trading_stop_side W K (Some market) key idx R of
              (R1, None) \<Rightarrow> R1
            | (R1, Some side) \<Rightarrow>
                if lower (jstr row ''side'') = side then judge_trading_stop W K market read_at idx key first_view row R1
                else if \<not> view_postdates_own_writes key read_at R1 then R1
                else bare (forget_protection W key R1)))"

definition observe_position_row ::
    "'s framework_ops \<Rightarrow> keys \<Rightarrow> instrument_info \<Rightarrow> rat \<Rightarrow> rat option \<Rightarrow> jdict \<Rightarrow> 's runtime \<Rightarrow> 's runtime" where
  "observe_position_row W K market now read_at row R =
     (if jstr row ''symbol'' \<noteq> in_symbol market then R
      else
        (case (quiet (position_row_index row), quiet (position_row_size row)) of
           (Some idx, Some sz) \<Rightarrow>
             if position_view_superseded (rt_positions R) idx row then R
             else
               let R1 = note_leg_view idx row now read_at (R\<lparr>rt_last_view := AList.update idx row (rt_last_view R)\<rparr>)
               in if predates_share idx row R1 then R1
                  else observe_current_row W K market read_at idx sz (idx \<in> set (rt_unviewed R1)) row
                         (R1\<lparr>rt_unviewed := removeAll idx (rt_unviewed R1)\<rparr>)
         | _ \<Rightarrow> R))"

fun observe_rows ::
    "'s framework_ops \<Rightarrow> keys \<Rightarrow> instrument_info \<Rightarrow> rat \<Rightarrow> rat option \<Rightarrow> jdict list \<Rightarrow> 's runtime \<Rightarrow> 's runtime" where
  "observe_rows W K market now read_at [] R = R"
| "observe_rows W K market now read_at (row # rows) R =
     observe_rows W K market now read_at rows (observe_position_row W K market now read_at row R)"

definition observe_position_rows ::
    "'s framework_ops \<Rightarrow> keys \<Rightarrow> instrument_info \<Rightarrow> rat \<Rightarrow> rat option \<Rightarrow> jdict list \<Rightarrow> 's runtime \<Rightarrow> 's runtime" where
  "observe_position_rows W K market now read_at rows R =
     (if in_category market = CATEGORY_SPOT then R
      else judge_pending_tpsl_orders W K market now (observe_rows W K market now read_at rows R))"

section \<open>When the run's share of a leg starts\<close>

definition baseline_from_last_view ::
    "'s framework_ops \<Rightarrow> keys \<Rightarrow> instrument_info option \<Rightarrow> int \<Rightarrow> 's runtime \<Rightarrow> 's runtime" where
  "baseline_from_last_view W K market idx R =
     (case map_of (rt_last_view R) idx of
        None \<Rightarrow> R
      | Some row \<Rightarrow>
          if fo_known W (trading_stop_key idx) (rt_store R) then R
          else (case quiet (position_row_size row) of
                  None \<Rightarrow> R
                | Some sz \<Rightarrow> if sz > 0 then baseline_bare_trading_stop W K market idx (trading_stop_key idx) row R
                            else R))"

definition share_side :: "rat \<Rightarrow> rat \<Rightarrow> rat" where
  "share_side tolerance share = (if \<bar>share\<bar> \<le> tolerance then 0 else sgn share)"

fun note_share_start ::
    "'s framework_ops \<Rightarrow> keys \<Rightarrow> instrument_info \<Rightarrow> jdict \<Rightarrow> (int \<Rightarrow> rat) \<Rightarrow> (int \<Rightarrow> rat) \<Rightarrow> int list \<Rightarrow> 's runtime \<Rightarrow>
     's runtime" where
  "note_share_start W K market entry before after [] R = R"
| "note_share_start W K market entry before after (idx # legs) R =
     note_share_start W K market entry before after legs
       (let t = qty_tolerance market in
        if share_side t (after idx) = share_side t (before idx) then R
        else
          let R1 = R\<lparr>rt_held_since := AList.delete idx (rt_held_since R), rt_unviewed := removeAll idx (rt_unviewed R)\<rparr>
          in case (parse_seq (jget entry ''seq''), parse_ms (jget entry ''execTime'')) of
               (Some seq, Some ms) \<Rightarrow>
                 if share_side t (after idx) = 0
                 then R1\<lparr>rt_share_start := AList.delete idx (rt_share_start R1)\<rparr>
                 else
                   let R2 = baseline_from_last_view W K (Some market) idx
                              (R1\<lparr>rt_share_start := AList.update idx (seq, ms) (rt_share_start R1)\<rparr>)
                   in if fo_known W (trading_stop_key idx) (rt_store R2) then R2
                      else R2\<lparr>rt_unviewed := List.insert idx (rt_unviewed R2)\<rparr>
             | _ \<Rightarrow> R1\<lparr>rt_share_start := AList.delete idx (rt_share_start R1)\<rparr>)"

definition journal_legs :: "'s runtime \<Rightarrow> int list" where
  "journal_legs R =
     (if \<not> rt_has_store R then [] else if hedge (rt_positions R) then [HEDGE_IDX_BUY, HEDGE_IDX_SELL] else [ONE_WAY_IDX])"

fun note_held_legs ::
    "'s framework_ops \<Rightarrow> framework \<Rightarrow> instrument_info \<Rightarrow> int \<Rightarrow> int list \<Rightarrow> 's runtime \<Rightarrow> 's runtime" where
  "note_held_legs W F market since_ms [] R = R"
| "note_held_legs W F market since_ms (idx # legs) R =
     note_held_legs W F market since_ms legs
       (if map_of (rt_share_start R) idx = None \<and> run_side_on_leg W F (Some market) R idx \<noteq> None
        then R\<lparr>rt_held_since := AList.update idx since_ms (rt_held_since R)\<rparr> else R)"

definition note_share_held_since ::
    "'s framework_ops \<Rightarrow> framework \<Rightarrow> instrument_info \<Rightarrow> int \<Rightarrow> 's runtime \<Rightarrow> 's runtime" where
  "note_share_held_since W F market since_ms R =
     (if in_category market = CATEGORY_SPOT then R else note_held_legs W F market since_ms (journal_legs R) R)"

text \<open>The snapshot an operator resume asks for\<close>

definition resume_flagged :: "'s framework_ops \<Rightarrow> keys \<Rightarrow> 's runtime \<Rightarrow> bool" where
  "resume_flagged W K R =
     list_ex (\<lambda>r. case saved_levels K r of None \<Rightarrow> False | Some d \<Rightarrow> truthy (jget d ''rebaseline''))
       (so_live (rows_of W) (rt_store R))"

definition observe_resume_baseline ::
    "'s framework_ops \<Rightarrow> keys \<Rightarrow> instrument_info \<Rightarrow> rat \<Rightarrow> rat \<Rightarrow> (raised + (jdict list \<times> bool)) \<Rightarrow> raised + jdict \<Rightarrow>
     's runtime \<Rightarrow> 's runtime \<times> (raised + unit)" where
  "observe_resume_baseline W K market now read_at orders_read reply R =
     (if \<not> rt_has_store R \<or> \<not> resume_flagged W K R then (R, Inr ())
      else
        (case orders_read of
           Inl (Bybit e) \<Rightarrow> (R, Inr ())
         | Inl e \<Rightarrow> (R, Inl e)
         | Inr (orders, conclusive) \<Rightarrow>
             (let R1 = (if conclusive then observe_open_order_levels W K market now read_at orders R else R) in
              if in_category market = CATEGORY_SPOT then (R1, Inr ())
              else
                (case fetch_position_rows reply of
                   Inl (Bybit e) \<Rightarrow> (R1, Inr ())
                 | Inl e \<Rightarrow> (R1, Inl e)
                 | Inr rows \<Rightarrow> (observe_position_rows W K market now (Some read_at) rows R1, Inr ())))))"

section \<open>What the guard leaves alone\<close>

text \<open>The guard's steps change no row but under the guard's key, and neither positions nor mirror.\<close>

definition guard_frame :: "'s framework_ops \<Rightarrow> keys \<Rightarrow> 's runtime \<Rightarrow> 's runtime \<Rightarrow> bool" where
  "guard_frame W K R R' \<longleftrightarrow>
     rows_alike (fk_levels_key K) (so_live (rows_of W) (rt_store R)) (so_live (rows_of W) (rt_store R')) \<and>
     rt_positions R' = rt_positions R \<and> rt_has_store R' = rt_has_store R \<and> rt_inverse R' = rt_inverse R \<and>
     rt_saved_credits R' = rt_saved_credits R \<and> rt_unbooked R' = rt_unbooked R \<and> rt_baselined R' = rt_baselined R \<and>
     rt_reports R' = rt_reports R \<and> rt_reported_closes R' = rt_reported_closes R \<and>
     rt_exec_ids R' = rt_exec_ids R \<and> rt_exec_seqs R' = rt_exec_seqs R \<and> rt_hold R' = rt_hold R"

lemma guard_frame_refl [simp]: "guard_frame W K R R"
  by (simp add: guard_frame_def)

lemma guard_frame_trans: "guard_frame W K R R1 \<Longrightarrow> guard_frame W K R1 R2 \<Longrightarrow> guard_frame W K R R2"
  unfolding guard_frame_def using rows_alike_trans by auto

lemma trading_stop_side_frame: "guard_frame W K R (fst (trading_stop_side W K market key idx R))"
  by (simp add: trading_stop_side_def guard_frame_def split: option.split)

context runtime_store
begin

lemma forget_frame: "guard_frame W K R (forget_protection W key R)"
  by (simp add: guard_frame_def forget_protection_def forget_alike)

lemma expect_settle_alike:
  "rows_alike (fk_levels_key K) (so_live (rows_of W) s)
     (so_live (rows_of W) (case fo_expect W k lv c s of (s1, write) \<Rightarrow> fo_settle W k lc lr (Some write) s1))"
  using rows_alike_trans [OF expect_alike settle_alike] by (simp add: case_prod_unfold)

lemma home_frame: "guard_frame W K R (home_trading_stop W K market key idx R)"
  by (simp add: home_trading_stop_def guard_frame_def on_store_def expect_settle_alike split: option.split)

lemma forget_flat_frame: "guard_frame W K R (forget_trading_stop_if_flat W K market side R)"
proof -
  let ?idx = "if hedge (rt_positions R) then (if opposite side = ''buy'' then HEDGE_IDX_BUY else HEDGE_IDX_SELL) else ONE_WAY_IDX"
  let ?key = "trading_stop_key ?idx"
  obtain R1 sd where r1: "trading_stop_side W K market ?key ?idx R = (R1, sd)" by fastforce
  have f1: "guard_frame W K R R1" using trading_stop_side_frame [of W K R market ?key ?idx] by (simp add: r1)
  have "forget_trading_stop_if_flat W K market side R \<in>
    {R, R1, home_trading_stop W K market ?key ?idx R1, forget_protection W ?key R1}"
    by (simp add: forget_trading_stop_if_flat_def Let_def r1)
  then show ?thesis using f1 guard_frame_trans [OF f1 home_frame] guard_frame_trans [OF f1 forget_frame] by auto
qed

text \<open>The run's share of a leg is what it was.\<close>

lemma adopted_alike:
  "row_alike (fk_levels_key K) r r' \<Longrightarrow>
     is_entry_row (fk_base K) r' = is_entry_row (fk_base K) r \<and>
     truthy (jget (extras_of r') (fc_adopted_key (fk_base K))) = truthy (jget (extras_of r) (fc_adopted_key (fk_base K))) \<and>
     or_filled r' = or_filled r \<and> or_side r' = or_side r \<and> or_qty r' = or_qty r"
  using own_keys by (auto simp: row_alike_def jget_def is_entry_row_def kind_in_def)

lemma same_share:
  assumes "guard_frame W K R R'"
  shows "journal_leg_share W (fk_base K) R' idx = journal_leg_share W (fk_base K) R idx"
proof -
  let ?live = "\<lambda>X. so_live (rows_of W) (rt_store X)"
  have al: "rows_alike (fk_levels_key K) (?live R) (?live R')" using assms by (simp add: guard_frame_def)
  have own: "map or_filled (filter (\<lambda>r. own_row (fk_base K) r \<and> P (or_side r)) (?live R')) =
    map or_filled (filter (\<lambda>r. own_row (fk_base K) r \<and> P (or_side r)) (?live R))" for P
    by (intro rows_alike_total [OF al]) (auto simp: own_row_def dest: adopted_alike)
  have "map owned_part (filter (\<lambda>r. is_entry_row (fk_base K) r \<and> \<not> truthy (jget (extras_of r) (fc_adopted_key (fk_base K)))) (?live R')) =
    map owned_part (filter (\<lambda>r. is_entry_row (fk_base K) r \<and> \<not> truthy (jget (extras_of r) (fc_adopted_key (fk_base K)))) (?live R))"
    by (intro rows_alike_total [OF al]) (auto simp: owned_part_def dest: adopted_alike)
  then show ?thesis
    using assms own [of "\<lambda>x. x = ''buy''"] own [of "\<lambda>x. x \<noteq> ''buy''"]
    by (simp add: journal_leg_share_def guard_frame_def owned_entry_rows_def run_owned_signed_size_def conj_commute)
qed

lemma alike_well_filled:
  "rows_alike (fk_levels_key K) rows rows' \<Longrightarrow> well_filled rows' = well_filled rows"
  unfolding rows_alike_def by (induction rule: list_all2_induct) (auto simp: well_filled_def row_alike_def)

end

end
