(* ===== verification/Ledger_Glue.thy ===== *)
theory Ledger_Glue
  imports Guard
begin

text \<open>
  The position ledgers in a running instance (\<^verbatim>\<open>src/src/pynecore_bybit/protection.py\<close>): executions are
  entered once, own and foreign ones, the ledgers judge whatever the views prove, the run's journal is
  netted down to what they leave of the share, and the verdicts are logged or reported. The texts of
  the log lines and the reason of an origin are left out.
\<close>

section \<open>Netting the journal\<close>

fun fifo_left :: "order_row list \<Rightarrow> rat \<Rightarrow> rat" where
  "fifo_left [] remaining = remaining"
| "fifo_left (row # rows) remaining =
     (if remaining \<le> FILL_EPS then remaining else fifo_left rows (remaining - min remaining (or_filled row)))"

definition side_rows :: "'s framework_ops \<Rightarrow> framework \<Rightarrow> string \<Rightarrow> 's runtime \<Rightarrow> order_row list" where
  "side_rows W F side R = sort_key or_created_ms (filter (\<lambda>r. or_side r = side) (owned_entry_rows W F R))"

definition net_side_share ::
    "'s framework_ops \<Rightarrow> keys \<Rightarrow> instrument_info \<Rightarrow> string \<Rightarrow> rat \<Rightarrow> bool \<Rightarrow> 's runtime \<Rightarrow> 's runtime" where
  "net_side_share W K market side quantity mirror R =
     (if \<not> rt_has_store R \<or> quantity \<le> 0 then R
      else
        let rows = side_rows W (fk_base K) side R;
            R1 = on_store (net_entry_rows_fifo (rows_of W) rows quantity) R;
            R2 = (if mirror
                  then R1\<lparr>rt_inverse := net_inverse_mirror (Some market) side
                         (quantity - max (fifo_left rows quantity) 0) (rt_inverse R1)\<rparr>
                  else R1)
        in forget_trading_stop_if_flat W K (Some market) (if side = ''buy'' then ''sell'' else ''buy'') R2)"

definition leg_ledger_of :: "int \<Rightarrow> 's runtime \<Rightarrow> leg_ledger" where
  "leg_ledger_of idx R = ledger_of idx (rt_positions R)"

definition set_ledger :: "int \<Rightarrow> leg_ledger \<Rightarrow> 's runtime \<Rightarrow> 's runtime" where
  "set_ledger idx L R =
     R\<lparr>rt_positions := (rt_positions R)\<lparr>ps_ledgers := (ps_ledgers (rt_positions R))(idx \<mapsto> L)\<rparr>\<rparr>"

definition taken_on :: "(rat \<Rightarrow> rat option) \<Rightarrow> rat \<Rightarrow> rat" where
  "taken_on m d = (case m d of None \<Rightarrow> 0 | Some q \<Rightarrow> q)"

text \<open>What the journal must hold: the ledger's share of it and the own executions beyond the cursor.\<close>

definition journal_target :: "leg_ledger \<Rightarrow> rat" where
  "journal_target L = ll_journal L + sum_list (map (\<lambda>p. if le_own (snd p) then le_share (snd p) else 0) (ll_events L))"

definition sync_hedge_leg ::
    "'s framework_ops \<Rightarrow> keys \<Rightarrow> instrument_info \<Rightarrow> int \<Rightarrow> rat \<Rightarrow> bool \<Rightarrow> 's runtime \<Rightarrow> 's runtime" where
  "sync_hedge_leg W K market idx target mirror R =
     (let journal = journal_leg_share W (fk_base K) R idx in
      if journal > target + qty_tolerance market
      then net_side_share W K market (if idx = HEDGE_IDX_BUY then ''buy'' else ''sell'') (journal - max target 0) mirror R
      else R)"

definition cut_taken ::
    "'s framework_ops \<Rightarrow> keys \<Rightarrow> instrument_info \<Rightarrow> string \<Rightarrow> rat \<Rightarrow> bool \<Rightarrow> 's runtime \<Rightarrow> 's runtime" where
  "cut_taken W K market side quantity mirror R =
     (if quantity > qty_tolerance market then net_side_share W K market side quantity mirror R else R)"

definition sync_one_way ::
    "'s framework_ops \<Rightarrow> keys \<Rightarrow> instrument_info \<Rightarrow> int \<Rightarrow> rat \<Rightarrow> (rat \<Rightarrow> rat option) \<Rightarrow> bool \<Rightarrow> 's runtime \<Rightarrow>
     's runtime" where
  "sync_one_way W K market idx target taken mirror R =
     (let held = \<lambda>X. journal_leg_share W (fk_base K) X idx;
          R1 = cut_taken W K market ''buy''
                 (min (taken_on taken 1) (max 0 (held R - target + taken_on taken (- 1)))) mirror R;
          R2 = cut_taken W K market ''sell'' (min (taken_on taken (- 1)) (max 0 (target - held R1))) mirror R1
      in if held R2 > max target 0 + qty_tolerance market
         then net_side_share W K market ''buy'' (held R2 - max target 0) mirror R2
         else if held R2 < min target 0 - qty_tolerance market
         then net_side_share W K market ''sell'' (min target 0 - held R2) mirror R2
         else R2)"

definition sync_leg_journal ::
    "'s framework_ops \<Rightarrow> keys \<Rightarrow> instrument_info \<Rightarrow> int \<Rightarrow> bool \<Rightarrow> 's runtime \<Rightarrow> 's runtime" where
  "sync_leg_journal W K market idx mirror R =
     (case take_to_net (leg_ledger_of idx R) of
        (L, taken) \<Rightarrow>
          (let R1 = set_ledger idx L R in
           if \<not> rt_has_store R then R1
           else if idx = HEDGE_IDX_BUY \<or> idx = HEDGE_IDX_SELL
           then sync_hedge_leg W K market idx (journal_target L) mirror R1
           else sync_one_way W K market idx (journal_target L) taken mirror R1))"

section \<open>Verdicts\<close>

definition entry_of :: "leg_event \<Rightarrow> jdict" where
  "entry_of e = (case le_entry e of Some (PDict d) \<Rightarrow> d | _ \<Rightarrow> [])"

text \<open>\<open>closed > 0.0\<close> of the entry's \<open>closedSize\<close>, an unreadable one counts as zero\<close>

definition closes_some :: "leg_event \<Rightarrow> bool" where
  "closes_some e =
     (case row_float (entry_of e) ''closedSize'' of
        Inr (Fin c) \<Rightarrow> c > 0 | Inr PosInf \<Rightarrow> True | _ \<Rightarrow> False)"

definition log_ledger_clamp :: "instrument_info \<Rightarrow> int \<Rightarrow> leg_outcome \<Rightarrow> 's runtime \<Rightarrow> 's runtime" where
  "log_ledger_clamp market idx o1 R =
     (if lo_consumed o1 \<le> 0 \<and> \<bar>lo_unexplained o1\<bar> \<le> qty_tolerance market \<and> lo_doubtful o1 \<le> 0 then R
      else if lo_consumed o1 > 0 then audit_event ''own_share_clamped'' (int_str idx) (lo_consumed o1) R
      else audit_event ''position_ledger_gap'' (int_str idx) (lo_unexplained o1) R)"

definition log_settled_execution :: "leg_event \<Rightarrow> leg_outcome \<Rightarrow> 's runtime \<Rightarrow> 's runtime" where
  "log_settled_execution e o1 R =
     (if lo_consumed o1 > 0
      then audit_event (if le_origin e = ORIGIN_VENUE \<or> le_origin e = ORIGIN_AMBIGUOUS then ''own_share_clamped''
                        else ''external_close_unproven'') (le_exec_id e) (lo_consumed o1) R
      else if le_origin e = ORIGIN_USER \<and> closes_some e
      then audit_event ''external_close_foreign_only'' (le_exec_id e) 0 R else R)"

text \<open>A foreign execution the ledger judged now: an audit event, or one to report.\<close>

definition reportable :: "leg_event \<Rightarrow> leg_outcome \<Rightarrow> bool" where
  "reportable e o1 \<longleftrightarrow>
     \<not> le_own e \<and> \<not> lo_settled o1 \<and> lo_proven o1 \<and> lo_consumed o1 > 0 \<and> le_origin e = ORIGIN_USER \<and>
     lo_doubtful o1 < lo_consumed o1"

definition log_foreign :: "leg_event \<Rightarrow> leg_outcome \<Rightarrow> 's runtime \<Rightarrow> 's runtime" where
  "log_foreign e o1 R =
     (let id = le_exec_id e; c = lo_consumed o1 in
      if \<not> lo_proven o1
      then (if c > 0 \<or> (le_origin e = ORIGIN_USER \<and> closes_some e \<and> lo_share_before o1 > 0)
            then audit_event ''external_close_unproven'' id c R else R)
      else if c > 0
      then (if le_origin e = ORIGIN_USER
            then (if lo_doubtful o1 \<ge> c then audit_event ''external_close_unproven'' id c R else R)
            else if le_origin e = ORIGIN_UNPROVEN then audit_event ''external_close_unproven'' id c R
            else audit_event ''own_share_clamped'' id c R)
      else if le_origin e = ORIGIN_USER \<and> closes_some e
      then audit_event ''external_close_foreign_only'' id 0 R else R)"

definition log_outcome :: "instrument_info \<Rightarrow> int \<Rightarrow> leg_outcome \<Rightarrow> 's runtime \<Rightarrow> 's runtime" where
  "log_outcome market idx o1 R =
     (case lo_event o1 of
        None \<Rightarrow> log_ledger_clamp market idx o1 R
      | Some e \<Rightarrow>
          if le_own e
          then (if lo_consumed o1 > 0 then audit_event ''own_share_clamped'' (le_exec_id e) (lo_consumed o1) R
                else audit_event ''own_fill_consumed_foreign_exposure'' (le_exec_id e) (lo_clipped o1) R)
          else if lo_settled o1 then log_settled_execution e o1 R
          else log_foreign e o1 R)"

text \<open>One report per foreign order: the key is its order id, else the execution's own id.\<close>

definition close_key :: "leg_event \<Rightarrow> string" where
  "close_key e = (let oid = jstr (entry_of e) ''orderId'' in if oid = [] then le_exec_id e else oid)"

definition report_external_close :: "leg_event \<Rightarrow> leg_outcome \<Rightarrow> 's runtime \<Rightarrow> 's runtime" where
  "report_external_close e o1 R =
     (let R1 = audit_event ''own_share_clamped'' (le_exec_id e) (lo_consumed o1) R;
          key = close_key e
      in if key \<in> set (rt_reported_closes R) then R1
         else report (ExternalClose key (lo_consumed o1) (lo_doubtful o1))
                (R1\<lparr>rt_reported_closes := List.insert key (rt_reported_closes R)\<rparr>))"

definition report_outcome :: "leg_outcome \<Rightarrow> 's runtime \<Rightarrow> 's runtime" where
  "report_outcome o1 R =
     (case lo_event o1 of
        None \<Rightarrow> R | Some e \<Rightarrow> if reportable e o1 then report_external_close e o1 R else R)"

text \<open>Every outcome is logged first, the reports come last.\<close>

definition ledger_apply :: "instrument_info \<Rightarrow> int \<Rightarrow> leg_outcome list \<Rightarrow> 's runtime \<Rightarrow> 's runtime" where
  "ledger_apply market idx outcomes R = fold report_outcome outcomes (fold (log_outcome market idx) outcomes R)"

section \<open>Judging\<close>

definition persist_ledger_credits :: "int \<Rightarrow> leg_credits \<Rightarrow> 's runtime \<Rightarrow> 's runtime" where
  "persist_ledger_credits idx cs R =
     (if rt_has_store R then R\<lparr>rt_saved_credits := (rt_saved_credits R)(idx := cs)\<rparr> else R)"

definition ledger_ready :: "instrument_info \<Rightarrow> 's runtime \<Rightarrow> bool" where
  "ledger_ready market R \<longleftrightarrow> in_category market \<noteq> CATEGORY_SPOT \<and> rt_has_store R"

definition LEGS :: "int list" where "LEGS = [ONE_WAY_IDX, HEDGE_IDX_BUY, HEDGE_IDX_SELL]"

text \<open>
  One leg: started from its newest view, or brought in line with the journal read before the loop,
  then advanced. \<open>leg_judged\<close> gives the ledger and outcomes, and whether a clamp started it.
\<close>

definition start_leg ::
    "'s framework_ops \<Rightarrow> keys \<Rightarrow> instrument_info \<Rightarrow> int \<Rightarrow> rat \<Rightarrow> 's runtime \<Rightarrow> 's runtime \<times> leg_outcome list" where
  "start_leg W K market idx journal R =
     (case start journal (qty_tolerance market) (leg_ledger_of idx R) of
        (L, clamp) \<Rightarrow>
          (let R1 = set_ledger idx L R in
           case clamp of
             None \<Rightarrow> (R1, [])
           | Some o1 \<Rightarrow> (sync_leg_journal W K market idx False R1, [o1])))"

definition advance_started ::
    "'s framework_ops \<Rightarrow> keys \<Rightarrow> instrument_info \<Rightarrow> rat \<Rightarrow> int \<Rightarrow> leg_credits \<Rightarrow> leg_outcome list \<Rightarrow> 's runtime \<Rightarrow>
     's runtime" where
  "advance_started W K market now idx credits_before outcomes R =
     (case advance now FILL_REPORT_GRACE_S (qty_tolerance market) (set (rt_exec_seqs R))
             (rt_stream_opened_ms R = None) (leg_ledger_of idx R) of
        (L, later) \<Rightarrow>
          (let R1 = set_ledger idx L R;
               R2 = (if ll_credits L \<noteq> credits_before then persist_ledger_credits idx (ll_credits L) R1 else R1)
           in if outcomes @ later = [] then R2
              else ledger_apply market idx (outcomes @ later) (sync_leg_journal W K market idx True R2)))"

definition advance_leg ::
    "'s framework_ops \<Rightarrow> keys \<Rightarrow> instrument_info \<Rightarrow> rat \<Rightarrow> int \<Rightarrow> rat \<Rightarrow> 's runtime \<Rightarrow> 's runtime" where
  "advance_leg W K market now idx journal R =
     (let L = leg_ledger_of idx R in
      if \<not> started L
      then (case start_leg W K market idx journal R of
              (R1, outcomes) \<Rightarrow>
                if \<not> started (leg_ledger_of idx R1) then R1
                else advance_started W K market now idx (ll_credits L) outcomes R1)
      else advance_started W K market now idx (ll_credits L) []
             (set_ledger idx (sync_journal journal (qty_tolerance market) L) R))"

fun advance_legs ::
    "'s framework_ops \<Rightarrow> keys \<Rightarrow> instrument_info \<Rightarrow> rat \<Rightarrow> (int \<Rightarrow> rat) \<Rightarrow> int list \<Rightarrow> 's runtime \<Rightarrow> 's runtime" where
  "advance_legs W K market now journal [] R = R"
| "advance_legs W K market now journal (idx # legs) R =
     advance_legs W K market now journal legs
       (if ps_ledgers (rt_positions R) idx = None then R
        else advance_leg W K market now idx (journal idx) R)"

definition ledger_advance ::
    "'s framework_ops \<Rightarrow> keys \<Rightarrow> instrument_info \<Rightarrow> rat \<Rightarrow> 's runtime \<Rightarrow> 's runtime" where
  "ledger_advance W K market now R =
     (if \<not> ledger_ready market R \<or> \<not> rt_baselined R \<or> rt_hold R > 0 then R
      else judge_pending_tpsl_orders W K market now
             (advance_legs W K market now (journal_leg_share W (fk_base K) R) LEGS R))"

section \<open>Executions are entered once\<close>

definition MAX_LEDGER_EXEC_IDS :: nat where "MAX_LEDGER_EXEC_IDS = 4096"

text \<open>A bounded set in arrival order: the oldest entry leaves.\<close>

definition remember :: "'a \<Rightarrow> 'a list \<Rightarrow> 'a list" where
  "remember x xs =
     (if x \<in> set xs then xs
      else if length xs < MAX_LEDGER_EXEC_IDS then xs @ [x] else tl xs @ [x])"

definition note_ledger_seq :: "instrument_info \<Rightarrow> jdict \<Rightarrow> 's runtime \<Rightarrow> 's runtime" where
  "note_ledger_seq market entry R =
     (if \<not> ledger_ready market R then R
      else case parse_seq (jget entry ''seq'') of
             None \<Rightarrow> R | Some seq \<Rightarrow> R\<lparr>rt_exec_seqs := remember seq (rt_exec_seqs R)\<rparr>)"

definition take_ledger_exec_id :: "string \<Rightarrow> 's runtime \<Rightarrow> 's runtime" where
  "take_ledger_exec_id exec_id R = R\<lparr>rt_exec_ids := remember exec_id (rt_exec_ids R)\<rparr>"

text \<open>
  What an own execution changes on a leg: the venue quantity on the legs it moves, the journal's
  change by the booking, and the credit it took.
\<close>

definition own_event :: "jdict \<Rightarrow> string \<Rightarrow> int \<Rightarrow> rat \<Rightarrow> rat \<Rightarrow> rat \<Rightarrow> leg_event" where
  "own_event entry exec_id seq delta share credit =
     \<lparr>le_exec_id = exec_id, le_seq = seq, le_delta = delta, le_own = True, le_share = share,
      le_credit = credit, le_origin = [], le_entry = Some (PDict entry)\<rparr>"

definition enter_own ::
    "'s framework_ops \<Rightarrow> keys \<Rightarrow> instrument_info \<Rightarrow> int \<Rightarrow> leg_event \<Rightarrow> 's runtime \<Rightarrow> 's runtime" where
  "enter_own W K market idx e R =
     (case add_event e (leg_ledger_of idx R) of
        (L, True) \<Rightarrow> set_ledger idx L R
      | (L, False) \<Rightarrow>
          (case late_own e (qty_tolerance market) L of
             None \<Rightarrow> set_ledger idx L R
           | Some (L1, None) \<Rightarrow> set_ledger idx L1 R
           | Some (L1, Some gone) \<Rightarrow>
               ledger_apply market idx [gone]
                 (sync_leg_journal W K market idx True
                    (persist_ledger_credits idx (ll_credits L1) (set_ledger idx L1 R)))))"

text \<open>Without a \<open>seq\<close> the ledger cannot place it: the share moves where it stands.\<close>

definition shift_share :: "int \<Rightarrow> rat \<Rightarrow> 's runtime \<Rightarrow> 's runtime" where
  "shift_share idx d R =
     (let L = leg_ledger_of idx R
      in set_ledger idx (L\<lparr>ll_share := ll_share L + d, ll_journal := ll_journal L + d\<rparr>) R)"

fun enter_own_legs ::
    "'s framework_ops \<Rightarrow> keys \<Rightarrow> instrument_info \<Rightarrow> jdict \<Rightarrow> string \<Rightarrow> int option \<Rightarrow> (int \<times> rat) \<Rightarrow> (int \<Rightarrow> rat) \<Rightarrow>
     rat \<Rightarrow> int list \<Rightarrow> 's runtime \<Rightarrow> 's runtime" where
  "enter_own_legs W K market entry exec_id seq moved share credit [] R = R"
| "enter_own_legs W K market entry exec_id seq moved share credit (idx # legs) R =
     enter_own_legs W K market entry exec_id seq moved share credit legs
       (if idx \<noteq> fst moved \<and> share idx = 0 then R
        else
          case seq of
            None \<Rightarrow> shift_share idx (share idx) R
          | Some q \<Rightarrow>
              enter_own W K market idx
                (own_event entry exec_id q (if idx = fst moved then snd moved else 0) (share idx)
                   (if idx = fst moved then credit else 0)) R)"

definition moved_leg :: "string \<Rightarrow> bool \<Rightarrow> rat \<Rightarrow> 's runtime \<Rightarrow> int \<times> rat" where
  "moved_leg side reducing q R =
     (if hedge (rt_positions R)
      then (if reducing then (closed_leg side (rt_positions R), - q) else (opened_leg side (rt_positions R), q))
      else (ONE_WAY_IDX, if side = ''buy'' then q else - q))"

definition is_side :: "string \<Rightarrow> bool" where
  "is_side side \<longleftrightarrow> side = ''buy'' \<or> side = ''sell''"

text \<open>\<open>exec_qty\<close>: a positive finite quantity, as every venue quantity is\<close>

definition exec_quantity :: "jdict \<Rightarrow> rat option" where
  "exec_quantity entry =
     (case row_float entry ''execQty'' of Inr (Fin q) \<Rightarrow> if q > 0 then Some q else None | _ \<Rightarrow> None)"

definition note_own_execution ::
    "'s framework_ops \<Rightarrow> keys \<Rightarrow> instrument_info \<Rightarrow> rat \<Rightarrow> jdict \<Rightarrow> bool \<Rightarrow> (int \<Rightarrow> rat) \<Rightarrow> rat \<Rightarrow> 's runtime \<Rightarrow>
     's runtime" where
  "note_own_execution W K market now entry reducing share credit R =
     (let exec_id = jstr entry ''execId''; side = lower (jstr entry ''side'') in
      if \<not> ledger_ready market R \<or> exec_id = [] \<or> exec_id \<in> set (rt_exec_ids R) then R
      else
        let R1 = take_ledger_exec_id exec_id R
        in case exec_quantity entry of
             None \<Rightarrow> R1
           | Some q \<Rightarrow>
               if \<not> is_side side then R1
               else
                 let R2 = note_ledger_seq market entry R1
                 in ledger_advance W K market now
                      (enter_own_legs W K market entry exec_id (parse_seq (jget entry ''seq''))
                         (moved_leg side reducing q R2) share credit LEGS R2))"

section \<open>Executions no own order explains\<close>

definition MANUAL_CLOSE_CREATE_TYPES :: "string list" where
  "MANUAL_CLOSE_CREATE_TYPES =
     [''CreateByUser'', ''CreateByClosing'', ''CreateByStopOrder'', ''CreateByMmRateClose'', ''CreateByTVSignal'',
      ''CreateByChaseOrder'', ''CreateByBboOrder'', ''CreateByTWAP'', ''CreateByIceBerg'', ''CreateByFGridBot'',
      ''CloseByFGridBot'', ''CreateByMartingaleBot'', ''CloseByMartingaleBot'', ''CreateByArbitrage'',
      ''CreateByFutureSpread'', ''CreateByBlock_PassThrough'', ''CreateByBlockTradeMovePosition_PassThrough'']"

definition VENUE_CREATE_TYPES :: "string list" where
  "VENUE_CREATE_TYPES =
     [''CreateByLiq'', ''CreateByTakeOver_PassThrough'', ''CreateByAdl_PassThrough'', ''CreateByAdminClosing'',
      ''CreateBySettle'']"

definition VENUE_EXEC_TYPES :: "string list" where
  "VENUE_EXEC_TYPES =
     [''AdlTrade'', ''BustTrade'', ''Delivery'', ''Settle'', ''ForwardSplitSettle'', ''ReverseSplitSettle'']"

definition USER_EXEC_TYPES :: "string list" where
  "USER_EXEC_TYPES = [''BlockTrade'', ''MovePosition'', ''FutureSpread'']"

definition POSITION_TPSL_STOP_TYPES :: "string list" where
  "POSITION_TPSL_STOP_TYPES = [''TakeProfit'', ''StopLoss'', ''TrailingStop'']"

definition run_ever_owned_trading_stop :: "'s framework_ops \<Rightarrow> keys \<Rightarrow> string \<Rightarrow> 's runtime \<Rightarrow> bool" where
  "run_ever_owned_trading_stop W K leg_id R \<longleftrightarrow>
     \<not> rt_has_store R \<or> list_ex (\<lambda>r. leg_id_of K r = leg_id) (fo_ever_owned W (rt_store R))"

definition trading_stop_origin_unproven :: "int \<Rightarrow> 's runtime \<Rightarrow> bool" where
  "trading_stop_origin_unproven idx R \<longleftrightarrow>
     \<not> rt_has_store R \<or>
     list_ex (\<lambda>(i, seq). i = idx \<and>
        (case (map_of (rt_share_start R) idx, seq) of (Some st, Some q) \<Rightarrow> q \<ge> fst st | _ \<Rightarrow> True))
       (rt_unproven_stops R)"

definition looks_like_pyne_link_id :: "keys \<Rightarrow> string \<Rightarrow> bool" where
  "looks_like_pyne_link_id K link_id \<longleftrightarrow>
     fk_bot_id K link_id \<or> fk_canonical_id K (takeWhile (\<lambda>c. c \<noteq> CHR ''_'') link_id)"

definition external_origin :: "'s framework_ops \<Rightarrow> keys \<Rightarrow> jdict \<Rightarrow> bool \<Rightarrow> 's runtime \<Rightarrow> string" where
  "external_origin W K entry ambiguous R =
     (let exec_type = jstr_or entry ''execType'' ''Trade'';
          link_id = jstr entry ''orderLinkId'';
          stop_type = jstr entry ''stopOrderType'';
          create_type = jstr entry ''createType'';
          idx = closed_leg (lower (jstr entry ''side'')) (rt_positions R)
      in if ambiguous then ORIGIN_AMBIGUOUS
         else if exec_type \<in> set VENUE_EXEC_TYPES then ORIGIN_VENUE
         else if exec_type \<in> set USER_EXEC_TYPES then ORIGIN_USER
         else if link_id \<noteq> [] \<and> looks_like_pyne_link_id K link_id then ORIGIN_UNPROVEN
         else if stop_type \<in> set PARTIAL_TPSL_STOP_TYPES then ORIGIN_USER
         else if stop_type \<in> set POSITION_TPSL_STOP_TYPES
         then (if run_ever_owned_trading_stop W K (int_str idx) R then ORIGIN_UNPROVEN
               else if trading_stop_origin_unproven idx R then ORIGIN_UNPROVEN else ORIGIN_USER)
         else if create_type = [] then ORIGIN_UNPROVEN
         else if create_type \<in> set MANUAL_CLOSE_CREATE_TYPES then ORIGIN_USER
         else if create_type \<in> set VENUE_CREATE_TYPES then ORIGIN_VENUE
         else ORIGIN_UNPROVEN)"

definition foreign_event :: "jdict \<Rightarrow> string \<Rightarrow> int \<Rightarrow> rat \<Rightarrow> string \<Rightarrow> leg_event" where
  "foreign_event entry exec_id seq delta origin =
     \<lparr>le_exec_id = exec_id, le_seq = seq, le_delta = delta, le_own = False, le_share = 0, le_credit = 0,
      le_origin = origin, le_entry = Some (PDict entry)\<rparr>"

text \<open>The legs a foreign execution moves; in hedge mode it may close one and open the other.\<close>

definition foreign_deltas :: "string \<Rightarrow> rat \<Rightarrow> rat \<Rightarrow> 's runtime \<Rightarrow> (int \<times> rat) list" where
  "foreign_deltas side q closed_size R =
     (if hedge (rt_positions R)
      then (if closed_size > FILL_EPS then [(closed_leg side (rt_positions R), - min closed_size q)] else []) @
           (if q - closed_size > FILL_EPS then [(opened_leg side (rt_positions R), q - max closed_size 0)] else [])
      else [(ONE_WAY_IDX, if side = ''buy'' then q else - q)])"

text \<open>The outcome of one whose interval was judged without it\<close>

definition missed_outcome :: "leg_event \<Rightarrow> leg_ledger \<Rightarrow> leg_outcome" where
  "missed_outcome e L =
     \<lparr>lo_event = Some e, lo_consumed = 0, lo_proven = False, lo_share_before = \<bar>ll_share L\<bar>,
      lo_leg_after = ll_cursor_leg L, lo_seq = le_seq e, lo_unexplained = 0, lo_doubtful = 0, lo_clipped = 0,
      lo_settled = False\<rparr>"

definition enter_foreign :: "instrument_info \<Rightarrow> int \<Rightarrow> leg_event \<Rightarrow> 's runtime \<Rightarrow> 's runtime" where
  "enter_foreign market idx e R =
     (case add_event e (leg_ledger_of idx R) of
        (L, True) \<Rightarrow> set_ledger idx L R
      | (L, False) \<Rightarrow>
          if (case ll_anchor_seq L of None \<Rightarrow> False | Some a \<Rightarrow> le_seq e \<le> a) then set_ledger idx L R
          else
            (case late_foreign e L of
               (L1, True) \<Rightarrow> set_ledger idx L1 R
             | (L1, False) \<Rightarrow> ledger_apply market idx [missed_outcome e L1] (set_ledger idx L1 R)))"

fun enter_foreign_legs ::
    "instrument_info \<Rightarrow> jdict \<Rightarrow> string \<Rightarrow> int \<Rightarrow> string \<Rightarrow> (int \<times> rat) list \<Rightarrow> 's runtime \<Rightarrow> 's runtime" where
  "enter_foreign_legs market entry exec_id seq origin [] R = R"
| "enter_foreign_legs market entry exec_id seq origin ((idx, delta) # moves) R =
     enter_foreign_legs market entry exec_id seq origin moves
       (enter_foreign market idx (foreign_event entry exec_id seq delta origin) R)"

definition note_external_execution ::
    "'s framework_ops \<Rightarrow> keys \<Rightarrow> instrument_info \<Rightarrow> rat \<Rightarrow> jdict \<Rightarrow> bool \<Rightarrow> 's runtime \<Rightarrow> 's runtime" where
  "note_external_execution W K market now entry ambiguous R =
     (let exec_id = jstr entry ''execId''; side = lower (jstr entry ''side'') in
      if \<not> ledger_ready market R \<or> exec_id = [] \<or> exec_id \<in> set (rt_exec_ids R) then R
      else
        (case (exec_quantity entry, row_float entry ''closedSize'', parse_seq (jget entry ''seq'')) of
           (Some q, Inr (Fin closed_size), Some seq) \<Rightarrow>
             if \<not> is_side side then R
             else
               let R1 = take_ledger_exec_id exec_id R;
                   origin = external_origin W K entry ambiguous R1;
                   R2 = note_ledger_seq market entry R1
               in ledger_advance W K market now
                    (enter_foreign_legs market entry exec_id seq origin (foreign_deltas side q closed_size R2) R2)
         | _ \<Rightarrow> R))"

definition note_non_trade_execution ::
    "'s framework_ops \<Rightarrow> keys \<Rightarrow> instrument_info \<Rightarrow> rat \<Rightarrow> jdict \<Rightarrow> 's runtime \<Rightarrow> 's runtime" where
  "note_non_trade_execution W K market now entry R =
     (let exec_type = jstr_or entry ''execType'' ''Trade'' in
      if exec_type \<in> set VENUE_EXEC_TYPES \<or> exec_type \<in> set USER_EXEC_TYPES
      then note_external_execution W K market now entry False R
      else note_ledger_seq market entry R)"

text \<open>A batch is entered whole before anything is judged.\<close>

definition ledger_batch ::
    "'s framework_ops \<Rightarrow> keys \<Rightarrow> instrument_info \<Rightarrow> rat \<Rightarrow> ('s runtime \<Rightarrow> 's runtime) \<Rightarrow> 's runtime \<Rightarrow> 's runtime" where
  "ledger_batch W K market now body R =
     (let R1 = body (R\<lparr>rt_hold := rt_hold R + 1\<rparr>)
      in ledger_advance W K market now (R1\<lparr>rt_hold := rt_hold R1 - 1\<rparr>))"

section \<open>Credits of a give-up\<close>

text \<open>The side of the share an execution reduces, in the frame of the leg\<close>

definition leg_reduced_direction :: "string \<Rightarrow> 's runtime \<Rightarrow> rat" where
  "leg_reduced_direction side R = (if hedge (rt_positions R) \<or> side = ''sell'' then 1 else - 1)"

text \<open>The leg and sequence of an execution at or before the cursor of the leg it reduces\<close>

definition behind_cursor :: "instrument_info \<Rightarrow> jdict \<Rightarrow> int \<Rightarrow> 's runtime \<Rightarrow> int option" where
  "behind_cursor market entry idx R =
     (if \<not> ledger_ready market R then None
      else
        (case (parse_seq (jget entry ''seq''), ps_ledgers (rt_positions R) idx) of
           (Some seq, Some L) \<Rightarrow>
             (case ll_cursor_seq L of None \<Rightarrow> None | Some c \<Rightarrow> if seq > c then None else Some seq)
         | _ \<Rightarrow> None))"

definition ledger_reduce_credit ::
    "instrument_info \<Rightarrow> jdict \<Rightarrow> string \<Rightarrow> rat \<Rightarrow> 's runtime \<Rightarrow> 's runtime \<times> rat" where
  "ledger_reduce_credit market entry side q R =
     (let idx = closed_leg side (rt_positions R) in
      case behind_cursor market entry idx R of
        None \<Rightarrow> (R, 0)
      | Some seq \<Rightarrow>
          (case take_credit seq q (leg_reduced_direction side R) (qty_tolerance market) (leg_ledger_of idx R) of
             (L, taken) \<Rightarrow>
               (let R1 = set_ledger idx L R
                in (if taken > 0 then persist_ledger_credits idx (ll_credits L) R1 else R1, taken))))"

definition ledger_reduce_credit_open :: "instrument_info \<Rightarrow> jdict \<Rightarrow> string \<Rightarrow> 's runtime \<Rightarrow> rat" where
  "ledger_reduce_credit_open market entry side R =
     (let idx = closed_leg side (rt_positions R) in
      case behind_cursor market entry idx R of
        None \<Rightarrow> 0
      | Some seq \<Rightarrow> open_credit seq (leg_reduced_direction side R) (qty_tolerance market) (leg_ledger_of idx R))"

definition ledger_entry_credit_due :: "instrument_info \<Rightarrow> jdict \<Rightarrow> 's runtime \<Rightarrow> bool" where
  "ledger_entry_credit_due market entry R \<longleftrightarrow>
     \<not> hedge (rt_positions R) \<and> behind_cursor market entry ONE_WAY_IDX R \<noteq> None \<and>
     ll_credits (leg_ledger_of ONE_WAY_IDX R) \<noteq> []"

text \<open>
  What a late one-way entry books on its own side although the give-up netted it: the part within the
  journal's opposite side first, then what leaves the journal above the leg.
\<close>

definition ledger_entry_credit ::
    "'s framework_ops \<Rightarrow> keys \<Rightarrow> instrument_info \<Rightarrow> jdict \<Rightarrow> string \<Rightarrow> rat \<Rightarrow> rat \<Rightarrow> 's runtime \<Rightarrow> 's runtime \<times> rat" where
  "ledger_entry_credit W K market entry side q journal_before R =
     (case (ps_ledgers (rt_positions R) ONE_WAY_IDX, parse_seq (jget entry ''seq'')) of
        (Some L, Some seq) \<Rightarrow>
          if \<not> is_side side then (R, 0)
          else
            let t = qty_tolerance market;
                d = leg_reduced_direction side R;
                journal = run_owned_signed_size (fk_base K) (if rt_has_store R then so_live (rows_of W) (rt_store R) else []);
                booked = min q (max 0 ((journal_before - journal) * d));
                inside = min booked (max 0 (journal_before * d));
                (L1, taken1) = (if inside > 0 then take_credit seq inside d t L else (L, 0));
                journal1 = journal + taken1 * d;
                beyond = min (booked - inside) (max 0 (- journal1 * d - max (- ll_cursor_leg L1 * d) 0));
                (L2, taken2) = (if beyond > t then take_credit seq beyond d t L1 else (L1, 0));
                taken = taken1 + taken2;
                R1 = set_ledger ONE_WAY_IDX L2 R
            in if taken \<le> 0 then (R1, 0)
               else (net_side_share W K market side taken True
                       (persist_ledger_credits ONE_WAY_IDX (ll_credits L2) R1), taken)
      | _ \<Rightarrow> (R, 0))"

text \<open>The credits an earlier process left: the newest audit event per leg, malformed items dropped.\<close>

fun credit_items :: "py list \<Rightarrow> leg_credits" where
  "credit_items [] = []"
| "credit_items (v # vs) =
     (case v of
        PList [a, b, c] \<Rightarrow>
          (case (py_number a, py_number b, py_number c) of
             (Some s, Some q, Some d) \<Rightarrow> (\<lfloor>s\<rfloor>, q, d) # credit_items vs
           | _ \<Rightarrow> credit_items vs)
      | _ \<Rightarrow> credit_items vs)"

fun load_persisted_ledger_credits :: "jdict list \<Rightarrow> (int \<Rightarrow> leg_credits) \<Rightarrow> int \<Rightarrow> leg_credits" where
  "load_persisted_ledger_credits [] by_leg = by_leg"
| "load_persisted_ledger_credits (payload # events) by_leg =
     load_persisted_ledger_credits events
       (case (jget payload ''position_idx'', jget payload ''credits'') of
          (PInt idx, PList items) \<Rightarrow> by_leg(idx := credit_items items)
        | _ \<Rightarrow> by_leg)"

definition sweep_waits_for_ledger :: "'s runtime \<Rightarrow> bool" where
  "sweep_waits_for_ledger R \<longleftrightarrow>
     \<not> hedge (rt_positions R) \<and>
     (case ps_ledgers (rt_positions R) ONE_WAY_IDX of None \<Rightarrow> False | Some L \<Rightarrow> is_open L)"

end
