(* ===== verification/Share_Netting.thy ===== *)
theory Share_Netting
  imports Ledger_Glue
begin

text \<open>
  The refinement between the position ledger and the run's durable entry rows: after
  \<open>sync_leg_journal\<close> (\<^verbatim>\<open>src/src/pynecore_bybit/protection.py\<close>) the rows own of a leg what the ledger
  leaves of the run's share, up to half a quantity step and the slack of the netting.
\<close>

section \<open>Totals of rows\<close>

definition own_side :: "framework \<Rightarrow> string \<Rightarrow> order_row \<Rightarrow> bool" where
  "own_side F side r \<longleftrightarrow>
     or_side r = side \<and> is_entry_row F r \<and> \<not> truthy (jget (extras_of r) (fc_adopted_key F))"

definition side_total :: "(order_row \<Rightarrow> bool) \<Rightarrow> order_row list \<Rightarrow> rat" where
  "side_total Q rows = sum_list (map (\<lambda>r. if Q r then max 0 (or_filled r) else 0) rows)"

lemma side_total_simps [simp]:
  "side_total Q [] = 0" "side_total Q (r # rows) = (if Q r then max 0 (or_filled r) else 0) + side_total Q rows"
  by (simp_all add: side_total_def)

lemma exposure_le_total: "exposure Q rows \<le> side_total Q rows"
  by (induction rows) auto

lemma side_total_nonneg: "side_total Q rows \<ge> 0"
  by (induction rows) auto

lemma total_remove:
  assumes "distinct (map or_coid rows)" and "row \<in> set rows"
  shows "side_total Q (filter (\<lambda>r. or_coid r \<noteq> or_coid row) rows) =
    side_total Q rows - (if Q row then max 0 (or_filled row) else 0)"
  using assms
proof (induction rows)
  case Nil
  then show ?case by simp
next
  case (Cons r rows)
  show ?case
  proof (cases "r = row")
    case True
    have "\<forall>x \<in> set rows. or_coid x \<noteq> or_coid row"
      using Cons.prems(1) True by (force simp: image_iff)
    then have "filter (\<lambda>x. or_coid x \<noteq> or_coid row) rows = rows"
      by (simp add: filter_id_conv)
    then show ?thesis using True by simp
  next
    case False
    then have "row \<in> set rows" "or_coid r \<noteq> or_coid row" using Cons.prems by auto
    then show ?thesis using Cons by simp
  qed
qed

lemma total_replace:
  assumes "distinct (map or_coid rows)" and "row \<in> set rows"
  shows "side_total Q (map (\<lambda>r. if or_coid r = or_coid row then f r else r) rows) =
    side_total Q rows - (if Q row then max 0 (or_filled row) else 0)
      + (if Q (f row) then max 0 (or_filled (f row)) else 0)"
  using assms
proof (induction rows)
  case Nil
  then show ?case by simp
next
  case (Cons r rows)
  show ?case
  proof (cases "r = row")
    case True
    have "\<forall>x \<in> set rows. or_coid x \<noteq> or_coid row"
      using Cons.prems(1) True by (force simp: image_iff)
    then have "map (\<lambda>x. if or_coid x = or_coid row then f x else x) rows = rows"
      by (simp add: map_idI)
    then show ?thesis using True by simp
  next
    case False
    then have "row \<in> set rows" "or_coid r \<noteq> or_coid row" using Cons.prems by auto
    then show ?thesis using Cons by simp
  qed
qed

section \<open>What the loop takes off a side\<close>

context order_store
begin

lemma net_row_total:
  assumes "row \<in> set (so_live ops s)" and "or_filled row \<le> or_qty row" and "0 < c" and "c \<le> or_filled row"
    and "net_stable Q" and "Q row"
  shows "side_total Q (so_live ops (net_entry_row ops row c s)) \<le> side_total Q (so_live ops s) - c"
    and "side_total Q (so_live ops s) - c - FILL_EPS \<le> side_total Q (so_live ops (net_entry_row ops row c s))"
proof -
  have q: "Q (netted_row row c row)" using assms(5,6) by (simp add: net_stable_def)
  have e: "side_total Q (so_live ops (net_entry_row ops row c s)) =
    side_total Q (so_live ops s) - or_filled row + (if or_qty row - c \<le> FILL_EPS then 0 else or_filled row - c)"
    using assms(3,4,6) q by (auto simp: net_row_live total_remove [OF live_distinct assms(1)]
        total_replace [OF live_distinct assms(1)] max_def)
  show "side_total Q (so_live ops (net_entry_row ops row c s)) \<le> side_total Q (so_live ops s) - c"
    and "side_total Q (so_live ops s) - c - FILL_EPS \<le> side_total Q (so_live ops (net_entry_row ops row c s))"
    using e assms(2,4) eps_pos by (auto split: if_splits)
qed

lemma net_row_total_whole:
  assumes "row \<in> set (so_live ops s)" and "or_filled row > 0" and "net_stable Q" and "Q row"
  shows "side_total Q (so_live ops (net_entry_row ops row (or_filled row) s)) =
    side_total Q (so_live ops s) - or_filled row"
proof -
  have q: "Q (netted_row row (or_filled row) row)" using assms(3,4) by (simp add: net_stable_def)
  show ?thesis
    using assms(2,4) q by (auto simp: net_row_live total_remove [OF live_distinct assms(1)]
        total_replace [OF live_distinct assms(1)] max_def)
qed

lemma net_row_total_other:
  assumes "row \<in> set (so_live ops s)" and "net_stable Q" and "\<not> Q row"
  shows "side_total Q (so_live ops (net_entry_row ops row c s)) = side_total Q (so_live ops s)"
proof -
  have "\<not> Q (netted_row row c row)" using assms(2,3) by (simp add: net_stable_def)
  then show ?thesis
    using assms(3) by (simp add: net_row_live total_remove [OF live_distinct assms(1)]
        total_replace [OF live_distinct assms(1)])
qed

lemma fifo_total:
  assumes "nettable Q rows (so_live ops s)" and "net_stable Q" and "0 \<le> q"
  shows "side_total Q (so_live ops (net_entry_rows_fifo ops rows q s))
       \<le> side_total Q (so_live ops s) - min q (total_filled rows) + FILL_EPS" (is ?up)
    and "side_total Q (so_live ops s) - min q (total_filled rows) - FILL_EPS
       \<le> side_total Q (so_live ops (net_entry_rows_fifo ops rows q s))" (is ?low)
proof -
  let ?E = "\<lambda>s. side_total Q (so_live ops s)"
  have "?E (net_entry_rows_fifo ops rows q s) \<le> ?E s - min q (total_filled rows) + FILL_EPS \<and>
      ?E s - min q (total_filled rows) - FILL_EPS \<le> ?E (net_entry_rows_fifo ops rows q s)"
    using assms(1,3)
  proof (induction rows arbitrary: q s)
    case Nil
    then show ?case using eps_pos by (simp add: total_filled_def)
  next
    case (Cons row rows)
    have row: "row \<in> set (so_live ops s)" "Q row" "or_filled row > FILL_EPS" "or_filled row \<le> or_qty row"
      using Cons.prems(1) by (auto simp: nettable_def)
    have nn: "0 \<le> total_filled rows"
      using Cons.prems(1) eps_pos by (force simp: nettable_def total_filled_def intro!: sum_list_nonneg)
    have tot: "total_filled (row # rows) = or_filled row + total_filled rows" by (simp add: total_filled_def)
    show ?case
    proof (cases "q \<le> FILL_EPS")
      case True
      then show ?thesis using Cons.prems(2) nn tot row eps_pos by (simp add: min_def)
    next
      case False
      show ?thesis
      proof (cases "or_filled row \<le> q")
        case True
        let ?s = "net_entry_row ops row (or_filled row) s"
        have step: "net_entry_rows_fifo ops (row # rows) q s = net_entry_rows_fifo ops rows (q - or_filled row) ?s"
          using False True by (simp add: Let_def min_absorb2)
        have "?E ?s = ?E s - or_filled row"
          using row eps_pos by (intro net_row_total_whole assms(2)) auto
        then show ?thesis
          using Cons.IH [OF nettable_next [OF Cons.prems(1)], of "q - or_filled row" "or_filled row"] True nn
          unfolding step tot by (auto simp: min_def split: if_splits)
      next
        case less: False
        let ?s = "net_entry_row ops row q s"
        have step: "net_entry_rows_fifo ops (row # rows) q s = net_entry_rows_fifo ops rows 0 ?s"
          using False less by (simp add: Let_def min_absorb1)
        have stop: "net_entry_rows_fifo ops rows 0 ?s = ?s"
          using eps_pos by (cases rows) auto
        have "0 < q" "q \<le> or_filled row" using False less eps_pos by auto
        from net_row_total [OF row(1,4) this assms(2) row(2)] show ?thesis
          using less nn eps_pos unfolding step stop tot by (simp add: min_def)
      qed
    qed
  qed
  then show ?up ?low by auto
qed

lemma fifo_total_other:
  assumes "nettable Q rows (so_live ops s)" and "net_stable P" and "\<And>r. Q r \<Longrightarrow> \<not> P r"
  shows "side_total P (so_live ops (net_entry_rows_fifo ops rows q s)) = side_total P (so_live ops s)"
  using assms(1)
proof (induction rows arbitrary: q s)
  case Nil
  then show ?case by simp
next
  case (Cons row rows)
  have "row \<in> set (so_live ops s)" "\<not> P row" using Cons.prems assms(3) by (auto simp: nettable_def)
  then show ?case
    using Cons.IH [OF nettable_next [OF Cons.prems]] net_row_total_other [OF _ assms(2)] by (simp add: Let_def)
qed

end

section \<open>The share of a leg as totals of its sides\<close>

text \<open>Every own entry row is on one of the two sides.\<close>

definition sided :: "framework \<Rightarrow> order_row list \<Rightarrow> bool" where
  "sided F rows \<longleftrightarrow> (\<forall>r \<in> set rows. own_side F (or_side r) r \<longrightarrow> or_side r = ''buy'' \<or> or_side r = ''sell'')"

lemma sided_Cons [simp]:
  "sided F (r # rows) \<longleftrightarrow>
     (own_side F (or_side r) r \<longrightarrow> or_side r = ''buy'' \<or> or_side r = ''sell'') \<and> sided F rows"
  by (auto simp: sided_def)

lemma run_owned_totals:
  assumes "sided F rows"
  shows "run_owned_signed_size F rows = side_total (own_side F ''buy'') rows - side_total (own_side F ''sell'') rows"
  using assms
  by (induction rows) (auto simp: run_owned_signed_size_def owned_part_def own_side_def max_def)

lemma own_rows_exposed:
  "filter (\<lambda>r. own_row F r \<and> or_side r = side) rows = exposed (own_side F side) rows"
  by (induction rows) (auto simp: own_row_def own_side_def exposed_def)

lemma own_rows_other:
  assumes "sided F rows"
  shows "filter (\<lambda>r. own_row F r \<and> or_side r \<noteq> ''buy'') rows = exposed (own_side F ''sell'') rows"
  using assms by (induction rows) (auto simp: own_row_def own_side_def exposed_def)

definition side_share :: "'s framework_ops \<Rightarrow> framework \<Rightarrow> string \<Rightarrow> 's runtime \<Rightarrow> rat" where
  "side_share W F side R = side_total (own_side F side) (so_live (rows_of W) (rt_store R))"

definition side_exposed :: "'s framework_ops \<Rightarrow> framework \<Rightarrow> string \<Rightarrow> 's runtime \<Rightarrow> rat" where
  "side_exposed W F side R = exposure (own_side F side) (so_live (rows_of W) (rt_store R))"

text \<open>The books are in order: a store whose rows hold what was filled, each on a side.\<close>

definition books :: "'s framework_ops \<Rightarrow> framework \<Rightarrow> 's runtime \<Rightarrow> bool" where
  "books W F R \<longleftrightarrow>
     rt_has_store R \<and> well_filled (so_live (rows_of W) (rt_store R)) \<and> sided F (so_live (rows_of W) (rt_store R))"

lemma one_way_share:
  assumes "books W F R" and "\<not> hedge (rt_positions R)"
  shows "journal_leg_share W F R ONE_WAY_IDX = side_share W F ''buy'' R - side_share W F ''sell'' R"
  using assms by (simp add: journal_leg_share_def books_def run_owned_totals side_share_def)

lemma hedge_share:
  assumes "books W F R" and "hedge (rt_positions R)"
  shows "journal_leg_share W F R HEDGE_IDX_BUY = side_exposed W F ''buy'' R"
    and "journal_leg_share W F R HEDGE_IDX_SELL = side_exposed W F ''sell'' R"
  using assms own_rows_other [of F "so_live (rows_of W) (rt_store R)"]
  by (simp_all add: journal_leg_share_def books_def side_exposed_def exposure_def owned_entry_rows_def
      own_rows_exposed idx_defs)

section \<open>One netting\<close>

text \<open>A side lost a quantity, as far as it was exposed, up to the slack; the other side is untouched.\<close>

definition side_netted :: "'s framework_ops \<Rightarrow> framework \<Rightarrow> string \<Rightarrow> rat \<Rightarrow> 's runtime \<Rightarrow> 's runtime \<Rightarrow> bool" where
  "side_netted W F side q R R' \<longleftrightarrow>
     (let c = min q (side_exposed W F side R) in
      \<bar>side_share W F side R' - (side_share W F side R - c)\<bar> \<le> FILL_EPS \<and>
      \<bar>side_exposed W F side R' - (side_exposed W F side R - c)\<bar> \<le> FILL_EPS) \<and>
     (\<forall>s. s \<noteq> side \<longrightarrow> side_share W F s R' = side_share W F s R \<and> side_exposed W F s R' = side_exposed W F s R)"

context order_store
begin

lemma net_row_sided:
  assumes "sided F (so_live ops s)" and "row \<in> set (so_live ops s)" and "net_stable (own_side F (or_side row))"
  shows "sided F (so_live ops (net_entry_row ops row c s))"
proof -
  have only: "r = row" if "r \<in> set (so_live ops s)" "or_coid r = or_coid row" for r
    using that assms(2) live_distinct [of s] by (metis distinct_map inj_on_def)
  have netted: "own_side F (or_side row) (netted_row row c row) = own_side F (or_side row) row"
    using assms(3) by (simp add: net_stable_def)
  have "r \<in> set (so_live ops s) \<or> r = netted_row row c row"
    if r: "r \<in> set (so_live ops (net_entry_row ops row c s))" for r
  proof -
    consider "r \<in> set (so_live ops s)" |
      r0 where "r0 \<in> set (so_live ops s)" "or_coid r0 = or_coid row" "r = netted_row row c r0"
      using r by (auto simp: net_row_live split: if_splits)
    then show ?thesis using only by cases auto
  qed
  then show ?thesis using assms(1,2) netted by (force simp: sided_def)
qed

lemma fifo_sided:
  assumes "nettable Q rows (so_live ops s)" and "sided F (so_live ops s)"
    and "\<And>side. net_stable (own_side F side)"
  shows "sided F (so_live ops (net_entry_rows_fifo ops rows q s))"
  using assms(1,2)
proof (induction rows arbitrary: q s)
  case Nil
  then show ?case by simp
next
  case (Cons row rows)
  have "row \<in> set (so_live ops s)" using Cons.prems(1) by (auto simp: nettable_def)
  then show ?case
    using Cons.IH [OF nettable_next [OF Cons.prems(1)]] net_row_sided [OF Cons.prems(2) _ assms(3)] Cons.prems(2)
    by (simp add: Let_def)
qed

end

context runtime_store
begin

abbreviation F :: framework where "F \<equiv> fk_base K"

lemma own_side_stable: "net_stable (own_side F side)"
proof -
  have "jget (netted_extras row c) (fc_adopted_key F) = jget (extras_of row) (fc_adopted_key F)" for row c
    using own_keys by (simp add: netted_extras_def jget_update split: num.split)
  moreover have "extras_of (netted_row row c row) = netted_extras row c" for row c
    by (simp add: netted_row_def extras_of_def)
  ultimately show ?thesis by (simp add: net_stable_def own_side_def is_entry_row_def)
qed

lemma own_side_alike: "row_alike (fk_levels_key K) r r' \<Longrightarrow> own_side F side r' = own_side F side r"
  using adopted_alike by (auto simp: own_side_def)

lemma frame_sides:
  assumes "guard_frame W K R R'"
  shows "side_share W F side R' = side_share W F side R" and "side_exposed W F side R' = side_exposed W F side R"
    and "books W F R' = books W F R"
proof -
  have al: "rows_alike (fk_levels_key K) (so_live (rows_of W) (rt_store R)) (so_live (rows_of W) (rt_store R'))"
    using assms by (simp add: guard_frame_def)
  have own: "own_side F side r' = own_side F side r \<and> or_filled r' = or_filled r \<and> or_side r' = or_side r"
    if "row_alike (fk_levels_key K) r r'" for side r r'
    using own_side_alike [OF that] that by (simp add: row_alike_def)
  have same: "side_total (own_side F side) rows' = side_total (own_side F side) rows \<and>
      exposure (own_side F side) rows' = exposure (own_side F side) rows \<and> sided F rows' = sided F rows"
    if "rows_alike (fk_levels_key K) rows rows'" for rows rows'
    using that unfolding rows_alike_def
  proof (induction rule: list_all2_induct)
    case (Cons r rs r' rs')
    then show ?case using own [OF Cons(1)] by simp
  qed simp
  from same [OF al] show "side_share W F side R' = side_share W F side R"
    and "side_exposed W F side R' = side_exposed W F side R" and "books W F R' = books W F R"
    using alike_well_filled [OF al] assms
    by (simp_all add: side_share_def side_exposed_def books_def guard_frame_def)
qed

lemma net_side_effect:
  fixes market :: instrument_info and side :: string and mirror :: bool
  assumes "books W F R" and "q > 0"
  defines "R' \<equiv> net_side_share W K market side q mirror R"
  shows "side_netted W F side q R R'" and "books W F R'" and "rt_positions R' = rt_positions R"
    and "rt_reports R' = rt_reports R"
proof -
  let ?Q = "own_side F side"
  define s where "s = rt_store R"
  define rows where "rows = sort_key or_created_ms (exposed ?Q (so_live (rows_of W) s))"
  define s1 where "s1 = net_entry_rows_fifo (rows_of W) rows q s"
  have b: "rt_has_store R" "well_filled (so_live (rows_of W) s)" "sided F (so_live (rows_of W) s)"
    using assms(1) by (auto simp: books_def s_def)
  have rows: "side_rows W F side R = rows"
    using b(1) by (simp add: side_rows_def owned_entry_rows_def own_rows_exposed rows_def s_def)
  have n: "nettable ?Q rows (so_live (rows_of W) s)"
    unfolding rows_def by (intro nettable_exposed live_distinct b(2))
  have tot: "total_filled rows = exposure ?Q (so_live (rows_of W) s)" by (simp add: rows_def)
  obtain R2 where R2: "guard_frame W K R2 R'" "rt_store R2 = s1" "rt_positions R2 = rt_positions R"
    "rt_has_store R2" "rt_reports R2 = rt_reports R"
  proof
    let ?R1 = "on_store (net_entry_rows_fifo (rows_of W) rows q) R"
    let ?R2 = "if mirror
                  then ?R1\<lparr>rt_inverse := net_inverse_mirror (Some market) side
                         (q - max (fifo_left rows q) 0) (rt_inverse ?R1)\<rparr>
                  else ?R1"
    show "guard_frame W K ?R2 R'"
      using assms(2) b(1) forget_flat_frame by (simp add: R'_def net_side_share_def Let_def rows)
    show "rt_store ?R2 = s1" "rt_positions ?R2 = rt_positions R" "rt_has_store ?R2" "rt_reports ?R2 = rt_reports R"
      using b(1) by (simp_all add: s1_def s_def)
  qed
  have after: "side_share W F sd R' = side_total (own_side F sd) (so_live (rows_of W) s1)"
    "side_exposed W F sd R' = exposure (own_side F sd) (so_live (rows_of W) s1)" for sd
    using frame_sides [OF R2(1)] R2(2) by (simp_all add: side_share_def side_exposed_def)
  have before: "side_share W F sd R = side_total (own_side F sd) (so_live (rows_of W) s)"
    "side_exposed W F sd R = exposure (own_side F sd) (so_live (rows_of W) s)" for sd
    by (simp_all add: side_share_def side_exposed_def s_def)
  note ft = fifo_total [OF n own_side_stable, of q] and fe = fifo_exposure [OF n own_side_stable, of q]
  have other: "side_share W F sd R' = side_share W F sd R \<and> side_exposed W F sd R' = side_exposed W F sd R"
    if "sd \<noteq> side" for sd
  proof -
    have ex: "\<not> own_side F sd r" if "own_side F side r" for r using that \<open>sd \<noteq> side\<close> by (auto simp: own_side_def)
    show ?thesis
      using fifo_total_other [OF n own_side_stable ex, of q] fifo_other [OF n own_side_stable ex, of q]
      by (simp add: after before s1_def)
  qed
  show "side_netted W F side q R R'"
    using ft fe assms(2) other unfolding side_netted_def Let_def abs_le_iff
    by (simp add: after before s1_def tot)
  have "well_filled (so_live (rows_of W) s1)" "sided F (so_live (rows_of W) s1)"
    unfolding s1_def using fifo_well_filled [OF n b(2)] fifo_sided [OF n b(3) own_side_stable] by auto
  then show "books W F R'" using frame_sides(3) [OF R2(1)] R2(2,4) by (simp add: books_def)
  show "rt_positions R' = rt_positions R" "rt_reports R' = rt_reports R"
    using R2 by (simp_all add: guard_frame_def)
qed

end

section \<open>The journal follows the ledger\<close>

text \<open>Slivers: rows of a side left with a fill too small to be netted.\<close>

definition slivers :: "'s framework_ops \<Rightarrow> framework \<Rightarrow> string \<Rightarrow> 's runtime \<Rightarrow> rat" where
  "slivers W F side R = side_share W F side R - side_exposed W F side R"

lemma slivers_nonneg: "slivers W F side R \<ge> 0"
  by (simp add: slivers_def side_share_def side_exposed_def exposure_le_total)

lemma netted_slivers:
  "side_netted W F side q R R' \<Longrightarrow> slivers W F s R' \<le> slivers W F s R + 2 * FILL_EPS"
  using eps_pos by (cases "s = side") (auto simp: side_netted_def slivers_def Let_def abs_le_iff)

lemma tolerance_nonneg: "qty_tolerance market \<ge> 0"
  using eps_pos by (auto simp: qty_tolerance_def split: num.split)

context runtime_store
begin

lemma cut_taken_effect:
  assumes "books W F R"
  shows "cut_taken W K market side q mirror R = R \<or> side_netted W F side q R (cut_taken W K market side q mirror R)"
    and "books W F (cut_taken W K market side q mirror R)"
    and "rt_positions (cut_taken W K market side q mirror R) = rt_positions R"
    and "slivers W F s (cut_taken W K market side q mirror R) \<le> slivers W F s R + 2 * FILL_EPS"
proof -
  have pos: "0 < q" if "q > qty_tolerance market" using that tolerance_nonneg [of market] by simp
  note eff = net_side_effect [OF assms pos, where market = market and side = side and mirror = mirror]
  show one: "cut_taken W K market side q mirror R = R \<or> side_netted W F side q R (cut_taken W K market side q mirror R)"
    and "books W F (cut_taken W K market side q mirror R)"
    and "rt_positions (cut_taken W K market side q mirror R) = rt_positions R"
    using eff assms by (auto simp: cut_taken_def)
  from one show "slivers W F s (cut_taken W K market side q mirror R) \<le> slivers W F s R + 2 * FILL_EPS"
    using netted_slivers eps_pos by (elim disjE) simp_all
qed

text \<open>The last step: a one-way share outside the band is netted to its edge.\<close>

lemma one_way_edge:
  assumes "books W F R" and "\<not> hedge (rt_positions R)" and "tol \<ge> 0"
    and "lo \<le> 0" and "0 \<le> hi"
    and R': "R' = (let J = journal_leg_share W F R ONE_WAY_IDX in
           if J > hi + tol then net_side_share W K market ''buy'' (J - hi) mirror R
           else if J < lo - tol then net_side_share W K market ''sell'' (lo - J) mirror R else R)"
  shows "journal_leg_share W F R' ONE_WAY_IDX \<le> hi + tol + slivers W F ''buy'' R + FILL_EPS"
    and "lo - tol - slivers W F ''sell'' R - FILL_EPS \<le> journal_leg_share W F R' ONE_WAY_IDX"
    and "books W F R'" and "rt_positions R' = rt_positions R"
proof -
  let ?J = "\<lambda>X. journal_leg_share W F X ONE_WAY_IDX"
  let ?B = "side_share W F ''buy''" and ?S = "side_share W F ''sell''"
  have J: "?J R = ?B R - ?S R" by (rule one_way_share [OF assms(1,2)])
  have nn: "?B R \<ge> 0" "?S R \<ge> 0" by (simp_all add: side_share_def side_total_nonneg)
  have sl: "slivers W F ''buy'' R \<ge> 0" "slivers W F ''sell'' R \<ge> 0" by (simp_all add: slivers_nonneg)
  have "?J R' \<le> hi + tol + slivers W F ''buy'' R + FILL_EPS \<and>
      lo - tol - slivers W F ''sell'' R - FILL_EPS \<le> ?J R' \<and> books W F R' \<and> rt_positions R' = rt_positions R"
  proof (cases "?J R > hi + tol")
    case True
    then have q: "0 < ?J R - hi" using assms(3) by simp
    note eff = net_side_effect [OF assms(1) q, where market = market and side = "''buy''" and mirror = mirror]
    have R'e: "R' = net_side_share W K market ''buy'' (?J R - hi) mirror R" using True by (simp add: R' Let_def)
    have J': "?J R' = ?B R' - ?S R'" using one_way_share [of W F R'] eff assms(2) by (simp add: R'e)
    have "?S R' = ?S R" "\<bar>?B R' - (?B R - min (?J R - hi) (side_exposed W F ''buy'' R))\<bar> \<le> FILL_EPS"
      using eff(1) by (auto simp: side_netted_def Let_def R'e)
    then have "?J R' \<le> hi + slivers W F ''buy'' R + FILL_EPS" "hi - FILL_EPS \<le> ?J R'"
      using J J' nn sl assms(5) by (auto simp: slivers_def abs_le_iff min_def split: if_splits)
    then show ?thesis using eff assms(3-5) sl by (simp add: R'e)
  next
    case le: False
    show ?thesis
    proof (cases "?J R < lo - tol")
      case True
      then have q: "0 < lo - ?J R" using assms(3) by simp
      note eff = net_side_effect [OF assms(1) q, where market = market and side = "''sell''" and mirror = mirror]
      have R'e: "R' = net_side_share W K market ''sell'' (lo - ?J R) mirror R" using True le by (simp add: R' Let_def)
      have J': "?J R' = ?B R' - ?S R'" using one_way_share [of W F R'] eff assms(2) by (simp add: R'e)
      have "?B R' = ?B R" "\<bar>?S R' - (?S R - min (lo - ?J R) (side_exposed W F ''sell'' R))\<bar> \<le> FILL_EPS"
        using eff(1) by (auto simp: side_netted_def Let_def R'e)
      then have "?J R' \<le> lo + FILL_EPS" "lo - slivers W F ''sell'' R - FILL_EPS \<le> ?J R'"
        using J J' nn sl assms(4) by (auto simp: slivers_def abs_le_iff min_def split: if_splits)
      then show ?thesis using eff assms(3-5) sl by (simp add: R'e)
    next
      case False
      then have "R' = R" using le by (simp add: R' Let_def)
      then show ?thesis using le False assms(1) sl eps_pos by simp
    qed
  qed
  then show "?J R' \<le> hi + tol + slivers W F ''buy'' R + FILL_EPS"
    and "lo - tol - slivers W F ''sell'' R - FILL_EPS \<le> ?J R'"
    and "books W F R'" and "rt_positions R' = rt_positions R" by auto
qed

lemma one_way_follows:
  fixes market :: instrument_info and mirror :: bool and target :: rat and taken :: "rat \<Rightarrow> rat option"
  assumes "books W F R" and "\<not> hedge (rt_positions R)"
  defines "R' \<equiv> sync_one_way W K market ONE_WAY_IDX target taken mirror R"
  shows "journal_leg_share W F R' ONE_WAY_IDX \<le> max target 0 + qty_tolerance market + slivers W F ''buy'' R + 5 * FILL_EPS"
    and "min target 0 - qty_tolerance market - slivers W F ''sell'' R - 5 * FILL_EPS \<le> journal_leg_share W F R' ONE_WAY_IDX"
    and "books W F R'" and "rt_positions R' = rt_positions R"
proof -
  define held where "held = (\<lambda>X. journal_leg_share W F X ONE_WAY_IDX)"
  define R1 where "R1 = cut_taken W K market ''buy''
                 (min (taken_on taken 1) (max 0 (held R - target + taken_on taken (- 1)))) mirror R"
  define R2 where "R2 = cut_taken W K market ''sell'' (min (taken_on taken (- 1)) (max 0 (target - held R1))) mirror R1"
  have b1: "books W F R1" "rt_positions R1 = rt_positions R"
    using cut_taken_effect [OF assms(1)] by (simp_all add: R1_def)
  have b2: "books W F R2" "rt_positions R2 = rt_positions R"
    using cut_taken_effect [OF b1(1)] b1(2) by (simp_all add: R2_def)
  have s1: "slivers W F s R1 \<le> slivers W F s R + 2 * FILL_EPS" for s
    unfolding R1_def by (rule cut_taken_effect(4) [OF assms(1)])
  have s2: "slivers W F s R2 \<le> slivers W F s R1 + 2 * FILL_EPS" for s
    unfolding R2_def by (rule cut_taken_effect(4) [OF b1(1)])
  have e: "R' = (let J = held R2 in
           if J > max target 0 + qty_tolerance market then net_side_share W K market ''buy'' (J - max target 0) mirror R2
           else if J < min target 0 - qty_tolerance market then net_side_share W K market ''sell'' (min target 0 - J) mirror R2
           else R2)"
    unfolding R'_def sync_one_way_def Let_def held_def R1_def R2_def by (rule refl)
  have h: "\<not> hedge (rt_positions R2)" using assms(2) by (simp add: b2)
  note edge = one_way_edge [OF b2(1) h tolerance_nonneg _ _ e [unfolded held_def]]
  show "journal_leg_share W F R' ONE_WAY_IDX \<le> max target 0 + qty_tolerance market + slivers W F ''buy'' R + 5 * FILL_EPS"
    using edge(1) s1 [of "''buy''"] s2 [of "''buy''"] by simp
  show "min target 0 - qty_tolerance market - slivers W F ''sell'' R - 5 * FILL_EPS \<le> journal_leg_share W F R' ONE_WAY_IDX"
    using edge(2) s1 [of "''sell''"] s2 [of "''sell''"] by simp
  show "books W F R'" "rt_positions R' = rt_positions R" using edge(3,4) b2 by simp_all
qed

end

lemma set_ledger_fields [simp]:
  "rt_store (set_ledger idx L R) = rt_store R" "rt_has_store (set_ledger idx L R) = rt_has_store R"
  "leg_ledger_of idx (set_ledger idx L R) = L" "rt_inverse (set_ledger idx L R) = rt_inverse R"
  "hedge (rt_positions (set_ledger idx L R)) = hedge (rt_positions R)"
  "rt_reports (set_ledger idx L R) = rt_reports R" "rt_saved_credits (set_ledger idx L R) = rt_saved_credits R"
  "rt_exec_ids (set_ledger idx L R) = rt_exec_ids R" "rt_baselined (set_ledger idx L R) = rt_baselined R"
  by (simp_all add: set_ledger_def leg_ledger_of_def ledger_of_def hedge_def)

lemma set_ledger_sides [simp]:
  "side_share W F side (set_ledger idx L R) = side_share W F side R"
  "side_exposed W F side (set_ledger idx L R) = side_exposed W F side R"
  "slivers W F side (set_ledger idx L R) = slivers W F side R"
  "books W F (set_ledger idx L R) = books W F R"
  by (simp_all add: side_share_def side_exposed_def slivers_def books_def)

lemma set_ledger_share [simp]:
  "journal_leg_share W F (set_ledger i L R) idx = journal_leg_share W F R idx"
  by (simp add: journal_leg_share_def owned_entry_rows_def)

lemma taken_target [simp]: "journal_target (fst (take_to_net L)) = journal_target L"
  by (simp add: journal_target_def take_to_net_def)

section \<open>The netting as arithmetic on the two sides\<close>

text \<open>
  What a synchronisation of a one-way leg means, without rows, lots and tolerances: on the quantities the
  buy and the sell rows hold, each side gives what the verdicts took from it (never more than keeps the
  net on the target's side), and then the side in excess of the target gives the rest.
\<close>

definition taken_cut :: "rat \<Rightarrow> rat \<Rightarrow> rat \<Rightarrow> rat" where
  "taken_cut held took room = max 0 (min held (min took (max 0 room)))"

definition ideal_netting :: "rat \<Rightarrow> rat \<Rightarrow> rat \<Rightarrow> rat \<times> rat \<Rightarrow> rat \<times> rat" where
  "ideal_netting target tb ts held =
     (case held of (b, s) \<Rightarrow>
        let b1 = b - taken_cut b tb (b - s - target + ts);
            s1 = s - taken_cut s ts (target - (b1 - s))
        in (b1 - max 0 (b1 - s1 - max target 0), s1 - max 0 (min target 0 - (b1 - s1))))"

text \<open>Where the verdicts took exactly what separates the journal from the target, each side gives just that.\<close>

lemma ideal_netting_exact:
  assumes "0 \<le> tb" "tb \<le> b" "0 \<le> ts" "ts \<le> s" and "target = b - s - tb + ts"
  shows "ideal_netting target tb ts (b, s) = (b - tb, s - ts)"
proof -
  have cb: "taken_cut b tb (b - s - target + ts) = tb" using assms by (simp add: taken_cut_def)
  have cs: "taken_cut s ts (target - (b - tb - s)) = ts" using assms by (simp add: taken_cut_def)
  have "b - tb - (s - ts) = target" using assms(5) by simp
  then show ?thesis by (simp add: ideal_netting_def Let_def cb cs)
qed

text \<open>A journal at or beyond the target, on the target's side, is brought to the target.\<close>

lemma ideal_netting_reaches:
  assumes "0 \<le> b" "0 \<le> s" and "(0 \<le> target \<and> target \<le> b - s \<and> ts \<le> s) \<or> (target \<le> 0 \<and> b - s \<le> target)"
  shows "fst (ideal_netting target tb ts (b, s)) - snd (ideal_netting target tb ts (b, s)) = target"
proof -
  define b1 where "b1 = b - taken_cut b tb (b - s - target + ts)"
  define s1 where "s1 = s - taken_cut s ts (target - (b1 - s))"
  have e: "fst (ideal_netting target tb ts (b, s)) - snd (ideal_netting target tb ts (b, s)) =
      (b1 - s1) - max 0 (b1 - s1 - max target 0) + max 0 (min target 0 - (b1 - s1))"
    by (simp add: ideal_netting_def Let_def b1_def s1_def)
  have cb: "0 \<le> b - b1" "b - b1 \<le> max 0 (b - s - target + ts)" "b - b1 \<le> b"
    using assms(1) by (simp_all add: b1_def taken_cut_def)
  have cs: "0 \<le> s - s1" "s - s1 \<le> max 0 (target - (b1 - s))" by (simp_all add: s1_def taken_cut_def)
  from assms(3) show ?thesis
  proof
    assume c: "0 \<le> target \<and> target \<le> b - s \<and> ts \<le> s"
    have "target \<le> b1 - s1"
    proof (cases "target \<le> b1 - s")
      case True
      then show ?thesis using cs(1) by simp
    next
      case False
      then have f: "b1 - s < target" by simp
      then have "0 < b - b1" using c by simp
      then have "b - b1 \<le> b - s - target + ts" using cb(2) by (simp add: max_def split: if_splits)
      then have "target - (b1 - s) \<le> ts" by simp
      then have "s - s1 = target - (b1 - s)" using f c by (simp add: s1_def taken_cut_def)
      then show ?thesis by simp
    qed
    then show ?thesis using c unfolding e by simp
  next
    assume c: "target \<le> 0 \<and> b - s \<le> target"
    have "b1 - s1 \<le> target" using c cb(1) cs(2) by (auto simp: max_def split: if_splits)
    then show ?thesis using c unfolding e by simp
  qed
qed

text \<open>How far the rows may be from it: the lots and tolerances of three steps and the slivers of both sides.\<close>

definition netting_slack :: "'s framework_ops \<Rightarrow> framework \<Rightarrow> instrument_info \<Rightarrow> 's runtime \<Rightarrow> rat" where
  "netting_slack W F market R =
     6 * qty_tolerance market + 4 * (slivers W F ''buy'' R + slivers W F ''sell'' R) + 14 * FILL_EPS"

lemma taken_cut_near: "\<bar>r - r'\<bar> \<le> e \<Longrightarrow> \<bar>taken_cut x t r - taken_cut x t r'\<bar> \<le> e"
  by (auto simp: taken_cut_def max_def min_def abs_le_iff)

lemma above_near: "\<bar>x - x'\<bar> \<le> e \<Longrightarrow> \<bar>max 0 (x - t) - max 0 (x' - t)\<bar> \<le> (e :: rat)"
  by (auto simp: max_def abs_le_iff)

lemma below_near: "\<bar>x - x'\<bar> \<le> e \<Longrightarrow> \<bar>max 0 (t - x) - max 0 (t - x')\<bar> \<le> (e :: rat)"
  by (auto simp: max_def abs_le_iff)

lemma short_of:
  fixes x m :: rat
  shows "\<bar>x - (y - m)\<bar> \<le> e \<Longrightarrow> v - sl \<le> m \<Longrightarrow> m \<le> v \<Longrightarrow> 0 \<le> t \<Longrightarrow> \<bar>x - (y - v)\<bar> \<le> t + e + sl"
  by (simp add: abs_le_iff)

context runtime_store
begin

text \<open>One cut on the rows is one cut on the side's quantity, up to a tolerance, a lot and its slivers.\<close>

lemma cut_taken_near:
  assumes "books W F R" and R'_def: "R' = cut_taken W K market side (min took (max 0 room)) mirror R"
  shows "\<bar>side_share W F side R' - (side_share W F side R - taken_cut (side_share W F side R) took room)\<bar>
      \<le> qty_tolerance market + FILL_EPS + slivers W F side R"
    and "s \<noteq> side \<Longrightarrow> side_share W F s R' = side_share W F s R"
proof -
  let ?q = "min took (max 0 room)" and ?X = "side_share W F side R"
  have nn: "0 \<le> ?X" "0 \<le> slivers W F side R" "0 \<le> side_exposed W F side R"
    by (simp_all add: side_share_def side_total_nonneg slivers_nonneg side_exposed_def exposure_nonneg)
  have ex: "side_exposed W F side R = ?X - slivers W F side R" by (simp add: slivers_def)
  have "\<bar>side_share W F side R' - (?X - taken_cut ?X took room)\<bar> \<le> qty_tolerance market + FILL_EPS + slivers W F side R \<and>
      (s \<noteq> side \<longrightarrow> side_share W F s R' = side_share W F s R)"
  proof (cases "?q > qty_tolerance market")
    case False
    then have "R' = R" unfolding R'_def cut_taken_def by (rule if_not_P)
    moreover have "0 \<le> taken_cut ?X took room" "taken_cut ?X took room \<le> qty_tolerance market"
      using False tolerance_nonneg [of market] by (auto simp: taken_cut_def)
    ultimately show ?thesis using nn eps_pos by (simp add: abs_le_iff)
  next
    case True
    then have q: "0 < ?q" using tolerance_nonneg [of market] by simp
    have e: "R' = net_side_share W K market side ?q mirror R" using True by (simp add: R'_def cut_taken_def)
    have n: "side_netted W F side ?q R R'" unfolding e by (rule net_side_effect(1) [OF assms(1) q])
    define c where "c = min ?q (side_exposed W F side R)"
    have near: "\<bar>side_share W F side R' - (?X - c)\<bar> \<le> FILL_EPS"
      using n by (simp add: side_netted_def c_def Let_def)
    have "0 \<le> taken_cut ?X took room - c" "taken_cut ?X took room - c \<le> slivers W F side R"
      using q nn unfolding c_def ex taken_cut_def by (auto simp: min_def max_def)
    then have "\<bar>side_share W F side R' - (?X - taken_cut ?X took room)\<bar> \<le> FILL_EPS + slivers W F side R"
      using near by (simp add: abs_le_iff)
    then show ?thesis using n tolerance_nonneg [of market] by (auto simp: side_netted_def)
  qed
  then show "\<bar>side_share W F side R' - (?X - taken_cut ?X took room)\<bar> \<le> qty_tolerance market + FILL_EPS + slivers W F side R"
    and "s \<noteq> side \<Longrightarrow> side_share W F s R' = side_share W F s R" by blast+
qed

text \<open>The last step: the side beyond the band gives what is beyond, the other keeps its rows.\<close>

lemma last_net_near:
  assumes "books W F R" and "\<not> hedge (rt_positions R)" and tol: "0 \<le> tol" and "lo \<le> 0" and "0 \<le> hi"
    and R': "R' = (let J = journal_leg_share W F R ONE_WAY_IDX in
           if J > hi + tol then net_side_share W K market ''buy'' (J - hi) mirror R
           else if J < lo - tol then net_side_share W K market ''sell'' (lo - J) mirror R else R)"
  shows "\<bar>side_share W F ''buy'' R' -
        (side_share W F ''buy'' R - max 0 (side_share W F ''buy'' R - side_share W F ''sell'' R - hi))\<bar>
      \<le> tol + FILL_EPS + slivers W F ''buy'' R"
    and "\<bar>side_share W F ''sell'' R' -
        (side_share W F ''sell'' R - max 0 (lo - (side_share W F ''buy'' R - side_share W F ''sell'' R)))\<bar>
      \<le> tol + FILL_EPS + slivers W F ''sell'' R"
proof -
  let ?B = "side_share W F ''buy''" and ?S = "side_share W F ''sell''"
  have J: "journal_leg_share W F R ONE_WAY_IDX = ?B R - ?S R" by (rule one_way_share [OF assms(1,2)])
  have nn: "0 \<le> ?B R" "0 \<le> ?S R" "0 \<le> slivers W F ''buy'' R" "0 \<le> slivers W F ''sell'' R"
    by (simp_all add: side_share_def side_total_nonneg slivers_nonneg)
  have ex: "side_exposed W F s R = side_share W F s R - slivers W F s R" for s by (simp add: slivers_def)
  have "\<bar>?B R' - (?B R - max 0 (?B R - ?S R - hi))\<bar> \<le> tol + FILL_EPS + slivers W F ''buy'' R \<and>
      \<bar>?S R' - (?S R - max 0 (lo - (?B R - ?S R)))\<bar> \<le> tol + FILL_EPS + slivers W F ''sell'' R"
  proof (cases "?B R - ?S R > hi + tol")
    case True
    then have q: "0 < ?B R - ?S R - hi" using tol by simp
    have e: "R' = net_side_share W K market ''buy'' (?B R - ?S R - hi) mirror R" using True by (simp add: R' J)
    have n: "side_netted W F ''buy'' (?B R - ?S R - hi) R R'" unfolding e by (rule net_side_effect(1) [OF assms(1) q])
    have S: "?S R' = ?S R" using n by (simp add: side_netted_def)
    have z: "max 0 (lo - (?B R - ?S R)) = 0" "max 0 (?B R - ?S R - hi) = ?B R - ?S R - hi" using q assms(4,5) by simp_all
    have "\<bar>?B R' - (?B R - min (?B R - ?S R - hi) (?B R - slivers W F ''buy'' R))\<bar> \<le> FILL_EPS"
      using n by (simp add: side_netted_def ex Let_def)
    from short_of [OF this _ _ tol, of "?B R - ?S R - hi" "slivers W F ''buy'' R"]
    show ?thesis using nn tol eps_pos assms(5) unfolding S z by simp
  next
    case le: False
    show ?thesis
    proof (cases "?B R - ?S R < lo - tol")
      case True
      then have q: "0 < lo - (?B R - ?S R)" using tol by simp
      have e: "R' = net_side_share W K market ''sell'' (lo - (?B R - ?S R)) mirror R" using True le by (simp add: R' J)
      have n: "side_netted W F ''sell'' (lo - (?B R - ?S R)) R R'" unfolding e by (rule net_side_effect(1) [OF assms(1) q])
      have B: "?B R' = ?B R" using n by (simp add: side_netted_def)
      have z: "max 0 (?B R - ?S R - hi) = 0" "max 0 (lo - (?B R - ?S R)) = lo - (?B R - ?S R)" using q assms(4,5) by simp_all
      have "\<bar>?S R' - (?S R - min (lo - (?B R - ?S R)) (?S R - slivers W F ''sell'' R))\<bar> \<le> FILL_EPS"
        using n by (simp add: side_netted_def ex Let_def)
      from short_of [OF this _ _ tol, of "lo - (?B R - ?S R)" "slivers W F ''sell'' R"]
      show ?thesis using nn tol eps_pos assms(4) unfolding B z by simp
    next
      case False
      then have "R' = R" using le by (simp add: R' J)
      then show ?thesis using le False nn tol eps_pos by (auto simp: abs_le_iff max_def)
    qed
  qed
  then show "\<bar>?B R' - (?B R - max 0 (?B R - ?S R - hi))\<bar> \<le> tol + FILL_EPS + slivers W F ''buy'' R"
    and "\<bar>?S R' - (?S R - max 0 (lo - (?B R - ?S R)))\<bar> \<le> tol + FILL_EPS + slivers W F ''sell'' R" by blast+
qed

text \<open>The whole synchronisation is the ideal netting of the two sides, within the slack.\<close>

lemma one_way_near:
  assumes "books W F R" and "\<not> hedge (rt_positions R)"
    and R'_def: "R' = sync_one_way W K market ONE_WAY_IDX target taken mirror R"
    and N: "(b', s') = ideal_netting target (taken_on taken 1) (taken_on taken (- 1))
      (side_share W F ''buy'' R, side_share W F ''sell'' R)"
  shows "\<bar>side_share W F ''buy'' R' - b'\<bar> \<le> netting_slack W F market R"
    and "\<bar>side_share W F ''sell'' R' - s'\<bar> \<le> netting_slack W F market R"
proof -
  let ?B = "side_share W F ''buy''" and ?S = "side_share W F ''sell''"
  let ?sb = "slivers W F ''buy'' R" and ?ss = "slivers W F ''sell'' R"
  let ?tol = "qty_tolerance market" and ?tb = "taken_on taken 1" and ?ts = "taken_on taken (- 1)"
  define held where "held = (\<lambda>X. journal_leg_share W F X ONE_WAY_IDX)"
  define R1 where "R1 = cut_taken W K market ''buy'' (min ?tb (max 0 (held R - target + ?ts))) mirror R"
  define R2 where "R2 = cut_taken W K market ''sell'' (min ?ts (max 0 (target - held R1))) mirror R1"
  define b1 where "b1 = ?B R - taken_cut (?B R) ?tb (held R - target + ?ts)"
  define s1 where "s1 = ?S R - taken_cut (?S R) ?ts (target - (b1 - ?S R))"
  have b1k: "books W F R1" "rt_positions R1 = rt_positions R"
    using cut_taken_effect [OF assms(1)] by (simp_all add: R1_def)
  have b2k: "books W F R2" "rt_positions R2 = rt_positions R"
    using cut_taken_effect [OF b1k(1)] b1k(2) by (simp_all add: R2_def)
  have s1l: "slivers W F s R1 \<le> slivers W F s R + 2 * FILL_EPS" for s
    unfolding R1_def by (rule cut_taken_effect(4) [OF assms(1)])
  have s2l: "slivers W F s R2 \<le> slivers W F s R1 + 2 * FILL_EPS" for s
    unfolding R2_def by (rule cut_taken_effect(4) [OF b1k(1)])
  have J: "held R = ?B R - ?S R" unfolding held_def by (rule one_way_share [OF assms(1,2)])
  have J1: "held R1 = ?B R1 - ?S R1"
    unfolding held_def using one_way_share [OF b1k(1)] b1k(2) assms(2) by simp
  have B1: "\<bar>?B R1 - b1\<bar> \<le> ?tol + FILL_EPS + ?sb" and S1: "?S R1 = ?S R"
    using cut_taken_near [OF assms(1) R1_def] by (simp_all add: b1_def)
  have S2: "\<bar>?S R2 - (?S R - taken_cut (?S R) ?ts (target - held R1))\<bar> \<le> ?tol + FILL_EPS + slivers W F ''sell'' R1"
    and B2: "?B R2 = ?B R1"
    using cut_taken_near [OF b1k(1) R2_def] by (simp_all add: S1)
  have "\<bar>(target - held R1) - (target - (b1 - ?S R))\<bar> \<le> ?tol + FILL_EPS + ?sb"
    using B1 by (simp add: J1 S1 abs_le_iff)
  from taken_cut_near [OF this, of "?S R" ?ts]
  have S2': "\<bar>?S R2 - s1\<bar> \<le> 2 * ?tol + 4 * FILL_EPS + ?sb + ?ss"
    using S2 s1l [of "''sell''"] by (simp add: s1_def abs_le_iff)
  have D: "\<bar>(?B R2 - ?S R2) - (b1 - s1)\<bar> \<le> 3 * ?tol + 5 * FILL_EPS + 2 * ?sb + ?ss"
    using S2' B1 by (simp add: B2 abs_le_iff)
  have e: "R' = (let J = journal_leg_share W F R2 ONE_WAY_IDX in
           if J > max target 0 + ?tol then net_side_share W K market ''buy'' (J - max target 0) mirror R2
           else if J < min target 0 - ?tol then net_side_share W K market ''sell'' (min target 0 - J) mirror R2
           else R2)"
    unfolding R'_def sync_one_way_def Let_def held_def R1_def R2_def by (rule refl)
  have h: "\<not> hedge (rt_positions R2)" using assms(2) by (simp add: b2k)
  note last = last_net_near [OF b2k(1) h tolerance_nonneg _ _ e]
  have n: "b' = b1 - max 0 (b1 - s1 - max target 0)" "s' = s1 - max 0 (min target 0 - (b1 - s1))"
    using N by (simp_all add: ideal_netting_def Let_def b1_def s1_def J)
  have pos: "0 \<le> ?tol" "0 \<le> ?sb" "0 \<le> ?ss" "0 < FILL_EPS"
    by (simp_all add: tolerance_nonneg slivers_nonneg eps_pos)
  have "\<bar>?B R' - b'\<bar> \<le> (?tol + FILL_EPS + (?sb + 4 * FILL_EPS)) + (?tol + FILL_EPS + ?sb) +
      (3 * ?tol + 5 * FILL_EPS + 2 * ?sb + ?ss)"
    using last(1) above_near [OF D, of "max target 0"] B1 s1l [of "''buy''"] s2l [of "''buy''"]
    by (simp add: n B2 abs_le_iff)
  then show "\<bar>?B R' - b'\<bar> \<le> netting_slack W F market R" using pos by (simp add: netting_slack_def)
  have "\<bar>?S R' - s'\<bar> \<le> (?tol + FILL_EPS + (?ss + 4 * FILL_EPS)) + (2 * ?tol + 4 * FILL_EPS + ?sb + ?ss) +
      (3 * ?tol + 5 * FILL_EPS + 2 * ?sb + ?ss)"
    using last(2) below_near [OF D, of "min target 0"] S2' s1l [of "''sell''"] s2l [of "''sell''"]
    by (simp add: n abs_le_iff)
  then show "\<bar>?S R' - s'\<bar> \<le> netting_slack W F market R" using pos by (simp add: netting_slack_def)
qed

end

text \<open>The bounds of a one-way leg's share for a target, with the slack of the netting.\<close>

definition in_band :: "instrument_info \<Rightarrow> rat \<Rightarrow> rat \<Rightarrow> rat \<Rightarrow> bool" where
  "in_band market target slack share \<longleftrightarrow>
     min target 0 - qty_tolerance market - slack \<le> share \<and> share \<le> max target 0 + qty_tolerance market + slack"

context runtime_store
begin

lemma hedge_follows:
  fixes market :: instrument_info and mirror :: bool and target :: rat
  assumes "books W F R" and "hedge (rt_positions R)" and idx: "idx = HEDGE_IDX_BUY \<or> idx = HEDGE_IDX_SELL"
  defines "R' \<equiv> sync_hedge_leg W K market idx target mirror R"
  shows "journal_leg_share W F R' idx \<le> max target 0 + qty_tolerance market + FILL_EPS"
    and "min (journal_leg_share W F R idx) (max target 0) - FILL_EPS \<le> journal_leg_share W F R' idx"
    and "books W F R'" and "rt_positions R' = rt_positions R"
proof -
  define side where "side = (if idx = HEDGE_IDX_BUY then ''buy'' else ''sell'')"
  have share: "journal_leg_share W F X idx = side_exposed W F side X" if "books W F X" "hedge (rt_positions X)" for X
    using hedge_share [OF that] idx by (auto simp: side_def idx_defs)
  let ?J = "journal_leg_share W F R idx"
  have nn: "?J \<ge> 0" by (simp add: share [OF assms(1,2)] side_exposed_def exposure_nonneg)
  have "journal_leg_share W F R' idx \<le> max target 0 + qty_tolerance market + FILL_EPS \<and>
      min ?J (max target 0) - FILL_EPS \<le> journal_leg_share W F R' idx \<and> books W F R' \<and> rt_positions R' = rt_positions R"
  proof (cases "?J > target + qty_tolerance market \<and> ?J > max target 0")
    case True
    then have q: "0 < ?J - max target 0" by simp
    note eff = net_side_effect [OF assms(1) q, where market = market and side = side and mirror = mirror]
    have e: "R' = net_side_share W K market side (?J - max target 0) mirror R"
      using True by (simp add: R'_def sync_hedge_leg_def side_def Let_def)
    have "journal_leg_share W F R' idx = side_exposed W F side R'"
      using share [of R'] eff assms(2) by (simp add: e)
    moreover have "\<bar>side_exposed W F side R' - max target 0\<bar> \<le> FILL_EPS"
      using eff(1) share [OF assms(1,2)] by (simp add: e side_netted_def Let_def min_def)
    ultimately show ?thesis using eff tolerance_nonneg [of market] by (auto simp: e abs_le_iff)
  next
    case False
    then have "R' = R"
      by (auto simp: R'_def sync_hedge_leg_def net_side_share_def Let_def)
    then show ?thesis using False assms(1) eps_pos tolerance_nonneg [of market] by auto
  qed
  then show "journal_leg_share W F R' idx \<le> max target 0 + qty_tolerance market + FILL_EPS"
    and "min ?J (max target 0) - FILL_EPS \<le> journal_leg_share W F R' idx" and "books W F R'"
    and "rt_positions R' = rt_positions R" by auto
qed

end

text \<open>
  A one-way synchronisation in full: the two sides are netted as the verdicts say, and the share lies in
  the band of the target.
\<close>

lemma journal_follows:
  assumes "runtime_store W K" and "books W (fk_base K) R" and "\<not> hedge (rt_positions R)"
    and "R' = sync_leg_journal W K market ONE_WAY_IDX mirror R"
  defines "L \<equiv> leg_ledger_of ONE_WAY_IDX R"
  shows "in_band market (journal_target L)
      (slivers W (fk_base K) ''buy'' R + slivers W (fk_base K) ''sell'' R + 5 * FILL_EPS)
      (journal_leg_share W (fk_base K) R' ONE_WAY_IDX)"
    and "books W (fk_base K) R'" and "ll_to_net (leg_ledger_of ONE_WAY_IDX R') = Map.empty"
    and "journal_target (leg_ledger_of ONE_WAY_IDX R') = journal_target L"
    and "(b', s') = ideal_netting (journal_target L) (taken_on (ll_to_net L) 1) (taken_on (ll_to_net L) (- 1))
        (side_share W (fk_base K) ''buy'' R, side_share W (fk_base K) ''sell'' R) \<Longrightarrow>
      \<bar>side_share W (fk_base K) ''buy'' R' - b'\<bar> \<le> netting_slack W (fk_base K) market R \<and>
      \<bar>side_share W (fk_base K) ''sell'' R' - s'\<bar> \<le> netting_slack W (fk_base K) market R"
    and "\<not> hedge (rt_positions R')"
proof -
  let ?F = "fk_base K"
  let ?L = "fst (take_to_net (leg_ledger_of ONE_WAY_IDX R))"
  let ?R1 = "set_ledger ONE_WAY_IDX ?L R"
  have st: "rt_has_store R" using assms(2) by (simp add: books_def)
  have e: "R' = sync_one_way W K market ONE_WAY_IDX (journal_target ?L) (snd (take_to_net (leg_ledger_of ONE_WAY_IDX R))) mirror ?R1"
    using st by (simp add: assms(4) sync_leg_journal_def idx_defs case_prod_unfold Let_def)
  have b: "books W ?F ?R1" "\<not> hedge (rt_positions ?R1)" using assms(2,3) by simp_all
  note f = runtime_store.one_way_follows [OF assms(1) b, where market = market and mirror = mirror
      and target = "journal_target ?L" and taken = "snd (take_to_net (leg_ledger_of ONE_WAY_IDX R))", folded e]
  show "in_band market (journal_target L)
      (slivers W ?F ''buy'' R + slivers W ?F ''sell'' R + 5 * FILL_EPS)
      (journal_leg_share W ?F R' ONE_WAY_IDX)"
    using f(1) f(2) slivers_nonneg [of W ?F "''buy''" R] slivers_nonneg [of W ?F "''sell''" R]
    by (simp add: in_band_def L_def)
  show "books W ?F R'" using f(3) .
  have p: "rt_positions R' = rt_positions ?R1" using f(4) .
  then show "\<not> hedge (rt_positions R')" using assms(3) by simp
  from p have "leg_ledger_of ONE_WAY_IDX R' = ?L" by (simp add: leg_ledger_of_def set_ledger_def ledger_of_def)
  then show "ll_to_net (leg_ledger_of ONE_WAY_IDX R') = Map.empty"
    and "journal_target (leg_ledger_of ONE_WAY_IDX R') = journal_target L"
    by (simp_all add: take_to_net_def journal_target_def L_def)
  assume N: "(b', s') = ideal_netting (journal_target L) (taken_on (ll_to_net L) 1) (taken_on (ll_to_net L) (- 1))
        (side_share W ?F ''buy'' R, side_share W ?F ''sell'' R)"
  have "(b', s') = ideal_netting (journal_target ?L) (taken_on (snd (take_to_net (leg_ledger_of ONE_WAY_IDX R))) 1)
      (taken_on (snd (take_to_net (leg_ledger_of ONE_WAY_IDX R))) (- 1)) (side_share W ?F ''buy'' ?R1, side_share W ?F ''sell'' ?R1)"
    using N by (simp add: take_to_net_def L_def journal_target_def)
  from runtime_store.one_way_near [OF assms(1) b e this]
  show "\<bar>side_share W ?F ''buy'' R' - b'\<bar> \<le> netting_slack W ?F market R \<and>
      \<bar>side_share W ?F ''sell'' R' - s'\<bar> \<le> netting_slack W ?F market R"
    by (simp add: netting_slack_def)
qed

text \<open>The share of the leg afterwards, against the target.\<close>

lemma journal_reaches_target:
  assumes "runtime_store W K" and "books W (fk_base K) R" and "\<not> hedge (rt_positions R)"
    and "R' = sync_leg_journal W K market ONE_WAY_IDX mirror R"
    and "T = journal_target (leg_ledger_of ONE_WAY_IDX R)" and "J = journal_leg_share W (fk_base K) R ONE_WAY_IDX"
    and side: "(0 \<le> T \<and> T \<le> J \<and> taken_on (ll_to_net (leg_ledger_of ONE_WAY_IDX R)) (- 1) \<le> side_share W (fk_base K) ''sell'' R) \<or>
      (T \<le> 0 \<and> J \<le> T)"
  shows "\<bar>journal_leg_share W (fk_base K) R' ONE_WAY_IDX - T\<bar> \<le> 2 * netting_slack W (fk_base K) market R"
proof -
  let ?F = "fk_base K" and ?L = "leg_ledger_of ONE_WAY_IDX R"
  obtain b' s' where N: "(b', s') = ideal_netting (journal_target ?L) (taken_on (ll_to_net ?L) 1) (taken_on (ll_to_net ?L) (- 1))
      (side_share W ?F ''buy'' R, side_share W ?F ''sell'' R)"
    by (cases "ideal_netting (journal_target ?L) (taken_on (ll_to_net ?L) 1) (taken_on (ll_to_net ?L) (- 1))
      (side_share W ?F ''buy'' R, side_share W ?F ''sell'' R)") simp
  note f = journal_follows [OF assms(1-4)]
  have J: "J = side_share W ?F ''buy'' R - side_share W ?F ''sell'' R"
    using one_way_share [OF assms(2,3)] assms(6) by simp
  have J': "journal_leg_share W ?F R' ONE_WAY_IDX = side_share W ?F ''buy'' R' - side_share W ?F ''sell'' R'"
    by (rule one_way_share [OF f(2) f(6)])
  have "fst (b', s') - snd (b', s') = journal_target ?L"
    unfolding N by (rule ideal_netting_reaches) (use side J assms(5) in \<open>auto simp: side_share_def side_total_nonneg\<close>)
  then have "b' - s' = T" using assms(5) by simp
  then show ?thesis using f(5) [OF N] by (simp add: J' abs_le_iff)
qed

definition example_netted :: "desk runtime" where
  "example_netted = (new_runtime True
       \<lparr>dk_rows = [example_entry_row ''b'' 2 2 20, example_entry_row ''a'' 3 3 10], dk_closed = [], dk_envelopes = [],
        dk_levels = [], dk_resolutions = []\<rparr>)
     \<lparr>rt_positions := new_positions\<lparr>ps_ledgers := Map.empty(0 \<mapsto>
        new_ledger\<lparr>ll_cursor_seq := Some 1, ll_cursor_leg := 4, ll_share := 4, ll_journal := 4\<rparr>)\<rparr>\<rparr>"

text \<open>
  C34. The journal follows the ledger. Where a one-way leg's ledger is brought back to the journal, the rows
  are netted as the ledger's verdicts say: the quantity the buy rows hold afterwards, and the one the sell
  rows hold, are those of the ideal netting, each side giving what the verdicts took from it and the side
  in excess of the ledger's target the rest, up to the quantity tolerance, the slivers the store drops and
  the rounding of a fill. A journal that held at least the target, on the target's side, with rows for the
  sells the verdicts took, therefore holds the target afterwards. The rows stay well formed, every pending
  netting of the leg is used up and the ledger's own target is the one it was.
\<close>

theorem journal_follows_ledger:
  assumes "runtime_store W K" and "books W (fk_base K) R" and "\<not> hedge (rt_positions R)"
    and "R' = sync_leg_journal W K market ONE_WAY_IDX mirror R"
    and "L = leg_ledger_of ONE_WAY_IDX R" and "F = fk_base K" and "slack = netting_slack W F market R"
    and "J = journal_leg_share W F R ONE_WAY_IDX" and "J' = journal_leg_share W F R' ONE_WAY_IDX"
    and "(b', s') = ideal_netting (journal_target L) (taken_on (ll_to_net L) 1) (taken_on (ll_to_net L) (- 1))
      (side_share W F ''buy'' R, side_share W F ''sell'' R)"
  shows "\<bar>side_share W F ''buy'' R' - b'\<bar> \<le> slack \<and> \<bar>side_share W F ''sell'' R' - s'\<bar> \<le> slack \<and>
    ((0 \<le> journal_target L \<and> journal_target L \<le> J \<and> taken_on (ll_to_net L) (- 1) \<le> side_share W F ''sell'' R) \<or>
       (journal_target L \<le> 0 \<and> J \<le> journal_target L) \<longrightarrow> \<bar>J' - journal_target L\<bar> \<le> 2 * slack) \<and>
    in_band market (journal_target L) (slivers W F ''buy'' R + slivers W F ''sell'' R + 5 * FILL_EPS) J' \<and>
    books W F R' \<and> ll_to_net (leg_ledger_of ONE_WAY_IDX R') = Map.empty \<and>
    journal_target (leg_ledger_of ONE_WAY_IDX R') = journal_target L"
  using journal_follows [OF assms(1-4)] journal_reaches_target [OF assms(1-4)] assms(5-10) by blast

theorem journal_follows_ledger_witness:
  "\<bar>journal_leg_share (desk_ops []) example_framework
        (sync_leg_journal (desk_ops []) example_keys example_perpetual ONE_WAY_IDX True example_netted) ONE_WAY_IDX - 4\<bar>
     \<le> 2 * netting_slack (desk_ops []) example_framework example_perpetual example_netted"
proof -
  have k: "fk_base example_keys = example_framework" by (simp add: example_keys_def)
  have rows: "so_live (rows_of (desk_ops [])) (rt_store example_netted) = [example_entry_row ''b'' 2 2 20, example_entry_row ''a'' 3 3 10]"
    by code_simp
  have side: "or_side (example_entry_row c q f t) = ''buy''" "or_filled (example_entry_row c q f t) = f"
    "or_qty (example_entry_row c q f t) = q" for c q f t
    by (simp_all add: example_entry_row_def)
  have "rt_has_store example_netted" by (simp add: example_netted_def new_runtime_def)
  then have b: "books (desk_ops []) example_framework example_netted"
    unfolding books_def rows by (simp add: well_filled_def sided_def side)
  have h: "\<not> hedge (rt_positions example_netted)"
    by (simp add: example_netted_def hedge_def new_positions_def)
  have v: "journal_target (leg_ledger_of ONE_WAY_IDX example_netted) = 4"
    "journal_leg_share (desk_ops []) example_framework example_netted ONE_WAY_IDX = 5"
    "taken_on (ll_to_net (leg_ledger_of ONE_WAY_IDX example_netted)) (- 1) = 0"
    "side_share (desk_ops []) example_framework ''sell'' example_netted = 0"
    by code_simp+
  have n: "(4, 0) = ideal_netting (journal_target (leg_ledger_of ONE_WAY_IDX example_netted))
      (taken_on (ll_to_net (leg_ledger_of ONE_WAY_IDX example_netted)) 1)
      (taken_on (ll_to_net (leg_ledger_of ONE_WAY_IDX example_netted)) (- 1))
      (side_share (desk_ops []) example_framework ''buy'' example_netted,
       side_share (desk_ops []) example_framework ''sell'' example_netted)"
    by code_simp
  show ?thesis
    using journal_follows_ledger [OF desk.runtime_store_axioms b [folded k] h refl refl k [symmetric] refl refl refl n,
        where market = example_perpetual and mirror = True]
    by (simp add: v)
qed

end
