(* ===== verification/Glue_Theorems.thy ===== *)
theory Glue_Theorems
  imports Share_Netting
begin

text \<open>
  What the ledger glue of \<^verbatim>\<open>src/src/pynecore_bybit/protection.py\<close> guarantees over a run: the credits of
  every give-up are in the journal as soon as they exist, each execution is entered once, and a foreign
  close is reported once and only when the ledger proved it.
\<close>

section \<open>Credits are durable\<close>

text \<open>The credits that still count; a fresh leg has none.\<close>

definition live_credits :: "rat \<Rightarrow> leg_credits \<Rightarrow> leg_credits" where
  "live_credits t cs = filter (\<lambda>c. fst (snd c) > t) cs"

definition credits_saved :: "rat \<Rightarrow> 's runtime \<Rightarrow> bool" where
  "credits_saved t R \<longleftrightarrow>
     (\<forall>i. live_credits t (ll_credits (leg_ledger_of i R)) = live_credits t (rt_saved_credits R i))"

text \<open>The foreign orders whose close was reported, in the order of the reports.\<close>

fun closes_in :: "report list \<Rightarrow> string list" where
  "closes_in [] = []"
| "closes_in (ExternalClose key consumed doubtful # es) = key # closes_in es"
| "closes_in (e # es) = closes_in es"

abbreviation reported_orders :: "'s runtime \<Rightarrow> string list" where
  "reported_orders R \<equiv> closes_in (rt_reports R)"

lemma closes_in_append [simp]: "closes_in (xs @ ys) = closes_in xs @ closes_in ys"
  by (induction xs rule: closes_in.induct) simp_all

definition closes_ok :: "'s runtime \<Rightarrow> bool" where
  "closes_ok R \<longleftrightarrow> reported_orders R = rev (rt_reported_closes R) \<and> distinct (rt_reported_closes R)"

lemma reported_closes_kept [simp]:
  "rt_reported_closes (set_ledger idx L R) = rt_reported_closes R"
  "rt_reported_closes (on_store f R) = rt_reported_closes R"
  by (simp_all add: set_ledger_def on_store_def)

lemma closes_ok_kept:
  "closes_ok R \<Longrightarrow> rt_reports R' = rt_reports R \<Longrightarrow> rt_reported_closes R' = rt_reported_closes R \<Longrightarrow> closes_ok R'"
  by (simp add: closes_ok_def)

lemma closes_ok_set [simp]:
  "closes_ok (set_ledger idx L R) = closes_ok R"
  "closes_ok (R\<lparr>rt_saved_credits := cs\<rparr>) = closes_ok R"
  "closes_ok (R\<lparr>rt_exec_ids := ids\<rparr>) = closes_ok R"
  by (simp_all add: closes_ok_def)

definition same_credits :: "'s runtime \<Rightarrow> 's runtime \<Rightarrow> bool" where
  "same_credits R R' \<longleftrightarrow>
     rt_saved_credits R' = rt_saved_credits R \<and> rt_has_store R' = rt_has_store R \<and>
     reported_orders R' = reported_orders R \<and> rt_reported_closes R' = rt_reported_closes R \<and>
     (\<forall>i. ll_credits (leg_ledger_of i R') = ll_credits (leg_ledger_of i R) \<and>
       ll_cursor_seq (leg_ledger_of i R') = ll_cursor_seq (leg_ledger_of i R))"

lemma same_credits_refl [simp]: "same_credits R R"
  by (simp add: same_credits_def)

lemma same_credits_trans: "same_credits R R1 \<Longrightarrow> same_credits R1 R2 \<Longrightarrow> same_credits R R2"
  by (simp add: same_credits_def)

lemma same_credits_saved: "same_credits R R' \<Longrightarrow> credits_saved t R \<Longrightarrow> credits_saved t R'"
  by (simp add: same_credits_def credits_saved_def)

lemma leg_of_set [simp]:
  "leg_ledger_of i (set_ledger idx L R) = (if i = idx then L else leg_ledger_of i R)"
  by (simp add: leg_ledger_of_def set_ledger_def ledger_of_def)

lemma set_same_credits:
  "ll_credits L = ll_credits (leg_ledger_of idx R) \<Longrightarrow> ll_cursor_seq L = ll_cursor_seq (leg_ledger_of idx R) \<Longrightarrow>
   same_credits R (set_ledger idx L R)"
  by (simp add: same_credits_def)

lemma report_fields [simp]:
  "rt_positions (report e R) = rt_positions R" "rt_saved_credits (report e R) = rt_saved_credits R"
  "rt_has_store (report e R) = rt_has_store R" "rt_exec_ids (report e R) = rt_exec_ids R"
  by (simp_all add: report_def)

lemma audit_same: "same_credits R (audit_event k c a R)"
  by (simp add: audit_event_def same_credits_def leg_ledger_of_def)

lemma log_outcome_same: "same_credits R (log_outcome market idx o1 R)"
  by (simp add: log_outcome_def log_ledger_clamp_def log_settled_execution_def log_foreign_def Let_def audit_same
      split: option.split)

lemma log_same: "same_credits R (fold (log_outcome market idx) os R)"
  by (induction os arbitrary: R) (auto intro: same_credits_trans [OF log_outcome_same])

context runtime_store
begin

lemma frame_same: "guard_frame W K R R' \<Longrightarrow> same_credits R R'"
  by (simp add: guard_frame_def same_credits_def leg_ledger_of_def)

lemma net_side_same: "same_credits R (net_side_share W K market side q mirror R)"
proof (cases "\<not> rt_has_store R \<or> q \<le> 0")
  case True
  then show ?thesis by (simp add: net_side_share_def)
next
  case False
  have "same_credits R X" if "X = (if mirror then R1\<lparr>rt_inverse := v\<rparr> else R1)" "R1 = on_store g R" for X R1 v g
    using that by (auto simp: same_credits_def leg_ledger_of_def)
  then show ?thesis
    using False by (auto simp: net_side_share_def Let_def intro!: same_credits_trans [OF _ frame_same [OF forget_flat_frame]])
qed

lemma cut_taken_same: "same_credits R (cut_taken W K market side q mirror R)"
  by (simp add: cut_taken_def net_side_same)

lemma same_credits_if: "same_credits R X \<Longrightarrow> same_credits R Y \<Longrightarrow> same_credits R (if b then X else Y)"
  by simp

lemma two_cuts:
  "same_credits R (cut_taken W K market s2 q2 mirror (cut_taken W K market s1 q1 mirror R))"
  by (rule same_credits_trans [OF cut_taken_same cut_taken_same])

lemma sync_same: "same_credits R (sync_leg_journal W K market idx mirror R)"
proof -
  let ?R1 = "set_ledger idx (fst (take_to_net (leg_ledger_of idx R))) R"
  have "same_credits R ?R1" by (rule set_same_credits) (simp_all add: take_to_net_def)
  moreover have "same_credits X (sync_hedge_leg W K market idx t mirror X)" for X t
    by (simp add: sync_hedge_leg_def Let_def net_side_same)
  moreover have "same_credits X (sync_one_way W K market idx t m mirror X)" for X t m
    unfolding sync_one_way_def Let_def
    by (rule same_credits_if, rule two_cuts [THEN same_credits_trans, OF net_side_same], rule same_credits_if,
        rule two_cuts [THEN same_credits_trans, OF net_side_same], rule two_cuts)
  ultimately show ?thesis
    unfolding sync_leg_journal_def case_prod_unfold Let_def using same_credits_trans [of R ?R1]
    by (simp add: take_to_net_def)
qed

end

lemma persist_saved:
  assumes "rt_has_store R" and "\<And>i. i \<noteq> idx \<Longrightarrow>
      live_credits t (ll_credits (leg_ledger_of i R)) = live_credits t (rt_saved_credits R i)"
  shows "credits_saved t (persist_ledger_credits idx (ll_credits (leg_ledger_of idx R)) R)"
  using assms by (auto simp: persist_ledger_credits_def credits_saved_def leg_ledger_of_def)

lemma take_loop_none:
  assumes "take_loop seq q d t taken cs = (cs', r)" and "t \<ge> 0"
  shows "taken \<le> r \<and> (r = taken \<longrightarrow> cs' = cs)"
  using assms(1)
proof (induction cs arbitrary: taken cs' r)
  case Nil
  then show ?case by simp
next
  case (Cons c cs)
  obtain cseq cq cd where c: "c = (cseq, cq, cd)" by (cases c)
  note prem = Cons.prems [unfolded c]
  show ?case
  proof (cases "q - taken \<le> t")
    case True
    then show ?thesis using prem c by simp
  next
    case more: False
    show ?thesis
    proof (cases "seq > cseq \<or> cq \<le> t \<or> cd \<noteq> d")
      case True
      obtain cs1 r1 where l: "take_loop seq q d t taken cs = (cs1, r1)" by (metis surj_pair)
      have "cs' = c # cs1" "r = r1" using prem more True l c by simp_all
      then show ?thesis using Cons.IH [OF l] by simp
    next
      case False
      define part where "part = min cq (q - taken)"
      obtain cs1 r1 where l: "take_loop seq q d t (taken + part) cs = (cs1, r1)" by (metis surj_pair)
      have "r = r1" using prem more False l by (simp add: part_def [symmetric])
      moreover have "part > 0" using more False assms(2) by (simp add: part_def)
      ultimately show ?thesis using Cons.IH [OF l] by simp
    qed
  qed
qed

lemma take_credit_none:
  assumes "take_credit seq q d t L = (L', taken)" and "t \<ge> 0" and "taken \<le> 0"
  shows "live_credits t (ll_credits L') = live_credits t (ll_credits L)"
proof -
  obtain cs r where l: "take_loop seq q d t 0 (ll_credits L) = (cs, r)" by (metis surj_pair)
  have "r = 0" "cs = ll_credits L"
    using take_loop_none [OF l assms(2)] assms(1,3) by (simp_all add: take_credit_def l)
  then show ?thesis using assms(1) by (auto simp: take_credit_def l live_credits_def)
qed

text \<open>The verdicts on foreign TP/SL orders touch no ledger.\<close>

lemma judged_as_same: "same_credits R (judged_as v order_id terms R)"
  by (auto simp: judged_as_def Let_def same_credits_def leg_ledger_of_def report_def audit_event_def)

lemma judge_tpsl_order_same: "same_credits R (judge_tpsl_order W K market now order_id R)"
  by (auto simp: judge_tpsl_order_def Let_def judged_as_same same_credits_def [of R "R\<lparr>rt_pending_tpsl := x\<rparr>" for x]
      leg_ledger_of_def split: option.split prod.split)

lemma judge_pending_same: "same_credits R (judge_pending_tpsl_orders W K market now R)"
proof -
  have "same_credits R (judge_tpsl_orders W K market now ids R)" for ids
    by (induction ids arbitrary: R) (auto intro: same_credits_trans [OF judge_tpsl_order_same])
  then show ?thesis by (simp add: judge_pending_tpsl_orders_def)
qed

definition books_credits :: "instrument_info \<Rightarrow> 's runtime \<Rightarrow> bool" where
  "books_credits market R \<longleftrightarrow> rt_has_store R \<and> credits_saved (qty_tolerance market) R \<and> closes_ok R"

lemma same_books: "same_credits R R' \<Longrightarrow> books_credits market R \<Longrightarrow> books_credits market R'"
  using same_credits_saved [of R R' "qty_tolerance market"] by (simp add: books_credits_def same_credits_def closes_ok_def)

lemma report_outcome_books:
  assumes "books_credits market R"
  shows "books_credits market (report_outcome o1 R)"
proof -
  have "credits_saved t (report_outcome o1 R) = credits_saved t R" for t
    by (auto simp: report_outcome_def report_external_close_def Let_def credits_saved_def leg_ledger_of_def report_def
      audit_event_def split: option.split)
  moreover have "closes_ok R \<Longrightarrow> closes_ok (report_outcome o1 R)"
    by (auto simp: report_outcome_def report_external_close_def Let_def report_def
      audit_event_def closes_ok_def split: option.split)
  moreover have "rt_has_store (report_outcome o1 R) = rt_has_store R"
    by (auto simp: report_outcome_def report_external_close_def Let_def report_def audit_event_def split: option.split)
  ultimately show ?thesis using assms by (simp add: books_credits_def)
qed

lemma apply_books:
  assumes "books_credits market R"
  shows "books_credits market (ledger_apply market idx os R)"
proof -
  have "books_credits market X \<Longrightarrow> books_credits market (fold report_outcome os X)" for X :: "'a runtime"
    by (induction os arbitrary: X) (auto intro: report_outcome_books)
  then show ?thesis using same_books [OF log_same assms] by (simp add: ledger_apply_def)
qed

lemma start_not_started:
  assumes "start j t L = (L', clamp)" and "ll_cursor_seq L' = None"
  shows "L' = L" and "clamp = None"
proof -
  have "ll_cursor_seq (fst (start j t L)) \<noteq> None" if "ll_views L \<noteq> []"
    using that by (simp add: start_def Let_def ledger_simps split: prod.splits)
  then have "ll_views L = []" using assms by force
  then show "L' = L" "clamp = None" using assms(1) by (simp_all add: start_def)
qed

context runtime_store
begin

lemma advance_started_saved:
  assumes "rt_has_store R" and "closes_ok R"
    and others: "\<And>i. i \<noteq> idx \<Longrightarrow> live_credits (qty_tolerance market) (ll_credits (leg_ledger_of i R)) =
        live_credits (qty_tolerance market) (rt_saved_credits R i)"
    and before: "live_credits (qty_tolerance market) c0 = live_credits (qty_tolerance market) (rt_saved_credits R idx)"
  shows "books_credits market (advance_started W K market now idx c0 os R)"
proof -
  let ?t = "qty_tolerance market"
  obtain L later where a: "advance now FILL_REPORT_GRACE_S ?t (set (rt_exec_seqs R))
      (rt_stream_opened_ms R = None) (leg_ledger_of idx R) = (L, later)" by (metis surj_pair)
  define R2 where "R2 = (if ll_credits L \<noteq> c0 then persist_ledger_credits idx (ll_credits L) (set_ledger idx L R)
    else set_ledger idx L R)"
  have r2: "books_credits market R2"
  proof (cases "ll_credits L = c0")
    case True
    then show ?thesis using assms by (auto simp: R2_def books_credits_def credits_saved_def)
  next
    case False
    have "credits_saved ?t (persist_ledger_credits idx (ll_credits (leg_ledger_of idx (set_ledger idx L R))) (set_ledger idx L R))"
      using assms(1) others by (intro persist_saved) auto
    then show ?thesis using False assms(1,2) by (simp add: R2_def books_credits_def persist_ledger_credits_def closes_ok_def)
  qed
  have e: "advance_started W K market now idx c0 os R =
      (if os @ later = [] then R2 else ledger_apply market idx (os @ later) (sync_leg_journal W K market idx True R2))"
    by (simp add: advance_started_def a R2_def Let_def)
  show ?thesis unfolding e using r2 apply_books [OF same_books [OF sync_same]] by simp
qed

lemma advance_leg_saved:
  assumes "books_credits market R"
  shows "books_credits market (advance_leg W K market now idx journal R)"
proof -
  let ?t = "qty_tolerance market" and ?L = "leg_ledger_of idx R"
  have st: "rt_has_store R" "closes_ok R" and saved: "\<And>i. live_credits ?t (ll_credits (leg_ledger_of i R)) = live_credits ?t (rt_saved_credits R i)"
    using assms by (auto simp: books_credits_def credits_saved_def)
  show ?thesis
  proof (cases "started ?L")
    case True
    then show ?thesis
      using st saved by (auto simp: advance_leg_def Let_def intro!: advance_started_saved)
  next
    case False
    obtain L clamp where s: "start journal ?t ?L = (L, clamp)" by (metis surj_pair)
    let ?R1 = "set_ledger idx L R"
    define R1 where "R1 = (case clamp of None \<Rightarrow> ?R1 | Some o1 \<Rightarrow> sync_leg_journal W K market idx False ?R1)"
    define os where "os = (case clamp of None \<Rightarrow> [] | Some o1 \<Rightarrow> [o1])"
    have sl: "start_leg W K market idx journal R = (R1, os)"
      by (simp add: start_leg_def s R1_def os_def Let_def split: option.split)
    have same: "same_credits ?R1 R1" using sync_same by (simp add: R1_def split: option.split)
    have f: "rt_has_store R1" "closes_ok R1" "rt_saved_credits R1 = rt_saved_credits R"
      "\<And>i. i \<noteq> idx \<Longrightarrow> ll_credits (leg_ledger_of i R1) = ll_credits (leg_ledger_of i R)"
      "ll_credits (leg_ledger_of idx R1) = ll_credits L"
      using same st by (auto simp: same_credits_def closes_ok_def)
    show ?thesis
    proof (cases "started (leg_ledger_of idx R1)")
      case True
      then have e: "advance_leg W K market now idx journal R = advance_started W K market now idx (ll_credits ?L) os R1"
        using False by (simp add: advance_leg_def sl Let_def)
      show ?thesis unfolding e using f saved by (intro advance_started_saved) auto
    next
      case still: False
      then have e: "advance_leg W K market now idx journal R = R1" using False by (simp add: advance_leg_def sl Let_def)
      have "ll_cursor_seq L = None"
        using still same by (simp add: started_def same_credits_def)
      note none = start_not_started [OF s this]
      have "same_credits R R1"
        using none by (auto simp: R1_def intro: set_same_credits)
      then show ?thesis unfolding e using assms same_books by blast
    qed
  qed
qed

end

text \<open>
  The operations of the glue on a running instance, as data. Between two of them the rest of the plugin
  may change the journal in any way.
\<close>

datatype 's glue_op =
    Journal "'s \<Rightarrow> 's"
  | Baselined
  | Stream_Opened int
  | Views "jdict list"
  | Own_Execution rat jdict bool "int \<Rightarrow> rat" rat
  | Foreign_Execution rat jdict bool
  | Non_Trade rat jdict
  | Judge rat
  | Reduce_Credit jdict string rat
  | Entry_Credit jdict string rat rat
  | Batch_Start
  | Batch_End rat

fun glue_step :: "'s framework_ops \<Rightarrow> keys \<Rightarrow> instrument_info \<Rightarrow> 's glue_op \<Rightarrow> 's runtime \<Rightarrow> 's runtime" where
  "glue_step W K m (Journal f) R = on_store f R"
| "glue_step W K m Baselined R = R\<lparr>rt_baselined := True\<rparr>"
| "glue_step W K m (Stream_Opened ms) R = R\<lparr>rt_stream_opened_ms := Some ms\<rparr>"
| "glue_step W K m (Views rows) R = R\<lparr>rt_positions := record_position_views rows (rt_positions R)\<rparr>"
| "glue_step W K m (Own_Execution now entry reducing share credit) R = note_own_execution W K m now entry reducing share credit R"
| "glue_step W K m (Foreign_Execution now entry ambiguous) R = note_external_execution W K m now entry ambiguous R"
| "glue_step W K m (Non_Trade now entry) R = note_non_trade_execution W K m now entry R"
| "glue_step W K m (Judge now) R = ledger_advance W K m now R"
| "glue_step W K m (Reduce_Credit entry side q) R = fst (ledger_reduce_credit m entry side q R)"
| "glue_step W K m (Entry_Credit entry side q prior) R = fst (ledger_entry_credit W K m entry side q prior R)"
| "glue_step W K m Batch_Start R = R\<lparr>rt_hold := rt_hold R + 1\<rparr>"
| "glue_step W K m (Batch_End now) R = ledger_advance W K m now (R\<lparr>rt_hold := rt_hold R - 1\<rparr>)"

lemma add_view_same: "ll_credits (add_view seq sz ms L) = ll_credits L" "ll_cursor_seq (add_view seq sz ms L) = ll_cursor_seq L"
  by (simp_all add: add_view_def Let_def)

lemma views_same: "same_credits R (R\<lparr>rt_positions := record_position_views rows (rt_positions R)\<rparr>)"
proof -
  have "ll_credits (ledger_of i (record_position_views rows P)) = ll_credits (ledger_of i P) \<and>
      ll_cursor_seq (ledger_of i (record_position_views rows P)) = ll_cursor_seq (ledger_of i P)" for i P
  proof (induction rows arbitrary: P)
    case (Cons row rows)
    have "ll_credits (ledger_of i (record_view row P)) = ll_credits (ledger_of i P) \<and>
        ll_cursor_seq (ledger_of i (record_view row P)) = ll_cursor_seq (ledger_of i P)"
      by (auto simp: record_view_def ledger_of_def add_view_same split: option.split)
    then show ?case using Cons by simp
  qed simp
  then show ?thesis by (simp add: same_credits_def leg_ledger_of_def)
qed

lemma add_event_same:
  "ll_credits (fst (add_event e L)) = ll_credits L" "ll_cursor_seq (fst (add_event e L)) = ll_cursor_seq L"
  by (simp_all add: add_event_def)

lemma late_foreign_same:
  "ll_credits (fst (late_foreign e L)) = ll_credits L" "ll_cursor_seq (fst (late_foreign e L)) = ll_cursor_seq L"
  by (simp_all add: late_foreign_def ledger_simps split: option.split)

lemma late_credits:
  "ll_credits (late_shrink b e d s L) = ll_credits L" "ll_credits (late_join e g L) = ll_credits L"
  "ll_credits (late_resolve e d g L) = ll_credits L" "ll_credits (late_doubt c b e g k t L) = ll_credits L"
  "ll_credits (cap_doubt t L) = ll_credits L"
  by (simp_all add: late_shrink_def late_join_def late_resolve_def late_doubt_def Let_def
      ledger_simps split: option.splits)

lemma late_grow_credits:
  "\<not> (grown > 0 \<and> grown - k > 0) \<Longrightarrow> ll_credits (late_grow c d grown k s L) = ll_credits L"
  by (auto simp: late_grow_def Let_def)

lemma late_own_quiet:
  assumes "late_own e t L = Some (L1, None)"
  shows "ll_credits L1 = ll_credits L"
proof -
  obtain cursor blind where c: "ll_cursor_seq L = Some cursor" "ll_blind_seq L = Some blind"
    using assms by (auto simp: late_own_def split: option.splits)
  show ?thesis
    using assms unfolding late_own_def c
    by (auto simp: Let_def late_credits late_grow_credits simp del: if_split split: prod.splits if_split_asm)
qed

lemma seqs_same: "same_credits R (note_ledger_seq market entry R)"
  by (simp add: note_ledger_seq_def same_credits_def leg_ledger_of_def split: option.split)

context runtime_store
begin

lemma advance_legs_saved: "books_credits market R \<Longrightarrow> books_credits market (advance_legs W K market now j legs R)"
  by (induction legs arbitrary: R) (auto intro: advance_leg_saved)

lemma ledger_advance_saved: "books_credits market R \<Longrightarrow> books_credits market (ledger_advance W K market now R)"
  by (simp add: ledger_advance_def same_books [OF judge_pending_same] advance_legs_saved)

lemma persist_books:
  assumes "books_credits market R"
  shows "books_credits market (persist_ledger_credits idx (ll_credits L) (set_ledger idx L R))"
proof -
  have "credits_saved (qty_tolerance market)
      (persist_ledger_credits idx (ll_credits (leg_ledger_of idx (set_ledger idx L R))) (set_ledger idx L R))"
    using assms by (intro persist_saved) (auto simp: books_credits_def credits_saved_def)
  then show ?thesis using assms by (simp add: books_credits_def persist_ledger_credits_def)
qed

lemma set_live_books:
  assumes "books_credits market R"
    and "live_credits (qty_tolerance market) (ll_credits L) = live_credits (qty_tolerance market) (ll_credits (leg_ledger_of idx R))"
  shows "books_credits market (set_ledger idx L R)"
  using assms by (auto simp: books_credits_def credits_saved_def)

lemma enter_own_saved:
  assumes "books_credits market R"
  shows "books_credits market (enter_own W K market idx e R)"
proof -
  obtain L taken where a: "add_event e (leg_ledger_of idx R) = (L, taken)" by (metis surj_pair)
  have L: "ll_credits L = ll_credits (leg_ledger_of idx R)" using add_event_same [of e "leg_ledger_of idx R"] a by simp
  have keep: "books_credits market (set_ledger idx X R)" if "ll_credits X = ll_credits (leg_ledger_of idx R)" for X
    using that by (intro set_live_books assms) simp
  show ?thesis
  proof (cases "taken \<or> late_own e (qty_tolerance market) L = None")
    case True
    then show ?thesis using a keep [OF L] by (auto simp: enter_own_def split: bool.split)
  next
    case False
    then obtain L1 out where l: "late_own e (qty_tolerance market) L = Some (L1, out)" by auto
    show ?thesis
    proof (cases out)
      case None
      then have "ll_credits L1 = ll_credits L" using late_own_quiet l by blast
      then show ?thesis using False a l None keep [of L1] L by (simp add: enter_own_def)
    next
      case (Some gone)
      have "enter_own W K market idx e R = ledger_apply market idx [gone] (sync_leg_journal W K market idx True
          (persist_ledger_credits idx (ll_credits L1) (set_ledger idx L1 R)))"
        using False a l Some by (simp add: enter_own_def)
      then show ?thesis using apply_books [OF same_books [OF sync_same persist_books [OF assms]]] by simp
    qed
  qed
qed

lemma own_legs_saved:
  "books_credits market R \<Longrightarrow>
     books_credits market (enter_own_legs W K market entry exec_id seq moved share credit legs R)"
proof (induction legs arbitrary: R)
  case (Cons idx legs)
  have "books_credits market (shift_share idx d R)" for d
    using Cons.prems by (auto simp: shift_share_def Let_def intro: set_live_books)
  then show ?case using Cons enter_own_saved by (auto split: option.split)
qed simp

lemma note_own_saved:
  assumes "books_credits market R"
  shows "books_credits market (note_own_execution W K market now entry reducing share credit R)"
proof -
  have id: "books_credits market (take_ledger_exec_id x R)" for x
    using assms by (simp add: take_ledger_exec_id_def books_credits_def credits_saved_def leg_ledger_of_def)
  show ?thesis
    using assms id ledger_advance_saved [OF own_legs_saved [OF same_books [OF seqs_same id]]]
    by (simp add: note_own_execution_def Let_def split: option.split)
qed

lemma enter_foreign_saved:
  assumes "books_credits market R"
  shows "books_credits market (enter_foreign market idx e R)"
proof -
  obtain L taken where a: "add_event e (leg_ledger_of idx R) = (L, taken)" by (metis surj_pair)
  obtain L1 late where l: "late_foreign e L = (L1, late)" by (metis surj_pair)
  have "ll_credits L = ll_credits (leg_ledger_of idx R)" "ll_credits L1 = ll_credits (leg_ledger_of idx R)"
    using add_event_same(1) [of e "leg_ledger_of idx R"] late_foreign_same(1) [of e L] a l by simp_all
  then have "books_credits market (set_ledger idx L R)" "books_credits market (set_ledger idx L1 R)"
    by (simp_all add: set_live_books [OF assms])
  then show ?thesis
    by (simp add: enter_foreign_def a l apply_books split: bool.split)
qed

lemma foreign_legs_saved:
  "books_credits market R \<Longrightarrow> books_credits market (enter_foreign_legs market entry exec_id seq origin moves R)"
  by (induction market entry exec_id seq origin moves R rule: enter_foreign_legs.induct)
    (simp_all add: enter_foreign_saved)

lemma note_external_saved:
  assumes "books_credits market R"
  shows "books_credits market (note_external_execution W K market now entry ambiguous R)"
proof -
  have id: "books_credits market (take_ledger_exec_id x R)" for x
    using assms by (simp add: take_ledger_exec_id_def books_credits_def credits_saved_def leg_ledger_of_def)
  show ?thesis
    using assms ledger_advance_saved [OF foreign_legs_saved [OF same_books [OF seqs_same id]]]
    by (simp add: note_external_execution_def Let_def split: option.split sum.split num.split)
qed

lemma note_non_trade_saved:
  assumes "books_credits market R"
  shows "books_credits market (note_non_trade_execution W K market now entry R)"
  using assms by (simp add: note_non_trade_execution_def Let_def note_external_saved same_books [OF seqs_same])

lemma reduce_credit_saved:
  assumes "books_credits market R"
  shows "books_credits market (fst (ledger_reduce_credit market entry side q R))"
proof (cases "behind_cursor market entry (closed_leg side (rt_positions R)) R")
  case None
  then show ?thesis using assms by (simp add: ledger_reduce_credit_def Let_def)
next
  case (Some seq)
  let ?idx = "closed_leg side (rt_positions R)"
  obtain L taken where t: "take_credit seq q (leg_reduced_direction side R) (qty_tolerance market) (leg_ledger_of ?idx R) = (L, taken)"
    by (metis surj_pair)
  show ?thesis
    using persist_books [OF assms, of ?idx L] set_live_books [OF assms take_credit_none [OF t tolerance_nonneg]]
    by (simp add: ledger_reduce_credit_def Some t Let_def)
qed

lemma take_credit_pos: "take_credit seq q d (qty_tolerance market) L = (L', taken) \<Longrightarrow> 0 \<le> taken"
  using take_loop_none [OF _ tolerance_nonneg] by (auto simp: take_credit_def split: prod.splits)

lemma entry_credit_saved:
  assumes "books_credits market R"
  shows "books_credits market (fst (ledger_entry_credit W K market entry side q before R))"
proof (cases "\<exists>L seq. ps_ledgers (rt_positions R) ONE_WAY_IDX = Some L \<and> parse_seq (jget entry ''seq'') = Some seq \<and> is_side side")
  case False
  then show ?thesis using assms by (auto simp: ledger_entry_credit_def split: option.split)
next
  case True
  then obtain L seq where p: "ps_ledgers (rt_positions R) ONE_WAY_IDX = Some L" "parse_seq (jget entry ''seq'') = Some seq"
    "is_side side" by auto
  let ?t = "qty_tolerance market" and ?d = "leg_reduced_direction side R"
  have L: "L = leg_ledger_of ONE_WAY_IDX R" using p by (simp add: leg_ledger_of_def ledger_of_def)
  define journal where "journal = run_owned_signed_size (fk_base K) (if rt_has_store R then so_live (rows_of W) (rt_store R) else [])"
  define booked where "booked = min q (max 0 ((before - journal) * ?d))"
  define inside where "inside = min booked (max 0 (before * ?d))"
  obtain L1 t1 where 1: "(if inside > 0 then take_credit seq inside ?d ?t L else (L, 0)) = (L1, t1)" by (metis surj_pair)
  define beyond where "beyond = min (booked - inside) (max 0 (- (journal + t1 * ?d) * ?d - max (- ll_cursor_leg L1 * ?d) 0))"
  obtain L2 t2 where 2: "(if beyond > ?t then take_credit seq beyond ?d ?t L1 else (L1, 0)) = (L2, t2)" by (metis surj_pair)
  let ?R1 = "set_ledger ONE_WAY_IDX L2 R"
  have e: "fst (ledger_entry_credit W K market entry side q before R) =
      (if t1 + t2 \<le> 0 then ?R1
       else net_side_share W K market side (t1 + t2) True (persist_ledger_credits ONE_WAY_IDX (ll_credits L2) ?R1))"
    unfolding ledger_entry_credit_def p prod.case option.case Let_def journal_def [symmetric] booked_def [symmetric]
      inside_def [symmetric] 1 beyond_def [symmetric] 2
    by (simp add: p)
  have pos: "0 \<le> t1" "0 \<le> t2"
    using 1 2 take_credit_pos by (auto split: if_splits)
  have l1: "live_credits ?t (ll_credits L1) = live_credits ?t (ll_credits L)" if "t1 \<le> 0"
    using 1 that take_credit_none [OF _ tolerance_nonneg] by (auto split: if_splits)
  have l2: "live_credits ?t (ll_credits L2) = live_credits ?t (ll_credits L1)" if "t2 \<le> 0"
    using 2 that take_credit_none [OF _ tolerance_nonneg] by (auto split: if_splits)
  show ?thesis
  proof (cases "t1 + t2 \<le> 0")
    case True
    then have "live_credits ?t (ll_credits L2) = live_credits ?t (ll_credits L)" using pos l1 l2 by simp
    then show ?thesis using True by (simp add: e set_live_books [OF assms] L)
  next
    case False
    then show ?thesis by (simp add: e same_books [OF net_side_same persist_books [OF assms]])
  qed
qed

lemma glue_step_books:
  assumes "books_credits market R"
  shows "books_credits market (glue_step W K market op1 R)"
proof -
  have frame: "books_credits market (R\<lparr>rt_hold := h\<rparr>)" "books_credits market (R\<lparr>rt_baselined := b\<rparr>)"
    "books_credits market (R\<lparr>rt_stream_opened_ms := ms\<rparr>)" "books_credits market (on_store f R)" for h b ms f
    using assms by (simp_all add: books_credits_def credits_saved_def leg_ledger_of_def closes_ok_def)
  show ?thesis
    by (cases op1) (simp_all add: same_books [OF views_same assms] note_own_saved note_external_saved note_non_trade_saved
        ledger_advance_saved reduce_credit_saved entry_credit_saved assms frame)
qed

lemma glue_machine: "op_machine (glue_step W K market) (new_runtime True s) (books_credits market)"
proof
  show "books_credits market (new_runtime True s)"
    by (simp add: books_credits_def credits_saved_def closes_ok_def new_runtime_def leg_ledger_of_def ledger_of_def
        new_positions_def new_ledger_def)
qed (rule glue_step_books)

end

interpretation desk_glue: op_machine "glue_step (desk_ops pending) example_keys market" "new_runtime True s" "books_credits market"
  by (rule desk.glue_machine)

section \<open>Over a run\<close>

definition glue_run ::
    "'s framework_ops \<Rightarrow> keys \<Rightarrow> instrument_info \<Rightarrow> 's glue_op list \<Rightarrow> 's \<Rightarrow> 's runtime" where
  "glue_run W K m ops s = run_ops (glue_step W K m) ops (new_runtime True s)"

lemma glue_run_books:
  assumes "runtime_store W K"
  shows "books_credits market (glue_run W K market ops s)"
proof -
  have m: "op_machine (glue_step W K market) (new_runtime True s) (books_credits market)"
    using assms by (rule runtime_store.glue_machine)
  show ?thesis using op_machine.run_inv [OF m op_machine.init_inv [OF m]] by (simp add: glue_run_def)
qed

definition example_desk :: desk where
  "example_desk =
     \<lparr>dk_rows = [example_entry_row ''a'' 5 5 10], dk_closed = [], dk_envelopes = [], dk_levels = [],
      dk_resolutions = []\<rparr>"

definition example_glue_view :: "string \<Rightarrow> string \<Rightarrow> jdict" where
  "example_glue_view size1 seq =
     [(''positionIdx'', PInt 0), (''side'', PStr ''Buy''), (''size'', PStr size1), (''seq'', PStr seq),
      (''updatedTime'', PStr ''1000'')]"

definition example_user_close :: "string \<Rightarrow> jdict" where
  "example_user_close exec_id =
     [(''execId'', PStr exec_id), (''orderId'', PStr ''ord-9''), (''side'', PStr ''Sell''), (''execQty'', PStr ''2''),
      (''closedSize'', PStr ''2''), (''seq'', PStr ''20''), (''createType'', PStr ''CreateByClosing'')]"

definition example_glue_ops :: "desk glue_op list" where
  "example_glue_ops =
     [Views [example_glue_view ''5'' ''10''], Baselined, Judge 1,
      Foreign_Execution 2 (example_user_close ''e1'') False, Foreign_Execution 3 (example_user_close ''e1'') False,
      Views [example_glue_view ''3'' ''20''], Judge 4]"

definition example_glued :: "desk runtime" where
  "example_glued = glue_run (desk_ops [''submitted'']) example_keys example_perpetual example_glue_ops example_desk"


text \<open>
  C35. A give-up's credits survive a restart. Over any run of the ledger glue (batches of views, own and
  foreign executions, judging, late reduces and entries booked from a credit), with any changes of the
  journal in between, the credits above the tolerance that a leg's ledger holds are the ones the newest
  audit event of that leg holds, so a process that stops at any point leaves them for the next one.
\<close>

theorem credits_survive_restart:
  assumes "runtime_store W K" and "R = glue_run W K market ops s"
  shows "live_credits (qty_tolerance market) (ll_credits (leg_ledger_of idx R)) =
    live_credits (qty_tolerance market) (rt_saved_credits R idx)"
  using glue_run_books [OF assms(1), of market ops s] by (simp add: assms(2) books_credits_def credits_saved_def)

theorem credits_survive_restart_witness:
  "live_credits (qty_tolerance example_perpetual) (ll_credits (leg_ledger_of 0 example_glued)) =
    live_credits (qty_tolerance example_perpetual) (rt_saved_credits example_glued 0)"
  by (rule credits_survive_restart [OF desk.runtime_store_axioms example_glued_def])

text \<open>The orders of the outcomes that are to be reported\<close>

definition reportable_orders :: "leg_outcome list \<Rightarrow> string set" where
  "reportable_orders os = set (concat (map (\<lambda>o1. case lo_event o1 of None \<Rightarrow> []
     | Some e \<Rightarrow> if reportable e o1 then [close_key e] else []) os))"

lemma reports_of_fold:
  assumes "closes_ok R"
  shows "set (reported_orders (fold report_outcome os R)) = set (reported_orders R) \<union> reportable_orders os \<and>
    closes_ok (fold report_outcome os R)"
  using assms
proof (induction os arbitrary: R)
  case Nil
  then show ?case by (simp add: reportable_orders_def)
next
  case (Cons o1 os)
  have one: "closes_ok (report_outcome o1 R) \<and>
      set (reported_orders (report_outcome o1 R)) = set (reported_orders R) \<union> reportable_orders [o1]"
    using Cons.prems
    by (auto simp: report_outcome_def report_external_close_def Let_def report_def reportable_orders_def
      audit_event_def closes_ok_def split: option.split)
  moreover have "reportable_orders (o1 # os) = reportable_orders [o1] \<union> reportable_orders os"
    by (simp add: reportable_orders_def)
  ultimately show ?case using Cons.IH [of "report_outcome o1 R"] by auto
qed

lemma closes_ok_distinct: "closes_ok R \<Longrightarrow> distinct (reported_orders R)"
  by (simp add: closes_ok_def)

text \<open>
  C36. A foreign close is reported once. Over any run of the ledger glue, with any changes of the journal in
  between, no order is in the reports of foreign closes twice; and when a batch of judged outcomes is
  applied, the orders reported are the ones reported before and those of the outcomes that are a foreign
  execution of the user, proven, that consumed more of the run's share than stays in doubt.
\<close>

theorem foreign_close_reported_once:
  assumes "runtime_store W K" and "R = glue_run W K market ops s" and "R' = ledger_apply market idx os R"
  shows "distinct (reported_orders R) \<and> distinct (reported_orders R') \<and>
    set (reported_orders R') = set (reported_orders R) \<union> reportable_orders os"
proof -
  have ok: "closes_ok R"
    using glue_run_books [OF assms(1), of market ops s] by (simp add: assms(2) books_credits_def)
  let ?R1 = "fold (log_outcome market idx) os R"
  have same: "reported_orders ?R1 = reported_orders R" "rt_reported_closes ?R1 = rt_reported_closes R"
    using log_same [of R market idx os] by (auto simp: same_credits_def)
  then have "closes_ok ?R1" using ok by (simp add: closes_ok_def)
  from reports_of_fold [OF this, of os] show ?thesis
    using closes_ok_distinct ok same by (auto simp: assms(3) ledger_apply_def)
qed

definition example_user_outcome :: leg_outcome where
  "example_user_outcome =
     \<lparr>lo_event = Some (foreign_event (example_user_close ''e1'') ''e1'' 20 (- 2) ORIGIN_USER), lo_consumed = 2,
      lo_proven = True, lo_share_before = 5, lo_leg_after = 3, lo_seq = 20, lo_unexplained = 0, lo_doubtful = 0,
      lo_clipped = 0, lo_settled = False\<rparr>"

theorem foreign_close_reported_once_witness:
  "set (reported_orders (ledger_apply example_perpetual 0 [example_user_outcome, example_user_outcome]
     (glue_run (desk_ops [''submitted'']) example_keys example_perpetual [Baselined] example_desk))) = {''ord-9''}"
proof -
  have r: "reportable_orders [example_user_outcome, example_user_outcome] = {''ord-9''}"
    "reported_orders (glue_run (desk_ops [''submitted'']) example_keys example_perpetual [Baselined] example_desk) = []"
    by code_simp+
  show ?thesis using foreign_close_reported_once [OF desk.runtime_store_axioms refl refl] r by simp
qed

end
