(* ===== verification/Guard_Theorems.thy ===== *)
theory Guard_Theorems
  imports Guard
begin

text \<open>
  What the external-intervention guard of \<^verbatim>\<open>src/src/pynecore_bybit/protection.py\<close> reports: a quantity
  edit once per order and never for a quantity the bot itself sent, a foreign TP/SL order only on
  evidence that it is larger than what the foreign exposure and the share in doubt can account for.
\<close>

section \<open>Quantity edits over a run\<close>

fun edits_in :: "report list \<Rightarrow> string list" where
  "edits_in [] = []"
| "edits_in (QtyEdit coid own venue # es) = coid # edits_in es"
| "edits_in (e # es) = edits_in es"

lemma edits_in_append [simp]: "edits_in (xs @ ys) = edits_in xs @ edits_in ys"
  by (induction xs rule: edits_in.induct) simp_all

datatype 's qty_op =
    Rows "'s \<Rightarrow> 's"
  | Sends string rat
  | Retracts string rat
  | Expects rat string levels "string option" "string option"
  | Settles rat string "levels option" "levels option" "int option"
  | Forgets string
  | Exit_Push jdict string leg_type
  | Entry_Push jdict string
  | Polled jdict string leg_type rat

fun qty_step :: "'s framework_ops \<Rightarrow> keys \<Rightarrow> instrument_info \<Rightarrow> 's qty_op \<Rightarrow> 's runtime \<Rightarrow> 's runtime" where
  "qty_step W K m (Rows f) R = on_store f R"
| "qty_step W K m (Sends coid q) R = note_own_order_qty W coid q R"
| "qty_step W K m (Retracts coid q) R = retract_own_order_qty W coid q R"
| "qty_step W K m (Expects now key lv row_coid protects) R = fst (expect_protection W now key lv row_coid protects R)"
| "qty_step W K m (Settles now key confirmed rejected write) R = settle_protection W now key confirmed rejected write R"
| "qty_step W K m (Forgets key) R = forget_protection W key R"
| "qty_step W K m (Exit_Push entry coid leg) R = observe_exit_leg_push W K entry coid leg m R"
| "qty_step W K m (Entry_Push entry coid) R = observe_entry_push W K entry coid m R"
| "qty_step W K m (Polled entry coid leg started_at) R = judge_order_levels W K entry coid leg m (Some started_at) R"

definition edits_ok :: "'s runtime \<Rightarrow> bool" where
  "edits_ok R \<longleftrightarrow> distinct (edits_in (rt_reports R)) \<and> set (edits_in (rt_reports R)) \<subseteq> set (rt_qty_reported R)"

definition same_edits :: "'s runtime \<Rightarrow> 's runtime \<Rightarrow> bool" where
  "same_edits R R' \<longleftrightarrow> rt_reports R' = rt_reports R \<and> rt_qty_reported R' = rt_qty_reported R"

lemma same_edits_ok: "same_edits R R' \<Longrightarrow> edits_ok R \<Longrightarrow> edits_ok R'"
  by (simp add: same_edits_def edits_ok_def)

lemma write_qtys_same: "same_edits R (write_own_order_qtys W coid upd R)"
  by (auto simp: same_edits_def write_own_order_qtys_def Let_def on_store_def split: option.split bool.split)

lemma note_qty_same: "same_edits R (note_own_order_qty W coid q R)"
  by (simp add: same_edits_def note_own_order_qty_def Let_def write_qtys_same [unfolded same_edits_def])

lemma retract_qty_same: "same_edits R (retract_own_order_qty W coid q R)"
  by (simp add: same_edits_def retract_own_order_qty_def Let_def write_qtys_same [unfolded same_edits_def] split: option.split)

lemma writes_same:
  "same_edits R (fst (expect_protection W now key lv c p R))" "same_edits R (settle_protection W now key lc lr w R)"
  "same_edits R (forget_protection W key R)" "same_edits R (on_store f R)"
  by (simp_all add: same_edits_def expect_protection_def Let_def case_prod_unfold settle_protection_def
      forget_protection_def on_store_def)

lemma cut_same: "same_edits R (log_order_qty_cut entry coid leg v e m R)"
  by (simp add: same_edits_def log_order_qty_cut_def Let_def audit_event_def split: option.split)

lemma changed_ok:
  assumes "edits_ok R" and "coid \<notin> set (rt_qty_reported R)"
  shows "edits_ok (judge_changed_qty entry coid leg m v own down R)"
  using assms same_edits_ok [OF cut_same, of "R\<lparr>rt_mismatches := AList.delete coid (rt_mismatches R)\<rparr>"]
  by (auto simp: judge_changed_qty_def Let_def report_def edits_ok_def)

lemma judge_qty_ok:
  assumes "edits_ok R"
  shows "edits_ok (judge_order_qty W entry coid leg m started_at R)"
proof -
  have upd: "edits_ok (R\<lparr>rt_mismatches := x\<rparr>)" for x using assms by (simp add: edits_ok_def)
  have base: "edits_ok (R\<lparr>rt_rebaseline_pending := a, rt_rebaselined := b, rt_mismatches := c\<rparr>)" for a b c
    using assms by (simp add: edits_ok_def)
  show ?thesis
    by (auto simp: judge_order_qty_def Let_def assms upd same_edits_ok [OF write_qtys_same base]
        intro!: changed_ok split: option.split)
qed

lemma judge_levels_ok:
  assumes "edits_ok R"
  shows "edits_ok (judge_order_levels W K entry coid leg m started_at R)"
proof -
  have frame: "edits_ok (R\<lparr>rt_rebaseline_pending := a\<rparr>)" "edits_ok (R\<lparr>rt_store := s\<rparr>)"
    "edits_ok (R\<lparr>rt_rebaseline_pending := a, rt_store := s\<rparr>)" for a s
    using assms by (simp_all add: edits_ok_def)
  show ?thesis
    by (auto simp: judge_order_levels_def Let_def assms frame judge_qty_ok split: option.split prod.split)
qed

lemma qty_machine: "op_machine (qty_step W K m) (new_runtime b s) edits_ok"
proof
  show "edits_ok (new_runtime b s)" by (simp add: edits_ok_def new_runtime_def)
  show "edits_ok (qty_step W K m op1 R)" if "edits_ok R" for op1 R
    using that
    by (cases op1) (auto simp: observe_exit_leg_push_def observe_entry_push_def judge_levels_ok
        intro: same_edits_ok [OF note_qty_same] same_edits_ok [OF retract_qty_same]
          same_edits_ok [OF writes_same(1)] same_edits_ok [OF writes_same(2)]
          same_edits_ok [OF writes_same(3)] same_edits_ok [OF writes_same(4)])
qed

interpretation quantities: op_machine "qty_step W K m" "new_runtime b s" edits_ok
  by (rule qty_machine)

text \<open>
  C31. A quantity edit is reported once per order. Over any run of the guard's operations (quantities sent
  and retracted, writes expected and settled, keys forgotten, pushes and polled views of orders in any
  order, any change of the journal in between), no order is in the reports of quantity edits twice.
\<close>

theorem quantity_edit_reported_once:
  "distinct (edits_in (rt_reports (run_ops (qty_step W K m) ops (new_runtime has_store s))))"
proof -
  have "edits_ok (run_ops (qty_step W K m) ops (new_runtime has_store s))"
    by (rule quantities.run_inv [OF quantities.init_inv])
  then show ?thesis by (simp add: edits_ok_def)
qed

section \<open>The bot's own quantities\<close>

definition send_all :: "'s framework_ops \<Rightarrow> string \<Rightarrow> rat list \<Rightarrow> 's runtime \<Rightarrow> 's runtime" where
  "send_all W coid qs R = fold (note_own_order_qty W coid) qs R"

definition sent_of :: "string \<Rightarrow> 's runtime \<Rightarrow> rat list" where
  "sent_of coid R = (case map_of (rt_order_qtys R) coid of None \<Rightarrow> [] | Some qs \<Rightarrow> qs)"

lemma sent_write: "rt_order_qtys (write_own_order_qtys W coid upd R) = rt_order_qtys R"
  by (auto simp: write_own_order_qtys_def Let_def on_store_def split: option.split bool.split)

lemma sent_note: "sent_of coid (note_own_order_qty W coid q R) = keep_last MAX_OWN_ORDER_QTYS (sent_of coid R @ [q])"
  by (simp add: note_own_order_qty_def Let_def sent_of_def sent_write update_conv')

lemma keep_last_snoc:
  "0 < n \<Longrightarrow> keep_last n (keep_last n xs @ [q]) = keep_last n (xs @ [q])"
  by (cases "length xs \<le> n") (auto simp: keep_last_def Suc_diff_le)

lemma sent_all: "sent_of coid (send_all W coid qs R) =
    (if qs = [] then sent_of coid R else keep_last MAX_OWN_ORDER_QTYS (sent_of coid R @ qs))"
proof (induction qs rule: rev_induct)
  case (snoc q qs)
  have "sent_of coid (send_all W coid (qs @ [q]) R) =
      keep_last MAX_OWN_ORDER_QTYS (sent_of coid (send_all W coid qs R) @ [q])"
    by (simp add: send_all_def sent_note)
  then show ?case
    using snoc keep_last_snoc [of MAX_OWN_ORDER_QTYS "sent_of coid R @ qs" q]
    by (auto simp: MAX_OWN_ORDER_QTYS_def)
qed (simp add: send_all_def)

lemma candidate_not_reported:
  assumes "venue_qty (jget entry ''qty'') = Some v" and "q \<in> set (own_order_qty_candidates W coid R)"
    and "\<bar>v - q\<bar> \<le> qty_tolerance market"
  shows "rt_reports (judge_order_qty W entry coid leg market started_at R) = rt_reports R"
proof -
  have "\<not> list_all (\<lambda>q. \<bar>v - q\<bar> > qty_tolerance market) (own_order_qty_candidates W coid R)"
    using assms(2,3) by (auto simp: list_all_iff not_less)
  moreover have "rt_reports (write_own_order_qtys W coid upd X) = rt_reports X" for upd and X :: "'a runtime"
    by (simp add: write_qtys_same [unfolded same_edits_def])
  ultimately show ?thesis by (auto simp: judge_order_qty_def assms(1) Let_def)
qed

text \<open>
  C32. The bot's own amend is never reported. A view that shows a quantity within the tolerance of one of the
  last eight the bot sent for the order, in any order and however late, reports nothing, whatever the
  journal row of the order holds.
\<close>

theorem own_amend_not_reported:
  assumes "R = send_all W coid (qs @ q # later) R0" and "length later < MAX_OWN_ORDER_QTYS"
    and "venue_qty (jget entry ''qty'') = Some v" and "\<bar>v - q\<bar> \<le> qty_tolerance market"
  shows "rt_reports (judge_order_qty W entry coid leg market started_at R) = rt_reports R"
proof -
  have "q \<in> set (keep_last MAX_OWN_ORDER_QTYS (sent_of coid R0 @ qs @ q # later))"
  proof -
    let ?xs = "sent_of coid R0 @ qs"
    have "drop (length (?xs @ q # later) - MAX_OWN_ORDER_QTYS) (?xs @ q # later) =
        drop (length (?xs @ q # later) - MAX_OWN_ORDER_QTYS) ?xs @ q # later"
      using assms(2) by (simp add: drop_append)
    then show ?thesis by (simp add: keep_last_def)
  qed
  then have "q \<in> set (sent_of coid R)" by (simp add: assms(1) sent_all)
  then have "q \<in> set (own_order_qty_candidates W coid R)"
    by (auto simp: own_order_qty_candidates_def sent_of_def Let_def split: option.split option.split_asm)
  from candidate_not_reported [OF assms(3) this assms(4)] show ?thesis .
qed

definition example_qty_view :: jdict where
  "example_qty_view = [(''qty'', PStr ''5''), (''orderStatus'', PStr ''New'')]"

theorem own_amend_not_reported_witness:
  "rt_reports (judge_order_qty (desk_ops []) example_qty_view ''a'' ENTRY example_perpetual None
     (send_all (desk_ops []) ''a'' [3, 5, 7] (new_runtime True
        \<lparr>dk_rows = [], dk_closed = [], dk_envelopes = [], dk_levels = [], dk_resolutions = []\<rparr>))) = []"
proof -
  let ?s = "\<lparr>dk_rows = [], dk_closed = [], dk_envelopes = [], dk_levels = [], dk_resolutions = []\<rparr>"
  have v: "venue_qty (jget example_qty_view ''qty'') = Some 5" "\<bar>(5::rat) - 5\<bar> \<le> qty_tolerance example_perpetual"
    by code_simp+
  have "rt_reports (send_all (desk_ops []) ''a'' [3, 5, 7] (new_runtime True ?s)) = []" by code_simp
  then show ?thesis
    using own_amend_not_reported [OF refl _ v(1) v(2), where later = "[7]" and qs = "[3]" and W = "desk_ops []"
        and coid = "''a''" and ?R0.0 = "new_runtime True ?s" and leg = ENTRY and started_at = None]
    by (simp add: MAX_OWN_ORDER_QTYS_def)
qed

section \<open>A foreign TP/SL order\<close>

fun tpsl_in :: "report list \<Rightarrow> string list" where
  "tpsl_in [] = []"
| "tpsl_in (TpslOrder order_id # es) = order_id # tpsl_in es"
| "tpsl_in (e # es) = tpsl_in es"

lemma tpsl_in_append [simp]: "tpsl_in (xs @ ys) = tpsl_in xs @ tpsl_in ys"
  by (induction xs rule: tpsl_in.induct) simp_all

text \<open>
  What a report of a TP/SL order rests on, read off the instance: the order was created, or last changed
  when it has been judged before, not before the run's share of the leg began; and the record of the leg
  is complete, the order pending for the fill grace without an open stream window, the leg shown by a view
  after the order, no interval of its ledger open and no execution known beyond the view.
\<close>

definition after_share :: "int \<Rightarrow> int \<Rightarrow> 's runtime \<Rightarrow> bool" where
  "after_share idx created R \<longleftrightarrow>
     (case map_of (rt_share_start R) idx of
        Some st \<Rightarrow> snd st \<le> created
      | None \<Rightarrow> (case map_of (rt_held_since R) idx of Some ms \<Rightarrow> ms \<le> created | None \<Rightarrow> False))"

definition record_complete :: "int \<Rightarrow> rat \<Rightarrow> rat \<Rightarrow> 's runtime \<Rightarrow> leg_ledger \<Rightarrow> bool" where
  "record_complete idx now first_seen R L \<longleftrightarrow>
     now - first_seen \<ge> FILL_REPORT_GRACE_S \<and> rt_stream_opened_ms R = None \<and>
     (\<exists>view_at. map_of (rt_view_at R) idx = Some view_at \<and> first_seen < view_at) \<and> \<not> is_open L \<and>
     (\<exists>cursor. ll_cursor_seq L = Some cursor \<and> (\<forall>p \<in> set (ll_events L). le_seq (snd p) \<le> cursor))"

definition beyond_room :: "string \<Rightarrow> rat \<Rightarrow> instrument_info \<Rightarrow> 's runtime \<Rightarrow> leg_ledger \<Rightarrow> bool" where
  "beyond_room held q market R L \<longleftrightarrow>
     (let d = (if hedge (rt_positions R) \<or> held = ''buy'' then 1 else - 1)
      in q > max 0 (max (ll_cursor_leg L * d) 0 - max (ll_share L * d) 0) + ll_doubt L + qty_tolerance market)"

definition tpsl_proven ::
    "'s framework_ops \<Rightarrow> keys \<Rightarrow> instrument_info \<Rightarrow> rat \<Rightarrow> 's runtime \<Rightarrow> string \<Rightarrow> bool" where
  "tpsl_proven W K market now R order_id \<longleftrightarrow>
     (\<exists>entry first_seen held q created L.
        let side = lower (jstr entry ''side''); idx = closed_leg side (rt_positions R) in
        map_of (rt_pending_tpsl R) order_id = Some (entry, first_seen) \<and> rt_has_store R \<and>
        run_side_on_leg W (fk_base K) (Some market) R idx = Some held \<and> held \<noteq> side \<and>
        fst (tpsl_order_terms entry) = Some q \<and>
        parse_ms (jget entry (if map_of (rt_judged R) order_id \<noteq> None then ''updatedTime'' else ''createdTime'')) =
          Some created \<and>
        after_share idx created R \<and>
        ps_ledgers (rt_positions R) idx = Some L \<and> record_complete idx now first_seen R L \<and>
        beyond_room held q market R L)"

definition quiet_frame :: "'s runtime \<Rightarrow> 's runtime \<Rightarrow> bool" where
  "quiet_frame R R' \<longleftrightarrow>
     rt_positions R' = rt_positions R \<and> rt_store R' = rt_store R \<and> rt_has_store R' = rt_has_store R \<and>
     rt_stream_opened_ms R' = rt_stream_opened_ms R \<and> rt_inverse R' = rt_inverse R \<and>
     rt_view_at R' = rt_view_at R \<and> rt_share_start R' = rt_share_start R \<and> rt_held_since R' = rt_held_since R \<and>
     (\<forall>k. map_of (rt_pending_tpsl R') k = None \<or>
        map_of (rt_pending_tpsl R') k = map_of (rt_pending_tpsl R) k \<and> map_of (rt_judged R') k = map_of (rt_judged R) k)"

lemma judged_frame: "quiet_frame R (judged_as v order_id terms R)"
  by (auto simp: quiet_frame_def judged_as_def Let_def report_def audit_event_def delete_conv' update_conv')

lemma quiet_steps:
  "quiet_frame R R" "quiet_frame R (R\<lparr>rt_pending_tpsl := AList.delete k (rt_pending_tpsl R)\<rparr>)"
  by (simp_all add: quiet_frame_def delete_conv')

lemma judge_frame: "quiet_frame R (judge_tpsl_order W K market now order_id R)"
  by (simp add: judge_tpsl_order_def Let_def quiet_steps judged_frame split: option.split)

lemma tpsl_proven_frame:
  assumes "quiet_frame R R'" and "tpsl_proven W K market now R' order_id"
  shows "tpsl_proven W K market now R order_id"
proof -
  have same: "run_side_on_leg W (fk_base K) m R' idx = run_side_on_leg W (fk_base K) m R idx" for m idx
    using assms(1) by (simp add: quiet_frame_def run_side_on_leg_def journal_leg_share_def owned_entry_rows_def)
  have eqs: "rt_positions R' = rt_positions R" "rt_has_store R' = rt_has_store R" "after_share idx c R' = after_share idx c R"
      "record_complete idx now f R' L = record_complete idx now f R L" "beyond_room h q market R' L = beyond_room h q market R L"
    for idx c f L h q
    using assms(1)
    by (simp_all add: quiet_frame_def after_share_def record_complete_def beyond_room_def split: option.split)
  have "map_of (rt_pending_tpsl R') order_id \<noteq> None"
    using assms(2) by (auto simp: tpsl_proven_def Let_def)
  then have "map_of (rt_pending_tpsl R') order_id = map_of (rt_pending_tpsl R) order_id"
      "map_of (rt_judged R') order_id = map_of (rt_judged R) order_id"
    using assms(1) unfolding quiet_frame_def by metis+
  then show ?thesis using assms(2) unfolding tpsl_proven_def eqs same by simp
qed

lemma judged_reports:
  "tpsl_in (rt_reports (judged_as v order_id terms R)) = tpsl_in (rt_reports R) @ (if v = Reported then [order_id] else [])"
  by (simp add: judged_as_def Let_def report_def audit_event_def)

lemma evidence_given:
  assumes "tpsl_order_evidence idx held first_seen now R = Some (room, doubt)"
  obtains L where "ps_ledgers (rt_positions R) idx = Some L" "record_complete idx now first_seen R L"
    "doubt = ll_doubt L"
    "room = (let d = (if hedge (rt_positions R) \<or> held = ''buy'' then 1 else - 1)
       in max 0 (max (ll_cursor_leg L * d) 0 - max (ll_share L * d) 0))"
proof -
  have open1: "rt_stream_opened_ms R = None" "now - first_seen \<ge> FILL_REPORT_GRACE_S"
    using assms by (simp_all add: tpsl_order_evidence_def split: if_split_asm)
  obtain view_at L cursor where v: "map_of (rt_view_at R) idx = Some view_at"
    "ps_ledgers (rt_positions R) idx = Some L" "ll_cursor_seq L = Some cursor"
    using assms open1 by (simp add: tpsl_order_evidence_def split: option.split_asm)
  have g: "\<not> (view_at \<le> first_seen \<or> is_open L \<or> list_ex (\<lambda>p. le_seq (snd p) > cursor) (ll_events L))"
    using assms open1 v by (simp add: tpsl_order_evidence_def split: if_split_asm)
  then have "record_complete idx now first_seen R L"
    using open1 v by (auto simp: record_complete_def list_ex_iff not_less)
  then show ?thesis using assms open1 v g that by (simp add: tpsl_order_evidence_def Let_def)
qed

lemma reported_verdict:
  assumes "tpsl_verdict idx held q created market first_seen now R = Reported"
  obtains n c L where "q = Some n" "created = Some c" "after_share idx c R" "ps_ledgers (rt_positions R) idx = Some L"
    "record_complete idx now first_seen R L" "beyond_room held n market R L"
proof -
  obtain n c where q: "q = Some n" "created = Some c"
    using assms by (cases q; cases created) (simp_all add: tpsl_verdict_def Let_def)
  obtain room doubt where e: "tpsl_order_evidence idx held first_seen now R = Some (room, doubt)"
    "n > room + doubt + qty_tolerance market"
    using assms by (cases "tpsl_order_evidence idx held first_seen now R")
      (auto simp: tpsl_verdict_def q Let_def split: if_split_asm)
  have a: "after_share idx c R"
    using assms by (auto simp: tpsl_verdict_def q Let_def after_share_def not_less split: if_split_asm option.splits)
  from e(1) obtain L where L: "ps_ledgers (rt_positions R) idx = Some L" "record_complete idx now first_seen R L"
    "doubt = ll_doubt L"
    "room = (let d = (if hedge (rt_positions R) \<or> held = ''buy'' then 1 else - 1)
       in max 0 (max (ll_cursor_leg L * d) 0 - max (ll_share L * d) 0))" by (rule evidence_given)
  have big: "beyond_room held n market R L" using e(2) by (simp add: beyond_room_def L(3,4) Let_def)
  show ?thesis by (rule that [OF q a L(1,2) big])
qed

lemma judge_one:
  "tpsl_in (rt_reports (judge_tpsl_order W K market now order_id R)) = tpsl_in (rt_reports R) \<or>
   tpsl_in (rt_reports (judge_tpsl_order W K market now order_id R)) = tpsl_in (rt_reports R) @ [order_id] \<and>
     tpsl_proven W K market now R order_id"
proof (cases "map_of (rt_pending_tpsl R) order_id")
  case None
  then show ?thesis by (simp add: judge_tpsl_order_def)
next
  case (Some p)
  obtain entry first_seen where p: "p = (entry, first_seen)" by (cases p)
  let ?side = "lower (jstr entry ''side'')" and ?idx = "closed_leg (lower (jstr entry ''side'')) (rt_positions R)"
  define held where "held = run_side_on_leg W (fk_base K) (Some market) R ?idx"
  define v where "v h = tpsl_verdict ?idx h (fst (tpsl_order_terms entry)) (parse_ms (jget entry
      (if map_of (rt_judged R) order_id \<noteq> None then ''updatedTime'' else ''createdTime''))) market first_seen now R" for h
  have e: "judge_tpsl_order W K market now order_id R =
      (case held of
         None \<Rightarrow> R\<lparr>rt_pending_tpsl := AList.delete order_id (rt_pending_tpsl R)\<rparr>
       | Some h \<Rightarrow> if h = ?side \<or> \<not> rt_has_store R then R\<lparr>rt_pending_tpsl := AList.delete order_id (rt_pending_tpsl R)\<rparr>
                  else if v h = Waiting_Evidence then R else judged_as (v h) order_id (tpsl_order_terms entry) R)"
    unfolding judge_tpsl_order_def Some p option.case prod.case Let_def held_def v_def by (rule refl)
  show ?thesis
  proof (cases "\<exists>h. held = Some h \<and> h \<noteq> ?side \<and> rt_has_store R \<and> v h = Reported")
    case False
    then show ?thesis by (auto simp: e judged_reports split: option.split)
  next
    case True
    then obtain h where h: "held = Some h" "h \<noteq> ?side" "v h = Reported" and store: "rt_has_store R" by auto
    have "tpsl_proven W K market now R order_id"
      using h(3) unfolding v_def
    proof (rule reported_verdict)
      fix n c L
      assume "fst (tpsl_order_terms entry) = Some n" "parse_ms (jget entry
          (if map_of (rt_judged R) order_id \<noteq> None then ''updatedTime'' else ''createdTime'')) = Some c"
        "after_share ?idx c R" "ps_ledgers (rt_positions R) ?idx = Some L" "record_complete ?idx now first_seen R L"
        "beyond_room h n market R L"
      then show ?thesis using h(1,2) store unfolding tpsl_proven_def Let_def held_def
        by (intro exI [of _ entry] exI [of _ first_seen] exI [of _ h] exI [of _ n] exI [of _ c] exI [of _ L]) (simp add: Some p)
    qed
    then show ?thesis using h by (auto simp: e judged_reports)
  qed
qed

lemma judge_grows:
  "\<exists>xs. tpsl_in (rt_reports (judge_tpsl_orders W K market now ids R)) = tpsl_in (rt_reports R) @ xs"
proof (induction ids arbitrary: R)
  case (Cons i ids)
  obtain ys where "tpsl_in (rt_reports (judge_tpsl_orders W K market now ids (judge_tpsl_order W K market now i R))) =
      tpsl_in (rt_reports (judge_tpsl_order W K market now i R)) @ ys" using Cons.IH by blast
  then show ?case using judge_one [of W K market now i R] by auto
qed simp

lemma judge_all:
  "tpsl_in (rt_reports (judge_tpsl_orders W K market now ids R)) = tpsl_in (rt_reports R) @ xs \<Longrightarrow>
   x \<in> set xs \<Longrightarrow> tpsl_proven W K market now R x"
proof (induction ids arbitrary: R xs)
  case (Cons i ids)
  let ?R1 = "judge_tpsl_order W K market now i R"
  from judge_one [of W K market now i R] show ?case
  proof
    assume same: "tpsl_in (rt_reports ?R1) = tpsl_in (rt_reports R)"
    then show ?thesis using Cons tpsl_proven_frame [OF judge_frame] by (metis judge_tpsl_orders.simps(2))
  next
    assume new: "tpsl_in (rt_reports ?R1) = tpsl_in (rt_reports R) @ [i] \<and> tpsl_proven W K market now R i"
    obtain ys where ys: "tpsl_in (rt_reports (judge_tpsl_orders W K market now ids ?R1)) = tpsl_in (rt_reports ?R1) @ ys"
      using judge_grows by blast
    then have "xs = i # ys" using new Cons.prems(1) by simp
    then show ?thesis
      using Cons.prems(2) new Cons.IH [OF ys] tpsl_proven_frame [OF judge_frame] by auto
  qed
qed simp

lemma withdraw_reports: "tpsl_in (rt_reports (withdraw_pending_tpsl_order order_id status R)) = tpsl_in (rt_reports R)"
  by (simp add: withdraw_pending_tpsl_order_def Let_def audit_event_def report_def split: option.split)

text \<open>The order an observation is about, when the observation judges it, and the state it is judged in.\<close>

definition tpsl_watched :: "instrument_info \<Rightarrow> jdict \<Rightarrow> 's runtime \<Rightarrow> bool" where
  "tpsl_watched market entry R \<longleftrightarrow>
     in_category market \<noteq> CATEGORY_SPOT \<and> rt_has_store R \<and> rt_baselined R \<and>
     jstr_or entry ''symbol'' (in_symbol market) = in_symbol market \<and>
     jstr entry ''stopOrderType'' \<in> set PARTIAL_TPSL_STOP_TYPES \<and> jstr entry ''orderId'' \<noteq> [] \<and>
     jstr entry ''orderStatus'' \<in> set UNFILLED_ORDER_STATUSES \<and> lower (jstr entry ''side'') \<in> {''buy'', ''sell''} \<and>
     (\<forall>terms. map_of (rt_judged R) (jstr entry ''orderId'') = Some terms \<longrightarrow> tpsl_order_amended terms entry market)"

definition tpsl_noted :: "rat \<Rightarrow> jdict \<Rightarrow> 's runtime \<Rightarrow> 's runtime" where
  "tpsl_noted now entry R =
     (let k = jstr entry ''orderId'';
          first_seen = (case map_of (rt_pending_tpsl R) k of None \<Rightarrow> now | Some p \<Rightarrow> snd p)
      in R\<lparr>rt_pending_tpsl := AList.update k (entry, first_seen) (rt_pending_tpsl R)\<rparr>)"

lemma observe_cases:
  "tpsl_watched market entry R \<and> observe_foreign_tpsl_order W K market now entry R =
     judge_tpsl_order W K market now (jstr entry ''orderId'') (tpsl_noted now entry R) \<or>
   tpsl_in (rt_reports (observe_foreign_tpsl_order W K market now entry R)) = tpsl_in (rt_reports R)"
proof (cases "tpsl_watched market entry R")
  case True
  then show ?thesis by (auto simp: tpsl_watched_def observe_foreign_tpsl_order_def tpsl_noted_def Let_def split: option.split)
next
  case False
  then show ?thesis
    by (auto simp: tpsl_watched_def observe_foreign_tpsl_order_def Let_def withdraw_reports split: option.split)
qed

text \<open>
  C33. A foreign TP/SL order is reported on evidence only, whichever path judges it: the pass over the
  pending orders, or the observation of one order (which judges it at once, as pending since its first
  sighting). Every order that becomes reported closes the side the run holds on its leg, was created, or
  changed since its last verdict, not before the run's share of the leg began, was pending for the fill
  grace with the stream complete, and its leg was shown by a view after it with no interval open and no
  execution known beyond the view; its quantity is beyond the foreign exposure, the share in doubt and
  the tolerance together. An observation reports only the order it shows, and only an unfilled partial
  TP/SL order of the traded derivative on an adopted run, not judged before under the same terms.
\<close>

theorem foreign_tpsl_reported_on_evidence:
  assumes "order_id \<notin> set (tpsl_in (rt_reports R))"
  shows "(order_id \<in> set (tpsl_in (rt_reports (judge_pending_tpsl_orders W K market now R))) \<longrightarrow>
      tpsl_proven W K market now R order_id) \<and>
    (order_id \<in> set (tpsl_in (rt_reports (observe_foreign_tpsl_order W K market now entry R))) \<longrightarrow>
      order_id = jstr entry ''orderId'' \<and> tpsl_watched market entry R \<and>
      tpsl_proven W K market now (tpsl_noted now entry R) order_id)"
proof (intro conjI impI)
  assume new: "order_id \<in> set (tpsl_in (rt_reports (judge_pending_tpsl_orders W K market now R)))"
  obtain xs where xs: "tpsl_in (rt_reports (judge_pending_tpsl_orders W K market now R)) = tpsl_in (rt_reports R) @ xs"
    unfolding judge_pending_tpsl_orders_def using judge_grows by blast
  then have "order_id \<in> set xs" using assms new by auto
  then show "tpsl_proven W K market now R order_id" using judge_all [OF xs [unfolded judge_pending_tpsl_orders_def]] by blast
next
  assume new: "order_id \<in> set (tpsl_in (rt_reports (observe_foreign_tpsl_order W K market now entry R)))"
  let ?k = "jstr entry ''orderId''" and ?R1 = "tpsl_noted now entry R"
  have j: "tpsl_watched market entry R" "observe_foreign_tpsl_order W K market now entry R = judge_tpsl_order W K market now ?k ?R1"
    using observe_cases [of market entry R W K now] new assms by auto
  have "tpsl_in (rt_reports ?R1) = tpsl_in (rt_reports R)" by (simp add: tpsl_noted_def Let_def)
  then have "order_id = ?k \<and> tpsl_proven W K market now ?R1 ?k"
    using judge_one [of W K market now ?k ?R1] new assms unfolding j(2) by auto
  then show "order_id = ?k" "tpsl_watched market entry R" "tpsl_proven W K market now ?R1 order_id"
    using j(1) by simp_all
qed

definition example_tpsl_order :: jdict where
  "example_tpsl_order =
     [(''side'', PStr ''Sell''), (''qty'', PStr ''2''), (''triggerPrice'', PStr ''90''), (''createdTime'', PStr ''100'')]"

definition example_guarded :: "desk runtime" where
  "example_guarded = (new_runtime True
       \<lparr>dk_rows = [example_entry_row ''a'' 5 5 10], dk_closed = [], dk_envelopes = [], dk_levels = [], dk_resolutions = []\<rparr>)
     \<lparr>rt_positions := new_positions\<lparr>ps_ledgers := Map.empty(0 \<mapsto>
        new_ledger\<lparr>ll_cursor_seq := Some 1, ll_cursor_leg := 5, ll_share := 5\<rparr>)\<rparr>,
      rt_pending_tpsl := [(''tp-1'', (example_tpsl_order, 0))], rt_view_at := [(0, 50)], rt_share_start := [(0, (1, 10))]\<rparr>"

theorem foreign_tpsl_reported_on_evidence_witness:
  "tpsl_proven (desk_ops []) example_keys example_perpetual 100 example_guarded ''tp-1''"
proof -
  have "tpsl_in (rt_reports example_guarded) = []" by code_simp
  then have no: "''tp-1'' \<notin> set (tpsl_in (rt_reports example_guarded))" by simp
  have "tpsl_in (rt_reports (judge_pending_tpsl_orders (desk_ops []) example_keys example_perpetual 100 example_guarded)) =
      [''tp-1'']" by code_simp
  then have yes: "''tp-1'' \<in> set (tpsl_in (rt_reports
      (judge_pending_tpsl_orders (desk_ops []) example_keys example_perpetual 100 example_guarded)))" by simp
  show ?thesis
    by (rule mp [OF conjunct1 [OF foreign_tpsl_reported_on_evidence [OF no, where entry = example_tpsl_order]] yes])
qed

end
