(* ===== verification/Reconcile.thy ===== *)
theory Reconcile
  imports Ledger_Glue
begin

text \<open>
  The reconcile cadence of \<^verbatim>\<open>src/src/pynecore_bybit/reconcile.py\<close> with the retirements of
  \<^verbatim>\<open>events.py\<close> it rests on: what of a row must be seen in a snapshot, the verdict on a row that is not,
  the dispatches parked with an unknown disposition, the fills the venue proves and the run has not
  booked. The framework's disappearance tracker is a parameter; the two reads of an order by its client
  id are a list of replies, the other reads their results. A row's steps are one transition: what the
  stream changes while a read is awaited is a change between two of them.
\<close>

section \<open>Constants and comparisons\<close>

definition MISSING_PENDING_GRACE_S :: rat where "MISSING_PENDING_GRACE_S = 25"
definition PARKED_DISPATCH_GRACE_S :: int where "PARKED_DISPATCH_GRACE_S = 30"
definition PARKED_DISPATCH_MISSES_TO_REJECT :: nat where "PARKED_DISPATCH_MISSES_TO_REJECT = 3"
definition MARKET_ENTRY_LOOKUP_GRACE_MS :: int where "MARKET_ENTRY_LOOKUP_GRACE_MS = 60000"
definition LIVE_ORDER_STATUSES :: "string list" where
  "LIVE_ORDER_STATUSES = [''New'', ''PartiallyFilled'', ''Untriggered'', ''Triggered'']"
definition ENTRY_REMAINDER_CANCELLED_EXTRA :: string where
  "ENTRY_REMAINDER_CANCELLED_EXTRA = ''remainder_cancelled''"
definition ENTRY_CANCEL_CUM_EXEC_EXTRA :: string where "ENTRY_CANCEL_CUM_EXEC_EXTRA = ''cancel_cum_exec''"

datatype cancel_reason = Venue_Reduce_Only | Venue_Oca | Venue_Position_Cleared | Venue_Rejected

definition CANCEL_TYPE_REASONS :: "(string \<times> cancel_reason) list" where
  "CANCEL_TYPE_REASONS =
     [(''CancelByReduceOnly'', Venue_Reduce_Only),
      (''CancelByOCOTpCanceledBySlTriggered'', Venue_Oca),
      (''CancelByOCOSlCanceledByTpTriggered'', Venue_Oca),
      (''CancelByTpSlTsClear'', Venue_Position_Cleared),
      (''CancelByPrepareLiq'', Venue_Position_Cleared),
      (''CancelAllBeforeLiq'', Venue_Position_Cleared),
      (''CancelByPrepareAdl'', Venue_Position_Cleared),
      (''CancelAllBeforeAdl'', Venue_Position_Cleared),
      (''CancelBySettle'', Venue_Position_Cleared),
      (''CancelByDelivery'', Venue_Position_Cleared),
      (''CancelByCannotAffordOrderCost'', Venue_Rejected),
      (''CancelByPmTrialMmOverEquity'', Venue_Rejected),
      (''CancelByAccountBlocking'', Venue_Rejected),
      (''CancelByCrossSelfMuch'', Venue_Rejected),
      (''CancelByCrossReachMaxTradeNum'', Venue_Rejected),
      (''CancelByRebalance'', Venue_Rejected),
      (''CancelByAdmin'', Venue_Rejected),
      (''CancelByDCP'', Venue_Rejected)]"

text \<open>\<open>x \<le> y\<close> on floats; every comparison with NaN is false.\<close>

definition float_le :: "num \<Rightarrow> num \<Rightarrow> bool" where
  "float_le x y \<longleftrightarrow> float_less x y \<or> (x = y \<and> x \<noteq> NaN)"

text \<open>What the venue has filled of a row's order by the row, and a quantity less the slack\<close>

definition cursor_of :: "order_row \<Rightarrow> num" where
  "cursor_of row = venue_filled_qty (or_filled row) (or_extras row)"

definition less_slack :: "num \<Rightarrow> num" where
  "less_slack cum = num_add (- FILL_EPS) cum"

definition row_full :: "order_row \<Rightarrow> bool" where
  "row_full row \<longleftrightarrow> or_filled row \<ge> or_qty row - FILL_EPS"

definition remainder_cancelled :: "order_row \<Rightarrow> bool" where
  "remainder_cancelled row \<longleftrightarrow> truthy (jget (extras_of row) ENTRY_REMAINDER_CANCELLED_EXTRA)"

definition live_rows :: "'s framework_ops \<Rightarrow> 's runtime \<Rightarrow> order_row list" where
  "live_rows W R = so_live (rows_of W) (rt_store R)"

section \<open>Unbooked fills\<close>

definition note_unbooked_fills :: "order_row \<Rightarrow> string \<Rightarrow> num \<Rightarrow> 's runtime \<Rightarrow> 's runtime" where
  "note_unbooked_fills row order_id cum R =
     (if order_id = [] \<or> float_le (less_slack cum) (cursor_of row) then R
      else R\<lparr>rt_unbooked := AList.update (or_coid row) (order_id, cum) (rt_unbooked R)\<rparr>)"

fun note_progress_of_rows :: "(string \<times> num) list \<Rightarrow> order_row list \<Rightarrow> 's runtime \<Rightarrow> 's runtime" where
  "note_progress_of_rows open_orders [] R = R"
| "note_progress_of_rows open_orders (row # rows) R =
     (let oid = (case or_order_id row of None \<Rightarrow> [] | Some i \<Rightarrow> i) in
      note_progress_of_rows open_orders rows
        (case map_of open_orders oid of None \<Rightarrow> R | Some cum \<Rightarrow> note_unbooked_fills row oid cum R))"

definition note_open_order_fill_progress ::
    "'s framework_ops \<Rightarrow> (string \<times> num) list \<Rightarrow> 's runtime \<Rightarrow> 's runtime" where
  "note_open_order_fill_progress W open_orders R =
     (if \<not> rt_has_store R \<or> open_orders = [] then R
      else note_progress_of_rows open_orders (live_rows W R) R)"

text \<open>The framework's own answer comes first.\<close>

definition fill_recovery_pending ::
    "'s framework_ops \<Rightarrow> keys \<Rightarrow> bool \<Rightarrow> string list \<Rightarrow> 's runtime \<Rightarrow> bool" where
  "fill_recovery_pending W K framework_pending entry_ids R \<longleftrightarrow>
     framework_pending \<or>
     (rt_has_store R \<and> entry_ids \<noteq> [] \<and>
      (rt_unbooked R \<noteq> [] \<or>
       list_ex (\<lambda>row. jget (extras_of row) ''kind'' = PStr ''close'' \<and>
                      map_of (extras_of row) (fk_missing_key K) \<noteq> None) (live_rows W R)))"

section \<open>Presence\<close>

definition order_ref :: "order_row \<Rightarrow> string option" where
  "order_ref row =
     (case or_order_id row of
        Some (c # cs) \<Rightarrow> Some (c # cs)
      | _ \<Rightarrow> (let v = jget (extras_of row) ''order_id'' in if truthy v then Some (py_str v) else None))"

definition order_refs :: "order_row \<Rightarrow> (string \<times> string) list" where
  "order_refs row = (case order_ref row of None \<Rightarrow> [] | Some ref \<Rightarrow> [(''orders'', ref)])"

definition on_derivative :: "instrument_info option \<Rightarrow> bool" where
  "on_derivative market = (case market of None \<Rightarrow> False | Some m \<Rightarrow> in_category m \<noteq> CATEGORY_SPOT)"

text \<open>The presence set of a row; \<open>symbol\<close> is the row's own.\<close>

definition tracked_refs :: "keys \<Rightarrow> instrument_info option \<Rightarrow> string \<Rightarrow> order_row \<Rightarrow> (string \<times> string) list" where
  "tracked_refs K market symbol row =
     (let kind = jget (extras_of row) ''kind'' in
      if is_entry_row (fk_base K) row
      then (if row_full row then (if on_derivative market then [(''positions'', symbol)] else [])
            else if remainder_cancelled row then []
            else if kind = PStr (fk_working_kind K) then order_refs row else [])
      else if kind = PStr ''exit_leg'' \<or> kind = PStr ''close'' then order_refs row
      else [])"

definition is_exempt :: "order_row \<Rightarrow> bool" where
  "is_exempt row \<longleftrightarrow> jget (extras_of row) ''natural_close_at'' \<noteq> PNone"

definition is_settled_position :: "keys \<Rightarrow> order_row \<Rightarrow> bool" where
  "is_settled_position K row \<longleftrightarrow> is_entry_row (fk_base K) row \<and> row_full row"

fun rows_have_exposure :: "jdict list \<Rightarrow> raised + bool" where
  "rows_have_exposure [] = Inr False"
| "rows_have_exposure (row # rows) =
     res_bind (position_row_size row) (\<lambda>sz. if sz > 0 then Inr True else rows_have_exposure rows)"

text \<open>
  The present sets of one pass: \<open>None\<close> stands for an incomplete read, the positions are left out on
  spot. A position row that cannot be read makes that set incomplete.
\<close>

record present_refs =
  pr_orders :: "string list option"
  pr_positions :: "string list option option"

definition positions_present :: "instrument_info \<Rightarrow> jdict list option \<Rightarrow> raised + string list option" where
  "positions_present market position_rows =
     (case position_rows of
        None \<Rightarrow> Inr None
      | Some rows \<Rightarrow>
          (case rows_have_exposure rows of
             Inl (Bybit e) \<Rightarrow> Inr None
           | Inl e \<Rightarrow> Inl e
           | Inr True \<Rightarrow> Inr (Some [in_symbol market])
           | Inr False \<Rightarrow> Inr (Some [])))"

definition disappearance_present ::
    "'s framework_ops \<Rightarrow> keys \<Rightarrow> instrument_info \<Rightarrow> rat \<Rightarrow> rat \<Rightarrow> raised + (jdict list \<times> bool) \<Rightarrow> jdict list option \<Rightarrow>
     's runtime \<Rightarrow> 's runtime \<times> (raised + present_refs)" where
  "disappearance_present W K market now read_started orders_read position_rows R =
     (case orders_read of
        Inl e \<Rightarrow> (R, Inl e)
      | Inr (rows, ok) \<Rightarrow>
          (let open_orders = open_orders_by_id rows [];
               R1 = (if ok then observe_open_order_levels W K market now read_started rows R else R);
               orders = (if ok then Some (map fst open_orders) else None)
           in if in_category market = CATEGORY_SPOT then (R1, Inr \<lparr>pr_orders = orders, pr_positions = None\<rparr>)
              else
                let R2 = note_open_order_fill_progress W open_orders R1
                in (case positions_present market position_rows of
                      Inl e \<Rightarrow> (R2, Inl e)
                    | Inr p \<Rightarrow> (R2, Inr \<lparr>pr_orders = orders, pr_positions = Some p\<rparr>))))"

text \<open>
  The tracker's pass: the events so far, and how it ended. A halting policy's intervention is raised
  again; any other failure ends the pass only.
\<close>

datatype tracker_end = Observed | Manual_Intervention | Tracker_Failed

definition reconcile_disappearance ::
    "'s framework_ops \<Rightarrow> keys \<Rightarrow> instrument_info \<Rightarrow> rat \<Rightarrow> rat \<Rightarrow> raised + (jdict list \<times> bool) \<Rightarrow> jdict list option \<Rightarrow>
     (present_refs \<Rightarrow> 's runtime \<Rightarrow> 's runtime \<times> 'e list \<times> tracker_end) \<Rightarrow> 's runtime \<Rightarrow>
     's runtime \<times> (raised + ('e list option))" where
  "reconcile_disappearance W K market now read_started orders_read position_rows tracker R =
     (if \<not> rt_has_store R then (R, Inr (Some []))
      else
        (case disappearance_present W K market now read_started orders_read position_rows R of
           (R1, Inl e) \<Rightarrow> (R1, Inl e)
         | (R1, Inr present) \<Rightarrow>
             (case tracker present R1 of
                (R2, events, Manual_Intervention) \<Rightarrow> (R2, Inr None)
              | (R2, events, ended) \<Rightarrow> (R2, Inr (Some events)))))"

section \<open>Retiring a cancelled row\<close>

text \<open>The extras are those the row had before its guarded levels are forgotten.\<close>

definition set_row :: "'s framework_ops \<Rightarrow> string \<Rightarrow> (order_row \<Rightarrow> order_row) \<Rightarrow> 's runtime \<Rightarrow> 's runtime" where
  "set_row W coid f R = on_store (so_update (rows_of W) coid f) R"

definition close_row :: "'s framework_ops \<Rightarrow> string \<Rightarrow> 's runtime \<Rightarrow> 's runtime" where
  "close_row W coid R = on_store (so_close (rows_of W) coid) R"

text \<open>The executed quantity net of what reducing fills consumed of the row\<close>

definition executed_of :: "order_row \<Rightarrow> rat \<Rightarrow> rat" where
  "executed_of row cum =
     (let netted = (case cursor_of row of Fin v \<Rightarrow> v - or_filled row | _ \<Rightarrow> 0)
      in max (or_filled row) (cum - netted))"

definition retire_ref :: "string option \<Rightarrow> order_row \<Rightarrow> string" where
  "retire_ref order_id row =
     (case order_id of
        Some (c # cs) \<Rightarrow> c # cs
      | _ \<Rightarrow>
          (case or_order_id row of
             Some (c # cs) \<Rightarrow> c # cs
           | _ \<Rightarrow> py_str (py_or (jget (extras_of row) ''order_id'') (PStr []))))"

definition settle_entry_row ::
    "'s framework_ops \<Rightarrow> instrument_info option \<Rightarrow> order_row \<Rightarrow> rat \<Rightarrow> string option \<Rightarrow> 's runtime \<Rightarrow> 's runtime" where
  "settle_entry_row W market row cum order_id R =
     (let executed = executed_of row cum in
      if executed \<le> FILL_EPS then close_row W (or_coid row) R
      else
        let extras = AList.update ENTRY_CANCEL_CUM_EXEC_EXTRA (PFloat cum)
              (AList.update ENTRY_REMAINDER_CANCELLED_EXTRA (PBool True) (extras_of row));
            R1 = set_row W (or_coid row) (\<lambda>r. r\<lparr>or_qty := executed, or_extras := Some extras\<rparr>) R;
            ref = retire_ref order_id row
        in if on_derivative market \<and> ref \<noteq> [] then note_unbooked_fills row ref (Fin cum) R1 else R1)"

definition retire_cancelled_row ::
    "'s framework_ops \<Rightarrow> keys \<Rightarrow> instrument_info option \<Rightarrow> string \<Rightarrow> rat option \<Rightarrow> string option \<Rightarrow> 's runtime \<Rightarrow>
     's runtime" where
  "retire_cancelled_row W K market coid cum order_id R =
     (if \<not> rt_has_store R then R
      else
        (case fo_get W coid (rt_store R) of
           Some (row, False) \<Rightarrow>
             (let R1 = forget_protection W coid R in
              if \<not> is_entry_row (fk_base K) row then close_row W coid R1
              else
                (case cum of
                   None \<Rightarrow>
                     if remainder_cancelled row then R1
                     else set_row W coid (\<lambda>r. r\<lparr>or_extras :=
                            Some (AList.update ENTRY_REMAINDER_CANCELLED_EXTRA (PBool True) (extras_of row))\<rparr>) R1
                 | Some c \<Rightarrow> settle_entry_row W market row c order_id R1))
         | _ \<Rightarrow> R))"

text \<open>The retirement the tracker asks for: the cursor is the terminal figure.\<close>

definition retire_vanished_cancelled_row ::
    "'s framework_ops \<Rightarrow> keys \<Rightarrow> instrument_info option \<Rightarrow> order_row \<Rightarrow> 's runtime \<Rightarrow> 's runtime" where
  "retire_vanished_cancelled_row W K market row R =
     retire_cancelled_row W K market (or_coid row)
       (case cursor_of row of Fin v \<Rightarrow> Some v | _ \<Rightarrow> None) (or_order_id row) R"

text \<open>The sweep of the settled entry rows once the position is gone; \<open>spot_net\<close> is the ledger's net.\<close>

definition swept :: "keys \<Rightarrow> order_row \<Rightarrow> bool" where
  "swept K row \<longleftrightarrow>
     is_settled_position K row \<and> map_of (extras_of row) ''defensive_close_pending'' = None"

fun close_swept :: "'s framework_ops \<Rightarrow> keys \<Rightarrow> order_row list \<Rightarrow> 's runtime \<Rightarrow> 's runtime" where
  "close_swept W K [] R = R"
| "close_swept W K (row # rows) R =
     close_swept W K rows
       (if swept K row
        then on_store (complete_intent (fo_dispatch W) row) (close_row W (or_coid row) R) else R)"

definition spot_is_flat :: "instrument_info \<Rightarrow> rat option \<Rightarrow> bool" where
  "spot_is_flat market spot_net =
     (case spot_net of
        None \<Rightarrow> False
      | Some net \<Rightarrow> \<not> (net > 0 \<and> (float_le (in_qty_step market) (Fin 0) \<or> float_le (in_qty_step market) (Fin net))))"

definition close_entry_rows_when_flat ::
    "'s framework_ops \<Rightarrow> keys \<Rightarrow> instrument_info \<Rightarrow> rat option \<Rightarrow> 's runtime \<Rightarrow> 's runtime" where
  "close_entry_rows_when_flat W K market spot_net R =
     (if \<not> rt_has_store R then R
      else if (if in_category market \<noteq> CATEGORY_SPOT
               then deriv_is_flat (Some (run_owned_signed_size (fk_base K) (live_rows W R))) (rt_positions R) \<and>
                    \<not> sweep_waits_for_ledger R
               else spot_is_flat market spot_net)
      then close_swept W K (live_rows W R) R
      else R)"

section \<open>Parked dispatches\<close>

text \<open>The reads of an order by its client id: one list of replies per id.\<close>

type_synonym order_lookups = "string \<Rightarrow> (raised + jdict) list"

definition lookup_order ::
    "'s framework_ops \<Rightarrow> order_lookups \<Rightarrow> string \<Rightarrow> 's runtime \<Rightarrow> raised + (jdict option \<times> bool)" where
  "lookup_order W lookups coid R =
     confirm_lookup (map_option (\<lambda>(row, is_closed). or_created_ms row) (fo_get W coid (rt_store R))) (lookups coid)"

definition reject_parked_dispatch ::
    "'s framework_ops \<Rightarrow> order_row \<Rightarrow> jdict option \<Rightarrow> 's runtime \<Rightarrow> 's runtime" where
  "reject_parked_dispatch W row existing R =
     (if \<not> rt_has_store R then R
      else
        let coid = or_coid row;
            oid = (case existing of None \<Rightarrow> [] | Some d \<Rightarrow> jstr d ''orderId'')
        in audit_event ''parked_dispatch_rejected'' coid 0
             (on_store (\<lambda>s. fo_resolve W coid ''rejected''
                (ds_terminal_close (fo_dispatch W) coid ''rejected'' (if oid = [] then None else Some oid) s))
              (R\<lparr>rt_misses := AList.delete coid (rt_misses R)\<rparr>)))"

definition miss_count :: "string \<Rightarrow> 's runtime \<Rightarrow> nat" where
  "miss_count coid R = (case map_of (rt_misses R) coid of None \<Rightarrow> 0 | Some n \<Rightarrow> n)"

text \<open>Whether a found order is dead without a fill; a NaN \<open>cumExecQty\<close> signals.\<close>

definition dead_unfilled :: "jdict \<Rightarrow> raised + bool" where
  "dead_unfilled existing =
     (if jstr existing ''orderStatus'' \<notin> set DEAD_ORDER_STATUSES then Inr False
      else (case num_greater (decimal_or_zero (jget existing ''cumExecQty'')) (Fin 0) of
              Inl e \<Rightarrow> Inl (Lang e) | Inr g \<Rightarrow> Inr (\<not> g)))"

text \<open>What one lookup does to one parked row old enough to be looked up.\<close>

definition judge_parked_row ::
    "'s framework_ops \<Rightarrow> order_lookups \<Rightarrow> order_row \<Rightarrow> 's runtime \<Rightarrow> 's runtime \<times> raised option" where
  "judge_parked_row W lookups row R =
     (let coid = or_coid row in
      case lookup_order W lookups coid R of
        Inl e \<Rightarrow> (R, Some e)
      | Inr (existing, False) \<Rightarrow> (R, None)
      | Inr (None, True) \<Rightarrow>
          (let n = miss_count coid R + 1;
               R1 = R\<lparr>rt_misses := AList.update coid n (rt_misses R)\<rparr>
           in (if n < PARKED_DISPATCH_MISSES_TO_REJECT then R1 else reject_parked_dispatch W row None R1, None))
      | Inr (Some existing, True) \<Rightarrow>
          (let R1 = R\<lparr>rt_misses := AList.delete coid (rt_misses R)\<rparr> in
           case dead_unfilled existing of
             Inl e \<Rightarrow> (R1, Some e)
           | Inr dead \<Rightarrow> (if dead then reject_parked_dispatch W row (Some existing) R1 else R1, None)))"

definition parked :: "keys \<Rightarrow> order_row \<Rightarrow> bool" where
  "parked K row \<longleftrightarrow> or_state row = fk_unknown_state K \<and> (or_order_id row = None \<or> or_order_id row = Some [])"

text \<open>The rows of the pass; the client ids seen until one of them raised.\<close>

fun parked_rows_pass ::
    "'s framework_ops \<Rightarrow> keys \<Rightarrow> order_lookups \<Rightarrow> int \<Rightarrow> order_row list \<Rightarrow> string list \<Rightarrow> 's runtime \<Rightarrow>
     's runtime \<times> string list" where
  "parked_rows_pass W K lookups now_ms [] seen R = (R, seen)"
| "parked_rows_pass W K lookups now_ms (row # rows) seen R =
     (if \<not> parked K row then parked_rows_pass W K lookups now_ms rows seen R
      else if now_ms - or_created_ms row < PARKED_DISPATCH_GRACE_S * 1000
      then parked_rows_pass W K lookups now_ms rows (or_coid row # seen) R
      else
        (case judge_parked_row W lookups row R of
           (R1, Some e) \<Rightarrow> (R1, or_coid row # seen)
         | (R1, None) \<Rightarrow> parked_rows_pass W K lookups now_ms rows (or_coid row # seen) R1))"

definition resolve_parked_dispatches ::
    "'s framework_ops \<Rightarrow> keys \<Rightarrow> order_lookups \<Rightarrow> int \<Rightarrow> 's runtime \<Rightarrow> 's runtime" where
  "resolve_parked_dispatches W K lookups now_ms R =
     (if \<not> rt_has_store R then R
      else
        (case parked_rows_pass W K lookups now_ms (ds_pending (fo_dispatch W) (rt_store R)) [] R of
           (R1, seen) \<Rightarrow> R1\<lparr>rt_misses := filter (\<lambda>m. fst m \<in> set seen) (rt_misses R1)\<rparr>))"

section \<open>Market entries and cancelled entries\<close>

definition market_entry_lags :: "keys \<Rightarrow> order_row \<Rightarrow> bool" where
  "market_entry_lags K row \<longleftrightarrow>
     jget (extras_of row) ''kind'' = PStr (fk_position_kind K) \<and> \<not> remainder_cancelled row \<and>
     or_state row \<notin> set (fc_pending_states (fk_base K)) \<and> \<not> row_full row"

definition check_market_entry ::
    "'s framework_ops \<Rightarrow> order_lookups \<Rightarrow> order_row \<Rightarrow> 's runtime \<Rightarrow> 's runtime \<times> raised option" where
  "check_market_entry W lookups row R =
     (let coid = or_coid row; done1 = \<lambda>X. X\<lparr>rt_checked := List.insert coid (rt_checked X)\<rparr> in
      case lookup_order W lookups coid R of
        Inl e \<Rightarrow> (R, Some e)
      | Inr (existing, False) \<Rightarrow> (R, None)
      | Inr (None, True) \<Rightarrow> (done1 R, None)
      | Inr (Some existing, True) \<Rightarrow>
          if jstr existing ''orderStatus'' \<in> set LIVE_ORDER_STATUSES then (R, None)
          else
            let oid = jstr existing ''orderId'';
                ref = (if oid \<noteq> [] then oid else case or_order_id row of None \<Rightarrow> [] | Some i \<Rightarrow> i)
            in (done1 (note_unbooked_fills row ref (decimal_or_zero (jget existing ''cumExecQty'')) R), None))"

fun check_market_entries ::
    "'s framework_ops \<Rightarrow> keys \<Rightarrow> order_lookups \<Rightarrow> int \<Rightarrow> order_row list \<Rightarrow> string list \<Rightarrow> 's runtime \<Rightarrow>
     's runtime \<times> (raised + string list)" where
  "check_market_entries W K lookups now_ms [] candidates R = (R, Inr candidates)"
| "check_market_entries W K lookups now_ms (row # rows) candidates R =
     (let coid = or_coid row in
      if \<not> market_entry_lags K row then check_market_entries W K lookups now_ms rows candidates R
      else if coid \<in> set (rt_checked R) \<or> map_of (rt_unbooked R) coid \<noteq> None \<or>
              now_ms - or_created_ms row < MARKET_ENTRY_LOOKUP_GRACE_MS
      then check_market_entries W K lookups now_ms rows (coid # candidates) R
      else
        (case check_market_entry W lookups row R of
           (R1, Some e) \<Rightarrow> (R1, Inl e)
         | (R1, None) \<Rightarrow> check_market_entries W K lookups now_ms rows (coid # candidates) R1))"

definition note_unbooked_market_entries ::
    "'s framework_ops \<Rightarrow> keys \<Rightarrow> instrument_info \<Rightarrow> order_lookups \<Rightarrow> int \<Rightarrow> 's runtime \<Rightarrow>
     's runtime \<times> raised option" where
  "note_unbooked_market_entries W K market lookups now_ms R =
     (if \<not> rt_has_store R \<or> in_category market = CATEGORY_SPOT then (R, None)
      else
        (case check_market_entries W K lookups now_ms (live_rows W R) [] R of
           (R1, Inl e) \<Rightarrow> (R1, Some e)
         | (R1, Inr candidates) \<Rightarrow> (R1\<lparr>rt_checked := filter (\<lambda>c. c \<in> set candidates) (rt_checked R1)\<rparr>, None)))"

text \<open>
  A cancelled entry whose executed quantity is not known. A \<open>cumExecQty\<close> that is absent, cannot be read or
  is not finite leaves the row for the next pass.
\<close>

definition cum_exec_qty :: "jdict \<Rightarrow> rat option" where
  "cum_exec_qty entry =
     (let raw = jget entry ''cumExecQty'' in
      if raw = PNone \<or> raw = PStr [] then None
      else case py_float raw of Inr (Fin v) \<Rightarrow> Some v | _ \<Rightarrow> None)"

definition awaits_settlement :: "order_row \<Rightarrow> bool" where
  "awaits_settlement row \<longleftrightarrow>
     remainder_cancelled row \<and> map_of (extras_of row) ENTRY_CANCEL_CUM_EXEC_EXTRA = None \<and> \<not> row_full row"

definition settle_cancelled_entry ::
    "'s framework_ops \<Rightarrow> keys \<Rightarrow> instrument_info \<Rightarrow> order_lookups \<Rightarrow> order_row \<Rightarrow> 's runtime \<Rightarrow>
     's runtime \<times> raised option" where
  "settle_cancelled_entry W K market lookups row R =
     (case lookup_order W lookups (or_coid row) R of
        Inl e \<Rightarrow> (R, Some e)
      | Inr (Some existing, True) \<Rightarrow>
          (let status = jstr existing ''orderStatus'' in
           if status \<noteq> ''Filled'' \<and> status \<notin> set DEAD_ORDER_STATUSES then (R, None)
           else
             (case cum_exec_qty existing of
                None \<Rightarrow> (R, None)
              | Some cum \<Rightarrow>
                  (let oid = jstr existing ''orderId'' in
                   (retire_cancelled_row W K (Some market) (or_coid row) (Some cum) (if oid = [] then None else Some oid) R,
                    None))))
      | Inr found \<Rightarrow> (R, None))"

fun settle_cancelled_rows ::
    "'s framework_ops \<Rightarrow> keys \<Rightarrow> instrument_info \<Rightarrow> order_lookups \<Rightarrow> order_row list \<Rightarrow> 's runtime \<Rightarrow>
     's runtime \<times> raised option" where
  "settle_cancelled_rows W K market lookups [] R = (R, None)"
| "settle_cancelled_rows W K market lookups (row # rows) R =
     (if \<not> awaits_settlement row then settle_cancelled_rows W K market lookups rows R
      else
        (case settle_cancelled_entry W K market lookups row R of
           (R1, Some e) \<Rightarrow> (R1, Some e)
         | (R1, None) \<Rightarrow> settle_cancelled_rows W K market lookups rows R1))"

definition settle_cancelled_entries ::
    "'s framework_ops \<Rightarrow> keys \<Rightarrow> instrument_info \<Rightarrow> order_lookups \<Rightarrow> 's runtime \<Rightarrow> 's runtime \<times> raised option" where
  "settle_cancelled_entries W K market lookups R =
     (if \<not> rt_has_store R then (R, None) else settle_cancelled_rows W K market lookups (live_rows W R) R)"

section \<open>The verdict on a missing row\<close>

datatype confirmation =
    Still_Present
  | Was_Filled
  | Was_Cancelled "cancel_reason option"
  | Was_Closed string
  | Inconclusive

definition settle_filled_row :: "'s framework_ops \<Rightarrow> order_row \<Rightarrow> num \<Rightarrow> 's runtime \<Rightarrow> 's runtime" where
  "settle_filled_row W row cum R =
     (if \<not> rt_has_store R \<or> float_less (cursor_of row) (less_slack cum) then R
      else if jget (extras_of row) ''kind'' \<in> {PStr ''exit_leg'', PStr ''close''} then close_row W (or_coid row) R
      else if or_qty row > or_filled row + FILL_EPS
      then set_row W (or_coid row) (\<lambda>r. r\<lparr>or_qty := or_filled row\<rparr>) R
      else R)"

definition cancel_cause :: "jdict \<Rightarrow> cancel_reason option" where
  "cancel_cause existing =
     (if jstr existing ''orderStatus'' = ''Rejected'' then Some Venue_Rejected
      else map_of CANCEL_TYPE_REASONS (jstr existing ''cancelType''))"

text \<open>
  A found order that is not live: its unbooked fills are noted first; a NaN \<open>cumExecQty\<close> signals where it
  is compared.
\<close>

definition judge_found_order ::
    "'s framework_ops \<Rightarrow> order_row \<Rightarrow> jdict \<Rightarrow> 's runtime \<Rightarrow> 's runtime \<times> (raised + confirmation)" where
  "judge_found_order W row existing R =
     (let status = jstr existing ''orderStatus'';
          cum = decimal_or_zero (jget existing ''cumExecQty'') in
      if status \<in> set DEAD_ORDER_STATUSES
      then (case num_greater cum (Fin 0) of
              Inl e \<Rightarrow> (R, Inl (Lang e))
            | Inr g \<Rightarrow>
                if g \<and> float_less (cursor_of row) (less_slack cum) then (R, Inr Inconclusive)
                else (R, Inr (Was_Cancelled (cancel_cause existing))))
      else if status = ''Filled'' then (settle_filled_row W row cum R, Inr Was_Filled)
      else
        (case num_greater cum (Fin 0) of
           Inl e \<Rightarrow> (R, Inl (Lang e))
         | Inr g \<Rightarrow> (R, Inr (if g then Was_Filled else Inconclusive))))"

definition confirm_vanished_order ::
    "'s framework_ops \<Rightarrow> instrument_info \<Rightarrow> order_lookups \<Rightarrow> order_row \<Rightarrow> 's runtime \<Rightarrow>
     's runtime \<times> (raised + confirmation)" where
  "confirm_vanished_order W market lookups row R =
     (case lookup_order W lookups (or_coid row) R of
        Inl e \<Rightarrow> (R, Inl e)
      | Inr (Some existing, True) \<Rightarrow>
          if jstr existing ''orderStatus'' \<in> set LIVE_ORDER_STATUSES then (R, Inr Still_Present)
          else judge_found_order W row existing
                 (if in_category market \<noteq> CATEGORY_SPOT
                  then note_unbooked_fills row (jstr existing ''orderId'') (decimal_or_zero (jget existing ''cumExecQty'')) R
                  else R)
      | Inr found \<Rightarrow> (R, Inr Inconclusive))"

definition confirm_settled_position :: "instrument_info \<Rightarrow> raised + jdict list \<Rightarrow> raised + confirmation" where
  "confirm_settled_position market rows =
     (case res_bind rows rows_have_exposure of
        Inl (Bybit e) \<Rightarrow> Inr Inconclusive
      | Inl e \<Rightarrow> Inl e
      | Inr True \<Rightarrow> Inr Still_Present
      | Inr False \<Rightarrow> Inr (Was_Closed (in_symbol market)))"

definition confirm_missing ::
    "'s framework_ops \<Rightarrow> keys \<Rightarrow> instrument_info \<Rightarrow> order_lookups \<Rightarrow> raised + jdict list \<Rightarrow> order_row \<Rightarrow> 's runtime \<Rightarrow>
     's runtime \<times> (raised + confirmation)" where
  "confirm_missing W K market lookups position_rows row R =
     (if in_category market \<noteq> CATEGORY_SPOT \<and> is_settled_position K row
      then (R, confirm_settled_position market position_rows)
      else confirm_vanished_order W market lookups row R)"

definition closed_position_siblings :: "'s framework_ops \<Rightarrow> keys \<Rightarrow> order_row \<Rightarrow> 's runtime \<Rightarrow> string list" where
  "closed_position_siblings W K row R =
     (if \<not> rt_has_store R then []
      else map or_coid (filter (\<lambda>r. or_coid r \<noteq> or_coid row \<and> is_settled_position K r) (live_rows W R)))"

text \<open>The synthetic event of a vanished row: the order and the identity it names.\<close>

definition vanished_order :: "string \<Rightarrow> order_row \<Rightarrow> leg_type \<Rightarrow> rat \<Rightarrow> exchange_order" where
  "vanished_order symbol row lt now_ts =
     \<lparr>eo_id = (case or_order_id row of None \<Rightarrow> [] | Some i \<Rightarrow> i), eo_symbol = symbol, eo_side = or_side row,
      eo_type = (if lt = TAKE_PROFIT then LIMIT else if lt = STOP_LOSS then STOP else MARKET),
      eo_qty = Fin (or_qty row), eo_filled_qty = Fin (or_filled row),
      eo_remaining_qty = Fin (max 0 (or_qty row - or_filled row)), eo_price = None, eo_stop_price = None,
      eo_average_fill_price = None, eo_status = CANCELLED, eo_timestamp = Fin now_ts, eo_fee = Fin 0,
      eo_reduce_only = (lt \<noteq> ENTRY), eo_client_order_id = Some (or_coid row)\<rparr>"

definition cancelled_event ::
    "'s framework_ops \<Rightarrow> read_ctx \<Rightarrow> instrument_info option \<Rightarrow> string \<Rightarrow> order_row \<Rightarrow> rat \<Rightarrow> 's runtime \<Rightarrow>
     py_error + ('s runtime \<times> exchange_order \<times> identity)" where
  "cancelled_event W X market symbol row now_ts R =
     (let (pine_id, from_entry, lt) =
            (case resolve_identity W (Some (or_coid row)) (or_order_id row) R of
               None \<Rightarrow> (None, None, ENTRY) | Some i \<Rightarrow> i);
          o1 = vanished_order symbol row lt now_ts
      in if (case market of None \<Rightarrow> False | Some m \<Rightarrow> in_category m = CATEGORY_INVERSE)
         then res_bind (inverse_order_to_base X o1 (rt_inverse R)) (\<lambda>(I, o2).
                Inr (R\<lparr>rt_inverse := I\<rparr>, o2, (pine_id, from_entry, lt)))
         else Inr (R, o1, (pine_id, from_entry, lt)))"

end
