(* ===== verification/Reconcile_Theorems.thy ===== *)
theory Reconcile_Theorems
  imports Reconcile
begin

text \<open>
  What the reconcile cadence of \<^verbatim>\<open>src/src/pynecore_bybit/reconcile.py\<close> guarantees: a verdict rests on
  what the venue showed, a parked dispatch is given up only when the venue refused it or did not know it
  often enough, and no pass changes what the run owns.
\<close>

section \<open>Verdicts\<close>

text \<open>What a verdict that retires a row rests on\<close>

fun proven_by ::
    "'s framework_ops \<Rightarrow> order_lookups \<Rightarrow> raised + jdict list \<Rightarrow> order_row \<Rightarrow> 's runtime \<Rightarrow> confirmation \<Rightarrow> bool" where
  "proven_by W lookups position_rows row R (Was_Cancelled cause) =
     (case lookup_order W lookups (or_coid row) R of
        Inr (Some existing, True) \<Rightarrow>
          jstr existing ''orderStatus'' \<in> set DEAD_ORDER_STATUSES \<and> cause = cancel_cause existing \<and>
          (let cum = decimal_or_zero (jget existing ''cumExecQty'')
           in num_greater cum (Fin 0) = Inr False \<or> \<not> float_less (cursor_of row) (less_slack cum))
      | _ \<Rightarrow> False)"
| "proven_by W lookups position_rows row R (Was_Closed symbol) =
     (case position_rows of
        Inr rows \<Rightarrow> list_all (\<lambda>r. case position_row_size r of Inr sz \<Rightarrow> sz \<le> 0 | Inl e \<Rightarrow> False) rows
      | Inl e \<Rightarrow> False)"
| "proven_by W lookups position_rows row R v = True"

lemma no_exposure:
  "rows_have_exposure rows = Inr False \<Longrightarrow>
     list_all (\<lambda>r. case position_row_size r of Inr sz \<Rightarrow> sz \<le> 0 | Inl e \<Rightarrow> False) rows"
  by (induction rows) (auto split: sum.splits if_splits)

lemma note_unbooked_store [simp]:
  "rt_store (note_unbooked_fills row oid cum R) = rt_store R"
  "rt_has_store (note_unbooked_fills row oid cum R) = rt_has_store R"
  "rt_misses (note_unbooked_fills row oid cum R) = rt_misses R"
  by (simp_all add: note_unbooked_fills_def)

lemma found_verdict:
  assumes "judge_found_order W row existing X = (R', Inr v)"
    and "lookup_order W lookups (or_coid row) R = Inr (Some existing, True)"
  shows "proven_by W lookups rows row R v"
  using assms
  by (auto simp: judge_found_order_def Let_def split: if_splits sum.splits)

lemma vanished_verdict:
  assumes "confirm_vanished_order W market lookups row R = (R', Inr v)"
  shows "proven_by W lookups rows row R v"
proof (cases "\<exists>existing. lookup_order W lookups (or_coid row) R = Inr (Some existing, True) \<and>
    jstr existing ''orderStatus'' \<notin> set LIVE_ORDER_STATUSES")
  case True
  then obtain existing X where l: "lookup_order W lookups (or_coid row) R = Inr (Some existing, True)"
    "judge_found_order W row existing X = (R', Inr v)"
    using assms by (auto simp: confirm_vanished_order_def)
  show ?thesis by (rule found_verdict [OF l(2,1)])
next
  case False
  then have "v = Still_Present \<or> v = Inconclusive"
    using assms by (auto simp: confirm_vanished_order_def split: sum.splits prod.splits option.splits bool.splits)
  then show ?thesis by auto
qed

text \<open>
  C38. A row is retired on proof only. The verdict that a missing row was cancelled comes from an order both
  reads were asked for and one returned, dead on the venue, with no fill or with every fill of it in the
  row's cursor, and names the cause the venue named; the verdict that a position is closed comes from a
  position read in which every row could be read and none has a size. A failed read, an unreadable row or an
  order that is not found never retires anything.
\<close>

theorem verdict_needs_proof:
  assumes "confirm_missing W K market lookups position_rows row R = (R', Inr v)"
  shows "proven_by W lookups position_rows row R v"
proof (cases "in_category market \<noteq> CATEGORY_SPOT \<and> is_settled_position K row")
  case False
  then have "confirm_vanished_order W market lookups row R = (R', Inr v)"
    using assms by (auto simp: confirm_missing_def split: if_splits)
  then show ?thesis by (rule vanished_verdict)
next
  case True
  then have c: "confirm_settled_position market position_rows = Inr v"
    using assms by (auto simp: confirm_missing_def split: if_splits)
  show ?thesis
  proof (cases position_rows)
    case (Inl e)
    then show ?thesis using c by (cases e) (auto simp: confirm_settled_position_def)
  next
    case (Inr rows)
    show ?thesis
    proof (cases "rows_have_exposure rows")
      case (Inl e)
      then show ?thesis using c Inr by (cases e) (auto simp: confirm_settled_position_def)
    next
      case g: (Inr b)
      then show ?thesis
        using c Inr no_exposure by (cases b) (auto simp: confirm_settled_position_def)
    qed
  qed
qed

definition example_missing_row :: order_row where
  "example_missing_row = (example_entry_row ''w'' 5 2 10)\<lparr>or_extras := Some [(''kind'', PStr ''working'')], or_order_id := Some ''v-1''\<rparr>"

definition example_dead_order :: "string \<Rightarrow> jdict" where
  "example_dead_order cum =
     [(''orderId'', PStr ''v-1''), (''orderStatus'', PStr ''PartiallyFilledCanceled''), (''cumExecQty'', PStr cum),
      (''cancelType'', PStr ''CancelByReduceOnly'')]"

definition example_lookup :: "(raised + jdict) list" where
  "example_lookup = [Inr [(''list'', PList [])], Inr [(''list'', PList [PDict (example_dead_order ''2'')])]]"

definition empty_desk :: desk where
  "empty_desk = \<lparr>dk_rows = [], dk_closed = [], dk_envelopes = [], dk_levels = [], dk_resolutions = []\<rparr>"

theorem verdict_needs_proof_witness:
  "proven_by (desk_ops []) (\<lambda>c. example_lookup) (Inr []) example_missing_row (new_runtime True empty_desk)
     (Was_Cancelled (Some Venue_Reduce_Only))"
proof -
  have "snd (confirm_missing (desk_ops []) example_keys example_perpetual (\<lambda>c. example_lookup) (Inr [])
      example_missing_row (new_runtime True empty_desk)) = Inr (Was_Cancelled (Some Venue_Reduce_Only))"
    by code_simp
  then show ?thesis by (metis verdict_needs_proof prod.collapse)
qed

section \<open>Parked dispatches\<close>

text \<open>What one lookup of a client id showed\<close>

datatype sighting = Missed | Sighted | Unread

definition sighting_of :: "raised + (jdict option \<times> bool) \<Rightarrow> sighting" where
  "sighting_of found =
     (case found of Inr (None, True) \<Rightarrow> Missed | Inr (Some existing, True) \<Rightarrow> Sighted | _ \<Rightarrow> Unread)"

text \<open>The conclusive misses of a client id since it was last found, newest lookup first\<close>

fun misses_in_row :: "string \<Rightarrow> (string \<times> sighting) list \<Rightarrow> nat" where
  "misses_in_row coid [] = 0"
| "misses_in_row coid ((c, s) # h) =
     (if c \<noteq> coid \<or> s = Unread then misses_in_row coid h else if s = Sighted then 0 else Suc (misses_in_row coid h))"

text \<open>
  A run as the parked dispatches see it: rows looked up one by one, the counts pruned at the end of a
  pass, and any other change of the instance that leaves the counts alone.
\<close>

inductive parked_run :: "'s framework_ops \<Rightarrow> 's runtime \<Rightarrow> (string \<times> sighting) list \<Rightarrow> bool"
  for W :: "'s framework_ops" where
  begun: "rt_misses R = [] \<Longrightarrow> parked_run W R []"
| looked_up: "parked_run W R h \<Longrightarrow>
    parked_run W (fst (judge_parked_row W lookups row R))
      ((or_coid row, sighting_of (lookup_order W lookups (or_coid row) R)) # h)"
| pruned: "parked_run W R h \<Longrightarrow> parked_run W (R\<lparr>rt_misses := filter P (rt_misses R)\<rparr>) h"
| elsewhere: "parked_run W R h \<Longrightarrow> rt_misses R' = rt_misses R \<Longrightarrow> parked_run W R' h"

definition counts_ok :: "'s runtime \<Rightarrow> (string \<times> sighting) list \<Rightarrow> bool" where
  "counts_ok R h \<longleftrightarrow> distinct (map fst (rt_misses R)) \<and> (\<forall>c. miss_count c R \<le> misses_in_row c h)"

lemma miss_count_misses: "rt_misses R' = rt_misses R \<Longrightarrow> miss_count c R' = miss_count c R"
  by (simp add: miss_count_def)

lemma reject_misses [simp]:
  "rt_misses (reject_parked_dispatch W row existing R) =
     (if rt_has_store R then AList.delete (or_coid row) (rt_misses R) else rt_misses R)"
  by (simp add: reject_parked_dispatch_def Let_def audit_event_def on_store_def)

lemma judge_unread:
  "sighting_of (lookup_order W lookups (or_coid row) R) = Unread \<Longrightarrow> fst (judge_parked_row W lookups row R) = R"
  by (simp add: judge_parked_row_def sighting_of_def split: sum.splits prod.splits option.splits bool.splits)

lemma judge_missed:
  assumes "lookup_order W lookups (or_coid row) R = Inr (None, True)"
  defines "R1 \<equiv> R\<lparr>rt_misses := AList.update (or_coid row) (Suc (miss_count (or_coid row) R)) (rt_misses R)\<rparr>"
  shows "judge_parked_row W lookups row R =
    (if Suc (miss_count (or_coid row) R) < PARKED_DISPATCH_MISSES_TO_REJECT then R1
     else reject_parked_dispatch W row None R1, None)"
  using assms(1) by (simp add: judge_parked_row_def Let_def R1_def)

lemma judge_sighted:
  assumes "lookup_order W lookups (or_coid row) R = Inr (Some existing, True)"
  defines "R1 \<equiv> R\<lparr>rt_misses := AList.delete (or_coid row) (rt_misses R)\<rparr>"
  shows "fst (judge_parked_row W lookups row R) =
    (if dead_unfilled existing = Inr True then reject_parked_dispatch W row (Some existing) R1 else R1)"
  using assms(1) by (simp add: judge_parked_row_def Let_def R1_def split: sum.splits)

lemma sighting_cases:
  obtains (unread) "sighting_of l = Unread" | (missed) "l = Inr (None, True)" | (sighted) existing where "l = Inr (Some existing, True)"
proof (cases "sighting_of l = Unread")
  case True
  then show ?thesis by (rule unread)
next
  case False
  then have "l = Inr (None, True) \<or> (\<exists>existing. l = Inr (Some existing, True))"
    by (auto simp: sighting_of_def split: sum.splits prod.splits option.splits bool.splits)
  then show ?thesis using missed sighted by blast
qed

lemma judge_counts:
  fixes W :: "'s framework_ops" and lookups :: order_lookups and row :: order_row and R :: "'s runtime"
  assumes d: "distinct (map fst (rt_misses R))"
  defines "R' \<equiv> fst (judge_parked_row W lookups row R)" and "s \<equiv> sighting_of (lookup_order W lookups (or_coid row) R)"
  shows "distinct (map fst (rt_misses R')) \<and> (c \<noteq> or_coid row \<longrightarrow> miss_count c R' = miss_count c R) \<and>
    miss_count (or_coid row) R' \<le> (if s = Unread then miss_count (or_coid row) R
      else if s = Sighted then 0 else Suc (miss_count (or_coid row) R))"
proof (cases "lookup_order W lookups (or_coid row) R" rule: sighting_cases)
  case unread
  then show ?thesis using d by (simp add: R'_def s_def judge_unread)
next
  case missed
  have "s = Missed" by (simp add: s_def missed sighting_of_def)
  moreover have "rt_misses R' = AList.update (or_coid row) (Suc (miss_count (or_coid row) R)) (rt_misses R) \<or>
      rt_misses R' = AList.delete (or_coid row) (AList.update (or_coid row) (Suc (miss_count (or_coid row) R)) (rt_misses R))"
    by (auto simp: R'_def judge_missed [OF missed])
  ultimately show ?thesis
    using d by (elim disjE) (simp_all add: miss_count_def distinct_update distinct_delete update_conv' delete_conv')
next
  case (sighted existing)
  have "s = Sighted" by (simp add: s_def sighted sighting_of_def)
  moreover have "rt_misses R' = AList.delete (or_coid row) (rt_misses R)"
    by (simp add: R'_def judge_sighted [OF sighted] delete_idem)
  ultimately show ?thesis
    using d by (simp add: miss_count_def distinct_delete delete_conv')
qed

lemma filter_count:
  assumes "distinct (map fst xs)"
  shows "map_of (filter P xs) c = None \<or> map_of (filter P xs) c = map_of xs c"
  using assms by (induction xs) (auto simp: map_of_eq_None_iff)

lemma parked_counts: "parked_run W R h \<Longrightarrow> counts_ok R h"
proof (induction rule: parked_run.induct)
  case (begun R)
  then show ?case by (simp add: counts_ok_def miss_count_def)
next
  case (looked_up R h lookups row)
  have d: "distinct (map fst (rt_misses R))" and le: "\<And>c. miss_count c R \<le> misses_in_row c h"
    using looked_up.IH by (simp_all add: counts_ok_def)
  show ?case
    unfolding counts_ok_def
  proof (intro conjI allI)
    show "distinct (map fst (rt_misses (fst (judge_parked_row W lookups row R))))"
      using judge_counts [OF d] by blast
    fix c
    show "miss_count c (fst (judge_parked_row W lookups row R)) \<le>
      misses_in_row c ((or_coid row, sighting_of (lookup_order W lookups (or_coid row) R)) # h)"
      using judge_counts [OF d, where c = c and W = W and lookups = lookups and row = row] le [of c]
      by (cases "sighting_of (lookup_order W lookups (or_coid row) R)") auto
  qed
next
  case (pruned R h P)
  have d: "distinct (map fst (rt_misses R))" and le: "\<And>c. miss_count c R \<le> misses_in_row c h"
    using pruned.IH by (simp_all add: counts_ok_def)
  have "miss_count c (R\<lparr>rt_misses := filter P (rt_misses R)\<rparr>) \<le> misses_in_row c h" for c
    using filter_count [OF d, of P c] le [of c] by (auto simp: miss_count_def)
  then show ?case using d by (simp add: counts_ok_def distinct_map_filter)
next
  case (elsewhere R h R')
  then show ?case by (simp add: counts_ok_def miss_count_def)
qed

text \<open>The passes of the code are such runs.\<close>

lemma pass_is_run:
  "parked_run W R h \<Longrightarrow> \<exists>h'. parked_run W (fst (parked_rows_pass W K lookups now_ms rows seen R)) (h' @ h)"
proof (induction W K lookups now_ms rows seen R arbitrary: h rule: parked_rows_pass.induct)
  case (1 W K lookups now_ms seen R)
  then show ?case by (auto intro: exI [of _ "[]"])
next
  case (2 W K lookups now_ms row rows seen R)
  obtain R1 e where j: "judge_parked_row W lookups row R = (R1, e)" by (metis surj_pair)
  have run: "parked_run W R1 ([(or_coid row, sighting_of (lookup_order W lookups (or_coid row) R))] @ h)"
    using looked_up [OF 2(4), of lookups row] j by simp
  show ?case
  proof (cases "parked K row \<and> \<not> now_ms - or_created_ms row < PARKED_DISPATCH_GRACE_S * 1000")
    case False
    then show ?thesis using 2(1,2,4) by (cases "parked K row") auto
  next
    case True
    show ?thesis
    proof (cases e)
      case (Some x)
      then have "fst (parked_rows_pass W K lookups now_ms (row # rows) seen R) = R1" using True j by simp
      then show ?thesis using run by metis
    next
      case None
      then obtain h' where "parked_run W (fst (parked_rows_pass W K lookups now_ms rows (or_coid row # seen) R1))
          (h' @ [(or_coid row, sighting_of (lookup_order W lookups (or_coid row) R))] @ h)"
        using 2(3) [OF _ _ j [symmetric] None run] True by auto
      moreover have "parked_rows_pass W K lookups now_ms (row # rows) seen R =
          parked_rows_pass W K lookups now_ms rows (or_coid row # seen) R1"
        using True j None by simp
      ultimately show ?thesis by (metis append_assoc)
    qed
  qed
qed

lemma resolve_is_run:
  assumes "parked_run W R h"
  shows "\<exists>h'. parked_run W (resolve_parked_dispatches W K lookups now_ms R) (h' @ h)"
proof (cases "rt_has_store R")
  case True
  let ?p = "parked_rows_pass W K lookups now_ms (ds_pending (fo_dispatch W) (rt_store R)) [] R"
  obtain h' where "parked_run W (fst ?p) (h' @ h)" using pass_is_run [OF assms] by blast
  from pruned [OF this, of "\<lambda>m. fst m \<in> set (snd ?p)"] show ?thesis
    using True by (auto simp: resolve_parked_dispatches_def case_prod_unfold)
next
  case False
  then show ?thesis using assms by (auto simp: resolve_parked_dispatches_def intro: exI [of _ "[]"])
qed

text \<open>
  C39. A parked dispatch is given up on evidence. Whatever passes ran before and whatever else changed in between
  without touching the counts, a lookup that rejects the row either found the order dead on the venue without a fill, or was
  the third conclusive read since the order was last found, each of which asked both endpoints and found
  nothing; reads that failed neither count nor reset.
\<close>

theorem parked_rejection_justified:
  assumes "parked_run W R h" and "judge_parked_row W lookups row R = (R', e)" and "rt_log R' \<noteq> rt_log R"
  shows "(\<exists>existing. lookup_order W lookups (or_coid row) R = Inr (Some existing, True) \<and> dead_unfilled existing = Inr True) \<or>
    misses_in_row (or_coid row) ((or_coid row, sighting_of (lookup_order W lookups (or_coid row) R)) # h) \<ge> 3"
proof (cases "lookup_order W lookups (or_coid row) R" rule: sighting_cases)
  case unread
  then show ?thesis using assms(2,3) judge_unread [of W lookups row R] by simp
next
  case missed
  have "\<not> Suc (miss_count (or_coid row) R) < PARKED_DISPATCH_MISSES_TO_REJECT"
    using assms(2,3) judge_missed [OF missed] by (auto split: if_splits)
  moreover have "miss_count (or_coid row) R \<le> misses_in_row (or_coid row) h"
    using parked_counts [OF assms(1)] by (simp add: counts_ok_def)
  ultimately show ?thesis by (simp add: missed sighting_of_def PARKED_DISPATCH_MISSES_TO_REJECT_def)
next
  case (sighted existing)
  have "dead_unfilled existing = Inr True"
    using assms(2,3) judge_sighted [OF sighted] by (auto split: if_splits)
  then show ?thesis using sighted by blast
qed

definition example_parked_row :: order_row where
  "example_parked_row = (example_entry_row ''p'' 5 0 10)\<lparr>or_state := ''disposition_unknown''\<rparr>"

definition example_parked :: "nat \<Rightarrow> desk runtime" where
  "example_parked n = ((\<lambda>R. fst (judge_parked_row (desk_ops [''disposition_unknown'']) (\<lambda>c. [Inr [], Inr []]) example_parked_row R)) ^^ n)
     (new_runtime True (empty_desk\<lparr>dk_rows := [example_parked_row]\<rparr>))"

theorem parked_rejection_justified_witness:
  "misses_in_row ''p'' [(''p'', Missed), (''p'', Missed), (''p'', Missed)] \<ge> 3 \<and>
     map or_coid (dk_rows (rt_store (example_parked 3))) = []"
proof -
  let ?W = "desk_ops [''disposition_unknown'']" and ?l = "\<lambda>c. [Inr [], Inr []] :: (raised + jdict) list"
  have c: "or_coid example_parked_row = ''p''" by code_simp
  have s: "lookup_order ?W ?l ''p'' (example_parked n) = Inr (None, True)" for n
    by (simp add: lookup_order_def jget_def py_or_def)
  have step: "example_parked (Suc n) = fst (judge_parked_row ?W ?l example_parked_row (example_parked n))" for n
    by (simp add: example_parked_def)
  have run: "parked_run ?W (example_parked n) (replicate n (''p'', Missed))" for n
  proof (induction n)
    case 0
    show ?case by (simp add: example_parked_def new_runtime_def begun)
  next
    case (Suc n)
    show ?case using looked_up [OF Suc, of ?l example_parked_row] by (simp add: step c s sighting_of_def)
  qed
  have log: "rt_log (example_parked 2) = []" "rt_log (example_parked 3) = [Audit ''parked_dispatch_rejected'' ''p'' 0]"
    "map or_coid (dk_rows (rt_store (example_parked 3))) = []"
    by code_simp+
  obtain e where "judge_parked_row ?W ?l example_parked_row (example_parked 2) = (example_parked 3, e)"
    using step [of 2] by (metis prod.collapse numeral_3_eq_3 numeral_2_eq_2)
  from parked_rejection_justified [OF run this] show ?thesis
    using log by (auto simp: c s sighting_of_def)
qed

section \<open>Ownership\<close>

text \<open>What the run owns on each side by its rows, and that no row has filled more than it asked for\<close>

definition owned_on :: "'s framework_ops \<Rightarrow> keys \<Rightarrow> string \<Rightarrow> 's runtime \<Rightarrow> rat" where
  "owned_on W K side R = exposure (owning (fk_base K) side) (live_rows W R)"

definition same_owned :: "'s framework_ops \<Rightarrow> keys \<Rightarrow> 's runtime \<Rightarrow> 's runtime \<Rightarrow> bool" where
  "same_owned W K R R' \<longleftrightarrow>
     (\<forall>side. owned_on W K side R' = owned_on W K side R) \<and>
     (well_filled (live_rows W R) \<longrightarrow> well_filled (live_rows W R'))"

lemma same_owned_refl [simp]: "same_owned W K R R"
  by (simp add: same_owned_def)

lemma same_owned_trans: "same_owned W K R R1 \<Longrightarrow> same_owned W K R1 R2 \<Longrightarrow> same_owned W K R R2"
  by (simp add: same_owned_def)

lemma same_store_owned: "rt_store R' = rt_store R \<Longrightarrow> same_owned W K R R'"
  by (simp add: same_owned_def owned_on_def live_rows_def)

lemma exposure_map:
  assumes "\<And>r. r \<in> set rows \<Longrightarrow> or_coid r = c \<Longrightarrow> Q (f r) = Q r \<and> or_filled (f r) = or_filled r"
  shows "exposure Q (map (\<lambda>r. if or_coid r = c then f r else r) rows) = exposure Q rows"
  using assms
proof (induction rows)
  case (Cons a rows)
  then show ?case using Cons.prems [of a] by (cases "or_coid a = c") auto
qed simp

lemma exposure_filter:
  assumes "\<And>r. r \<in> set rows \<Longrightarrow> or_coid r = c \<Longrightarrow> \<not> (Q r \<and> or_filled r > FILL_EPS)"
  shows "exposure Q (filter (\<lambda>r. or_coid r \<noteq> c) rows) = exposure Q rows"
  using assms by (induction rows) auto

lemma alike_member:
  assumes "rows_alike key A B" and "r \<in> set B"
  shows "\<exists>a \<in> set A. row_alike key a r"
  using assms by (metis (no_types, lifting) in_set_conv_nth list_all2_conv_all_nth rows_alike_def)

lemma kind_of_update:
  "k \<noteq> ''kind'' \<Longrightarrow> is_entry_row F (r\<lparr>or_extras := Some (AList.update k v d)\<rparr>) = is_entry_row F (r\<lparr>or_extras := Some d\<rparr>)"
  by (simp add: is_entry_row_def kind_in_def extras_of_def jget_def update_conv')

lemma kind_of_extras: "is_entry_row F (r\<lparr>or_extras := Some (extras_of r0)\<rparr>) = is_entry_row F r0"
  by (simp add: is_entry_row_def kind_in_def extras_of_def)

lemma extra_names:
  "ENTRY_REMAINDER_CANCELLED_EXTRA \<noteq> ''kind''" "ENTRY_CANCEL_CUM_EXEC_EXTRA \<noteq> ''kind''"
  by (simp_all add: ENTRY_REMAINDER_CANCELLED_EXTRA_def ENTRY_CANCEL_CUM_EXEC_EXTRA_def)

lemma executed_ge: "or_filled row \<le> executed_of row cum"
  by (simp add: executed_of_def Let_def)

context runtime_store
begin

lemma live_set_row:
  assumes "\<And>r. or_coid (f r) = or_coid r"
  shows "live_rows W (set_row W c f R) = map (\<lambda>r. if or_coid r = c then f r else r) (live_rows W R)"
  by (simp add: live_rows_def set_row_def live_update [OF assms])

lemma live_close_row: "live_rows W (close_row W c R) = filter (\<lambda>r. or_coid r \<noteq> c) (live_rows W R)"
  by (simp add: live_rows_def close_row_def live_close)

lemma close_same_owned:
  assumes "\<And>r. r \<in> set (live_rows W R) \<Longrightarrow> or_coid r = c \<Longrightarrow> \<not> is_entry_row (fk_base K) r \<or> or_filled r \<le> FILL_EPS"
  shows "same_owned W K R (close_row W c R)"
proof -
  have "owned_on W K side (close_row W c R) = owned_on W K side R" for side
    unfolding owned_on_def live_close_row
    by (rule exposure_filter) (use assms in \<open>force simp: owning_def\<close>)
  then show ?thesis by (simp add: same_owned_def live_close_row well_filled_def)
qed

lemma set_same_owned:
  assumes "\<And>r. or_coid (f r) = or_coid r"
    and "\<And>r. r \<in> set (live_rows W R) \<Longrightarrow> or_coid r = c \<Longrightarrow>
      is_entry_row (fk_base K) (f r) = is_entry_row (fk_base K) r \<and> or_side (f r) = or_side r \<and>
      or_filled (f r) = or_filled r \<and> (or_filled r \<le> or_qty r \<longrightarrow> or_filled r \<le> or_qty (f r))"
  shows "same_owned W K R (set_row W c f R)"
  using assms(2)
  by (auto simp: same_owned_def owned_on_def live_set_row [OF assms(1)] owning_def well_filled_def intro!: exposure_map)

lemma alike_owning:
  assumes "row_alike (fk_levels_key K) r r'"
  shows "owning (fk_base K) side r' = owning (fk_base K) side r" and "or_filled r' = or_filled r"
  using adopted_alike [OF assms] by (simp_all add: owning_def)

lemma forget_same_owned: "same_owned W K R (forget_protection W c R)"
proof -
  have al: "rows_alike (fk_levels_key K) (live_rows W R) (live_rows W (forget_protection W c R))"
    by (simp add: live_rows_def forget_protection_def forget_alike)
  have "owned_on W K side (forget_protection W c R) = owned_on W K side R" for side
    unfolding owned_on_def exposure_def exposed_def
    by (intro arg_cong [where f = sum_list] rows_alike_total [OF al]) (simp_all add: alike_owning)
  then show ?thesis using alike_well_filled [OF al] by (simp add: same_owned_def)
qed

text \<open>The rows with the id of a live row, after its levels were forgotten\<close>

lemma forgotten_row:
  assumes "fo_get W c (rt_store R) = Some (row, False)" and "r \<in> set (live_rows W (forget_protection W c R))" and "or_coid r = c"
  shows "row_alike (fk_levels_key K) row r"
proof -
  have al: "rows_alike (fk_levels_key K) (live_rows W R) (live_rows W (forget_protection W c R))"
    by (simp add: live_rows_def forget_protection_def forget_alike)
  obtain a where a: "a \<in> set (live_rows W R)" "row_alike (fk_levels_key K) a r" using alike_member [OF al assms(2)] by blast
  have row: "row \<in> set (live_rows W R)" "or_coid row = c"
    using assms(1) by (simp_all add: get_live live_rows_def)
  have "or_coid a = c" using a(2) assms(3) by (simp add: row_alike_def)
  then have "a = row"
    using live_distinct [of "rt_store R"] a(1) row by (auto simp: live_rows_def distinct_map dest: inj_onD)
  then show ?thesis using a(2) by simp
qed

lemma settle_same_owned:
  assumes "fo_get W c (rt_store R) = Some (row, False)" and "is_entry_row (fk_base K) row"
  shows "same_owned W K R (settle_entry_row W market row cum oid (forget_protection W c R))"
proof -
  let ?R1 = "forget_protection W c R"
  have c: "or_coid row = c" using assms(1) by (simp add: get_live)
  note alike = forgotten_row [OF assms(1)]
  show ?thesis
  proof (cases "executed_of row cum \<le> FILL_EPS")
    case True
    have "same_owned W K ?R1 (close_row W c ?R1)"
      by (rule close_same_owned) (use alike executed_ge [of row cum] True in \<open>fastforce simp: row_alike_def\<close>)
    then show ?thesis using same_owned_trans [OF forget_same_owned] True c by (simp add: settle_entry_row_def)
  next
    case False
    define extras where "extras = AList.update ENTRY_CANCEL_CUM_EXEC_EXTRA (PFloat cum)
        (AList.update ENTRY_REMAINDER_CANCELLED_EXTRA (PBool True) (extras_of row))"
    have kind: "is_entry_row (fk_base K) (r\<lparr>or_qty := q, or_extras := Some extras\<rparr>)" for r q
      using assms(2) by (simp add: extras_def kind_of_update extra_names kind_of_extras)
    let ?R2 = "set_row W c (\<lambda>r. r\<lparr>or_qty := executed_of row cum, or_extras := Some extras\<rparr>) ?R1"
    have "same_owned W K ?R1 ?R2"
    proof (rule set_same_owned)
      fix r assume r: "r \<in> set (live_rows W ?R1)" "or_coid r = c"
      have al: "row_alike (fk_levels_key K) row r" using alike [OF r] .
      have "is_entry_row (fk_base K) r" using adopted_alike [OF al] assms(2) by simp
      then show "is_entry_row (fk_base K) (r\<lparr>or_qty := executed_of row cum, or_extras := Some extras\<rparr>) = is_entry_row (fk_base K) r \<and>
          or_side (r\<lparr>or_qty := executed_of row cum, or_extras := Some extras\<rparr>) = or_side r \<and>
          or_filled (r\<lparr>or_qty := executed_of row cum, or_extras := Some extras\<rparr>) = or_filled r \<and>
          (or_filled r \<le> or_qty r \<longrightarrow> or_filled r \<le> or_qty (r\<lparr>or_qty := executed_of row cum, or_extras := Some extras\<rparr>))"
        using kind al executed_ge [of row cum] by (simp add: row_alike_def)
    qed simp
    then have step: "same_owned W K R ?R2" by (rule same_owned_trans [OF forget_same_owned])
    have "same_owned W K R (note_unbooked_fills row ref (Fin cum) ?R2)" for ref
      by (rule same_owned_trans [OF step same_store_owned]) simp
    then show ?thesis using step False c by (simp add: settle_entry_row_def Let_def extras_def)
  qed
qed

lemma retire_same_owned: "same_owned W K R (retire_cancelled_row W K market c cum oid R)"
proof (cases "rt_has_store R \<and> (\<exists>row. fo_get W c (rt_store R) = Some (row, False))")
  case False
  then show ?thesis by (auto simp: retire_cancelled_row_def split: option.split prod.split bool.split)
next
  case True
  then obtain row where row: "fo_get W c (rt_store R) = Some (row, False)" and st: "rt_has_store R" by auto
  let ?R1 = "forget_protection W c R"
  note alike = forgotten_row [OF row]
  show ?thesis
  proof (cases "is_entry_row (fk_base K) row")
    case False
    have "same_owned W K ?R1 (close_row W c ?R1)"
      by (rule close_same_owned) (use alike False adopted_alike in blast)
    then show ?thesis using same_owned_trans [OF forget_same_owned] False st row by (simp add: retire_cancelled_row_def)
  next
    case entry: True
    define f where "f = (\<lambda>r::order_row. r\<lparr>or_extras :=
        Some (AList.update ENTRY_REMAINDER_CANCELLED_EXTRA (PBool True) (extras_of row))\<rparr>)"
    have "same_owned W K ?R1 (set_row W c f ?R1)"
    proof (rule set_same_owned)
      fix r assume "r \<in> set (live_rows W ?R1)" "or_coid r = c"
      then have al: "row_alike (fk_levels_key K) row r" by (rule alike)
      then show "is_entry_row (fk_base K) (f r) = is_entry_row (fk_base K) r \<and> or_side (f r) = or_side r \<and>
          or_filled (f r) = or_filled r \<and> (or_filled r \<le> or_qty r \<longrightarrow> or_filled r \<le> or_qty (f r))"
        using adopted_alike [OF al] entry by (simp add: f_def kind_of_update extra_names kind_of_extras)
    qed (simp add: f_def)
    then have "same_owned W K R (set_row W c f ?R1)" by (rule same_owned_trans [OF forget_same_owned])
    then show ?thesis
      using st row entry
      by (simp add: retire_cancelled_row_def Let_def f_def forget_same_owned settle_same_owned [OF row entry] split: option.split)
  qed
qed

lemma settle_one_owned: "same_owned W K R (fst (settle_cancelled_entry W K market lookups row R))"
  by (auto simp: settle_cancelled_entry_def Let_def retire_same_owned
      split: sum.split prod.split option.split bool.split)

lemma settle_rows_owned: "same_owned W K R (fst (settle_cancelled_rows W K market lookups rows R))"
proof (induction rows arbitrary: R)
  case (Cons row rows)
  obtain R1 e where j: "settle_cancelled_entry W K market lookups row R = (R1, e)" by (metis surj_pair)
  have "same_owned W K R R1" using settle_one_owned [of R market lookups row] by (simp add: j)
  then have "same_owned W K R (fst (settle_cancelled_rows W K market lookups rows R1))"
    by (rule same_owned_trans [OF _ Cons.IH])
  then show ?case using \<open>same_owned W K R R1\<close> Cons.IH by (simp add: j split: option.split)
qed simp

lemma only_live:
  assumes "fo_get W c (rt_store R) = Some (row, False)" and "r \<in> set (live_rows W R)" and "or_coid r = c"
  shows "r = row"
proof -
  have "row \<in> set (live_rows W R)" "or_coid row = c" using assms(1) by (simp_all add: get_live live_rows_def)
  then show ?thesis
    using assms(2,3) live_distinct [of "rt_store R"] by (auto simp: live_rows_def distinct_map dest: inj_onD)
qed

lemma settle_filled_owned:
  assumes "fo_get W c (rt_store R) = Some (row, False)"
    and "''exit_leg'' \<notin> set (fc_entry_kinds (fk_base K))" "''close'' \<notin> set (fc_entry_kinds (fk_base K))"
  shows "same_owned W K R (settle_filled_row W row cum R)"
proof -
  have c: "or_coid row = c" using assms(1) by (simp add: get_live)
  have not_entry: "\<not> is_entry_row (fk_base K) row" if "jget (extras_of row) ''kind'' \<in> {PStr ''exit_leg'', PStr ''close''}"
    using that assms(2,3) by (auto simp: is_entry_row_def kind_in_def list_ex_iff)
  have 1: "same_owned W K R (close_row W c R)" if "jget (extras_of row) ''kind'' \<in> {PStr ''exit_leg'', PStr ''close''}"
    by (rule close_same_owned) (use not_entry [OF that] only_live [OF assms(1)] in blast)
  have 2: "same_owned W K R (set_row W c (\<lambda>r. r\<lparr>or_qty := or_filled row\<rparr>) R)"
    by (rule set_same_owned) (use only_live [OF assms(1)] in \<open>auto simp: is_entry_row_def kind_in_def extras_of_def\<close>)
  show ?thesis using 1 2 c by (simp add: settle_filled_row_def)
qed

lemma confirm_owned:
  assumes "fo_get W c (rt_store R) = Some (row, False)"
    and "''exit_leg'' \<notin> set (fc_entry_kinds (fk_base K))" "''close'' \<notin> set (fc_entry_kinds (fk_base K))"
  shows "same_owned W K R (fst (confirm_missing W K market lookups position_rows row R))"
proof -
  have unb: "same_owned W K R X" if "rt_store X = rt_store R" for X using same_store_owned that .
  have found: "same_owned W K R (fst (judge_found_order W row existing X))" if x: "rt_store X = rt_store R" for X existing
  proof -
    have g: "fo_get W c (rt_store X) = Some (row, False)" using assms(1) x by simp
    have "same_owned W K R (settle_filled_row W row cum X)" for cum
      by (rule same_owned_trans [OF unb [OF x] settle_filled_owned [OF g assms(2,3)]])
    then show ?thesis using unb [OF x] by (simp add: judge_found_order_def Let_def split: sum.split)
  qed
  have "same_owned W K R (fst (confirm_vanished_order W market lookups row R))"
    by (auto simp: confirm_vanished_order_def intro!: found split: sum.split prod.split option.split bool.split)
  then show ?thesis by (simp add: confirm_missing_def)
qed

end

lemma check_market_store: "rt_store (fst (check_market_entries W K lookups now_ms rows cs R)) = rt_store R"
proof (induction rows arbitrary: cs R)
  case (Cons row rows)
  obtain R1 e where j: "check_market_entry W lookups row R = (R1, e)" by (metis surj_pair)
  have "rt_store (fst (check_market_entry W lookups row R)) = rt_store R"
    by (simp add: check_market_entry_def Let_def split: sum.split prod.split option.split bool.split)
  then show ?case using Cons.IH by (simp add: j Let_def split: option.split)
qed simp

lemma progress_store: "rt_store (note_progress_of_rows os rows R) = rt_store R"
  by (induction rows arbitrary: R) (simp_all add: Let_def split: option.split)

text \<open>The operations of the cadence that write rows of orders, as data; a row is the live one of its id.\<close>

datatype reconcile_op =
    Cancelled string "rat option" "string option"
  | Vanished_Cancelled string
  | Settle_Cancelled order_lookups
  | Confirm string order_lookups "raised + jdict list"
  | Market_Entries order_lookups int
  | Progress "(string \<times> num) list"

definition with_live ::
    "'s framework_ops \<Rightarrow> string \<Rightarrow> (order_row \<Rightarrow> 's runtime \<Rightarrow> 's runtime) \<Rightarrow> 's runtime \<Rightarrow> 's runtime" where
  "with_live W c f R = (case fo_get W c (rt_store R) of Some (row, False) \<Rightarrow> f row R | _ \<Rightarrow> R)"

fun reconcile_step :: "'s framework_ops \<Rightarrow> keys \<Rightarrow> instrument_info \<Rightarrow> reconcile_op \<Rightarrow> 's runtime \<Rightarrow> 's runtime" where
  "reconcile_step W K m (Cancelled c cum oid) R = retire_cancelled_row W K (Some m) c cum oid R"
| "reconcile_step W K m (Vanished_Cancelled c) R =
     with_live W c (retire_vanished_cancelled_row W K (Some m)) R"
| "reconcile_step W K m (Settle_Cancelled lookups) R = fst (settle_cancelled_entries W K m lookups R)"
| "reconcile_step W K m (Confirm c lookups rows) R =
     with_live W c (\<lambda>row R. fst (confirm_missing W K m lookups rows row R)) R"
| "reconcile_step W K m (Market_Entries lookups now_ms) R = fst (note_unbooked_market_entries W K m lookups now_ms R)"
| "reconcile_step W K m (Progress open_orders) R = note_open_order_fill_progress W open_orders R"

context runtime_store
begin

lemma with_live_owned:
  assumes "\<And>row. fo_get W c (rt_store R) = Some (row, False) \<Longrightarrow> same_owned W K R (f row R)"
  shows "same_owned W K R (with_live W c f R)"
  using assms by (auto simp: with_live_def split: option.split prod.split bool.split)

lemma reconcile_machine:
  assumes "''exit_leg'' \<notin> set (fc_entry_kinds (fk_base K))" and "''close'' \<notin> set (fc_entry_kinds (fk_base K))"
  shows "op_machine (reconcile_step W K m) R0 (same_owned W K R0)"
proof
  fix op1 and R assume inv: "same_owned W K R0 R"
  have "same_owned W K R (reconcile_step W K m op1 R)"
  proof (cases op1)
    case (Cancelled c cum oid)
    then show ?thesis by (simp add: retire_same_owned)
  next
    case (Vanished_Cancelled c)
    then show ?thesis by (auto intro!: with_live_owned simp: retire_vanished_cancelled_row_def retire_same_owned)
  next
    case (Settle_Cancelled lookups)
    then show ?thesis by (simp add: settle_cancelled_entries_def settle_rows_owned)
  next
    case (Confirm c lookups rows)
    then show ?thesis by (auto intro!: with_live_owned confirm_owned assms)
  next
    case (Market_Entries lookups now_ms)
    have "rt_store (fst (note_unbooked_market_entries W K m lookups now_ms R)) = rt_store R"
      using check_market_store [of W K lookups now_ms "live_rows W R" "[]" R]
      by (auto simp: note_unbooked_market_entries_def split: prod.split sum.split)
    then show ?thesis using Market_Entries by (simp add: same_store_owned)
  next
    case (Progress os)
    then show ?thesis by (simp add: note_open_order_fill_progress_def same_store_owned progress_store)
  qed
  then show "same_owned W K R0 (reconcile_step W K m op1 R)" by (rule same_owned_trans [OF inv])
qed simp

end

interpretation desk_reconcile: op_machine "reconcile_step (desk_ops pending) example_keys market" R0
    "same_owned (desk_ops pending) example_keys R0"
  by (rule desk.reconcile_machine) (simp_all add: example_keys_def example_framework_def)

text \<open>
  C37. A cancel ends the unfilled remainder of an order and nothing else. Over any run of cancels, verdicts on
  missing rows, settlements and fill notes of the reconcile cadence, with any answers of the venue, what the
  run owns on a side by its entry rows stays what it was, and no row comes to have filled more than its
  quantity.
\<close>

theorem reconcile_keeps_ownership:
  assumes "runtime_store W K" and "''exit_leg'' \<notin> set (fc_entry_kinds (fk_base K))"
    and "''close'' \<notin> set (fc_entry_kinds (fk_base K))" and "well_filled (live_rows W R)"
  shows "owned_on W K side (run_ops (reconcile_step W K market) ops R) = owned_on W K side R \<and>
    well_filled (live_rows W (run_ops (reconcile_step W K market) ops R))"
proof -
  have m: "op_machine (reconcile_step W K market) R (same_owned W K R)"
    by (rule runtime_store.reconcile_machine [OF assms(1-3)])
  show ?thesis using op_machine.run_inv [OF m op_machine.init_inv [OF m], of ops] assms(4) by (simp add: same_owned_def)
qed

definition example_working :: "desk runtime" where
  "example_working = new_runtime True (empty_desk\<lparr>dk_rows := [example_missing_row]\<rparr>)"

definition example_reconcile_ops :: "reconcile_op list" where
  "example_reconcile_ops =
     [Cancelled ''w'' None None, Settle_Cancelled (\<lambda>c. example_lookup), Confirm ''w'' (\<lambda>c. example_lookup) (Inr [])]"

theorem reconcile_keeps_ownership_witness:
  "owned_on (desk_ops []) example_keys ''buy''
     (run_ops (reconcile_step (desk_ops []) example_keys example_perpetual) example_reconcile_ops example_working) = 2"
proof -
  have rows: "live_rows (desk_ops []) example_working = [example_missing_row]" by code_simp
  have fields: "or_filled example_missing_row = 2" "or_qty example_missing_row = 5" by code_simp+
  have w: "well_filled (live_rows (desk_ops []) example_working)" by (simp add: rows well_filled_def fields)
  have "owned_on (desk_ops []) example_keys ''buy'' example_working = 2" by code_simp
  then show ?thesis
    using reconcile_keeps_ownership [OF desk.runtime_store_axioms _ _ w, where ops = example_reconcile_ops and side = "''buy''"]
    by (simp add: example_keys_def example_framework_def)
qed

section \<open>The flat sweep\<close>

context runtime_store
begin

lemma complete_store:
  "so_live (rows_of W) (complete_intent (fo_dispatch W) row s) = so_live (rows_of W) s"
  "set (ds_envelopes (fo_dispatch W) (complete_intent (fo_dispatch W) row s)) \<subseteq> set (ds_envelopes (fo_dispatch W) s)"
  "or_intent_key row = Some (c # cs) \<Longrightarrow> c # cs \<notin> set (ds_envelopes (fo_dispatch W) (complete_intent (fo_dispatch W) row s))"
  by (auto simp: complete_intent_def live_complete envelopes_complete split: option.split list.split)

lemma close_swept_rows:
  "set (live_rows W (close_swept W K rows R)) =
     {r \<in> set (live_rows W R). \<not> (\<exists>x \<in> set rows. swept K x \<and> or_coid x = or_coid r)} \<and>
   set (ds_envelopes (fo_dispatch W) (rt_store (close_swept W K rows R))) \<subseteq> set (ds_envelopes (fo_dispatch W) (rt_store R)) \<and>
   (\<forall>x \<in> set rows. \<forall>c cs. swept K x \<and> or_intent_key x = Some (c # cs) \<longrightarrow>
      c # cs \<notin> set (ds_envelopes (fo_dispatch W) (rt_store (close_swept W K rows R))))"
proof (induction rows arbitrary: R)
  case (Cons row rows)
  show ?case
  proof (cases "swept K row")
    case False
    then show ?thesis using Cons.IH [of R] by auto
  next
    case True
    let ?R1 = "on_store (complete_intent (fo_dispatch W) row) (close_row W (or_coid row) R)"
    have live: "live_rows W ?R1 = filter (\<lambda>r. or_coid r \<noteq> or_coid row) (live_rows W R)"
      using live_close_row [of "or_coid row" R] by (simp add: live_rows_def complete_store)
    have env: "set (ds_envelopes (fo_dispatch W) (rt_store ?R1)) \<subseteq> set (ds_envelopes (fo_dispatch W) (rt_store R))"
      using complete_store(2) [of row "so_close (rows_of W) (or_coid row) (rt_store R)"]
      by (simp add: close_row_def envelopes_close)
    have gone: "c # cs \<notin> set (ds_envelopes (fo_dispatch W) (rt_store ?R1))" if "or_intent_key row = Some (c # cs)" for c cs
      using complete_store(3) [OF that] by simp
    show ?thesis using Cons.IH [of ?R1] True live env gone by (auto simp: live)
  qed
qed (simp add: live_rows_def)

end

text \<open>
  When the position is gone, by category: on spot the inventory ledger's net is known and below one
  quantity step (the dust a fee leaves; without a step, no net at all), on a derivative a view of the
  venue as fresh as the last own fill shows it, a one-way leg with no size and no interval of its
  ledger open, a hedge account with nothing owned by the run's rows.
\<close>

definition position_gone :: "'s framework_ops \<Rightarrow> keys \<Rightarrow> instrument_info \<Rightarrow> rat option \<Rightarrow> 's runtime \<Rightarrow> bool" where
  "position_gone W K market spot_net R \<longleftrightarrow>
     (if in_category market = CATEGORY_SPOT
      then \<exists>net. spot_net = Some net \<and>
        (net \<le> 0 \<or> \<not> float_le (in_qty_step market) (Fin 0) \<and> \<not> float_le (in_qty_step market) (Fin net))
      else \<exists>sizes. ps_sizes (rt_positions R) = Some sizes \<and>
        ps_own_fill_ms (rt_positions R) \<le> ps_snapshot_ms (rt_positions R) \<and>
        (if hedge (rt_positions R)
         then \<bar>run_owned_signed_size (fk_base K) (live_rows W R)\<bar> \<le> FILL_EPS
         else (\<forall>(idx, sz) \<in> set sizes. sz \<le> 0) \<and>
           (\<forall>L. ps_ledgers (rt_positions R) ONE_WAY_IDX = Some L \<longrightarrow> \<not> is_open L)))"

lemma sweep_gate:
  "close_entry_rows_when_flat W K market spot_net R =
     (if rt_has_store R \<and> position_gone W K market spot_net R then close_swept W K (live_rows W R) R else R)"
proof -
  have "deriv_is_flat (Some own) (rt_positions R) \<and> \<not> sweep_waits_for_ledger R \<longleftrightarrow>
      (\<exists>sizes. ps_sizes (rt_positions R) = Some sizes \<and>
        ps_own_fill_ms (rt_positions R) \<le> ps_snapshot_ms (rt_positions R) \<and>
        (if hedge (rt_positions R) then \<bar>own\<bar> \<le> FILL_EPS
         else (\<forall>(idx, sz) \<in> set sizes. sz \<le> 0) \<and>
           (\<forall>L. ps_ledgers (rt_positions R) ONE_WAY_IDX = Some L \<longrightarrow> \<not> is_open L)))" for own
    by (cases "hedge (rt_positions R)")
      (auto simp: deriv_is_flat_def sweep_waits_for_ledger_def list_all_iff split: option.splits)
  moreover have "spot_is_flat market spot_net \<longleftrightarrow> (\<exists>net. spot_net = Some net \<and>
      (net \<le> 0 \<or> \<not> float_le (in_qty_step market) (Fin 0) \<and> \<not> float_le (in_qty_step market) (Fin net)))"
    by (auto simp: spot_is_flat_def not_less split: option.split)
  ultimately show ?thesis by (simp add: close_entry_rows_when_flat_def position_gone_def)
qed

text \<open>
  C40. The flat sweep retires what is finished and nothing else. A live row leaves the journal exactly when the
  position is gone, on spot by the inventory ledger's net against the quantity step, on a derivative by a
  fresh flat view the position ledger explains, and the row is that of a settled entry with no defensive
  close pending; the intent of every row closed has no envelope left, so a later entry of the same id
  cannot be sent under the spent client id.
\<close>

theorem flat_sweep_retires_intents:
  assumes "runtime_store W K" and "R' = close_entry_rows_when_flat W K market spot_net R" and "r \<in> set (live_rows W R)"
  shows "(r \<notin> set (live_rows W R') \<longleftrightarrow>
      rt_has_store R \<and> position_gone W K market spot_net R \<and>
      (\<exists>x \<in> set (live_rows W R). or_coid x = or_coid r \<and> swept K x)) \<and>
    (r \<notin> set (live_rows W R') \<and> swept K r \<and> or_intent_key r = Some (c # cs) \<longrightarrow>
      c # cs \<notin> set (ds_envelopes (fo_dispatch W) (rt_store R')))"
proof (cases "rt_has_store R \<and> position_gone W K market spot_net R")
  case True
  then have r': "R' = close_swept W K (live_rows W R) R" using assms(2) by (simp add: sweep_gate)
  show ?thesis
    using runtime_store.close_swept_rows [OF assms(1), of "live_rows W R" R] assms(3) True unfolding r' by blast
next
  case False
  then have "R' = R" using assms(2) by (auto simp: sweep_gate)
  then show ?thesis using False assms(3) by blast
qed

definition example_flat :: "desk runtime" where
  "example_flat = (new_runtime True (empty_desk\<lparr>dk_rows := [(example_entry_row ''a'' 5 5 10)\<lparr>or_intent_key := Some ''key-a''\<rparr>],
      dk_envelopes := [''key-a'', ''key-b'']\<rparr>))
     \<lparr>rt_positions := new_positions\<lparr>ps_sizes := Some [(0, 0)], ps_snapshot_ms := 20, ps_own_fill_ms := 10\<rparr>\<rparr>"

theorem flat_sweep_retires_intents_witness:
  "position_gone (desk_ops []) example_keys example_perpetual None example_flat \<and>
   ''key-a'' \<notin> set (ds_envelopes (fo_dispatch (desk_ops []))
     (rt_store (close_entry_rows_when_flat (desk_ops []) example_keys example_perpetual None example_flat)))"
proof -
  let ?r = "(example_entry_row ''a'' 5 5 10)\<lparr>or_intent_key := Some ''key-a''\<rparr>"
  let ?R = "close_entry_rows_when_flat (desk_ops []) example_keys example_perpetual None example_flat"
  have rows: "live_rows (desk_ops []) example_flat = [?r]" "live_rows (desk_ops []) ?R = []" by code_simp+
  have sw: "swept example_keys ?r" by code_simp
  show ?thesis
    using flat_sweep_retires_intents [OF desk.runtime_store_axioms [of "[]"] refl, where r = ?r and R = example_flat
        and c = "CHR ''k''" and cs = "''ey-a''" and market = example_perpetual and spot_net = None]
      sw by (simp add: rows)
qed

end
