(* ===== verification/Fills.thy ===== *)
theory Fills
  imports Reconcile
begin

text \<open>
  The private stream's translation and its backfill (\<^verbatim>\<open>src/src/pynecore_bybit/events.py\<close>): one
  execution to the fill events of the run, the attribution of a fired trading stop, the lifecycle rows of
  an order push, the windowed re-read of the execution history, the per-order recovery, the reconcile
  passes and the loop of \<open>watch_orders\<close>. An execution whose quantity, price, fee or closed size is not
  finite counts as unreadable; a slice carries its quantity and fee as a number where the code writes
  their \<open>repr\<close>; a finite anchor is taken for granted.
\<close>

section \<open>State and events\<close>

text \<open>
  Beside the shared instance: the framework's spot inventory manager, the credit one booking took, the watermark of the execution history with what
  was last persisted of it and the adoption floor, the frames parked before the adoption baseline, and two
  audit trails the plugin reads back, the claims on fired stops (order, execution, quantity) and the
  persisted watermarks.
\<close>

record ('s, 'm) fills =
  fl_rt :: "'s runtime"
  fl_spot :: "'m option"
  fl_taken :: rat
  fl_watermark :: "int option"
  fl_persisted :: int
  fl_floor :: int
  fl_frames :: "jdict list"
  fl_claims :: "(string \<times> string \<times> rat) list"
  fl_cursors :: "(string \<times> string \<times> int) list"

record order_event =
  oe_order :: exchange_order
  oe_kind :: string
  oe_timestamp :: num
  oe_fill_price :: "rat option"
  oe_fill_qty :: "rat option"
  oe_pine_id :: "string option"
  oe_from_entry :: "string option"
  oe_leg :: leg_type
  oe_fee :: rat
  oe_fee_currency :: string
  oe_fill_id :: "string option"
  oe_reason :: "cancel_reason option"

definition on_rt :: "('s runtime \<Rightarrow> 's runtime) \<Rightarrow> ('s, 'm) fills \<Rightarrow> ('s, 'm) fills" where
  "on_rt f S = S\<lparr>fl_rt := f (fl_rt S)\<rparr>"

definition note_seen :: "string \<Rightarrow> 's runtime \<Rightarrow> 's runtime" where
  "note_seen exec_id R = R\<lparr>rt_seen := List.insert exec_id (rt_seen R)\<rparr>"

section \<open>The parts of a fill\<close>

text \<open>Quantity, price, fee and time of an execution row\<close>

definition fill_fields :: "jdict \<Rightarrow> (rat \<times> rat \<times> rat \<times> int) option" where
  "fill_fields entry =
     (case (row_float entry ''execQty'', row_float entry ''execPrice'', row_float entry ''execFee'', row_int entry ''execTime'') of
        (Inr (Fin q), Inr (Fin p), Inr (Fin f), Inr ts) \<Rightarrow> Some (q, p, f, ts)
      | _ \<Rightarrow> None)"

definition note_own_fill_time :: "instrument_info \<Rightarrow> int \<Rightarrow> 's runtime \<Rightarrow> 's runtime" where
  "note_own_fill_time market ts R =
     (if in_category market \<noteq> CATEGORY_SPOT \<and> ts \<noteq> 0
      then R\<lparr>rt_positions := (rt_positions R)\<lparr>ps_own_fill_ms := max (ps_own_fill_ms (rt_positions R)) ts\<rparr>\<rparr>
      else R)"

definition get_row :: "'s framework_ops \<Rightarrow> string \<Rightarrow> 's runtime \<Rightarrow> order_row option" where
  "get_row W coid R = (if rt_has_store R \<and> coid \<noteq> [] then map_option fst (fo_get W coid (rt_store R)) else None)"

text \<open>The running sums after the execution: in memory venue-domain, by the row net of what was consumed.\<close>

definition advance_cursor :: "'s framework_ops \<Rightarrow> string \<Rightarrow> rat \<Rightarrow> 's runtime \<Rightarrow> 's runtime \<times> rat \<times> rat" where
  "advance_cursor W coid q R =
     (let sz = (case map_of (rt_dispatch_qty R) coid of None \<Rightarrow> q | Some t \<Rightarrow> t);
          cum = (case map_of (rt_filled_cum R) coid of None \<Rightarrow> 0 | Some c \<Rightarrow> c) + q;
          R1 = R\<lparr>rt_filled_cum := AList.update coid cum (rt_filled_cum R)\<rparr>;
          R2 = (if rt_has_store R \<and> coid \<noteq> [] then on_store (so_unpark (rows_of W) coid) R1 else R1)
      in case get_row W coid R2 of
           None \<Rightarrow> (R2, sz, cum)
         | Some row \<Rightarrow>
             (let netted = (case cursor_of row of Fin v \<Rightarrow> v - or_filled row | _ \<Rightarrow> 0);
                  filled = max (cum - netted) (or_filled row + q)
              in (set_row W coid (\<lambda>r. r\<lparr>or_filled := min (or_qty row) filled\<rparr>) R2, or_qty row, filled)))"

definition venue_trimmed_qty :: "jdict \<Rightarrow> rat \<Rightarrow> rat option" where
  "venue_trimmed_qty entry dispatched =
     (case py_float (jget entry ''orderQty'') of
        Inr (Fin q) \<Rightarrow> if 0 < q \<and> q < dispatched - FILL_EPS then Some q else None
      | _ \<Rightarrow> None)"

definition trim_order :: "'s framework_ops \<Rightarrow> jdict \<Rightarrow> string \<Rightarrow> leg_type \<Rightarrow> rat \<Rightarrow> 's runtime \<Rightarrow> 's runtime \<times> rat" where
  "trim_order W entry coid leg sz R =
     (case if leg \<noteq> ENTRY then venue_trimmed_qty entry sz else None of
        None \<Rightarrow> (R, sz)
      | Some q \<Rightarrow> (if get_row W coid R \<noteq> None then set_row W coid (\<lambda>r. r\<lparr>or_qty := q\<rparr>) R else R, q))"

text \<open>What a spot fill moves: the buy-side fee is taken from the base received.\<close>

definition spot_fill_qty :: "jdict \<Rightarrow> instrument_info \<Rightarrow> string \<Rightarrow> rat \<Rightarrow> rat \<Rightarrow> rat" where
  "spot_fill_qty entry market side q fee =
     (let ccy = jstr_or entry ''feeCurrency'' (if side = ''buy'' then in_base_coin market else in_quote_coin market) in
      if ccy = in_base_coin market then (if side = ''buy'' then q - fee else q + fee) else q)"

definition row_extras_of :: "'s framework_ops \<Rightarrow> 's runtime \<Rightarrow> extras_lookup" where
  "row_extras_of W R coid = map_option extras_of (get_row W coid R)"

definition parent_coid :: "'s framework_ops \<Rightarrow> keys \<Rightarrow> string option \<Rightarrow> 's runtime \<Rightarrow> string option" where
  "parent_coid W K from_entry R =
     (case from_entry of
        None \<Rightarrow> None
      | Some e \<Rightarrow> entry_coid_for (fk_base K) (if rt_has_store R then Some (live_rows W R) else None)
                   (map (\<lambda>(c, p, f, l). (c, p, l = ENTRY)) (rt_identity R)) e)"

text \<open>Quantity, size, cumulative, fee and its currency in the core's domain; the mirror follows on inverse.\<close>

definition core_fill ::
    "'s framework_ops \<Rightarrow> keys \<Rightarrow> instrument_info \<Rightarrow> jdict \<Rightarrow> string \<Rightarrow> string option \<Rightarrow> leg_type \<Rightarrow> string \<Rightarrow>
     rat \<Rightarrow> rat \<Rightarrow> rat \<Rightarrow> rat \<Rightarrow> rat \<Rightarrow> rat \<Rightarrow> 's runtime \<Rightarrow>
     py_error + ('s runtime \<times> rat \<times> rat \<times> rat \<times> rat \<times> string)" where
  "core_fill W K market entry coid from_entry leg side q price fee sz cum credit R =
     (let fee_ccy = jstr_or entry ''feeCurrency'' (in_settle_coin market) in
      if is_inverse market
      then res_bind (inverse_fill (row_extras_of W R) (parent_coid W K from_entry R) coid side q price (leg \<noteq> ENTRY)
                       credit (rt_inverse R)) (\<lambda>(I, fill_qty).
             let factor = q / fill_qty
             in Inr (R\<lparr>rt_inverse := I\<rparr>, fill_qty, sz / factor, cum / factor, fee * price, in_quote_coin market))
      else Inr (R, if in_category market = CATEGORY_SPOT then spot_fill_qty entry market side q fee else q,
                sz, cum, fee, fee_ccy))"

text \<open>What a fill does to the rows: the order done, the entry rows it consumed, the credit it took.\<close>

definition settle_fill ::
    "'s framework_ops \<Rightarrow> keys \<Rightarrow> instrument_info \<Rightarrow> jdict \<Rightarrow> string \<Rightarrow> leg_type \<Rightarrow> string \<Rightarrow> rat \<Rightarrow> bool \<Rightarrow> rat \<Rightarrow>
     rat option \<Rightarrow> ('s, 'm) fills \<Rightarrow> ('s, 'm) fills" where
  "settle_fill W K market entry coid leg side q is_full credit journal_before S =
     (let S1 = (if coid \<noteq> [] \<and> is_full then on_rt (forget_protection W coid) S else S);
          S2 = (if rt_has_store (fl_rt S1) \<and> coid \<noteq> [] \<and> is_full \<and> leg \<noteq> ENTRY then on_rt (close_row W coid) S1 else S1)
      in if leg \<noteq> ENTRY \<and> in_category market \<noteq> CATEGORY_SPOT
         then on_rt (\<lambda>R. forget_trading_stop_if_flat W K (Some market) side
                 (if rt_has_store R
                  then on_store (reduce_entry_ownership (fk_base K) (rows_of W) side (q - credit)) R else R))
                (S2\<lparr>fl_taken := fl_taken S2 + credit\<rparr>)
         else
           (case journal_before of
              None \<Rightarrow> S2
            | Some before1 \<Rightarrow>
                (case ledger_entry_credit W K market entry side q before1 (fl_rt S2) of
                   (R, taken) \<Rightarrow> S2\<lparr>fl_rt := R, fl_taken := fl_taken S2 + taken\<rparr>)))"

definition fill_order ::
    "jdict \<Rightarrow> string \<Rightarrow> string \<Rightarrow> leg_type \<Rightarrow> string \<Rightarrow> rat \<Rightarrow> rat \<Rightarrow> rat \<Rightarrow> bool \<Rightarrow> num \<Rightarrow> rat \<Rightarrow> exchange_order" where
  "fill_order entry symbol coid leg side sz cum price is_full ts fee =
     \<lparr>eo_id = jstr entry ''orderId'', eo_symbol = symbol, eo_side = side,
      eo_type = (if leg = TAKE_PROFIT then LIMIT else if leg = STOP_LOSS then STOP else MARKET),
      eo_qty = Fin sz, eo_filled_qty = Fin (min sz cum), eo_remaining_qty = Fin (max 0 (sz - cum)),
      eo_price = None, eo_stop_price = None, eo_average_fill_price = Some (Fin price),
      eo_status = (if is_full then FILLED else PARTIALLY_FILLED), eo_timestamp = ts, eo_fee = Fin fee,
      eo_reduce_only = (leg \<noteq> ENTRY), eo_client_order_id = (if coid = [] then None else Some coid)\<rparr>"

section \<open>One slice\<close>

text \<open>
  The event of one execution slice. \<open>symbol\<close> is the chart's, \<open>now\<close> the clock. An inverse conversion
  that raises leaves the cursor advanced, as the code does.
\<close>

definition fill_event ::
    "'s framework_ops \<Rightarrow> keys \<Rightarrow> instrument_info \<Rightarrow> string \<Rightarrow> rat \<Rightarrow> jdict \<Rightarrow> string \<Rightarrow> identity \<Rightarrow> ('s, 'm) fills \<Rightarrow>
     ('s, 'm) fills \<times> (py_error + order_event option)" where
  "fill_event W K market symbol now entry coid identity S =
     (case fill_fields entry of
        None \<Rightarrow> (S, Inr None)
      | Some (q, price, fee, ts) \<Rightarrow>
          if q \<le> 0 \<or> price \<le> 0 then (S, Inr None)
          else
            let (pine_id, from_entry, leg) = identity;
                side = lower (jstr entry ''side'');
                R0 = note_own_fill_time market ts (fl_rt S);
                journal_before = (if leg = ENTRY \<and> in_category market \<noteq> CATEGORY_SPOT \<and> ledger_entry_credit_due market entry R0
                                  then Some (run_owned_signed_size (fk_base K) (if rt_has_store R0 then live_rows W R0 else []))
                                  else None);
                (R1, sz0, cum) = advance_cursor W coid q R0;
                (R2, sz) = trim_order W entry coid leg sz0 R1;
                is_full = (cum \<ge> sz - FILL_EPS);
                (R3, credit) = (if leg \<noteq> ENTRY \<and> in_category market \<noteq> CATEGORY_SPOT
                                then ledger_reduce_credit market entry side q R2 else (R2, 0))
            in case core_fill W K market entry coid from_entry leg side q price fee sz cum credit R3 of
                 Inl e \<Rightarrow> (S\<lparr>fl_rt := R3\<rparr>, Inl e)
               | Inr (R4, fill_qty, sz1, cum1, fee1, fee_ccy) \<Rightarrow>
                   (let S5 = settle_fill W K market entry coid leg side q is_full credit journal_before (S\<lparr>fl_rt := R4\<rparr>);
                        stamp = Fin (if ts \<noteq> 0 then of_int ts / 1000 else now);
                        exec_id = jstr entry ''execId''
                    in (S5, Inr (Some
                         \<lparr>oe_order = fill_order entry symbol coid leg side sz1 cum1 price is_full stamp fee1,
                          oe_kind = (if is_full then ''filled'' else ''partial''), oe_timestamp = stamp, oe_fill_price = Some price,
                          oe_fill_qty = Some fill_qty, oe_pine_id = pine_id, oe_from_entry = from_entry, oe_leg = leg,
                          oe_fee = fee1, oe_fee_currency = fee_ccy,
                          oe_fill_id = (if exec_id = [] then None else Some exec_id), oe_reason = None\<rparr>))))"

section \<open>The owners of a fired trading stop\<close>

text \<open>
  What the stream uses beside the store's operations: the ownership rows of every instance of the run
  with their closing time, the two constants of a released one, the chart's symbol and last price, the
  validation and bookkeeping view of a spot execution, and the manager's booking of a live fill and its
  net position.
\<close>

record ('s, 'm) stream_ops =
  sr_ownerships :: "'s \<Rightarrow> (order_row \<times> int option) list"
  sr_state_key :: string
  sr_released :: string
  sr_symbol :: string
  sr_last_price :: "num option"
  sr_validate :: "spot_execution \<Rightarrow> bool"
  sr_host :: "'s runtime \<Rightarrow> spot_host"
  sr_live_fill :: "'m \<Rightarrow> spot_execution \<Rightarrow> 'm \<times> bool"
  sr_spot_net :: "'m \<Rightarrow> rat"

definition VENUE_STOP_ORDER_LEG :: "(string \<times> leg_type) list" where
  "VENUE_STOP_ORDER_LEG =
     [(''TakeProfit'', TAKE_PROFIT), (''StopLoss'', STOP_LOSS), (''TrailingStop'', TRAILING_STOP)]"

definition BRACKET_OWN_WIRE_QTY_EXTRA :: string where "BRACKET_OWN_WIRE_QTY_EXTRA = ''wire_qty''"

definition released_at :: "('s, 'm) stream_ops \<Rightarrow> int \<Rightarrow> order_row \<times> int option \<Rightarrow> bool" where
  "released_at Z exec_ms r \<longleftrightarrow>
     (case snd r of
        None \<Rightarrow> False
      | Some closed_ms \<Rightarrow> or_created_ms (fst r) \<le> exec_ms \<and> exec_ms \<le> closed_ms) \<and>
     jget (extras_of (fst r)) (sr_state_key Z) = PStr (sr_released Z)"

definition bracket_ownerships_live_at ::
    "'s framework_ops \<Rightarrow> ('s, 'm) stream_ops \<Rightarrow> jdict \<Rightarrow> 's runtime \<Rightarrow> order_row list" where
  "bracket_ownerships_live_at W Z entry R =
     (let exec_ms = (case row_int entry ''execTime'' of Inr t \<Rightarrow> t | Inl e \<Rightarrow> 0);
          released = (if exec_ms > 0 then map fst (filter (released_at Z exec_ms) (sr_ownerships Z (rt_store R))) else [])
      in sort_key or_created_ms (fo_owned_stops W (rt_store R) @ released))"

definition stop_candidates ::
    "'s framework_ops \<Rightarrow> ('s, 'm) stream_ops \<Rightarrow> jdict \<Rightarrow> 's runtime \<Rightarrow> order_row list" where
  "stop_candidates W Z entry R =
     filter (\<lambda>row. lower (or_side row) = lower (jstr entry ''side'') \<and> or_pine_id row \<noteq> None)
       (bracket_ownerships_live_at W Z entry R)"

definition leg_share_proven :: "instrument_info \<Rightarrow> string \<Rightarrow> 's runtime \<Rightarrow> bool" where
  "leg_share_proven market side R \<longleftrightarrow>
     rt_has_store R \<and> in_category market \<noteq> CATEGORY_SPOT \<and> rt_baselined R \<and>
     (case ps_ledgers (rt_positions R) (closed_leg side (rt_positions R)) of None \<Rightarrow> False | Some L \<Rightarrow> started L)"

definition venue_stop_claimed :: "jdict \<Rightarrow> ('s, 'm) fills \<Rightarrow> rat" where
  "venue_stop_claimed entry S =
     (let order_id = jstr entry ''orderId''; exec_id = jstr entry ''execId'' in
      if order_id = [] \<or> \<not> rt_has_store (fl_rt S) then 0
      else sum_list (map (\<lambda>(o1, e, q). q) (filter (\<lambda>(o1, e, q). o1 = order_id \<and> e \<noteq> exec_id) (fl_claims S))))"

text \<open>The wire quantity of an ownership row; reading an anchor caches it.\<close>

definition ownership_wire_qty ::
    "'s framework_ops \<Rightarrow> keys \<Rightarrow> instrument_info \<Rightarrow> rat \<Rightarrow> order_row \<Rightarrow> 's runtime \<Rightarrow> 's runtime \<times> (py_error + rat)" where
  "ownership_wire_qty W K market exec_price row R =
     (case py_number (jget (extras_of row) BRACKET_OWN_WIRE_QTY_EXTRA) of
        Some q \<Rightarrow> (R, Inr q)
      | None \<Rightarrow>
          if \<not> is_inverse market then (R, Inr (or_qty row))
          else
            (case parent_anchor (row_extras_of W R) (parent_coid W K (or_from_entry row) R) (rt_inverse R) of
               Inl e \<Rightarrow> (R, Inl e)
             | Inr (I, anchor) \<Rightarrow>
                 (R\<lparr>rt_inverse := I\<rparr>,
                  Inr (or_qty row * (case anchor of Some (Fin a) \<Rightarrow> a | _ \<Rightarrow> exec_price)))))"

fun ownership_wire_qtys ::
    "'s framework_ops \<Rightarrow> keys \<Rightarrow> instrument_info \<Rightarrow> rat \<Rightarrow> order_row list \<Rightarrow> 's runtime \<Rightarrow>
     's runtime \<times> (py_error + rat list)" where
  "ownership_wire_qtys W K market exec_price [] R = (R, Inr [])"
| "ownership_wire_qtys W K market exec_price (row # rows) R =
     (case ownership_wire_qty W K market exec_price row R of
        (R1, Inl e) \<Rightarrow> (R1, Inl e)
      | (R1, Inr q) \<Rightarrow>
          (case ownership_wire_qtys W K market exec_price rows R1 of
             (R2, Inl e) \<Rightarrow> (R2, Inl e)
           | (R2, Inr qs) \<Rightarrow> (R2, Inr (q # qs))))"

section \<open>Claims on a fired stop\<close>

text \<open>Exit id, entry, leg, quantity\<close>

type_synonym stop_claim = "string \<times> string option \<times> leg_type \<times> rat"

definition claim_of :: "order_row \<Rightarrow> leg_type \<Rightarrow> rat \<Rightarrow> stop_claim" where
  "claim_of row leg q = (case or_pine_id row of Some p \<Rightarrow> p | None \<Rightarrow> [], or_from_entry row, leg, q)"

definition claim_qty :: "stop_claim \<Rightarrow> rat" where "claim_qty c = snd (snd (snd c))"

definition whole_claim :: "rat \<Rightarrow> rat \<Rightarrow> rat \<Rightarrow> rat \<Rightarrow> rat" where
  "whole_claim tolerance share claimed exec_qty =
     (if share > tolerance then min exec_qty share else if claimed > tolerance then 0 else exec_qty)"

text \<open>The run's own part of a stop several rows share, split over them oldest first.\<close>

definition stop_share :: "rat \<Rightarrow> bool \<Rightarrow> rat \<Rightarrow> rat \<Rightarrow> rat \<Rightarrow> rat \<Rightarrow> rat" where
  "stop_share tolerance proven share claimed sz exec_qty =
     (if share > tolerance then min exec_qty share
      else if proven then 0 else min exec_qty (max 0 (sz - claimed)))"

fun split_claims :: "leg_type \<Rightarrow> (order_row \<times> rat) list \<Rightarrow> rat \<Rightarrow> rat \<Rightarrow> stop_claim list \<times> rat" where
  "split_claims leg [] used left = ([], left)"
| "split_claims leg ((row, q) # rows) used left =
     (let part = min (max 0 (q - used)) left in
      case split_claims leg rows (max 0 (used - q)) (left - part) of
        (claims, rest) \<Rightarrow> (claim_of row leg part # claims, rest))"

text \<open>The part no row covers rides on the newest exit.\<close>

definition ride_newest :: "stop_claim list \<times> rat \<Rightarrow> stop_claim list" where
  "ride_newest cl =
     (case cl of
        (claims, left) \<Rightarrow>
          if left > 0 \<and> claims \<noteq> []
          then butlast claims @ [case last claims of (p, f, l, q) \<Rightarrow> (p, f, l, q + left)] else claims)"

definition one_leg :: "keys \<Rightarrow> order_row list \<Rightarrow> bool" where
  "one_leg K rows \<longleftrightarrow> length (remdups (map (\<lambda>r. jget (extras_of r) (fk_leg_key K)) rows)) = 1"

text \<open>Closed size, quantity and price of a reducing execution\<close>

definition closing_fields :: "jdict \<Rightarrow> (rat \<times> rat) option" where
  "closing_fields entry =
     (case (row_float entry ''closedSize'', row_float entry ''execQty'', row_float entry ''execPrice'') of
        (Inr (Fin c), Inr (Fin q), Inr (Fin p)) \<Rightarrow> if c \<le> 0 \<or> q \<le> 0 then None else Some (q, p)
      | _ \<Rightarrow> None)"

text \<open>The claims of the candidates, and whether the stop may be the bot's own without any.\<close>

definition claims_of_candidates ::
    "'s framework_ops \<Rightarrow> keys \<Rightarrow> instrument_info \<Rightarrow> leg_type \<Rightarrow> rat \<Rightarrow> rat \<Rightarrow> bool \<Rightarrow> rat \<Rightarrow> rat \<Rightarrow>
     order_row list \<Rightarrow> 's runtime \<Rightarrow> 's runtime \<times> (py_error + (stop_claim list \<times> bool))" where
  "claims_of_candidates W K market leg share claimed proven exec_qty exec_price rows R =
     (let t = qty_tolerance market in
      case rows of
        [row] \<Rightarrow> (R, Inr ([claim_of row leg (whole_claim t share claimed exec_qty)], False))
      | _ \<Rightarrow>
          (case ownership_wire_qtys W K market exec_price rows R of
             (R1, Inl e) \<Rightarrow> (R1, Inl e)
           | (R1, Inr qs) \<Rightarrow>
               (let sz = sum_list qs in
                if \<not> one_leg K rows \<or> (exec_qty < sz - t \<and> \<not> claimed \<ge> sz - t) then (R1, Inr ([], True))
                else (R1, Inr (ride_newest (split_claims leg (zip rows qs) claimed
                                              (stop_share t proven share claimed sz exec_qty)), False)))))"

definition note_claims :: "jdict \<Rightarrow> stop_claim list \<Rightarrow> ('s, 'm) fills \<Rightarrow> ('s, 'm) fills" where
  "note_claims entry claims S =
     S\<lparr>fl_claims := fl_claims S @ map (\<lambda>c. (jstr entry ''orderId'', jstr entry ''execId'', claim_qty c)) claims\<rparr>"

definition log_excess :: "instrument_info \<Rightarrow> jdict \<Rightarrow> rat \<Rightarrow> stop_claim list \<Rightarrow> 's runtime \<Rightarrow> 's runtime" where
  "log_excess market entry exec_qty claims R =
     (let excess = exec_qty - sum_list (map claim_qty claims) in
      if excess > qty_tolerance market
      then audit_event ''venue_bracket_fill_foreign_excess'' (jstr entry ''execId'') excess R else R)"

definition attribute_venue_bracket_execution ::
    "'s framework_ops \<Rightarrow> keys \<Rightarrow> ('s, 'm) stream_ops \<Rightarrow> instrument_info \<Rightarrow> jdict \<Rightarrow> ('s, 'm) fills \<Rightarrow>
     ('s, 'm) fills \<times> (py_error + (stop_claim list \<times> bool))" where
  "attribute_venue_bracket_execution W K Z market entry S =
     (let R = fl_rt S; none = (S, Inr ([], False)) in
      if \<not> rt_has_store R \<or> jstr entry ''orderLinkId'' \<noteq> [] then none
      else
        (case (map_of VENUE_STOP_ORDER_LEG (jstr entry ''stopOrderType''), closing_fields entry) of
           (Some leg, Some (exec_qty, exec_price)) \<Rightarrow>
             (let side = lower (jstr entry ''side'');
                  rows = stop_candidates W Z entry R;
                  t = qty_tolerance market;
                  claimed = venue_stop_claimed entry S;
                  share = \<bar>journal_leg_share W (fk_base K) R (closed_leg side (rt_positions R))\<bar> +
                          ledger_reduce_credit_open market entry side R;
                  proven = leg_share_proven market side R
              in if rows = [] \<or> (share \<le> t \<and> claimed \<le> t \<and> proven) then none
                 else
                   (case claims_of_candidates W K market leg share claimed proven exec_qty exec_price rows R of
                      (R1, Inl e) \<Rightarrow> (S\<lparr>fl_rt := R1\<rparr>, Inl e)
                    | (R1, Inr ([], ambiguous)) \<Rightarrow> (S\<lparr>fl_rt := R1\<rparr>, Inr ([], ambiguous))
                    | (R1, Inr (claims, ambiguous)) \<Rightarrow>
                        (note_claims entry claims (S\<lparr>fl_rt := log_excess market entry exec_qty claims R1\<rparr>),
                         Inr (claims, ambiguous))))
         | _ \<Rightarrow> none))"

text \<open>One slice per claim, each with an id of its own; the last takes the rest of the fee.\<close>

type_synonym fill_slice = "jdict \<times> identity"

definition slice_entry :: "jdict \<Rightarrow> rat \<Rightarrow> rat \<Rightarrow> string \<Rightarrow> jdict" where
  "slice_entry entry q fee slice_id =
     AList.update ''execId'' (PStr slice_id) (AList.update ''execFee'' (PFloat fee)
       (AList.update ''execQty'' (PFloat q) entry))"

definition slice_id :: "string \<Rightarrow> bool \<Rightarrow> stop_claim \<Rightarrow> string" where
  "slice_id exec_id single c =
     (if single then exec_id
      else exec_id @ ''#'' @ fst c @ ''#'' @ (case fst (snd c) of None \<Rightarrow> [] | Some f \<Rightarrow> f))"

fun cut_slices :: "jdict \<Rightarrow> bool \<Rightarrow> rat \<Rightarrow> rat \<Rightarrow> rat \<Rightarrow> stop_claim list \<Rightarrow> fill_slice list" where
  "cut_slices entry single sz fee left [] = []"
| "cut_slices entry single sz fee left (c # claims) =
     (let part = (if claims = [] then left else fee * (claim_qty c / sz));
          sid = slice_id (jstr entry ''execId'') single c
      in (slice_entry entry (claim_qty c) part sid, (Some (fst c), fst (snd c), fst (snd (snd c)))) #
           cut_slices entry single sz fee (left - part) claims)"

definition finite_or_zero :: "py_error + num \<Rightarrow> rat" where
  "finite_or_zero r = (case r of Inr (Fin v) \<Rightarrow> v | _ \<Rightarrow> 0)"

definition venue_bracket_claim_slices :: "jdict \<Rightarrow> stop_claim list \<Rightarrow> fill_slice list" where
  "venue_bracket_claim_slices entry claims =
     (let exec_qty = finite_or_zero (row_float entry ''execQty'');
          sz = sum_list (map claim_qty claims)
      in if sz \<le> FILL_EPS then []
         else if length claims = 1 \<and> \<bar>sz - exec_qty\<bar> \<le> FILL_EPS
         then [(entry, (Some (fst (hd claims)), fst (snd (hd claims)), fst (snd (snd (hd claims)))))]
         else
           let fee = finite_or_zero (row_float entry ''execFee'');
               own = (if exec_qty > 0 \<and> sz < exec_qty then fee * (sz / exec_qty) else fee)
           in cut_slices entry (length claims = 1) sz own own claims)"

section \<open>Booking one execution\<close>

fun fill_slices ::
    "'s framework_ops \<Rightarrow> keys \<Rightarrow> instrument_info \<Rightarrow> string \<Rightarrow> rat \<Rightarrow> string \<Rightarrow> fill_slice list \<Rightarrow> ('s, 'm) fills \<Rightarrow>
     ('s, 'm) fills \<times> (py_error + order_event list)" where
  "fill_slices W K market symbol now coid [] S = (S, Inr [])"
| "fill_slices W K market symbol now coid ((entry, idn) # slices) S =
     (case fill_event W K market symbol now entry coid idn S of
        (S1, Inl e) \<Rightarrow> (S1, Inl e)
      | (S1, Inr ev) \<Rightarrow>
          (case fill_slices W K market symbol now coid slices S1 of
             (S2, Inl e) \<Rightarrow> (S2, Inl e)
           | (S2, Inr evs) \<Rightarrow> (S2, Inr ((case ev of None \<Rightarrow> [] | Some x \<Rightarrow> [x]) @ evs))))"

text \<open>The owner: the order's identity, or the claims of a fired stop.\<close>

definition book_own_execution ::
    "'s framework_ops \<Rightarrow> keys \<Rightarrow> instrument_info \<Rightarrow> string \<Rightarrow> rat \<Rightarrow> jdict \<Rightarrow> string \<Rightarrow> identity + stop_claim list \<Rightarrow>
     ('s, 'm) fills \<Rightarrow> ('s, 'm) fills \<times> (py_error + order_event list)" where
  "book_own_execution W K market symbol now entry coid owner S =
     (let share_before = journal_leg_share W (fk_base K) (fl_rt S);
          slices = (case owner of Inl idn \<Rightarrow> [(entry, idn)] | Inr claims \<Rightarrow> venue_bracket_claim_slices entry claims);
          reducing = (case owner of Inl idn \<Rightarrow> snd (snd idn) \<noteq> ENTRY | Inr claims \<Rightarrow> True)
      in case fill_slices W K market symbol now coid slices (S\<lparr>fl_taken := 0\<rparr>) of
           (S1, Inl e) \<Rightarrow> (S1, Inl e)
         | (S1, Inr events) \<Rightarrow>
             if in_category market = CATEGORY_SPOT \<or> \<not> rt_has_store (fl_rt S1) then (S1, Inr events)
             else
               let share_after = journal_leg_share W (fk_base K) (fl_rt S1)
               in (on_rt (\<lambda>R. note_own_execution W K market now entry reducing (\<lambda>idx. share_after idx - share_before idx)
                              (fl_taken S1)
                              (note_share_start W K market entry share_before share_after (journal_legs R) R)) S1,
                   Inr events))"

section \<open>Execution rows\<close>

text \<open>
  What one execution row does, from the stream or re-read: skipped, entered as a foreign or non-trade
  execution, or booked. \<open>live\<close> tells the stream's handling from the backfill's: the stream asks the
  spot manager first and does not remember a foreign id, the backfill skips a row its cursor covers.
\<close>

definition own_identity ::
    "'s framework_ops \<Rightarrow> jdict \<Rightarrow> 's runtime \<Rightarrow> identity option" where
  "own_identity W entry R =
     resolve_identity W (some_text (jstr entry ''orderLinkId'')) (some_text (jstr entry ''orderId'')) R"

text \<open>The owner of an execution, and whether one without may be the bot's own.\<close>

definition execution_owner ::
    "'s framework_ops \<Rightarrow> keys \<Rightarrow> ('s, 'm) stream_ops \<Rightarrow> instrument_info \<Rightarrow> jdict \<Rightarrow> ('s, 'm) fills \<Rightarrow>
     ('s, 'm) fills \<times> (py_error + ((identity + stop_claim list) option \<times> bool))" where
  "execution_owner W K Z market entry S =
     (case own_identity W entry (fl_rt S) of
        Some idn \<Rightarrow> (S, Inr (Some (Inl idn), False))
      | None \<Rightarrow>
          (case attribute_venue_bracket_execution W K Z market entry S of
             (S1, Inl e) \<Rightarrow> (S1, Inl e)
           | (S1, Inr ([], ambiguous)) \<Rightarrow> (S1, Inr (None, ambiguous))
           | (S1, Inr (claims, ambiguous)) \<Rightarrow> (S1, Inr (Some (Inr claims), ambiguous))))"

definition ignore_external ::
    "'s framework_ops \<Rightarrow> keys \<Rightarrow> instrument_info \<Rightarrow> rat \<Rightarrow> jdict \<Rightarrow> bool \<Rightarrow> 's runtime \<Rightarrow> 's runtime" where
  "ignore_external W K market now entry ambiguous R =
     note_external_execution W K market now entry ambiguous
       (audit_event ''external_activity_ignored'' (jstr entry ''execId'') 0 R)"

text \<open>The spot manager's word on a live fill: is it new? Without a manager every fill is.\<close>

definition spot_takes ::
    "('s, 'm) stream_ops \<Rightarrow> instrument_info \<Rightarrow> jdict \<Rightarrow> ('s, 'm) fills \<Rightarrow> ('s, 'm) fills \<times> (py_error + bool)" where
  "spot_takes Z market entry S =
     (case fl_spot S of
        None \<Rightarrow> (S, Inr True)
      | Some m \<Rightarrow>
          (case to_execution (sr_validate Z) (sr_host Z (fl_rt S)) market entry of
             Inl e \<Rightarrow> (S, Inl e)
           | Inr None \<Rightarrow> (S, Inr False)
           | Inr (Some x) \<Rightarrow> (case sr_live_fill Z m x of (m1, new) \<Rightarrow> (S\<lparr>fl_spot := Some m1\<rparr>, Inr new))))"

definition is_trade :: "jdict \<Rightarrow> bool" where
  "is_trade entry \<longleftrightarrow> jstr_or entry ''execType'' ''Trade'' = ''Trade''"

definition translate_execution ::
    "'s framework_ops \<Rightarrow> keys \<Rightarrow> ('s, 'm) stream_ops \<Rightarrow> instrument_info \<Rightarrow> rat \<Rightarrow> jdict \<Rightarrow> ('s, 'm) fills \<Rightarrow>
     ('s, 'm) fills \<times> (py_error + order_event list)" where
  "translate_execution W K Z market now entry S =
     (let exec_id = jstr entry ''execId'' in
      if \<not> on_market market entry then (S, Inr [])
      else if \<not> is_trade entry then (on_rt (note_non_trade_execution W K market now entry) S, Inr [])
      else if exec_id = [] \<or> exec_id \<in> set (rt_seen (fl_rt S)) then (S, Inr [])
      else
        (case execution_owner W K Z market entry S of
           (S1, Inl e) \<Rightarrow> (S1, Inl e)
         | (S1, Inr (None, ambiguous)) \<Rightarrow> (on_rt (ignore_external W K market now entry ambiguous) S1, Inr [])
         | (S1, Inr (Some owner, ambiguous)) \<Rightarrow>
             (case spot_takes Z market entry S1 of
                (S2, Inl e) \<Rightarrow> (S2, Inl e)
              | (S2, Inr False) \<Rightarrow> (on_rt (note_seen exec_id) S2, Inr [])
              | (S2, Inr True) \<Rightarrow>
                  book_own_execution W K market (sr_symbol Z) now entry (jstr entry ''orderLinkId'') owner
                    (on_rt (note_seen exec_id) S2))))"

definition row_covered :: "'s framework_ops \<Rightarrow> string \<Rightarrow> 's runtime \<Rightarrow> bool" where
  "row_covered W coid R \<longleftrightarrow>
     (case get_row W coid R of None \<Rightarrow> False | Some row \<Rightarrow> or_filled row \<ge> or_qty row - FILL_EPS)"

definition backfill_one_execution ::
    "'s framework_ops \<Rightarrow> keys \<Rightarrow> ('s, 'm) stream_ops \<Rightarrow> instrument_info \<Rightarrow> rat \<Rightarrow> jdict \<Rightarrow> ('s, 'm) fills \<Rightarrow>
     ('s, 'm) fills \<times> (py_error + order_event list)" where
  "backfill_one_execution W K Z market now entry S =
     (let exec_id = jstr entry ''execId''; coid = jstr entry ''orderLinkId'' in
      if \<not> on_market market entry then (S, Inr [])
      else if \<not> is_trade entry then (on_rt (note_non_trade_execution W K market now entry) S, Inr [])
      else if exec_id = [] \<or> exec_id \<in> set (rt_seen (fl_rt S)) then (S, Inr [])
      else
        (case execution_owner W K Z market entry S of
           (S1, Inl e) \<Rightarrow> (S1, Inl e)
         | (S1, Inr (None, ambiguous)) \<Rightarrow>
             (on_rt (\<lambda>R. ignore_external W K market now entry ambiguous (note_seen exec_id R)) S1, Inr [])
         | (S1, Inr (Some owner, ambiguous)) \<Rightarrow>
             if row_covered W coid (fl_rt S1) then (on_rt (note_seen exec_id) S1, Inr [])
             else book_own_execution W K market (sr_symbol Z) now entry coid owner (on_rt (note_seen exec_id) S1)))"

text \<open>The rows of a push or a window, in order, until one raises; with the events so far.\<close>

fun each_row ::
    "(jdict \<Rightarrow> 'st \<Rightarrow> 'st \<times> (py_error + 'e list)) \<Rightarrow> py list \<Rightarrow> 'st \<Rightarrow> 'st \<times> 'e list \<times> py_error option" where
  "each_row step [] S = (S, [], None)"
| "each_row step (v # vs) S =
     (case as_dict v of
        Inl e \<Rightarrow> (S, [], Some e)
      | Inr entry \<Rightarrow>
          (case step entry S of
             (S1, Inl e) \<Rightarrow> (S1, [], Some e)
           | (S1, Inr evs) \<Rightarrow> (case each_row step vs S1 of (S2, rest, err) \<Rightarrow> (S2, evs @ rest, err))))"

text \<open>\<open>with self._ledger_batch(market)\<close>: the hold is released in any case, the ledgers judge only without an error.\<close>

definition in_batch ::
    "'s framework_ops \<Rightarrow> keys \<Rightarrow> instrument_info \<Rightarrow> rat \<Rightarrow>
     (('s, 'm) fills \<Rightarrow> ('s, 'm) fills \<times> 'e list \<times> py_error option) \<Rightarrow>
     ('s, 'm) fills \<Rightarrow> ('s, 'm) fills \<times> 'e list \<times> py_error option" where
  "in_batch W K market now body S =
     (case body (on_rt (\<lambda>R. R\<lparr>rt_hold := rt_hold R + 1\<rparr>) S) of
        (S1, evs, err) \<Rightarrow>
          (let S2 = on_rt (\<lambda>R. R\<lparr>rt_hold := rt_hold R - 1\<rparr>) S1
           in (if err = None then on_rt (ledger_advance W K market now) S2 else S2, evs, err)))"

definition flat_sweep ::
    "'s framework_ops \<Rightarrow> keys \<Rightarrow> ('s, 'm) stream_ops \<Rightarrow> instrument_info \<Rightarrow> ('s, 'm) fills \<Rightarrow> ('s, 'm) fills" where
  "flat_sweep W K Z market S =
     on_rt (close_entry_rows_when_flat W K market (map_option (sr_spot_net Z) (fl_spot S))) S"

definition sweep_after ::
    "'s framework_ops \<Rightarrow> keys \<Rightarrow> ('s, 'm) stream_ops \<Rightarrow> instrument_info \<Rightarrow> order_event list \<Rightarrow> ('s, 'm) fills \<Rightarrow>
     ('s, 'm) fills" where
  "sweep_after W K Z market events S = (if events \<noteq> [] then flat_sweep W K Z market S else S)"

text \<open>\<open>frame.get('data') or ()\<close>\<close>

definition frame_rows :: "jdict \<Rightarrow> py_error + py list" where
  "frame_rows frame = as_list (py_or (jget frame ''data'') (PList []))"

definition translate_executions ::
    "'s framework_ops \<Rightarrow> keys \<Rightarrow> ('s, 'm) stream_ops \<Rightarrow> instrument_info \<Rightarrow> rat \<Rightarrow> jdict \<Rightarrow> ('s, 'm) fills \<Rightarrow>
     ('s, 'm) fills \<times> (py_error + order_event list)" where
  "translate_executions W K Z market now frame S =
     (case in_batch W K market now
             (\<lambda>X. case frame_rows frame of
                    Inl e \<Rightarrow> (X, [], Some e)
                  | Inr vs \<Rightarrow> each_row (translate_execution W K Z market now) vs X) S of
        (S1, events, Some e) \<Rightarrow> (S1, Inl e)
      | (S1, events, None) \<Rightarrow> (sweep_after W K Z market events S1, Inr events))"

section \<open>Order rows\<close>

definition ORDER_STATUS_EVENTS :: "(string \<times> string) list" where
  "ORDER_STATUS_EVENTS =
     [(''New'', ''created''), (''Untriggered'', ''created''), (''Cancelled'', ''cancelled''),
      (''PartiallyFilledCanceled'', ''cancelled''), (''Deactivated'', ''cancelled''), (''Rejected'', ''rejected'')]"

text \<open>The push as the guard sees it, then its label: a second creation of an order confirms an amend.\<close>

definition observe_created ::
    "'s framework_ops \<Rightarrow> keys \<Rightarrow> instrument_info \<Rightarrow> jdict \<Rightarrow> string \<Rightarrow> leg_type \<Rightarrow> 's runtime \<Rightarrow> 's runtime" where
  "observe_created W K market entry coid leg R =
     (if leg = ENTRY then observe_entry_push W K entry coid market R
      else observe_exit_leg_push W K entry coid leg market R)"

definition label_created :: "string \<Rightarrow> 's runtime \<Rightarrow> 's runtime \<times> string" where
  "label_created order_id R =
     (if order_id = [] then (R, ''created'')
      else if order_id \<in> set (rt_created R) then (R, ''amended'')
      else (R\<lparr>rt_created := List.insert order_id (rt_created R)\<rparr>, ''created''))"

definition retire_pushed ::
    "'s framework_ops \<Rightarrow> keys \<Rightarrow> instrument_info \<Rightarrow> jdict \<Rightarrow> string \<Rightarrow> 's runtime \<Rightarrow> 's runtime" where
  "retire_pushed W K market entry coid R =
     (if rt_has_store R \<and> coid \<noteq> []
      then retire_cancelled_row W K (Some market) coid (cum_exec_qty entry) (some_text (jstr entry ''orderId''))
             (on_store (so_unpark (rows_of W) coid) R)
      else R)"

definition push_ctx :: "'s framework_ops \<Rightarrow> ('s, 'm) stream_ops \<Rightarrow> 's runtime \<Rightarrow> read_ctx" where
  "push_ctx W Z R =
     \<lparr>rx_store = rt_has_store R, rx_symbol = Some (sr_symbol Z), rx_last_price = sr_last_price Z, rx_clock = 0,
      rx_extras = row_extras_of W R\<rparr>"

definition pushed_order ::
    "'s framework_ops \<Rightarrow> ('s, 'm) stream_ops \<Rightarrow> instrument_info \<Rightarrow> jdict \<Rightarrow> 's runtime \<Rightarrow>
     's runtime \<times> (py_error + exchange_order)" where
  "pushed_order W Z market entry R =
     (case parse_exchange_order entry of
        Inl e \<Rightarrow> (R, Inl e)
      | Inr ord \<Rightarrow>
          if \<not> is_inverse market then (R, Inr ord)
          else
            (case inverse_order_to_base (push_ctx W Z R) ord (rt_inverse R) of
               Inl e \<Rightarrow> (R, Inl e)
             | Inr (I, ord1) \<Rightarrow> (R\<lparr>rt_inverse := I\<rparr>, Inr ord1)))"

definition order_row_event :: "rat \<Rightarrow> jdict \<Rightarrow> string \<Rightarrow> identity \<Rightarrow> exchange_order \<Rightarrow> order_event" where
  "order_row_event now entry kind idn ord =
     \<lparr>oe_order = ord, oe_kind = kind,
      oe_timestamp = (if eo_timestamp ord = Fin 0 then Fin now else eo_timestamp ord),
      oe_fill_price = None, oe_fill_qty = None, oe_pine_id = fst idn, oe_from_entry = fst (snd idn),
      oe_leg = snd (snd idn), oe_fee = 0, oe_fee_currency = [], oe_fill_id = None,
      oe_reason = (if kind = ''cancelled'' then map_of CANCEL_TYPE_REASONS (jstr entry ''cancelType'') else None)\<rparr>"

text \<open>One row: the kind of its status, and for an own order its event.\<close>

definition translate_own_order ::
    "'s framework_ops \<Rightarrow> keys \<Rightarrow> ('s, 'm) stream_ops \<Rightarrow> instrument_info \<Rightarrow> rat \<Rightarrow> jdict \<Rightarrow> string \<Rightarrow> identity \<Rightarrow>
     's runtime \<Rightarrow> 's runtime \<times> (py_error + order_event list)" where
  "translate_own_order W K Z market now entry kind idn R =
     (let coid = jstr entry ''orderLinkId'';
          (R1, label) = (if kind = ''created''
                         then label_created (jstr entry ''orderId'')
                                (observe_created W K market entry coid (snd (snd idn)) R)
                         else (retire_pushed W K market entry coid R, kind))
      in case pushed_order W Z market entry R1 of
           (R2, Inl e) \<Rightarrow> (R2, Inl e)
         | (R2, Inr ord) \<Rightarrow> (R2, Inr [order_row_event now entry label idn ord]))"

definition translate_order_row ::
    "'s framework_ops \<Rightarrow> keys \<Rightarrow> ('s, 'm) stream_ops \<Rightarrow> instrument_info \<Rightarrow> rat \<Rightarrow> jdict \<Rightarrow> 's runtime \<Rightarrow>
     's runtime \<times> (py_error + order_event list)" where
  "translate_order_row W K Z market now entry R =
     (if jstr entry ''symbol'' \<noteq> in_symbol market then (R, Inr [])
      else
        let R1 = (if jstr entry ''orderLinkId'' = [] then observe_foreign_tpsl_order W K market now entry R else R)
        in (case map_of ORDER_STATUS_EVENTS (jstr entry ''orderStatus'') of
              None \<Rightarrow> (R1, Inr [])
            | Some kind \<Rightarrow>
                (case own_identity W entry R1 of
                   None \<Rightarrow> (R1, Inr [])
                 | Some idn \<Rightarrow> translate_own_order W K Z market now entry kind idn R1)))"

definition through_rt ::
    "('s runtime \<Rightarrow> 's runtime \<times> 'r) \<Rightarrow> ('s, 'm) fills \<Rightarrow> ('s, 'm) fills \<times> 'r" where
  "through_rt f S = (case f (fl_rt S) of (R, r) \<Rightarrow> (S\<lparr>fl_rt := R\<rparr>, r))"

definition translate_order_rows ::
    "'s framework_ops \<Rightarrow> keys \<Rightarrow> ('s, 'm) stream_ops \<Rightarrow> instrument_info \<Rightarrow> rat \<Rightarrow> jdict \<Rightarrow> ('s, 'm) fills \<Rightarrow>
     ('s, 'm) fills \<times> (py_error + order_event list)" where
  "translate_order_rows W K Z market now frame S =
     (case frame_rows frame of
        Inl e \<Rightarrow> (S, Inl e)
      | Inr vs \<Rightarrow>
          (case each_row (\<lambda>entry. through_rt (translate_order_row W K Z market now entry)) vs S of
             (S1, events, Some e) \<Rightarrow> (S1, Inl e)
           | (S1, events, None) \<Rightarrow> (S1, Inr events)))"

section \<open>Frames\<close>

definition frame_positions :: "instrument_info \<Rightarrow> jdict \<Rightarrow> py_error + jdict list" where
  "frame_positions market frame =
     res_bind (frame_rows frame) (\<lambda>vs. res_bind (res_map as_dict vs) (\<lambda>rows. Inr (filter (on_market market) rows)))"

definition epoch_ms :: "rat \<Rightarrow> int" where "epoch_ms now = \<lfloor>now * 1000\<rfloor>"

definition ingest_sizes :: "rat \<Rightarrow> jdict list \<Rightarrow> ('s, 'm) fills \<Rightarrow> raised + ('s, 'm) fills" where
  "ingest_sizes now rows S =
     res_bind (ingest_position_sizes (epoch_ms now) rows (rt_positions (fl_rt S))) (\<lambda>P.
       Inr (on_rt (\<lambda>R. R\<lparr>rt_positions := P\<rparr>) S))"

definition ingest_position_frame ::
    "'s framework_ops \<Rightarrow> keys \<Rightarrow> ('s, 'm) stream_ops \<Rightarrow> instrument_info \<Rightarrow> rat \<Rightarrow> jdict \<Rightarrow> ('s, 'm) fills \<Rightarrow>
     raised + ('s, 'm) fills" where
  "ingest_position_frame W K Z market now frame S =
     res_bind (lift_err (frame_positions market frame)) (\<lambda>rows.
       if rows = [] then Inr S
       else
         res_bind (ingest_sizes now rows S) (\<lambda>S1.
           Inr (on_rt (observe_position_rows W K market now None rows)
                  (flat_sweep W K Z market (on_rt (ledger_advance W K market now) S1)))))"

definition lifted :: "'a \<times> (py_error + 'b) \<Rightarrow> 'a \<times> (raised + 'b)" where
  "lifted r = (case r of (S, x) \<Rightarrow> (S, lift_err x))"

definition translate_private_frame ::
    "'s framework_ops \<Rightarrow> keys \<Rightarrow> ('s, 'm) stream_ops \<Rightarrow> instrument_info \<Rightarrow> rat \<Rightarrow> jdict \<Rightarrow> ('s, 'm) fills \<Rightarrow>
     ('s, 'm) fills \<times> (raised + order_event list)" where
  "translate_private_frame W K Z market now frame S =
     (let topic = jstr frame ''topic'' in
      if topic = ''execution'' then lifted (translate_executions W K Z market now frame S)
      else if topic = ''order'' then lifted (translate_order_rows W K Z market now frame S)
      else if topic = ''position''
      then (case ingest_position_frame W K Z market now frame S of Inl e \<Rightarrow> (S, Inl e) | Inr S1 \<Rightarrow> (S1, Inr []))
      else (S, Inr []))"

text \<open>The gate of the startup baseline: frames are parked until it is committed, then replayed in order.\<close>

definition adoption_gate_active :: "instrument_info \<Rightarrow> ('s, 'm) fills \<Rightarrow> bool" where
  "adoption_gate_active market S \<longleftrightarrow>
     in_category market \<noteq> CATEGORY_SPOT \<and> rt_has_store (fl_rt S) \<and> \<not> rt_baselined (fl_rt S)"

fun replay_frames ::
    "'s framework_ops \<Rightarrow> keys \<Rightarrow> ('s, 'm) stream_ops \<Rightarrow> instrument_info \<Rightarrow> rat \<Rightarrow> jdict list \<Rightarrow> ('s, 'm) fills \<Rightarrow>
     ('s, 'm) fills \<times> (raised + order_event list)" where
  "replay_frames W K Z market now [] S = (S, Inr [])"
| "replay_frames W K Z market now (frame # frames) S =
     (case translate_private_frame W K Z market now frame S of
        (S1, Inl e) \<Rightarrow> (S1, Inl e)
      | (S1, Inr events) \<Rightarrow>
          (case replay_frames W K Z market now frames S1 of
             (S2, Inl e) \<Rightarrow> (S2, Inl e)
           | (S2, Inr rest) \<Rightarrow> (S2, Inr (events @ rest))))"

definition replay_pre_adoption_frames ::
    "'s framework_ops \<Rightarrow> keys \<Rightarrow> ('s, 'm) stream_ops \<Rightarrow> instrument_info \<Rightarrow> rat \<Rightarrow> ('s, 'm) fills \<Rightarrow>
     ('s, 'm) fills \<times> (raised + order_event list)" where
  "replay_pre_adoption_frames W K Z market now S =
     (if fl_frames S = [] \<or> adoption_gate_active market S then (S, Inr [])
      else replay_frames W K Z market now (fl_frames S) (S\<lparr>fl_frames := []\<rparr>))"

section \<open>The windowed backfill\<close>

text \<open>The persisted watermarks are audit events: scope, category, time.\<close>

definition load_deriv_exec_watermark :: "instrument_info \<Rightarrow> ('s, 'm) fills \<Rightarrow> int option" where
  "load_deriv_exec_watermark market S =
     (if \<not> rt_has_store (fl_rt S) then None
      else
        (case filter (\<lambda>(scope, category, ms). scope = ''time'' \<and> category = in_category market) (fl_cursors S) of
           [] \<Rightarrow> None | cs \<Rightarrow> Some (snd (snd (last cs)))))"

definition persist_deriv_exec_watermark :: "instrument_info \<Rightarrow> int \<Rightarrow> ('s, 'm) fills \<Rightarrow> ('s, 'm) fills" where
  "persist_deriv_exec_watermark market ms S =
     (if \<not> rt_has_store (fl_rt S) \<or> ms - fl_persisted S < EXECUTION_CURSOR_OVERLAP_MS then S
      else S\<lparr>fl_persisted := ms, fl_cursors := fl_cursors S @ [(''time'', in_category market, ms)]\<rparr>)"

text \<open>Where the pass starts: the watermark kept or loaded, a fresh run's at the floor, never below it.\<close>

definition seed_watermark :: "instrument_info \<Rightarrow> ('s, 'm) fills \<Rightarrow> ('s, 'm) fills" where
  "seed_watermark market S =
     (let S1 = (case fl_watermark S of
                  Some w \<Rightarrow> S
                | None \<Rightarrow>
                    (case load_deriv_exec_watermark market S of
                       None \<Rightarrow> S\<lparr>fl_watermark := Some (fl_floor S)\<rparr>
                     | Some w \<Rightarrow> S\<lparr>fl_watermark := Some w, fl_persisted := w\<rparr>))
      in case fl_watermark S1 of
           Some w \<Rightarrow> if w < fl_floor S then S1\<lparr>fl_watermark := Some (fl_floor S)\<rparr> else S1
         | None \<Rightarrow> S1)"

definition window_start :: "int \<Rightarrow> int \<Rightarrow> int" where
  "window_start floor_ms watermark = max (max 0 (watermark - EXECUTION_CURSOR_OVERLAP_MS)) floor_ms"

text \<open>The rows of one window in the order of time, as one batch.\<close>

definition book_window ::
    "'s framework_ops \<Rightarrow> keys \<Rightarrow> ('s, 'm) stream_ops \<Rightarrow> instrument_info \<Rightarrow> rat \<Rightarrow> py list \<Rightarrow> ('s, 'm) fills \<Rightarrow>
     ('s, 'm) fills \<times> order_event list \<times> py_error option" where
  "book_window W K Z market now vs S =
     (case res_map as_dict vs of
        Inl e \<Rightarrow> (S, [], Some e)
      | Inr rows \<Rightarrow>
          in_batch W K market now
            (each_row (backfill_one_execution W K Z market now) (map PDict (sort_executions rows))) S)"

text \<open>The events booked so far, and whether every window up to now drained.\<close>

function backfill_windows ::
    "'s framework_ops \<Rightarrow> keys \<Rightarrow> ('s, 'm) stream_ops \<Rightarrow> instrument_info \<Rightarrow> rat \<Rightarrow> executions_api \<Rightarrow> int \<Rightarrow>
     ('s, 'm) fills \<Rightarrow> ('s, 'm) fills \<times> order_event list \<times> bool" where
  "backfill_windows W K Z market now api watermark S =
     (if watermark < epoch_ms now
      then
        (let s = window_start (fl_floor S) watermark;
             e = min (s + EXECUTION_WINDOW_MS) (epoch_ms now)
         in case drain_deriv_exec_window MAX_BACKFILL_WINDOW_PAGES api s e PNone [] of
              Inl x \<Rightarrow> (S, [], False)
            | Inr (vs, conclusive) \<Rightarrow>
                (case book_window W K Z market now vs S of
                   (S1, events, err) \<Rightarrow>
                     if err \<noteq> None \<or> \<not> conclusive then (S1, events, False)
                     else
                       (case backfill_windows W K Z market now api e
                               (persist_deriv_exec_watermark market e (S1\<lparr>fl_watermark := Some e\<rparr>)) of
                          (S2, rest, drained) \<Rightarrow> (S2, events @ rest, drained))))
      else (S, [], True))"
  by pat_completeness auto

termination backfill_windows
  by (relation "measure (\<lambda>(W, K, Z, market, now, api, watermark, S). nat (epoch_ms now - watermark))")
    (auto simp: EXECUTION_WINDOW_MS_def EXECUTION_CURSOR_OVERLAP_MS_def window_start_def)

declare backfill_windows.simps [simp del]

definition lift_outage_hold :: "rat \<Rightarrow> 's runtime \<Rightarrow> 's runtime" where
  "lift_outage_hold now R =
     (case rt_stream_opened_ms R of
        None \<Rightarrow> R
      | Some opened_ms \<Rightarrow>
          if epoch_ms now \<ge> opened_ms + EXECUTION_CURSOR_OVERLAP_MS then R\<lparr>rt_stream_opened_ms := None\<rparr> else R)"

definition run_deriv_fill_backfill ::
    "'s framework_ops \<Rightarrow> keys \<Rightarrow> ('s, 'm) stream_ops \<Rightarrow> instrument_info \<Rightarrow> rat \<Rightarrow> executions_api \<Rightarrow>
     ('s, 'm) fills \<Rightarrow> ('s, 'm) fills \<times> order_event list" where
  "run_deriv_fill_backfill W K Z market now api S =
     (if \<not> rt_has_store (fl_rt S) \<or> in_category market = CATEGORY_SPOT \<or> \<not> rt_baselined (fl_rt S) then (S, [])
      else
        let S1 = seed_watermark market S
        in case backfill_windows W K Z market now api
                  (case fl_watermark S1 of Some w \<Rightarrow> w | None \<Rightarrow> fl_floor S1) S1 of
             (S2, events, drained) \<Rightarrow>
               (sweep_after W K Z market events (if drained then on_rt (lift_outage_hold now) S2 else S2), events))"

section \<open>The per-order recovery\<close>

text \<open>\<open>order_read\<close> answers \<open>_order_executions\<close> for an order id from a time on.\<close>

type_synonym order_read = "string \<Rightarrow> int \<Rightarrow> raised + (jdict list \<times> bool)"

definition fills_covered :: "'s framework_ops \<Rightarrow> string \<Rightarrow> num \<Rightarrow> 's runtime \<Rightarrow> bool" where
  "fills_covered W coid cum R \<longleftrightarrow>
     (case get_row W coid R of None \<Rightarrow> True | Some row \<Rightarrow> float_le (less_slack cum) (cursor_of row))"

definition unqueue :: "'s framework_ops \<Rightarrow> string \<Rightarrow> num \<Rightarrow> 's runtime \<Rightarrow> 's runtime" where
  "unqueue W coid cum R =
     (if fills_covered W coid cum R then R\<lparr>rt_unbooked := AList.delete coid (rt_unbooked R)\<rparr> else R)"

definition recover_one_order ::
    "'s framework_ops \<Rightarrow> keys \<Rightarrow> ('s, 'm) stream_ops \<Rightarrow> instrument_info \<Rightarrow> rat \<Rightarrow> order_read \<Rightarrow> string \<Rightarrow> string \<Rightarrow>
     num \<Rightarrow> ('s, 'm) fills \<Rightarrow> ('s, 'm) fills \<times> (raised + order_event list)" where
  "recover_one_order W K Z market now order_read coid order_id cum S =
     (case get_row W coid (fl_rt S) of
        None \<Rightarrow> (on_rt (unqueue W coid cum) S, Inr [])
      | Some row \<Rightarrow>
          if fills_covered W coid cum (fl_rt S) then (on_rt (unqueue W coid cum) S, Inr [])
          else
            (case order_read order_id (or_created_ms row - EXECUTION_SINCE_SKEW_MS) of
               Inl e \<Rightarrow> (S, Inl e)
             | Inr (entries, False) \<Rightarrow> (S, Inr [])
             | Inr (entries, True) \<Rightarrow>
                 (case book_window W K Z market now (map PDict entries) S of
                    (S1, events, Some e) \<Rightarrow> (S1, Inl (Lang e))
                  | (S1, events, None) \<Rightarrow> (on_rt (unqueue W coid cum) S1, Inr events))))"

fun recover_orders ::
    "'s framework_ops \<Rightarrow> keys \<Rightarrow> ('s, 'm) stream_ops \<Rightarrow> instrument_info \<Rightarrow> rat \<Rightarrow> order_read \<Rightarrow>
     (string \<times> (string \<times> num)) list \<Rightarrow> ('s, 'm) fills \<Rightarrow> ('s, 'm) fills \<times> (raised + order_event list)" where
  "recover_orders W K Z market now order_read [] S = (S, Inr [])"
| "recover_orders W K Z market now order_read ((coid, order_id, cum) # rest) S =
     (case recover_one_order W K Z market now order_read coid order_id cum S of
        (S1, Inl e) \<Rightarrow> (S1, Inl e)
      | (S1, Inr events) \<Rightarrow>
          (case recover_orders W K Z market now order_read rest S1 of
             (S2, Inl e) \<Rightarrow> (S2, Inl e)
           | (S2, Inr others) \<Rightarrow> (S2, Inr (events @ others))))"

definition recover_unbooked_order_fills ::
    "'s framework_ops \<Rightarrow> keys \<Rightarrow> ('s, 'm) stream_ops \<Rightarrow> instrument_info \<Rightarrow> rat \<Rightarrow> order_read \<Rightarrow>
     ('s, 'm) fills \<Rightarrow> ('s, 'm) fills \<times> (raised + order_event list)" where
  "recover_unbooked_order_fills W K Z market now order_read S =
     (let R = fl_rt S in
      if rt_unbooked R = [] \<or> \<not> rt_has_store R \<or> in_category market = CATEGORY_SPOT \<or> \<not> rt_baselined R
      then (S, Inr [])
      else
        (case recover_orders W K Z market now order_read (rt_unbooked R) S of
           (S1, Inl e) \<Rightarrow> (S1, Inl e)
         | (S1, Inr events) \<Rightarrow> (sweep_after W K Z market events S1, Inr events)))"

section \<open>The reconcile passes\<close>

text \<open>How a pass ends: its events, an error, or an intervention that halts the run.\<close>

datatype pass_result = Events "order_event list" | Failed raised | Halted

text \<open>What a derivative pass reads.\<close>

record 's pass_reads =
  pr_parked :: order_lookups
  pr_cancelled :: order_lookups
  pr_entries :: order_lookups
  pr_started :: rat
  pr_rows :: "raised + jdict list"
  pr_open_orders :: "raised + (jdict list \<times> bool)"
  pr_tracker :: "present_refs \<Rightarrow> 's runtime \<Rightarrow> 's runtime \<times> order_event list \<times> tracker_end"
  pr_history :: executions_api
  pr_order_read :: order_read

text \<open>A failed position read leaves the views as they are.\<close>

definition take_position_read ::
    "'s framework_ops \<Rightarrow> keys \<Rightarrow> ('s, 'm) stream_ops \<Rightarrow> instrument_info \<Rightarrow> rat \<Rightarrow> 's pass_reads \<Rightarrow> ('s, 'm) fills \<Rightarrow>
     raised + ('s, 'm) fills" where
  "take_position_read W K Z market now V S =
     (case pr_rows V of
        Inl e \<Rightarrow> Inr S
      | Inr rows \<Rightarrow>
          res_bind (ingest_sizes now rows S) (\<lambda>S1.
            Inr (on_rt (observe_position_rows W K market now (Some (pr_started V)) rows) (flat_sweep W K Z market S1))))"

definition quiet_rows :: "raised + jdict list \<Rightarrow> jdict list option" where
  "quiet_rows r = (case r of Inl e \<Rightarrow> None | Inr rows \<Rightarrow> Some rows)"

text \<open>The second half: unbooked market entries, the history, the queued orders, then judge and sweep.\<close>

definition finish_deriv_pass ::
    "'s framework_ops \<Rightarrow> keys \<Rightarrow> ('s, 'm) stream_ops \<Rightarrow> instrument_info \<Rightarrow> rat \<Rightarrow> 's pass_reads \<Rightarrow> order_event list \<Rightarrow>
     ('s, 'm) fills \<Rightarrow> ('s, 'm) fills \<times> pass_result" where
  "finish_deriv_pass W K Z market now V vanished S =
     (case through_rt (note_unbooked_market_entries W K market (pr_entries V) (epoch_ms now)) S of
        (S1, Some e) \<Rightarrow> (S1, Failed e)
      | (S1, None) \<Rightarrow>
          (case run_deriv_fill_backfill W K Z market now (pr_history V) S1 of
             (S2, filled) \<Rightarrow>
               (case recover_unbooked_order_fills W K Z market now (pr_order_read V) S2 of
                  (S3, Inl e) \<Rightarrow> (S3, Failed e)
                | (S3, Inr recovered) \<Rightarrow>
                    (flat_sweep W K Z market (on_rt (ledger_advance W K market now) S3),
                     Events (vanished @ filled @ recovered)))))"

definition settle_first ::
    "'s framework_ops \<Rightarrow> keys \<Rightarrow> instrument_info \<Rightarrow> rat \<Rightarrow> 's pass_reads \<Rightarrow> 's runtime \<Rightarrow> 's runtime \<times> raised option" where
  "settle_first W K market now V R =
     settle_cancelled_entries W K market (pr_cancelled V)
       (resolve_parked_dispatches W K (pr_parked V) (epoch_ms now) R)"

definition run_deriv_reconcile ::
    "'s framework_ops \<Rightarrow> keys \<Rightarrow> ('s, 'm) stream_ops \<Rightarrow> instrument_info \<Rightarrow> rat \<Rightarrow> 's pass_reads \<Rightarrow> ('s, 'm) fills \<Rightarrow>
     ('s, 'm) fills \<times> pass_result" where
  "run_deriv_reconcile W K Z market now V S =
     (case through_rt (settle_first W K market now V) S of
        (S1, Some e) \<Rightarrow> (S1, Failed e)
      | (S1, None) \<Rightarrow>
          (case take_position_read W K Z market now V S1 of
             Inl e \<Rightarrow> (S1, Failed e)
           | Inr S2 \<Rightarrow>
               (case through_rt (reconcile_disappearance W K market now (pr_started V) (pr_open_orders V)
                                   (quiet_rows (pr_rows V)) (pr_tracker V)) S2 of
                  (S3, Inl e) \<Rightarrow> (S3, Failed e)
                | (S3, Inr None) \<Rightarrow> (S3, Halted)
                | (S3, Inr (Some vanished)) \<Rightarrow> finish_deriv_pass W K Z market now V vanished S3)))"

text \<open>A row of the spot ledger the catch-up recovered: the base fee is undone.\<close>

definition num_py :: "num \<Rightarrow> py" where
  "num_py x = (case x of Fin v \<Rightarrow> PFloat v | _ \<Rightarrow> PStr ''nan'')"

fun num_abs :: "num \<Rightarrow> num" where
  "num_abs (Fin v) = Fin \<bar>v\<bar>"
| "num_abs NegInf = PosInf"
| "num_abs x = x"

definition executed_base :: "instrument_info \<Rightarrow> spot_execution \<Rightarrow> num" where
  "executed_base market row =
     (case (num_abs (sx_base_delta row), sx_fee_amount row) of
        (Fin d, Fin fee) \<Rightarrow>
          Fin (if sx_fee_currency row = in_base_coin market then (if sx_side row = ''buy'' then d + fee else d - fee) else d)
      | (x, y) \<Rightarrow> NaN)"

definition recovered_entry :: "instrument_info \<Rightarrow> spot_execution \<Rightarrow> jdict" where
  "recovered_entry market row =
     [(''execId'', PStr (sx_fill_id row)),
      (''orderId'', PStr (case sx_exchange_order_id row of None \<Rightarrow> [] | Some i \<Rightarrow> i)),
      (''execQty'', num_py (executed_base market row)), (''execPrice'', num_py (sx_price row)),
      (''execFee'', num_py (sx_fee_amount row)), (''feeCurrency'', PStr (sx_fee_currency row)),
      (''execTime'', PInt (sx_ts_ms row)), (''side'', PStr (sx_side row))]"

definition recovered_row_event ::
    "'s framework_ops \<Rightarrow> keys \<Rightarrow> ('s, 'm) stream_ops \<Rightarrow> instrument_info \<Rightarrow> rat \<Rightarrow> spot_execution \<Rightarrow> ('s, 'm) fills \<Rightarrow>
     ('s, 'm) fills \<times> (py_error + order_event option)" where
  "recovered_row_event W K Z market now row S =
     (if sx_fill_id row \<in> set (rt_seen (fl_rt S)) then (S, Inr None)
      else
        let S1 = on_rt (note_seen (sx_fill_id row)) S; coid = sx_client_order_id row
        in case resolve_identity W (some_text coid) (sx_exchange_order_id row) (fl_rt S1) of
             None \<Rightarrow> (S1, Inr None)
           | Some idn \<Rightarrow> fill_event W K market (sr_symbol Z) now (recovered_entry market row) coid idn S1)"

fun recovered_rows ::
    "'s framework_ops \<Rightarrow> keys \<Rightarrow> ('s, 'm) stream_ops \<Rightarrow> instrument_info \<Rightarrow> rat \<Rightarrow> spot_execution list \<Rightarrow>
     ('s, 'm) fills \<Rightarrow> ('s, 'm) fills \<times> (py_error + order_event list)" where
  "recovered_rows W K Z market now [] S = (S, Inr [])"
| "recovered_rows W K Z market now (row # rows) S =
     (case recovered_row_event W K Z market now row S of
        (S1, Inl e) \<Rightarrow> (S1, Inl e)
      | (S1, Inr ev) \<Rightarrow>
          (case recovered_rows W K Z market now rows S1 of
             (S2, Inl e) \<Rightarrow> (S2, Inl e)
           | (S2, Inr evs) \<Rightarrow> (S2, Inr ((case ev of None \<Rightarrow> [] | Some x \<Rightarrow> [x]) @ evs))))"

text \<open>The manager's inventory pass: the rows it recovered, a transient failure, or a halt.\<close>

datatype 'm inventory_pass = Recovered 'm "spot_execution list" | Inventory_Failed 'm | Inventory_Halt 'm

definition run_spot_reconcile ::
    "'s framework_ops \<Rightarrow> keys \<Rightarrow> ('s, 'm) stream_ops \<Rightarrow> instrument_info \<Rightarrow> rat \<Rightarrow> 's pass_reads \<Rightarrow>
     ('m \<Rightarrow> 'm inventory_pass) \<Rightarrow> ('s, 'm) fills \<Rightarrow> ('s, 'm) fills \<times> pass_result" where
  "run_spot_reconcile W K Z market now V inventory S =
     (case through_rt (settle_first W K market now V) S of
        (S1, Some e) \<Rightarrow> (S1, Failed e)
      | (S1, None) \<Rightarrow>
          (case fl_spot S1 of
             None \<Rightarrow> (S1, Events [])
           | Some m \<Rightarrow>
               (case inventory m of
                  Inventory_Halt m1 \<Rightarrow> (S1\<lparr>fl_spot := Some m1\<rparr>, Halted)
                | Inventory_Failed m1 \<Rightarrow> (S1\<lparr>fl_spot := Some m1\<rparr>, Events [])
                | Recovered m1 rows \<Rightarrow>
                    (case recovered_rows W K Z market now rows (S1\<lparr>fl_spot := Some m1\<rparr>) of
                       (S2, Inl e) \<Rightarrow> (S2, Failed (Lang e))
                     | (S2, Inr events) \<Rightarrow>
                         (case through_rt (reconcile_disappearance W K market now (pr_started V) (pr_open_orders V) None
                                             (pr_tracker V)) (flat_sweep W K Z market S2) of
                            (S3, Inl e) \<Rightarrow> (S3, Failed e)
                          | (S3, Inr None) \<Rightarrow> (S3, Halted)
                          | (S3, Inr (Some vanished)) \<Rightarrow> (S3, Events (events @ vanished)))))))"

section \<open>The loop of the stream\<close>

text \<open>
  One pass of \<open>watch_orders\<close>: an armed halt, the replay of parked frames, while the stream is down the
  outage hold and perhaps a reconnect, then the reconcile when it is due, else what the queue gave.
  The events are those yielded before the pass ended.
\<close>

datatype reconnect = Not_Due | Refused | Open_Halts | Opened executions_api

datatype ('s, 'm) turn =
    Reconcile_Due "'s pass_reads" "'m \<Rightarrow> 'm inventory_pass"
  | Quiet
  | Stream_Died
  | Arrived jdict

record ('s, 'm) pass_input =
  pi_now :: rat
  pi_halted :: bool
  pi_down :: bool
  pi_reconnect :: reconnect
  pi_turn :: "('s, 'm) turn"

datatype pass_end = Goes_On | Raised raised | Halts

definition hold_outage :: "instrument_info \<Rightarrow> rat \<Rightarrow> ('s, 'm) fills \<Rightarrow> ('s, 'm) fills" where
  "hold_outage market now S =
     (if in_category market \<noteq> CATEGORY_SPOT then on_rt (\<lambda>R. R\<lparr>rt_stream_opened_ms := Some (epoch_ms now)\<rparr>) S else S)"

text \<open>With the events of the backfill, and whether the attempt to open halted.\<close>

definition while_down ::
    "'s framework_ops \<Rightarrow> keys \<Rightarrow> ('s, 'm) stream_ops \<Rightarrow> instrument_info \<Rightarrow> ('s, 'm) pass_input \<Rightarrow> ('s, 'm) fills \<Rightarrow>
     ('s, 'm) fills \<times> order_event list \<times> bool" where
  "while_down W K Z market P S =
     (if \<not> pi_down P then (S, [], False)
      else
        let S1 = hold_outage market (pi_now P) S
        in case pi_reconnect P of
             Opened api \<Rightarrow>
               (case (if in_category market \<noteq> CATEGORY_SPOT
                      then run_deriv_fill_backfill W K Z market (pi_now P) api (hold_outage market (pi_now P) S1)
                      else (S1, [])) of
                  (S2, missed) \<Rightarrow> (S2, missed, False))
           | Open_Halts \<Rightarrow> (S1, [], True)
           | _ \<Rightarrow> (S1, [], False))"

definition reconcile_pass ::
    "'s framework_ops \<Rightarrow> keys \<Rightarrow> ('s, 'm) stream_ops \<Rightarrow> instrument_info \<Rightarrow> rat \<Rightarrow> 's pass_reads \<Rightarrow>
     ('m \<Rightarrow> 'm inventory_pass) \<Rightarrow> ('s, 'm) fills \<Rightarrow> ('s, 'm) fills \<times> order_event list \<times> pass_end" where
  "reconcile_pass W K Z market now V inventory S =
     (case (if in_category market \<noteq> CATEGORY_SPOT then run_deriv_reconcile W K Z market now V S
            else run_spot_reconcile W K Z market now V inventory S) of
        (S1, Events evs) \<Rightarrow> (S1, evs, Goes_On)
      | (S1, Failed e) \<Rightarrow> (S1, [], Raised e)
      | (S1, Halted) \<Rightarrow> (S1, [], Halts))"

text \<open>A frame before the baseline is parked; after it the parked ones go first.\<close>

definition take_frame ::
    "'s framework_ops \<Rightarrow> keys \<Rightarrow> ('s, 'm) stream_ops \<Rightarrow> instrument_info \<Rightarrow> rat \<Rightarrow> jdict \<Rightarrow> ('s, 'm) fills \<Rightarrow>
     ('s, 'm) fills \<times> order_event list \<times> pass_end" where
  "take_frame W K Z market now frame S =
     (if adoption_gate_active market S then (S\<lparr>fl_frames := fl_frames S @ [frame]\<rparr>, [], Goes_On)
      else
        (case replay_pre_adoption_frames W K Z market now S of
           (S1, Inl e) \<Rightarrow> (S1, [], Raised e)
         | (S1, Inr early) \<Rightarrow>
             (case translate_private_frame W K Z market now frame S1 of
                (S2, Inl e) \<Rightarrow> (S2, early, Raised e)
              | (S2, Inr events) \<Rightarrow> (S2, early @ events, Goes_On))))"

definition take_turn ::
    "'s framework_ops \<Rightarrow> keys \<Rightarrow> ('s, 'm) stream_ops \<Rightarrow> instrument_info \<Rightarrow> rat \<Rightarrow> ('s, 'm) turn \<Rightarrow> ('s, 'm) fills \<Rightarrow>
     ('s, 'm) fills \<times> order_event list \<times> pass_end" where
  "take_turn W K Z market now t S =
     (case t of
        Reconcile_Due V inventory \<Rightarrow> reconcile_pass W K Z market now V inventory S
      | Arrived frame \<Rightarrow> take_frame W K Z market now frame S
      | _ \<Rightarrow> (S, [], Goes_On))"

definition watch_pass ::
    "'s framework_ops \<Rightarrow> keys \<Rightarrow> ('s, 'm) stream_ops \<Rightarrow> instrument_info \<Rightarrow> ('s, 'm) pass_input \<Rightarrow> ('s, 'm) fills \<Rightarrow>
     ('s, 'm) fills \<times> order_event list \<times> pass_end" where
  "watch_pass W K Z market P S =
     (if pi_halted P then (S, [], Halts)
      else
        (case replay_pre_adoption_frames W K Z market (pi_now P) S of
           (S1, Inl e) \<Rightarrow> (S1, [], Raised e)
         | (S1, Inr replayed) \<Rightarrow>
             (case while_down W K Z market P S1 of
                (S2, missed, True) \<Rightarrow> (S2, replayed, Halts)
              | (S2, missed, False) \<Rightarrow>
                  (case take_turn W K Z market (pi_now P) (pi_turn P) S2 of
                     (S3, events, ended) \<Rightarrow> (S3, replayed @ missed @ events, ended)))))"

end
