(* ===== verification/Frontier.thy ===== *)
theory Frontier
  imports Fills
begin

text \<open>
  The frontier of booked executions (\<open>_seen_exec_ids\<close>): every step of the guard, the ledger glue and the
  reconcile cadence leaves it as it is; only the handling of an execution adds to it.
\<close>

named_theorems frontier "steps that leave the frontier of booked executions alone"

section \<open>Guard, ledgers and reconcile\<close>

lemma seen_basic [frontier]:
  "rt_seen (on_store f R) = rt_seen R" "rt_seen (report e R) = rt_seen R" "rt_seen (audit_event k s a R) = rt_seen R"
  "rt_seen (record_identity c p f1 l q R) = rt_seen R"
  by (simp_all add: on_store_def report_def audit_event_def record_identity_def)

lemma seen_forget_protection [frontier]: "rt_seen (forget_protection W key R) = rt_seen R"
  by (simp add: forget_protection_def Let_def frontier case_prod_unfold split: option.split sum.split list.split bool.split)

lemma seen_write_own_order_qtys [frontier]: "rt_seen (write_own_order_qtys W coid upd R) = rt_seen R"
  by (simp add: write_own_order_qtys_def Let_def frontier case_prod_unfold split: option.split sum.split list.split bool.split)

lemma seen_trading_stop_side [frontier]: "rt_seen (fst (trading_stop_side W K market key idx R)) = rt_seen R"
  by (simp add: trading_stop_side_def Let_def frontier case_prod_unfold split: option.split sum.split list.split bool.split)

lemma seen_home_trading_stop [frontier]: "rt_seen (home_trading_stop W K market key idx R) = rt_seen R"
  by (simp add: home_trading_stop_def Let_def frontier case_prod_unfold split: option.split sum.split list.split bool.split)

lemma seen_forget_trading_stop_if_flat [frontier]: "rt_seen (forget_trading_stop_if_flat W K market side R) = rt_seen R"
  by (simp add: forget_trading_stop_if_flat_def Let_def frontier case_prod_unfold split: option.split sum.split list.split bool.split)

lemma seen_guard_cleared_trading_stop [frontier]: "rt_seen (guard_cleared_trading_stop W K market key idx R) = rt_seen R"
  by (simp add: guard_cleared_trading_stop_def Let_def frontier case_prod_unfold split: option.split sum.split list.split bool.split)

lemma seen_log_order_qty_cut [frontier]: "rt_seen (log_order_qty_cut entry coid leg venue expected market R) = rt_seen R"
  by (simp add: log_order_qty_cut_def Let_def frontier case_prod_unfold split: option.split sum.split list.split bool.split)

lemma seen_judge_changed_qty [frontier]: "rt_seen (judge_changed_qty entry coid leg market venue own cut_down R) = rt_seen R"
  by (simp add: judge_changed_qty_def Let_def frontier case_prod_unfold split: option.split sum.split list.split bool.split)

lemma seen_judge_order_qty [frontier]: "rt_seen (judge_order_qty W entry coid leg market read_started R) = rt_seen R"
  by (simp add: judge_order_qty_def Let_def frontier case_prod_unfold split: option.split sum.split list.split bool.split)

lemma seen_judge_order_levels [frontier]: "rt_seen (judge_order_levels W K entry coid leg market read_started R) = rt_seen R"
  by (simp add: judge_order_levels_def Let_def frontier case_prod_unfold split: option.split sum.split list.split bool.split)

lemma seen_observe_exit_leg_push [frontier]: "rt_seen (observe_exit_leg_push W K entry coid leg market R) = rt_seen R"
  by (simp add: observe_exit_leg_push_def Let_def frontier case_prod_unfold split: option.split sum.split list.split bool.split)

lemma seen_observe_entry_push [frontier]: "rt_seen (observe_entry_push W K entry coid market R) = rt_seen R"
  by (simp add: observe_entry_push_def Let_def frontier case_prod_unfold split: option.split sum.split list.split bool.split)

lemma seen_judged_as [frontier]: "rt_seen (judged_as v order_id terms R) = rt_seen R"
  by (simp add: judged_as_def Let_def frontier case_prod_unfold split: option.split sum.split list.split bool.split)

lemma seen_judge_tpsl_order [frontier]: "rt_seen (judge_tpsl_order W K market now order_id R) = rt_seen R"
  by (simp add: judge_tpsl_order_def Let_def frontier case_prod_unfold split: option.split sum.split list.split bool.split)

lemma seen_judge_tpsl_orders [frontier]: "rt_seen (judge_tpsl_orders W K market now xs R) = rt_seen R"
  by (induction xs arbitrary: R) (auto simp: Let_def frontier case_prod_unfold split: option.split sum.split list.split bool.split)

lemma seen_judge_pending_tpsl_orders [frontier]: "rt_seen (judge_pending_tpsl_orders W K market now R) = rt_seen R"
  by (simp add: judge_pending_tpsl_orders_def Let_def frontier case_prod_unfold split: option.split sum.split list.split bool.split)

lemma seen_withdraw_pending_tpsl_order [frontier]: "rt_seen (withdraw_pending_tpsl_order order_id status R) = rt_seen R"
  by (simp add: withdraw_pending_tpsl_order_def Let_def frontier case_prod_unfold split: option.split sum.split list.split bool.split)

lemma seen_observe_foreign_tpsl_order [frontier]: "rt_seen (observe_foreign_tpsl_order W K market now entry R) = rt_seen R"
  by (simp add: observe_foreign_tpsl_order_def Let_def frontier case_prod_unfold split: option.split sum.split list.split bool.split)

lemma seen_withdraw_unshown [frontier]: "rt_seen (withdraw_unshown shown read_at xs R) = rt_seen R"
  by (induction xs arbitrary: R) (auto simp: Let_def frontier case_prod_unfold split: option.split sum.split list.split bool.split)

lemma seen_observe_shown_order [frontier]: "rt_seen (observe_shown_order W K market now read_at entry R) = rt_seen R"
  by (simp add: observe_shown_order_def Let_def frontier case_prod_unfold split: option.split sum.split list.split bool.split)

lemma seen_observe_shown_orders [frontier]: "rt_seen (observe_shown_orders W K market now read_at xs R) = rt_seen R"
  by (induction xs arbitrary: R) (auto simp: Let_def frontier case_prod_unfold split: option.split sum.split list.split bool.split)

lemma seen_observe_open_order_levels [frontier]: "rt_seen (observe_open_order_levels W K market now read_at orders R) = rt_seen R"
  by (simp add: observe_open_order_levels_def Let_def frontier case_prod_unfold split: option.split sum.split list.split bool.split)

lemma seen_note_unproven_stop [frontier]: "rt_seen (note_unproven_stop idx row R) = rt_seen R"
  by (simp add: note_unproven_stop_def Let_def frontier case_prod_unfold split: option.split sum.split list.split bool.split)

lemma seen_baseline_bare_trading_stop [frontier]: "rt_seen (baseline_bare_trading_stop W K market idx key row R) = rt_seen R"
  by (simp add: baseline_bare_trading_stop_def Let_def frontier case_prod_unfold split: option.split sum.split list.split bool.split)

lemma seen_precede_own_trading_stop [frontier]: "rt_seen (precede_own_trading_stop W market idx key venue row R) = rt_seen R"
  by (simp add: precede_own_trading_stop_def Let_def frontier case_prod_unfold split: option.split sum.split list.split bool.split)

lemma seen_note_leg_view [frontier]: "rt_seen (note_leg_view idx row now read_at R) = rt_seen R"
  by (simp add: note_leg_view_def Let_def frontier case_prod_unfold split: option.split sum.split list.split bool.split)

lemma seen_judge_trading_stop [frontier]: "rt_seen (judge_trading_stop W K market read_at idx key first_view row R) = rt_seen R"
  by (simp add: judge_trading_stop_def Let_def frontier case_prod_unfold split: option.split sum.split list.split bool.split)

lemma seen_observe_current_row [frontier]: "rt_seen (observe_current_row W K market read_at idx sz first_view row R) = rt_seen R"
  by (simp add: observe_current_row_def Let_def frontier case_prod_unfold split: option.split sum.split list.split bool.split)

lemma seen_observe_position_row [frontier]: "rt_seen (observe_position_row W K market now read_at row R) = rt_seen R"
  by (simp add: observe_position_row_def Let_def frontier case_prod_unfold split: option.split sum.split list.split bool.split)

lemma seen_observe_rows [frontier]: "rt_seen (observe_rows W K market now read_at xs R) = rt_seen R"
  by (induction xs arbitrary: R) (auto simp: Let_def frontier case_prod_unfold split: option.split sum.split list.split bool.split)

lemma seen_observe_position_rows [frontier]: "rt_seen (observe_position_rows W K market now read_at rows R) = rt_seen R"
  by (simp add: observe_position_rows_def Let_def frontier case_prod_unfold split: option.split sum.split list.split bool.split)

lemma seen_baseline_from_last_view [frontier]: "rt_seen (baseline_from_last_view W K market idx R) = rt_seen R"
  by (simp add: baseline_from_last_view_def Let_def frontier case_prod_unfold split: option.split sum.split list.split bool.split)

lemma seen_note_share_start [frontier]: "rt_seen (note_share_start W K market entry before after xs R) = rt_seen R"
  by (induction xs arbitrary: R) (auto simp: Let_def frontier case_prod_unfold split: option.split sum.split list.split bool.split)

lemma seen_net_side_share [frontier]: "rt_seen (net_side_share W K market side quantity mirror R) = rt_seen R"
  by (simp add: net_side_share_def Let_def frontier case_prod_unfold split: option.split sum.split list.split bool.split)

lemma seen_set_ledger [frontier]: "rt_seen (set_ledger idx L R) = rt_seen R"
  by (simp add: set_ledger_def Let_def frontier case_prod_unfold split: option.split sum.split list.split bool.split)

lemma seen_sync_hedge_leg [frontier]: "rt_seen (sync_hedge_leg W K market idx target mirror R) = rt_seen R"
  by (simp add: sync_hedge_leg_def Let_def frontier case_prod_unfold split: option.split sum.split list.split bool.split)

lemma seen_cut_taken [frontier]: "rt_seen (cut_taken W K market side quantity mirror R) = rt_seen R"
  by (simp add: cut_taken_def Let_def frontier case_prod_unfold split: option.split sum.split list.split bool.split)

lemma seen_sync_one_way [frontier]: "rt_seen (sync_one_way W K market idx target taken mirror R) = rt_seen R"
  unfolding sync_one_way_def Let_def by (simp only: if_distrib [of rt_seen] frontier if_cancel)

lemma seen_sync_leg_journal [frontier]: "rt_seen (sync_leg_journal W K market idx mirror R) = rt_seen R"
  by (simp add: sync_leg_journal_def Let_def frontier case_prod_unfold split: option.split sum.split list.split bool.split)

lemma seen_log_ledger_clamp [frontier]: "rt_seen (log_ledger_clamp market idx o1 R) = rt_seen R"
  by (simp add: log_ledger_clamp_def Let_def frontier case_prod_unfold split: option.split sum.split list.split bool.split)

lemma seen_log_settled_execution [frontier]: "rt_seen (log_settled_execution e o1 R) = rt_seen R"
  by (simp add: log_settled_execution_def Let_def frontier case_prod_unfold split: option.split sum.split list.split bool.split)

lemma seen_log_foreign [frontier]: "rt_seen (log_foreign e o1 R) = rt_seen R"
  by (simp add: log_foreign_def Let_def frontier case_prod_unfold split: option.split sum.split list.split bool.split)

lemma seen_log_outcome [frontier]: "rt_seen (log_outcome market idx o1 R) = rt_seen R"
  by (simp add: log_outcome_def Let_def frontier case_prod_unfold split: option.split sum.split list.split bool.split)

lemma seen_report_external_close [frontier]: "rt_seen (report_external_close e o1 R) = rt_seen R"
  by (simp add: report_external_close_def Let_def frontier case_prod_unfold split: option.split sum.split list.split bool.split)

lemma seen_report_outcome [frontier]: "rt_seen (report_outcome o1 R) = rt_seen R"
  by (simp add: report_outcome_def Let_def frontier case_prod_unfold split: option.split sum.split list.split bool.split)

lemma seen_fold: "(\<And>x R. rt_seen (f x R) = rt_seen R) \<Longrightarrow> rt_seen (fold f xs R) = rt_seen R"
  by (induction xs arbitrary: R) simp_all

lemma seen_ledger_apply [frontier]: "rt_seen (ledger_apply market idx outcomes R) = rt_seen R"
  by (simp add: ledger_apply_def seen_fold frontier)

lemma seen_persist_ledger_credits [frontier]: "rt_seen (persist_ledger_credits idx cs R) = rt_seen R"
  by (simp add: persist_ledger_credits_def Let_def frontier case_prod_unfold split: option.split sum.split list.split bool.split)

lemma seen_start_leg [frontier]: "rt_seen (fst (start_leg W K market idx journal R)) = rt_seen R"
  by (simp add: start_leg_def Let_def frontier case_prod_unfold split: option.split sum.split list.split bool.split)

lemma seen_advance_started [frontier]: "rt_seen (advance_started W K market now idx credits_before outcomes R) = rt_seen R"
  by (simp add: advance_started_def Let_def frontier case_prod_unfold split: option.split sum.split list.split bool.split)

lemma seen_advance_leg [frontier]: "rt_seen (advance_leg W K market now idx journal R) = rt_seen R"
  by (simp add: advance_leg_def Let_def frontier case_prod_unfold split: option.split sum.split list.split bool.split)

lemma seen_advance_legs [frontier]: "rt_seen (advance_legs W K market now journal xs R) = rt_seen R"
  by (induction xs arbitrary: R) (auto simp: Let_def frontier case_prod_unfold split: option.split sum.split list.split bool.split)

lemma seen_ledger_advance [frontier]: "rt_seen (ledger_advance W K market now R) = rt_seen R"
  by (simp add: ledger_advance_def Let_def frontier case_prod_unfold split: option.split sum.split list.split bool.split)

lemma seen_note_ledger_seq [frontier]: "rt_seen (note_ledger_seq market entry R) = rt_seen R"
  by (simp add: note_ledger_seq_def Let_def frontier case_prod_unfold split: option.split sum.split list.split bool.split)

lemma seen_take_ledger_exec_id [frontier]: "rt_seen (take_ledger_exec_id exec_id R) = rt_seen R"
  by (simp add: take_ledger_exec_id_def Let_def frontier case_prod_unfold split: option.split sum.split list.split bool.split)

lemma seen_enter_own [frontier]: "rt_seen (enter_own W K market idx e R) = rt_seen R"
  by (simp add: enter_own_def Let_def frontier case_prod_unfold split: option.split sum.split list.split bool.split)

lemma seen_shift_share [frontier]: "rt_seen (shift_share idx d R) = rt_seen R"
  by (simp add: shift_share_def Let_def frontier case_prod_unfold split: option.split sum.split list.split bool.split)

lemma seen_enter_own_legs [frontier]: "rt_seen (enter_own_legs W K market entry exec_id seq moved share credit xs R) = rt_seen R"
  by (induction xs arbitrary: R) (auto simp: Let_def frontier case_prod_unfold split: option.split sum.split list.split bool.split)

lemma seen_note_own_execution [frontier]: "rt_seen (note_own_execution W K market now entry reducing share credit R) = rt_seen R"
  by (simp add: note_own_execution_def Let_def frontier case_prod_unfold split: option.split sum.split list.split bool.split)

lemma seen_enter_foreign [frontier]: "rt_seen (enter_foreign market idx e R) = rt_seen R"
  by (simp add: enter_foreign_def Let_def frontier case_prod_unfold split: option.split sum.split list.split bool.split)

lemma seen_enter_foreign_legs [frontier]: "rt_seen (enter_foreign_legs market entry exec_id seq origin xs R) = rt_seen R"
  by (induction xs arbitrary: R) (auto simp: Let_def frontier case_prod_unfold split: option.split sum.split list.split bool.split)

lemma seen_note_external_execution [frontier]: "rt_seen (note_external_execution W K market now entry ambiguous R) = rt_seen R"
  by (simp add: note_external_execution_def Let_def frontier case_prod_unfold split: option.split sum.split num.split)

lemma seen_note_non_trade_execution [frontier]: "rt_seen (note_non_trade_execution W K market now entry R) = rt_seen R"
  by (simp add: note_non_trade_execution_def Let_def frontier case_prod_unfold split: option.split sum.split list.split bool.split)

lemma seen_ledger_reduce_credit [frontier]: "rt_seen (fst (ledger_reduce_credit market entry side q R)) = rt_seen R"
  by (simp add: ledger_reduce_credit_def Let_def frontier case_prod_unfold split: option.split sum.split list.split bool.split)

lemma seen_ledger_entry_credit [frontier]: "rt_seen (fst (ledger_entry_credit W K market entry side q journal_before R)) = rt_seen R"
  proof (cases "\<exists>L seq. ps_ledgers (rt_positions R) ONE_WAY_IDX = Some L \<and> parse_seq (jget entry ''seq'') = Some seq \<and> is_side side")
  case False
  then show ?thesis by (auto simp: ledger_entry_credit_def split: option.split)
next
  case True
  then obtain L seq where p: "ps_ledgers (rt_positions R) ONE_WAY_IDX = Some L" "parse_seq (jget entry ''seq'') = Some seq"
    "is_side side" by auto
  let ?t = "qty_tolerance market" and ?d = "leg_reduced_direction side R"
  define journal where "journal = run_owned_signed_size (fk_base K) (if rt_has_store R then so_live (rows_of W) (rt_store R) else [])"
  define booked where "booked = min q (max 0 ((journal_before - journal) * ?d))"
  define inside where "inside = min booked (max 0 (journal_before * ?d))"
  obtain L1 t1 where 1: "(if inside > 0 then take_credit seq inside ?d ?t L else (L, 0)) = (L1, t1)" by (metis surj_pair)
  define beyond where "beyond = min (booked - inside) (max 0 (- (journal + t1 * ?d) * ?d - max (- ll_cursor_leg L1 * ?d) 0))"
  obtain L2 t2 where 2: "(if beyond > ?t then take_credit seq beyond ?d ?t L1 else (L1, 0)) = (L2, t2)" by (metis surj_pair)
  show ?thesis
    unfolding ledger_entry_credit_def p prod.case option.case Let_def journal_def [symmetric] booked_def [symmetric]
      inside_def [symmetric] 1 beyond_def [symmetric] 2
    by (simp add: p frontier)
qed

lemma seen_note_unbooked_fills [frontier]: "rt_seen (note_unbooked_fills row order_id cum R) = rt_seen R"
  by (simp add: note_unbooked_fills_def Let_def frontier case_prod_unfold split: option.split sum.split list.split bool.split)

lemma seen_note_progress_of_rows [frontier]: "rt_seen (note_progress_of_rows open_orders xs R) = rt_seen R"
  by (induction xs arbitrary: R) (auto simp: Let_def frontier case_prod_unfold split: option.split sum.split list.split bool.split)

lemma seen_note_open_order_fill_progress [frontier]: "rt_seen (note_open_order_fill_progress W open_orders R) = rt_seen R"
  by (simp add: note_open_order_fill_progress_def Let_def frontier case_prod_unfold split: option.split sum.split list.split bool.split)

lemma seen_disappearance_present [frontier]: "rt_seen (fst (disappearance_present W K market now read_started orders_read position_rows R)) = rt_seen R"
  by (simp add: disappearance_present_def Let_def frontier case_prod_unfold split: option.split sum.split list.split bool.split)

lemma seen_set_row [frontier]: "rt_seen (set_row W coid f R) = rt_seen R"
  by (simp add: set_row_def Let_def frontier case_prod_unfold split: option.split sum.split list.split bool.split)

lemma seen_close_row [frontier]: "rt_seen (close_row W coid R) = rt_seen R"
  by (simp add: close_row_def Let_def frontier case_prod_unfold split: option.split sum.split list.split bool.split)

lemma seen_settle_entry_row [frontier]: "rt_seen (settle_entry_row W market row cum order_id R) = rt_seen R"
  by (simp add: settle_entry_row_def Let_def frontier case_prod_unfold split: option.split sum.split list.split bool.split)

lemma seen_retire_cancelled_row [frontier]: "rt_seen (retire_cancelled_row W K market coid cum order_id R) = rt_seen R"
  by (simp add: retire_cancelled_row_def Let_def frontier case_prod_unfold split: option.split sum.split list.split bool.split)

lemma seen_retire_vanished_cancelled_row [frontier]: "rt_seen (retire_vanished_cancelled_row W K market row R) = rt_seen R"
  by (simp add: retire_vanished_cancelled_row_def Let_def frontier case_prod_unfold split: option.split sum.split list.split bool.split)

lemma seen_close_swept [frontier]: "rt_seen (close_swept W K xs R) = rt_seen R"
  by (induction xs arbitrary: R) (auto simp: Let_def frontier case_prod_unfold split: option.split sum.split list.split bool.split)

lemma seen_close_entry_rows_when_flat [frontier]: "rt_seen (close_entry_rows_when_flat W K market spot_net R) = rt_seen R"
  by (simp add: close_entry_rows_when_flat_def Let_def frontier case_prod_unfold split: option.split sum.split list.split bool.split)

lemma seen_reject_parked_dispatch [frontier]: "rt_seen (reject_parked_dispatch W row existing R) = rt_seen R"
  by (simp add: reject_parked_dispatch_def Let_def frontier case_prod_unfold split: option.split sum.split list.split bool.split)

lemma seen_judge_parked_row [frontier]: "rt_seen (fst (judge_parked_row W lookups row R)) = rt_seen R"
  by (simp add: judge_parked_row_def Let_def frontier case_prod_unfold split: option.split sum.split list.split bool.split)

lemma seen_parked_rows_pass [frontier]: "rt_seen (fst (parked_rows_pass W K lookups now_ms xs seen R)) = rt_seen R"
  by (induction xs arbitrary: seen R) (auto simp: Let_def frontier case_prod_unfold split: option.split sum.split list.split bool.split)

lemma seen_resolve_parked_dispatches [frontier]: "rt_seen (resolve_parked_dispatches W K lookups now_ms R) = rt_seen R"
  by (simp add: resolve_parked_dispatches_def Let_def frontier case_prod_unfold split: option.split sum.split list.split bool.split)

lemma seen_check_market_entry [frontier]: "rt_seen (fst (check_market_entry W lookups row R)) = rt_seen R"
  by (simp add: check_market_entry_def Let_def frontier case_prod_unfold split: option.split sum.split list.split bool.split)

lemma seen_check_market_entries [frontier]: "rt_seen (fst (check_market_entries W K lookups now_ms xs candidates R)) = rt_seen R"
  by (induction xs arbitrary: candidates R) (auto simp: Let_def frontier case_prod_unfold split: option.split sum.split list.split bool.split)

lemma seen_note_unbooked_market_entries [frontier]: "rt_seen (fst (note_unbooked_market_entries W K market lookups now_ms R)) = rt_seen R"
  by (simp add: note_unbooked_market_entries_def Let_def frontier case_prod_unfold split: option.split sum.split list.split bool.split)

lemma seen_settle_cancelled_entry [frontier]: "rt_seen (fst (settle_cancelled_entry W K market lookups row R)) = rt_seen R"
  by (simp add: settle_cancelled_entry_def Let_def frontier case_prod_unfold split: option.split sum.split list.split bool.split)

lemma seen_settle_cancelled_rows [frontier]: "rt_seen (fst (settle_cancelled_rows W K market lookups xs R)) = rt_seen R"
  by (induction xs arbitrary: R) (auto simp: Let_def frontier case_prod_unfold split: option.split sum.split list.split bool.split)

lemma seen_settle_cancelled_entries [frontier]: "rt_seen (fst (settle_cancelled_entries W K market lookups R)) = rt_seen R"
  by (simp add: settle_cancelled_entries_def Let_def frontier case_prod_unfold split: option.split sum.split list.split bool.split)

lemma seen_settle_filled_row [frontier]: "rt_seen (settle_filled_row W row cum R) = rt_seen R"
  by (simp add: settle_filled_row_def Let_def frontier case_prod_unfold split: option.split sum.split list.split bool.split)

lemma seen_judge_found_order [frontier]: "rt_seen (fst (judge_found_order W row existing R)) = rt_seen R"
  by (simp add: judge_found_order_def Let_def frontier case_prod_unfold split: option.split sum.split list.split bool.split)

lemma seen_confirm_vanished_order [frontier]: "rt_seen (fst (confirm_vanished_order W market lookups row R)) = rt_seen R"
  by (simp add: confirm_vanished_order_def Let_def frontier case_prod_unfold split: option.split sum.split list.split bool.split)

lemma seen_confirm_missing [frontier]: "rt_seen (fst (confirm_missing W K market lookups position_rows row R)) = rt_seen R"
  by (simp add: confirm_missing_def Let_def frontier case_prod_unfold split: option.split sum.split list.split bool.split)

section \<open>The parts of a fill\<close>

lemma seen_fill_parts [frontier]:
  "rt_seen (note_own_fill_time market ts R) = rt_seen R"
  "rt_seen (fst (advance_cursor W coid q R)) = rt_seen R"
  "rt_seen (fst (trim_order W entry coid leg sz R)) = rt_seen R"
  by (simp_all add: note_own_fill_time_def advance_cursor_def trim_order_def Let_def frontier split: option.split)

lemma seen_core_fill:
  assumes "core_fill W K market entry coid from_entry leg side q price fee sz cum credit R = Inr (R1, x)"
  shows "rt_seen R1 = rt_seen R"
  using assms by (auto simp: core_fill_def Let_def res_bind_Inr_iff split: if_splits)

lemma seen_settle_fill [frontier]:
  "rt_seen (fl_rt (settle_fill W K market entry coid leg side q is_full credit prior S)) = rt_seen (fl_rt S)"
  by (simp add: settle_fill_def Let_def on_rt_def case_prod_unfold frontier split: option.split)

end
