(* ===== verification/Fills_Theorems.thy ===== *)
theory Fills_Theorems
  imports Frontier Share_Netting
begin

text \<open>
  What the private stream of \<^verbatim>\<open>src/src/pynecore_bybit/events.py\<close> guarantees about a fired trading stop: it
  books no more than it closed and, where the ledger proves it, exactly the run's share of that.
\<close>

section \<open>Claims on a fired stop\<close>

lemma claim_of_qty [simp]: "claim_qty (claim_of row leg q) = q"
  by (simp add: claim_of_def claim_qty_def)

lemma split_claims_parts:
  "split_claims leg rows used left = (claims, rest) \<Longrightarrow> 0 \<le> left \<Longrightarrow>
   sum_list (map claim_qty claims) + rest = left \<and> 0 \<le> rest \<and> length claims = length rows \<and>
   (\<forall>c \<in> set claims. 0 \<le> claim_qty c)"
proof (induction leg rows used left arbitrary: claims rest rule: split_claims.induct)
  case (1 leg used left)
  then show ?case by simp
next
  case (2 leg row q rows used left)
  let ?part = "min (max 0 (q - used)) left"
  obtain cs r where r: "split_claims leg rows (max 0 (used - q)) (left - ?part) = (cs, r)" by fastforce
  have "sum_list (map claim_qty cs) + r = left - ?part \<and> 0 \<le> r \<and> length cs = length rows \<and>
      (\<forall>c \<in> set cs. 0 \<le> claim_qty c)"
    using "2.IH" [OF refl r] by simp
  then show ?case using "2.prems" by (auto simp: Let_def r)
qed

lemma ride_newest_parts:
  assumes "0 \<le> left" and "claims \<noteq> []" and "\<forall>c \<in> set claims. 0 \<le> claim_qty c"
  shows "sum_list (map claim_qty (ride_newest (claims, left))) = sum_list (map claim_qty claims) + left"
    and "\<forall>c \<in> set (ride_newest (claims, left)). 0 \<le> claim_qty c"
proof -
  obtain cs p f l q where c: "claims = cs @ [(p, f, l, q)]" using assms(2) by (metis rev_exhaust prod_cases4)
  show "sum_list (map claim_qty (ride_newest (claims, left))) = sum_list (map claim_qty claims) + left"
    using assms(1) by (simp add: ride_newest_def c claim_qty_def)
  show "\<forall>c \<in> set (ride_newest (claims, left)). 0 \<le> claim_qty c"
    using assms by (auto simp: ride_newest_def c claim_qty_def)
qed

lemma wire_qtys_length:
  "ownership_wire_qtys W K market price rows R = (R1, Inr qs) \<Longrightarrow> length qs = length rows"
  by (induction rows arbitrary: R R1 qs) (auto split: prod.splits sum.splits)

lemma whole_claim_parts:
  assumes "0 < q" and "0 \<le> share" and "t \<ge> 0"
  shows "0 \<le> whole_claim t share claimed q" "whole_claim t share claimed q \<le> q"
    and "share > t \<or> claimed > t \<Longrightarrow> whole_claim t share claimed q = (if share > t then min q share else 0)"
  using assms by (auto simp: whole_claim_def)

lemma stop_share_parts:
  assumes "0 < q" and "0 \<le> share" and "t \<ge> 0"
  shows "0 \<le> stop_share t proven share claimed sz q" "stop_share t proven share claimed sz q \<le> q"
    and "proven \<Longrightarrow> stop_share t proven share claimed sz q = (if share > t then min q share else 0)"
  using assms by (auto simp: stop_share_def)

lemma claims_sum:
  assumes c: "claims_of_candidates W K market leg share claimed proven q price rows R = (R1, Inr (claims, ambiguous))"
    and some: "claims \<noteq> []" and q: "0 < q" and share: "0 \<le> share"
    and not_flat: "proven \<Longrightarrow> share > qty_tolerance market \<or> claimed > qty_tolerance market"
  shows "(\<forall>c \<in> set claims. 0 \<le> claim_qty c) \<and> sum_list (map claim_qty claims) \<le> q \<and>
    (proven \<longrightarrow> sum_list (map claim_qty claims) = (if share > qty_tolerance market then min q share else 0))"
proof -
  let ?t = "qty_tolerance market"
  have t: "?t \<ge> 0" by (rule tolerance_nonneg)
  show ?thesis
  proof (cases "\<exists>row. rows = [row]")
    case True
    then obtain row where rows: "rows = [row]" by auto
    have claims: "claims = [claim_of row leg (whole_claim ?t share claimed q)]"
      using c by (simp add: claims_of_candidates_def Let_def rows)
    show ?thesis using whole_claim_parts [OF q share t, of claimed] not_flat
      by (auto simp: claims)
  next
    case False
    obtain R2 r where r: "ownership_wire_qtys W K market price rows R = (R2, r)" by fastforce
    have "claims_of_candidates W K market leg share claimed proven q price rows R =
      (case ownership_wire_qtys W K market price rows R of
         (R1, Inl e) \<Rightarrow> (R1, Inl e)
       | (R1, Inr qs) \<Rightarrow>
           (let sz = sum_list qs in
            if \<not> one_leg K rows \<or> (q < sz - ?t \<and> \<not> claimed \<ge> sz - ?t) then (R1, Inr ([], True))
            else (R1, Inr (ride_newest (split_claims leg (zip rows qs) claimed
                             (stop_share ?t proven share claimed sz q)), False))))"
      using False by (simp add: claims_of_candidates_def Let_def split: list.split)
    then obtain qs where qs: "r = Inr qs" and one: "one_leg K rows"
      and claims: "claims = ride_newest (split_claims leg (zip rows qs) claimed (stop_share ?t proven share claimed (sum_list qs) q))"
      using c some by (auto simp: r Let_def split: sum.splits if_splits)
    obtain cs rest where sc: "split_claims leg (zip rows qs) claimed (stop_share ?t proven share claimed (sum_list qs) q) = (cs, rest)"
      by fastforce
    note own = stop_share_parts [OF q share t, where claimed = claimed and sz = "sum_list qs"]
    have parts: "sum_list (map claim_qty cs) + rest = stop_share ?t proven share claimed (sum_list qs) q" "0 \<le> rest"
        "length cs = length (zip rows qs)" "\<forall>c \<in> set cs. 0 \<le> claim_qty c"
      using split_claims_parts [OF sc own(1)] by auto
    have "rows \<noteq> []" using one by (auto simp: one_leg_def)
    then have "cs \<noteq> []" using parts(3) wire_qtys_length r qs by force
    note ride = ride_newest_parts [OF parts(2) this parts(4)]
    have "claims = ride_newest (cs, rest)" using claims by (simp add: sc)
    then show ?thesis using ride parts(1) own by simp
  qed
qed

text \<open>The slices of the claims: quantities, fees.\<close>

definition slice_qty :: "fill_slice \<Rightarrow> rat" where
  "slice_qty s = finite_or_zero (row_float (fst s) ''execQty'')"

definition slice_fee :: "fill_slice \<Rightarrow> rat" where
  "slice_fee s = finite_or_zero (row_float (fst s) ''execFee'')"

lemma slice_fields:
  "slice_qty (slice_entry entry q fee sid, idn) = q" "slice_fee (slice_entry entry q fee sid, idn) = fee"
  by (simp_all add: slice_qty_def slice_fee_def slice_entry_def row_float_def jget_update finite_or_zero_def py_or_def)

lemma cut_slices_sums:
  assumes "claims \<noteq> []"
  shows "map slice_qty (cut_slices entry single sz fee left claims) = map claim_qty claims \<and>
    sum_list (map slice_fee (cut_slices entry single sz fee left claims)) = left"
  using assms by (induction claims arbitrary: left) (auto simp: Let_def slice_fields)

lemma claim_slices_parts:
  fixes entry claims
  defines "q \<equiv> finite_or_zero (row_float entry ''execQty'')" and "sz \<equiv> sum_list (map claim_qty claims)"
    and "slices \<equiv> venue_bracket_claim_slices entry claims"
  assumes q: "0 < q" and le: "sz \<le> q"
  shows "(sz \<le> FILL_EPS \<longrightarrow> slices = []) \<and>
    (FILL_EPS < sz \<longrightarrow>
       map slice_qty slices = map claim_qty claims \<and>
         sum_list (map slice_fee slices) = finite_or_zero (row_float entry ''execFee'') * (sz / q) \<or>
       map fst slices = [entry] \<and> \<bar>sz - q\<bar> \<le> FILL_EPS)"
proof -
  have "claims \<noteq> []" if "FILL_EPS < sz" using that by (auto simp: sz_def FILL_EPS_def)
  then show ?thesis
    using q le cut_slices_sums [of claims entry "length claims = 1" sz]
    by (auto simp: slices_def venue_bracket_claim_slices_def Let_def q_def [symmetric] sz_def [symmetric])
qed

lemma open_credit_nonneg: "t \<ge> 0 \<Longrightarrow> 0 \<le> open_credit seq d t L"
proof -
  assume t: "t \<ge> 0"
  have "0 \<le> sum_list (map (\<lambda>c. fst (snd c)) (filter (credit_open seq d t) cs))" for cs
    using t by (induction cs) (auto simp: credit_open_def)
  then show ?thesis by (simp add: open_credit_def)
qed

lemma reduce_credit_nonneg: "0 \<le> ledger_reduce_credit_open market entry side R"
  by (simp add: ledger_reduce_credit_open_def Let_def open_credit_nonneg [OF tolerance_nonneg] split: option.split)

text \<open>The part of a leg the run may still have closed: its journal share and the open credit.\<close>

definition closable_share :: "'s framework_ops \<Rightarrow> keys \<Rightarrow> instrument_info \<Rightarrow> jdict \<Rightarrow> 's runtime \<Rightarrow> rat" where
  "closable_share W K market entry R =
     (let side = lower (jstr entry ''side'') in
      \<bar>journal_leg_share W (fk_base K) R (closed_leg side (rt_positions R))\<bar> +
      ledger_reduce_credit_open market entry side R)"

lemma closing_fields_pos: "closing_fields entry = Some (q, price) \<Longrightarrow> 0 < q"
  by (auto simp: closing_fields_def split: sum.splits num.splits if_splits)

lemma attributed:
  assumes "attribute_venue_bracket_execution W K Z market entry S = (S', Inr (claims, ambiguous))" and "claims \<noteq> []"
  obtains leg q price R1 where "closing_fields entry = Some (q, price)"
    and "claims_of_candidates W K market leg (closable_share W K market entry (fl_rt S)) (venue_stop_claimed entry S)
           (leg_share_proven market (lower (jstr entry ''side'')) (fl_rt S)) q price
           (stop_candidates W Z entry (fl_rt S)) (fl_rt S) = (R1, Inr (claims, ambiguous))"
    and "leg_share_proven market (lower (jstr entry ''side'')) (fl_rt S) \<longrightarrow>
           closable_share W K market entry (fl_rt S) > qty_tolerance market \<or>
           venue_stop_claimed entry S > qty_tolerance market"
    and "fl_claims S' = fl_claims S @ map (\<lambda>c. (jstr entry ''orderId'', jstr entry ''execId'', claim_qty c)) claims"
proof -
  let ?side = "lower (jstr entry ''side'')" and ?R = "fl_rt S"
  define share where "share = closable_share W K market entry ?R"
  have share: "\<bar>journal_leg_share W (fk_base K) ?R (closed_leg ?side (rt_positions ?R))\<bar> +
      ledger_reduce_credit_open market entry ?side ?R = share"
    by (simp add: share_def closable_share_def Let_def)
  note un = assms(1) [unfolded attribute_venue_bracket_execution_def Let_def share]
  have go: "rt_has_store ?R \<and> jstr entry ''orderLinkId'' = []" using un assms(2) by (auto split: if_splits)
  obtain leg q price where f: "map_of VENUE_STOP_ORDER_LEG (jstr entry ''stopOrderType'') = Some leg"
      "closing_fields entry = Some (q, price)"
    using un assms(2) go by (auto split: option.splits)
  obtain R1 r where r: "claims_of_candidates W K market leg share (venue_stop_claimed entry S)
      (leg_share_proven market ?side ?R) q price (stop_candidates W Z entry ?R) ?R = (R1, r)" by fastforce
  have some: "leg_share_proven market ?side ?R \<Longrightarrow> share > qty_tolerance market \<or> venue_stop_claimed entry S > qty_tolerance market"
    and rr: "r = Inr (claims, ambiguous)"
    and cl: "fl_claims S' = fl_claims S @ map (\<lambda>c. (jstr entry ''orderId'', jstr entry ''execId'', claim_qty c)) claims"
    using un assms(2) go by (auto simp: f r note_claims_def split: if_splits sum.splits list.splits prod.splits)
  show thesis
    by (rule that [OF f(2), of leg R1]) (use r rr some cl in \<open>simp_all add: share_def\<close>)
qed

section \<open>Properties: fired trading stops\<close>

text \<open>
  An execution of a fired trading stop is booked for the exits whose ownership rows were live when
  it fired, and only within what it closed: the claims are not negative and together at most the
  executed quantity. When the position ledger proves the share of the leg, they are exactly the smaller
  of the execution and the share the run may still have closed there, nothing when that is within the
  tolerance. The slices handed to the core carry those quantities and the fee in proportion, unless one
  claim takes the row whole; the claims are recorded for the later executions of the stop.
\<close>

theorem fired_stop_books_own_share:
  assumes "attribute_venue_bracket_execution W K Z market entry S = (S', Inr (claims, ambiguous))" and "claims \<noteq> []"
  shows "\<exists>q price. closing_fields entry = Some (q, price) \<and>
    (let sz = sum_list (map claim_qty claims);
         share = closable_share W K market entry (fl_rt S);
         slices = venue_bracket_claim_slices entry claims
     in (\<forall>c \<in> set claims. 0 \<le> claim_qty c) \<and> sz \<le> q \<and>
        (leg_share_proven market (lower (jstr entry ''side'')) (fl_rt S) \<longrightarrow>
           sz = (if share > qty_tolerance market then min q share else 0)) \<and>
        (sz \<le> FILL_EPS \<longrightarrow> slices = []) \<and>
        (FILL_EPS < sz \<longrightarrow>
           map slice_qty slices = map claim_qty claims \<and>
             sum_list (map slice_fee slices) = finite_or_zero (row_float entry ''execFee'') * (sz / q) \<or>
           map fst slices = [entry] \<and> \<bar>sz - q\<bar> \<le> FILL_EPS) \<and>
        fl_claims S' = fl_claims S @ map (\<lambda>c. (jstr entry ''orderId'', jstr entry ''execId'', claim_qty c)) claims)"
proof -
  let ?R = "fl_rt S"
  obtain leg q price R1 where f: "closing_fields entry = Some (q, price)"
    and c: "claims_of_candidates W K market leg (closable_share W K market entry ?R) (venue_stop_claimed entry S)
        (leg_share_proven market (lower (jstr entry ''side'')) ?R) q price (stop_candidates W Z entry ?R) ?R =
        (R1, Inr (claims, ambiguous))"
    and some: "leg_share_proven market (lower (jstr entry ''side'')) ?R \<longrightarrow>
        closable_share W K market entry ?R > qty_tolerance market \<or> venue_stop_claimed entry S > qty_tolerance market"
    and cl: "fl_claims S' = fl_claims S @ map (\<lambda>c. (jstr entry ''orderId'', jstr entry ''execId'', claim_qty c)) claims"
    by (rule attributed [OF assms], rule that)
  have q: "0 < q" by (rule closing_fields_pos [OF f])
  have qf: "finite_or_zero (row_float entry ''execQty'') = q"
    using f by (auto simp: closing_fields_def finite_or_zero_def split: sum.splits num.splits if_splits)
  have share: "0 \<le> closable_share W K market entry ?R"
    by (simp add: closable_share_def Let_def reduce_credit_nonneg)
  have sums: "(\<forall>x \<in> set claims. 0 \<le> claim_qty x) \<and> sum_list (map claim_qty claims) \<le> q \<and>
      (leg_share_proven market (lower (jstr entry ''side'')) ?R \<longrightarrow>
        sum_list (map claim_qty claims) =
          (if closable_share W K market entry ?R > qty_tolerance market
           then min q (closable_share W K market entry ?R) else 0))"
    by (rule claims_sum [OF c assms(2) q share]) (use some in blast)
  note cut = claim_slices_parts [where entry = entry and claims = claims, unfolded qf, OF q]
  show ?thesis unfolding Let_def
    by (rule exI [of _ q], rule exI [of _ price]) (use f sums cut cl in simp)
qed

end
