(* ===== verification/Spec2Isabelle.thy ===== *)
theory Spec2Isabelle
  imports Ledger_Theorems Hosts Market_Data Rest Live_Theorems Inventory Inverse_Sizing Adoption Recovery State_Query Glue_Theorems Guard_Theorems Reconcile_Theorems Fills_Theorems
begin

text \<open>
  Verification library for the Bybit plugin of PyneCore (\<^verbatim>\<open>src/src/pynecore_bybit\<close>).

  \<^bold>\<open>The program.\<close> The plugin connects one strategy run to one symbol of the venue. Its parts:
    \<^item> the provider (\<^verbatim>\<open>provider.py\<close>, \<^verbatim>\<open>models.py\<close>) resolves the symbol, describes it to the framework and
      downloads candles; \<^verbatim>\<open>live_provider.py\<close> bridges the public kline stream to the bars the script sees;
    \<^item> \<^verbatim>\<open>rest.py\<close> sends every signed request, \<^verbatim>\<open>exceptions.py\<close> classifies what fails, \<^verbatim>\<open>hosts.py\<close> picks the
      endpoints, \<^verbatim>\<open>helpers.py\<close> formats quantities, prices and ids;
    \<^item> the broker is one object of several mix-ins over the attributes of \<^verbatim>\<open>_base.py\<close>. The durable order rows
      in the framework's store say what the run owns of the account's position. \<^verbatim>\<open>positions.py\<close> reads and
      scopes positions; \<^verbatim>\<open>events.py\<close> books executions on rows; \<^verbatim>\<open>ledger.py\<close> keeps, per leg, the evidence
      that decides whether a loss of size was the run's, and \<^verbatim>\<open>protection.py\<close> feeds the ledgers, carries
      their verdicts to rows, credits and reports and watches the run's orders for foreign edits;
      \<^verbatim>\<open>reconcile.py\<close> re-checks rows the venue no longer shows, \<^verbatim>\<open>recovery.py\<close> the submissions a crash left
      in flight; \<^verbatim>\<open>state.py\<close> answers the engine and runs the one-shot startup, of which the adoption
      baseline (\<^verbatim>\<open>positions.py\<close>) is the last step; \<^verbatim>\<open>execution.py\<close> sizes and dispatches orders.

  \<^bold>\<open>Theories.\<close> They follow the imports; each opens with what it models.
    \<^item> \<^verbatim>\<open>Bybit_Prelude\<close>: numbers, JSON values, results, dictionaries, and \<open>op_machine\<close>, the locale of a
      machine whose operations keep an invariant. \<^verbatim>\<open>Py_Values\<close>: truthiness, \<open>dict.get\<close>, \<open>str\<close>, the number
      parsers.
    \<^item> \<^verbatim>\<open>Errors\<close>, \<^verbatim>\<open>Hosts\<close>, \<^verbatim>\<open>Calendar\<close>, \<^verbatim>\<open>Helpers\<close>: \<^verbatim>\<open>exceptions.py\<close>, \<^verbatim>\<open>hosts.py\<close>, and the calendar,
      the decimal grid and the ids of \<^verbatim>\<open>helpers.py\<close>.
    \<^item> \<^verbatim>\<open>Instruments\<close>, \<^verbatim>\<open>Market_Data\<close>: \<^verbatim>\<open>models.py\<close> and \<^verbatim>\<open>provider.py\<close>. \<^verbatim>\<open>Rest\<close>: \<^verbatim>\<open>rest.py\<close>.
    \<^item> \<^verbatim>\<open>Live_Feed\<close>, \<^verbatim>\<open>Live_Theorems\<close>: \<^verbatim>\<open>live_provider.py\<close> with the receive loop of \<^verbatim>\<open>ws.py\<close>. A trace records
      what the consumer was handed.
    \<^item> \<^verbatim>\<open>Ledger\<close>, \<^verbatim>\<open>Ledger_Inv\<close>, \<^verbatim>\<open>Ledger_Theorems\<close>: \<^verbatim>\<open>ledger.py\<close>, its invariant, its verdicts.
    \<^item> \<^verbatim>\<open>Inventory\<close>: \<^verbatim>\<open>inventory.py\<close>, the port the framework's spot manager reads the venue through.
    \<^item> \<^verbatim>\<open>Position_Reads\<close>, \<^verbatim>\<open>Journal\<close>, \<^verbatim>\<open>Inverse_Sizing\<close>: the position parsers and the size cache, the durable
      entry rows with their netting, clamp and scoping, the inverse mirror and the order sizes
      (\<^verbatim>\<open>positions.py\<close>, \<^verbatim>\<open>events.py\<close>, \<^verbatim>\<open>execution.py\<close>).
    \<^item> \<^verbatim>\<open>Order_Reads\<close>, \<^verbatim>\<open>Adoption\<close>, \<^verbatim>\<open>Recovery\<close>, \<^verbatim>\<open>State_Query\<close>: the order lookup and execution walk, the
      startup baseline, \<^verbatim>\<open>recovery.py\<close>, \<^verbatim>\<open>state.py\<close>.
    \<^item> \<^verbatim>\<open>Runtime\<close>: the shared attributes of a running instance over the framework's store. \<^verbatim>\<open>Guard\<close>,
      \<^verbatim>\<open>Guard_Theorems\<close>: the external-intervention guard. \<^verbatim>\<open>Ledger_Glue\<close>, \<^verbatim>\<open>Share_Netting\<close>,
      \<^verbatim>\<open>Glue_Theorems\<close>: the ledgers in the running instance. \<^verbatim>\<open>Reconcile\<close>, \<^verbatim>\<open>Reconcile_Theorems\<close>: the
      reconcile cadence.
    \<^item> \<^verbatim>\<open>Fills\<close>, \<^verbatim>\<open>Frontier\<close>, \<^verbatim>\<open>Fills_Theorems\<close>: the private stream of \<^verbatim>\<open>events.py\<close>: frames, the booking of
      executions on rows with the attribution of the venue's own stop executions, the order pushes, the
      backfill and the watch pass; the steps that leave the set of booked executions alone; and what a
      fired trading stop books.

  \<^bold>\<open>Conventions.\<close>
    \<^item> Definitions carry the name of the method they translate, without its leading underscore. Attributes
      of an object become a record, passed and returned; a method that raises returns \<open>Inl\<close> of the
      error, a block of a larger method is a definition of its own.
    \<^item> Python floats and decimals are exact rationals with the special values as constructors (\<open>num\<close>); a
      signalling NaN counts as a NaN, rounding error and the 28-digit decimal context are not modelled.
      Dictionaries are association lists where order is visible, maps otherwise; JSON is a datatype.
    \<^item> An \<open>await\<close> on the venue is an argument: the answer, or the function that answers. Frames that arrive
      during an await are arguments of the step that awaits. So a theorem quantified over a run covers
      every interleaving at the granularity of the steps.
    \<^item> The framework's store, dispatch journal, intervention guard and disappearance tracker are records of
      functions with their documented laws as locales (\<open>order_store\<close>, \<open>dispatch_store\<close> and
      \<open>runtime_store\<close>, each extending the one before), interpreted on executable stores; the spot
      manager is a type variable with the functions called on it.

  \<^bold>\<open>Lemma groups.\<close> Feed: closed bars in order and once, no stale forming bar, no gap after a reconnect on an
  honest venue, and two interleavings where the code falls short. Ledger: the share stays within the
  journal, a shown loss rests on a foreign execution with a complete proof, credits are bounded. Ownership:
  netting, clamp, hedge scoping and ledger synchronisation refine arithmetic on the owned exposure, and keep
  the venue's fill cursors; a fired stop books the run's share. Guard: an edit is reported once, never the bot's own write, and a
  foreign TP/SL order only on evidence. Startup: baseline and recovery commit complete, proven passes and leave what is unproven.
  Reconcile: every retirement rests on a conclusive read. REST, sizing, provider: bounded retries with the
  gate before every write, canonical wire numbers, exact contract arithmetic, closed candles only.

  \<^bold>\<open>Bounds and fuel.\<close> Pagers carry fuel because a venue may hand out cursors without end; \<open>symbol_paging_returns\<close>
  and \<open>catch_up_complete\<close> show that fuel beyond the number of pages is enough. The retries of \<^verbatim>\<open>rest.py\<close> and the
  passes of the baseline are bounded by the code's own constants. Walks over windows are functions with a
  measure on the time left. Everything else is structural recursion.

  \<^bold>\<open>Not modelled.\<close>
    \<^item> Sockets, handshakes, pings, tasks, locks and wake-up events: only the order in which handlers run is
      visible, and it is a parameter. Log lines and audit events are left out except where the code reads
      them back (the credits) or where they are the verdict.
    \<^item> The dispatch handlers of \<^verbatim>\<open>execution.py\<close> beyond sizing and the order reads, and the leg operations of
      \<^verbatim>\<open>positions.py\<close> beyond reads, scoping, mirror and baseline. Of the private stream the socket, its
      back-off and the soak observers.
    \<^item> Details of messages: reason texts of ledger origins, the detail of lag errors. Em dashes in messages are
      written as hyphens, texts are restricted to code points up to 255.
    \<^item> The broker lab (\<^verbatim>\<open>src/broker_lab/suite.py\<close>) is a suite of conformance scenarios for the plugin, a test. \<^verbatim>\<open>config.py\<close> and \<^verbatim>\<open>__init__.py\<close> only declare.
    \<^item> Quantities of an execution that are not finite count as unreadable; legs with a position index other
      than 0, 1 and 2 do not occur; the intervention policy is one that lets the run go on.
\<close>

end
